(* ===== verification/Prelude.thy ===== *)
theory Prelude
  imports Complex_Main
begin

text \<open>
  Shared vocabulary of the development: Python values and string methods, rows of a
  table kept in primary-key order, and the hint collections the component theories use.

  Conventions.  A naive local timestamp (\<open>"%Y-%m-%d %H:%M:%S"\<close>) is an \<open>int\<close>, the
  number of seconds since an arbitrary midnight: the code only compares, adds and prints
  these, and the fixed-width text orders as the instant does.  A Python \<open>float\<close> is a
  \<open>rat\<close>: comparison and arithmetic are exact, IEEE rounding is not modelled.  A
  \<open>str\<close> is an Isabelle \<open>string\<close> (bytes); \<open>strip\<close>, \<open>lower\<close>, \<open>upper\<close> act on ASCII.
\<close>

type_synonym time = int

named_theorems store_simps \<open>reading a table after a write\<close>
named_theorems frame_simps \<open>fields an operation leaves alone\<close>

subsection \<open>Python string methods\<close>

definition is_ws :: "char \<Rightarrow> bool" where
  "is_ws c = (let n = (of_char c :: nat) in (9 \<le> n \<and> n \<le> 13) \<or> (28 \<le> n \<and> n \<le> 32))"

definition strip :: "string \<Rightarrow> string" where
  "strip s = rev (dropWhile is_ws (rev (dropWhile is_ws s)))"

definition lower_char :: "char \<Rightarrow> char" where
  "lower_char c = (let n = (of_char c :: nat) in if 65 \<le> n \<and> n \<le> 90 then char_of (n + 32) else c)"

definition upper_char :: "char \<Rightarrow> char" where
  "upper_char c = (let n = (of_char c :: nat) in if 97 \<le> n \<and> n \<le> 122 then char_of (n - 32) else c)"

definition lower :: "string \<Rightarrow> string" where "lower s = map lower_char s"

definition upper :: "string \<Rightarrow> string" where "upper s = map upper_char s"

definition starts_with :: "string \<Rightarrow> string \<Rightarrow> bool" where
  "starts_with p s = (take (length p) s = p)"

definition ends_with :: "string \<Rightarrow> string \<Rightarrow> bool" where
  "ends_with p s = (length p \<le> length s \<and> drop (length s - length p) s = p)"

lemma lower_Nil [simp]: "lower [] = []"
  by (simp add: lower_def)

lemma lower_states [simp]:
  "lower ''off'' = ''off''" "lower ''on'' = ''on''" "lower ''starting'' = ''starting''"
  "lower ''stopping'' = ''stopping''" "lower ''paused'' = ''paused''" "lower ''fault'' = ''fault''"
  by (simp_all add: lower_def lower_char_def Let_def)

lemma strip_empty [simp]: "strip [] = []"
  by (simp add: strip_def)

lemma strip_hd: "strip s \<noteq> [] \<Longrightarrow> \<not> is_ws (hd (strip s))"
proof -
  assume ne: "strip s \<noteq> []"
  define t where "t = dropWhile is_ws s"
  have "\<exists>u. t = strip s @ u"
    unfolding strip_def t_def[symmetric]
    by (metis rev_append rev_rev_ident takeWhile_dropWhile_id)
  then obtain u where u: "t = strip s @ u" by blast
  with ne have "t \<noteq> []" "hd t = hd (strip s)" by auto
  then show ?thesis unfolding t_def by (metis hd_dropWhile)
qed

lemma strip_last: "strip s \<noteq> [] \<Longrightarrow> \<not> is_ws (last (strip s))"
  by (metis hd_dropWhile last_rev rev_is_Nil_conv strip_def)

lemma strip_strip [simp]: "strip (strip s) = strip s"
proof (cases "strip s = []")
  case False
  then have "dropWhile is_ws (strip s) = strip s" "dropWhile is_ws (rev (strip s)) = rev (strip s)"
    using strip_hd [of s] strip_last [of s] by (cases "strip s"; simp; fail | simp add: dropWhile_eq_self_iff hd_rev)+
  then show ?thesis by (subst (1) strip_def) simp
qed simp

lemma starts_with_Nil [simp]: "starts_with [] s"
  by (simp add: starts_with_def)

lemma starts_with_Cons [simp]:
  "starts_with (c # p) s = (case s of [] \<Rightarrow> False | d # s' \<Rightarrow> c = d \<and> starts_with p s')"
  by (auto simp: starts_with_def split: list.splits)

lemma starts_with_append: "starts_with p (p @ s)"
  by (simp add: starts_with_def)

subsection \<open>Python truthiness of optional values\<close>

definition truthy_int :: "int option \<Rightarrow> bool" where
  "truthy_int v = (case v of None \<Rightarrow> False | Some n \<Rightarrow> n \<noteq> 0)"

definition int_or0 :: "int option \<Rightarrow> int" where
  "int_or0 v = (case v of None \<Rightarrow> 0 | Some n \<Rightarrow> n)"

definition str_or :: "string \<Rightarrow> string option \<Rightarrow> string" where
  "str_or d v = (case v of None \<Rightarrow> d | Some s \<Rightarrow> (if s = [] then d else s))"

lemma int_or0_simps [simp]: "int_or0 None = 0" "int_or0 (Some n) = n"
  by (simp_all add: int_or0_def)

lemma truthy_int_simps [simp]: "truthy_int None = False" "truthy_int (Some n) = (n \<noteq> 0)"
  by (simp_all add: truthy_int_def)

lemma truthy_int_iff: "truthy_int v = (int_or0 v \<noteq> 0)"
  by (cases v) auto

subsection \<open>Python \<open>round\<close>: half to even\<close>

definition py_round :: "rat \<Rightarrow> int" where
  "py_round q = (let f = \<lfloor>q\<rfloor>; d = q - of_int f in
     if d < 1/2 then f else if 1/2 < d then f + 1 else if even f then f else f + 1)"

definition round_dec :: "nat \<Rightarrow> rat \<Rightarrow> rat" where
  "round_dec n q = of_int (py_round (q * 10 ^ n)) / 10 ^ n"

lemma py_round_of_int [simp]: "py_round (of_int n) = n"
  by (simp add: py_round_def)

lemma py_round_near: "\<bar>of_int (py_round q) - q\<bar> \<le> 1/2"
proof -
  have "of_int \<lfloor>q\<rfloor> \<le> q" "q < of_int \<lfloor>q\<rfloor> + 1" by linarith+
  then show ?thesis by (auto simp: py_round_def Let_def abs_le_iff)
qed

lemma py_round_bounds:
  "q - 1/2 \<le> of_int (py_round q)" "of_int (py_round q) \<le> q + 1/2"
  using py_round_near [of q] by linarith+

lemma py_round_mono: "p \<le> q \<Longrightarrow> py_round p \<le> py_round q"
proof (cases "\<lfloor>p\<rfloor> = \<lfloor>q\<rfloor>")
  case True
  assume "p \<le> q"
  with True show ?thesis by (auto simp: py_round_def Let_def)
next
  case False
  assume pq: "p \<le> q"
  with False have "\<lfloor>p\<rfloor> + 1 \<le> \<lfloor>q\<rfloor>" using floor_mono [OF pq] by linarith
  moreover have "py_round p \<le> \<lfloor>p\<rfloor> + 1" "\<lfloor>q\<rfloor> \<le> py_round q"
    by (auto simp: py_round_def Let_def)
  ultimately show ?thesis by linarith
qed

lemma py_round_nonneg: "0 \<le> q \<Longrightarrow> 0 \<le> py_round q"
  using py_round_mono [of 0 q] py_round_of_int [of 0] by simp

subsection \<open>Tables: rows in primary-key order\<close>

definition row_at :: "('r \<Rightarrow> int) \<Rightarrow> 'r list \<Rightarrow> int \<Rightarrow> 'r option" where
  "row_at key rows i = List.find (\<lambda>r. key r = i) rows"

definition upd_rows :: "('r \<Rightarrow> bool) \<Rightarrow> ('r \<Rightarrow> 'r) \<Rightarrow> 'r list \<Rightarrow> 'r list" where
  "upd_rows p f rows = map (\<lambda>r. if p r then f r else r) rows"

lemma row_at_Nil [simp]: "row_at key [] i = None"
  by (simp add: row_at_def)

lemma row_at_Cons [simp]: "row_at key (r # rows) i = (if key r = i then Some r else row_at key rows i)"
  by (simp add: row_at_def)

lemma row_at_key: "row_at key rows i = Some r \<Longrightarrow> key r = i"
  by (auto simp: row_at_def find_Some_iff)

lemma row_at_mem: "row_at key rows i = Some r \<Longrightarrow> r \<in> set rows"
  by (auto simp: row_at_def find_Some_iff)

lemma row_at_append:
  "row_at key (xs @ ys) i = (case row_at key xs i of None \<Rightarrow> row_at key ys i | Some r \<Rightarrow> Some r)"
  by (induction xs) auto

lemma row_at_None_iff: "row_at key rows i = None \<longleftrightarrow> i \<notin> key ` set rows"
  by (auto simp: row_at_def find_None_iff)

lemma row_at_filter_other:
  "row_at key (filter (\<lambda>r. key r \<noteq> j) rows) i = (if i = j then None else row_at key rows i)"
  by (induction rows) auto

lemma row_at_mem_unique:
  "distinct (map key rows) \<Longrightarrow> r \<in> set rows \<Longrightarrow> row_at key rows (key r) = Some r"
  by (induction rows) (auto simp: rev_image_eqI)

lemma upd_rows_Nil [simp]: "upd_rows p f [] = []"
  by (simp add: upd_rows_def)

lemma upd_rows_Cons [simp]: "upd_rows p f (r # rows) = (if p r then f r else r) # upd_rows p f rows"
  by (simp add: upd_rows_def)

lemma length_upd_rows [simp]: "length (upd_rows p f rows) = length rows"
  by (simp add: upd_rows_def)

text \<open>
  The contract of an \<open>UPDATE\<close>: it never changes the primary key.  Every table of the
  model (zones, groups, zone_runs, programs) interprets it.
\<close>

locale row_update =
  fixes key :: "'r \<Rightarrow> int"
    and upd :: "'u \<Rightarrow> 'r \<Rightarrow> 'r"
  assumes key_upd: "key (upd u r) = key r"
begin

lemma keys_upd_rows: "map key (upd_rows p (upd u) rows) = map key rows"
  by (induction rows) (auto simp: key_upd)

lemma row_at_upd_rows:
  "row_at key (upd_rows p (upd u) rows) i = map_option (\<lambda>r. if p r then upd u r else r) (row_at key rows i)"
  by (induction rows) (auto simp: key_upd)

lemma row_at_upd_key:
  "row_at key (upd_rows (\<lambda>r. key r = j) (upd u) rows) i =
     (if i = j then map_option (upd u) (row_at key rows i) else row_at key rows i)"
  by (induction rows) (auto simp: key_upd)

lemma distinct_keys_upd: "distinct (map key rows) \<Longrightarrow> distinct (map key (upd_rows p (upd u) rows))"
  by (simp add: keys_upd_rows)

end

text \<open>
  An operation that touches one row of a store: under an invariant it keeps, \<open>oper k\<close>
  rewrites the value read at \<open>key k\<close> by \<open>f k\<close> and leaves every other one alone.  Running
  it over a list with distinct keys rewrites exactly the listed rows.
\<close>

locale pointwise_op =
  fixes inv :: "'s \<Rightarrow> bool"
    and val :: "'s \<Rightarrow> int \<Rightarrow> 'v option"
    and key :: "'k \<Rightarrow> int"
    and oper :: "'k \<Rightarrow> 's \<Rightarrow> 's"
    and f :: "'k \<Rightarrow> 'v \<Rightarrow> 'v"
  assumes inv_oper: "inv s \<Longrightarrow> inv (oper k s)"
    and val_oper: "inv s \<Longrightarrow> val (oper k s) j = (if j = key k then map_option (f k) (val s j) else val s j)"
begin

lemma inv_fold: "inv s \<Longrightarrow> inv (fold oper ks s)"
  by (induction ks arbitrary: s) (auto simp: inv_oper)

lemma val_fold_other: "inv s \<Longrightarrow> j \<notin> key ` set ks \<Longrightarrow> val (fold oper ks s) j = val s j"
  by (induction ks arbitrary: s) (auto simp: inv_oper val_oper)

lemma val_fold:
  "inv s \<Longrightarrow> distinct (map key ks) \<Longrightarrow>
     val (fold oper ks s) j = (case row_at key ks j of None \<Rightarrow> val s j | Some k \<Rightarrow> map_option (f k) (val s j))"
proof (induction ks arbitrary: s)
  case (Cons k ks)
  then have "j = key k \<Longrightarrow> row_at key ks j = None" by (simp add: row_at_None_iff)
  with Cons show ?case by (auto simp: inv_oper val_oper split: option.splits)
qed simp

end

text \<open>When the rewrite does not depend on how often it ran, repeated keys do no harm.\<close>

locale idem_op = pointwise_op +
  assumes f_idem: "key k = key k' \<Longrightarrow> f k' (f k v) = f k v"
begin

lemma val_fold_idem:
  "inv s \<Longrightarrow> val (fold oper ks s) j = (case row_at key ks j of None \<Rightarrow> val s j | Some k \<Rightarrow> map_option (f k) (val s j))"
proof (induction ks arbitrary: s)
  case (Cons k ks)
  show ?case
  proof (cases "row_at key ks j")
    case None
    with Cons show ?thesis by (auto simp: inv_oper val_oper)
  next
    case (Some k')
    then have "key k' = j" by (rule row_at_key)
    with Some Cons show ?thesis
      by (auto simp: inv_oper val_oper option.map_comp comp_def f_idem intro!: option.map_cong)
  qed
qed simp

end

subsection \<open>Machines\<close>

text \<open>
  A machine takes the steps of a list one after another.  \<open>safe_machine\<close>: its steps keep an
  invariant.  \<open>trap\<close>: a condition that, once it holds, no step undoes.
\<close>

locale safe_machine =
  fixes step :: "'a \<Rightarrow> 's \<Rightarrow> 's"
    and ok :: "'s \<Rightarrow> bool"
  assumes ok_step: "ok s \<Longrightarrow> ok (step x s)"
begin

lemma ok_run: "ok s \<Longrightarrow> ok (fold step xs s)"
  by (induction xs arbitrary: s) (auto simp: ok_step)

end

locale trap = safe_machine +
  fixes caught :: "'s \<Rightarrow> bool"
  assumes caught_step: "ok s \<Longrightarrow> caught s \<Longrightarrow> caught (step x s)"
begin

lemma caught_run: "ok s \<Longrightarrow> caught s \<Longrightarrow> caught (fold step xs s)"
  by (induction xs arbitrary: s) (auto simp: ok_step caught_step)

end

end
