(* ===== verification/Topics.thy ===== *)
theory Topics
  imports Prelude
begin

text \<open>
  MQTT topic normalisation, \<open>utils.normalize_topic\<close> of \<open>src/utils.py\<close>.  Every publish,
  every subscription and every comparison of topics goes through it, so what it
  guarantees (one leading slash, the \<open>/on\<close> command suffix removed) is what lets a relay's
  echo be matched with the zone or the master valve it belongs to.
\<close>

definition normalize_topic :: "string \<Rightarrow> string" where
  "normalize_topic topic =
     (let s = strip topic in
      if s = [] then []
      else
        (let s1 = (if starts_with ''/'' s then CHR ''/'' # dropWhile (\<lambda>c. c = CHR ''/'') s
                   else CHR ''/'' # s)
         in if ends_with ''/on'' s1 then take (length s1 - 3) s1 else s1))"

definition is_base_topic :: "string \<Rightarrow> bool" where
  "is_base_topic t = (t = [] \<or> (hd t = CHR ''/'' \<and> (tl t = [] \<or> hd (tl t) \<noteq> CHR ''/'')))"

lemma hd_dropWhile_neq: "dropWhile P s = [] \<or> \<not> P (hd (dropWhile P s))"
  by (metis hd_dropWhile)

lemma is_base_topic_Cons: "is_base_topic (CHR ''/'' # r) \<longleftrightarrow> r = [] \<or> hd r \<noteq> CHR ''/''"
  by (simp add: is_base_topic_def)

lemma is_base_topic_take: "is_base_topic t \<Longrightarrow> is_base_topic (take n t)"
  by (cases t; cases n; cases "tl t"; cases "n - 1") (auto simp: is_base_topic_def take_Cons' hd_conv_nth)

text \<open>every normalised topic is empty or starts with exactly one slash, whatever the input.\<close>

theorem normalize_topic_base: "is_base_topic (normalize_topic t)"
proof -
  define s where "s = strip t"
  define s1 where "s1 = (if starts_with ''/'' s then CHR ''/'' # dropWhile (\<lambda>c. c = CHR ''/'') s
                         else CHR ''/'' # s)"
  have "is_base_topic s1" if "s \<noteq> []"
  proof (cases "starts_with ''/'' s")
    case True
    then show ?thesis
      using hd_dropWhile_neq [of "\<lambda>c. c = CHR ''/''" s] by (simp add: s1_def is_base_topic_Cons)
  next
    case False
    with that show ?thesis
      by (cases s) (auto simp: s1_def is_base_topic_Cons)
  qed
  then show ?thesis
    unfolding normalize_topic_def Let_def s_def [symmetric] s1_def [symmetric]
    by (auto simp: is_base_topic_take) (simp add: is_base_topic_def)
qed

lemma strip_no_ws:
  assumes "t \<noteq> []" "\<not> is_ws (hd t)" "\<not> is_ws (last t)"
  shows "strip t = t"
proof -
  from assms have a: "dropWhile is_ws t = t" by (cases t) auto
  from assms have "dropWhile is_ws (rev t) = rev t"
    by (cases "rev t") (auto simp: last_rev hd_rev [symmetric] dest: rev_eq_Cons_iff [THEN iffD1])
  with a show ?thesis by (simp add: strip_def)
qed

lemma slash_not_ws: "\<not> is_ws (CHR ''/'')"
  by (simp add: is_ws_def Let_def)

lemma base_topic_slashes:
  assumes "is_base_topic t" "t \<noteq> []"
  shows "CHR ''/'' # dropWhile (\<lambda>c. c = CHR ''/'') t = t"
proof -
  from assms obtain r where "t = CHR ''/'' # r" "r = [] \<or> hd r \<noteq> CHR ''/''"
    by (cases t) (auto simp: is_base_topic_def)
  then show ?thesis by (cases r) auto
qed

lemma normalize_topic_on_base:
  assumes "is_base_topic t" "t \<noteq> []" "\<not> is_ws (last t)"
  shows "normalize_topic t = (if ends_with ''/on'' t then take (length t - 3) t else t)"
proof -
  from assms obtain r where t: "t = CHR ''/'' # r"
    by (cases t) (auto simp: is_base_topic_def)
  have "strip t = t"
    using assms t slash_not_ws by (intro strip_no_ws) auto
  moreover have "starts_with ''/'' t" using t by simp
  ultimately show ?thesis
    using assms base_topic_slashes [OF assms(1,2)] by (simp add: normalize_topic_def Let_def)
qed

lemma ends_with_append: "ends_with p (s @ p)"
  by (simp add: ends_with_def)

text \<open>
  round trip between a base topic and its command topic.  For a topic in base form,
  the topic \<open>t/on\<close> that \<open>publish_mqtt_value\<close> writes to is normalised back to \<open>t\<close>.
\<close>

theorem normalize_command_topic:
  assumes "is_base_topic t" "t \<noteq> []" "t \<noteq> ''/''"
  shows "normalize_topic (t @ ''/on'') = t"
proof -
  from assms obtain r where t: "t = CHR ''/'' # r" "r \<noteq> []" "hd r \<noteq> CHR ''/''"
    by (cases t) (auto simp: is_base_topic_def)
  then have "is_base_topic (t @ ''/on'')" by (simp add: is_base_topic_def)
  moreover have "\<not> is_ws (last (t @ ''/on''))" by (simp add: is_ws_def Let_def)
  ultimately show ?thesis
    using normalize_topic_on_base [of "t @ ''/on''"] by (simp add: ends_with_append)
qed

theorem normalize_command_topic_witness:
  "normalize_topic (''/devices/wb-mr6c/controls/K1'' @ ''/on'') = ''/devices/wb-mr6c/controls/K1''"
  by (rule normalize_command_topic) (simp_all add: is_base_topic_def)

text \<open>
  Normalisation is not idempotent: the command suffix is removed once per call, and
  \<open>publish_mqtt_value\<close> normalises the topic its callers have already normalised.
\<close>

lemma normalize_topic_not_idempotent:
  "normalize_topic (normalize_topic ''a/on/on'') \<noteq> normalize_topic ''a/on/on''"
  by (simp add: normalize_topic_def Let_def strip_def is_ws_def ends_with_def)

end
