(* ===== verification/Zone_Store.thy ===== *)
theory Zone_Store
  imports Topics
begin

text \<open>
  The SQLite tables the irrigation logic lives on and the repository methods that read
  and write them: \<open>src/db/zones.py\<close> (zones, zone_runs), \<open>src/db/groups.py\<close> and the row
  lookups of \<open>src/db/mqtt.py\<close>.  A table is the list of its rows in primary-key order, which
  is the order every \<open>SELECT ... ORDER BY id\<close> of the code returns.  A repository method
  opens its own connection and turns \<open>sqlite3.Error\<close> into its error value; the flag
  \<open>db_up\<close> is false while SQLite raises, and each method then takes that branch.  A NULL
  \<open>state\<close> or \<open>topic\<close> is the empty string, which is how every reader treats it.
\<close>

subsection \<open>Rows\<close>

record zone =
  zid :: int
  zname :: string
  icon :: string
  duration :: "int option"
  group_id :: "int option"
  topic :: string
  mqtt_server_id :: "int option"
  zstate :: string
  commanded_state :: "string option"
  observed_state :: "string option"
  version :: int
  postpone_until :: "string option"
  postpone_reason :: "string option"
  photo_path :: "string option"
  photo_thumb :: "string option"
  watering_start_time :: "time option"
  watering_start_source :: "string option"
  scheduled_start_time :: "time option"
  planned_end_time :: "time option"
  last_avg_flow_lpm :: "rat option"
  last_total_liters :: "rat option"
  fault_count :: int
  last_fault :: "time option"
  pause_reason :: "string option"
  pause_remaining :: "int option"

record group =
  gid :: int
  gname :: string
  use_master_valve :: int
  master_mqtt_topic :: string
  master_mode :: "string option"
  master_mqtt_server_id :: "int option"
  master_valve_observed :: "string option"
  master_close_delay_sec :: "int option"
  use_water_meter :: int
  water_pulse_size :: "string option"
  water_base_value_m3 :: rat
  water_base_pulses :: int
  use_rain_sensor :: "int option"

record zone_run =
  run_id :: int
  run_zone :: int
  run_group :: int
  start_utc :: time
  end_utc :: "time option"
  start_monotonic :: rat
  end_monotonic :: "rat option"
  start_raw_pulses :: "int option"
  end_raw_pulses :: "int option"
  pulse_liters_at_start :: int
  base_m3_at_start :: "rat option"
  total_liters :: "rat option"
  avg_flow_lpm :: "rat option"
  run_status :: "string option"
  confirmed :: bool
  run_source :: "string option"

record program =
  prog_id :: int
  prog_name :: string
  prog_time :: string
  prog_days :: "int list"
  prog_zones :: "int list"
  prog_type :: string
  schedule_type :: string
  interval_days :: "int option"
  even_odd :: "string option"
  prog_color :: string
  prog_enabled :: bool
  extra_times :: "string list"

record mqtt_server =
  server_id :: int
  server_enabled :: bool

record db =
  zones :: "zone list"
  groups :: "group list"
  zone_runs :: "zone_run list"
  run_seq :: int
  programs :: "program list"
  cancellations :: "(int \<times> int \<times> int) list"
  servers :: "mqtt_server list"
  db_up :: bool

text \<open>Zone columns a caller can ask to write: one constructor per key of the update dicts.\<close>

datatype zone_upd =
    U_name string | U_icon string | U_duration "int option" | U_group "int option"
  | U_topic string | U_server "int option" | U_state string | U_commanded "string option"
  | U_observed "string option" | U_postpone "string option" | U_preason "string option"
  | U_photo "string option" | U_thumb "string option" | U_wstart "time option"
  | U_source "string option" | U_sched "time option" | U_planned "time option"
  | U_flow "rat option" | U_liters "rat option" | U_faults int | U_last_fault "time option"
  | U_last_watering "time option"

fun set_col :: "zone_upd \<Rightarrow> zone \<Rightarrow> zone" where
  "set_col (U_name v) z = z\<lparr>zname := v\<rparr>"
| "set_col (U_icon v) z = z\<lparr>icon := v\<rparr>"
| "set_col (U_duration v) z = z\<lparr>duration := v\<rparr>"
| "set_col (U_group v) z = z\<lparr>group_id := v\<rparr>"
| "set_col (U_topic v) z = z\<lparr>topic := v\<rparr>"
| "set_col (U_server v) z = z\<lparr>mqtt_server_id := v\<rparr>"
| "set_col (U_state v) z = z\<lparr>zstate := v\<rparr>"
| "set_col (U_commanded v) z = z\<lparr>commanded_state := v\<rparr>"
| "set_col (U_observed v) z = z\<lparr>observed_state := v\<rparr>"
| "set_col (U_postpone v) z = z\<lparr>postpone_until := v\<rparr>"
| "set_col (U_preason v) z = z\<lparr>postpone_reason := v\<rparr>"
| "set_col (U_photo v) z = z\<lparr>photo_path := v\<rparr>"
| "set_col (U_thumb v) z = z\<lparr>photo_thumb := v\<rparr>"
| "set_col (U_wstart v) z = z\<lparr>watering_start_time := v\<rparr>"
| "set_col (U_source v) z = z\<lparr>watering_start_source := v\<rparr>"
| "set_col (U_sched v) z = z\<lparr>scheduled_start_time := v\<rparr>"
| "set_col (U_planned v) z = z\<lparr>planned_end_time := v\<rparr>"
| "set_col (U_flow v) z = z\<lparr>last_avg_flow_lpm := v\<rparr>"
| "set_col (U_liters v) z = z\<lparr>last_total_liters := v\<rparr>"
| "set_col (U_faults v) z = z\<lparr>fault_count := v\<rparr>"
| "set_col (U_last_fault v) z = z\<lparr>last_fault := v\<rparr>"
| "set_col (U_last_watering v) z = z"

definition set_cols :: "zone_upd list \<Rightarrow> zone \<Rightarrow> zone" where
  "set_cols us z = fold set_col us z"

text \<open>The last value an update dict gives to \<open>state\<close>, if any.\<close>

fun upd_state :: "zone_upd list \<Rightarrow> string option" where
  "upd_state [] = None"
| "upd_state (u # us) = (case upd_state us of Some s \<Rightarrow> Some s
     | None \<Rightarrow> (case u of U_state s \<Rightarrow> Some s | _ \<Rightarrow> None))"

fun upd_commanded :: "zone_upd list \<Rightarrow> string option" where
  "upd_commanded [] = None"
| "upd_commanded (u # us) = (case upd_commanded us of Some s \<Rightarrow> Some s
     | None \<Rightarrow> (case u of U_commanded s \<Rightarrow> s | _ \<Rightarrow> None))"

lemma set_cols_simps [simp]:
  "set_cols [] z = z" "set_cols (u # us) z = set_cols us (set_col u z)"
  by (simp_all add: set_cols_def)

lemma zid_set_col [simp]: "zid (set_col u z) = zid z"
  by (cases u) auto

lemma zid_set_cols [simp]: "zid (set_cols us z) = zid z"
  by (induction us arbitrary: z) auto

lemma version_set_col [simp]: "version (set_col u z) = version z"
  by (cases u) auto

lemma version_set_cols [simp]: "version (set_cols us z) = version z"
  by (induction us arbitrary: z) auto

lemma zstate_set_cols: "zstate (set_cols us z) = (case upd_state us of None \<Rightarrow> zstate z | Some s \<Rightarrow> s)"
proof (induction us arbitrary: z)
  case (Cons u us)
  then show ?case by (cases u) (auto split: option.splits)
qed simp

subsection \<open>Reading\<close>

definition get_zones :: "'a db_scheme \<Rightarrow> zone list" where
  "get_zones d = (if db_up d then zones d else [])"

definition get_zone :: "'a db_scheme \<Rightarrow> int \<Rightarrow> zone option" where
  "get_zone d i = (if db_up d then row_at zid (zones d) i else None)"


text \<open>Group 0 stands for a missing group; 999 is the "ungrouped" bucket.\<close>

definition zone_gid :: "zone \<Rightarrow> int" where
  "zone_gid z = int_or0 (group_id z)"

definition get_zones_by_group :: "'a db_scheme \<Rightarrow> int \<Rightarrow> zone list" where
  "get_zones_by_group d g = (if db_up d then filter (\<lambda>z. group_id z = Some g) (zones d) else [])"

definition get_groups :: "'a db_scheme \<Rightarrow> group list" where
  "get_groups d = (if db_up d then groups d else [])"

definition get_mqtt_server :: "'a db_scheme \<Rightarrow> int \<Rightarrow> mqtt_server option" where
  "get_mqtt_server d i = (if db_up d then row_at server_id (servers d) i else None)"

definition get_zone_duration :: "'a db_scheme \<Rightarrow> int \<Rightarrow> int option" where
  "get_zone_duration d i =
     (if db_up d then (case row_at zid (zones d) i of None \<Rightarrow> Some 0 | Some z \<Rightarrow> duration z) else Some 0)"

subsection \<open>Writing zones\<close>

definition put_zone :: "int \<Rightarrow> (zone \<Rightarrow> zone) \<Rightarrow> 'a db_scheme \<Rightarrow> 'a db_scheme" where
  "put_zone i f d = d\<lparr>zones := upd_rows (\<lambda>z. zid z = i) f (zones d)\<rparr>"

text \<open>
  \<open>update_zone\<close> merges the dict into the current row and writes a fixed list of columns:
  \<open>postpone_reason\<close>, \<open>photo_thumb\<close>, \<open>version\<close> and the derived \<open>last_watering_time\<close> are
  not among them, and \<open>topic\<close> is stripped on every write.
\<close>

fun plain_writable :: "zone_upd \<Rightarrow> bool" where
  "plain_writable (U_preason v) = False"
| "plain_writable (U_thumb v) = False"
| "plain_writable (U_last_watering v) = False"
| "plain_writable u = True"

definition plain_write :: "zone_upd list \<Rightarrow> zone \<Rightarrow> zone" where
  "plain_write us z = (let z' = set_cols (filter plain_writable us) z in z'\<lparr>topic := strip (topic z')\<rparr>)"

definition drop_zone_from_programs :: "int \<Rightarrow> program list \<Rightarrow> program list" where
  "drop_zone_from_programs i ps = map (\<lambda>p. p\<lparr>prog_zones := filter (\<lambda>z. z \<noteq> i) (prog_zones p)\<rparr>) ps"

definition update_zone :: "int \<Rightarrow> zone_upd list \<Rightarrow> 'a db_scheme \<Rightarrow> 'a db_scheme" where
  "update_zone i us d =
     (case get_zone d i of
        None \<Rightarrow> d
      | Some z \<Rightarrow>
          (let d1 = put_zone i (plain_write us) d
           in if group_id (plain_write us z) = Some 999
              then d1\<lparr>programs := drop_zone_from_programs i (programs d1)\<rparr> else d1))"

text \<open>
  \<open>update_zone_versioned\<close> interpolates the dict keys as column names: a key that is no
  column (\<open>last_watering_time\<close>) makes the statement fail, which is the error result.
\<close>

fun is_column :: "zone_upd \<Rightarrow> bool" where
  "is_column (U_last_watering v) = False"
| "is_column u = True"

definition versioned_write :: "zone_upd list \<Rightarrow> zone \<Rightarrow> zone" where
  "versioned_write us z = (set_cols us z)\<lparr>version := version z + 1\<rparr>"

definition update_zone_versioned ::
  "int \<Rightarrow> zone_upd list \<Rightarrow> 'a db_scheme \<Rightarrow> (bool \<times> zone option) \<times> 'a db_scheme" where
  "update_zone_versioned i us d =
     (if \<not> db_up d then ((False, None), d)
      else case row_at zid (zones d) i of
             None \<Rightarrow> ((False, None), d)
           | Some z \<Rightarrow>
               if list_all is_column us
               then ((True, Some z), put_zone i (versioned_write us) d)
               else ((False, None), d))"

definition update_zone_postpone ::
  "int \<Rightarrow> string option \<Rightarrow> string option \<Rightarrow> 'a db_scheme \<Rightarrow> bool \<times> 'a db_scheme" where
  "update_zone_postpone i until reason d =
     (if db_up d then (True, put_zone i (set_cols [U_postpone until, U_preason reason]) d) else (False, d))"

definition update_zone_photo ::
  "int \<Rightarrow> string option \<Rightarrow> string option \<Rightarrow> bool \<Rightarrow> 'a db_scheme \<Rightarrow> bool \<times> 'a db_scheme" where
  "update_zone_photo i path thumb update_thumb d =
     (if \<not> db_up d then (False, d)
      else if update_thumb then (True, put_zone i (set_cols [U_photo path, U_thumb thumb]) d)
      else (True, put_zone i (set_cols [U_photo path]) d))"

definition delete_zone :: "int \<Rightarrow> 'a db_scheme \<Rightarrow> bool \<times> 'a db_scheme" where
  "delete_zone i d =
     (if db_up d then (True, d\<lparr>zones := filter (\<lambda>z. zid z \<noteq> i) (zones d)\<rparr>) else (False, d))"

definition clear_group_scheduled_starts :: "int \<Rightarrow> 'a db_scheme \<Rightarrow> 'a db_scheme" where
  "clear_group_scheduled_starts g d =
     (if db_up d
      then d\<lparr>zones := upd_rows (\<lambda>z. group_id z = Some g) (set_cols [U_sched None]) (zones d)\<rparr> else d)"

fun set_group_scheduled_starts :: "int \<Rightarrow> (int \<times> time) list \<Rightarrow> 'a db_scheme \<Rightarrow> 'a db_scheme" where
  "set_group_scheduled_starts g [] d = d"
| "set_group_scheduled_starts g ((i, ts) # sched) d =
     set_group_scheduled_starts g sched
       (if db_up d
        then d\<lparr>zones := upd_rows (\<lambda>z. zid z = i \<and> group_id z = Some g) (set_cols [U_sched (Some ts)]) (zones d)\<rparr>
        else d)"

definition clear_scheduled_for_zone_group_peers :: "int \<Rightarrow> int \<Rightarrow> 'a db_scheme \<Rightarrow> 'a db_scheme" where
  "clear_scheduled_for_zone_group_peers i g d =
     (if db_up d
      then d\<lparr>zones := upd_rows (\<lambda>z. group_id z = Some g \<and> zid z \<noteq> i) (set_cols [U_sched None]) (zones d)\<rparr>
      else d)"

subsection \<open>Creating and importing zones\<close>

text \<open>
  \<open>zone_req\<close> is the request dict after its ids were parsed with \<open>int\<close>; an absent key is
  \<open>None\<close>.  The defaults are the code's: the name and the icon are UTF-8 text.
\<close>

record zone_req =
  rq_id :: "int option"
  rq_name :: "string option"
  rq_icon :: "string option"
  rq_duration :: "int option"
  rq_group_id :: "int option"
  rq_group :: "int option"
  rq_topic :: "string option"
  rq_server :: "int option"

definition default_zone_name :: string where
  "default_zone_name = [CHR 0xD0, CHR 0x97, CHR 0xD0, CHR 0xBE, CHR 0xD0, CHR 0xBD, CHR 0xD0, CHR 0xB0]"

definition default_zone_icon :: string where
  "default_zone_icon = [CHR 0xF0, CHR 0x9F, CHR 0x8C, CHR 0xBF]"

definition rq_duration_or10 :: "zone_req \<Rightarrow> int" where
  "rq_duration_or10 r = (if truthy_int (rq_duration r) then int_or0 (rq_duration r) else 10)"

definition rq_target_group :: "zone_req \<Rightarrow> int" where
  "rq_target_group r = (case rq_group_id r of Some g \<Rightarrow> g
     | None \<Rightarrow> (case rq_group r of Some g \<Rightarrow> g | None \<Rightarrow> 1))"

definition new_zone :: "int \<Rightarrow> int option \<Rightarrow> zone_req \<Rightarrow> zone" where
  "new_zone i sid r =
     \<lparr>zid = i, zname = str_or default_zone_name (rq_name r), icon = str_or default_zone_icon (rq_icon r),
      duration = Some (rq_duration_or10 r), group_id = Some (rq_target_group r),
      topic = strip (str_or [] (rq_topic r)), mqtt_server_id = sid, zstate = ''off'',
      commanded_state = None, observed_state = None, version = 0,
      postpone_until = None, postpone_reason = None, photo_path = None, photo_thumb = None,
      watering_start_time = None, watering_start_source = None, scheduled_start_time = None,
      planned_end_time = None, last_avg_flow_lpm = None, last_total_liters = None,
      fault_count = 0, last_fault = None, pause_reason = None, pause_remaining = None\<rparr>"

text \<open>SQLite gives a row without an explicit id the largest id plus one.\<close>

definition next_rowid :: "('r \<Rightarrow> int) \<Rightarrow> 'r list \<Rightarrow> int" where
  "next_rowid key rows = (if rows = [] then 1 else Max (set (map key rows)) + 1)"

definition insert_zone :: "zone \<Rightarrow> 'a db_scheme \<Rightarrow> 'a db_scheme" where
  "insert_zone z d = d\<lparr>zones := insort_key zid z (zones d)\<rparr>"

definition auto_server :: "'a db_scheme \<Rightarrow> int option \<Rightarrow> int option" where
  "auto_server d sid =
     (case sid of Some s \<Rightarrow> Some s
      | None \<Rightarrow> (case filter server_enabled (servers d) of [s] \<Rightarrow> Some (server_id s) | _ \<Rightarrow> None))"

definition create_zone :: "zone_req \<Rightarrow> 'a db_scheme \<Rightarrow> zone option \<times> 'a db_scheme" where
  "create_zone r d =
     (if \<not> db_up d then (None, d)
      else
        (let sid = auto_server d (rq_server r);
             explicit = (case rq_id r of None \<Rightarrow> None
                         | Some i \<Rightarrow> (case row_at zid (zones d) i of None \<Rightarrow> Some i | Some z \<Rightarrow> None));
             i = (case explicit of Some i \<Rightarrow> i | None \<Rightarrow> next_rowid zid (zones d));
             d1 = insert_zone (new_zone i sid r) d
         in (get_zone d1 i, d1)))"

fun bulk_writable :: "zone_upd \<Rightarrow> bool" where
  "bulk_writable (U_name v) = True" | "bulk_writable (U_icon v) = True"
| "bulk_writable (U_duration v) = True" | "bulk_writable (U_group v) = True"
| "bulk_writable (U_topic v) = True" | "bulk_writable (U_state v) = True"
| "bulk_writable (U_postpone v) = True" | "bulk_writable (U_preason v) = True"
| "bulk_writable (U_photo v) = True" | "bulk_writable (U_wstart v) = True"
| "bulk_writable (U_sched v) = True" | "bulk_writable (U_flow v) = True"
| "bulk_writable (U_liters v) = True" | "bulk_writable (U_server v) = True"
| "bulk_writable u = False"

definition bulk_write :: "zone_upd list \<Rightarrow> zone \<Rightarrow> zone" where
  "bulk_write us z = (let z' = set_cols (filter bulk_writable us) z in z'\<lparr>topic := strip (topic z')\<rparr>)"

text \<open>Each entry is the parsed id (\<open>None\<close> when \<open>int\<close> fails) with its update dict.\<close>

fun bulk_update_loop ::
  "(int option \<times> zone_upd list) list \<Rightarrow> nat \<Rightarrow> int list \<Rightarrow> 'a db_scheme \<Rightarrow> (nat \<times> int list) \<times> 'a db_scheme" where
  "bulk_update_loop [] n bad d = ((n, bad), d)"
| "bulk_update_loop ((None, us) # es) n bad d = bulk_update_loop es n bad d"
| "bulk_update_loop ((Some i, us) # es) n bad d =
     (case row_at zid (zones d) i of
        None \<Rightarrow> bulk_update_loop es n (bad @ [i]) d
      | Some z \<Rightarrow> bulk_update_loop es (n + 1) bad (put_zone i (bulk_write us) d))"

definition bulk_update_zones ::
  "(int option \<times> zone_upd list) list \<Rightarrow> 'a db_scheme \<Rightarrow> (nat \<times> int list) \<times> 'a db_scheme" where
  "bulk_update_zones es d = (if db_up d then bulk_update_loop es 0 [] d else ((0, []), d))"

text \<open>The import only ever writes the columns of its whitelist; \<open>state\<close> is not one.\<close>

definition upsert_cols :: "zone_req \<Rightarrow> zone_upd list" where
  "upsert_cols r =
     (case rq_name r of None \<Rightarrow> [] | Some v \<Rightarrow> [U_name v]) @
     (case rq_icon r of None \<Rightarrow> [] | Some v \<Rightarrow> [U_icon v]) @
     (case rq_duration r of None \<Rightarrow> [] | Some v \<Rightarrow> [U_duration (Some v)]) @
     (if rq_group_id r \<noteq> None \<or> rq_group r \<noteq> None then [U_group (Some (rq_target_group r))] else []) @
     (case rq_topic r of None \<Rightarrow> [] | Some v \<Rightarrow> [U_topic (strip v)]) @
     (case rq_server r of None \<Rightarrow> [] | Some v \<Rightarrow> [U_server (Some v)])"

fun bulk_upsert_loop :: "zone_req list \<Rightarrow> nat \<Rightarrow> nat \<Rightarrow> 'a db_scheme \<Rightarrow> (nat \<times> nat) \<times> 'a db_scheme" where
  "bulk_upsert_loop [] created updated d = ((created, updated), d)"
| "bulk_upsert_loop (r # rs) created updated d =
     (case rq_id r of
        Some i \<Rightarrow>
          (case row_at zid (zones d) i of
             Some z \<Rightarrow> bulk_upsert_loop rs created (updated + 1) (put_zone i (set_cols (upsert_cols r)) d)
           | None \<Rightarrow> bulk_upsert_loop rs (created + 1) updated (insert_zone (new_zone i (rq_server r) r) d))
      | None \<Rightarrow>
          bulk_upsert_loop rs (created + 1) updated
            (insert_zone (new_zone (next_rowid zid (zones d)) (rq_server r) r) d))"

definition bulk_upsert_zones :: "zone_req list \<Rightarrow> 'a db_scheme \<Rightarrow> (nat \<times> nat) \<times> 'a db_scheme" where
  "bulk_upsert_zones rs d = (if db_up d then bulk_upsert_loop rs 0 0 d else ((0, 0), d))"


subsection \<open>What a write changes\<close>

interpretation zcols: row_update zid set_cols
  by unfold_locales simp

interpretation zplain: row_update zid plain_write
  by unfold_locales (simp add: plain_write_def Let_def)

interpretation zver: row_update zid versioned_write
  by unfold_locales (simp add: versioned_write_def)

interpretation zbulk: row_update zid bulk_write
  by unfold_locales (simp add: bulk_write_def Let_def)

lemma zones_put_zone [store_simps]: "zones (put_zone i f d) = upd_rows (\<lambda>z. zid z = i) f (zones d)"
  by (simp add: put_zone_def)

lemma put_zone_frame [frame_simps]:
  "groups (put_zone i f d) = groups d" "zone_runs (put_zone i f d) = zone_runs d"
  "run_seq (put_zone i f d) = run_seq d" "programs (put_zone i f d) = programs d"
  "cancellations (put_zone i f d) = cancellations d" "servers (put_zone i f d) = servers d"
  "db_up (put_zone i f d) = db_up d" "db.more (put_zone i f d) = db.more d"
  by (simp_all add: put_zone_def)

lemmas get_zone_put =
  get_zone_def zones_put_zone zcols.row_at_upd_key zplain.row_at_upd_key zver.row_at_upd_key zbulk.row_at_upd_key

lemma get_zone_put_versioned [store_simps]:
  "get_zone (put_zone i (versioned_write us) d) j =
     (if j = i then map_option (versioned_write us) (get_zone d j) else get_zone d j)"
  by (simp add: get_zone_put frame_simps)

lemma get_zone_put_plain [store_simps]:
  "get_zone (put_zone i (plain_write us) d) j =
     (if j = i then map_option (plain_write us) (get_zone d j) else get_zone d j)"
  by (simp add: get_zone_put frame_simps)

lemma get_zone_put_cols [store_simps]:
  "get_zone (put_zone i (set_cols us) d) j =
     (if j = i then map_option (set_cols us) (get_zone d j) else get_zone d j)"
  by (simp add: get_zone_put frame_simps)

lemma get_zone_id: "get_zone d i = Some z \<Longrightarrow> zid z = i"
  by (auto simp: get_zone_def dest: row_at_key split: if_splits)

lemma get_zone_programs [simp]: "get_zone (d\<lparr>programs := ps\<rparr>) j = get_zone d j"
  by (simp add: get_zone_def)

lemma get_zone_update_zone [store_simps]:
  "get_zone (update_zone i us d) j =
     (if j = i then map_option (plain_write us) (get_zone d j) else get_zone d j)"
proof (cases "get_zone d i")
  case None
  then show ?thesis by (auto simp: update_zone_def)
next
  case (Some z)
  then show ?thesis by (auto simp: update_zone_def Let_def get_zone_put_plain)
qed

lemma update_zone_frame [frame_simps]:
  "groups (update_zone i us d) = groups d" "zone_runs (update_zone i us d) = zone_runs d"
  "run_seq (update_zone i us d) = run_seq d" "cancellations (update_zone i us d) = cancellations d"
  "servers (update_zone i us d) = servers d" "db_up (update_zone i us d) = db_up d"
  "db.more (update_zone i us d) = db.more d"
  by (auto simp: update_zone_def Let_def frame_simps split: option.splits)

lemma plain_write_frame [simp]: "version (plain_write us z) = version z"
  by (simp add: plain_write_def Let_def)

lemma upd_state_filter_plain: "upd_state (filter plain_writable us) = upd_state us"
proof (induction us)
  case (Cons u us)
  then show ?case by (cases u) (auto split: option.splits)
qed simp

lemma zstate_plain_write: "zstate (plain_write us z) = (case upd_state us of None \<Rightarrow> zstate z | Some s \<Rightarrow> s)"
  by (simp add: plain_write_def Let_def zstate_set_cols upd_state_filter_plain)

lemma zstate_versioned_write:
  "zstate (versioned_write us z) = (case upd_state us of None \<Rightarrow> zstate z | Some s \<Rightarrow> s)"
  by (simp add: versioned_write_def zstate_set_cols)

subsection \<open>The zone table stays keyed and in key order\<close>

definition wf_zones :: "'a db_scheme \<Rightarrow> bool" where
  "wf_zones d = sorted_wrt (<) (map zid (zones d))"

lemma sorted_wrt_less_distinct: "sorted_wrt (<) (xs :: int list) \<Longrightarrow> distinct xs"
  by (induction xs) auto

lemma map_insort_key: "map key (insort_key key r rows) = insort (key r) (map key rows)"
  by (induction rows) auto

lemma sorted_wrt_less_insort:
  "sorted_wrt (<) (xs :: int list) \<Longrightarrow> i \<notin> set xs \<Longrightarrow> sorted_wrt (<) (insort i xs)"
  by (induction xs) (auto simp: set_insort_key)

lemma row_at_insert_key:
  "key r \<notin> key ` set rows \<Longrightarrow>
     row_at key (insort_key key r rows) i = (if i = key r then Some r else row_at key rows i)"
  by (induction rows) auto

lemma wf_zones_insert:
  "wf_zones d \<Longrightarrow> row_at zid (zones d) (zid z) = None \<Longrightarrow> wf_zones (insert_zone z d)"
  by (simp add: wf_zones_def insert_zone_def map_insort_key row_at_None_iff sorted_wrt_less_insort)

lemma next_rowid_fresh: "row_at key rows (next_rowid key rows) = None"
proof -
  have "key r < next_rowid key rows" if "r \<in> set rows" for r
  proof -
    from that have "key r \<le> Max (set (map key rows))" by (intro Max_ge) auto
    with that show ?thesis by (auto simp: next_rowid_def)
  qed
  then show ?thesis by (fastforce simp: row_at_None_iff)
qed

lemma zid_new_zone [simp]: "zid (new_zone i s r) = i"
  by (simp add: new_zone_def)

lemma wf_zones_put:
  assumes "\<And>z. zid (f z) = zid z"
  shows "wf_zones (put_zone i f d) = wf_zones d"
proof -
  have "map zid (upd_rows p f rows) = map zid rows" for p rows
    by (induction rows) (auto simp: assms)
  then show ?thesis by (simp add: wf_zones_def zones_put_zone)
qed

lemma wf_zones_filter: "wf_zones d \<Longrightarrow> wf_zones (d\<lparr>zones := filter p (zones d)\<rparr>)"
proof -
  have "sorted_wrt (<) (map zid rows) \<Longrightarrow> sorted_wrt (<) (map zid (filter p rows))" for rows
    by (induction rows) auto
  then show "wf_zones d \<Longrightarrow> ?thesis" by (simp add: wf_zones_def)
qed

lemma wf_zones_upd_cols: "wf_zones (d\<lparr>zones := upd_rows p (set_cols us) (zones d)\<rparr>) = wf_zones d"
  by (simp add: wf_zones_def zcols.keys_upd_rows)

lemma wf_zones_bulk_update_loop: "wf_zones d \<Longrightarrow> wf_zones (snd (bulk_update_loop es n bad d))"
  by (induction es n bad d rule: bulk_update_loop.induct)
    (auto simp: wf_zones_put bulk_write_def Let_def split: option.splits)

lemma wf_zones_bulk_upsert_loop: "wf_zones d \<Longrightarrow> wf_zones (snd (bulk_upsert_loop rs c u d))"
  by (induction rs c u d rule: bulk_upsert_loop.induct)
    (auto simp: wf_zones_put wf_zones_insert next_rowid_fresh split: option.splits)

lemma wf_zones_set_group_scheduled_starts: "wf_zones d \<Longrightarrow> wf_zones (set_group_scheduled_starts g sched d)"
  by (induction g sched d rule: set_group_scheduled_starts.induct) (auto simp: wf_zones_upd_cols)

text \<open>One step of the repository on the zone table.\<close>

inductive zone_repo_step :: "'a db_scheme \<Rightarrow> 'a db_scheme \<Rightarrow> bool" where
  create: "zone_repo_step d (snd (create_zone r d))"
| update: "zone_repo_step d (update_zone i us d)"
| versioned: "zone_repo_step d (snd (update_zone_versioned i us d))"
| postpone: "zone_repo_step d (snd (update_zone_postpone i until reason d))"
| photo: "zone_repo_step d (snd (update_zone_photo i path thumb b d))"
| delete: "zone_repo_step d (snd (delete_zone i d))"
| clear_starts: "zone_repo_step d (clear_group_scheduled_starts g d)"
| set_starts: "zone_repo_step d (set_group_scheduled_starts g sched d)"
| clear_peers: "zone_repo_step d (clear_scheduled_for_zone_group_peers i g d)"
| bulk_update: "zone_repo_step d (snd (bulk_update_zones es d))"
| bulk_upsert: "zone_repo_step d (snd (bulk_upsert_zones rs d))"

lemma wf_zones_create: "wf_zones d \<Longrightarrow> wf_zones (snd (create_zone r d))"
  by (auto simp: create_zone_def Let_def wf_zones_insert next_rowid_fresh split: option.splits)

lemma wf_zones_update: "wf_zones d \<Longrightarrow> wf_zones (update_zone i us d)"
proof -
  have "wf_zones (d'\<lparr>programs := ps\<rparr>) = wf_zones d'" for d' :: "'a db_scheme" and ps
    by (simp add: wf_zones_def)
  then show "wf_zones d \<Longrightarrow> ?thesis"
    by (auto simp: update_zone_def Let_def wf_zones_put plain_write_def split: option.splits)
qed

lemma wf_zones_versioned: "wf_zones d \<Longrightarrow> wf_zones (snd (update_zone_versioned i us d))"
  by (auto simp: update_zone_versioned_def wf_zones_put versioned_write_def split: option.splits)

text \<open>
  Every repository operation keeps the zone table a keyed table: ids are distinct and
  in ascending order, so \<open>get_zone\<close> finds the only row with an id and group listings come
  out in id order.
\<close>

theorem zone_repo_keeps_table: "zone_repo_step d d' \<Longrightarrow> wf_zones d \<Longrightarrow> wf_zones d'"
  by (induction rule: zone_repo_step.induct)
    (auto simp: wf_zones_create wf_zones_update wf_zones_versioned update_zone_postpone_def
       update_zone_photo_def delete_zone_def clear_group_scheduled_starts_def
       clear_scheduled_for_zone_group_peers_def bulk_update_zones_def bulk_upsert_zones_def
       wf_zones_put wf_zones_filter wf_zones_upd_cols wf_zones_set_group_scheduled_starts
       wf_zones_bulk_update_loop wf_zones_bulk_upsert_loop)

text \<open>A freshly initialised database, and two steps on it.\<close>

definition empty_db :: db where
  "empty_db = \<lparr>zones = [], groups = [], zone_runs = [], run_seq = 0, programs = [],
     cancellations = [], servers = [], db_up = True\<rparr>"

definition plain_req :: "int option \<Rightarrow> zone_req" where
  "plain_req i = \<lparr>rq_id = i, rq_name = None, rq_icon = None, rq_duration = Some 15, rq_group_id = Some 1,
     rq_group = None, rq_topic = None, rq_server = None\<rparr>"

theorem zone_repo_keeps_table_witness:
  "let d = snd (create_zone (plain_req (Some 7)) empty_db); d' = snd (create_zone (plain_req (Some 3)) d)
   in map zid (zones d') = [3, 7] \<and> wf_zones d'"
proof -
  define d where "d = snd (create_zone (plain_req (Some 7)) empty_db)"
  have "wf_zones d" by (simp add: d_def create_zone_def wf_zones_def plain_req_def empty_db_def
    insert_zone_def Let_def)
  then have "wf_zones (snd (create_zone (plain_req (Some 3)) d))"
    by (rule zone_repo_keeps_table [OF zone_repo_step.create])
  moreover have "map zid (zones (snd (create_zone (plain_req (Some 3)) d))) = [3, 7]"
    by (simp add: d_def create_zone_def plain_req_def empty_db_def insert_zone_def Let_def)
  ultimately show ?thesis by (simp add: d_def Let_def)
qed

definition runtime_cols :: "zone \<Rightarrow> string \<times> string option \<times> int" where
  "runtime_cols z = (zstate z, commanded_state z, version z)"

lemma runtime_cols_upsert [simp]: "runtime_cols (set_cols (upsert_cols r) z) = runtime_cols z"
  by (auto simp: runtime_cols_def upsert_cols_def split: option.splits)

lemma runtime_cols_new [simp]: "runtime_cols (new_zone i s r) = (''off'', None, 0)"
  by (simp add: runtime_cols_def new_zone_def)

lemma row_at_put_cols:
  "row_at zid (zones (put_zone i (set_cols us) d)) j =
     (if j = i then map_option (set_cols us) (row_at zid (zones d) j) else row_at zid (zones d) j)"
  by (simp add: zones_put_zone zcols.row_at_upd_key)

lemma row_at_insert_fresh:
  assumes "row_at zid (zones d) (zid z) = None"
  shows "row_at zid (zones (insert_zone z d)) i = (if i = zid z then Some z else row_at zid (zones d) i)"
  using assms row_at_insert_key [of zid z "zones d" i] by (simp add: insert_zone_def row_at_None_iff)

text \<open>A column the import never writes: rows that were there keep it, new rows start from one value.\<close>

locale import_column =
  fixes col :: "zone \<Rightarrow> 'c" and fresh :: 'c
  assumes col_upsert [simp]: "col (set_cols (upsert_cols r) z) = col z"
    and col_new [simp]: "col (new_zone i s r) = fresh"
begin

lemma upsert_loop:
  "map_option col (row_at zid (zones (snd (bulk_upsert_loop rs c u d))) j) =
     (case row_at zid (zones d) j of Some z \<Rightarrow> Some (col z)
      | None \<Rightarrow> if row_at zid (zones (snd (bulk_upsert_loop rs c u d))) j = None then None else Some fresh)"
proof (induction rs c u d rule: bulk_upsert_loop.induct)
  case (1 c u d)
  then show ?case by (auto split: option.splits)
next
  case (2 r rs c u d)
  consider (upd) i z where "rq_id r = Some i" "row_at zid (zones d) i = Some z"
    | (ins) i where "rq_id r = Some i" "row_at zid (zones d) i = None"
    | (new) "rq_id r = None"
    by (cases "rq_id r"; cases "row_at zid (zones d) (the (rq_id r))") auto
  then show ?case
  proof cases
    case upd
    then show ?thesis using "2.IH"(3) [OF upd] by (auto simp: row_at_put_cols split: option.splits)
  next
    case ins
    then show ?thesis using "2.IH"(2) [OF ins] by (auto simp: row_at_insert_fresh split: option.splits)
  next
    case new
    then show ?thesis using "2.IH"(1) [OF new]
      by (auto simp: row_at_insert_fresh next_rowid_fresh split: option.splits)
  qed
qed

end

interpretation runtime: import_column runtime_cols "(''off'', None, 0)"
  by unfold_locales simp_all

text \<open>
  The import \<open>bulk_upsert_zones\<close> cannot bypass the state machine: no zone that was in
  the table changes its \<open>state\<close>, its \<open>commanded_state\<close> or its lock version, and every zone
  it creates starts \<open>off\<close>.
\<close>

theorem bulk_upsert_keeps_runtime_state:
  "map_option runtime_cols (get_zone (snd (bulk_upsert_zones rs d)) i) =
     (case get_zone d i of Some z \<Rightarrow> Some (runtime_cols z)
      | None \<Rightarrow> if get_zone (snd (bulk_upsert_zones rs d)) i = None then None else Some (''off'', None, 0))"
proof -
  have up: "db_up (snd (bulk_upsert_loop rs c u d)) = db_up d" for c u
    by (induction rs c u d rule: bulk_upsert_loop.induct)
      (auto simp: frame_simps insert_zone_def split: option.splits)
  show ?thesis
    using runtime.upsert_loop [of rs 0 0 d i]
    by (auto simp: bulk_upsert_zones_def get_zone_def up split: option.splits)
qed

end
