(* ===== verification/Zone_Runs.thy ===== *)
theory Zone_Runs
  imports Zone_Store
begin

text \<open>
  The watering history: the \<open>zone_runs\<close> methods of \<open>src/db/zones.py\<close>.  A run is opened
  when a zone starts, flagged \<open>confirmed\<close> when the relay echoes "on", and finished when
  the zone stops.  The lemmas show what the history promises: a run counted as a
  successful watering (\<open>status = 'ok'\<close>) was physically confirmed.
\<close>

datatype run_upd =
    R_confirm
  | R_finish time rat "int option" "rat option" "rat option" string

fun run_write :: "run_upd \<Rightarrow> zone_run \<Rightarrow> zone_run" where
  "run_write R_confirm r = r\<lparr>confirmed := True\<rparr>"
| "run_write (R_finish e mn raw liters lpm status) r =
     r\<lparr>end_utc := Some e, end_monotonic := Some mn, run_status := Some status,
       end_raw_pulses := (if raw = None then end_raw_pulses r else raw),
       total_liters := (if liters = None then total_liters r else liters),
       avg_flow_lpm := (if lpm = None then avg_flow_lpm r else lpm)\<rparr>"

interpretation run_rows: row_update run_id run_write
proof
  show "run_id (run_write u r) = run_id r" for u r by (cases u) auto
qed

definition create_zone_run ::
  "int \<Rightarrow> int \<Rightarrow> time \<Rightarrow> rat \<Rightarrow> int option \<Rightarrow> int \<Rightarrow> rat option \<Rightarrow> string option
   \<Rightarrow> 'a db_scheme \<Rightarrow> int option \<times> 'a db_scheme" where
  "create_zone_run z g start mn raw liters base source d =
     (if \<not> db_up d then (None, d)
      else
        (let i = run_seq d + 1;
             r = \<lparr>run_id = i, run_zone = z, run_group = g, start_utc = start, end_utc = None,
                  start_monotonic = mn, end_monotonic = None, start_raw_pulses = raw,
                  end_raw_pulses = None, pulse_liters_at_start = liters, base_m3_at_start = base,
                  total_liters = None, avg_flow_lpm = None, run_status = None, confirmed = False,
                  run_source = source\<rparr>
         in (Some i, d\<lparr>zone_runs := zone_runs d @ [r], run_seq := i\<rparr>)))"

text \<open>\<open>ORDER BY id DESC LIMIT 1\<close>: the newest open run of the zone.\<close>

definition get_open_zone_run :: "'a db_scheme \<Rightarrow> int \<Rightarrow> zone_run option" where
  "get_open_zone_run d z =
     (if db_up d then List.find (\<lambda>r. run_zone r = z \<and> end_utc r = None) (rev (zone_runs d)) else None)"

definition mark_zone_run_confirmed :: "int \<Rightarrow> 'a db_scheme \<Rightarrow> bool \<times> 'a db_scheme" where
  "mark_zone_run_confirmed z d =
     (if db_up d
      then (True, d\<lparr>zone_runs := upd_rows (\<lambda>r. run_zone r = z \<and> end_utc r = None) (run_write R_confirm) (zone_runs d)\<rparr>)
      else (False, d))"

definition honest_status :: "'a db_scheme \<Rightarrow> int \<Rightarrow> string \<Rightarrow> string" where
  "honest_status d i status =
     (if status = ''ok'' then
        (case row_at run_id (zone_runs d) i of
           Some r \<Rightarrow> (if confirmed r then status else ''failed'')
         | None \<Rightarrow> status)
      else status)"

definition finish_zone_run ::
  "int \<Rightarrow> time \<Rightarrow> rat \<Rightarrow> int option \<Rightarrow> rat option \<Rightarrow> rat option \<Rightarrow> string
   \<Rightarrow> 'a db_scheme \<Rightarrow> bool \<times> 'a db_scheme" where
  "finish_zone_run i e mn raw liters lpm status d =
     (if db_up d
      then (True, d\<lparr>zone_runs := upd_rows (\<lambda>r. run_id r = i)
                     (run_write (R_finish e mn raw liters lpm (honest_status d i status))) (zone_runs d)\<rparr>)
      else (False, d))"

definition ok_ends :: "'a db_scheme \<Rightarrow> int \<Rightarrow> time list" where
  "ok_ends d z = map (\<lambda>r. the (end_utc r))
     (filter (\<lambda>r. run_zone r = z \<and> run_status r = Some ''ok'' \<and> end_utc r \<noteq> None) (zone_runs d))"

definition get_last_watering_time :: "'a db_scheme \<Rightarrow> int \<Rightarrow> time option" where
  "get_last_watering_time d z =
     (if db_up d then (case ok_ends d z of [] \<Rightarrow> None | es \<Rightarrow> Some (Max (set es))) else None)"

subsection \<open>The history invariant\<close>

definition run_ok :: "zone_run \<Rightarrow> bool" where
  "run_ok r = ((end_utc r = None \<longleftrightarrow> run_status r = None)
     \<and> (run_status r = Some ''ok'' \<longrightarrow> confirmed r))"

definition wf_runs :: "'a db_scheme \<Rightarrow> bool" where
  "wf_runs d = (sorted_wrt (<) (map run_id (zone_runs d))
     \<and> list_all (\<lambda>r. run_id r \<le> run_seq d \<and> run_ok r) (zone_runs d))"

inductive run_step :: "'a db_scheme \<Rightarrow> 'a db_scheme \<Rightarrow> bool" where
  open_run: "run_step d (snd (create_zone_run z g st mn raw liters base source d))"
| confirm: "run_step d (snd (mark_zone_run_confirmed z d))"
| finish: "run_step d (snd (finish_zone_run i e mn raw liters lpm status d))"

lemma list_all_upd_rows:
  "list_all P rows \<Longrightarrow> (\<And>r. r \<in> set rows \<Longrightarrow> P r \<Longrightarrow> p r \<Longrightarrow> P (f r)) \<Longrightarrow> list_all P (upd_rows p f rows)"
  by (induction rows) auto

lemma wf_runs_create:
  assumes "wf_runs d" shows "wf_runs (snd (create_zone_run z g st mn raw liters base source d))"
proof -
  have "list_all (\<lambda>r. run_id r \<le> run_seq d + 1 \<and> run_ok r) (zone_runs d)"
    using assms by (auto simp: wf_runs_def list_all_iff)
  then show ?thesis
    using assms
    by (auto simp: create_zone_run_def Let_def wf_runs_def sorted_wrt_append list_all_iff run_ok_def)
qed

lemma wf_runs_confirm: "wf_runs d \<Longrightarrow> wf_runs (snd (mark_zone_run_confirmed z d))"
  by (auto simp: mark_zone_run_confirmed_def wf_runs_def run_rows.keys_upd_rows run_ok_def
      intro!: list_all_upd_rows)

lemma honest_status_ok:
  "distinct (map run_id (zone_runs d)) \<Longrightarrow> r \<in> set (zone_runs d) \<Longrightarrow>
     honest_status d (run_id r) s = ''ok'' \<Longrightarrow> confirmed r"
  using row_at_mem_unique [of run_id "zone_runs d" r]
  by (auto simp: honest_status_def split: if_splits)

lemma wf_runs_finish:
  assumes "wf_runs d" shows "wf_runs (snd (finish_zone_run i e mn raw liters lpm status d))"
proof -
  have dist: "distinct (map run_id (zone_runs d))"
    using assms sorted_wrt_less_distinct by (auto simp: wf_runs_def)
  have "run_ok (run_write (R_finish e mn raw liters lpm (honest_status d i status)) r)"
    if "r \<in> set (zone_runs d)" "run_id r = i" for r
    using honest_status_ok [OF dist that(1)] that(2) by (auto simp: run_ok_def)
  with assms show ?thesis
    by (auto simp: finish_zone_run_def wf_runs_def run_rows.keys_upd_rows run_rows.key_upd
        intro!: list_all_upd_rows simp del: run_write.simps)
qed

text \<open>
  History truth.  Whatever sequence of opens, confirmations and finishes the callers
  perform, and whatever status they ask for, the table keeps distinct increasing ids, a run
  has a status exactly when it has ended, and a run recorded as \<open>ok\<close> was confirmed by its
  relay.
\<close>

theorem runs_invariant: "run_step\<^sup>*\<^sup>* d d' \<Longrightarrow> wf_runs d \<Longrightarrow> wf_runs d'"
proof (induction rule: rtranclp_induct)
  case base
  then show ?case .
next
  case (step d1 d2)
  then show ?case
    by (auto elim!: run_step.cases simp: wf_runs_create wf_runs_confirm wf_runs_finish)
qed

theorem runs_invariant_witness:
  "let d1 = snd (create_zone_run 5 1 100 0 None 1 None (Some ''manual'') empty_db);
       d2 = snd (finish_zone_run 1 400 300 None None None ''ok'' d1)
   in map run_status (zone_runs d2) = [Some ''failed''] \<and> wf_runs d2"
proof -
  define d1 where "d1 = snd (create_zone_run 5 1 100 0 None 1 None (Some ''manual'') empty_db)"
  define d2 where "d2 = snd (finish_zone_run 1 400 300 None None None ''ok'' d1)"
  have "run_step\<^sup>*\<^sup>* empty_db d1"
    unfolding d1_def by (rule r_into_rtranclp) (rule run_step.open_run)
  then have "run_step\<^sup>*\<^sup>* empty_db d2"
    unfolding d2_def by (rule rtranclp.rtrancl_into_rtrancl) (rule run_step.finish)
  moreover have "wf_runs empty_db" by (simp add: wf_runs_def empty_db_def)
  ultimately have "wf_runs d2" by (rule runs_invariant)
  moreover have "map run_status (zone_runs d2) = [Some ''failed'']"
    by (simp add: d1_def d2_def create_zone_run_def finish_zone_run_def honest_status_def empty_db_def Let_def)
  ultimately show ?thesis by (simp add: d1_def d2_def Let_def)
qed

text \<open>The last watering time shown for a zone is the end of a confirmed run of that zone.\<close>

theorem last_watering_confirmed:
  assumes "wf_runs d" "get_last_watering_time d z = Some t"
  shows "\<exists>r \<in> set (zone_runs d). run_zone r = z \<and> end_utc r = Some t \<and> confirmed r"
proof -
  have ne: "ok_ends d z \<noteq> []" and t: "t = Max (set (ok_ends d z))"
    using assms(2) by (auto simp: get_last_watering_time_def split: if_splits list.splits)
  then have "t \<in> set (ok_ends d z)" using Max_in [of "set (ok_ends d z)"] by simp
  then show ?thesis
    using assms(1) by (auto simp: ok_ends_def wf_runs_def list_all_iff run_ok_def)
qed

theorem last_watering_confirmed_witness:
  "let d1 = snd (create_zone_run 5 1 100 0 None 1 None None empty_db);
       d2 = snd (mark_zone_run_confirmed 5 d1);
       d3 = snd (finish_zone_run 1 400 300 None None None ''ok'' d2)
   in get_last_watering_time d3 5 = Some 400
      \<and> (\<exists>r \<in> set (zone_runs d3). run_zone r = 5 \<and> end_utc r = Some 400 \<and> confirmed r)"
proof -
  define d3 where "d3 = snd (finish_zone_run 1 400 300 None None None ''ok''
    (snd (mark_zone_run_confirmed 5 (snd (create_zone_run 5 1 100 0 None 1 None None empty_db)))))"
  have "wf_runs d3"
    unfolding d3_def by (intro wf_runs_finish wf_runs_confirm wf_runs_create)
      (simp add: wf_runs_def empty_db_def)
  moreover have "get_last_watering_time d3 5 = Some 400"
    by (simp add: d3_def get_last_watering_time_def ok_ends_def create_zone_run_def
        mark_zone_run_confirmed_def finish_zone_run_def honest_status_def empty_db_def Let_def)
  ultimately show ?thesis
    using last_watering_confirmed [of d3 5 400] by (simp add: d3_def Let_def)
qed

subsection \<open>Open runs\<close>

lemma find_Some_rev_mem: "List.find P (rev xs) = Some x \<Longrightarrow> x \<in> set xs \<and> P x"
  by (metis find_Some_iff nth_mem set_rev)

lemma get_open_zone_run_open:
  "get_open_zone_run d z = Some r \<Longrightarrow> r \<in> set (zone_runs d) \<and> run_zone r = z \<and> end_utc r = None"
  by (auto simp: get_open_zone_run_def dest: find_Some_rev_mem split: if_splits)

definition open_runs :: "'a db_scheme \<Rightarrow> int \<Rightarrow> nat" where
  "open_runs d z = length (filter (\<lambda>r. run_zone r = z \<and> end_utc r = None) (zone_runs d))"

lemma open_runs_create:
  "db_up d \<Longrightarrow> open_runs (snd (create_zone_run z g st mn raw liters base source d)) z' =
     open_runs d z' + (if z' = z then 1 else 0)"
  by (simp add: open_runs_def create_zone_run_def Let_def)

end
