(* ===== verification/Water_Monitor.thy ===== *)
theory Water_Monitor
  imports Zone_Store
begin

text \<open>
  The water meters, \<open>src/services/monitors/water_monitor.py\<close>: per group a bounded deque of
  \<open>(timestamp, pulses)\<close> samples and the litres one pulse stands for.  Timestamps of samples
  and of the database are on one axis (the controller's local clock; DST jumps are not
  modelled).  The functions below are the reads the zone controller and the status page
  make; connecting the MQTT client is not modelled, the arrival of a message is.
\<close>

type_synonym sample = "rat \<times> int"

record meters =
  samples :: "int \<Rightarrow> sample list"
  pulse_liters :: "int \<Rightarrow> int option"

definition max_samples :: nat where "max_samples = 256"

text \<open>\<open>deque(maxlen=256).append\<close>: the oldest sample falls off.\<close>

definition on_pulse :: "int \<Rightarrow> rat \<Rightarrow> int \<Rightarrow> 'a meters_scheme \<Rightarrow> 'a meters_scheme" where
  "on_pulse g ts p m =
     (let q = samples m g @ [(ts, p)]
      in m\<lparr>samples := (samples m)(g := drop (length q - max_samples) q)\<rparr>)"

definition liters_of_size :: "string \<Rightarrow> int" where
  "liters_of_size pulse = (if pulse = ''100l'' then 100 else if pulse = ''10l'' then 10 else 1)"

definition group_liters :: "'a meters_scheme \<Rightarrow> int \<Rightarrow> int" where
  "group_liters m g = (case pulse_liters m g of Some l \<Rightarrow> l | None \<Rightarrow> 1)"

definition get_raw_pulses :: "'a meters_scheme \<Rightarrow> int \<Rightarrow> int option" where
  "get_raw_pulses m g = (if samples m g = [] then None else Some (snd (last (samples m g))))"

fun last_at_or_before :: "sample list \<Rightarrow> rat \<Rightarrow> int option \<Rightarrow> int option" where
  "last_at_or_before [] ts best = best"
| "last_at_or_before ((t, p) # arr) ts best =
     (if t \<le> ts then last_at_or_before arr ts (Some p) else best)"

definition get_pulses_at_or_before :: "'a meters_scheme \<Rightarrow> int \<Rightarrow> rat \<Rightarrow> int option" where
  "get_pulses_at_or_before m g ts =
     (let arr = samples m g in
      if arr = [] then None
      else (case last_at_or_before arr ts None of Some p \<Rightarrow> Some p | None \<Rightarrow> Some (snd (hd arr))))"

fun first_at_or_after :: "sample list \<Rightarrow> rat \<Rightarrow> int option" where
  "first_at_or_after [] ts = None"
| "first_at_or_after ((t, p) # arr) ts = (if ts \<le> t then Some p else first_at_or_after arr ts)"

definition get_pulses_at_or_after :: "'a meters_scheme \<Rightarrow> int \<Rightarrow> rat \<Rightarrow> int option" where
  "get_pulses_at_or_after m g ts =
     (let arr = samples m g in
      if arr = [] then None
      else (case first_at_or_after arr ts of Some p \<Rightarrow> Some p | None \<Rightarrow> Some (snd (last arr))))"

definition get_current_reading_m3 :: "'a meters_scheme \<Rightarrow> group list \<Rightarrow> int \<Rightarrow> rat option" where
  "get_current_reading_m3 m gs g =
     (case row_at gid gs g of
        None \<Rightarrow> None
      | Some row \<Rightarrow>
          (let cur_p = (if samples m g = [] then water_base_pulses row else snd (last (samples m g)));
               delta_p = max 0 (cur_p - water_base_pulses row)
           in Some (round_dec 3 (water_base_value_m3 row + of_int (delta_p * group_liters m g) / 1000))))"

definition samples_since :: "'a meters_scheme \<Rightarrow> int \<Rightarrow> time \<Rightarrow> sample list" where
  "samples_since m g since = filter (\<lambda>(ts, p). of_int since \<le> ts) (samples m g)"

text \<open>The index of the first sample at least five pulses above \<open>p0\<close>; 0 when there is none.\<close>

fun five_pulse_index :: "int \<Rightarrow> nat \<Rightarrow> sample list \<Rightarrow> nat" where
  "five_pulse_index p0 i [] = 0"
| "five_pulse_index p0 i ((t, p) # arr) = (if 5 \<le> p - p0 then i else five_pulse_index p0 (i + 1) arr)"

definition get_flow_lpm :: "'a meters_scheme \<Rightarrow> int \<Rightarrow> time option \<Rightarrow> rat option" where
  "get_flow_lpm m g since =
     (case since of
        None \<Rightarrow> None
      | Some since \<Rightarrow>
          (let ss = samples_since m g since in
           if length ss < 2 then None
           else
             (let p0 = snd (hd ss);
                  i0 = five_pulse_index p0 1 (tl ss);
                  idx = (if i0 = 0 then length ss - 1 else i0);
                  (ts1, p_end) = ss ! idx;
                  dp = max 0 (p_end - p0);
                  dt_sec = max 1 (ts1 - fst (hd ss))
              in Some (round_dec 2 (of_int (dp * group_liters m g) / (dt_sec / 60))))))"

definition summarize_run :: "'a meters_scheme \<Rightarrow> int \<Rightarrow> time option \<Rightarrow> rat option \<times> rat option" where
  "summarize_run m g since =
     (case since of
        None \<Rightarrow> (None, None)
      | Some since \<Rightarrow>
          (let ss = samples_since m g since in
           if length ss < 2 then (Some 0, Some 0)
           else
             (let total_l = max 0 (snd (last ss) - snd (hd ss)) * group_liters m g;
                  dt_min = max (1 / 1000) ((fst (last ss) - fst (hd ss)) / 60)
              in (Some (of_int total_l), Some (round_dec 2 (of_int total_l / dt_min))))))"

subsection \<open>Meter reads\<close>

lemma on_pulse_length: "length (samples (on_pulse g ts p m) g) \<le> max_samples"
  by (simp add: on_pulse_def Let_def max_samples_def)

lemma on_pulse_last: "get_raw_pulses (on_pulse g ts p m) g = Some p"
  by (simp add: on_pulse_def Let_def get_raw_pulses_def max_samples_def)

definition ordered_samples :: "sample list \<Rightarrow> bool" where
  "ordered_samples arr = (sorted (map fst arr) \<and> sorted (map snd arr))"

lemma last_at_or_before_mem:
  "last_at_or_before arr ts best = r \<Longrightarrow> r = best \<or> (\<exists>t p. (t, p) \<in> set arr \<and> t \<le> ts \<and> r = Some p)"
  by (induction arr ts best arbitrary: r rule: last_at_or_before.induct) (auto split: if_splits)

lemma first_at_or_after_mem:
  "first_at_or_after arr ts = Some v \<Longrightarrow> \<exists>t. (t, v) \<in> set arr \<and> ts \<le> t"
  by (induction arr ts rule: first_at_or_after.induct) (auto split: if_splits)

lemma sorted_snd_le:
  assumes "ordered_samples arr" "(t1, p1) \<in> set arr" "(t2, p2) \<in> set arr" "t1 < t2"
  shows "p1 \<le> p2"
proof -
  obtain i j where ij: "i < length arr" "arr ! i = (t1, p1)" "j < length arr" "arr ! j = (t2, p2)"
    using assms(2,3) by (auto simp: in_set_conv_nth)
  have "i \<le> j"
  proof (rule ccontr)
    assume "\<not> i \<le> j"
    then have "map fst arr ! j \<le> map fst arr ! i"
      using assms(1) ij by (intro sorted_nth_mono) (auto simp: ordered_samples_def)
    with ij assms(4) show False by simp
  qed
  then have "map snd arr ! i \<le> map snd arr ! j"
    using assms(1) ij by (intro sorted_nth_mono) (auto simp: ordered_samples_def)
  with ij show ?thesis by simp
qed

text \<open>
  on a meter that only counts up, the pulses read at the end of a watering are never
  below the pulses read at its start, so the litres of a run are not clipped to zero.
\<close>

theorem run_pulses_nonneg:
  assumes "ordered_samples (samples m g)" "ts0 < ts1"
    and "get_pulses_at_or_before m g ts0 = Some a" "get_pulses_at_or_after m g ts1 = Some b"
  shows "a \<le> b"
proof -
  let ?arr = "samples m g"
  have ne: "?arr \<noteq> []" using assms(3) by (auto simp: get_pulses_at_or_before_def Let_def)
  have snd_sorted: "sorted (map snd ?arr)" using assms(1) by (simp add: ordered_samples_def)
  have lo: "snd (hd ?arr) \<le> p" and hi: "p \<le> snd (last ?arr)" if "(t, p) \<in> set ?arr" for t p
  proof -
    from that obtain i where i: "i < length ?arr" "?arr ! i = (t, p)" by (auto simp: in_set_conv_nth)
    have "map snd ?arr ! 0 \<le> map snd ?arr ! i"
      using snd_sorted i by (intro sorted_nth_mono) auto
    moreover have "map snd ?arr ! i \<le> map snd ?arr ! (length ?arr - 1)"
      using snd_sorted i by (intro sorted_nth_mono) auto
    ultimately show "snd (hd ?arr) \<le> p" "p \<le> snd (last ?arr)"
      using i ne by (auto simp: hd_conv_nth last_conv_nth nth_map)
  qed
  have hd_in: "(fst (hd ?arr), snd (hd ?arr)) \<in> set ?arr" and last_in: "(fst (last ?arr), snd (last ?arr)) \<in> set ?arr"
    using ne by auto
  have a: "a = snd (hd ?arr) \<or> (\<exists>t. (t, a) \<in> set ?arr \<and> t \<le> ts0)"
    using assms(3) last_at_or_before_mem [of ?arr ts0 None]
    by (auto simp: get_pulses_at_or_before_def Let_def split: if_splits option.splits)
  have b: "b = snd (last ?arr) \<or> (\<exists>t. (t, b) \<in> set ?arr \<and> ts1 \<le> t)"
    using assms(4) first_at_or_after_mem [of ?arr ts1]
    by (auto simp: get_pulses_at_or_after_def Let_def split: if_splits option.splits)
  show ?thesis
    using a b
  proof (elim disjE exE conjE)
    fix t t' assume "(t, a) \<in> set ?arr" "t \<le> ts0" "(t', b) \<in> set ?arr" "ts1 \<le> t'"
    then show "a \<le> b" using assms(2) by (intro sorted_snd_le [OF assms(1), of t a t' b]) auto
  qed (use lo hi hd_in last_in in blast)+
qed

theorem run_pulses_nonneg_witness:
  "let m = \<lparr>samples = (\<lambda>_. [(0, 10), (60, 14), (120, 30)]), pulse_liters = (\<lambda>_. Some 10)\<rparr>
   in get_pulses_at_or_before m 1 70 = Some 14 \<and> get_pulses_at_or_after m 1 100 = Some 30
      \<and> (14::int) \<le> 30"
proof -
  define m :: meters where
    "m = \<lparr>samples = (\<lambda>_. [(0, 10), (60, 14), (120, 30)]), pulse_liters = (\<lambda>_. Some 10)\<rparr>"
  have a: "get_pulses_at_or_before m 1 70 = Some 14" "get_pulses_at_or_after m 1 100 = Some 30"
    by (simp_all add: m_def get_pulses_at_or_before_def get_pulses_at_or_after_def Let_def)
  have "ordered_samples (samples m 1)" by (simp add: m_def ordered_samples_def)
  then have "(14::int) \<le> 30" by (rule run_pulses_nonneg [OF _ _ a]) simp
  with a show ?thesis by (simp add: m_def Let_def)
qed

end
