(* ===== verification/Events.thy ===== *)
theory Events
  imports Prelude
begin

text \<open>
  The in-process event bus, \<open>src/services/events.py\<close>: the module state (\<open>_SUBS\<close>,
  \<open>_DEDUP\<close>), \<open>publish\<close>, \<open>subscribe\<close> and \<open>_cleanup\<close>.  A subscriber is its index in
  \<open>_SUBS\<close>; what the callbacks receive is the list of deliveries.  The key of the
  deduplication set keeps the two components of the formatted string
  \<open>f"{type}:{id or event_id or ts}"\<close>.
\<close>

datatype py_val = PNone | PInt int | PStr string | PFloat rat

fun py_or :: "py_val \<Rightarrow> py_val \<Rightarrow> py_val" where
  "py_or PNone v = v"
| "py_or (PInt n) v = (if n = 0 then v else PInt n)"
| "py_or (PStr s) v = (if s = [] then v else PStr s)"
| "py_or (PFloat q) v = (if q = 0 then v else PFloat q)"

record event =
  ev_type :: string
  ev_id :: py_val
  ev_event_id :: py_val
  ev_ts :: py_val

type_synonym ev_key = "string \<times> py_val"

record bus =
  subs :: nat
  dedup :: "ev_key list"
  delivered :: "(nat \<times> event) list"

definition dedup_set_max_size :: nat where "dedup_set_max_size = 4096"

definition dedup_ttl_sec :: rat where "dedup_ttl_sec = 300"

definition event_key :: "event \<Rightarrow> ev_key" where
  "event_key e = (ev_type e, py_or (ev_id e) (py_or (ev_event_id e) (ev_ts e)))"

definition subscribe :: "bus \<Rightarrow> bus" where
  "subscribe b = b\<lparr>subs := subs b + 1\<rparr>"

text \<open>\<open>_cleanup\<close> receives the current time, as the code does, and does not use it.\<close>

definition cleanup :: "rat \<Rightarrow> bus \<Rightarrow> bus" where
  "cleanup now b = (if dedup_set_max_size < length (dedup b) then b\<lparr>dedup := []\<rparr> else b)"

definition publish_event :: "rat \<Rightarrow> event \<Rightarrow> bus \<Rightarrow> bus" where
  "publish_event now e b =
     (let key = event_key e; b1 = cleanup now b in
      if key \<in> set (dedup b1) then b1
      else b1\<lparr>dedup := key # dedup b1,
              delivered := delivered b1 @ map (\<lambda>i. (i, e)) [0..<subs b1]\<rparr>)"

fun publish_all :: "(rat \<times> event) list \<Rightarrow> bus \<Rightarrow> bus" where
  "publish_all [] b = b"
| "publish_all ((t, e) # es) b = publish_all es (publish_event t e b)"

lemma publish_fresh:
  assumes "length (dedup b) \<le> dedup_set_max_size" "event_key e \<notin> set (dedup b)"
  shows "delivered (publish_event now e b) = delivered b @ map (\<lambda>i. (i, e)) [0..<subs b]"
    and "event_key e \<in> set (dedup (publish_event now e b))"
  using assms by (auto simp: publish_event_def cleanup_def Let_def)

lemma publish_seen:
  assumes "length (dedup b) \<le> dedup_set_max_size" "event_key e \<in> set (dedup b)"
  shows "publish_event now e b = b"
  using assms by (auto simp: publish_event_def cleanup_def Let_def)

lemma publish_keeps_key:
  assumes "length (dedup b) \<le> dedup_set_max_size"
  shows "set (dedup b) \<subseteq> set (dedup (publish_event now e b))"
    and "length (dedup (publish_event now e b)) \<le> length (dedup b) + 1"
  using assms by (auto simp: publish_event_def cleanup_def Let_def)

lemma publish_all_keeps_key:
  assumes "length (dedup b) + length es \<le> dedup_set_max_size" "k \<in> set (dedup b)"
  shows "k \<in> set (dedup (publish_all es b)) \<and> length (dedup (publish_all es b)) \<le> length (dedup b) + length es"
  using assms
proof (induction es arbitrary: b)
  case Nil
  then show ?case by simp
next
  case (Cons te es)
  obtain t e where te: "te = (t, e)" by (cases te)
  let ?b = "publish_event t e b"
  from Cons.prems have len: "length (dedup b) \<le> dedup_set_max_size" by simp
  have "k \<in> set (dedup ?b)" "length (dedup ?b) \<le> length (dedup b) + 1"
    using publish_keeps_key [OF len, where now = t and e = e] Cons.prems(2) by auto
  with Cons.prems(1) Cons.IH [of ?b] show ?case by (simp add: te)
qed

text \<open>
  The advertised five-minute window of the deduplication does not exist.  Once an event
  has been published, a later event with the same type and id is delivered to nobody,
  however late it comes and whatever was published in between, until the set has more
  than \<open>DEDUP_SET_MAX_SIZE\<close> keys; the second start of a zone is never announced.
\<close>

theorem events_dedup_never_expires:
  assumes "length (dedup b) + length es < dedup_set_max_size"
    and "event_key e' = event_key e" and "t + dedup_ttl_sec < t'"
  defines "b' \<equiv> publish_all es (publish_event t e b)"
  shows "delivered (publish_event t' e' b') = delivered b'"
proof -
  have len: "length (dedup b) \<le> dedup_set_max_size" using assms(1) by simp
  have key: "event_key e \<in> set (dedup (publish_event t e b))"
    using publish_fresh(2) [OF len] publish_seen [OF len] by (metis (full_types))
  have "length (dedup (publish_event t e b)) + length es \<le> dedup_set_max_size"
    using publish_keeps_key(2) [OF len, of t e] assms(1) by simp
  with publish_all_keeps_key [OF this key] show ?thesis
    using assms(2) publish_seen [of b' e' t'] by (simp add: b'_def)
qed

theorem events_dedup_never_expires_witness:
  "let b = \<lparr>subs = 1, dedup = [], delivered = []\<rparr>;
       e = \<lparr>ev_type = ''zone_start'', ev_id = PInt 5, ev_event_id = PNone, ev_ts = PNone\<rparr>;
       b' = publish_all [] (publish_event 0 e b)
   in delivered b' = [(0, e)] \<and> delivered (publish_event 86400 e b') = delivered b'"
proof -
  let ?b = "\<lparr>subs = 1, dedup = [], delivered = []\<rparr>"
  let ?e = "\<lparr>ev_type = ''zone_start'', ev_id = PInt 5, ev_event_id = PNone, ev_ts = PNone\<rparr>"
  have "delivered (publish_event 86400 ?e (publish_all [] (publish_event 0 ?e ?b)))
        = delivered (publish_all [] (publish_event 0 ?e ?b))"
    by (rule events_dedup_never_expires)
      (simp_all add: dedup_set_max_size_def dedup_ttl_sec_def)
  then show ?thesis
    by (simp add: Let_def publish_event_def cleanup_def dedup_set_max_size_def)
qed

end
