(* ===== verification/Zone_State.thy ===== *)
theory Zone_State
  imports Zone_Runs Water_Monitor Events
begin

text \<open>
  The controller's world and the blessed write path for \<open>zones.state\<close>:
  \<open>src/services/zones_state.py\<close> (\<open>update_zone_state\<close>), \<open>db.update_group_fields\<close> and
  \<open>publish_mqtt_value\<close> of \<open>src/services/mqtt_pub.py\<close> as the controllers call it
  (\<open>min_interval_sec=0\<close>, so its duplicate suppression does not apply).  The MQTT broker is
  outside the repository: the world carries \<open>broker\<close>, which says for the n-th message of
  the run whether its delivery was acknowledged.
\<close>

datatype audit_row =
    Zone_Change (au_zone: int) (au_from: "string option") (au_to: string) (au_reason: string)
      (au_commanded: "string option")
  | Master_Auto_Close "int option" string string string
  | Program_Skipped int "int list"
  | Session_Aborted string int "int option"

record mqtt_msg =
  ms_server :: int
  ms_topic :: string
  ms_value :: string

text \<open>A pending master-valve close: the \<open>threading.Timer\<close> of one normalised topic.\<close>

record close_timer =
  ct_group :: group
  ct_server :: int
  ct_delay :: int
  ct_armed :: bool

record world = db +
  audit :: "audit_row list"
  sent :: "mqtt_msg list"
  broker :: "nat \<Rightarrow> bool"
  timers :: "string \<Rightarrow> close_timer option"
  meter :: meters
  logs :: "(string \<times> int list) list"
  bus :: bus
  verify_queue :: "(int \<times> string) list"

subsection \<open>Publishing\<close>

definition send :: "int \<Rightarrow> string \<Rightarrow> string \<Rightarrow> 'a world_scheme \<Rightarrow> bool \<times> 'a world_scheme" where
  "send srv t v w =
     (broker w (length (sent w)),
      w\<lparr>sent := sent w @ [\<lparr>ms_server = srv, ms_topic = t, ms_value = v\<rparr>]\<rparr>)"

text \<open>The value goes to the base topic and, when that was acknowledged, to its \<open>/on\<close> topic.\<close>

definition publish_mqtt_value :: "int \<Rightarrow> string \<Rightarrow> string \<Rightarrow> 'a world_scheme \<Rightarrow> bool \<times> 'a world_scheme" where
  "publish_mqtt_value srv tp v w =
     (let t = normalize_topic tp;
          base = send srv t v w
      in if fst base then send srv (t @ ''/on'') v (snd base) else (False, snd base))"

subsection \<open>Versioned, audited zone writes\<close>

definition state_audit :: "int \<Rightarrow> zone_upd list \<Rightarrow> string \<Rightarrow> zone option \<Rightarrow> audit_row list" where
  "state_audit i us reason prev =
     (case upd_state us of
        None \<Rightarrow> []
      | Some new \<Rightarrow>
          (if lower new \<noteq> lower (case prev of None \<Rightarrow> [] | Some z \<Rightarrow> zstate z)
           then [Zone_Change i (map_option zstate prev) new
                   (if reason = [] then ''unknown'' else reason) (upd_commanded us)]
           else []))"

definition update_zone_state ::
  "int \<Rightarrow> zone_upd list \<Rightarrow> string \<Rightarrow> 'a world_scheme \<Rightarrow> (bool \<times> zone option) \<times> 'a world_scheme" where
  "update_zone_state i us reason w =
     (let res = update_zone_versioned i us w;
          w2 = (if fst (fst res) then snd res else update_zone i us (snd res))
      in (fst res, w2\<lparr>audit := audit w2 @ state_audit i us reason (snd (fst res))\<rparr>))"

abbreviation uzs :: "int \<Rightarrow> zone_upd list \<Rightarrow> string \<Rightarrow> 'a world_scheme \<Rightarrow> 'a world_scheme" where
  "uzs i us reason w \<equiv> snd (update_zone_state i us reason w)"

subsection \<open>Group fields\<close>

datatype group_upd =
    G_use_master_valve int | G_master_topic string | G_master_mode "string option"
  | G_master_server "int option" | G_observed "string option" | G_close_delay "int option"
  | G_use_water_meter int | G_pulse_size "string option" | G_base_m3 rat | G_base_pulses int
  | G_not_allowed

fun set_group_col :: "group_upd \<Rightarrow> group \<Rightarrow> group" where
  "set_group_col (G_use_master_valve v) g = g\<lparr>use_master_valve := v\<rparr>"
| "set_group_col (G_master_topic v) g = g\<lparr>master_mqtt_topic := v\<rparr>"
| "set_group_col (G_master_mode v) g = g\<lparr>master_mode := v\<rparr>"
| "set_group_col (G_master_server v) g = g\<lparr>master_mqtt_server_id := v\<rparr>"
| "set_group_col (G_observed v) g = g\<lparr>master_valve_observed := v\<rparr>"
| "set_group_col (G_close_delay v) g = g\<lparr>master_close_delay_sec := v\<rparr>"
| "set_group_col (G_use_water_meter v) g = g\<lparr>use_water_meter := v\<rparr>"
| "set_group_col (G_pulse_size v) g = g\<lparr>water_pulse_size := v\<rparr>"
| "set_group_col (G_base_m3 v) g = g\<lparr>water_base_value_m3 := v\<rparr>"
| "set_group_col (G_base_pulses v) g = g\<lparr>water_base_pulses := v\<rparr>"
| "set_group_col G_not_allowed g = g"

interpretation group_rows: row_update gid set_group_col
proof
  show "gid (set_group_col u g) = gid g" for u g by (cases u) auto
qed

definition update_group_fields :: "int \<Rightarrow> group_upd list \<Rightarrow> 'a db_scheme \<Rightarrow> bool \<times> 'a db_scheme" where
  "update_group_fields i us d =
     (let parts = filter (\<lambda>u. u \<noteq> G_not_allowed) us in
      if parts = [] \<or> \<not> db_up d then (False, d)
      else (True, d\<lparr>groups := upd_rows (\<lambda>g. gid g = i) (fold set_group_col parts) (groups d)\<rparr>))"

definition delete_group :: "int \<Rightarrow> 'a db_scheme \<Rightarrow> bool \<times> 'a db_scheme" where
  "delete_group i d =
     (if i = 999 then (False, d)
      else if \<not> db_up d then (False, d)
      else if filter (\<lambda>z. group_id z = Some i) (zones d) \<noteq> [] then (False, d)
      else (True, d\<lparr>groups := filter (\<lambda>g. gid g \<noteq> i) (groups d)\<rparr>))"

subsection \<open>What the writes change\<close>

lemma send_frame [frame_simps]:
  "zones (snd (send s t v w)) = zones w" "groups (snd (send s t v w)) = groups w"
  "zone_runs (snd (send s t v w)) = zone_runs w" "run_seq (snd (send s t v w)) = run_seq w"
  "programs (snd (send s t v w)) = programs w" "servers (snd (send s t v w)) = servers w"
  "db_up (snd (send s t v w)) = db_up w" "audit (snd (send s t v w)) = audit w"
  "timers (snd (send s t v w)) = timers w" "broker (snd (send s t v w)) = broker w"
  "logs (snd (send s t v w)) = logs w" "bus (snd (send s t v w)) = bus w"
  "verify_queue (snd (send s t v w)) = verify_queue w"
  "meter (snd (send s t v w)) = meter w" "cancellations (snd (send s t v w)) = cancellations w"
  by (simp_all add: send_def)

lemma publish_frame [frame_simps]:
  "zones (snd (publish_mqtt_value s t v w)) = zones w" "groups (snd (publish_mqtt_value s t v w)) = groups w"
  "zone_runs (snd (publish_mqtt_value s t v w)) = zone_runs w"
  "run_seq (snd (publish_mqtt_value s t v w)) = run_seq w"
  "programs (snd (publish_mqtt_value s t v w)) = programs w"
  "servers (snd (publish_mqtt_value s t v w)) = servers w"
  "db_up (snd (publish_mqtt_value s t v w)) = db_up w" "audit (snd (publish_mqtt_value s t v w)) = audit w"
  "timers (snd (publish_mqtt_value s t v w)) = timers w"
  "broker (snd (publish_mqtt_value s t v w)) = broker w"
  "meter (snd (publish_mqtt_value s t v w)) = meter w"
  "logs (snd (publish_mqtt_value s t v w)) = logs w"
  "bus (snd (publish_mqtt_value s t v w)) = bus w"
  "verify_queue (snd (publish_mqtt_value s t v w)) = verify_queue w"
  "cancellations (snd (publish_mqtt_value s t v w)) = cancellations w"
  by (simp_all add: publish_mqtt_value_def Let_def frame_simps)

lemma get_zone_cong: "zones d = zones d' \<Longrightarrow> db_up d = db_up d' \<Longrightarrow> get_zone d = get_zone d'"
  by (rule ext) (simp add: get_zone_def)

lemma get_zone_publish [store_simps]: "get_zone (snd (publish_mqtt_value s t v w)) = get_zone w"
  by (rule get_zone_cong) (simp_all add: frame_simps)

lemma get_zone_audit [simp]: "get_zone (w\<lparr>audit := a\<rparr>) = get_zone w"
  by (rule get_zone_cong) simp_all

text \<open>Every write of the state helper leaves these fields of the world alone.\<close>

lemma update_zone_versioned_frame [frame_simps]:
  "groups (snd (update_zone_versioned i us d)) = groups d"
  "zone_runs (snd (update_zone_versioned i us d)) = zone_runs d"
  "run_seq (snd (update_zone_versioned i us d)) = run_seq d"
  "programs (snd (update_zone_versioned i us d)) = programs d"
  "servers (snd (update_zone_versioned i us d)) = servers d"
  "cancellations (snd (update_zone_versioned i us d)) = cancellations d"
  "db_up (snd (update_zone_versioned i us d)) = db_up d"
  "db.more (snd (update_zone_versioned i us d)) = db.more d"
  by (auto simp: update_zone_versioned_def frame_simps split: option.splits)

lemma world_more_eq:
  fixes w w' :: "'a world_scheme"
  assumes "db.more w = db.more w'"
  shows "audit w = audit w'" "sent w = sent w'" "broker w = broker w'" "timers w = timers w'" "meter w = meter w'"
    "logs w = logs w'" "bus w = bus w'" "verify_queue w = verify_queue w'"
  using assms by (cases w; cases w'; simp)+

lemma update_zone_state_frame [frame_simps]:
  "groups (uzs i us r w) = groups w" "zone_runs (uzs i us r w) = zone_runs w"
  "run_seq (uzs i us r w) = run_seq w" "servers (uzs i us r w) = servers w"
  "cancellations (uzs i us r w) = cancellations w" "db_up (uzs i us r w) = db_up w"
  "sent (uzs i us r w) = sent w" "broker (uzs i us r w) = broker w"
  "timers (uzs i us r w) = timers w" "meter (uzs i us r w) = meter w"
  "logs (uzs i us r w) = logs w" "bus (uzs i us r w) = bus w"
  "verify_queue (uzs i us r w) = verify_queue w"
  using world_more_eq [of "snd (update_zone_versioned i us w)" w]
    world_more_eq [of "update_zone i us (snd (update_zone_versioned i us w))" w]
  by (auto simp: update_zone_state_def Let_def frame_simps)

text \<open>
  The contract of the helper on an existing zone: it is a single versioned write, reported
  with the row as it was, plus one audit row exactly when the state changes.
\<close>

definition real_cols :: "zone_upd list \<Rightarrow> bool" where
  "real_cols us = list_all is_column us"

lemma update_zone_state_existing:
  assumes "get_zone w i = Some z" "real_cols us"
  shows "update_zone_state i us r w =
    ((True, Some z), (put_zone i (versioned_write us) w)\<lparr>audit := audit w @ state_audit i us r (Some z)\<rparr>)"
  using assms world_more_eq [of "put_zone i (versioned_write us) w" w]
  by (auto simp: update_zone_state_def update_zone_versioned_def get_zone_def real_cols_def frame_simps
      split: if_splits)

lemma update_zone_state_missing:
  assumes "get_zone w i = None"
  shows "update_zone_state i us r w = ((False, None), w\<lparr>audit := audit w @ state_audit i us r None\<rparr>)"
  using assms
  by (auto simp: update_zone_state_def update_zone_versioned_def get_zone_def update_zone_def
      split: if_splits)

lemma get_zone_uzs [store_simps]:
  assumes "real_cols us"
  shows "get_zone (uzs i us r w) j =
    (if j = i then map_option (versioned_write us) (get_zone w i) else get_zone w j)"
proof (cases "get_zone w i")
  case None
  then show ?thesis by (auto simp: update_zone_state_missing)
next
  case (Some z)
  then show ?thesis using assms by (auto simp: update_zone_state_existing store_simps)
qed

text \<open>
  The audit trail is complete and not noisy.  A write of the helper to an existing zone
  appends exactly one \<open>zone_state_change\<close> row, carrying the state before and after, when it
  changes the zone's state (up to case), and none when it does not.
\<close>

theorem update_zone_state_audits_changes:
  assumes "get_zone w i = Some z" "real_cols us"
  shows "get_zone (uzs i us r w) i = Some (versioned_write us z) \<and>
    audit (uzs i us r w) = audit w @
      (if lower (zstate (versioned_write us z)) = lower (zstate z) then []
       else [Zone_Change i (Some (zstate z)) (zstate (versioned_write us z))
               (if r = [] then ''unknown'' else r) (upd_commanded us)])"
  using assms
  by (auto simp: update_zone_state_existing store_simps state_audit_def zstate_versioned_write
      split: option.splits)

text \<open>A freshly started controller with the given rows, whose broker acknowledges everything.\<close>

definition boot_world :: "zone list \<Rightarrow> group list \<Rightarrow> mqtt_server list \<Rightarrow> world" where
  "boot_world zs gs ss =
     \<lparr>zones = zs, groups = gs, zone_runs = [], run_seq = 0, programs = [], cancellations = [],
      servers = ss, db_up = True, audit = [], sent = [], broker = (\<lambda>_. True), timers = (\<lambda>_. None),
      meter = \<lparr>samples = (\<lambda>_. []), pulse_liters = (\<lambda>_. None)\<rparr>,
      logs = [], bus = \<lparr>subs = 1, dedup = [], delivered = []\<rparr>, verify_queue = []\<rparr>"

theorem update_zone_state_audits_changes_witness:
  "let z = new_zone 4 None (plain_req None); w = boot_world [z] [] []
   in map au_to (audit (uzs 4 [U_state ''on''] ''manual_start'' w)) = [''on'']"
proof -
  let ?z = "new_zone 4 None (plain_req None)"
  let ?w = "boot_world [?z] [] []"
  have z: "get_zone ?w 4 = Some ?z" by (simp add: get_zone_def boot_world_def)
  have "audit (uzs 4 [U_state ''on''] ''manual_start'' ?w) = audit ?w @
      (if lower (zstate (versioned_write [U_state ''on''] ?z)) = lower (zstate ?z) then []
       else [Zone_Change 4 (Some (zstate ?z)) (zstate (versioned_write [U_state ''on''] ?z))
              (if ''manual_start'' = [] then ''unknown'' else ''manual_start'')
              (upd_commanded [U_state ''on''])])"
    using update_zone_state_audits_changes [OF z, of "[U_state ''on'']" "''manual_start''"]
    by (simp add: real_cols_def)
  then show ?thesis
    by (simp add: Let_def boot_world_def versioned_write_def new_zone_def)
qed

end
