(* ===== verification/Zone_Control.thy ===== *)
theory Zone_Control
  imports Zone_State
begin

text \<open>
  The valve controller, \<open>src/services/zone_control.py\<close>: manual durations, exclusive start
  of a zone in its group, the single stop path, the delayed close of master valves and the
  emergency stop.  Every operation takes and returns the world; \<open>now\<close> is the wall clock as
  stored in the database, \<open>mn\<close> the monotonic clock, \<open>wall\<close> the epoch time compared with
  meter samples.  The production configuration (\<open>TESTING\<close> unset) is modelled.  A start holds the
  group's lock and is one step; the peers of a start are stopped on a thread pool, each touching its
  own row, and are modelled in list order.  A stop takes the zone's lock for each of its two writes and
  publishes between them without it; it is modelled as one step all the same.  The delayed close of a master valve takes no lock: it is a
  sequence of accesses with other threads in between.
\<close>

subsection \<open>Manual durations\<close>

datatype dur_warning = Norm_not_set | Clipped_min | Clipped_max

definition max_manual_watering_min :: int where "max_manual_watering_min = 240"

definition percent_fallback_base_min :: int where "percent_fallback_base_min = 15"

definition ceil_percent :: "int \<Rightarrow> int \<Rightarrow> int" where
  "ceil_percent base pct = - ((- (base * pct)) div 100)"

definition per_zone_dur :: "zone \<Rightarrow> int option \<Rightarrow> int option \<Rightarrow> int \<times> dur_warning list" where
  "per_zone_dur z override_duration override_percent =
     (case override_duration of
        Some d \<Rightarrow> (d, [])
      | None \<Rightarrow>
          (case override_percent of
             Some pct \<Rightarrow>
               (let base0 = int_or0 (duration z);
                    base = (if base0 \<le> 0 then percent_fallback_base_min else base0);
                    w0 = (if base0 \<le> 0 then [Norm_not_set] else []);
                    computed = ceil_percent base pct
                in if computed < 1 then (1, w0 @ [Clipped_min])
                   else if max_manual_watering_min < computed
                        then (max_manual_watering_min, w0 @ [Clipped_max])
                   else (computed, w0))
           | None \<Rightarrow> (int_or0 (duration z), [])))"

lemma ceil_percent_eq: "ceil_percent base pct = \<lceil>(of_int (base * pct) :: rat) / 100\<rceil>"
proof -
  have "\<lceil>(of_int (base * pct) :: rat) / of_int 100\<rceil> = - ((- (base * pct)) div 100)"
    by (rule ceiling_divide_eq_div)
  then show ?thesis by (simp add: ceil_percent_def)
qed

text \<open>
  In percent mode the duration of a manual run is the zone's norm (15 minutes when it has
  none) scaled and rounded up, clipped to the range 1..240; a warning is reported exactly
  when the norm was missing or the value was clipped.
\<close>

theorem per_zone_dur_percent:
  defines "base z \<equiv> (if int_or0 (duration z) \<le> 0 then 15 else int_or0 (duration z))"
  shows "fst (per_zone_dur z None (Some pct)) = max 1 (min 240 \<lceil>(of_int (base z * pct) :: rat) / 100\<rceil>)
    \<and> (snd (per_zone_dur z None (Some pct)) = [] \<longleftrightarrow>
        0 < int_or0 (duration z) \<and> 1 \<le> \<lceil>(of_int (base z * pct) :: rat) / 100\<rceil>
        \<and> \<lceil>(of_int (base z * pct) :: rat) / 100\<rceil> \<le> 240)"
  unfolding ceil_percent_eq [symmetric] base_def
  by (auto simp: per_zone_dur_def Let_def max_manual_watering_min_def percent_fallback_base_min_def)

subsection \<open>Master valves\<close>

definition mode_of :: "group \<Rightarrow> string" where
  "mode_of g = upper (strip (str_or ''NC'' (master_mode g)))"

definition close_value :: "group \<Rightarrow> string" where
  "close_value g = (if mode_of g = ''NO'' then ''1'' else ''0'')"

definition open_value :: "group \<Rightarrow> string" where
  "open_value g = (if mode_of g = ''NO'' then ''0'' else ''1'')"

definition master_topic :: "group \<Rightarrow> string" where
  "master_topic g = strip (master_mqtt_topic g)"

definition zone_active :: "zone \<Rightarrow> bool" where
  "zone_active z = (lower (zstate z) \<in> {''on'', ''starting''})"

definition set_observed :: "int \<Rightarrow> string \<Rightarrow> 'a db_scheme \<Rightarrow> 'a db_scheme" where
  "set_observed g s d = snd (update_group_fields g [G_observed (Some s)] d)"

text \<open>
  The close runs on the timer's own thread and takes no lock, so other threads act between its
  accesses to the database and the broker: \<open>env n\<close> is what they do before its access number \<open>n\<close>.
\<close>

datatype close_result = Close_Skipped | Close_No_Server | Close_Failed | Close_Done

fun scan_groups :: "(nat \<Rightarrow> 'a world_scheme \<Rightarrow> 'a world_scheme) \<Rightarrow> string \<Rightarrow> group list \<Rightarrow> nat \<Rightarrow>
    'a world_scheme \<Rightarrow> bool \<times> nat \<times> 'a world_scheme" where
  "scan_groups env t [] n w = (False, n, w)"
| "scan_groups env t (gg # gs) n w =
     (if master_topic gg = [] \<or> normalize_topic (master_topic gg) \<noteq> t then scan_groups env t gs n w
      else let w1 = env n w
           in if list_ex zone_active (get_zones_by_group w1 (gid gg)) then (True, Suc n, w1)
              else scan_groups env t gs (Suc n) w1)"

definition publish_close :: "(nat \<Rightarrow> 'a world_scheme \<Rightarrow> 'a world_scheme) \<Rightarrow> string \<Rightarrow> group \<Rightarrow> mqtt_server \<Rightarrow> nat \<Rightarrow>
    'a world_scheme \<Rightarrow> close_result \<times> 'a world_scheme" where
  "publish_close env t g srv n w =
     (let res = publish_mqtt_value (server_id srv) t (close_value g) (env n w)
      in if \<not> fst res then (Close_Failed, snd res)
         else
           (let w1 = env (n + 1) (snd res);
                w2 = w1\<lparr>audit := audit w1 @
                       [Master_Auto_Close (if gid g = 0 then None else Some (gid g)) t (close_value g) (mode_of g)]\<rparr>
            in (Close_Done, if gid g = 0 then w2 else set_observed (gid g) ''closed'' (env (n + 2) w2))))"

definition do_close :: "(nat \<Rightarrow> 'a world_scheme \<Rightarrow> 'a world_scheme) \<Rightarrow> string \<Rightarrow> close_timer \<Rightarrow> 'a world_scheme \<Rightarrow>
    close_result \<times> 'a world_scheme" where
  "do_close env t ct w =
     (let w0 = env 0 w in
      case scan_groups env t (get_groups w0) 1 w0 of (any_on, n, w1) \<Rightarrow>
        if any_on then (Close_Skipped, w1)
        else
          (let w2 = env n w1 in
           case get_mqtt_server w2 (ct_server ct) of
             None \<Rightarrow> (Close_No_Server, w2)
           | Some srv \<Rightarrow> publish_close env t (ct_group ct) srv (n + 1) w2))"

definition master_close_delay :: "group \<Rightarrow> bool \<Rightarrow> int" where
  "master_close_delay g immediate =
     (if immediate then 0
      else max 1 (case master_close_delay_sec g of Some d \<Rightarrow> d | None \<Rightarrow> 60))"

definition schedule_master_close :: "group \<Rightarrow> bool \<Rightarrow> 'a world_scheme \<Rightarrow> 'a world_scheme" where
  "schedule_master_close g immediate w =
     (if use_master_valve g \<noteq> 1 then w
      else if master_topic g = [] \<or> \<not> truthy_int (master_mqtt_server_id g) then w
      else
        (let ct = \<lparr>ct_group = g, ct_server = int_or0 (master_mqtt_server_id g),
                   ct_delay = master_close_delay g immediate, ct_armed = True\<rparr>
         in w\<lparr>timers := (timers w)(normalize_topic (master_topic g) \<mapsto> ct)\<rparr>))"

text \<open>The timer of a topic expires: unless it was cancelled, its thread runs the close.\<close>

definition fire_timer :: "(nat \<Rightarrow> 'a world_scheme \<Rightarrow> 'a world_scheme) \<Rightarrow> string \<Rightarrow> 'a world_scheme \<Rightarrow>
    close_result option \<times> 'a world_scheme" where
  "fire_timer env t w =
     (case timers w t of
        None \<Rightarrow> (None, w)
      | Some ct \<Rightarrow>
          (if \<not> ct_armed ct then (None, w)
           else let res = do_close env t ct (w\<lparr>timers := (timers w)(t \<mapsto> ct\<lparr>ct_armed := False\<rparr>)\<rparr>)
                in (Some (fst res), snd res)))"

subsection \<open>Small effects\<close>

definition add_log :: "string \<Rightarrow> int list \<Rightarrow> 'a world_scheme \<Rightarrow> 'a world_scheme" where
  "add_log ty ids w = w\<lparr>logs := logs w @ [(ty, ids)]\<rparr>"

definition emit_event :: "rat \<Rightarrow> string \<Rightarrow> int \<Rightarrow> 'a world_scheme \<Rightarrow> 'a world_scheme" where
  "emit_event wall ty i w =
     w\<lparr>bus := publish_event wall \<lparr>ev_type = ty, ev_id = PInt i, ev_event_id = PNone, ev_ts = PNone\<rparr> (bus w)\<rparr>"

definition verify_async :: "int \<Rightarrow> string \<Rightarrow> 'a world_scheme \<Rightarrow> 'a world_scheme" where
  "verify_async i expected w = w\<lparr>verify_queue := verify_queue w @ [(i, expected)]\<rparr>"

definition mqtt_ready :: "'a db_scheme \<Rightarrow> zone \<Rightarrow> mqtt_server option" where
  "mqtt_ready d z =
     (if truthy_int (mqtt_server_id z) \<and> strip (topic z) \<noteq> []
      then get_mqtt_server d (int_or0 (mqtt_server_id z)) else None)"

subsection \<open>Exclusive start\<close>

definition real_group :: "int \<Rightarrow> bool" where
  "real_group g = (g \<noteq> 0 \<and> g \<noteq> 999)"

definition open_run :: "int \<Rightarrow> int \<Rightarrow> string \<Rightarrow> time \<Rightarrow> rat \<Rightarrow> rat \<Rightarrow> 'a world_scheme \<Rightarrow> 'a world_scheme" where
  "open_run i g source now mn wall w =
     (if \<not> real_group g then w
      else
        (case row_at gid (get_groups w) g of
           Some row \<Rightarrow>
             (if use_water_meter row = 1
              then snd (create_zone_run i g now mn (get_pulses_at_or_before (meter w) g wall)
                     (liters_of_size (str_or ''1l'' (water_pulse_size row)))
                     (Some (water_base_value_m3 row)) (Some source) w)
              else snd (create_zone_run i g now mn None 1 None (Some source) w))
         | None \<Rightarrow> snd (create_zone_run i g now mn None 1 None (Some source) w)))"

definition open_master :: "int \<Rightarrow> 'a world_scheme \<Rightarrow> 'a world_scheme" where
  "open_master g w =
     (case row_at gid (get_groups w) g of
        None \<Rightarrow> w
      | Some row \<Rightarrow>
          (if use_master_valve row = 1 \<and> master_topic row \<noteq> [] \<and> truthy_int (master_mqtt_server_id row)
           then (case get_mqtt_server w (int_or0 (master_mqtt_server_id row)) of
                   None \<Rightarrow> w
                 | Some srv \<Rightarrow>
                     set_observed g ''open''
                       (snd (publish_mqtt_value (server_id srv) (normalize_topic (master_topic row)) (open_value row) w)))
           else w))"

definition switch_on :: "zone \<Rightarrow> 'a world_scheme \<Rightarrow> 'a world_scheme" where
  "switch_on z w =
     (case mqtt_ready w z of
        None \<Rightarrow> w
      | Some srv \<Rightarrow>
          verify_async (zid z) ''on''
            (uzs (zid z) [U_state ''on''] ''mqtt_ack_on''
              (snd (publish_mqtt_value (server_id srv) (normalize_topic (strip (topic z))) ''1'' w))))"

text \<open>\<open>other\<close> is the peer's row as listed before the start; its state is read again.\<close>

definition finish_peer_run :: "int \<Rightarrow> time \<Rightarrow> rat \<Rightarrow> 'a world_scheme \<Rightarrow> 'a world_scheme" where
  "finish_peer_run i now mn w =
     (case get_open_zone_run w i of
        None \<Rightarrow> w
      | Some r \<Rightarrow> snd (finish_zone_run (run_id r) now mn None None None ''ok'' w))"

definition mark_stopping :: "int \<Rightarrow> 'a world_scheme \<Rightarrow> 'a world_scheme" where
  "mark_stopping i w =
     (if lower (case get_zone w i of None \<Rightarrow> [] | Some z \<Rightarrow> zstate z) \<noteq> ''off''
      then uzs i [U_state ''stopping'', U_commanded (Some ''off'')] ''peer_stop'' w else w)"

definition stop_peer :: "int \<Rightarrow> time \<Rightarrow> rat \<Rightarrow> zone \<Rightarrow> 'a world_scheme \<Rightarrow> 'a world_scheme" where
  "stop_peer self now mn other w =
     (if zid other = self then w
      else
        (let w1 = mark_stopping (zid other) w in
         case mqtt_ready w1 other of
           None \<Rightarrow> w1
         | Some srv \<Rightarrow>
             uzs (zid other) [U_state ''off'', U_wstart None] ''peer_off''
               (finish_peer_run (zid other) now mn
                 (snd (publish_mqtt_value (server_id srv) (normalize_topic (strip (topic other))) ''0'' w1)))))"

definition begin_start :: "int \<Rightarrow> zone \<Rightarrow> time \<Rightarrow> 'a world_scheme \<Rightarrow> 'a world_scheme" where
  "begin_start i z now w =
     (if zone_active z then w
      else uzs i [U_state ''starting'', U_commanded (Some ''on''), U_wstart (Some now)] ''manual_start'' w)"

definition exclusive_start_zone ::
  "int \<Rightarrow> string \<Rightarrow> time \<Rightarrow> rat \<Rightarrow> rat \<Rightarrow> 'a world_scheme \<Rightarrow> bool \<times> 'a world_scheme" where
  "exclusive_start_zone i source now mn wall w =
     (case get_zone w i of
        None \<Rightarrow> (False, w)
      | Some z \<Rightarrow>
          (let g = zone_gid z;
               peers = (if g = 0 then [] else get_zones_by_group w g);
               w1 = open_run i g source now mn wall (begin_start i z now w);
               w2 = switch_on z (if real_group g then open_master g w1 else w1);
               w3 = fold (stop_peer i now mn) peers w2
           in (True, emit_event wall ''zone_start'' i w3)))"

subsection \<open>The stop path\<close>

definition run_litres :: "zone_run \<Rightarrow> int option \<Rightarrow> int option" where
  "run_litres r end_raw =
     (case (end_raw, start_raw_pulses r) of
        (Some e, Some s) \<Rightarrow>
          Some (max 0 (e - s) * (if pulse_liters_at_start r = 0 then 1 else pulse_liters_at_start r))
      | _ \<Rightarrow> None)"

definition run_lpm :: "zone_run \<Rightarrow> int \<Rightarrow> rat \<Rightarrow> rat" where
  "run_lpm r liters mn = round_dec 2 (of_int liters / (max 1 (mn - start_monotonic r) / 60))"

definition finish_open_run ::
  "int \<Rightarrow> int \<Rightarrow> time \<Rightarrow> rat \<Rightarrow> rat \<Rightarrow> 'a world_scheme \<Rightarrow> (rat option \<times> rat option) \<times> 'a world_scheme" where
  "finish_open_run i g now mn wall w =
     (case get_open_zone_run w i of
        None \<Rightarrow> ((None, None), w)
      | Some r \<Rightarrow>
          (let end_raw = get_pulses_at_or_after (meter w) g wall;
               liters = run_litres r end_raw;
               total = map_option of_int liters;
               lpm = map_option (\<lambda>l. run_lpm r l mn) liters
           in ((total, lpm), snd (finish_zone_run (run_id r) now mn end_raw total lpm ''ok'' w))))"

definition store_stats :: "int \<Rightarrow> rat option \<times> rat option \<Rightarrow> 'a world_scheme \<Rightarrow> 'a world_scheme" where
  "store_stats i stats w =
     (let us = (case snd stats of None \<Rightarrow> [] | Some f \<Rightarrow> [U_flow (Some f)]) @
               (case fst stats of None \<Rightarrow> [] | Some l \<Rightarrow> [U_liters (Some l)])
      in if us = [] then w else update_zone i us w)"

text \<open>Finish the open run and store its statistics; \<open>since\<close> is the fallback lower bound.\<close>

definition water_stats ::
  "int \<Rightarrow> int \<Rightarrow> time option \<Rightarrow> time \<Rightarrow> rat \<Rightarrow> rat \<Rightarrow> 'a world_scheme \<Rightarrow> 'a world_scheme" where
  "water_stats i g since now mn wall w =
     (if \<not> real_group g then w
      else
        (let fin = finish_open_run i g now mn wall w;
             stats = (if fst fin = (None, None) then summarize_run (meter w) g since else fst fin)
         in store_stats i stats (snd fin)))"

definition plan_master_close :: "int \<Rightarrow> bool \<Rightarrow> bool \<Rightarrow> 'a world_scheme \<Rightarrow> 'a world_scheme" where
  "plan_master_close g immediate skip w =
     (if real_group g \<and> \<not> skip
      then (case row_at gid (get_groups w) g of
              None \<Rightarrow> w
            | Some row \<Rightarrow> (if use_master_valve row = 1 then schedule_master_close row immediate w else w))
      else w)"

definition switch_off :: "zone \<Rightarrow> bool \<Rightarrow> bool \<Rightarrow> 'a world_scheme \<Rightarrow> 'a world_scheme" where
  "switch_off z immediate skip w =
     (case mqtt_ready w z of
        None \<Rightarrow> w
      | Some srv \<Rightarrow>
          plan_master_close (zone_gid z) immediate skip
            (verify_async (zid z) ''off''
              (snd (publish_mqtt_value (server_id srv) (normalize_topic (strip (topic z))) ''0'' w))))"

definition stop_already_off ::
  "int \<Rightarrow> zone \<Rightarrow> bool \<Rightarrow> bool \<Rightarrow> time \<Rightarrow> rat \<Rightarrow> rat \<Rightarrow> 'a world_scheme \<Rightarrow> 'a world_scheme" where
  "stop_already_off i z immediate skip now mn wall w =
     (let since = (case get_last_watering_time w i of Some t \<Rightarrow> Some t | None \<Rightarrow> watering_start_time z)
      in plan_master_close (zone_gid z) immediate skip (water_stats i (zone_gid z) since now mn wall w))"

definition stop_zone ::
  "int \<Rightarrow> string \<Rightarrow> bool \<Rightarrow> bool \<Rightarrow> bool \<Rightarrow> time \<Rightarrow> rat \<Rightarrow> rat \<Rightarrow> 'a world_scheme \<Rightarrow> bool \<times> 'a world_scheme" where
  "stop_zone i reason force immediate skip now mn wall w =
     (case get_zone w i of
        None \<Rightarrow> (False, w)
      | Some z \<Rightarrow>
          (if lower (zstate z) \<in> {''off'', ''stopping''} \<and> \<not> force
           then (True, stop_already_off i z immediate skip now mn wall w)
           else
             (let w1 = uzs i [U_state ''stopping'', U_commanded (Some ''off'')] (''stop_'' @ reason) w;
                  w2 = switch_off z immediate skip w1;
                  w3 = uzs i [U_state ''off'', U_wstart None, U_planned None] (''stop_'' @ reason @ ''_complete'') w2;
                  w4 = water_stats i (zone_gid z) (watering_start_time z) now mn wall w3
              in (True, emit_event wall ''zone_stop'' i (add_log ''zone_stop'' [i] w4)))))"

definition stop_all_in_group ::
  "int \<Rightarrow> string \<Rightarrow> bool \<Rightarrow> bool \<Rightarrow> bool \<Rightarrow> time \<Rightarrow> rat \<Rightarrow> rat \<Rightarrow> 'a world_scheme \<Rightarrow> 'a world_scheme" where
  "stop_all_in_group g reason force immediate skip now mn wall w =
     fold (\<lambda>z w. snd (stop_zone (zid z) reason force immediate skip now mn wall w)) (get_zones_by_group w g) w"

subsection \<open>Emergency stop\<close>

record stop_stats =
  groups_total :: nat
  zones_stopped :: nat
  zones_force_retried :: nat
  masters_closed :: nat
  masters_skipped_no_use_master :: nat
  masters_skipped_no_topic :: nat
  masters_skipped_dup_topic :: nat
  masters_failed_publish :: nat
  zones_still_active_after_wait :: nat

definition no_stats :: stop_stats where
  "no_stats = \<lparr>groups_total = 0, zones_stopped = 0, zones_force_retried = 0, masters_closed = 0,
     masters_skipped_no_use_master = 0, masters_skipped_no_topic = 0, masters_skipped_dup_topic = 0,
     masters_failed_publish = 0, zones_still_active_after_wait = 0\<rparr>"

text \<open>Phase A: every zone of every group, without planning a master close.\<close>

definition stop_group_zones ::
  "string \<Rightarrow> time \<Rightarrow> rat \<Rightarrow> rat \<Rightarrow> group \<Rightarrow> nat \<times> 'a world_scheme \<Rightarrow> nat \<times> 'a world_scheme" where
  "stop_group_zones reason now mn wall g nw =
     (if gid g = 0 then nw
      else (fst nw + length (get_zones_by_group (snd nw) (gid g)),
            stop_all_in_group (gid g) reason True False True now mn wall (snd nw)))"

definition emergency_phase_a ::
  "string \<Rightarrow> time \<Rightarrow> rat \<Rightarrow> rat \<Rightarrow> group list \<Rightarrow> 'a world_scheme \<Rightarrow> nat \<times> 'a world_scheme" where
  "emergency_phase_a reason now mn wall gs w = fold (stop_group_zones reason now mn wall) gs (0, w)"

text \<open>Phase B: zones of the groups still on or starting when the wait is over are stopped again.\<close>

definition stuck_zones :: "group list \<Rightarrow> 'a world_scheme \<Rightarrow> int list" where
  "stuck_zones gs w =
     concat (map (\<lambda>g. if gid g = 0 then [] else map zid (filter zone_active (get_zones_by_group w (gid g)))) gs)"

definition emergency_phase_b ::
  "string \<Rightarrow> time \<Rightarrow> rat \<Rightarrow> rat \<Rightarrow> group list \<Rightarrow> 'a world_scheme \<Rightarrow> (nat \<times> nat) \<times> 'a world_scheme" where
  "emergency_phase_b reason now mn wall gs w =
     (let stuck = stuck_zones gs w; todo = filter (\<lambda>i. i \<noteq> 0) stuck
      in ((length todo, length stuck),
          fold (\<lambda>i w. snd (stop_zone i (reason @ ''_retry'') True False True now mn wall w)) todo w))"

text \<open>Phase C: one synchronous close per master topic; the first group of a topic wins.\<close>

definition close_group_master ::
  "group \<Rightarrow> (string list \<times> stop_stats) \<times> 'a world_scheme \<Rightarrow> (string list \<times> stop_stats) \<times> 'a world_scheme" where
  "close_group_master g st =
     (let seen = fst (fst st); s = snd (fst st); w = snd st in
      if gid g = 0 then st
      else if use_master_valve g \<noteq> 1
      then ((seen, s\<lparr>masters_skipped_no_use_master := masters_skipped_no_use_master s + 1\<rparr>), w)
      else if master_topic g = [] \<or> \<not> truthy_int (master_mqtt_server_id g)
      then ((seen, s\<lparr>masters_skipped_no_topic := masters_skipped_no_topic s + 1\<rparr>), w)
      else
        (let t = normalize_topic (master_topic g);
             w1 = w\<lparr>timers := (timers w)(t := None)\<rparr>
         in if t \<in> set seen
            then ((seen, s\<lparr>masters_skipped_dup_topic := masters_skipped_dup_topic s + 1\<rparr>), w1)
            else case get_mqtt_server w1 (int_or0 (master_mqtt_server_id g)) of
                   None \<Rightarrow> ((t # seen, s\<lparr>masters_failed_publish := masters_failed_publish s + 1\<rparr>), w1)
                 | Some srv \<Rightarrow>
                     (let res = publish_mqtt_value (server_id srv) t (close_value g) w1
                      in if fst res
                         then ((t # seen, s\<lparr>masters_closed := masters_closed s + 1\<rparr>),
                               set_observed (gid g) ''closed'' (snd res))
                         else ((t # seen, s\<lparr>masters_failed_publish := masters_failed_publish s + 1\<rparr>), snd res))))"

definition emergency_phase_c :: "group list \<Rightarrow> 'a world_scheme \<Rightarrow> stop_stats \<times> 'a world_scheme" where
  "emergency_phase_c gs w =
     (let res = fold close_group_master gs (([], no_stats), w) in (snd (fst res), snd res))"

definition emergency_stop_all ::
  "string \<Rightarrow> time \<Rightarrow> rat \<Rightarrow> rat \<Rightarrow> 'a world_scheme \<Rightarrow> stop_stats \<times> 'a world_scheme" where
  "emergency_stop_all reason now mn wall w =
     (let gs = get_groups w;
          a = emergency_phase_a reason now mn wall gs w;
          b = emergency_phase_b reason now mn wall gs (snd a);
          c = emergency_phase_c gs (snd b)
      in ((fst c)\<lparr>groups_total := length gs, zones_stopped := fst a,
            zones_force_retried := fst (fst b), zones_still_active_after_wait := snd (fst b)\<rparr>, snd c))"

end
