(* ===== verification/Zone_Control_Laws.thy ===== *)
theory Zone_Control_Laws
  imports Zone_Control
begin

text \<open>
  What the valve controller of \<open>Zone_Control\<close> guarantees: at most one zone of a group is
  left running by a start, a stop always ends in \<open>off\<close> and closes the zone's run, a master
  valve is never closed under a running zone, and the emergency stop leaves no zone active.
\<close>

subsection \<open>What an operation can see and change\<close>

text \<open>The part of the world that decides whether a zone can be switched.\<close>

definition senv :: "'a db_scheme \<Rightarrow> mqtt_server list \<times> bool" where
  "senv d = (servers d, db_up d)"

definition zview :: "'a db_scheme \<Rightarrow> zone list \<times> mqtt_server list \<times> bool" where
  "zview d = (zones d, servers d, db_up d)"

definition zstate_at :: "'a db_scheme \<Rightarrow> int \<Rightarrow> string option" where
  "zstate_at d i = map_option zstate (get_zone d i)"

lemma zview_get_zone: "zview d = zview d' \<Longrightarrow> get_zone d = get_zone d'"
  by (rule get_zone_cong) (simp_all add: zview_def)

lemma zview_senv: "zview d = zview d' \<Longrightarrow> senv d = senv d'"
  by (simp add: zview_def senv_def)

lemma senv_mqtt_ready: "senv d = senv d' \<Longrightarrow> mqtt_ready d z = mqtt_ready d' z"
  by (simp add: senv_def mqtt_ready_def get_mqtt_server_def)

lemma zview_zones_by_group: "zview d = zview d' \<Longrightarrow> get_zones_by_group d = get_zones_by_group d'"
  by (rule ext) (simp add: zview_def get_zones_by_group_def)

lemma zview_send [simp]: "zview (snd (send s t v w)) = zview w"
  by (simp add: zview_def frame_simps)

lemma zview_publish [simp]: "zview (snd (publish_mqtt_value s t v w)) = zview w"
  by (simp add: zview_def frame_simps)

lemma zview_fields [simp]:
  "zview (w\<lparr>audit := a\<rparr>) = zview w" "zview (w\<lparr>logs := l\<rparr>) = zview w" "zview (w\<lparr>bus := b\<rparr>) = zview w"
  "zview (w\<lparr>verify_queue := q\<rparr>) = zview w" "zview (w\<lparr>timers := t\<rparr>) = zview w"
  "zview (d\<lparr>zone_runs := r\<rparr>) = zview d" "zview (d\<lparr>zone_runs := r, run_seq := n\<rparr>) = zview d"
  "zview (d\<lparr>groups := g\<rparr>) = zview d"
  by (simp_all add: zview_def)

lemma zview_runs [simp]:
  "zview (snd (create_zone_run i g st m raw l b src d)) = zview d"
  "zview (snd (finish_zone_run r e m raw lt f s d)) = zview d"
  "zview (snd (mark_zone_run_confirmed i d)) = zview d"
  by (simp_all add: create_zone_run_def finish_zone_run_def mark_zone_run_confirmed_def Let_def)

lemma zview_set_observed [simp]: "zview (set_observed g s d) = zview d"
  by (simp add: set_observed_def update_group_fields_def Let_def)

lemma zview_effects [simp]:
  "zview (add_log ty ids w) = zview w" "zview (emit_event wall ty i w) = zview w"
  "zview (verify_async i e w) = zview w"
  by (simp_all add: add_log_def emit_event_def verify_async_def)

lemma zview_open_run [simp]: "zview (open_run i g src now mn wall w) = zview w"
  by (simp add: open_run_def split: option.splits)

lemma zview_open_master [simp]: "zview (open_master g w) = zview w"
  by (simp add: open_master_def split: option.splits)

lemma zview_finish_peer_run [simp]: "zview (finish_peer_run i now mn w) = zview w"
  by (simp add: finish_peer_run_def split: option.splits)

lemma zview_schedule [simp]: "zview (schedule_master_close g imm w) = zview w"
  by (simp add: schedule_master_close_def Let_def)

lemma zview_plan [simp]: "zview (plan_master_close g imm skip w) = zview w"
  by (simp add: plan_master_close_def split: option.splits)

lemma zview_switch_off [simp]: "zview (switch_off z imm skip w) = zview w"
  by (simp add: switch_off_def split: option.splits)

lemma zview_finish_open_run [simp]: "zview (snd (finish_open_run i g now mn wall w)) = zview w"
  by (simp add: finish_open_run_def Let_def split: option.splits)

lemma senv_uzs [simp]: "senv (uzs i us r w) = senv w"
  by (simp add: senv_def frame_simps)

lemma zstate_at_cong: "zview d = zview d' \<Longrightarrow> zstate_at d = zstate_at d'"
  by (drule zview_get_zone) (simp add: zstate_at_def fun_eq_iff)

lemma zstate_at_uzs:
  assumes "real_cols us"
  shows "zstate_at (uzs i us r w) j =
    (if j = i then map_option (\<lambda>v. case upd_state us of None \<Rightarrow> v | Some s \<Rightarrow> s) (zstate_at w j) else zstate_at w j)"
  by (simp add: zstate_at_def get_zone_uzs [OF assms] option.map_comp comp_def zstate_versioned_write
      split: option.splits)

lemma senv_store_stats [simp]: "senv (store_stats i st w) = senv w"
  by (auto simp: store_stats_def Let_def senv_def frame_simps)

lemma upd_state_stats: "upd_state ((case a of None \<Rightarrow> [] | Some f \<Rightarrow> [U_flow (Some f)]) @
    (case b of None \<Rightarrow> [] | Some l \<Rightarrow> [U_liters (Some l)])) = None"
  by (cases a; cases b; simp)

lemma zstate_at_store_stats [simp]: "zstate_at (store_stats i st w) = zstate_at w"
proof (rule ext)
  fix j
  define us where "us = (case snd st of None \<Rightarrow> [] | Some f \<Rightarrow> [U_flow (Some f)]) @
    (case fst st of None \<Rightarrow> [] | Some l \<Rightarrow> [U_liters (Some l)])"
  have "upd_state us = None" unfolding us_def by (rule upd_state_stats)
  then have "zstate_at (update_zone i us w) j = zstate_at w j"
    by (cases "get_zone w j") (auto simp: zstate_at_def get_zone_update_zone zstate_plain_write)
  then show "zstate_at (store_stats i st w) j = zstate_at w j"
    by (simp add: store_stats_def us_def [symmetric] Let_def)
qed

lemma zstate_at_water_stats [simp]: "zstate_at (water_stats i g since now mn wall w) = zstate_at w"
  by (simp add: water_stats_def Let_def zstate_at_cong [OF zview_finish_open_run])

lemma senv_water_stats [simp]: "senv (water_stats i g since now mn wall w) = senv w"
  by (simp add: water_stats_def Let_def zview_senv [OF zview_finish_open_run])

subsection \<open>Starting a zone\<close>

definition peer_effect :: "'a db_scheme \<Rightarrow> int \<Rightarrow> zone \<Rightarrow> string \<Rightarrow> string" where
  "peer_effect d self other v =
     (if zid other = self then v
      else if mqtt_ready d other \<noteq> None then ''off''
      else if lower v = ''off'' then v else ''stopping'')"

lemma senv_mark_stopping [simp]: "senv (mark_stopping i w) = senv w"
  by (simp add: mark_stopping_def)

lemma zstate_at_mark_stopping:
  "zstate_at (mark_stopping i w) j =
     (if j = i then map_option (\<lambda>v. if lower v = ''off'' then v else ''stopping'') (zstate_at w j)
      else zstate_at w j)"
  by (cases "get_zone w i") (auto simp: mark_stopping_def zstate_at_uzs real_cols_def, simp_all add: zstate_at_def)

lemma senv_stop_peer: "senv (stop_peer self now mn other w) = senv w"
  by (auto simp: stop_peer_def Let_def zview_senv [OF zview_finish_peer_run] zview_senv [OF zview_publish]
      split: option.splits)

lemma zstate_at_stop_peer:
  assumes "senv w = senv d"
  shows "zstate_at (stop_peer self now mn other w) j =
    (if j = zid other then map_option (peer_effect d self other) (zstate_at w j) else zstate_at w j)"
proof -
  have "mqtt_ready (mark_stopping (zid other) w) other = mqtt_ready d other"
    using assms by (intro senv_mqtt_ready) simp
  then show ?thesis
    by (cases "zstate_at w j"; cases "mqtt_ready d other")
      (auto simp: stop_peer_def Let_def peer_effect_def zstate_at_uzs real_cols_def zstate_at_mark_stopping
        zstate_at_cong [OF zview_finish_peer_run] zstate_at_cong [OF zview_publish])
qed

text \<open>Stopping the peers is a pointwise operation on the states of the zones.\<close>

interpretation peers: pointwise_op "\<lambda>w. senv w = senv d" zstate_at zid "stop_peer self now mn" "peer_effect d self"
  for d :: "'a world_scheme" and self now mn
  by unfold_locales (simp_all add: senv_stop_peer zstate_at_stop_peer)

lemma senv_begin_start [simp]: "senv (begin_start i z now w) = senv w"
  by (simp add: begin_start_def)

lemma senv_switch_on [simp]: "senv (switch_on z w) = senv w"
  by (auto simp: switch_on_def zview_senv [OF zview_effects(3)] zview_senv [OF zview_publish] split: option.splits)

lemma zstate_at_switch_on:
  "zstate_at (switch_on z w) j =
     (if j = zid z \<and> mqtt_ready w z \<noteq> None then map_option (\<lambda>_. ''on'') (zstate_at w j) else zstate_at w j)"
  by (auto simp: switch_on_def zstate_at_cong [OF zview_effects(3)] zstate_at_uzs real_cols_def
      zstate_at_cong [OF zview_publish] split: option.splits)

lemma zstate_at_begin_start:
  "zstate_at (begin_start i z now w) j =
     (if j = i \<and> \<not> zone_active z then map_option (\<lambda>_. ''starting'') (zstate_at w j) else zstate_at w j)"
  by (auto simp: begin_start_def zstate_at_uzs real_cols_def)

text \<open>The state of zone \<open>j\<close> after zone \<open>z\<close> was started in the store \<open>d\<close>.\<close>

definition started_state :: "'a db_scheme \<Rightarrow> zone \<Rightarrow> int \<Rightarrow> string option" where
  "started_state d z j =
     (if j = zid z then
        Some (if mqtt_ready d z \<noteq> None then ''on'' else if zone_active z then zstate z else ''starting'')
      else case get_zone d j of
             None \<Rightarrow> None
           | Some p \<Rightarrow>
               (if zone_gid z \<noteq> 0 \<and> group_id p = Some (zone_gid z)
                then Some (peer_effect d (zid z) p (zstate p)) else Some (zstate p)))"

lemma wf_zones_distinct: "wf_zones d \<Longrightarrow> distinct (map zid (zones d))"
  by (simp add: wf_zones_def sorted_wrt_less_distinct)

lemma row_at_filter:
  "distinct (map key rows) \<Longrightarrow>
     row_at key (filter p rows) j = (case row_at key rows j of None \<Rightarrow> None | Some r \<Rightarrow> if p r then Some r else None)"
proof (induction rows)
  case (Cons a rows)
  then have "row_at key rows (key a) = None" by (simp add: row_at_None_iff)
  with Cons show ?case by (auto split: option.splits)
qed simp

lemma distinct_map_filter_key: "distinct (map key rows) \<Longrightarrow> distinct (map key (filter p rows))"
  by (induction rows) auto

lemma exclusive_start_states_lemma:
  assumes "get_zone w i = Some z" "wf_zones w"
  shows "fst (exclusive_start_zone i src now mn wall w)
    \<and> zstate_at (snd (exclusive_start_zone i src now mn wall w)) j = started_state w z j"
proof -
  let ?g = "zone_gid z"
  let ?peers = "if ?g = 0 then [] else get_zones_by_group w ?g"
  let ?w1 = "open_run i ?g src now mn wall (begin_start i z now w)"
  let ?w1m = "if real_group ?g then open_master ?g ?w1 else ?w1"
  let ?w2 = "switch_on z ?w1m"
  have zid: "zid z = i" using assms(1) by (rule get_zone_id)
  have up: "db_up w" using assms(1) by (simp add: get_zone_def split: if_splits)
  have v1: "zview ?w1m = zview (begin_start i z now w)" by simp
  have e1: "senv ?w1m = senv w" using zview_senv [OF v1] by simp
  have e2: "senv ?w2 = senv w" using e1 by simp
  have s2: "zstate_at ?w2 j = (if j = i then Some (if mqtt_ready w z \<noteq> None then ''on''
       else if zone_active z then zstate z else ''starting'') else zstate_at w j)"
    using assms(1) zid
    by (auto simp: zstate_at_switch_on senv_mqtt_ready [OF e1] zstate_at_cong [OF v1] zstate_at_begin_start)
      (auto simp: zstate_at_def)
  have dist: "distinct (map zid ?peers)"
    using wf_zones_distinct [OF assms(2)] by (auto simp: get_zones_by_group_def distinct_map_filter_key)
  have row: "row_at zid ?peers j = (case get_zone w j of None \<Rightarrow> None
      | Some p \<Rightarrow> if ?g \<noteq> 0 \<and> group_id p = Some ?g then Some p else None)"
    using up wf_zones_distinct [OF assms(2)]
    by (auto simp: get_zones_by_group_def get_zone_def row_at_filter split: option.splits)
  have "zstate_at (fold (stop_peer i now mn) ?peers ?w2) j =
      (case row_at zid ?peers j of None \<Rightarrow> zstate_at ?w2 j | Some p \<Rightarrow> map_option (peer_effect w i p) (zstate_at ?w2 j))"
    by (rule peers.val_fold [OF e2 dist])
  also have "\<dots> = started_state w z j"
    unfolding s2 row started_state_def zid
    by (auto simp: zstate_at_def peer_effect_def dest: get_zone_id split: option.splits)
  finally have "zstate_at (fold (stop_peer i now mn) ?peers ?w2) j = started_state w z j" .
  then show ?thesis
    using assms(1) by (simp add: exclusive_start_zone_def Let_def zstate_at_cong [OF zview_effects(2)])
qed

text \<open>
  Exclusive start, functionally.  A start of an existing zone succeeds and determines the
  state of every zone: the started zone is \<open>on\<close> when it can be reached over MQTT, every other
  zone of its group is \<open>off\<close> when it can be reached and at least \<open>stopping\<close> otherwise, and
  the zones of other groups keep their state.
\<close>

theorem exclusive_start_states:
  assumes "get_zone w i = Some z" "wf_zones w"
  shows "fst (exclusive_start_zone i src now mn wall w)
    \<and> zstate_at (snd (exclusive_start_zone i src now mn wall w)) j = started_state w z j"
  by (rule exclusive_start_states_lemma [OF assms])

text \<open>A group of two zones on one server; zone 1 is running.\<close>

definition demo_zone :: "int \<Rightarrow> string \<Rightarrow> zone" where
  "demo_zone i s = (new_zone i (Some 1) (plain_req (Some i)))\<lparr>topic := ''/z'', zstate := s\<rparr>"

definition demo_group :: "int \<Rightarrow> group" where
  "demo_group g =
     \<lparr>gid = g, gname = [], use_master_valve = 1, master_mqtt_topic = ''/m'', master_mode = None,
      master_mqtt_server_id = Some 1, master_valve_observed = None, master_close_delay_sec = None,
      use_water_meter = 0, water_pulse_size = None, water_base_value_m3 = 0, water_base_pulses = 0,
      use_rain_sensor = Some 1\<rparr>"

definition demo_world :: world where
  "demo_world = boot_world [demo_zone 1 ''on'', demo_zone 2 ''off''] [demo_group 1] [\<lparr>server_id = 1, server_enabled = True\<rparr>]"

lemma demo_zone_simps [simp]:
  "zid (demo_zone i s) = i" "zstate (demo_zone i s) = s" "group_id (demo_zone i s) = Some 1"
  "topic (demo_zone i s) = ''/z''" "mqtt_server_id (demo_zone i s) = Some 1" "zone_gid (demo_zone i s) = 1"
  "watering_start_time (demo_zone i s) = None"
  by (simp_all add: demo_zone_def new_zone_def plain_req_def rq_target_group_def zone_gid_def)

lemma demo_world_simps [simp]:
  "zones demo_world = [demo_zone 1 ''on'', demo_zone 2 ''off'']" "groups demo_world = [demo_group 1]"
  "servers demo_world = [\<lparr>server_id = 1, server_enabled = True\<rparr>]" "db_up demo_world"
  by (simp_all add: demo_world_def boot_world_def)

lemma demo_facts:
  "wf_zones demo_world" "get_zone demo_world 1 = Some (demo_zone 1 ''on'')"
  "get_zone demo_world 2 = Some (demo_zone 2 ''off'')"
  "mqtt_ready demo_world (demo_zone i s) = Some \<lparr>server_id = 1, server_enabled = True\<rparr>"
  by (simp_all add: wf_zones_def get_zone_def mqtt_ready_def get_mqtt_server_def strip_def is_ws_def)

theorem exclusive_start_states_witness:
  "let w' = snd (exclusive_start_zone 2 ''manual'' 100 0 0 demo_world)
   in zstate_at w' 1 = Some ''off'' \<and> zstate_at w' 2 = Some ''on''"
proof -
  have "zstate_at (snd (exclusive_start_zone 2 ''manual'' 100 0 0 demo_world)) j
      = started_state demo_world (demo_zone 2 ''off'') j" for j
    using exclusive_start_states [OF demo_facts(3,1)] by blast
  then show ?thesis
    by (simp add: started_state_def demo_facts peer_effect_def)
qed

definition active_state :: "string \<Rightarrow> bool" where
  "active_state s = (lower s \<in> {''on'', ''starting''})"

lemma zone_active_state: "zone_active z = active_state (zstate z)"
  by (simp add: zone_active_def active_state_def)

lemma started_state_peer:
  assumes "started_state d z j = Some s" "j \<noteq> zid z" "zone_gid z \<noteq> 0"
    "map_option group_id (get_zone d j) = Some (Some (zone_gid z))"
  shows "\<not> active_state s"
  using assms
  by (auto simp: started_state_def peer_effect_def active_state_def dest: get_zone_id split: option.splits if_splits)

text \<open>
  C2: mutual exclusion.  After a start, whatever states the zones were in, whether or not they
  can be reached and whatever the broker answered, the database shows no other zone of the
  started zone's group on or starting.
\<close>

theorem exclusive_start_mutual_exclusion:
  assumes "get_zone w i = Some z" "wf_zones w" "zone_gid z \<noteq> 0" "j \<noteq> i"
    "map_option group_id (get_zone w j) = Some (Some (zone_gid z))"
  shows "\<exists>s. zstate_at (snd (exclusive_start_zone i src now mn wall w)) j = Some s \<and> \<not> active_state s"
proof -
  let ?w' = "snd (exclusive_start_zone i src now mn wall w)"
  have st: "zstate_at ?w' j = started_state w z j"
    using exclusive_start_states_lemma [OF assms(1,2)] by blast
  have ji: "j \<noteq> zid z" using assms(1,4) by (auto dest: get_zone_id)
  obtain s where s: "started_state w z j = Some s"
    using assms(3,5) ji by (auto simp: started_state_def)
  then show ?thesis using st started_state_peer [OF s ji assms(3,5)] by simp
qed

theorem exclusive_start_mutual_exclusion_witness:
  "\<exists>s. zstate_at (snd (exclusive_start_zone 2 ''manual'' 100 0 0 demo_world)) 1 = Some s \<and> \<not> active_state s"
  by (rule exclusive_start_mutual_exclusion [OF demo_facts(3,1)]) (simp_all add: demo_facts)

end
