(* ===== verification/Zone_Stop_Laws.thy ===== *)
theory Zone_Stop_Laws
  imports Zone_Control_Laws
begin

text \<open>
  What stopping guarantees: the single stop path ends in \<open>off\<close> and finishes the zone's open
  run, a duplicate stop publishes nothing, a master valve is never closed under a running
  zone, and the emergency stop leaves every zone off and no close timer pending.
\<close>

subsection \<open>The states after a stop\<close>

lemma zstate_at_plan [simp]: "zstate_at (plan_master_close g imm skip w) = zstate_at w"
  by (rule zstate_at_cong) simp

lemma zstate_at_switch_off [simp]: "zstate_at (switch_off z imm skip w) = zstate_at w"
  by (rule zstate_at_cong) simp

lemma zstate_at_effects [simp]:
  "zstate_at (add_log ty ids w) = zstate_at w" "zstate_at (emit_event wall ty i w) = zstate_at w"
  by (rule zstate_at_cong, simp)+

text \<open>A stop does the full job when it is forced or the zone is neither \<open>off\<close> nor \<open>stopping\<close>.\<close>

definition stop_acts :: "zone \<Rightarrow> bool \<Rightarrow> bool" where
  "stop_acts z force = (force \<or> lower (zstate z) \<notin> {''off'', ''stopping''})"

definition full_stop ::
  "int \<Rightarrow> zone \<Rightarrow> string \<Rightarrow> bool \<Rightarrow> bool \<Rightarrow> time \<Rightarrow> rat \<Rightarrow> rat \<Rightarrow> 'a world_scheme \<Rightarrow> 'a world_scheme" where
  "full_stop i z reason imm skip now mn wall w =
     emit_event wall ''zone_stop'' i (add_log ''zone_stop'' [i]
       (water_stats i (zone_gid z) (watering_start_time z) now mn wall
         (uzs i [U_state ''off'', U_wstart None, U_planned None] (''stop_'' @ reason @ ''_complete'')
           (switch_off z imm skip
             (uzs i [U_state ''stopping'', U_commanded (Some ''off'')] (''stop_'' @ reason) w)))))"

lemma stop_zone_split:
  assumes "get_zone w i = Some z"
  shows "stop_zone i reason force imm skip now mn wall w =
    (True, if stop_acts z force then full_stop i z reason imm skip now mn wall w
           else stop_already_off i z imm skip now mn wall w)"
proof -
  have "(lower (zstate z) \<in> {''off'', ''stopping''} \<and> \<not> force) = (\<not> stop_acts z force)"
    by (auto simp: stop_acts_def)
  then show ?thesis using assms by (simp add: stop_zone_def Let_def full_stop_def)
qed

lemma zstate_at_stop_zone:
  assumes "get_zone w i = Some z"
  shows "zstate_at (snd (stop_zone i reason force imm skip now mn wall w)) j =
    (if j = i \<and> stop_acts z force then Some ''off'' else zstate_at w j)"
  using assms
  by (simp add: stop_zone_split full_stop_def stop_already_off_def Let_def zstate_at_uzs real_cols_def)
    (simp add: zstate_at_def)

lemma zstate_at_forced_stop:
  "zstate_at (snd (stop_zone i reason True imm skip now mn wall w)) j =
    (if j = i then map_option (\<lambda>_. ''off'') (zstate_at w j) else zstate_at w j)"
proof (cases "get_zone w i")
  case None
  then show ?thesis by (simp add: stop_zone_def zstate_at_def)
next
  case (Some z)
  then show ?thesis
    by (simp add: zstate_at_stop_zone stop_acts_def) (simp add: zstate_at_def)
qed

text \<open>A forced stop is a pointwise, idempotent operation on the states of the zones.\<close>

interpretation forced: idem_op "\<lambda>_. True" zstate_at id
    "\<lambda>i w. snd (stop_zone i reason True imm skip now mn wall w)" "\<lambda>_ _. ''off''"
  for reason imm skip now mn wall
  by unfold_locales (simp_all add: zstate_at_forced_stop)

lemma fold_map_list: "fold (\<lambda>x. f (g x)) xs s = fold f (map g xs) s"
  by (induction xs arbitrary: s) simp_all

lemma row_at_id: "row_at id xs j = (if j \<in> set xs then Some j else None)"
  by (induction xs) auto

lemma stop_all_fold:
  "stop_all_in_group g reason force imm skip now mn wall w =
     fold (\<lambda>i w. snd (stop_zone i reason force imm skip now mn wall w)) (map zid (get_zones_by_group w g)) w"
  by (simp add: stop_all_in_group_def fold_map comp_def)

lemma zstate_at_forced_group:
  "zstate_at (stop_all_in_group g reason True imm skip now mn wall w) j =
    (if j \<in> zid ` set (get_zones_by_group w g) then map_option (\<lambda>_. ''off'') (zstate_at w j) else zstate_at w j)"
  by (simp add: stop_all_fold forced.val_fold_idem row_at_id)

subsection \<open>Zones keep their group, duration and topic\<close>

definition zgroups :: "'a db_scheme \<Rightarrow> (int \<times> int option \<times> int option \<times> string) list \<times> bool \<times> group list" where
  "zgroups d = (map (\<lambda>z. (zid z, group_id z, duration z, strip (topic z))) (zones d), db_up d, map (\<lambda>g. g\<lparr>master_valve_observed := None\<rparr>) (groups d))"

definition group_members :: "'a db_scheme \<Rightarrow> int \<Rightarrow> int set" where
  "group_members d g = (if db_up d then fst ` {p \<in> set (fst (zgroups d)). fst (snd p) = Some g} else {})"

lemma group_members_eq: "zid ` set (get_zones_by_group d g) = group_members d g"
  by (force simp: get_zones_by_group_def group_members_def zgroups_def)

lemma group_members_cong: "zgroups d = zgroups d' \<Longrightarrow> group_members d = group_members d'"
  by (auto simp: group_members_def fun_eq_iff) (auto simp: zgroups_def)

fun keeps_group :: "zone_upd \<Rightarrow> bool" where
  "keeps_group (U_group v) = False"
| "keeps_group (U_duration v) = False"
| "keeps_group (U_topic v) = False"
| "keeps_group u = True"

lemma group_id_set_cols:
  "list_all keeps_group us \<Longrightarrow> group_id (set_cols us z) = group_id z \<and> duration (set_cols us z) = duration z
     \<and> topic (set_cols us z) = topic z"
proof (induction us arbitrary: z)
  case (Cons u us)
  then show ?case by (cases u) auto
qed simp

lemma zgroups_put:
  "(\<And>z. zid (f z) = zid z) \<Longrightarrow> (\<And>z. group_id (f z) = group_id z \<and> duration (f z) = duration z
       \<and> strip (topic (f z)) = strip (topic z)) \<Longrightarrow>
     zgroups (put_zone i f d) = zgroups d"
  by (simp add: zgroups_def put_zone_def upd_rows_def)

lemma list_all_filterI: "list_all P xs \<Longrightarrow> list_all P (filter Q xs)"
  by (induction xs) auto

lemma zgroups_update_zone: "list_all keeps_group us \<Longrightarrow> zgroups (update_zone i us d) = zgroups d"
proof -
  assume us: "list_all keeps_group us"
  have put: "zgroups (put_zone i (plain_write us) d) = zgroups d"
    by (rule zgroups_put) (simp_all add: plain_write_def Let_def group_id_set_cols us list_all_filterI)
  have "zgroups (d'\<lparr>programs := ps\<rparr>) = zgroups d'" for d' :: "'a db_scheme" and ps
    by (simp add: zgroups_def)
  with put show ?thesis by (simp add: update_zone_def Let_def split: option.splits)
qed

lemma zgroups_audit [simp]: "zgroups (w\<lparr>audit := a\<rparr>) = zgroups w"
  by (simp add: zgroups_def)

lemma zgroups_uzs:
  assumes "list_all keeps_group us" "real_cols us"
  shows "zgroups (uzs i us r w) = zgroups w"
proof (cases "get_zone w i")
  case None
  then show ?thesis by (simp add: update_zone_state_missing)
next
  case (Some z)
  have "zgroups (put_zone i (versioned_write us) w) = zgroups w"
    by (rule zgroups_put) (simp_all add: versioned_write_def group_id_set_cols assms(1))
  then show ?thesis using Some assms by (simp add: update_zone_state_existing)
qed

lemma zview_zgroups: "zview d = zview d' \<Longrightarrow> groups d = groups d' \<Longrightarrow> zgroups d = zgroups d'"
  by (simp add: zview_def zgroups_def)

lemma zgroups_publish [simp]: "zgroups (snd (publish_mqtt_value s t v w)) = zgroups w"
  by (rule zview_zgroups) (simp_all add: frame_simps)

lemma zgroups_fields [simp]:
  "zgroups (w\<lparr>logs := l\<rparr>) = zgroups w" "zgroups (w\<lparr>bus := b\<rparr>) = zgroups w"
  "zgroups (w\<lparr>verify_queue := q\<rparr>) = zgroups w" "zgroups (w\<lparr>timers := t\<rparr>) = zgroups w"
  "zgroups (d\<lparr>zone_runs := rs\<rparr>) = zgroups d"
  by (simp_all add: zgroups_def)

lemma zgroups_set_observed [simp]: "zgroups (set_observed g s d) = zgroups d"
  by (auto simp: zgroups_def set_observed_def update_group_fields_def Let_def upd_rows_def)

lemma zgroups_effects [simp]:
  "zgroups (add_log ty ids w) = zgroups w" "zgroups (emit_event wall ty i w) = zgroups w"
  "zgroups (verify_async i e w) = zgroups w" "zgroups (schedule_master_close g imm w) = zgroups w"
  "zgroups (snd (finish_zone_run r en m raw lt f s d)) = zgroups d"
  by (simp_all add: add_log_def emit_event_def verify_async_def schedule_master_close_def Let_def finish_zone_run_def)

lemma zgroups_plan [simp]: "zgroups (plan_master_close g imm skip w) = zgroups w"
  by (simp add: plan_master_close_def split: option.splits)

lemma zgroups_switch_off [simp]: "zgroups (switch_off z imm skip w) = zgroups w"
  by (simp add: switch_off_def split: option.splits)

lemma zgroups_water_stats [simp]: "zgroups (water_stats i g since now mn wall w) = zgroups w"
proof -
  have "list_all keeps_group ((case snd st of None \<Rightarrow> [] | Some f \<Rightarrow> [U_flow (Some f)]) @
    (case fst st of None \<Rightarrow> [] | Some l \<Rightarrow> [U_liters (Some l)]))" for st :: "rat option \<times> rat option"
    by (cases "fst st"; cases "snd st"; simp)
  then have "zgroups (store_stats i st u) = zgroups u" for st and u :: "'a world_scheme"
    by (simp add: store_stats_def Let_def zgroups_update_zone)
  moreover have "zgroups (snd (finish_open_run i g now mn wall w)) = zgroups w"
    by (simp add: finish_open_run_def Let_def split: option.splits)
  ultimately show ?thesis by (simp add: water_stats_def Let_def)
qed

lemma zgroups_stop_zone [simp]: "zgroups (snd (stop_zone i reason force imm skip now mn wall w)) = zgroups w"
  by (cases "get_zone w i")
    (simp_all add: stop_zone_def stop_already_off_def Let_def zgroups_uzs real_cols_def)

lemma zgroups_fold_stop [simp]:
  "zgroups (fold (\<lambda>i w. snd (stop_zone i reason force imm skip now mn wall w)) is w) = zgroups w"
  by (induction "is" arbitrary: w) simp_all

lemma zgroups_stop_all [simp]: "zgroups (stop_all_in_group g reason force imm skip now mn wall w) = zgroups w"
  by (simp add: stop_all_fold)

subsection \<open>Runs and messages\<close>

definition rview :: "'a world_scheme \<Rightarrow> zone_run list \<times> bool \<times> meters" where
  "rview w = (zone_runs w, db_up w, meter w)"

lemma rview_uzs [simp]: "rview (uzs i us r w) = rview w"
  by (simp add: rview_def frame_simps)

lemma rview_switch_off [simp]: "rview (switch_off z imm skip w) = rview w"
  by (auto simp: rview_def switch_off_def plan_master_close_def schedule_master_close_def verify_async_def
      frame_simps Let_def split: option.splits)

lemma rview_open_run: "rview w = rview w' \<Longrightarrow> get_open_zone_run w = get_open_zone_run w'"
  by (rule ext) (simp add: rview_def get_open_zone_run_def)

lemma runs_finish_cong:
  "rview w = rview w' \<Longrightarrow> zone_runs (snd (finish_open_run i g now mn wall w)) = zone_runs (snd (finish_open_run i g now mn wall w'))"
  by (auto simp: rview_def finish_open_run_def get_open_zone_run_def Let_def finish_zone_run_def honest_status_def
      split: option.splits)

lemma runs_water_stats:
  "real_group g \<Longrightarrow> zone_runs (water_stats i g since now mn wall w) = zone_runs (snd (finish_open_run i g now mn wall w))"
  by (simp add: water_stats_def store_stats_def Let_def frame_simps)

lemma runs_plan [simp]: "zone_runs (plan_master_close g imm skip w) = zone_runs w"
  by (auto simp: plan_master_close_def schedule_master_close_def Let_def split: option.splits)

lemma runs_stop_zone:
  assumes "get_zone w i = Some z" "real_group (zone_gid z)"
  shows "zone_runs (snd (stop_zone i reason force imm skip now mn wall w))
    = zone_runs (snd (finish_open_run i (zone_gid z) now mn wall w))"
proof -
  let ?u = "uzs i [U_state ''off'', U_wstart None, U_planned None] (''stop_'' @ reason @ ''_complete'')
           (switch_off z imm skip (uzs i [U_state ''stopping'', U_commanded (Some ''off'')] (''stop_'' @ reason) w))"
  have "rview ?u = rview w" by simp
  from runs_finish_cong [OF this] show ?thesis
    using assms
    by (simp add: stop_zone_split full_stop_def stop_already_off_def Let_def runs_water_stats emit_event_def add_log_def)
qed

text \<open>
  C10: every stop settles the history.  Whatever the zone's state and whether or not the stop is
  forced, stopping a grouped zone ends its open run now; the run counts as a successful
  watering exactly when its relay had confirmed it, and its volume is the metered pulse
  difference, never negative, when both meter readings exist.
\<close>

theorem stop_zone_finishes_run:
  assumes "get_zone w i = Some z" "real_group (zone_gid z)" "wf_runs w" "get_open_zone_run w i = Some r"
  shows "\<exists>r'. row_at run_id (zone_runs (snd (stop_zone i reason force imm skip now mn wall w))) (run_id r) = Some r'
     \<and> run_zone r' = i \<and> end_utc r' = Some now \<and> run_status r' = Some (if confirmed r then ''ok'' else ''failed'')
     \<and> total_liters r' = (case run_litres r (get_pulses_at_or_after (meter w) (zone_gid z) wall) of
          None \<Rightarrow> total_liters r | Some l \<Rightarrow> Some (of_int l))"
proof -
  have r: "r \<in> set (zone_runs w)" "run_zone r = i" using get_open_zone_run_open [OF assms(4)] by auto
  have "distinct (map run_id (zone_runs w))"
    using assms(3) sorted_wrt_less_distinct by (auto simp: wf_runs_def)
  then have row: "row_at run_id (zone_runs w) (run_id r) = Some r" using r(1) by (rule row_at_mem_unique)
  have up: "db_up w" using assms(1) by (simp add: get_zone_def split: if_splits)
  show ?thesis
    unfolding runs_stop_zone [OF assms(1,2)]
    using up r(2) row
    by (auto simp: finish_open_run_def assms(4) Let_def finish_zone_run_def honest_status_def
        run_rows.row_at_upd_key simp del: run_write.simps split: option.splits) 
       (auto split: option.splits)
qed

definition running_world :: world where
  "running_world = snd (create_zone_run 1 1 0 0 None 1 None (Some ''manual'') demo_world)"

lemma running_facts:
  "get_zone running_world 1 = Some (demo_zone 1 ''on'')" "wf_runs running_world"
  "get_zone running_world 2 = Some (demo_zone 2 ''off'')"
  "map_option run_id (get_open_zone_run running_world 1) = Some 1"
proof -
  have z: "zones running_world = zones demo_world" "db_up running_world"
    by (simp_all add: running_world_def create_zone_run_def Let_def)
  then show "get_zone running_world 1 = Some (demo_zone 1 ''on'')" "get_zone running_world 2 = Some (demo_zone 2 ''off'')"
    by (simp_all add: get_zone_def)
  show "wf_runs running_world"
    unfolding running_world_def by (rule wf_runs_create) (simp add: wf_runs_def demo_world_def boot_world_def)
  show "map_option run_id (get_open_zone_run running_world 1) = Some 1"
    by (simp add: running_world_def create_zone_run_def get_open_zone_run_def Let_def demo_world_def boot_world_def)
qed

theorem stop_zone_finishes_run_witness:
  "\<exists>r'. row_at run_id (zone_runs (snd (stop_zone 1 ''manual'' False False False 300 0 0 running_world))) 1 = Some r'
     \<and> end_utc r' = Some 300"
proof -
  obtain r where r: "get_open_zone_run running_world 1 = Some r" "run_id r = 1" using running_facts(4) by auto
  show ?thesis
    using stop_zone_finishes_run [OF running_facts(1) _ running_facts(2) r(1), of "''manual''" False False False 300 0 0] r(2)
    by (auto simp: real_group_def)
qed

text \<open>Messages: only a full stop of a reachable zone publishes.\<close>

lemma sent_water_stats [simp]: "sent (water_stats i g since now mn wall w) = sent w"
proof -
  have "sent (update_zone i us u) = sent u" for us and u :: "'a world_scheme"
    by (rule world_more_eq) (simp add: frame_simps)
  then show ?thesis
    by (auto simp: water_stats_def store_stats_def finish_open_run_def finish_zone_run_def Let_def split: option.splits)
qed

lemma sent_plan [simp]: "sent (plan_master_close g imm skip w) = sent w"
  by (auto simp: plan_master_close_def schedule_master_close_def Let_def split: option.splits)

text \<open>
  Stopping twice is harmless.  An unforced stop of a zone that is already off or stopping
  succeeds, publishes nothing, leaves every zone's state as it is and writes no audit row.
\<close>

theorem stop_zone_idempotent:
  assumes "get_zone w i = Some z" "lower (zstate z) \<in> {''off'', ''stopping''}"
  shows "let res = stop_zone i reason False imm skip now mn wall w
    in fst res \<and> sent (snd res) = sent w \<and> (\<forall>j. zstate_at (snd res) j = zstate_at w j) \<and> audit (snd res) = audit w"
proof -
  have "audit (update_zone i us u) = audit u" for us and u :: "'a world_scheme"
    by (rule world_more_eq) (simp add: frame_simps)
  then have "audit (water_stats i (zone_gid z) since now mn wall w) = audit w" for since
    by (auto simp: water_stats_def store_stats_def finish_open_run_def finish_zone_run_def Let_def split: option.splits)
  moreover have "audit (plan_master_close g imm skip u) = audit u" for g and u :: "'a world_scheme"
    by (auto simp: plan_master_close_def schedule_master_close_def Let_def split: option.splits)
  moreover have "\<not> stop_acts z False" using assms(2) by (simp add: stop_acts_def)
  ultimately show ?thesis
    using assms(1) by (simp add: Let_def stop_zone_split stop_already_off_def)
qed

theorem stop_zone_idempotent_witness:
  "sent (snd (stop_zone 2 ''manual'' False False False 300 0 0 running_world)) = sent running_world"
  using stop_zone_idempotent [OF running_facts(3), of "''manual''" False False 300 0 0] by (simp add: Let_def)

text \<open>
  A stop ends in \<open>off\<close>.  A forced stop, or a stop of a zone that is neither off nor
  stopping, leaves the zone off whether or not it could be reached, and touches no other zone.
\<close>

theorem stop_zone_ends_off:
  assumes "get_zone w i = Some z" "force \<or> lower (zstate z) \<notin> {''off'', ''stopping''}"
  shows "fst (stop_zone i reason force imm skip now mn wall w)
    \<and> zstate_at (snd (stop_zone i reason force imm skip now mn wall w)) j = (if j = i then Some ''off'' else zstate_at w j)"
  using assms by (simp add: zstate_at_stop_zone) (simp add: stop_zone_split stop_acts_def)

theorem stop_zone_ends_off_witness:
  "zstate_at (snd (stop_zone 1 ''manual'' False False False 300 0 0 running_world)) 1 = Some ''off''"
  using stop_zone_ends_off [OF running_facts(1), of False "''manual''" False False 300 0 0 1] by simp

subsection \<open>A repeated start\<close>

lemma open_runs_cong: "zone_runs d = zone_runs d' \<Longrightarrow> open_runs d = open_runs d'"
  by (rule ext) (simp add: open_runs_def)

lemma runs_start_steps [simp]:
  "zone_runs (begin_start i z now w) = zone_runs w" "zone_runs (open_master g w) = zone_runs w"
  "zone_runs (switch_on z w) = zone_runs w"
  by (auto simp: begin_start_def open_master_def switch_on_def set_observed_def update_group_fields_def
      verify_async_def frame_simps Let_def split: option.splits)

lemma open_runs_open_run:
  "db_up w \<Longrightarrow> real_group g \<Longrightarrow> open_runs (open_run i g src now mn wall w) i = open_runs w i + 1"
  by (simp add: open_run_def open_runs_create split: option.splits)

lemma open_runs_stop_peer:
  "zid p \<noteq> i \<Longrightarrow> open_runs (stop_peer self now mn p w) i = open_runs w i" if "wf_runs w"
proof -
  have fin: "open_runs (finish_peer_run k now mn u) i = open_runs u i" if k: "k \<noteq> i" and wf: "wf_runs u" for k and u :: "'a world_scheme"
  proof (cases "get_open_zone_run u k")
    case (Some r)
    have dist: "distinct (map run_id (zone_runs u))" using wf sorted_wrt_less_distinct by (auto simp: wf_runs_def)
    have r: "r \<in> set (zone_runs u)" "run_zone r = k" using get_open_zone_run_open [OF Some] by auto
    have "filter (\<lambda>s. run_zone s = i \<and> end_utc s = None) (upd_rows (\<lambda>s. run_id s = run_id r) (run_write (R_finish a b c d e f)) rows)
        = filter (\<lambda>s. run_zone s = i \<and> end_utc s = None) rows"
      if "set rows \<subseteq> set (zone_runs u)" for rows a b c d e f
      using that
    proof (induction rows)
      case (Cons s rows)
      have s: "row_at run_id (zone_runs u) (run_id s) = Some s"
        using Cons.prems by (intro row_at_mem_unique [OF dist]) simp
      have "run_zone s = k" if "run_id s = run_id r"
        using s row_at_mem_unique [OF dist r(1)] r(2) unfolding that by simp
      with Cons k show ?case by auto
    qed simp
    then show ?thesis using Some by (simp add: finish_peer_run_def finish_zone_run_def open_runs_def)
  qed (simp add: finish_peer_run_def)
  assume p: "zid p \<noteq> i"
  have runs: "zone_runs (mark_stopping (zid p) w) = zone_runs w" by (simp add: mark_stopping_def frame_simps)
  have "zone_runs (snd (publish_mqtt_value a b c (mark_stopping (zid p) w))) = zone_runs w" for a b c
    using runs by (simp add: frame_simps)
  moreover have "run_seq (snd (publish_mqtt_value a b c (mark_stopping (zid p) w))) = run_seq w" for a b c
    by (simp add: mark_stopping_def frame_simps)
  ultimately have *: "wf_runs (snd (publish_mqtt_value a b c (mark_stopping (zid p) w)))" for a b c
    using that by (simp add: wf_runs_def)
  have uz: "open_runs (uzs a b c u) i = open_runs u i" for a b c and u :: "'a world_scheme"
    by (simp add: open_runs_def frame_simps)
  have "open_runs (snd (publish_mqtt_value a b c (mark_stopping (zid p) w))) i = open_runs w i" for a b c
    using runs by (simp add: open_runs_def frame_simps)
  moreover have "open_runs (mark_stopping (zid p) w) i = open_runs w i" using runs by (simp add: open_runs_def)
  ultimately show ?thesis
    by (simp add: stop_peer_def Let_def uz fin [OF p *] split: option.splits)
qed

lemma wf_runs_stop_peer: "wf_runs w \<Longrightarrow> wf_runs (stop_peer self now mn p w)"
proof -
  assume wf: "wf_runs w"
  have cong: "zone_runs d = zone_runs d' \<Longrightarrow> run_seq d = run_seq d' \<Longrightarrow> wf_runs d = wf_runs d'"
    for d d' :: "'a world_scheme" by (simp add: wf_runs_def)
  have ms: "wf_runs (mark_stopping (zid p) w) = wf_runs w" by (rule cong) (simp_all add: mark_stopping_def frame_simps)
  have pb: "wf_runs (snd (publish_mqtt_value a b c u)) = wf_runs u" for a b c and u :: "'a world_scheme"
    by (rule cong) (simp_all add: frame_simps)
  have uz: "wf_runs (uzs a b c u) = wf_runs u" for a b c and u :: "'a world_scheme"
    by (rule cong) (simp_all add: frame_simps)
  have fp: "wf_runs u \<Longrightarrow> wf_runs (finish_peer_run k now mn u)" for k and u :: "'a world_scheme"
    by (simp add: finish_peer_run_def wf_runs_finish split: option.splits)
  show ?thesis using wf by (simp add: stop_peer_def Let_def ms pb uz fp split: option.splits)
qed

lemma open_runs_fold_peers:
  "wf_runs w \<Longrightarrow> \<forall>p \<in> set ps. zid p \<noteq> i \<or> self = i \<Longrightarrow>
     open_runs (fold (stop_peer self now mn) ps w) i = open_runs w i"
proof (induction ps arbitrary: w)
  case (Cons p ps)
  have "open_runs (stop_peer self now mn p w) i = open_runs w i"
    using Cons.prems open_runs_stop_peer [OF Cons.prems(1), of p i] by (cases "zid p = i") (auto simp: stop_peer_def)
  then show ?case using Cons.prems by (simp add: Cons.IH wf_runs_stop_peer)
qed simp

text \<open>
  A start always opens a run, even when the zone is already running.  So starting a running
  zone again leaves it with one more open run than before, and since a stop finishes only the
  newest open run, the older one stays open.
\<close>

theorem restart_opens_second_run:
  assumes "get_zone w i = Some z" "real_group (zone_gid z)" "wf_runs w"
  shows "open_runs (snd (exclusive_start_zone i src now mn wall w)) i = open_runs w i + 1"
proof -
  let ?g = "zone_gid z"
  let ?w0 = "begin_start i z now w"
  let ?w2 = "switch_on z (open_master ?g (open_run i ?g src now mn wall ?w0))"
  have up: "db_up w" using assms(1) by (simp add: get_zone_def split: if_splits)
  have "db_up ?w0" using up by (simp add: begin_start_def frame_simps)
  then have "open_runs (open_run i ?g src now mn wall ?w0) i = open_runs w i + 1"
    using open_runs_open_run [OF _ assms(2), of ?w0] open_runs_cong [of ?w0 w] by simp
  then have two: "open_runs ?w2 i = open_runs w i + 1"
    using open_runs_cong [of ?w2 "open_run i ?g src now mn wall ?w0"] by simp
  have "wf_runs ?w0" using assms(3) by (simp add: wf_runs_def begin_start_def frame_simps)
  then have "wf_runs (open_run i ?g src now mn wall ?w0)"
    by (simp add: open_run_def wf_runs_create split: option.splits)
  moreover have "run_seq (switch_on z (open_master ?g u)) = run_seq u" for u :: "'a world_scheme"
    by (auto simp: switch_on_def open_master_def set_observed_def update_group_fields_def verify_async_def
        frame_simps Let_def split: option.splits)
  ultimately have "wf_runs ?w2" by (simp add: wf_runs_def)
  from open_runs_fold_peers [OF this, of "get_zones_by_group w ?g" i i now mn] two
  have "open_runs (fold (stop_peer i now mn) (get_zones_by_group w ?g) ?w2) i = open_runs w i + 1" by simp
  moreover have "open_runs (emit_event wall ''zone_start'' i u) i = open_runs u i" for u :: "'a world_scheme"
    by (simp add: emit_event_def open_runs_def)
  ultimately show ?thesis
    using assms(1,2) by (simp add: exclusive_start_zone_def Let_def real_group_def)
qed

theorem restart_opens_second_run_witness:
  "open_runs (snd (exclusive_start_zone 1 ''manual'' 200 0 0 running_world)) 1 = 2"
  using restart_opens_second_run [OF running_facts(1) _ running_facts(2), of "''manual''" 200 0 0]
  by (simp add: real_group_def open_runs_def running_world_def create_zone_run_def demo_world_def boot_world_def Let_def)

end
