(* ===== verification/Emergency_Laws.thy ===== *)
theory Emergency_Laws
  imports Zone_Stop_Laws
begin

text \<open>
  Master valves and the emergency stop: when a pending close may act, and what
  \<open>emergency_stop_all\<close> has achieved when it returns.
\<close>

subsection \<open>The emergency stop switches every zone off\<close>

lemma zstate_at_stop_group:
  "zstate_at (snd (stop_group_zones reason now mn wall g nw)) j =
    (if gid g \<noteq> 0 \<and> j \<in> group_members (snd nw) (gid g) then map_option (\<lambda>_. ''off'') (zstate_at (snd nw) j)
     else zstate_at (snd nw) j)"
  by (simp add: stop_group_zones_def zstate_at_forced_group group_members_eq)

lemma zgroups_stop_group [simp]: "zgroups (snd (stop_group_zones reason now mn wall g nw)) = zgroups (snd nw)"
  by (simp add: stop_group_zones_def)

lemma phase_a_states:
  "zstate_at (snd (fold (stop_group_zones reason now mn wall) gs nw)) j =
    (if \<exists>g \<in> set gs. gid g \<noteq> 0 \<and> j \<in> group_members (snd nw) (gid g)
     then map_option (\<lambda>_. ''off'') (zstate_at (snd nw) j) else zstate_at (snd nw) j)"
proof (induction gs arbitrary: nw)
  case (Cons g gs)
  have "group_members (snd (stop_group_zones reason now mn wall g nw)) = group_members (snd nw)"
    by (rule group_members_cong) simp
  then show ?case
    by (auto simp: Cons zstate_at_stop_group option.map_comp comp_def)
qed simp

lemma zgroups_phase_a [simp]: "zgroups (snd (fold (stop_group_zones reason now mn wall) gs nw)) = zgroups (snd nw)"
  by (induction gs arbitrary: nw) simp_all

lemma active_member:
  assumes "z \<in> set (get_zones_by_group w g)" "wf_zones w"
  shows "zstate_at w (zid z) = Some (zstate z)" "zid z \<in> group_members w g"
proof -
  have "z \<in> set (zones w)" "db_up w" using assms(1) by (auto simp: get_zones_by_group_def split: if_splits)
  then show "zstate_at w (zid z) = Some (zstate z)"
    using row_at_mem_unique [OF wf_zones_distinct [OF assms(2)]] by (simp add: zstate_at_def get_zone_def)
  show "zid z \<in> group_members w g" using assms(1) by (simp add: group_members_eq [symmetric])
qed

lemma wf_zones_cong: "zgroups d = zgroups d' \<Longrightarrow> wf_zones d = wf_zones d'"
proof -
  assume "zgroups d = zgroups d'"
  then have "map fst (fst (zgroups d)) = map fst (fst (zgroups d'))"
    by simp
  then show ?thesis by (simp add: wf_zones_def zgroups_def comp_def)
qed

text \<open>When the loop over the groups is done nothing is left for the retry phase.\<close>

lemma phase_a_no_stuck:
  assumes "wf_zones w"
  shows "stuck_zones gs (snd (emergency_phase_a reason now mn wall gs w)) = []"
proof -
  let ?w' = "snd (fold (stop_group_zones reason now mn wall) gs (0, w))"
  have wf: "wf_zones ?w'" using assms by (subst wf_zones_cong [of _ w]) simp_all
  have mem: "group_members ?w' = group_members w" by (rule group_members_cong) simp
  have "\<not> zone_active z" if "g \<in> set gs" "gid g \<noteq> 0" "z \<in> set (get_zones_by_group ?w' (gid g))" for g z
  proof -
    have "zstate_at ?w' (zid z) = Some (zstate z)" "zid z \<in> group_members w (gid g)"
      using active_member [OF that(3) wf] mem by auto
    moreover from this(2) that(1,2) have "zstate_at ?w' (zid z) = map_option (\<lambda>_. ''off'') (zstate_at w (zid z))"
      by (auto simp: phase_a_states)
    ultimately have "zstate z = ''off''" by (cases "zstate_at w (zid z)") simp_all
    then show ?thesis by (simp add: zone_active_def)
  qed
  then show ?thesis by (auto simp: stuck_zones_def emergency_phase_a_def filter_empty_conv)
qed

lemma zview_close_master [simp]: "zview (snd (close_group_master g st)) = zview (snd st)"
  by (simp add: close_group_master_def Let_def split: option.splits)

lemma zview_phase_c: "zview (snd (fold close_group_master gs st)) = zview (snd st)"
  by (induction gs arbitrary: st) simp_all

lemma zgroups_close_master [simp]: "zgroups (snd (close_group_master g st)) = zgroups (snd st)"
  by (simp add: close_group_master_def Let_def split: option.splits)

lemma zgroups_phase_c: "zgroups (snd (emergency_phase_c gs w)) = zgroups w"
proof -
  have "zgroups (snd (fold close_group_master gs st)) = zgroups (snd st)" for st :: "(string list \<times> stop_stats) \<times> 'a world_scheme"
    by (induction gs arbitrary: st) simp_all
  then show ?thesis by (simp add: emergency_phase_c_def Let_def)
qed

lemma zgroups_emergency [simp]: "zgroups (snd (emergency_stop_all reason now mn wall w)) = zgroups w"
  by (simp add: emergency_stop_all_def emergency_phase_a_def emergency_phase_b_def zgroups_phase_c Let_def)

lemma emergency_states:
  assumes "wf_zones w"
  shows "zstate_at (snd (emergency_stop_all reason now mn wall w)) j =
    (if \<exists>g \<in> set (get_groups w). gid g \<noteq> 0 \<and> j \<in> group_members w (gid g)
     then map_option (\<lambda>_. ''off'') (zstate_at w j) else zstate_at w j)"
  using phase_a_no_stuck [OF assms]
  by (auto simp: emergency_stop_all_def Let_def emergency_phase_b_def emergency_phase_c_def
      zstate_at_cong [OF zview_phase_c] emergency_phase_a_def phase_a_states)

subsection \<open>Every master valve gets its close command\<close>

definition master_fed :: "group \<Rightarrow> bool" where
  "master_fed g = (gid g \<noteq> 0 \<and> use_master_valve g = 1 \<and> master_topic g \<noteq> [] \<and> truthy_int (master_mqtt_server_id g))"

lemma timers_publish [simp]: "timers (snd (publish_mqtt_value s t v w)) = timers w"
  by (simp add: frame_simps)

lemma timers_set_observed [simp]: "timers (set_observed g s w) = timers w"
  by (simp add: set_observed_def update_group_fields_def Let_def)

lemma timers_close_master:
  "timers (snd (close_group_master g st)) t =
     (if master_fed g \<and> normalize_topic (master_topic g) = t then None else timers (snd st) t)"
  by (auto simp: close_group_master_def Let_def master_fed_def split: option.splits)

lemma timers_phase_c:
  "timers (snd (fold close_group_master gs st)) t =
     (if \<exists>g \<in> set gs. master_fed g \<and> normalize_topic (master_topic g) = t then None else timers (snd st) t)"
  by (induction gs arbitrary: st) (auto simp: timers_close_master)

lemma sent_publish_mem:
  "\<lparr>ms_server = s, ms_topic = normalize_topic t, ms_value = v\<rparr> \<in> set (sent (snd (publish_mqtt_value s t v w)))"
  "set (sent w) \<subseteq> set (sent (snd (publish_mqtt_value s t v w)))"
  by (auto simp: publish_mqtt_value_def send_def Let_def)

lemma sent_set_observed [simp]: "sent (set_observed g s w) = sent w"
  by (simp add: set_observed_def update_group_fields_def Let_def)

lemma server_cong: "zview d = zview d' \<Longrightarrow> get_mqtt_server d = get_mqtt_server d'"
  by (rule ext) (simp add: zview_def get_mqtt_server_def)

text \<open>Topics are remembered only for groups with a master valve, and nothing that was sent is taken back.\<close>

lemma close_master_seen: "set (fst (fst (close_group_master g st))) \<subseteq>
    set (fst (fst st)) \<union> (if master_fed g then {normalize_topic (master_topic g)} else {})"
  by (auto simp: close_group_master_def Let_def master_fed_def split: option.splits)

lemma phase_c_seen: "t \<in> set (fst (fst (fold close_group_master gs st))) \<Longrightarrow> t \<notin> set (fst (fst st)) \<Longrightarrow>
    \<exists>g \<in> set gs. master_fed g \<and> normalize_topic (master_topic g) = t"
proof (induction gs arbitrary: st)
  case (Cons g gs)
  then show ?case using close_master_seen [of g st] by (fastforce split: if_splits)
qed simp

definition grown :: "'a world_scheme \<Rightarrow> 'a world_scheme \<Rightarrow> bool" where
  "grown w w' = (\<exists>ms. sent w' = sent w @ ms)"

lemma grown_refl [simp]: "grown w w" "sent w' = sent w \<Longrightarrow> grown w w'"
  by (simp_all add: grown_def)

lemma grown_trans [trans]: "grown w w' \<Longrightarrow> grown w' w'' \<Longrightarrow> grown w w''"
  by (auto simp: grown_def)

lemma grown_publish: "grown w w' \<Longrightarrow> grown w (snd (publish_mqtt_value srv t v w'))"
  by (auto simp: grown_def publish_mqtt_value_def send_def Let_def)

lemma grown_close_master: "grown (snd st) (snd (close_group_master g st))"
  by (auto simp: close_group_master_def Let_def grown_publish [THEN grown_trans] intro!: grown_publish split: option.splits)
    (auto simp: grown_def publish_mqtt_value_def send_def Let_def)

lemma grown_phase_c: "grown (snd st) (snd (fold close_group_master gs st))"
proof (induction gs arbitrary: st)
  case (Cons g gs)
  show ?case using grown_trans [OF grown_close_master Cons] by simp
qed simp

text \<open>
  Which group closes a topic: the first one listed whose master valve is configured on it.
\<close>

definition closing_group :: "'a db_scheme \<Rightarrow> string \<Rightarrow> group option" where
  "closing_group d t = find (\<lambda>h. master_fed h \<and> normalize_topic (master_topic h) = t) (get_groups d)"

definition close_message :: "mqtt_server \<Rightarrow> group \<Rightarrow> mqtt_msg" where
  "close_message srv h = \<lparr>ms_server = server_id srv, ms_topic = normalize_topic (normalize_topic (master_topic h)),
     ms_value = (if upper (strip (str_or ''NC'' (master_mode h))) = ''NO'' then ''1'' else ''0'')\<rparr>"

lemma close_master_sends:
  assumes "master_fed h" "normalize_topic (master_topic h) \<notin> set (fst (fst st))"
    "get_mqtt_server (snd st) (int_or0 (master_mqtt_server_id h)) = Some srv"
  shows "\<exists>ms. sent (snd (close_group_master h st)) = sent (snd st) @ close_message srv h # ms"
proof -
  have "get_mqtt_server ((snd st)\<lparr>timers := f\<rparr>) = get_mqtt_server (snd st)" for f
    by (simp add: get_mqtt_server_def fun_eq_iff)
  then show ?thesis
    using assms by (auto simp: close_group_master_def Let_def master_fed_def publish_mqtt_value_def send_def
        close_message_def close_value_def mode_of_def)
qed

lemma phase_c_sends:
  assumes "find (\<lambda>h. master_fed h \<and> normalize_topic (master_topic h) = t) gs = Some h"
    "get_mqtt_server w (int_or0 (master_mqtt_server_id h)) = Some srv"
  shows "\<exists>ms ms'. sent (snd (fold close_group_master gs (([], s), w))) = sent w @ ms @ close_message srv h # ms'"
proof -
  obtain as bs where gs: "gs = as @ h # bs" and h: "master_fed h" "normalize_topic (master_topic h) = t"
    and as: "\<forall>x \<in> set as. \<not> (master_fed x \<and> normalize_topic (master_topic x) = t)"
  proof -
    from assms(1) obtain i where i: "i < length gs" "master_fed (gs ! i) \<and> normalize_topic (master_topic (gs ! i)) = t"
      "h = gs ! i" "\<forall>j<i. \<not> (master_fed (gs ! j) \<and> normalize_topic (master_topic (gs ! j)) = t)"
      by (auto simp: find_Some_iff)
    show thesis
    proof (rule that [of "take i gs" "drop (Suc i) gs"])
      show "gs = take i gs @ h # drop (Suc i) gs" using i by (simp add: id_take_nth_drop)
      show "\<forall>x \<in> set (take i gs). \<not> (master_fed x \<and> normalize_topic (master_topic x) = t)"
        using i by (auto simp: in_set_conv_nth)
    qed (use i in simp_all)
  qed
  define st where "st = fold close_group_master as (([], s), w)"
  have "get_mqtt_server (snd st) = get_mqtt_server w"
    using server_cong [OF zview_phase_c [of as "(([], s), w)"]] by (simp add: st_def)
  moreover have "t \<notin> set (fst (fst st))" using phase_c_seen [of t as "(([], s), w)"] as by (auto simp: st_def)
  ultimately obtain ms where ms: "sent (snd (close_group_master h st)) = sent (snd st) @ close_message srv h # ms"
    using close_master_sends [OF h(1), of st srv] h(2) assms(2) by auto
  moreover obtain ms1 where "sent (snd st) = sent w @ ms1"
    using grown_phase_c [of "(([], s), w)" as] by (auto simp: grown_def st_def)
  moreover obtain ms2 where "sent (snd (fold close_group_master bs (close_group_master h st))) =
      sent (snd (close_group_master h st)) @ ms2"
    using grown_phase_c [of "close_group_master h st" bs] by (auto simp: grown_def)
  ultimately have "sent (snd (fold close_group_master gs (([], s), w))) = sent w @ ms1 @ close_message srv h # (ms @ ms2)"
    by (simp add: gs st_def)
  then show ?thesis by blast
qed

subsection \<open>The emergency stop as a whole\<close>

lemma senv_full_stop [simp]: "senv (full_stop i z reason imm skip now mn wall w) = senv w"
  by (simp add: full_stop_def zview_senv [OF zview_effects(1)] zview_senv [OF zview_effects(2)]
      zview_senv [OF zview_switch_off])

lemma senv_stop_zone [simp]: "senv (snd (stop_zone i reason force imm skip now mn wall w)) = senv w"
proof (cases "get_zone w i")
  case None
  then show ?thesis by (simp add: stop_zone_def)
next
  case (Some z)
  then show ?thesis
    by (simp add: stop_zone_split stop_already_off_def Let_def zview_senv [OF zview_plan])
qed

lemma senv_fold_stop [simp]:
  "senv (fold (\<lambda>i w. snd (stop_zone i reason force imm skip now mn wall w)) is w) = senv w"
  by (induction "is" arbitrary: w) simp_all

lemma senv_phase_a [simp]: "senv (snd (fold (stop_group_zones reason now mn wall) gs nw)) = senv (snd nw)"
  by (induction gs arbitrary: nw) (simp_all add: stop_group_zones_def stop_all_fold)

lemma server_senv: "senv d = senv d' \<Longrightarrow> get_mqtt_server d = get_mqtt_server d'"
  by (simp add: senv_def get_mqtt_server_def fun_eq_iff)

lemma sent_stop_steps:
  fixes v :: "'a world_scheme"
  shows "sent (uzs i us r v) = sent v" "sent (plan_master_close g imm skip v) = sent v"
    "sent (water_stats i g since now mn wall v) = sent v"
proof -
  show "sent (uzs i us r v) = sent v" by (simp add: frame_simps)
  show "sent (plan_master_close g imm skip v) = sent v"
    by (auto simp: plan_master_close_def schedule_master_close_def Let_def split: option.splits)
  have "sent (update_zone i us u) = sent u" for i us and u :: "'a world_scheme"
    by (rule world_more_eq) (simp add: frame_simps)
  then show "sent (water_stats i g since now mn wall v) = sent v"
    by (auto simp: water_stats_def store_stats_def finish_open_run_def finish_zone_run_def Let_def split: option.splits)
qed

lemma grown_stop_zone: "grown w (snd (stop_zone i reason force imm skip now mn wall w))"
proof (cases "get_zone w i")
  case (Some z)
  have "grown w (full_stop i z reason imm skip now mn wall w)"
    by (auto simp: full_stop_def emit_event_def add_log_def sent_stop_steps switch_off_def verify_async_def grown_def
        publish_mqtt_value_def send_def Let_def split: option.splits)
  then show ?thesis
    using Some by (simp add: stop_zone_split stop_already_off_def sent_stop_steps)
qed (simp add: stop_zone_def)

lemma grown_fold: "(\<And>x v. grown v (f x v)) \<Longrightarrow> grown w (fold f xs w)"
proof (induction xs arbitrary: w)
  case (Cons x xs)
  then show ?case using grown_trans [OF Cons.prems(1) Cons.IH] by simp
qed simp

lemma grown_phase_a: "grown (snd nw) (snd (fold (stop_group_zones reason now mn wall) gs nw))"
proof (induction gs arbitrary: nw)
  case (Cons g gs)
  have "grown (snd nw) (snd (stop_group_zones reason now mn wall g nw))"
    by (simp add: stop_group_zones_def stop_all_in_group_def grown_fold grown_stop_zone)
  then show ?case using grown_trans [OF _ Cons] by simp
qed simp

lemma grown_phase_b: "grown w (snd (emergency_phase_b reason now mn wall gs w))"
  by (simp add: emergency_phase_b_def Let_def grown_fold grown_stop_zone)


text \<open>
  C3: the emergency stop stops.  When \<open>emergency_stop_all\<close> returns, every zone of every listed
  group is off, whatever state it was in and whether or not its relay could be reached, and
  the retry phase has found no zone still running.
\<close>

theorem emergency_stops_all_zones:
  assumes "wf_zones w" "g \<in> set (get_groups w)" "gid g \<noteq> 0" "z \<in> set (get_zones_by_group w (gid g))"
  shows "zstate_at (snd (emergency_stop_all reason now mn wall w)) (zid z) = Some ''off''
    \<and> zones_still_active_after_wait (fst (emergency_stop_all reason now mn wall w)) = 0"
proof
  show "zstate_at (snd (emergency_stop_all reason now mn wall w)) (zid z) = Some ''off''"
    using active_member [OF assms(4,1)] assms(2,3) by (auto simp: emergency_states [OF assms(1)])
  show "zones_still_active_after_wait (fst (emergency_stop_all reason now mn wall w)) = 0"
    using phase_a_no_stuck [OF assms(1)]
    by (simp add: emergency_stop_all_def Let_def emergency_phase_b_def)
qed

theorem emergency_stops_all_zones_witness:
  "zstate_at (snd (emergency_stop_all ''rain'' 100 0 0 demo_world)) 1 = Some ''off''"
  using emergency_stops_all_zones [of demo_world "demo_group 1" "demo_zone 1 ''on''" "''rain''" 100 0 0]
  by (simp add: demo_facts get_groups_def get_zones_by_group_def demo_group_def)

text \<open>
  C4: the emergency stop closes the water.  No configured master valve has a delayed close left
  pending; and for every master topic, if the server row of the first listed group configured on it
  exists, the emergency stop itself sends to that server, on that topic, the value that closes that
  group's valve: 1 when its mode is \<open>NO\<close>, 0 otherwise.
\<close>

theorem emergency_closes_masters:
  defines "after \<equiv> \<lambda>w reason now mn wall. snd (emergency_stop_all reason now mn wall w)"
  shows "(g \<in> set (get_groups w) \<and> master_fed g \<longrightarrow>
      timers (after w reason now mn wall) (normalize_topic (master_topic g)) = None) \<and>
    (closing_group w t = Some h \<and> get_mqtt_server w (int_or0 (master_mqtt_server_id h)) = Some srv \<longrightarrow>
      close_message srv h \<in> set (drop (length (sent w)) (sent (after w reason now mn wall))))"
proof (intro conjI impI)
  let ?gs = "get_groups w"
  define wa where "wa = snd (emergency_phase_a reason now mn wall ?gs w)"
  define wb where "wb = snd (emergency_phase_b reason now mn wall ?gs wa)"
  have res: "after w reason now mn wall = snd (fold close_group_master ?gs (([], no_stats), wb))"
    by (simp add: after_def emergency_stop_all_def Let_def emergency_phase_c_def wb_def wa_def)
  show "timers (after w reason now mn wall) (normalize_topic (master_topic g)) = None"
    if "g \<in> set ?gs \<and> master_fed g" using that by (auto simp: res timers_phase_c)
  assume h: "closing_group w t = Some h \<and> get_mqtt_server w (int_or0 (master_mqtt_server_id h)) = Some srv"
  have "senv wb = senv w"
    by (simp add: wb_def wa_def emergency_phase_b_def Let_def emergency_phase_a_def)
  then have "get_mqtt_server wb (int_or0 (master_mqtt_server_id h)) = Some srv"
    using h server_senv by metis
  then obtain ms ms' where c: "sent (snd (fold close_group_master ?gs (([], no_stats), wb))) = sent wb @ ms @ close_message srv h # ms'"
    using phase_c_sends h [unfolded closing_group_def] by blast
  have "grown w wb"
    using grown_trans [OF grown_phase_a [of "(0, w)" reason now mn wall ?gs] grown_phase_b]
    by (simp add: wb_def wa_def emergency_phase_a_def)
  then obtain ms0 where "sent wb = sent w @ ms0" by (auto simp: grown_def)
  then show "close_message srv h \<in> set (drop (length (sent w)) (sent (after w reason now mn wall)))"
    by (simp add: res c)
qed

theorem emergency_closes_masters_witness:
  "\<lparr>ms_server = 1, ms_topic = ''/m'', ms_value = ''0''\<rparr> \<in>
     set (drop (length (sent demo_world)) (sent (snd (emergency_stop_all ''rain'' 100 0 0 demo_world))))"
proof -
  have fed: "master_fed (demo_group 1)" "normalize_topic (master_topic (demo_group 1)) = ''/m''"
    by (simp_all add: master_fed_def demo_group_def master_topic_def strip_def is_ws_def normalize_topic_def
        ends_with_def Let_def)
  then have h: "closing_group demo_world ''/m'' = Some (demo_group 1)"
    by (simp add: closing_group_def get_groups_def demo_facts)
  have srv: "get_mqtt_server demo_world (int_or0 (master_mqtt_server_id (demo_group 1))) =
      Some \<lparr>server_id = 1, server_enabled = True\<rparr>"
    by (simp add: get_mqtt_server_def demo_facts demo_group_def int_or0_def)
  have "close_message \<lparr>server_id = 1, server_enabled = True\<rparr> (demo_group 1) =
      \<lparr>ms_server = 1, ms_topic = ''/m'', ms_value = ''0''\<rparr>"
    using fed(2) by (simp add: close_message_def demo_group_def str_or_def strip_def is_ws_def upper_def upper_char_def
        Let_def normalize_topic_def ends_with_def)
  then show ?thesis using emergency_closes_masters [of "demo_group 1" demo_world "''rain''" 100 0 0 "''/m''" "demo_group 1"
      "\<lparr>server_id = 1, server_enabled = True\<rparr>"] h srv by simp
qed

subsection \<open>Delayed closes of a master valve\<close>

text \<open>Some zone of the group is on or starting, and the group is on the topic.\<close>

definition feeds :: "int \<Rightarrow> string \<Rightarrow> 'a db_scheme \<Rightarrow> bool" where
  "feeds gg t d = ((\<exists>g \<in> set (get_groups d). gid g = gg \<and> master_topic g \<noteq> [] \<and> normalize_topic (master_topic g) = t) \<and>
     (\<exists>z \<in> set (get_zones_by_group d gg). lower (zstate z) \<in> {''on'', ''starting''}))"

lemma scan_groups_world: "\<exists>m \<ge> n. snd (scan_groups env t gs n w) = (m, fold env [n..<m] w)"
proof (induction gs arbitrary: n w)
  case (Cons g gs)
  have "\<exists>m \<ge> n. snd (scan_groups env t gs (Suc n) (env n w)) = (m, fold env [n..<m] w)"
  proof -
    obtain m where m: "m \<ge> Suc n" "snd (scan_groups env t gs (Suc n) (env n w)) = (m, fold env [Suc n..<m] (env n w))"
      using Cons.IH by blast
    then show ?thesis by (intro exI [of _ m]) (simp add: upt_conv_Cons)
  qed
  moreover have "\<exists>m \<ge> n. (Suc n, env n w) = (m, fold env [n..<m] w)" by (intro exI [of _ "Suc n"]) simp
  ultimately show ?case using Cons.IH [of n w] by (simp add: Let_def)
qed (auto intro: exI [of _ n])

lemma scan_groups_finds:
  assumes "g \<in> set gs" "master_topic g \<noteq> []" "normalize_topic (master_topic g) = t"
    and "\<And>n v. P v \<Longrightarrow> P (env n v)" "\<And>v. P v \<Longrightarrow> list_ex zone_active (get_zones_by_group v (gid g))" "P w"
  shows "fst (scan_groups env t gs n w)"
  using assms(1,6)
proof (induction gs arbitrary: n w)
  case (Cons h gs)
  then show ?case using assms(2-5) by (cases "h = g") (auto simp: Let_def)
qed simp

lemma fold_upto: "m \<le> n \<Longrightarrow> fold env [m..<n] (fold env [0..<m] w) = fold env [0..<n] w"
  by (metis comp_apply fold_append le_add_diff_inverse upt_add_eq_append zero_le)

lemma do_close_cases:
  shows "\<exists>n. do_close env t ct w = (Close_Skipped, fold env [0..<n] w) \<or>
      do_close env t ct w = (Close_No_Server, fold env [0..<n] w) \<or>
      (\<exists>srv. get_mqtt_server (fold env [0..<n] w) (ct_server ct) = Some srv \<and>
        do_close env t ct w = publish_close env t (ct_group ct) srv n (fold env [0..<n] w))"
proof -
  let ?w0 = "env 0 w"
  obtain m where m: "m \<ge> 1" "snd (scan_groups env t (get_groups ?w0) 1 ?w0) = (m, fold env [1..<m] ?w0)"
    using scan_groups_world [of 1 env t "get_groups ?w0" ?w0] by blast
  obtain b where s: "scan_groups env t (get_groups ?w0) 1 ?w0 = (b, m, fold env [0..<m] w)"
    using m by (cases "scan_groups env t (get_groups ?w0) 1 ?w0") (simp add: upt_conv_Cons)
  show ?thesis
  proof (cases b)
    case True
    then have "do_close env t ct w = (Close_Skipped, fold env [0..<m] w)" unfolding do_close_def Let_def s by simp
    then show ?thesis by blast
  next
    case False
    have "env m (fold env [0..<m] w) = fold env [0..<Suc m] w" by simp
    with False show ?thesis
      unfolding do_close_def Let_def s by (intro exI [of _ "Suc m"]) (auto split: option.splits)
  qed
qed

lemma publish_done: "fst (publish_mqtt_value srv t v w) \<Longrightarrow>
    broker w (length (sent w)) \<and> broker w (Suc (length (sent w)))"
  by (auto simp: publish_mqtt_value_def send_def Let_def split: if_splits)

lemma groups_publish [simp]: "groups (snd (publish_mqtt_value s t v w)) = groups w"
  by (simp add: frame_simps)

text \<open>
  C9: a delayed close is safe and honest, whatever other threads do while it runs.  As long as one
  group on the topic has a zone on or starting at every moment, from before the close looks until it
  is through, the close is skipped: it sends and writes nothing, the world is what the other threads
  made of it.  The close records \<open>closed\<close> only after the broker acknowledged both its messages; in
  every other outcome it writes no group.
\<close>

theorem fire_timer_safe:
  fixes env :: "nat \<Rightarrow> 'a world_scheme \<Rightarrow> 'a world_scheme"
  assumes "\<And>n v. P v \<Longrightarrow> P (env n v)" "\<And>v. P v \<Longrightarrow> feeds gg t v"
  shows "(P w \<longrightarrow> (\<exists>n. do_close env t ct w = (Close_Skipped, fold env [0..<n] w)))
    \<and> (fst (do_close env t ct w) = Close_Done \<longrightarrow> (\<exists>n. let v = fold env [0..<n] w
         in broker v (length (sent v)) \<and> broker v (Suc (length (sent v)))))
    \<and> (fst (do_close env t ct w) \<noteq> Close_Done \<longrightarrow> (\<exists>n. groups (snd (do_close env t ct w)) = groups (fold env [0..<n] w)))"
proof (intro conjI impI)
  assume "P w"
  then have p0: "P (env 0 w)" by (rule assms(1))
  then obtain g where g: "g \<in> set (get_groups (env 0 w))" "gid g = gg" "master_topic g \<noteq> []" "normalize_topic (master_topic g) = t"
    using assms(2) by (auto simp: feeds_def)
  have fed: "list_ex zone_active (get_zones_by_group v (gid g))" if "P v" for v
    using assms(2) [OF that] g(2) by (auto simp: feeds_def list_ex_iff zone_active_def)
  have "fst (scan_groups env t (get_groups (env 0 w)) 1 (env 0 w))"
    by (rule scan_groups_finds [of g _ t P env, OF g(1,3,4) assms(1) fed p0])
  then have "fst (do_close env t ct w) = Close_Skipped" by (simp add: do_close_def Let_def split_def)
  then show "\<exists>n. do_close env t ct w = (Close_Skipped, fold env [0..<n] w)"
    using do_close_cases [of env t ct w] by (auto simp: publish_close_def Let_def split: if_splits)
next
  assume d: "fst (do_close env t ct w) = Close_Done"
  then obtain n srv where n: "do_close env t ct w = publish_close env t (ct_group ct) srv n (fold env [0..<n] w)"
    using do_close_cases [of env t ct w] by auto
  let ?v = "fold env [0..<Suc n] w"
  have "fst (publish_mqtt_value (server_id srv) t (close_value (ct_group ct)) ?v)"
    using d n by (auto simp: publish_close_def Let_def split: if_splits)
  then show "\<exists>n. let v = fold env [0..<n] w in broker v (length (sent v)) \<and> broker v (Suc (length (sent v)))"
    using publish_done by (metis)
next
  assume d: "fst (do_close env t ct w) \<noteq> Close_Done"
  obtain n where "do_close env t ct w = (Close_Skipped, fold env [0..<n] w) \<or>
      do_close env t ct w = (Close_No_Server, fold env [0..<n] w) \<or>
      (\<exists>srv. do_close env t ct w = publish_close env t (ct_group ct) srv n (fold env [0..<n] w))"
    using do_close_cases [of env t ct w] by blast
  then consider "snd (do_close env t ct w) = fold env [0..<n] w"
    | srv where "do_close env t ct w = publish_close env t (ct_group ct) srv n (fold env [0..<n] w)" by auto
  then show "\<exists>n. groups (snd (do_close env t ct w)) = groups (fold env [0..<n] w)"
  proof cases
    case 2
    then have "groups (snd (do_close env t ct w)) = groups (fold env [0..<Suc n] w)"
      using d by (auto simp: publish_close_def Let_def split: if_splits)
    then show ?thesis by blast
  qed auto
qed

definition pending_close :: close_timer where
  "pending_close = \<lparr>ct_group = demo_group 1, ct_server = 1, ct_delay = 60, ct_armed = True\<rparr>"

lemma demo_feeds:
  assumes "zones v = zones demo_world" "groups v = groups demo_world" "db_up v"
  shows "feeds 1 ''/m'' v"
proof -
  have "master_topic (demo_group 1) \<noteq> []" "normalize_topic (master_topic (demo_group 1)) = ''/m''" "gid (demo_group 1) = 1"
    by (simp_all add: demo_group_def master_topic_def strip_def is_ws_def normalize_topic_def ends_with_def Let_def)
  moreover have "lower ''on'' = ''on''" by (simp add: lower_def lower_char_def)
  ultimately show ?thesis using assms by (simp add: feeds_def get_groups_def get_zones_by_group_def)
qed

theorem fire_timer_safe_witness:
  "fst (do_close (\<lambda>n. add_log ''zone_start'' [int n]) ''/m'' pending_close demo_world) = Close_Skipped"
proof -
  define P where "P = (\<lambda>v :: world. zones v = zones demo_world \<and> groups v = groups demo_world \<and> db_up v)"
  have keep: "P (add_log ''zone_start'' [int n] v)" if "P v" for n v using that by (simp add: P_def add_log_def)
  have fed: "feeds 1 ''/m'' v" if "P v" for v using that unfolding P_def by (intro demo_feeds) simp_all
  have "P demo_world" by (simp add: P_def)
  then show ?thesis
    using fire_timer_safe [of P "\<lambda>n. add_log ''zone_start'' [int n]" 1 "''/m''" demo_world pending_close] keep fed
    by fastforce
qed

text \<open>
  The close looks first and sends later.  A zone started in between runs with its master valve
  closed, and the group is recorded as closed.
\<close>

definition pending_world :: world where
  "pending_world = boot_world [demo_zone 1 ''off''] [demo_group 1] [\<lparr>server_id = 1, server_enabled = True\<rparr>]"

definition start_before :: "nat \<Rightarrow> nat \<Rightarrow> world \<Rightarrow> world" where
  "start_before k n w = (if n = k then snd (exclusive_start_zone 1 ''manual'' 100 0 0 w) else w)"

lemma start_in_between_is_closed:
  "(let r = do_close (start_before 3) ''/m'' pending_close pending_world
    in (fst r, zstate_at (snd r) 1, map_option master_valve_observed (row_at gid (groups (snd r)) 1),
        map_option (\<lambda>m. (ms_topic m, ms_value m)) (find (\<lambda>m. ms_topic m = ''/m'') (rev (sent (snd r)))))) =
   (Close_Done, Some ''on'', Some (Some ''closed''), Some (''/m'', ''0''))"
  by code_simp

lemma zgroups_mark_stopping [simp]: "zgroups (mark_stopping i w) = zgroups w"
  by (simp add: mark_stopping_def zgroups_uzs real_cols_def)

lemma zgroups_finish_peer [simp]: "zgroups (finish_peer_run i now mn w) = zgroups w"
  by (simp add: finish_peer_run_def split: option.splits)

lemma zgroups_stop_peer [simp]: "zgroups (stop_peer self now mn p w) = zgroups w"
  by (simp add: stop_peer_def Let_def zgroups_uzs real_cols_def split: option.splits)

lemma zgroups_fold_peers [simp]: "zgroups (fold (stop_peer self now mn) ps w) = zgroups w"
  by (induction ps arbitrary: w) simp_all

lemma zgroups_create_run [simp]: "zgroups (snd (create_zone_run i g st m raw l b src d)) = zgroups d"
  by (simp add: create_zone_run_def Let_def zgroups_def)

lemma zgroups_start_steps [simp]:
  "zgroups (begin_start i z now w) = zgroups w" "zgroups (open_run i g src now mn wall w) = zgroups w"
  "zgroups (open_master g w) = zgroups w" "zgroups (switch_on z w) = zgroups w"
  by (simp_all add: begin_start_def open_run_def open_master_def switch_on_def zgroups_uzs real_cols_def
      split: option.splits)

lemma zgroups_exclusive_start [simp]: "zgroups (snd (exclusive_start_zone i src now mn wall w)) = zgroups w"
  by (simp add: exclusive_start_zone_def Let_def split: option.splits)

lemma zgroups_group:
  assumes "zgroups d = zgroups d'" "g \<in> set (get_groups d)"
  obtains g' where "g' \<in> set (get_groups d')" "gid g' = gid g" "master_topic g' = master_topic g"
proof -
  let ?f = "\<lambda>g. g\<lparr>master_valve_observed := None\<rparr>"
  have up: "db_up d" "g \<in> set (groups d)" using assms(2) by (auto simp: get_groups_def split: if_splits)
  have eq: "map ?f (groups d) = map ?f (groups d')" "db_up d' = db_up d" using assms(1) by (simp_all add: zgroups_def)
  have "?f g \<in> set (map ?f (groups d'))" using up(2) by (simp flip: eq(1))
  then obtain g' where g': "g' \<in> set (groups d')" "?f g = ?f g'" by auto
  then have "gid (?f g) = gid (?f g')" "master_mqtt_topic (?f g) = master_mqtt_topic (?f g')" by simp_all
  then have "gid g' = gid g" "master_topic g' = master_topic g" by (simp_all add: master_topic_def)
  moreover have "g' \<in> set (get_groups d')" using g'(1) up(1) eq(2) by (simp add: get_groups_def)
  ultimately show ?thesis using that by blast
qed

lemma member_row:
  assumes "i \<in> group_members w g" "zstate_at w i = Some s" "wf_zones w"
  shows "\<exists>z \<in> set (get_zones_by_group w g). zstate z = s"
proof -
  obtain z where z: "z \<in> set (get_zones_by_group w g)" "zid z = i"
    using assms(1) by (auto simp: group_members_eq [symmetric])
  then have "zstate_at w i = Some (zstate z)" using active_member(1) [OF z(1) assms(3)] by simp
  then show ?thesis using z assms(2) by auto
qed

text \<open>
  A start withdraws a pending close.  After a reachable zone was started in a group with a
  master valve, the close timer left over from an earlier stop publishes nothing and records
  nothing when it expires and is not interrupted: the master stays open while its zone runs.
\<close>

theorem start_blocks_pending_close:
  assumes "get_zone w i = Some z" "wf_zones w" "mqtt_ready w z \<noteq> None"
    "g \<in> set (get_groups w)" "group_id z = Some (gid g)" "master_topic g \<noteq> []"
  shows "let w' = snd (exclusive_start_zone i src now mn wall w)
    in do_close (\<lambda>_ v. v) (normalize_topic (master_topic g)) ct w' = (Close_Skipped, w')"
proof -
  define w' where "w' = snd (exclusive_start_zone i src now mn wall w)"
  define t where "t = normalize_topic (master_topic g)"
  have zg: "zgroups w' = zgroups w" by (simp add: w'_def)
  have id: "zid z = i" using assms(1) by (rule get_zone_id)
  have up: "db_up w" "z \<in> set (zones w)"
    using assms(1) by (auto simp: get_zone_def dest: row_at_mem split: if_splits)
  have "i \<in> group_members w (gid g)"
    using up id assms(5) by (auto simp: group_members_eq [symmetric] get_zones_by_group_def)
  then have mem: "i \<in> group_members w' (gid g)" using group_members_cong [OF zg] by simp
  have st: "zstate_at w' i = Some ''on''"
    using exclusive_start_states_lemma [OF assms(1,2), of src now mn wall i] id assms(3)
    by (simp add: w'_def started_state_def)
  have "wf_zones w'" using assms(2) wf_zones_cong [OF zg] by simp
  then obtain z' where z': "z' \<in> set (get_zones_by_group w' (gid g))" "zstate z' = ''on''"
    using member_row [OF mem st] by blast
  obtain g' where g': "g' \<in> set (get_groups w')" "gid g' = gid g" "master_topic g' = master_topic g"
    using zgroups_group [OF zg [symmetric] assms(4)] by blast
  have "list_ex zone_active (get_zones_by_group w' (gid g'))"
    using z' g'(2) by (auto simp: list_ex_iff zone_active_def lower_def lower_char_def intro!: bexI [of _ z'])
  then have "fst (scan_groups (\<lambda>_ v. v) t (get_groups w') 1 w')"
    using g' assms(6) by (intro scan_groups_finds [where P = "\<lambda>v. v = w'" and g = g']) (simp_all add: t_def)
  then have "fst (do_close (\<lambda>_ v. v) t ct w') = Close_Skipped" by (simp add: do_close_def Let_def split_def)
  moreover have "fold (\<lambda>_ v. v) xs w' = w'" for xs :: "nat list" by (induction xs) simp_all
  ultimately have "do_close (\<lambda>_ v. v) t ct w' = (Close_Skipped, w')"
    using do_close_cases [of "\<lambda>_ v. v" t ct w'] by (auto simp: publish_close_def Let_def split: if_splits)
  then show ?thesis by (simp add: Let_def flip: w'_def t_def)
qed

theorem start_blocks_pending_close_witness:
  "let w' = snd (exclusive_start_zone 2 ''manual'' 100 0 0 demo_world)
   in sent (snd (do_close (\<lambda>_ v. v) (normalize_topic (master_topic (demo_group 1))) pending_close w')) = sent w'"
  using start_blocks_pending_close [OF demo_facts(3,1), of "demo_group 1" "''manual''" 100 0 0 pending_close]
  by (simp add: demo_facts get_groups_def demo_group_def Let_def master_topic_def strip_def is_ws_def)

text \<open>
  And a stop arms it.  Stopping a running, reachable zone of a group with a master valve
  leaves a close pending on the valve's topic, with the group's delay (at least a second) or
  none when the close is to be immediate.
\<close>

theorem stop_arms_master_close:
  assumes "get_zone w i = Some z" "stop_acts z force" "mqtt_ready w z \<noteq> None" "real_group (zone_gid z)"
    "row_at gid (get_groups w) (zone_gid z) = Some g" "master_fed g"
  shows "\<exists>ct. timers (snd (stop_zone i reason force imm False now mn wall w)) (normalize_topic (master_topic g)) = Some ct
    \<and> ct_armed ct \<and> ct_group ct = g
    \<and> ct_delay ct = (if imm then 0 else max 1 (case master_close_delay_sec g of Some d \<Rightarrow> d | None \<Rightarrow> 60))"
proof -
  let ?w1 = "uzs i [U_state ''stopping'', U_commanded (Some ''off'')] (''stop_'' @ reason) w"
  have tm: "timers (water_stats i g' since now mn wall u) = timers u" for g' since and u :: "'a world_scheme"
  proof -
    have "timers (update_zone i us v) = timers v" for us and v :: "'a world_scheme"
      by (rule world_more_eq) (simp add: frame_simps)
    then show ?thesis
      by (auto simp: water_stats_def store_stats_def finish_open_run_def finish_zone_run_def Let_def split: option.splits)
  qed
  have "mqtt_ready ?w1 z = mqtt_ready w z" by (rule senv_mqtt_ready) simp
  then obtain srv where srv: "mqtt_ready ?w1 z = Some srv" using assms(3) by auto
  have "get_groups (verify_async (zid z) ''off'' (snd (publish_mqtt_value s t v ?w1))) = get_groups w" for s t v
    by (simp add: get_groups_def verify_async_def frame_simps)
  then show ?thesis
    using assms srv
    by (simp add: stop_zone_split full_stop_def emit_event_def add_log_def tm frame_simps switch_off_def
        plan_master_close_def schedule_master_close_def Let_def master_fed_def master_close_delay_def)
qed

theorem stop_arms_master_close_witness:
  "\<exists>ct. timers (snd (stop_zone 1 ''manual'' False False False 100 0 0 demo_world))
      (normalize_topic (master_topic (demo_group 1))) = Some ct \<and> ct_armed ct \<and> ct_delay ct = 60"
  using stop_arms_master_close [OF demo_facts(2), of False "demo_group 1" "''manual''" False 100 0 0]
  by (simp add: demo_facts stop_acts_def real_group_def get_groups_def demo_group_def master_fed_def
      master_topic_def strip_def is_ws_def) blast

end
