(* ===== verification/Observed_State.thy ===== *)
theory Observed_State
  imports Emergency_Laws
begin

text \<open>
  The relay verifier, \<open>src/services/observed_state.py\<close>: after a command it listens on the
  zone's topic for the relay's echo, repeats the command when none comes, and puts the zone
  in \<open>fault\<close> when the last attempt fails.  A verification runs on its own thread, so it is
  a little state machine here: \<open>verify_begin\<close> makes the checks and takes the snapshot of the
  zone's row, \<open>verify_step\<close> is one attempt, and other operations may run between attempts.
  What the temporary MQTT client hears during attempt \<open>n\<close> is the parameter \<open>heard n\<close>, the
  payloads that arrived before the timeout (none when the connection failed).
\<close>

definition observed_state_max_retries :: nat where "observed_state_max_retries = 3"

definition says_on :: "string \<Rightarrow> bool" where
  "says_on e = (lower e \<in> {''on'', ''1''})"

definition expected_payloads :: "string \<Rightarrow> string list" where
  "expected_payloads expected =
     (if strip (lower expected) \<in> {''on'', ''1''}
      then [''1'', ''on'', ''ON'', ''true'', ''True'', ''TRUE'']
      else [''0'', ''off'', ''OFF'', ''false'', ''False'', ''FALSE''])"

text \<open>\<open>on_message\<close>: a payload counts after stripping.\<close>

definition subscribe_and_wait :: "string list \<Rightarrow> string list \<Rightarrow> bool" where
  "subscribe_and_wait payloads heard = list_ex (\<lambda>p. strip p \<in> set payloads) heard"

subsection \<open>Faults\<close>

definition fault_fields :: "zone \<Rightarrow> time \<Rightarrow> zone_upd list" where
  "fault_fields z now =
     [U_state ''fault'', U_faults (fault_count z + 1), U_last_fault (Some now),
      U_observed (Some ''unconfirmed'')]"

text \<open>The alert carries no id, so all alerts have one deduplication key.\<close>

definition fault_event :: event where
  "fault_event = \<lparr>ev_type = ''critical_error'', ev_id = PNone, ev_event_id = PNone, ev_ts = PNone\<rparr>"

definition record_fault :: "int \<Rightarrow> zone \<Rightarrow> time \<Rightarrow> rat \<Rightarrow> 'a world_scheme \<Rightarrow> 'a world_scheme" where
  "record_fault i z now wall w =
     (let w1 = uzs i (fault_fields z now) ''fault_detected'' w
      in w1\<lparr>bus := publish_event wall fault_event (bus w1)\<rparr>)"

subsection \<open>Verification\<close>

record verifier =
  vf_zone :: int
  vf_row :: zone
  vf_server :: int
  vf_topic :: string
  vf_expected :: string
  vf_attempt :: nat
  vf_retries :: nat

datatype verify_status = Done bool | Waiting verifier

definition verify_begin :: "int \<Rightarrow> string \<Rightarrow> nat \<Rightarrow> 'a db_scheme \<Rightarrow> verify_status" where
  "verify_begin i expected retries d =
     (case get_zone d i of
        None \<Rightarrow> Done False
      | Some z \<Rightarrow>
          (if strip (topic z) = [] \<or> \<not> truthy_int (mqtt_server_id z) then Done True
           else case get_mqtt_server d (int_or0 (mqtt_server_id z)) of
                  None \<Rightarrow> Done False
                | Some srv \<Rightarrow>
                    (let t = normalize_topic (strip (topic z)) in
                     if t = [] then Done True
                     else Waiting \<lparr>vf_zone = i, vf_row = z, vf_server = server_id srv, vf_topic = t,
                            vf_expected = expected, vf_attempt = 1, vf_retries = retries\<rparr>)))"

definition retry_publish :: "verifier \<Rightarrow> 'a world_scheme \<Rightarrow> 'a world_scheme" where
  "retry_publish v w =
     snd (publish_mqtt_value (vf_server v) (vf_topic v) (if says_on (vf_expected v) then ''1'' else ''0'') w)"

text \<open>One attempt: confirmed, tried again, or given up.\<close>

definition verify_step ::
  "string list \<Rightarrow> time \<Rightarrow> rat \<Rightarrow> verifier \<Rightarrow> 'a world_scheme \<Rightarrow> verify_status \<times> 'a world_scheme" where
  "verify_step heard now wall v w =
     (if vf_retries v < vf_attempt v
      then (Done False, record_fault (vf_zone v) (vf_row v) now wall w)
      else if subscribe_and_wait (expected_payloads (vf_expected v)) heard
      then (Done True, if says_on (vf_expected v) then snd (mark_zone_run_confirmed (vf_zone v) w) else w)
      else
        (let w1 = (if vf_attempt v < vf_retries v then retry_publish v w else w)
         in (Waiting (v\<lparr>vf_attempt := vf_attempt v + 1\<rparr>), w1)))"

text \<open>The whole call when nothing else runs: each attempt, then the verdict.\<close>

function verify_run ::
  "(nat \<Rightarrow> string list) \<Rightarrow> time \<Rightarrow> rat \<Rightarrow> verifier \<Rightarrow> 'a world_scheme \<Rightarrow> bool \<times> 'a world_scheme" where
  "verify_run heard now wall v w =
     (case verify_step (heard (vf_attempt v)) now wall v w of
        (Done b, w1) \<Rightarrow> (b, w1)
      | (Waiting v', w1) \<Rightarrow> verify_run heard now wall v' w1)"
  by pat_completeness auto

termination
  by (relation "measure (\<lambda>(heard, now, wall, v, w). vf_retries v + 1 - vf_attempt v)")
    (auto simp: verify_step_def Let_def split: if_splits)

declare verify_run.simps [simp del]

definition verify ::
  "int \<Rightarrow> string \<Rightarrow> (nat \<Rightarrow> string list) \<Rightarrow> time \<Rightarrow> rat \<Rightarrow> 'a world_scheme \<Rightarrow> bool \<times> 'a world_scheme" where
  "verify i expected heard now wall w =
     (case verify_begin i expected observed_state_max_retries w of
        Done b \<Rightarrow> (b, w)
      | Waiting v \<Rightarrow> verify_run heard now wall v w)"

subsection \<open>What a verification does\<close>

lemma real_cols_fault: "real_cols (fault_fields z now)"
  by (simp add: real_cols_def fault_fields_def)

lemma get_zone_record_fault:
  "get_zone (record_fault i z now wall w) j =
    (if j = i then map_option (versioned_write (fault_fields z now)) (get_zone w j) else get_zone w j)"
proof -
  have "get_zone (u\<lparr>bus := b\<rparr>) = get_zone u" for u :: "'a world_scheme" and b by (rule get_zone_cong) simp_all
  then show ?thesis by (simp add: record_fault_def Let_def get_zone_uzs real_cols_fault)
qed

lemma get_zone_retry [simp]: "get_zone (retry_publish v w) = get_zone w"
  by (simp add: retry_publish_def get_zone_publish)

lemma get_zone_confirm [simp]: "get_zone (snd (mark_zone_run_confirmed i w)) = get_zone w"
  by (rule zview_get_zone) simp

text \<open>Some attempt from the current one on hears the relay.\<close>

definition heard_by :: "verifier \<Rightarrow> (nat \<Rightarrow> string list) \<Rightarrow> bool" where
  "heard_by v heard = (\<exists>n. vf_attempt v \<le> n \<and> n \<le> vf_retries v
     \<and> subscribe_and_wait (expected_payloads (vf_expected v)) (heard n))"

lemma verify_run_outcome:
  "fst (verify_run heard now wall v w) = heard_by v heard \<and>
   get_zone (snd (verify_run heard now wall v w)) j =
     (if heard_by v heard \<or> j \<noteq> vf_zone v then get_zone w j
      else map_option (versioned_write (fault_fields (vf_row v) now)) (get_zone w j))"
proof (induction heard now wall v w rule: verify_run.induct)
  case (1 heard now wall v w)
  consider (out) "vf_retries v < vf_attempt v"
    | (ok) "vf_attempt v \<le> vf_retries v" "subscribe_and_wait (expected_payloads (vf_expected v)) (heard (vf_attempt v))"
    | (again) "vf_attempt v \<le> vf_retries v" "\<not> subscribe_and_wait (expected_payloads (vf_expected v)) (heard (vf_attempt v))"
    by linarith
  then show ?case
  proof cases
    case out
    then have "\<not> heard_by v heard" by (auto simp: heard_by_def)
    then show ?thesis
      using out by (subst (1 2) verify_run.simps) (auto simp: verify_step_def get_zone_record_fault)
  next
    case ok
    then have "heard_by v heard" by (auto simp: heard_by_def)
    then show ?thesis
      using ok by (subst (1 2) verify_run.simps) (auto simp: verify_step_def)
  next
    case again
    let ?v = "v\<lparr>vf_attempt := vf_attempt v + 1\<rparr>"
    let ?w = "if vf_attempt v < vf_retries v then retry_publish v w else w"
    have step: "verify_step (heard (vf_attempt v)) now wall v w = (Waiting ?v, ?w)"
      using again by (simp add: verify_step_def Let_def)
    have "heard_by ?v heard = heard_by v heard"
      using again by (simp add: heard_by_def) (metis Suc_leD Suc_leI le_neq_implies_less)
    moreover have "get_zone ?w = get_zone w" by simp
    ultimately show ?thesis
      using "1.IH" [OF step [symmetric] refl]
      by (subst (1 2) verify_run.simps) (simp add: step)
  qed
qed

definition confirmed_within :: "string \<Rightarrow> (nat \<Rightarrow> string list) \<Rightarrow> bool" where
  "confirmed_within expected heard =
     (\<exists>n \<in> {1..observed_state_max_retries}. subscribe_and_wait (expected_payloads expected) (heard n))"

text \<open>
  The verdict is right and a failure is recorded.  For a zone with a topic and a server the
  verification succeeds exactly when one of the three attempts hears a matching payload; then
  no zone row changes.  Otherwise exactly that zone is put in \<open>fault\<close>, its fault counter goes up
  by one from the value at the start, and no other zone row changes.
\<close>

theorem verify_verdict:
  assumes "get_zone w i = Some z" "mqtt_ready w z \<noteq> None" "normalize_topic (strip (topic z)) \<noteq> []"
  shows "fst (verify i expected heard now wall w) = confirmed_within expected heard
    \<and> get_zone (snd (verify i expected heard now wall w)) i =
        Some (if confirmed_within expected heard then z else versioned_write (fault_fields z now) z)
    \<and> (j \<noteq> i \<longrightarrow> get_zone (snd (verify i expected heard now wall w)) j = get_zone w j)"
proof -
  obtain srv where srv: "get_mqtt_server w (int_or0 (mqtt_server_id z)) = Some srv"
      "strip (topic z) \<noteq> []" "truthy_int (mqtt_server_id z)"
    using assms(2) by (auto simp: mqtt_ready_def split: if_splits)
  let ?v = "\<lparr>vf_zone = i, vf_row = z, vf_server = server_id srv, vf_topic = normalize_topic (strip (topic z)),
     vf_expected = expected, vf_attempt = 1, vf_retries = observed_state_max_retries\<rparr>"
  have run: "verify i expected heard now wall w = verify_run heard now wall ?v w"
    using assms srv by (simp add: verify_def verify_begin_def Let_def)
  have "heard_by ?v heard = confirmed_within expected heard"
    by (auto simp: heard_by_def confirmed_within_def)
  then show ?thesis
    using verify_run_outcome [of heard now wall ?v w] assms(1) unfolding run by simp
qed

lemma demo_ready: "mqtt_ready demo_world (demo_zone i s) \<noteq> None" "normalize_topic (strip (topic (demo_zone i s))) = ''/z''"
  by (simp_all add: demo_facts strip_def is_ws_def normalize_topic_def ends_with_def Let_def)

lemma demo_topic: "strip ''/z'' = ''/z''" "normalize_topic ''/z'' = ''/z''"
  by (simp_all add: strip_def is_ws_def normalize_topic_def ends_with_def Let_def)

theorem verify_verdict_witness:
  "\<not> fst (verify 1 ''on'' (\<lambda>_. [''0'']) 100 0 demo_world)
   \<and> map_option zstate (get_zone (snd (verify 1 ''on'' (\<lambda>_. [''0'']) 100 0 demo_world)) 1) = Some ''fault''"
proof -
  have no: "\<not> confirmed_within ''on'' (\<lambda>_. [''0''])"
    by (simp add: confirmed_within_def subscribe_and_wait_def expected_payloads_def strip_def is_ws_def)
  show ?thesis
    using verify_verdict [OF demo_facts(2) demo_ready(1), of "''on''" "\<lambda>_. [''0'']" 100 0 2] no
    by (simp add: demo_topic versioned_write_def fault_fields_def)
qed

text \<open>
  A verification that is still waiting re-opens a valve that was stopped meanwhile.  If the
  zone is stopped between two attempts of the verification of its start, the next attempt
  publishes "on" to the zone's relay after the stop's "off", while the database says \<open>off\<close>.
\<close>

theorem stale_verifier_reopens:
  assumes "get_zone w i = Some z" "stop_acts z force"
    and v: "says_on (vf_expected v)" "vf_attempt v < vf_retries v"
    and silent: "\<not> subscribe_and_wait (expected_payloads (vf_expected v)) heard"
  shows "let w1 = snd (stop_zone i reason force imm skip now mn wall w);
             w2 = snd (verify_step heard now' wall' v w1)
         in zstate_at w2 i = Some ''off''
            \<and> (\<exists>ms. sent w2 = sent w1 @ \<lparr>ms_server = vf_server v, ms_topic = normalize_topic (vf_topic v), ms_value = ''1''\<rparr> # ms)"
proof -
  define w1 where "w1 = snd (stop_zone i reason force imm skip now mn wall w)"
  have st: "zstate_at w1 i = Some ''off''" using assms(1,2) by (simp add: w1_def zstate_at_stop_zone)
  have step: "snd (verify_step heard now' wall' v w1) = retry_publish v w1"
    using v silent by (simp add: verify_step_def Let_def)
  have "zstate_at (retry_publish v w1) = zstate_at w1" by (rule ext) (simp add: zstate_at_def)
  moreover have "\<exists>ms. sent (retry_publish v w1)
      = sent w1 @ \<lparr>ms_server = vf_server v, ms_topic = normalize_topic (vf_topic v), ms_value = ''1''\<rparr> # ms"
    using v by (simp add: retry_publish_def publish_mqtt_value_def send_def Let_def)
  ultimately show ?thesis using st by (simp add: Let_def step flip: w1_def)
qed

theorem stale_verifier_reopens_witness:
  "let v = (case verify_begin 1 ''on'' 3 demo_world of Waiting v \<Rightarrow> v);
       w1 = snd (stop_zone 1 ''manual'' False False False 100 0 0 demo_world);
       w2 = snd (verify_step [] 110 0 v w1)
   in zstate_at w2 1 = Some ''off'' \<and> (\<exists>ms m. sent w2 = sent w1 @ m # ms \<and> ms_topic m = ''/z'' \<and> ms_value m = ''1'')"
proof -
  let ?v = "\<lparr>vf_zone = 1, vf_row = demo_zone 1 ''on'', vf_server = 1, vf_topic = ''/z'',
     vf_expected = ''on'', vf_attempt = 1, vf_retries = 3\<rparr>"
  have v: "verify_begin 1 ''on'' 3 demo_world = Waiting ?v"
    by (simp add: verify_begin_def demo_facts get_mqtt_server_def demo_topic Let_def)
  have acts: "stop_acts (demo_zone 1 ''on'') False" by (simp add: stop_acts_def)
  have a: "says_on (vf_expected ?v)" "vf_attempt ?v < vf_retries ?v"
      "\<not> subscribe_and_wait (expected_payloads (vf_expected ?v)) []"
    by (simp_all add: says_on_def subscribe_and_wait_def)
  note res = stale_verifier_reopens [OF demo_facts(2) acts a, of "''manual''" False False 100 0 0 110 0]
  show ?thesis
    unfolding v verify_status.case Let_def using res unfolding Let_def by (auto simp: demo_topic)
qed

text \<open>
  Only the first fault is announced.  All fault alerts share one deduplication key, so once
  a fault of any zone was announced, a fault of any other zone reaches no subscriber.
\<close>

theorem second_fault_not_announced:
  assumes "length (dedup (bus w)) < dedup_set_max_size"
  shows "let w1 = record_fault i z now wall w; w2 = record_fault j y now' wall' w1
    in delivered (bus w2) = delivered (bus w1)"
proof -
  have b: "bus (record_fault k x n t u) = publish_event t fault_event (bus u)" for k x n t and u :: "'a world_scheme"
    by (simp add: record_fault_def Let_def frame_simps)
  have len: "length (dedup (bus w)) \<le> dedup_set_max_size" using assms by simp
  have "event_key fault_event \<in> set (dedup (publish_event wall fault_event (bus w)))"
    using publish_fresh(2) [OF len] publish_seen [OF len] by (metis (full_types))
  moreover have "length (dedup (publish_event wall fault_event (bus w))) \<le> dedup_set_max_size"
    using publish_keeps_key(2) [OF len, of wall fault_event] assms by simp
  ultimately show ?thesis by (simp add: Let_def b publish_seen)
qed

theorem second_fault_not_announced_witness:
  "let w1 = record_fault 1 (demo_zone 1 ''on'') 100 0 demo_world; w2 = record_fault 2 (demo_zone 2 ''on'') 90000 89900 w1
   in delivered (bus w2) = delivered (bus w1)"
  using second_fault_not_announced [of demo_world 1 "demo_zone 1 ''on''" 100 0 2 "demo_zone 2 ''on''" 90000 89900]
  by (simp add: demo_world_def boot_world_def dedup_set_max_size_def)

text \<open>
  A fault does not block the zone.  Starting a reachable zone that is in \<open>fault\<close> succeeds
  and leaves it on, whatever its fault counter says.
\<close>

theorem fault_zone_can_start:
  assumes "get_zone w i = Some z" "wf_zones w" "zstate z = ''fault''" "mqtt_ready w z \<noteq> None"
  shows "fst (exclusive_start_zone i src now mn wall w)
    \<and> zstate_at (snd (exclusive_start_zone i src now mn wall w)) i = Some ''on''"
  using exclusive_start_states_lemma [OF assms(1,2), of src now mn wall i] assms(4) get_zone_id [OF assms(1)]
  by (simp add: started_state_def)

theorem fault_zone_can_start_witness:
  "zstate_at (snd (exclusive_start_zone 1 ''manual'' 100 0 0
     (demo_world\<lparr>zones := [demo_zone 1 ''fault'']\<rparr>))) 1 = Some ''on''"
proof -
  let ?w = "demo_world\<lparr>zones := [demo_zone 1 ''fault'']\<rparr>"
  have z: "get_zone ?w 1 = Some (demo_zone 1 ''fault'')" "wf_zones ?w"
    by (simp_all add: get_zone_def wf_zones_def)
  have "mqtt_ready ?w (demo_zone 1 ''fault'') = mqtt_ready demo_world (demo_zone 1 ''fault'')"
    by (rule senv_mqtt_ready) (simp add: senv_def)
  then show ?thesis
    using fault_zone_can_start [OF z, of "''manual''" 100 0 0] demo_ready(1) by simp
qed

end
