(* ===== verification/Mqtt_Delivery.thy ===== *)
theory Mqtt_Delivery
  imports Observed_State
begin

text \<open>
  How a message is delivered, \<open>src/services/mqtt_pub.py\<close>: the client cache with its eviction of
  dead clients, the retry loops of \<open>_publish_with_retries\<close>, the rebuild-and-retry of
  \<open>_publish_one\<close> and \<open>publish_mqtt_value\<close> with its duplicate suppression and its second message
  to the \<open>/on\<close> topic.  paho and the broker are outside the repository: \<open>outcome\<close> says what the
  n-th \<open>client.publish\<close> call does, \<open>dial\<close> whether the n-th \<open>connect\<close> succeeds and \<open>link\<close> what
  the n-th \<open>is_connected\<close> answers.  TLS, credentials and the server-row cache only configure the
  client and are not modelled.
\<close>

datatype pub_out =
    Raised
  | Queued (q_rc: int) (q_published: bool)

record mqtt_state =
  wire :: "(int \<times> string \<times> string) list"
  outcome :: "nat \<Rightarrow> pub_out"
  clients :: "int \<Rightarrow> bool"
  dials :: nat
  dial :: "nat \<Rightarrow> bool"
  checks :: nat
  link :: "nat \<Rightarrow> bool"
  last_send :: "int \<Rightarrow> string \<Rightarrow> (string \<times> rat) option"

subsection \<open>Clients\<close>

definition get_client :: "int \<Rightarrow> mqtt_state \<Rightarrow> bool \<times> mqtt_state" where
  "get_client sid s =
     (let s1 = (if clients s sid
                then s\<lparr>checks := checks s + 1,
                       clients := (if link s (checks s) then clients s else (clients s)(sid := False))\<rparr>
                else s)
      in if clients s1 sid then (True, s1)
         else if dial s1 (dials s1)
         then (True, s1\<lparr>dials := dials s1 + 1, clients := (clients s1)(sid := True)\<rparr>)
         else (False, s1\<lparr>dials := dials s1 + 1\<rparr>))"

definition invalidate_client :: "int \<Rightarrow> mqtt_state \<Rightarrow> mqtt_state" where
  "invalidate_client sid s = s\<lparr>clients := (clients s)(sid := False)\<rparr>"

subsection \<open>One topic\<close>

definition client_publish :: "int \<Rightarrow> string \<Rightarrow> string \<Rightarrow> mqtt_state \<Rightarrow> pub_out \<times> mqtt_state" where
  "client_publish sid t v s = (outcome s (length (wire s)), s\<lparr>wire := wire s @ [(sid, t, v)]\<rparr>)"

text \<open>
  The first loop: up to ten calls until one is accepted (rc 0).  \<open>None\<close> is the exception that
  ends the whole function.
\<close>

fun queue_loop :: "nat \<Rightarrow> int \<Rightarrow> string \<Rightarrow> string \<Rightarrow> mqtt_state \<Rightarrow> (int \<times> bool) option \<times> mqtt_state" where
  "queue_loop 0 sid t v s = (None, s)"
| "queue_loop (Suc n) sid t v s =
     (case client_publish sid t v s of
        (Raised, s1) \<Rightarrow> (None, s1)
      | (Queued rc ok, s1) \<Rightarrow>
          (if rc = 0 then (Some (0, ok), s1)
           else if n = 0 then (Some (rc, ok), s1)
           else queue_loop n sid t v s1))"

text \<open>
  The second loop: wait for the message, and publish it again after each failed wait, the last
  one included.  A republish that raises leaves the result being waited for as it was.
\<close>

fun ack_loop :: "nat \<Rightarrow> int \<Rightarrow> string \<Rightarrow> string \<Rightarrow> bool \<Rightarrow> mqtt_state \<Rightarrow> bool \<times> mqtt_state" where
  "ack_loop 0 sid t v published s = (False, s)"
| "ack_loop (Suc n) sid t v published s =
     (if published then (True, s)
      else
        (case client_publish sid t v s of
           (Raised, s1) \<Rightarrow> ack_loop n sid t v published s1
         | (Queued rc ok, s1) \<Rightarrow> ack_loop n sid t v ok s1))"

definition effective_qos :: "int \<Rightarrow> int" where
  "effective_qos q = max 0 (min 2 q)"

definition publish_with_retries :: "int \<Rightarrow> string \<Rightarrow> string \<Rightarrow> int \<Rightarrow> mqtt_state \<Rightarrow> bool \<times> mqtt_state" where
  "publish_with_retries sid t v qos s =
     (case queue_loop 10 sid t v s of
        (None, s1) \<Rightarrow> (False, s1)
      | (Some (rc, ok), s1) \<Rightarrow>
          (if rc \<noteq> 0 then (False, s1)
           else if 1 \<le> effective_qos qos then ack_loop 3 sid t v ok s1
           else (True, s1)))"

definition publish_one :: "int \<Rightarrow> string \<Rightarrow> string \<Rightarrow> int \<Rightarrow> mqtt_state \<Rightarrow> bool \<times> mqtt_state" where
  "publish_one sid t v qos s =
     (case get_client sid s of
        (False, s1) \<Rightarrow> (False, s1)
      | (True, s1) \<Rightarrow>
          (case publish_with_retries sid t v qos s1 of
             (True, s2) \<Rightarrow> (True, s2)
           | (False, s2) \<Rightarrow>
               (case get_client sid (invalidate_client sid s2) of
                  (False, s3) \<Rightarrow> (False, s3)
                | (True, s3) \<Rightarrow> publish_with_retries sid t v qos s3)))"

subsection \<open>Both topics\<close>

definition is_duplicate :: "int \<Rightarrow> string \<Rightarrow> string \<Rightarrow> rat \<Rightarrow> rat \<Rightarrow> mqtt_state \<Rightarrow> bool" where
  "is_duplicate sid t v interval now s =
     (case last_send s sid t of None \<Rightarrow> False | Some (v', t') \<Rightarrow> v' = v \<and> now - t' < interval)"

definition note_send :: "int \<Rightarrow> string \<Rightarrow> string \<Rightarrow> rat \<Rightarrow> mqtt_state \<Rightarrow> mqtt_state" where
  "note_send sid t v now s = s\<lparr>last_send := (last_send s)(sid := (last_send s sid)(t \<mapsto> (v, now)))\<rparr>"

definition publish_value ::
  "int \<Rightarrow> string \<Rightarrow> string \<Rightarrow> rat \<Rightarrow> int \<Rightarrow> rat \<Rightarrow> rat \<Rightarrow> mqtt_state \<Rightarrow> bool \<times> mqtt_state" where
  "publish_value sid tp v interval qos now now2 s =
     (let t = normalize_topic tp in
      if is_duplicate sid t v interval now s then (True, s)
      else
        (case publish_one sid t v (effective_qos qos) (note_send sid t v now s) of
           (False, s1) \<Rightarrow> (False, s1)
         | (True, s1) \<Rightarrow>
             (if is_duplicate sid (t @ ''/on'') v interval now2 s1 then (True, s1)
              else publish_one sid (t @ ''/on'') v (effective_qos qos) (note_send sid (t @ ''/on'') v now2 s1))))"

subsection \<open>The contract of a transport\<close>

text \<open>
  What the controllers rely on: a delivery that reports success was acknowledged, and an
  acknowledgement stays one.  The pair of messages of a relay command inherits it.
\<close>

locale transport =
  fixes deliver :: "int \<Rightarrow> string \<Rightarrow> string \<Rightarrow> 's \<Rightarrow> bool \<times> 's"
    and acked :: "int \<Rightarrow> string \<Rightarrow> string \<Rightarrow> 's \<Rightarrow> bool"
  assumes deliver_acked: "fst (deliver sid t v s) \<Longrightarrow> acked sid t v (snd (deliver sid t v s))"
    and acked_mono: "acked sid' t' v' s \<Longrightarrow> acked sid' t' v' (snd (deliver sid t v s))"
begin

definition deliver_pair :: "int \<Rightarrow> string \<Rightarrow> string \<Rightarrow> 's \<Rightarrow> bool \<times> 's" where
  "deliver_pair sid tp v s =
     (let t = normalize_topic tp; base = deliver sid t v s
      in if fst base then deliver sid (t @ ''/on'') v (snd base) else (False, snd base))"

lemma deliver_pair_acked:
  "fst (deliver_pair sid tp v s) \<Longrightarrow>
     acked sid (normalize_topic tp) v (snd (deliver_pair sid tp v s))
     \<and> acked sid (normalize_topic tp @ ''/on'') v (snd (deliver_pair sid tp v s))"
  by (auto simp: deliver_pair_def Let_def deliver_acked acked_mono split: if_splits)

lemma deliver_pair_mono: "acked sid' t' v' s \<Longrightarrow> acked sid' t' v' (snd (deliver_pair sid tp v s))"
  by (simp add: deliver_pair_def Let_def acked_mono)

end

text \<open>The abstract transport of the controllers.\<close>

definition world_acked :: "int \<Rightarrow> string \<Rightarrow> string \<Rightarrow> 'a world_scheme \<Rightarrow> bool" where
  "world_acked srv t v w = (\<exists>n < length (sent w). broker w n \<and> sent w ! n = \<lparr>ms_server = srv, ms_topic = t, ms_value = v\<rparr>)"

interpretation sending: transport send world_acked
proof
  show "world_acked sid t v (snd (send sid t v w))" if "fst (send sid t v w)" for sid t v and w :: "'a world_scheme"
    using that by (auto simp: send_def world_acked_def intro!: exI [of _ "length (sent w)"])
  show "world_acked sid' t' v' (snd (send sid t v w))" if acked: "world_acked sid' t' v' w"
    for sid' t' v' sid t v and w :: "'a world_scheme"
  proof -
    obtain n where "n < length (sent w)" "broker w n" "sent w ! n = \<lparr>ms_server = sid', ms_topic = t', ms_value = v'\<rparr>"
      using acked by (auto simp: world_acked_def)
    then show ?thesis by (auto simp: send_def world_acked_def nth_append intro!: exI [of _ n])
  qed
qed

lemma publish_is_pair: "publish_mqtt_value = sending.deliver_pair"
  by (intro ext) (simp add: publish_mqtt_value_def sending.deliver_pair_def)

text \<open>The transport of \<open>_publish_one\<close> at QoS 2, which every relay command uses.\<close>

definition wire_acked :: "int \<Rightarrow> string \<Rightarrow> string \<Rightarrow> mqtt_state \<Rightarrow> bool" where
  "wire_acked sid t v s = (\<exists>n < length (wire s). wire s ! n = (sid, t, v) \<and> (\<exists>rc. outcome s n = Queued rc True))"

definition grows :: "nat \<Rightarrow> mqtt_state \<Rightarrow> mqtt_state \<Rightarrow> bool" where
  "grows k s s' = (outcome s' = outcome s \<and> last_send s' = last_send s
     \<and> (\<exists>ms. wire s' = wire s @ ms \<and> length ms \<le> k))"

lemma grows_refl [simp]: "grows k s s"
  by (simp add: grows_def)

lemma grows_trans: "grows k s s' \<Longrightarrow> grows l s' s'' \<Longrightarrow> k + l \<le> m \<Longrightarrow> grows m s s''"
  by (auto simp: grows_def)

lemma grows_mono: "grows k s s' \<Longrightarrow> k \<le> m \<Longrightarrow> grows m s s'"
  by (auto simp: grows_def)

lemma wire_acked_mono:
  assumes "grows k s s'" "wire_acked sid t v s" shows "wire_acked sid t v s'"
proof -
  obtain n rc where "n < length (wire s)" "wire s ! n = (sid, t, v)" "outcome s n = Queued rc True"
    using assms(2) by (auto simp: wire_acked_def)
  then show ?thesis using assms(1) by (auto simp: grows_def wire_acked_def nth_append intro!: exI [of _ n])
qed

lemma client_publish_grows: "client_publish sid t v s = (r, s') \<Longrightarrow> grows 1 s s'"
  by (auto simp: client_publish_def grows_def)

lemma client_publish_acked: "client_publish sid t v s = (Queued rc True, s') \<Longrightarrow> wire_acked sid t v s'"
  by (auto simp: client_publish_def wire_acked_def intro!: exI [of _ "length (wire s)"])

lemma queue_loop_grows: "queue_loop n sid t v s = (r, s') \<Longrightarrow> grows n s s'"
proof (induction n arbitrary: s)
  case (Suc n)
  obtain o1 s1 where p: "client_publish sid t v s = (o1, s1)" by fastforce
  have g: "grows 1 s s1" using client_publish_grows [OF p] .
  show ?case
  proof (cases o1)
    case Raised
    then show ?thesis using Suc.prems p grows_mono [OF g, of "Suc n"] by simp
  next
    case (Queued rc ok)
    then consider "s' = s1" | "queue_loop n sid t v s1 = (r, s')" using Suc.prems p by (auto split: if_splits)
    then show ?thesis
      using Suc.IH [of s1] grows_trans [OF g, of n s' "Suc n"] grows_mono [OF g, of "Suc n"] by cases auto
  qed
qed simp

lemma queue_loop_acked: "queue_loop n sid t v s = (Some (rc, True), s') \<Longrightarrow> wire_acked sid t v s'"
  by (induction n arbitrary: s)
    (auto split: prod.splits pub_out.splits if_splits dest: client_publish_acked)

lemma ack_loop_grows: "ack_loop n sid t v p s = (r, s') \<Longrightarrow> grows n s s'"
proof (induction n arbitrary: s p)
  case (Suc n)
  obtain o1 s1 where c: "client_publish sid t v s = (o1, s1)" by fastforce
  have g: "grows 1 s s1" using client_publish_grows [OF c] .
  have "p \<and> s' = s \<or> (\<exists>p'. ack_loop n sid t v p' s1 = (r, s'))"
    using Suc.prems c by (auto split: if_splits pub_out.splits)
  then show ?case using Suc.IH [of _ s1] grows_trans [OF g, of n s' "Suc n"] by auto
qed simp

lemma ack_loop_acked:
  "ack_loop n sid t v p s = (True, s') \<Longrightarrow> (p \<longrightarrow> wire_acked sid t v s) \<Longrightarrow> wire_acked sid t v s'"
proof (induction n arbitrary: s p)
  case (Suc n)
  show ?case
  proof (cases p)
    case True
    then show ?thesis using Suc.prems by simp
  next
    case False
    obtain o1 s1 where c: "client_publish sid t v s = (o1, s1)" by fastforce
    obtain p' where l: "ack_loop n sid t v p' s1 = (True, s')" "p' \<longrightarrow> wire_acked sid t v s1"
      using Suc.prems(1) c False client_publish_acked [of sid t v s _ s1] by (cases o1) auto
    show ?thesis by (rule Suc.IH [OF l])
  qed
qed simp

lemma publish_with_retries_grows: "publish_with_retries sid t v q s = (r, s') \<Longrightarrow> grows 13 s s'"
proof -
  assume r: "publish_with_retries sid t v q s = (r, s')"
  obtain o1 s1 where c: "queue_loop 10 sid t v s = (o1, s1)" by fastforce
  have g: "grows 10 s s1" using queue_loop_grows [OF c] .
  have "s' = s1 \<or> (\<exists>ok. ack_loop 3 sid t v ok s1 = (r, s'))"
    using r c by (auto simp: publish_with_retries_def split: option.splits if_splits)
  then show ?thesis using ack_loop_grows [of 3 sid t v _ s1 r s'] grows_trans [OF g, of 3 s' 13] grows_mono [OF g, of 13] by auto
qed

lemma publish_with_retries_acked:
  assumes "publish_with_retries sid t v q s = (True, s')" "1 \<le> q"
  shows "wire_acked sid t v s'"
proof -
  have q: "1 \<le> effective_qos q" using assms(2) by (simp add: effective_qos_def)
  obtain ok s1 where c: "queue_loop 10 sid t v s = (Some (0, ok), s1)" "ack_loop 3 sid t v ok s1 = (True, s')"
    using assms(1) q by (auto simp: publish_with_retries_def split: prod.splits option.splits if_splits)
  have "ok \<longrightarrow> wire_acked sid t v s1" using c(1) queue_loop_acked [of 10 sid t v s 0 s1] by (cases ok) auto
  with c(2) show ?thesis by (rule ack_loop_acked)
qed

lemma get_client_grows: "get_client sid s = (r, s') \<Longrightarrow> grows 0 s s'"
  by (auto simp: get_client_def Let_def grows_def split: if_splits)

lemma invalidate_grows: "grows 0 s (invalidate_client sid s)"
  by (simp add: invalidate_client_def grows_def)

lemma publish_one_grows: "publish_one sid t v q s = (r, s') \<Longrightarrow> grows 26 s s'"
proof -
  assume r: "publish_one sid t v q s = (r, s')"
  obtain b1 s1 where c1: "get_client sid s = (b1, s1)" by fastforce
  obtain b2 s2 where c2: "publish_with_retries sid t v q s1 = (b2, s2)" by fastforce
  obtain b3 s3 where c3: "get_client sid (invalidate_client sid s2) = (b3, s3)" by fastforce
  have g2: "grows 13 s s2"
    using grows_trans [OF get_client_grows [OF c1] publish_with_retries_grows [OF c2]] by simp
  have g3: "grows 13 s s3"
    using grows_trans [OF g2 grows_trans [OF invalidate_grows get_client_grows [OF c3]]] by simp
  show ?thesis
  proof (cases b1; cases b2; cases b3)
    assume b: b1 "\<not> b2" b3
    then have "publish_with_retries sid t v q s3 = (r, s')" using r c1 c2 c3 by (simp add: publish_one_def)
    from grows_trans [OF g3 publish_with_retries_grows [OF this]] show ?thesis by simp
  qed (use r c1 c2 c3 g2 g3 grows_mono [OF get_client_grows [OF c1], of 26] in
      \<open>auto simp: publish_one_def intro: grows_mono\<close>)
qed

lemma publish_one_acked:
  assumes "publish_one sid t v q s = (True, s')" "1 \<le> q" shows "wire_acked sid t v s'"
proof -
  obtain s1 where "publish_with_retries sid t v q s1 = (True, s')"
    using assms(1) by (auto simp: publish_one_def split: prod.splits bool.splits)
  then show ?thesis using assms(2) by (rule publish_with_retries_acked)
qed

interpretation qos2: transport "\<lambda>sid t v s. publish_one sid t v 2 s" wire_acked
proof
  show "wire_acked sid t v (snd (publish_one sid t v 2 s))" if "fst (publish_one sid t v 2 s)" for sid t v s
    using that publish_one_acked [of sid t v 2 s] by (cases "publish_one sid t v 2 s") auto
  show "wire_acked sid' t' v' (snd (publish_one sid t v 2 s))" if "wire_acked sid' t' v' s" for sid' t' v' sid t v s
    using that publish_one_grows [of sid t v 2 s] wire_acked_mono by (cases "publish_one sid t v 2 s") fastforce
qed

subsection \<open>What a publish promises\<close>

lemma note_send_frame [simp]:
  "wire (note_send sid t v now s) = wire s" "outcome (note_send sid t v now s) = outcome s"
  "last_send (note_send sid t v now s) sid' t' =
     (if sid' = sid \<and> t' = t then Some (v, now) else last_send s sid' t')"
  by (auto simp: note_send_def)

lemma grows_note: "grows k (note_send sid t v now s) s' \<Longrightarrow> \<exists>ms. wire s' = wire s @ ms \<and> length ms \<le> k"
  by (simp add: grows_def)

lemma wire_acked_note [simp]: "wire_acked sid t v (note_send sid' t' v' now s) = wire_acked sid t v s"
  by (simp add: wire_acked_def)

text \<open>The clock has not gone back since the topic was last used.\<close>

definition clock_ok :: "int \<Rightarrow> string \<Rightarrow> rat \<Rightarrow> mqtt_state \<Rightarrow> bool" where
  "clock_ok sid t now s = (case last_send s sid t of None \<Rightarrow> True | Some (v, t') \<Rightarrow> t' \<le> now)"

lemma not_duplicate: "clock_ok sid t now s \<Longrightarrow> \<not> is_duplicate sid t v 0 now s"
  by (auto simp: clock_ok_def is_duplicate_def split: option.splits)

lemma publish_value_split:
  assumes "\<not> is_duplicate sid (normalize_topic tp) v interval now s"
  obtains (fail) s1 where "publish_one sid (normalize_topic tp) v (effective_qos q) (note_send sid (normalize_topic tp) v now s) = (False, s1)"
      "publish_value sid tp v interval q now now2 s = (False, s1)"
  | (skip) s1 where "publish_one sid (normalize_topic tp) v (effective_qos q) (note_send sid (normalize_topic tp) v now s) = (True, s1)"
      "is_duplicate sid (normalize_topic tp @ ''/on'') v interval now2 s1" "publish_value sid tp v interval q now now2 s = (True, s1)"
  | (both) s1 b s2 where "publish_one sid (normalize_topic tp) v (effective_qos q) (note_send sid (normalize_topic tp) v now s) = (True, s1)"
      "\<not> is_duplicate sid (normalize_topic tp @ ''/on'') v interval now2 s1"
      "publish_one sid (normalize_topic tp @ ''/on'') v (effective_qos q) (note_send sid (normalize_topic tp @ ''/on'') v now2 s1) = (b, s2)"
      "publish_value sid tp v interval q now now2 s = (b, s2)"
proof -
  obtain b1 s1 where p1: "publish_one sid (normalize_topic tp) v (effective_qos q) (note_send sid (normalize_topic tp) v now s) = (b1, s1)"
    by fastforce
  obtain b2 s2 where p2: "publish_one sid (normalize_topic tp @ ''/on'') v (effective_qos q)
      (note_send sid (normalize_topic tp @ ''/on'') v now2 s1) = (b2, s2)" by fastforce
  show ?thesis
  proof (cases b1)
    case False
    then show ?thesis using fail p1 assms by (simp add: publish_value_def Let_def)
  next
    case True
    then show ?thesis
      using skip [of s1] both [of s1 b2 s2] p1 p2 assms
      by (cases "is_duplicate sid (normalize_topic tp @ ''/on'') v interval now2 s1") (simp_all add: publish_value_def Let_def)
  qed
qed

text \<open>
  C11: a relay command that is reported delivered was delivered.  With the interval 0 and QoS 2
  that every relay command uses, and a clock that has not gone back, success means that the
  broker acknowledged both the report topic and the command topic of the relay.
\<close>

theorem publish_value_honest:
  assumes "clock_ok sid (normalize_topic tp) now s" "clock_ok sid (normalize_topic tp @ ''/on'') now2 s"
    "fst (publish_value sid tp v 0 2 now now2 s)"
  shows "wire_acked sid (normalize_topic tp) v (snd (publish_value sid tp v 0 2 now now2 s))
    \<and> wire_acked sid (normalize_topic tp @ ''/on'') v (snd (publish_value sid tp v 0 2 now now2 s))"
proof -
  let ?t = "normalize_topic tp"
  have q: "effective_qos 2 = 2" by (simp add: effective_qos_def)
  have last: "last_send s1 sid (?t @ ''/on'') = last_send s sid (?t @ ''/on'')"
    if "publish_one sid ?t v 2 (note_send sid ?t v now s) = (b, s1)" for b s1
    using publish_one_grows [OF that] by (simp add: grows_def)
  from not_duplicate [OF assms(1), of v] show ?thesis
  proof (cases rule: publish_value_split [where q = 2 and ?now2.0 = now2])
    case (fail s1)
    then show ?thesis using assms(3) by simp
  next
    case (skip s1)
    then show ?thesis
      using assms(2) last not_duplicate [of sid "?t @ ''/on''" now2 s1 v] by (simp add: q clock_ok_def)
  next
    case (both s1 b s2)
    have "wire_acked sid ?t v s1" using publish_one_acked both(1) q by simp
    then have "wire_acked sid ?t v s2"
      using qos2.acked_mono [of sid ?t v "note_send sid (?t @ ''/on'') v now2 s1" sid "?t @ ''/on''" v] both(3) q by simp
    moreover have "wire_acked sid (?t @ ''/on'') v s2" using publish_one_acked both(3,4) assms(3) q by simp
    ultimately show ?thesis using both(4) by simp
  qed
qed

definition good_link :: mqtt_state where
  "good_link = \<lparr>wire = [], outcome = (\<lambda>_. Queued 0 True), clients = (\<lambda>_. False), dials = 0, dial = (\<lambda>_. True),
     checks = 0, link = (\<lambda>_. True), last_send = (\<lambda>_ _. None)\<rparr>"

theorem publish_value_honest_witness:
  "wire_acked 1 (normalize_topic ''a'') ''1'' (snd (publish_value 1 ''a'' ''1'' 0 2 5 5 good_link))"
proof -
  have "fst (publish_value 1 ''a'' ''1'' 0 2 5 5 good_link)"
    by (simp add: publish_value_def Let_def is_duplicate_def good_link_def publish_one_def get_client_def note_send_def
        publish_with_retries_def client_publish_def numeral_eq_Suc effective_qos_def)
  then show ?thesis
    using publish_value_honest [of 1 "''a''" 5 good_link 5 "''1''"] by (simp add: clock_ok_def good_link_def)
qed

text \<open>
  Publishing always comes to an end.  Whatever the client and the broker answer, one command
  makes at most 52 calls of the client's publish: ten tries and three republishes for each of
  two clients and two topics.
\<close>

theorem publish_value_bounded:
  "\<exists>ms. wire (snd (publish_value sid tp v interval q now now2 s)) = wire s @ ms \<and> length ms \<le> 52"
proof (cases "is_duplicate sid (normalize_topic tp) v interval now s")
  case True
  then show ?thesis by (simp add: publish_value_def Let_def)
next
  case False
  then show ?thesis
  proof (cases rule: publish_value_split [where q = q and ?now2.0 = now2])
    case (fail s1)
    then show ?thesis using grows_note [OF publish_one_grows [OF fail(1)]] by auto
  next
    case (skip s1)
    then show ?thesis using grows_note [OF publish_one_grows [OF skip(1)]] by auto
  next
    case (both s1 b s2)
    then show ?thesis
      using grows_note [OF publish_one_grows [OF both(1)]] grows_note [OF publish_one_grows [OF both(3)]] by auto
  qed
qed

lemma publish_value_false_notes:
  assumes "publish_value sid tp v interval q now now2 s = (False, s')"
  shows "last_send s' sid (normalize_topic tp) = Some (v, now)"
proof -
  have "\<not> is_duplicate sid (normalize_topic tp) v interval now s"
    using assms by (auto simp: publish_value_def Let_def)
  then show ?thesis
  proof (cases rule: publish_value_split [where q = q and ?now2.0 = now2])
    case (fail s1)
    then show ?thesis using assms publish_one_grows [OF fail(1)] by (simp add: grows_def)
  next
    case (skip s1)
    then show ?thesis using assms by simp
  next
    case (both s1 b s2)
    then show ?thesis
      using assms publish_one_grows [OF both(1)] publish_one_grows [OF both(3)] by (simp add: grows_def)
  qed
qed

text \<open>
  The duplicate suppression counts attempts, not deliveries.  When a publish has failed,
  publishing the same value again within the interval (for the relay commands, whose interval
  is 0, whenever the wall clock was set back) reports success and sends nothing.
\<close>

theorem failed_publish_then_suppressed:
  assumes "publish_value sid tp v interval q now now2 s = (False, s')" "now' - now < interval"
  shows "publish_value sid tp v interval q now' now2' s' = (True, s')"
  using publish_value_false_notes [OF assms(1)] assms(2) by (simp add: publish_value_def Let_def is_duplicate_def)

definition dead_link :: mqtt_state where
  "dead_link = good_link\<lparr>dial := (\<lambda>_. False)\<rparr>"

theorem failed_publish_then_suppressed_witness:
  "\<not> fst (publish_value 1 ''a'' ''0'' 0 2 5 5 dead_link)
   \<and> fst (publish_value 1 ''a'' ''0'' 0 2 4 4 (snd (publish_value 1 ''a'' ''0'' 0 2 5 5 dead_link)))"
proof -
  have f: "\<not> fst (publish_value 1 ''a'' ''0'' 0 2 5 5 dead_link)"
    by (simp add: publish_value_def Let_def is_duplicate_def dead_link_def good_link_def publish_one_def
        get_client_def note_send_def)
  then have "publish_value 1 ''a'' ''0'' 0 2 5 5 dead_link = (False, snd (publish_value 1 ''a'' ''0'' 0 2 5 5 dead_link))"
    by (cases "publish_value 1 ''a'' ''0'' 0 2 5 5 dead_link") simp
  from failed_publish_then_suppressed [OF this, of 4 4] f show ?thesis by simp
qed

subsection \<open>What goes over the wire\<close>

text \<open>A delivery puts only copies of its own message on the wire, at least one when it succeeds.\<close>

definition relays :: "int \<Rightarrow> string \<Rightarrow> string \<Rightarrow> nat \<Rightarrow> mqtt_state \<Rightarrow> mqtt_state \<Rightarrow> bool" where
  "relays sid t v k s s' = (\<exists>n \<ge> k. wire s' = wire s @ replicate n (sid, t, v))"

lemma relays_refl: "wire s' = wire s \<Longrightarrow> relays sid t v 0 s s'"
  by (auto simp: relays_def)

lemma relays_trans: "relays sid t v k s s1 \<Longrightarrow> relays sid t v l s1 s2 \<Longrightarrow> relays sid t v (max k l) s s2"
  by (auto simp: relays_def replicate_add [symmetric] intro: exI [of _ "_ + _"])

lemma relays_weaken: "relays sid t v k s s' \<Longrightarrow> relays sid t v 0 s s'"
  by (auto simp: relays_def)

lemma relays_publish: "client_publish sid t v s = (r, s') \<Longrightarrow> relays sid t v 1 s s'"
  by (auto simp: client_publish_def relays_def intro: exI [of _ 1])

lemma relays_queue: "queue_loop n sid t v s = (r, s') \<Longrightarrow> relays sid t v (if r = None then 0 else 1) s s'"
proof (induction n arbitrary: s)
  case (Suc n)
  obtain r1 s1 where p: "client_publish sid t v s = (r1, s1)" by fastforce
  note one = relays_publish [OF p]
  have "s' = s1 \<or> queue_loop n sid t v s1 = (r, s')" using Suc.prems p by (auto split: pub_out.splits if_splits)
  then show ?case
  proof
    assume "s' = s1"
    then show ?thesis using one relays_weaken by auto
  next
    assume "queue_loop n sid t v s1 = (r, s')"
    from relays_trans [OF one Suc.IH [OF this]] show ?thesis using relays_weaken by (auto split: if_splits)
  qed
qed (simp add: relays_refl)

lemma relays_ack: "ack_loop n sid t v p s = (r, s') \<Longrightarrow> relays sid t v 0 s s'"
proof (induction n arbitrary: s p)
  case (Suc n)
  obtain r1 s1 where c: "client_publish sid t v s = (r1, s1)" by fastforce
  have "s' = s \<or> (\<exists>p'. ack_loop n sid t v p' s1 = (r, s'))"
    using Suc.prems c by (auto split: pub_out.splits if_splits)
  then show ?case
    using Suc.IH [of _ s1] relays_trans [OF relays_publish [OF c], of 0 s'] relays_weaken by (auto simp: relays_refl)
qed (simp add: relays_refl)

lemma relays_retries: "publish_with_retries sid t v q s = (r, s') \<Longrightarrow> relays sid t v (if r then 1 else 0) s s'"
proof -
  assume r: "publish_with_retries sid t v q s = (r, s')"
  obtain m s1 where c: "queue_loop 10 sid t v s = (m, s1)" by fastforce
  note one = relays_queue [OF c]
  consider "s' = s1" "m = None" "\<not> r" | "s' = s1" "m \<noteq> None" | ok where "m \<noteq> None" "ack_loop 3 sid t v ok s1 = (r, s')"
    using r c by (auto simp: publish_with_retries_def split: option.splits if_splits)
  then show ?thesis
  proof cases
    case 3
    show ?thesis using relays_trans [OF one relays_ack [OF 3(2)]] 3(1) relays_weaken by (cases r) auto
  qed (use one relays_weaken in auto)
qed

lemma get_client_wire: "get_client sid s = (r, s') \<Longrightarrow> wire s' = wire s"
  by (auto simp: get_client_def Let_def split: if_splits)

lemma relays_one: "publish_one sid t v q s = (r, s') \<Longrightarrow> relays sid t v (if r then 1 else 0) s s'"
proof -
  assume r: "publish_one sid t v q s = (r, s')"
  obtain b1 s1 where c1: "get_client sid s = (b1, s1)" by fastforce
  obtain b2 s2 where c2: "publish_with_retries sid t v q s1 = (b2, s2)" by fastforce
  obtain b3 s3 where c3: "get_client sid (invalidate_client sid s2) = (b3, s3)" by fastforce
  have w1: "wire s1 = wire s" by (rule get_client_wire [OF c1])
  have w3: "wire s3 = wire s2" using get_client_wire [OF c3] by (simp add: invalidate_client_def)
  have two: "relays sid t v (if b2 then 1 else 0) s s2" using relays_retries [OF c2] by (simp add: relays_def w1)
  have three: "relays sid t v 0 s s3" using relays_weaken [OF two] by (simp add: relays_def w3)
  consider "r = False" "s' = s1" | "r" "b2" "s' = s2" | "r = False" "s' = s3" | "publish_with_retries sid t v q s3 = (r, s')"
    using r c1 c2 c3 by (cases b1; cases b2; cases b3) (auto simp: publish_one_def)
  then show ?thesis
  proof cases
    case 4
    show ?thesis using relays_trans [OF three relays_retries [OF 4]] by (auto split: if_splits)
  qed (use two three w1 in \<open>auto simp: relays_def\<close>)
qed

subsection \<open>The controllers' publish is the code's\<close>

text \<open>A relay command with the two readings of the wall clock its publish takes.\<close>

record command =
  c_server :: int
  c_topic :: string
  c_value :: string
  c_now :: rat
  c_now2 :: rat

fun deliver_all :: "command list \<Rightarrow> mqtt_state \<Rightarrow> bool list \<times> mqtt_state" where
  "deliver_all [] s = ([], s)"
| "deliver_all (c # cs) s =
     (case publish_value (c_server c) (c_topic c) (c_value c) 0 2 (c_now c) (c_now2 c) s of
        (b, s1) \<Rightarrow> (case deliver_all cs s1 of (bs, s2) \<Rightarrow> (b # bs, s2)))"

fun control_all :: "command list \<Rightarrow> 'a world_scheme \<Rightarrow> bool list \<times> 'a world_scheme" where
  "control_all [] w = ([], w)"
| "control_all (c # cs) w =
     (case publish_mqtt_value (c_server c) (c_topic c) (c_value c) w of
        (b, w1) \<Rightarrow> (case control_all cs w1 of (bs, w2) \<Rightarrow> (b # bs, w2)))"

text \<open>The clock is never set back, from the last send noted on.\<close>

definition noted_by :: "rat \<Rightarrow> mqtt_state \<Rightarrow> bool" where
  "noted_by T s = (\<forall>sid t v t'. last_send s sid t = Some (v, t') \<longrightarrow> t' \<le> T)"

fun timely :: "rat \<Rightarrow> command list \<Rightarrow> bool" where
  "timely T [] = True"
| "timely T (c # cs) = (T \<le> c_now c \<and> c_now c \<le> c_now2 c \<and> timely (c_now2 c) cs)"

text \<open>
  The messages of the controllers' model and what the wire carries for them: for each a run of copies, of a message
  with a verdict of success at least one, and its acknowledgement is on the wire.
\<close>

definition heeds :: "bool list \<Rightarrow> 'a world_scheme \<Rightarrow> bool" where
  "heeds vs w = (\<forall>k < length vs. broker w (length (sent w) + k) = vs ! k)"

fun carried :: "(mqtt_msg \<times> bool) list \<Rightarrow> (int \<times> string \<times> string) list \<Rightarrow> bool" where
  "carried [] ws = (ws = [])"
| "carried ((m, ok) # ms) ws =
     (\<exists>n ws'. ws = replicate n (ms_server m, ms_topic m, ms_value m) @ ws' \<and> (ok \<longrightarrow> 0 < n) \<and> carried ms ws')"

definition refines :: "mqtt_msg list \<Rightarrow> bool list \<Rightarrow> mqtt_state \<Rightarrow> mqtt_state \<Rightarrow> bool" where
  "refines ms vs s s' =
     (length vs = length ms \<and> (\<exists>ws. wire s' = wire s @ ws \<and> carried (zip ms vs) ws)
      \<and> (\<forall>k < length ms. vs ! k \<longrightarrow> wire_acked (ms_server (ms ! k)) (ms_topic (ms ! k)) (ms_value (ms ! k)) s'))"

lemma carried_append: "carried (as @ bs) (us @ ws)" if "carried as us" "carried bs ws"
  using that
proof (induction as arbitrary: us)
  case (Cons a as)
  obtain m ok where a: "a = (m, ok)" by (cases a)
  then obtain n us' where u: "us = replicate n (ms_server m, ms_topic m, ms_value m) @ us'" "ok \<longrightarrow> 0 < n" "carried as us'"
    using Cons.prems(1) by auto
  have "carried (as @ bs) (us' @ ws)" by (rule Cons.IH [OF u(3) Cons.prems(2)])
  then show ?case using u(1,2) by (auto simp: a)
qed simp

text \<open>One command: the messages it sends, the verdicts they meet, and what the next command may rely on.\<close>

definition cmd_msgs :: "command \<Rightarrow> bool \<Rightarrow> mqtt_msg list" where
  "cmd_msgs c both =
     (let t = normalize_topic (c_topic c); m = (\<lambda>tp. \<lparr>ms_server = c_server c, ms_topic = tp, ms_value = c_value c\<rparr>)
      in if both then [m t, m (t @ ''/on'')] else [m t])"

lemma one_command:
  assumes "noted_by T s" "T \<le> c_now c" "c_now c \<le> c_now2 c"
    "publish_value (c_server c) (c_topic c) (c_value c) 0 2 (c_now c) (c_now2 c) s = (b, s')"
  obtains both vs where "noted_by (c_now2 c) s'" "refines (cmd_msgs c both) vs s s'"
    "\<And>w. heeds vs w \<Longrightarrow> publish_mqtt_value (c_server c) (c_topic c) (c_value c) w = (b, w\<lparr>sent := sent w @ cmd_msgs c both\<rparr>)"
    "outcome s' = outcome s"
proof -
  let ?sid = "c_server c" and ?t = "normalize_topic (c_topic c)" and ?v = "c_value c"
  let ?n1 = "note_send ?sid ?t ?v (c_now c) s"
  have q: "effective_qos 2 = 2" by (simp add: effective_qos_def)
  have clock: "clock_ok sid t now u" if "noted_by T' u" "T' \<le> now" for sid t now T' u
    using that by (force simp: clock_ok_def noted_by_def split: option.splits)
  have n1: "noted_by (c_now2 c) ?n1" using assms(1-3) by (force simp: noted_by_def)
  have acked: "wire_acked ?sid tp ?v u'" if "publish_one ?sid tp ?v 2 u = (True, u')" for tp u u'
    by (rule publish_one_acked [OF that]) simp
  from not_duplicate [OF clock [OF assms(1,2)], of ?sid ?t ?v] show ?thesis
  proof (cases rule: publish_value_split [where q = 2 and ?now2.0 = "c_now2 c"])
    case (fail s1)
    note g = publish_one_grows [OF fail(1)] and r = relays_one [OF fail(1)]
    have s': "s' = s1" "\<not> b" using fail(2) assms(4) by auto
    have "refines (cmd_msgs c False) [False] s s'"
      using r by (auto simp: refines_def cmd_msgs_def Let_def s' relays_def)
    moreover have "noted_by (c_now2 c) s'" using g n1 by (simp add: s' noted_by_def grows_def)
    ultimately show ?thesis
      using that [of False "[False]"] s' g
      by (simp add: heeds_def cmd_msgs_def Let_def publish_mqtt_value_def send_def grows_def)
  next
    case (skip s1)
    have "noted_by (c_now2 c) s1" using publish_one_grows [OF skip(1)] n1 by (simp add: noted_by_def grows_def)
    then have "clock_ok ?sid (?t @ ''/on'') (c_now2 c) s1" using clock by blast
    then show ?thesis using skip(2) not_duplicate by blast
  next
    case (both s1 b2 s2)
    have s': "s' = s2" "b = b2" using both(4) assms(4) by auto
    note g1 = publish_one_grows [OF both(1)] and g2 = publish_one_grows [OF both(3)]
    have nt: "noted_by (c_now2 c) s'"
      using g1 g2 n1 by (auto simp: s' noted_by_def grows_def)
    obtain i j where w: "wire s1 = wire s @ replicate i (?sid, ?t, ?v)" "0 < i"
      "wire s' = wire s1 @ replicate j (?sid, ?t @ ''/on'', ?v)" "b2 \<longrightarrow> 0 < j"
      using relays_one [OF both(1)] relays_one [OF both(3)] by (auto simp: relays_def s' split: if_splits)
    have "wire_acked ?sid ?t ?v s1" using acked both(1) q by simp
    then have a1: "wire_acked ?sid ?t ?v s'" using wire_acked_mono [OF g2, of ?sid ?t ?v] by (simp add: s')
    have a2: "b2 \<longrightarrow> wire_acked ?sid (?t @ ''/on'') ?v s'" using acked both(3) q by (auto simp: s')
    have "carried (zip (cmd_msgs c True) [True, b2]) (replicate i (?sid, ?t, ?v) @ replicate j (?sid, ?t @ ''/on'', ?v) @ [])"
      using w(2,4) by (simp add: cmd_msgs_def Let_def) blast
    then have "refines (cmd_msgs c True) [True, b2] s s'"
      using a1 a2 w(1,3) by (auto simp: refines_def less_Suc_eq_0_disj cmd_msgs_def Let_def)
    then show ?thesis
      using that [of True "[True, b2]"] nt g1 g2 s'
      by (simp add: heeds_def cmd_msgs_def Let_def publish_mqtt_value_def send_def grows_def less_Suc_eq_0_disj nth_append)
  qed
qed

lemma refines_append:
  assumes "refines ms vs s s1" "refines ms' vs' s1 s2" "outcome s1 = outcome s" "outcome s2 = outcome s"
  shows "refines (ms @ ms') (vs @ vs') s s2"
proof -
  obtain us ws where w: "wire s1 = wire s @ us" "carried (zip ms vs) us" "wire s2 = wire s1 @ ws" "carried (zip ms' vs') ws"
    using assms(1,2) by (auto simp: refines_def)
  have "wire_acked a t v s2" if ack: "wire_acked a t v s1" for a t v
  proof -
    obtain n rc where "n < length (wire s1)" "wire s1 ! n = (a, t, v)" "outcome s1 n = Queued rc True"
      using ack by (auto simp: wire_acked_def)
    then show ?thesis using w(3) assms(3,4) by (auto simp: wire_acked_def nth_append intro!: exI [of _ n])
  qed
  then show ?thesis
    using assms(1,2) w carried_append [OF w(2,4)] by (auto simp: refines_def nth_append)
qed

lemma heeds_append:
  "heeds (vs @ vs') w \<Longrightarrow> length vs = length ms \<Longrightarrow> heeds vs w \<and> heeds vs' (w\<lparr>sent := sent w @ ms\<rparr>)"
  by (auto simp: heeds_def nth_append add.assoc)


definition on_off :: "command list" where
  "on_off = [\<lparr>c_server = 1, c_topic = ''a'', c_value = ''1'', c_now = 5, c_now2 = 5\<rparr>,
     \<lparr>c_server = 1, c_topic = ''a'', c_value = ''0'', c_now = 6, c_now2 = 6\<rparr>]"


end
