(* ===== verification/Calendar.thy ===== *)
theory Calendar
  imports Prelude
begin

text \<open>
  The part of Python's \<open>datetime\<close> and \<open>int\<close> the scheduler uses.  A \<open>time\<close> is the number of
  seconds since the local midnight that began Monday 5 January 1970, so day \<open>0\<close> is a Monday and
  \<open>weekday\<close> is the day number modulo 7.  \<open>parse_dt\<close> is the two-format \<open>strptime\<close> helper that both
  \<open>db/zones.py\<close> and \<open>irrigation_scheduler.py\<close> define; \<open>parse_hhmm\<close> is
  \<open>map(int, s.split(":"))\<close> unpacked into two names.  Digits are ASCII.
\<close>

subsection \<open>Integers and splitting\<close>

definition digit_val :: "char \<Rightarrow> int option" where
  "digit_val c = (let n = (of_char c :: nat) in if 48 \<le> n \<and> n \<le> 57 then Some (int n - 48) else None)"

fun digits_val :: "string \<Rightarrow> int \<Rightarrow> int option" where
  "digits_val [] acc = Some acc"
| "digits_val (c # cs) acc = (case digit_val c of None \<Rightarrow> None | Some d \<Rightarrow> digits_val cs (10 * acc + d))"

definition nat_of_digits :: "string \<Rightarrow> int option" where
  "nat_of_digits s = (if s = [] then None else digits_val s 0)"

text \<open>\<open>int(s)\<close>; \<open>None\<close> is \<open>ValueError\<close>.\<close>

definition py_int :: "string \<Rightarrow> int option" where
  "py_int s0 =
     (let s = strip s0 in
      case s of
        [] \<Rightarrow> None
      | c # cs \<Rightarrow>
          (if c = CHR ''-'' then map_option uminus (nat_of_digits cs)
           else if c = CHR ''+'' then nat_of_digits cs
           else nat_of_digits s))"

text \<open>\<open>str(n)\<close>.\<close>

fun str_nat :: "nat \<Rightarrow> string" where
  "str_nat n = (if n < 10 then [char_of (48 + n)] else str_nat (n div 10) @ [char_of (48 + n mod 10)])"

declare str_nat.simps [simp del]

definition str_int :: "int \<Rightarrow> string" where
  "str_int n = (if n < 0 then CHR ''-'' # str_nat (nat (- n)) else str_nat (nat n))"

fun split_on :: "char \<Rightarrow> string \<Rightarrow> string list" where
  "split_on c [] = [[]]"
| "split_on c (x # xs) =
     (if x = c then [] # split_on c xs
      else case split_on c xs of [] \<Rightarrow> [[x]] | p # ps \<Rightarrow> (x # p) # ps)"

definition parse_hhmm :: "string \<Rightarrow> (int \<times> int) option" where
  "parse_hhmm s =
     (case split_on (CHR '':'') s of
        [h, m] \<Rightarrow> (case (py_int h, py_int m) of (Some hh, Some mm) \<Rightarrow> Some (hh, mm) | _ \<Rightarrow> None)
      | _ \<Rightarrow> None)"

subsection \<open>Days\<close>

definition day_of :: "time \<Rightarrow> int" where "day_of t = t div 86400"

definition weekday :: "time \<Rightarrow> int" where "weekday t = day_of t mod 7"

definition day_start :: "time \<Rightarrow> time" where "day_start t = 86400 * day_of t"

text \<open>\<open>t.replace(hour=h, minute=m, second=0, microsecond=0)\<close>; the hour and minute must be valid.\<close>

definition valid_hm :: "int \<Rightarrow> int \<Rightarrow> bool" where
  "valid_hm h m = (0 \<le> h \<and> h \<le> 23 \<and> 0 \<le> m \<and> m \<le> 59)"

definition at_hm :: "time \<Rightarrow> int \<Rightarrow> int \<Rightarrow> time" where
  "at_hm t h m = day_start t + 3600 * h + 60 * m"

definition minutes :: "int \<Rightarrow> int" where "minutes n = 60 * n"

lemma weekday_range: "0 \<le> weekday t \<and> weekday t < 7"
  by (simp add: weekday_def)

lemma day_start_bounds: "day_start t \<le> t \<and> t < day_start t + 86400"
  using pos_mod_bound [of 86400 t] pos_mod_sign [of 86400 t] mult_div_mod_eq [of 86400 t]
  unfolding day_start_def day_of_def by linarith

lemma at_hm_same_day: "valid_hm h m \<Longrightarrow> day_of (at_hm t h m) = day_of t"
proof -
  assume v: "valid_hm h m"
  have "at_hm t h m = 86400 * day_of t + (3600 * h + 60 * m)" by (simp add: at_hm_def day_start_def)
  moreover have "0 \<le> 3600 * h + 60 * m" "3600 * h + 60 * m < 86400" using v by (auto simp: valid_hm_def)
  ultimately show ?thesis by (simp add: day_of_def)
qed

lemma weekday_at_hm: "valid_hm h m \<Longrightarrow> weekday (at_hm t h m) = weekday t"
  by (simp add: weekday_def at_hm_same_day)

lemma day_of_add_days: "day_of (t + 86400 * n) = day_of t + n"
  by (simp add: day_of_def)

lemma weekday_add_days: "weekday (t + 86400 * n) = (weekday t + n) mod 7"
  by (simp add: weekday_def day_of_add_days mod_simps)

lemma at_hm_add_days: "at_hm (t + 86400 * n) h m = at_hm t h m + 86400 * n"
  by (simp add: at_hm_def day_start_def day_of_add_days)

subsection \<open>Dates\<close>

text \<open>Days since 5 January 1970 of a civil date (Gregorian, \<open>m\<close> from 1).\<close>

definition days_from_civil :: "int \<Rightarrow> int \<Rightarrow> int \<Rightarrow> int" where
  "days_from_civil y m d =
     (let y1 = (if m \<le> 2 then y - 1 else y);
          era = y1 div 400;
          yoe = y1 - era * 400;
          mp = (m + 9) mod 12;
          doy = (153 * mp + 2) div 5 + d - 1;
          doe = yoe * 365 + yoe div 4 - yoe div 100 + doy
      in era * 146097 + doe - 719468 - 4)"

definition is_leap :: "int \<Rightarrow> bool" where
  "is_leap y = ((4 dvd y \<and> \<not> 100 dvd y) \<or> 400 dvd y)"

definition month_days :: "int \<Rightarrow> int \<Rightarrow> int" where
  "month_days y m =
     (if m = 2 then (if is_leap y then 29 else 28) else if m \<in> {4, 6, 9, 11} then 30 else 31)"

definition short_num :: "nat \<Rightarrow> string \<Rightarrow> int option" where
  "short_num n s = (if length s \<le> n then nat_of_digits s else None)"

definition parse_date :: "string \<Rightarrow> int option" where
  "parse_date s =
     (case split_on (CHR ''-'') s of
        [ys, ms, ds] \<Rightarrow>
          (case (if length ys = 4 then nat_of_digits ys else None, short_num 2 ms, short_num 2 ds) of
             (Some y, Some m, Some d) \<Rightarrow>
               (if 1 \<le> y \<and> 1 \<le> m \<and> m \<le> 12 \<and> 1 \<le> d \<and> d \<le> month_days y m
                then Some (days_from_civil y m d) else None)
           | _ \<Rightarrow> None)
      | _ \<Rightarrow> None)"

definition parse_clock :: "string \<Rightarrow> int option" where
  "parse_clock s =
     (case split_on (CHR '':'') s of
        [hs, ms, ss] \<Rightarrow>
          (case (short_num 2 hs, short_num 2 ms, short_num 2 ss) of
             (Some h, Some m, Some sec) \<Rightarrow>
               (if valid_hm h m \<and> sec \<le> 59 then Some (3600 * h + 60 * m + sec) else None)
           | _ \<Rightarrow> None)
      | [hs, ms] \<Rightarrow>
          (case (short_num 2 hs, short_num 2 ms) of
             (Some h, Some m) \<Rightarrow> (if valid_hm h m then Some (3600 * h + 60 * m) else None)
           | _ \<Rightarrow> None)
      | _ \<Rightarrow> None)"

definition parse_dt :: "string option \<Rightarrow> time option" where
  "parse_dt s =
     (case s of
        None \<Rightarrow> None
      | Some s \<Rightarrow>
          (case split_on (CHR '' '') s of
             [ds, ts] \<Rightarrow>
               (case (parse_date ds, parse_clock ts) of
                  (Some d, Some c) \<Rightarrow> Some (86400 * d + c)
                | _ \<Rightarrow> None)
           | _ \<Rightarrow> None))"

lemma monday_5_jan_1970: "parse_dt (Some ''1970-01-05 00:00:00'') = Some 0"
  by code_simp

lemma parse_dt_example:
  "parse_dt (Some ''2024-02-29 06:30'') = Some 1708842600 \<and> weekday 1708842600 = 3"
  by code_simp

lemma parse_dt_rejects: "parse_dt (Some ''2023-02-29 06:30:00'') = None" "parse_dt (Some '''') = None" "parse_dt (Some ''soon'') = None"
  by code_simp+

lemma parse_hhmm_example: "parse_hhmm ''06:05'' = Some (6, 5)" "parse_hhmm ''6'' = None" "parse_hhmm ''6:5:0'' = None"
  by code_simp+

end
