(* ===== verification/Programs.thy ===== *)
theory Programs
  imports Calendar Zone_Runs
begin

text \<open>
  Watering programs: \<open>src/db/programs.py\<close> (CRUD, the overlap check, per-date cancellations) and
  the next-run computation of \<open>src/db/zones.py\<close>.  The columns \<open>days\<close>, \<open>zones\<close> and \<open>extra_times\<close>
  are JSON text in the table; the model keeps the decoded lists, which is what every reader
  works on.  A calendar date is its day number.  The weather coefficient and the
  \<open>max_weather_coefficient\<close> setting come from outside the repository class and are arguments.
\<close>

subsection \<open>Days\<close>

text \<open>Each element is the result of \<open>int(d)\<close>; one failure empties the list.\<close>

definition parse_days :: "int option list \<Rightarrow> int list option" where
  "parse_days ds = (if None \<in> set ds then None else Some (map the ds))"

definition shift_days :: "int list \<Rightarrow> int list" where
  "shift_days ds =
     (if ds \<noteq> [] \<and> 1 \<le> Min (set ds) \<and> Max (set ds) \<le> 7
      then map (\<lambda>d. max 0 (min 6 (d - 1))) ds else ds)"

subsection \<open>CRUD\<close>

record program_req =
  pr_name :: string
  pr_time :: string
  pr_days :: "int option list"
  pr_zones :: "int list"
  pr_type :: "string option"
  pr_schedule :: "string option"
  pr_interval :: "int option"
  pr_even_odd :: "string option"
  pr_color :: "string option"
  pr_enabled :: "bool option"
  pr_extra :: "string list option"

definition get_programs :: "'a db_scheme \<Rightarrow> program list" where
  "get_programs d = (if db_up d then programs d else [])"

definition get_program :: "'a db_scheme \<Rightarrow> int \<Rightarrow> program option" where
  "get_program d i = (if db_up d then row_at prog_id (programs d) i else None)"

definition create_program :: "program_req \<Rightarrow> 'a db_scheme \<Rightarrow> program option \<times> 'a db_scheme" where
  "create_program r d =
     (if \<not> db_up d then (None, d)
      else
        (let days = (case parse_days (pr_days r) of None \<Rightarrow> [] | Some ds \<Rightarrow> shift_days ds);
             i = next_rowid prog_id (programs d);
             p = \<lparr>prog_id = i, prog_name = pr_name r, prog_time = pr_time r, prog_days = days,
                  prog_zones = pr_zones r,
                  prog_type = (case pr_type r of None \<Rightarrow> ''time-based'' | Some t \<Rightarrow> t),
                  schedule_type = (case pr_schedule r of None \<Rightarrow> ''weekdays'' | Some t \<Rightarrow> t),
                  interval_days = pr_interval r, even_odd = pr_even_odd r,
                  prog_color = (case pr_color r of None \<Rightarrow> ''#42a5f5'' | Some c \<Rightarrow> c),
                  prog_enabled = (case pr_enabled r of None \<Rightarrow> True | Some b \<Rightarrow> b),
                  extra_times = (case pr_extra r of None \<Rightarrow> [] | Some ts \<Rightarrow> ts)\<rparr>;
             d1 = d\<lparr>programs := insort_key prog_id p (programs d)\<rparr>
         in (get_program d1 i, d1)))"

text \<open>The keys an update dict can carry.\<close>

datatype prog_upd =
    P_name string | P_time string | P_days "int option list" | P_zones "int list"
  | P_type string | P_schedule string | P_interval "int option" | P_even_odd "string option"
  | P_color string | P_enabled bool | P_extra "string list"

fun set_prog_col :: "prog_upd \<Rightarrow> program \<Rightarrow> program" where
  "set_prog_col (P_name v) p = p\<lparr>prog_name := v\<rparr>"
| "set_prog_col (P_time v) p = p\<lparr>prog_time := v\<rparr>"
| "set_prog_col (P_days v) p =
     (case parse_days v of None \<Rightarrow> p | Some ds \<Rightarrow> p\<lparr>prog_days := shift_days ds\<rparr>)"
| "set_prog_col (P_zones v) p = p\<lparr>prog_zones := v\<rparr>"
| "set_prog_col (P_type v) p = p\<lparr>prog_type := v\<rparr>"
| "set_prog_col (P_schedule v) p = p\<lparr>schedule_type := v\<rparr>"
| "set_prog_col (P_interval v) p = p\<lparr>interval_days := v\<rparr>"
| "set_prog_col (P_even_odd v) p = p\<lparr>even_odd := v\<rparr>"
| "set_prog_col (P_color v) p = p\<lparr>prog_color := v\<rparr>"
| "set_prog_col (P_enabled v) p = p\<lparr>prog_enabled := v\<rparr>"
| "set_prog_col (P_extra v) p = p\<lparr>extra_times := v\<rparr>"

definition set_prog_cols :: "prog_upd list \<Rightarrow> program \<Rightarrow> program" where
  "set_prog_cols us p = fold set_prog_col us p"

interpretation prog_rows: row_update prog_id set_prog_cols
proof
  have one: "prog_id (set_prog_col u p) = prog_id p" for u p by (cases u) (auto split: option.splits)
  show "prog_id (set_prog_cols us p) = prog_id p" for us p
    unfolding set_prog_cols_def by (induction us arbitrary: p) (simp_all add: one)
qed

definition update_program :: "int \<Rightarrow> prog_upd list \<Rightarrow> 'a db_scheme \<Rightarrow> program option \<times> 'a db_scheme" where
  "update_program i us d =
     (if \<not> db_up d then (None, d)
      else
        (let d1 = d\<lparr>programs := upd_rows (\<lambda>p. prog_id p = i) (set_prog_cols us) (programs d)\<rparr>
         in (get_program d1 i, d1)))"

definition delete_program :: "int \<Rightarrow> 'a db_scheme \<Rightarrow> bool \<times> 'a db_scheme" where
  "delete_program i d =
     (if db_up d then (True, d\<lparr>programs := filter (\<lambda>p. prog_id p \<noteq> i) (programs d)\<rparr>) else (False, d))"

text \<open>The suffix " (kopiya)" in UTF-8.\<close>

definition copy_suffix :: string where
  "copy_suffix = '' ('' @ [CHR 0xD0, CHR 0xBA, CHR 0xD0, CHR 0xBE, CHR 0xD0, CHR 0xBF, CHR 0xD0, CHR 0xB8,
     CHR 0xD1, CHR 0x8F] @ '')''"

definition req_of_program :: "program \<Rightarrow> program_req" where
  "req_of_program p =
     \<lparr>pr_name = prog_name p @ copy_suffix, pr_time = prog_time p, pr_days = map Some (prog_days p),
      pr_zones = prog_zones p, pr_type = Some (prog_type p), pr_schedule = Some (schedule_type p),
      pr_interval = interval_days p, pr_even_odd = even_odd p, pr_color = Some (prog_color p),
      pr_enabled = Some (prog_enabled p), pr_extra = Some (extra_times p)\<rparr>"

definition duplicate_program :: "int \<Rightarrow> 'a db_scheme \<Rightarrow> program option \<times> 'a db_scheme" where
  "duplicate_program i d =
     (case get_program d i of None \<Rightarrow> (None, d) | Some p \<Rightarrow> create_program (req_of_program p) d)"

subsection \<open>Overlaps\<close>

definition zone_dur :: "zone list \<Rightarrow> int \<Rightarrow> int" where
  "zone_dur zs i = (case row_at zid zs i of None \<Rightarrow> 0 | Some z \<Rightarrow> int_or0 (duration z))"

definition zone_group :: "zone list \<Rightarrow> int \<Rightarrow> int" where
  "zone_group zs i = (case row_at zid zs i of None \<Rightarrow> 0 | Some z \<Rightarrow> zone_gid z)"

definition total_dur :: "zone list \<Rightarrow> int list \<Rightarrow> int" where
  "total_dur zs ids = sum_list (map (zone_dur zs) ids)"

definition start_minutes :: "string \<Rightarrow> int option" where
  "start_minutes s = map_option (\<lambda>(h, m). h * 60 + m) (parse_hhmm s)"

record conflict =
  cf_program :: int
  cf_error :: bool
  cf_overlap :: rat
  cf_factor :: int
  cf_group :: int

record legacy_conflict =
  lc_program :: int
  lc_duration :: int
  lc_zones :: "int set"
  lc_groups :: "int set"
  lc_days :: "int set"
  lc_start :: int
  lc_end :: int

text \<open>A stored program shares a day and a zone or a group with the checked one.\<close>

definition competes :: "zone list \<Rightarrow> int list \<Rightarrow> int list \<Rightarrow> program \<Rightarrow> bool" where
  "competes zs zids days p =
     (set days \<inter> set (prog_days p) \<noteq> {}
      \<and> (set zids \<inter> set (prog_zones p) \<noteq> {}
         \<or> zone_group zs ` set zids \<inter> zone_group zs ` set (prog_zones p) \<noteq> {}))"

text \<open>The overlap of two spans of minutes, as the code tests it.\<close>

definition overlaps :: "rat \<Rightarrow> rat \<Rightarrow> rat \<Rightarrow> rat \<Rightarrow> bool" where
  "overlaps s1 e1 s2 e2 = (s1 < e2 \<and> s2 < e1)"

definition group_conflict ::
  "zone list \<Rightarrow> int \<Rightarrow> int \<Rightarrow> int \<Rightarrow> program \<Rightarrow> int \<Rightarrow> int \<Rightarrow> conflict list" where
  "group_conflict zs start endm factor p ex g =
     (let gd = sum_list (map (zone_dur zs) (filter (\<lambda>i. zone_group zs i = g) (prog_zones p)));
          base_end = (of_int (ex + gd) :: rat);
          wf = max 100 factor;
          wend = of_int ex + of_int gd * of_int wf / 100;
          mk = (\<lambda>err e f. \<lparr>cf_program = prog_id p, cf_error = err,
                   cf_overlap = round_dec 1 (min e (of_int endm) - of_int (max start ex)),
                   cf_factor = f, cf_group = g\<rparr>)
      in if overlaps (of_int start) (of_int endm) (of_int ex) base_end then [mk True base_end 100]
         else if overlaps (of_int start) (of_int endm) (of_int ex) wend then [mk False wend wf]
         else [])"

definition common_groups :: "zone list \<Rightarrow> int list \<Rightarrow> program \<Rightarrow> int set" where
  "common_groups zs zids p = zone_group zs ` set zids \<inter> zone_group zs ` set (prog_zones p)"

definition program_conflicts ::
  "zone list \<Rightarrow> int list \<Rightarrow> int list \<Rightarrow> int \<Rightarrow> int \<Rightarrow> program \<Rightarrow> conflict list" where
  "program_conflicts zs zids days start factor p =
     (if \<not> competes zs zids days p then []
      else case start_minutes (prog_time p) of
             None \<Rightarrow> []
           | Some ex \<Rightarrow>
               concat (map (group_conflict zs start (start + total_dur zs zids) factor p ex)
                 (sorted_list_of_set (common_groups zs zids p))))"

definition legacy_conflicts_of ::
  "zone list \<Rightarrow> int list \<Rightarrow> int list \<Rightarrow> int \<Rightarrow> program \<Rightarrow> legacy_conflict list" where
  "legacy_conflicts_of zs zids days start p =
     (if \<not> competes zs zids days p then []
      else case start_minutes (prog_time p) of
             None \<Rightarrow> []
           | Some ex \<Rightarrow>
               (let endm = start + total_dur zs zids; ex_end = ex + total_dur zs (prog_zones p)
                in if start < ex_end \<and> ex < endm
                   then [\<lparr>lc_program = prog_id p, lc_duration = total_dur zs (prog_zones p),
                          lc_zones = set zids \<inter> set (prog_zones p), lc_groups = common_groups zs zids p,
                          lc_days = set days \<inter> set (prog_days p), lc_start = max start ex,
                          lc_end = min endm ex_end\<rparr>]
                   else []))"

definition others :: "int option \<Rightarrow> 'a db_scheme \<Rightarrow> program list" where
  "others pid d = (if truthy_int pid then filter (\<lambda>p. prog_id p \<noteq> int_or0 pid) (programs d) else programs d)"

text \<open>
  \<open>check_program_conflicts\<close>: the list of the old interface, or a dictionary when the caller gives
  a factor or asks for the weather.  \<open>setting\<close> is \<open>max_weather_coefficient\<close> parsed as an integer
  and \<open>coeff\<close> the current coefficient.  \<open>days\<close> are the integers of the request.
\<close>

datatype conflict_answer =
    Legacy "legacy_conflict list"
  | V2 (v2_has: bool) (v2_conflicts: "conflict list") (v2_coeff: int)

definition check_program_conflicts ::
  "int option \<Rightarrow> string \<Rightarrow> int list \<Rightarrow> int list \<Rightarrow> int option \<Rightarrow> bool \<Rightarrow> int option \<Rightarrow> int
   \<Rightarrow> 'a db_scheme \<Rightarrow> conflict_answer" where
  "check_program_conflicts pid tm zids days weather_factor include_weather setting coeff d =
     (let v2 = (weather_factor \<noteq> None \<or> include_weather);
          factor = (if include_weather \<and> weather_factor = None then setting else weather_factor);
          empty = (if v2 then V2 False [] coeff else Legacy [])
      in if \<not> db_up d then (if v2 then V2 False [] 100 else Legacy [])
         else if tm = [] \<or> zids = [] \<or> days = [] then empty
         else case start_minutes tm of
                None \<Rightarrow> empty
              | Some start \<Rightarrow>
                  (let ps = others pid d;
                       found = (case factor of
                          None \<Rightarrow> []
                        | Some f \<Rightarrow> concat (map (program_conflicts (zones d) zids days start f) ps))
                   in if v2 then V2 (found \<noteq> []) found coeff
                      else Legacy (concat (map (legacy_conflicts_of (zones d) zids days start) ps))))"

subsection \<open>Cancellations\<close>

definition cancel_program_run_for_group :: "int \<Rightarrow> int \<Rightarrow> int \<Rightarrow> 'a db_scheme \<Rightarrow> bool \<times> 'a db_scheme" where
  "cancel_program_run_for_group p day g d =
     (if db_up d
      then (True, d\<lparr>cancellations := filter (\<lambda>c. c \<noteq> (p, day, g)) (cancellations d) @ [(p, day, g)]\<rparr>)
      else (False, d))"

definition is_program_run_cancelled_for_group :: "'a db_scheme \<Rightarrow> int \<Rightarrow> int \<Rightarrow> int \<Rightarrow> bool" where
  "is_program_run_cancelled_for_group d p day g = (db_up d \<and> (p, day, g) \<in> set (cancellations d))"

definition clear_program_cancellations_for_group_on_date :: "int \<Rightarrow> int \<Rightarrow> 'a db_scheme \<Rightarrow> bool \<times> 'a db_scheme" where
  "clear_program_cancellations_for_group_on_date g day d =
     (if db_up d
      then (True, d\<lparr>cancellations := filter (\<lambda>(p, dy, gr). \<not> (gr = g \<and> dy = day)) (cancellations d)\<rparr>)
      else (False, d))"

subsection \<open>The next run of a zone\<close>

text \<open>Exceptions of the computation that no handler of it catches.\<close>

datatype py_error = Value_Error | Type_Error

text \<open>Minutes before the zone in its program; a NULL duration raises \<open>TypeError\<close>.\<close>

fun minutes_before :: "'a db_scheme \<Rightarrow> int \<Rightarrow> int list \<Rightarrow> int \<Rightarrow> py_error + int option" where
  "minutes_before d i [] cum = Inr None"
| "minutes_before d i (j # js) cum =
     (if j = i then Inr (Some cum)
      else case get_zone_duration d j of
             None \<Rightarrow> Inl Type_Error
           | Some n \<Rightarrow> minutes_before d i js (cum + n))"

text \<open>The first start after \<open>now\<close> among the next \<open>n\<close> days; the time is parsed on a matching day.\<close>

fun first_start :: "int list \<Rightarrow> string \<Rightarrow> time \<Rightarrow> nat \<Rightarrow> nat \<Rightarrow> py_error + time option" where
  "first_start days tm now offset 0 = Inr None"
| "first_start days tm now offset (Suc n) =
     (let c = now + 86400 * int offset in
      if weekday c \<in> set days then
        (case parse_hhmm tm of
           None \<Rightarrow> Inl Value_Error
         | Some (h, m) \<Rightarrow>
             (if \<not> valid_hm h m then Inl Value_Error
              else if now < at_hm c h m then Inr (Some (at_hm c h m))
              else first_start days tm now (offset + 1) n))
      else first_start days tm now (offset + 1) n)"

definition program_candidate :: "'a db_scheme \<Rightarrow> int \<Rightarrow> time \<Rightarrow> program \<Rightarrow> py_error + time option" where
  "program_candidate d i now p =
     (if i \<notin> set (prog_zones p) then Inr None
      else case first_start (prog_days p) (prog_time p) now 0 14 of
             Inl e \<Rightarrow> Inl e
           | Inr None \<Rightarrow> Inr None
           | Inr (Some start) \<Rightarrow>
               (case minutes_before d i (sort (prog_zones p)) 0 of
                  Inl e \<Rightarrow> Inl e
                | Inr None \<Rightarrow> Inr None
                | Inr (Some cum) \<Rightarrow> Inr (Some (start + minutes cum))))"

definition min_opt :: "time option \<Rightarrow> time option \<Rightarrow> time option" where
  "min_opt best c =
     (case c of None \<Rightarrow> best | Some t \<Rightarrow> (case best of None \<Rightarrow> Some t | Some b \<Rightarrow> Some (if t < b then t else b)))"

fun best_candidate :: "'a db_scheme \<Rightarrow> int \<Rightarrow> time \<Rightarrow> program list \<Rightarrow> time option \<Rightarrow> py_error + time option" where
  "best_candidate d i now [] best = Inr best"
| "best_candidate d i now (p # ps) best =
     (case program_candidate d i now p of
        Inl e \<Rightarrow> Inl e
      | Inr c \<Rightarrow> best_candidate d i now ps (min_opt best c))"

definition effective_now :: "zone \<Rightarrow> time \<Rightarrow> time" where
  "effective_now z now =
     (case parse_dt (postpone_until z) of None \<Rightarrow> now | Some p \<Rightarrow> (if now < p then p else now))"

definition compute_next_run_for_zone :: "'a db_scheme \<Rightarrow> program list \<Rightarrow> time \<Rightarrow> int \<Rightarrow> py_error + time option" where
  "compute_next_run_for_zone d ps now i =
     (case get_zone d i of
        None \<Rightarrow> Inr None
      | Some z \<Rightarrow> best_candidate d i (effective_now z now) ps None)"

fun next_runs :: "'a db_scheme \<Rightarrow> program list \<Rightarrow> time \<Rightarrow> zone list \<Rightarrow> py_error + (int \<times> time) list" where
  "next_runs d ps now [] = Inr []"
| "next_runs d ps now (z # zs) =
     (case compute_next_run_for_zone d ps now (zid z) of
        Inl e \<Rightarrow> Inl e
      | Inr r \<Rightarrow>
          (case next_runs d ps now zs of
             Inl e \<Rightarrow> Inl e
           | Inr sched \<Rightarrow> Inr ((case r of None \<Rightarrow> [] | Some t \<Rightarrow> [(zid z, t)]) @ sched)))"

text \<open>An exception while computing leaves the table as it was.\<close>

definition reschedule_group_to_next_program ::
  "int \<Rightarrow> program list \<Rightarrow> time \<Rightarrow> 'a db_scheme \<Rightarrow> py_error option \<times> 'a db_scheme" where
  "reschedule_group_to_next_program g ps now d =
     (case next_runs d ps now (get_zones_by_group d g) of
        Inl e \<Rightarrow> (Some e, d)
      | Inr sched \<Rightarrow>
          (None, (if sched = [] then clear_group_scheduled_starts g d
                  else set_group_scheduled_starts g sched (clear_group_scheduled_starts g d))))"

end
