(* ===== verification/Program_Laws.thy ===== *)
theory Program_Laws
  imports Programs
begin

text \<open>
  Properties of the programs table: what duplication does to the weekdays, what the overlap check
  finds and misses, how cancellations behave, and that the next run of a zone is the earliest
  start any of its programs allows.
\<close>

subsection \<open>Weekdays\<close>

lemma parse_days_Some [simp]: "parse_days (map Some ds) = Some ds"
  by (simp add: parse_days_def image_iff comp_def)

definition stored_days :: "program \<Rightarrow> bool" where
  "stored_days p = (set (prog_days p) \<subseteq> {0..6})"

lemma shift_days_keeps: "ds = [] \<or> 0 \<in> set ds \<Longrightarrow> shift_days ds = ds"
proof -
  assume a: "ds = [] \<or> 0 \<in> set ds"
  have "\<not> 1 \<le> Min (set ds)" if "0 \<in> set ds"
    using that by (metis List.finite_set Min_le not_one_le_zero order_trans zero_less_one_class.zero_le_one one_le_numeral int_one_le_iff_zero_less less_irrefl le_less_trans)
  with a show ?thesis by (auto simp: shift_days_def)
qed

lemma shift_days_moves:
  assumes "ds \<noteq> []" "set ds \<subseteq> {1..6}"
  shows "shift_days ds = map (\<lambda>d. d - 1) ds"
proof -
  have "1 \<le> Min (set ds)" "Max (set ds) \<le> 7"
    using assms Min_in [of "set ds"] Max_in [of "set ds"] by auto
  then have "shift_days ds = map (\<lambda>d. max 0 (min 6 (d - 1))) ds" using assms(1) by (simp add: shift_days_def)
  also have "\<dots> = map (\<lambda>d. d - 1) ds" using assms(2) by (auto simp: max_def min_def)
  finally show ?thesis .
qed

lemma row_at_insort:
  "key r \<notin> key ` set rows \<Longrightarrow> row_at key (insort_key key r rows) (key r) = Some r"
  by (simp add: row_at_insert_key)

lemma create_program_days:
  assumes "db_up d"
  shows "map_option prog_days (fst (create_program r d)) =
    Some (case parse_days (pr_days r) of None \<Rightarrow> [] | Some ds \<Rightarrow> shift_days ds)"
proof -
  have "next_rowid prog_id (programs d) \<notin> prog_id ` set (programs d)"
    using next_rowid_fresh [of prog_id "programs d"] by (simp add: row_at_None_iff)
  then show ?thesis
    using assms by (simp add: create_program_def Let_def get_program_def row_at_insert_key)
qed

text \<open>
  Duplicating a program does not keep its weekdays.  The stored days count from Monday 0; the
  copy goes through the 1-based input heuristic of \<open>create_program\<close>, so it has the same days
  exactly when the program has none or runs on Mondays, and otherwise every day is one earlier.
\<close>

theorem duplicate_program_days:
  assumes "get_program d i = Some p" "stored_days p"
  shows "map_option prog_days (fst (duplicate_program i d)) =
    Some (if prog_days p = [] \<or> 0 \<in> set (prog_days p) then prog_days p else map (\<lambda>x. x - 1) (prog_days p))"
proof -
  have up: "db_up d" using assms(1) by (simp add: get_program_def split: if_splits)
  have "map_option prog_days (fst (duplicate_program i d)) = Some (shift_days (prog_days p))"
    using assms(1) create_program_days [OF up, of "req_of_program p"]
    by (simp add: duplicate_program_def req_of_program_def)
  moreover have "shift_days (prog_days p) = map (\<lambda>x. x - 1) (prog_days p)"
    if "prog_days p \<noteq> []" "0 \<notin> set (prog_days p)"
  proof (rule shift_days_moves [OF that(1)])
    show "set (prog_days p) \<subseteq> {1..6}"
    proof
      fix x assume "x \<in> set (prog_days p)"
      then have "0 \<le> x" "x \<le> 6" "x \<noteq> 0" using assms(2) that(2) by (auto simp: stored_days_def)
      then show "x \<in> {1..6}" by simp
    qed
  qed
  ultimately show ?thesis
    by (cases "prog_days p = [] \<or> 0 \<in> set (prog_days p)") (simp_all only: shift_days_keeps if_True if_False de_Morgan_disj simp_thms)
qed

definition demo_program :: "int \<Rightarrow> string \<Rightarrow> int list \<Rightarrow> int list \<Rightarrow> program" where
  "demo_program i tm ds zs =
     \<lparr>prog_id = i, prog_name = ''p'', prog_time = tm, prog_days = ds, prog_zones = zs, prog_type = ''time-based'',
      schedule_type = ''weekdays'', interval_days = None, even_odd = None, prog_color = [], prog_enabled = True,
      extra_times = []\<rparr>"

theorem duplicate_program_days_witness:
  "map_option prog_days (fst (duplicate_program 1 (empty_db\<lparr>programs := [demo_program 1 ''06:00'' [1, 3] [5]]\<rparr>))) = Some [0, 2]"
  using duplicate_program_days [of "empty_db\<lparr>programs := [demo_program 1 ''06:00'' [1, 3] [5]]\<rparr>" 1
      "demo_program 1 ''06:00'' [1, 3] [5]"]
  by (simp add: get_program_def empty_db_def demo_program_def stored_days_def)

subsection \<open>Overlaps\<close>

text \<open>Both programs would be watering at minute \<open>m\<close> of a day.\<close>

definition both_watering :: "zone list \<Rightarrow> int \<Rightarrow> int list \<Rightarrow> program \<Rightarrow> int \<Rightarrow> bool" where
  "both_watering zs start zids p m =
     (\<exists>ex. start_minutes (prog_time p) = Some ex
        \<and> start \<le> m \<and> m < start + total_dur zs zids \<and> ex \<le> m \<and> m < ex + total_dur zs (prog_zones p))"

lemma legacy_conflict_iff:
  assumes "0 < total_dur zs zids" "0 < total_dur zs (prog_zones p)"
  shows "legacy_conflicts_of zs zids days start p \<noteq> [] \<longleftrightarrow>
    competes zs zids days p \<and> (\<exists>m. both_watering zs start zids p m)"
proof (cases "start_minutes (prog_time p)")
  case None
  then show ?thesis by (simp add: legacy_conflicts_of_def both_watering_def)
next
  case (Some ex)
  have "(start < ex + total_dur zs (prog_zones p) \<and> ex < start + total_dur zs zids) \<longleftrightarrow>
    (\<exists>m. start \<le> m \<and> m < start + total_dur zs zids \<and> ex \<le> m \<and> m < ex + total_dur zs (prog_zones p))" (is "?l \<longleftrightarrow> ?r")
  proof
    assume ?l
    then show ?r using assms by (intro exI [of _ "max start ex"]) auto
  qed auto
  then show ?thesis using Some by (simp add: legacy_conflicts_of_def both_watering_def Let_def)
qed

text \<open>
  The overlap check is exact for its model of a run.  With positive durations, a stored program
  (other than the edited one) is reported exactly when it shares a weekday and a zone or a group
  with the checked one and there is a minute of the day at which both, run one zone after the
  other from their main start times, would be watering.
\<close>

theorem conflicts_exact:
  assumes "db_up d" "tm \<noteq> []" "zids \<noteq> []" "days \<noteq> []" "start_minutes tm = Some start"
    "0 < total_dur (zones d) zids" "p \<in> set (others pid d)" "distinct (map prog_id (programs d))"
    "0 < total_dur (zones d) (prog_zones p)"
  shows "(\<exists>cs. check_program_conflicts pid tm zids days None False setting coeff d = Legacy cs
            \<and> prog_id p \<in> lc_program ` set cs) \<longleftrightarrow>
    competes (zones d) zids days p \<and> (\<exists>m. both_watering (zones d) start zids p m)"
proof -
  have ans: "check_program_conflicts pid tm zids days None False setting coeff d =
      Legacy (concat (map (legacy_conflicts_of (zones d) zids days start) (others pid d)))"
    using assms(1-5) by (simp add: check_program_conflicts_def Let_def)
  have ids: "lc_program c = prog_id q" if "c \<in> set (legacy_conflicts_of (zones d) zids days start q)" for c q
    using that by (auto simp: legacy_conflicts_of_def Let_def split: if_splits option.splits)
  have sub: "set (others pid d) \<subseteq> set (programs d)" by (auto simp: others_def)
  have uniq: "q = p" if "q \<in> set (others pid d)" "prog_id q = prog_id p" for q
  proof -
    have "row_at prog_id (programs d) (prog_id q) = Some q"
      using that(1) sub by (intro row_at_mem_unique [OF assms(8)]) blast
    moreover have "row_at prog_id (programs d) (prog_id q) = Some p"
      unfolding that(2) using assms(7) sub by (intro row_at_mem_unique [OF assms(8)]) blast
    ultimately show ?thesis by simp
  qed
  have "(prog_id p \<in> lc_program ` set (concat (map (legacy_conflicts_of (zones d) zids days start) (others pid d))))
      \<longleftrightarrow> legacy_conflicts_of (zones d) zids days start p \<noteq> []" (is "?l \<longleftrightarrow> ?r")
  proof
    assume ?l
    then obtain q c where q: "q \<in> set (others pid d)" "c \<in> set (legacy_conflicts_of (zones d) zids days start q)"
      "lc_program c = prog_id p" by auto
    then have "q = p" using uniq [OF q(1)] ids [OF q(2)] by simp
    with q(2) show ?r by auto
  next
    assume ?r
    then obtain c where c: "c \<in> set (legacy_conflicts_of (zones d) zids days start p)" by (meson list.set_sel(1))
    then have "lc_program c = prog_id p" by (rule ids)
    with c assms(7) show ?l by force
  qed
  then show ?thesis using legacy_conflict_iff [OF assms(6,9)] by (simp add: ans)
qed

lemma demo_zone_dur: "zone_dur [demo] i = (if i = zid demo then int_or0 (duration demo) else 0)"
  by (simp add: zone_dur_def)

definition conflict_db :: db where
  "conflict_db = empty_db\<lparr>zones := [new_zone 1 None (plain_req None)], programs := [demo_program 1 ''06:00'' [0] [1]]\<rparr>"

lemma conflict_db_facts:
  "zone_dur (zones conflict_db) 1 = 15" "zone_group (zones conflict_db) 1 = 1" "db_up conflict_db"
  "others None conflict_db = [demo_program 1 ''06:00'' [0] [1]]" "programs conflict_db = [demo_program 1 ''06:00'' [0] [1]]"
  "total_dur (zones conflict_db) [1] = 15"
  by (simp_all add: conflict_db_def zone_dur_def zone_group_def new_zone_def plain_req_def rq_duration_or10_def
      zone_gid_def rq_target_group_def empty_db_def others_def total_dur_def)

lemma demo_program_simps [simp]:
  "prog_id (demo_program i tm ds zs) = i" "prog_time (demo_program i tm ds zs) = tm"
  "prog_days (demo_program i tm ds zs) = ds" "prog_zones (demo_program i tm ds zs) = zs"
  by (simp_all add: demo_program_def)

lemma demo_times: "start_minutes ''06:10'' = Some 370" "start_minutes ''06:00'' = Some 360" "start_minutes ''05:50'' = Some 350"
  by (code_simp)+

theorem conflicts_exact_witness:
  "\<exists>cs. check_program_conflicts None ''06:10'' [1] [0] None False None 100 conflict_db = Legacy cs
     \<and> 1 \<in> lc_program ` set cs"
proof -
  have "competes (zones conflict_db) [1] [0] (demo_program 1 ''06:00'' [0] [1])" by (simp add: competes_def)
  moreover have "both_watering (zones conflict_db) 370 [1] (demo_program 1 ''06:00'' [0] [1]) 372"
    by (simp add: both_watering_def demo_times conflict_db_facts)
  ultimately show ?thesis
    using conflicts_exact [of conflict_db "''06:10''" "[1]" "[0]" 370 "demo_program 1 ''06:00'' [0] [1]" None None 100]
    by (auto simp: conflict_db_facts demo_times)
qed

text \<open>
  The weather-aware check overlooks the checked program's own stretching.  If the checked
  program, unscaled, ends before a stored one starts, no weather factor, however large, makes
  the check report it; and when the caller asks for the weather but no factor is configured, the
  check reports nothing at all, overlaps at the normal durations included.
\<close>

theorem weather_check_misses:
  assumes "start_minutes tm = Some start" "prog_id p \<notin> prog_id ` (set (programs d) - {p})"
    "start_minutes (prog_time p) = Some ex" "start + total_dur (zones d) zids \<le> ex"
  shows "prog_id p \<notin> cf_program ` set (v2_conflicts (check_program_conflicts pid tm zids days (Some f) iw setting coeff d))
    \<and> check_program_conflicts pid' tm zids' days' None True None coeff d \<in> {V2 False [] coeff, V2 False [] 100}"
proof
  have none: "program_conflicts (zones d) zids days start f p = []"
  proof -
    have "(of_int (start + total_dur (zones d) zids) :: rat) \<le> of_int ex" using assms(4) by (simp only: of_int_le_iff)
    then have "group_conflict (zones d) start (start + total_dur (zones d) zids) f p ex g = []" for g
      by (simp add: group_conflict_def Let_def overlaps_def)
    then show ?thesis using assms(3) by (simp add: program_conflicts_def)
  qed
  have ids: "cf_program c = prog_id q" if "c \<in> set (program_conflicts (zones d) zids days start f q)" for c q
    using that by (auto simp: program_conflicts_def group_conflict_def Let_def split: if_splits option.splits)
  have sub: "set (others pid d) \<subseteq> set (programs d)" by (auto simp: others_def)
  have "prog_id p \<notin> cf_program ` set (concat (map (program_conflicts (zones d) zids days start f) (others pid d)))"
  proof
    assume "prog_id p \<in> cf_program ` set (concat (map (program_conflicts (zones d) zids days start f) (others pid d)))"
    then obtain c q where "q \<in> set (others pid d)" "c \<in> set (program_conflicts (zones d) zids days start f q)"
      "cf_program c = prog_id p" by auto
    moreover from this have "q = p" using ids [of c q] sub assms(2) by (metis DiffI imageI singletonD subsetD)
    ultimately show False using none by simp
  qed
  then show "prog_id p \<notin> cf_program ` set (v2_conflicts (check_program_conflicts pid tm zids days (Some f) iw setting coeff d))"
    using assms(1) by (simp add: check_program_conflicts_def Let_def)
  show "check_program_conflicts pid' tm zids' days' None True None coeff d \<in> {V2 False [] coeff, V2 False [] 100}"
    using assms(1) by (simp add: check_program_conflicts_def Let_def)
qed

theorem weather_check_misses_witness:
  "1 \<notin> cf_program ` set (v2_conflicts (check_program_conflicts None ''05:50'' [7] [0] (Some 200) True None 100 conflict_db))"
  using weather_check_misses [of "''05:50''" 350 "demo_program 1 ''06:00'' [0] [1]" conflict_db 360 "[7]" None "[0]" 200 True None 100]
  by (simp add: demo_times conflict_db_facts conflict_db_def total_dur_def zone_dur_def empty_db_def)

subsection \<open>Cancellations\<close>

text \<open>
  A store of flags: setting one raises exactly that flag, dropping a class of them lowers exactly
  that class.  The cancellations table is one.
\<close>

locale flag_store =
  fixes ok :: "'s \<Rightarrow> bool"
    and test :: "'s \<Rightarrow> 'k \<Rightarrow> bool"
    and put :: "'k \<Rightarrow> 's \<Rightarrow> 's"
    and drop_class :: "'q \<Rightarrow> 's \<Rightarrow> 's"
    and in_class :: "'q \<Rightarrow> 'k \<Rightarrow> bool"
  assumes ok_put: "ok (put k s) = ok s"
    and ok_drop: "ok (drop_class q s) = ok s"
    and test_put: "ok s \<Longrightarrow> test (put k s) k' = (k' = k \<or> test s k')"
    and test_drop: "ok s \<Longrightarrow> test (drop_class q s) k = (test s k \<and> \<not> in_class q k)"
begin

lemma test_puts: "ok s \<Longrightarrow> test (fold put ks s) k = (k \<in> set ks \<or> test s k)"
  by (induction ks arbitrary: s) (auto simp: ok_put test_put)

lemma ok_puts: "ok (fold put ks s) = ok s"
  by (induction ks arbitrary: s) (auto simp: ok_put)

lemma puts_then_drop: "ok s \<Longrightarrow> test (drop_class q (fold put ks s)) k = ((k \<in> set ks \<or> test s k) \<and> \<not> in_class q k)"
  by (simp add: test_drop ok_puts test_puts)

end

definition put_cancel :: "int \<times> int \<times> int \<Rightarrow> 'a db_scheme \<Rightarrow> 'a db_scheme" where
  "put_cancel k d = snd (cancel_program_run_for_group (fst k) (fst (snd k)) (snd (snd k)) d)"

definition drop_cancels :: "int \<times> int \<Rightarrow> 'a db_scheme \<Rightarrow> 'a db_scheme" where
  "drop_cancels q d = snd (clear_program_cancellations_for_group_on_date (fst q) (snd q) d)"

interpretation cancels: flag_store db_up
    "\<lambda>d k. is_program_run_cancelled_for_group d (fst k) (fst (snd k)) (snd (snd k))"
    put_cancel drop_cancels "\<lambda>q k. snd (snd k) = fst q \<and> fst (snd k) = snd q"
  by unfold_locales
    (auto simp: put_cancel_def drop_cancels_def cancel_program_run_for_group_def
      clear_program_cancellations_for_group_on_date_def is_program_run_cancelled_for_group_def)

text \<open>
  Cancellations hit what they name.  After any number of cancellations of program runs and a
  clearing of one group's day, a run is cancelled exactly when it was cancelled before or just
  now, unless it is of the cleared group on the cleared date.
\<close>

theorem cancellations_exact:
  assumes "db_up d"
  shows "is_program_run_cancelled_for_group (drop_cancels (g, day) (fold put_cancel ks d)) p' day' g' \<longleftrightarrow>
    ((p', day', g') \<in> set ks \<or> is_program_run_cancelled_for_group d p' day' g') \<and> \<not> (g' = g \<and> day' = day)"
  using cancels.puts_then_drop [OF assms, of "(g, day)" ks "(p', day', g')"] by simp

theorem cancellations_exact_witness:
  "is_program_run_cancelled_for_group (drop_cancels (2, 10) (fold put_cancel [(1, 10, 2), (1, 10, 3)] empty_db)) 1 10 3
   \<and> \<not> is_program_run_cancelled_for_group (drop_cancels (2, 10) (fold put_cancel [(1, 10, 2), (1, 10, 3)] empty_db)) 1 10 2"
  using cancellations_exact [of empty_db 2 10 "[(1, 10, 2), (1, 10, 3)]"] by (simp add: empty_db_def)

subsection \<open>The next run\<close>

text \<open>A start of the program: a time on one of its days, at its hour and minute.\<close>

definition slot :: "int list \<Rightarrow> int \<Rightarrow> int \<Rightarrow> time \<Rightarrow> bool" where
  "slot days h m t = (weekday t \<in> set days \<and> t = at_hm t h m)"

lemma slot_at_hm: "valid_hm h m \<Longrightarrow> slot days h m (at_hm c h m) = (weekday c \<in> set days)"
proof -
  assume v: "valid_hm h m"
  have "at_hm (at_hm c h m) h m = at_hm c h m"
    unfolding at_hm_def [of "at_hm c h m"] day_start_def at_hm_same_day [OF v] by (simp add: at_hm_def day_start_def)
  then show ?thesis using v by (simp add: slot_def weekday_at_hm)
qed

lemma at_hm_days: "at_hm (now + 86400 * k) h m = at_hm now h m + 86400 * k"
  by (rule at_hm_add_days)

text \<open>A start after \<open>now\<close> is the programmed time on the day some whole days later.\<close>

lemma slot_after:
  assumes "slot days h m t" "now < t"
  obtains k where "0 \<le> k" "t = at_hm (now + 86400 * k) h m" "weekday (now + 86400 * k) \<in> set days"
proof
  let ?k = "day_of t - day_of now"
  have "day_of now \<le> day_of t" using assms(2) by (simp add: day_of_def zdiv_mono1)
  then show "0 \<le> ?k" by simp
  have day: "day_of (now + 86400 * ?k) = day_of t" unfolding day_of_add_days by simp
  show "t = at_hm (now + 86400 * ?k) h m"
    using assms(1) day by (simp add: slot_def at_hm_def day_start_def)
  show "weekday (now + 86400 * ?k) \<in> set days"
    using assms(1) day by (simp add: slot_def weekday_def)
qed

lemma first_start_spec:
  assumes "parse_hhmm tm = Some (h, m)" "valid_hm h m"
  shows "first_start days tm now off n =
    (case List.find (\<lambda>k. weekday (now + 86400 * int k) \<in> set days \<and> now < at_hm (now + 86400 * int k) h m) [off..<off + n] of
       None \<Rightarrow> Inr None
     | Some k \<Rightarrow> Inr (Some (at_hm (now + 86400 * int k) h m)))"
proof (induction n arbitrary: off)
  case (Suc n)
  have "[off..<off + Suc n] = off # [Suc off..<Suc off + n]" by (simp add: upt_conv_Cons)
  then show ?case using assms Suc [of "Suc off"] by (simp add: Let_def del: upt_Suc)
qed simp

lemma find_upt_least:
  assumes "List.find P [0..<n] = Some k" "P j" shows "k \<le> j \<and> P k"
proof -
  obtain i where i: "i < length [0..<n]" "P ([0..<n] ! i)" "k = [0..<n] ! i" "\<forall>j < i. \<not> P ([0..<n] ! j)"
    using assms(1) by (auto simp: find_Some_iff)
  then have "k = i" by simp
  moreover have "\<not> P j" if "j < i" using i(1,4) that by (auto dest: spec [of _ j])
  ultimately show ?thesis using assms(2) i(2,3) by (metis leI)
qed

text \<open>With a day of the week to run on, two weeks always hold a start, and the first is the least.\<close>

lemma first_start_least:
  assumes p: "parse_hhmm tm = Some (h, m)" "valid_hm h m" and day: "\<exists>x \<in> set days. 0 \<le> x \<and> x < 7"
  obtains t where "first_start days tm now 0 14 = Inr (Some t)" "slot days h m t" "now < t"
    "\<And>t'. slot days h m t' \<Longrightarrow> now < t' \<Longrightarrow> t \<le> t'"
proof -
  define P where "P k = (weekday (now + 86400 * int k) \<in> set days \<and> now < at_hm (now + 86400 * int k) h m)" for k
  obtain x where x: "x \<in> set days" "0 \<le> x" "x < 7" using day by auto
  define k0 where "k0 = nat ((x - weekday now - 1) mod 7 + 1)"
  have k0: "int k0 = (x - weekday now - 1) mod 7 + 1" "1 \<le> k0" "k0 \<le> 7" by (auto simp: k0_def)
  have "weekday (now + 86400 * int k0) = x"
  proof -
    have "(weekday now + int k0) mod 7 = ((weekday now + 1) + (x - weekday now - 1) mod 7) mod 7"
      using k0(1) by (simp add: ac_simps)
    also have "\<dots> = ((weekday now + 1) + (x - weekday now - 1)) mod 7" by (rule mod_add_right_eq)
    also have "\<dots> = x mod 7" by simp
    finally show ?thesis using x by (simp add: weekday_add_days)
  qed
  moreover have "now < at_hm (now + 86400 * int k0) h m"
  proof -
    have "now < day_start now + 86400" using day_start_bounds [of now] by simp
    also have "\<dots> \<le> at_hm now h m + 86400 * int k0" using p(2) k0(2) by (auto simp: at_hm_def valid_hm_def)
    finally show ?thesis by (simp add: at_hm_days)
  qed
  ultimately have P0: "P k0" using x(1) by (simp add: P_def)
  then have "List.find P [0..<14] \<noteq> None" using k0(3) by (auto simp: find_None_iff intro!: exI [of _ k0])
  then obtain k where k: "List.find P [0..<14] = Some k" by auto
  have first: "first_start days tm now 0 14 = Inr (Some (at_hm (now + 86400 * int k) h m))"
    using first_start_spec [OF p, of days now 0 14] k by (simp add: P_def [abs_def] del: upt_Suc)
  have Pk: "P k" using find_upt_least [OF k P0] by simp
  show ?thesis
  proof (rule that [OF first])
    show "slot days h m (at_hm (now + 86400 * int k) h m)" using Pk p(2) by (simp add: slot_at_hm P_def)
    show "now < at_hm (now + 86400 * int k) h m" using Pk by (simp add: P_def)
    fix t' assume "slot days h m t'" "now < t'"
    then obtain j where j: "0 \<le> j" "t' = at_hm (now + 86400 * j) h m" "weekday (now + 86400 * j) \<in> set days"
      by (rule slot_after)
    then have "P (nat j)" using \<open>now < t'\<close> by (simp add: P_def)
    then have "k \<le> nat j" using find_upt_least [OF k] by blast
    then show "at_hm (now + 86400 * int k) h m \<le> t'" using j by (simp add: at_hm_days)
  qed
qed

text \<open>A program the computation can handle: a valid time and a weekday.\<close>

definition sound_program :: "program \<Rightarrow> bool" where
  "sound_program p = (\<exists>h m. parse_hhmm (prog_time p) = Some (h, m) \<and> valid_hm h m
     \<and> (\<exists>x \<in> set (prog_days p). 0 \<le> x \<and> x < 7))"

definition program_slot :: "program \<Rightarrow> time \<Rightarrow> bool" where
  "program_slot p t = (\<exists>h m. parse_hhmm (prog_time p) = Some (h, m) \<and> slot (prog_days p) h m t)"

text \<open>\<open>t\<close> is when program \<open>p\<close> would start zone \<open>i\<close> in a run after \<open>now\<close>.\<close>

definition planned :: "'a db_scheme \<Rightarrow> program \<Rightarrow> int \<Rightarrow> time \<Rightarrow> time \<Rightarrow> bool" where
  "planned d p i now t = (i \<in> set (prog_zones p) \<and> (\<exists>t0 cum. program_slot p t0 \<and> now < t0
     \<and> minutes_before d i (sort (prog_zones p)) 0 = Inr (Some cum) \<and> t = t0 + minutes cum))"

lemma minutes_before_total:
  assumes "\<forall>j. get_zone_duration d j \<noteq> None" "i \<in> set js"
  shows "\<exists>c. minutes_before d i js cum = Inr (Some c)"
  using assms(2)
proof (induction js arbitrary: cum)
  case (Cons j js)
  obtain n where "get_zone_duration d j = Some n" using assms(1) by blast
  then show ?case using Cons by auto
qed simp

lemma program_candidate_planned:
  assumes "sound_program p" "\<forall>j. get_zone_duration d j \<noteq> None"
  shows "(i \<notin> set (prog_zones p) \<and> program_candidate d i now p = Inr None)
    \<or> (\<exists>t. program_candidate d i now p = Inr (Some t) \<and> planned d p i now t
         \<and> (\<forall>t'. planned d p i now t' \<longrightarrow> t \<le> t'))"
proof (cases "i \<in> set (prog_zones p)")
  case False
  then show ?thesis by (simp add: program_candidate_def)
next
  case True
  obtain h m where hm: "parse_hhmm (prog_time p) = Some (h, m)" "valid_hm h m" "\<exists>x \<in> set (prog_days p). 0 \<le> x \<and> x < 7"
    using assms(1) by (auto simp: sound_program_def)
  obtain t0 where t0: "first_start (prog_days p) (prog_time p) now 0 14 = Inr (Some t0)" "slot (prog_days p) h m t0"
      "now < t0" "\<And>t'. slot (prog_days p) h m t' \<Longrightarrow> now < t' \<Longrightarrow> t0 \<le> t'"
    using first_start_least [OF hm] by blast
  obtain c where c: "minutes_before d i (sort (prog_zones p)) 0 = Inr (Some c)"
    using minutes_before_total [OF assms(2), of i "sort (prog_zones p)"] True by auto
  have cand: "program_candidate d i now p = Inr (Some (t0 + minutes c))"
    using True t0(1) c by (simp add: program_candidate_def)
  moreover have "planned d p i now (t0 + minutes c)"
    using True t0(2,3) c hm(1) by (auto simp: planned_def program_slot_def)
  moreover have "t0 + minutes c \<le> t'" if "planned d p i now t'" for t'
    using that c hm(1) t0(4) by (auto simp: planned_def program_slot_def)
  ultimately show ?thesis by blast
qed

lemma best_candidate_spec:
  assumes "\<forall>p \<in> set ps. sound_program p" "\<forall>j. get_zone_duration d j \<noteq> None"
  shows "\<exists>r. best_candidate d i now ps best = Inr r
    \<and> (r = None \<longleftrightarrow> best = None \<and> (\<forall>p \<in> set ps. \<forall>t. \<not> planned d p i now t))
    \<and> (\<forall>t. r = Some t \<longrightarrow> (best = Some t \<or> (\<exists>p \<in> set ps. planned d p i now t))
         \<and> (\<forall>b. best = Some b \<longrightarrow> t \<le> b) \<and> (\<forall>p \<in> set ps. \<forall>t'. planned d p i now t' \<longrightarrow> t \<le> t'))"
  using assms(1)
proof (induction ps arbitrary: best)
  case (Cons p ps)
  consider (out) "i \<notin> set (prog_zones p)" "program_candidate d i now p = Inr None"
    | (cand) t where "program_candidate d i now p = Inr (Some t)" "planned d p i now t"
        "\<forall>t'. planned d p i now t' \<longrightarrow> t \<le> t'"
    using program_candidate_planned [of p d i now] Cons.prems assms(2) by auto
  then show ?case
  proof cases
    case out
    then have "\<not> planned d p i now t" for t by (simp add: planned_def)
    then show ?thesis using out Cons.IH [of best] Cons.prems by (simp add: min_opt_def)
  next
    case cand
    let ?b = "min_opt best (Some t)"
    have "?b \<noteq> None" "\<forall>b. ?b = Some b \<longrightarrow> b \<le> t \<and> (\<forall>b'. best = Some b' \<longrightarrow> b \<le> b') \<and> (b = t \<or> best = Some b)"
      by (auto simp: min_opt_def split: option.splits)
    moreover obtain r where r: "best_candidate d i now ps ?b = Inr r" "r \<noteq> None"
      "\<forall>u. r = Some u \<longrightarrow> (?b = Some u \<or> (\<exists>p \<in> set ps. planned d p i now u))
         \<and> (\<forall>b. ?b = Some b \<longrightarrow> u \<le> b) \<and> (\<forall>p \<in> set ps. \<forall>t'. planned d p i now t' \<longrightarrow> u \<le> t')"
      using Cons.IH [of ?b] Cons.prems calculation(1) by auto
    ultimately show ?thesis
      using cand by (auto simp del: best_candidate.simps simp: best_candidate.simps(2))
  qed
qed auto

text \<open>
  The next run is the earliest one.  When every program has a valid time and a weekday and no
  zone lacks a duration, the computation returns normally; it finds a time exactly when some
  program contains the zone, and that time is a start of a program after now (after the end of
  the zone's postponement, if that is later) plus the minutes of the zones before it, and no
  program would start the zone earlier.
\<close>

theorem next_run_earliest:
  assumes "get_zone d i = Some z" "\<forall>p \<in> set ps. sound_program p" "\<forall>j. get_zone_duration d j \<noteq> None"
  shows "\<exists>r. compute_next_run_for_zone d ps now i = Inr r
    \<and> (r = None \<longleftrightarrow> (\<forall>p \<in> set ps. \<forall>t. \<not> planned d p i (effective_now z now) t))
    \<and> (\<forall>t. r = Some t \<longrightarrow> (\<exists>p \<in> set ps. planned d p i (effective_now z now) t)
         \<and> (\<forall>p \<in> set ps. \<forall>t'. planned d p i (effective_now z now) t' \<longrightarrow> t \<le> t'))"
proof -
  obtain r where r: "best_candidate d i (effective_now z now) ps None = Inr r"
    "r = None \<longleftrightarrow> (\<forall>p \<in> set ps. \<forall>t. \<not> planned d p i (effective_now z now) t)"
    "\<forall>t. r = Some t \<longrightarrow> (\<exists>p \<in> set ps. planned d p i (effective_now z now) t)
       \<and> (\<forall>p \<in> set ps. \<forall>t'. planned d p i (effective_now z now) t' \<longrightarrow> t \<le> t')"
    using best_candidate_spec [OF assms(2,3), of i "effective_now z now" None] by auto
  show ?thesis
    by (rule exI [of _ r]) (use r assms(1) in \<open>simp add: compute_next_run_for_zone_def\<close>)
qed

lemma demo_sound: "sound_program (demo_program 1 ''06:00'' [0, 2] [1])"
proof -
  have "parse_hhmm ''06:00'' = Some (6, 0)" by code_simp
  then show ?thesis by (auto simp: sound_program_def valid_hm_def)
qed

theorem next_run_earliest_witness:
  "\<exists>t. compute_next_run_for_zone conflict_db [demo_program 1 ''06:00'' [0, 2] [1]] 21600 1 = Inr (Some t)
     \<and> planned conflict_db (demo_program 1 ''06:00'' [0, 2] [1]) 1 21600 t"
proof -
  let ?p = "demo_program 1 ''06:00'' [0, 2] [1]"
  have z: "get_zone conflict_db 1 = Some (new_zone 1 None (plain_req None))"
    by (simp add: get_zone_def conflict_db_def empty_db_def)
  have dur: "\<forall>j. get_zone_duration conflict_db j \<noteq> None"
    by (auto simp: get_zone_duration_def conflict_db_def empty_db_def new_zone_def)
  have now: "effective_now (new_zone 1 None (plain_req None)) 21600 = 21600"
    by (simp add: effective_now_def new_zone_def parse_dt_def)
  have "planned conflict_db ?p 1 21600 194400"
  proof -
    have "parse_hhmm ''06:00'' = Some (6, 0)" by code_simp
    moreover have "slot [0, 2] 6 0 194400" by (simp add: slot_def weekday_def day_of_def at_hm_def day_start_def)
    ultimately show ?thesis by (auto simp: planned_def program_slot_def minutes_def intro!: exI [of _ 194400])
  qed
  moreover obtain r where r: "compute_next_run_for_zone conflict_db [?p] 21600 1 = Inr r"
    "r = None \<longleftrightarrow> (\<forall>p \<in> set [?p]. \<forall>t. \<not> planned conflict_db p 1 21600 t)"
    "\<forall>t. r = Some t \<longrightarrow> (\<exists>p \<in> set [?p]. planned conflict_db p 1 21600 t)
       \<and> (\<forall>p \<in> set [?p]. \<forall>t'. planned conflict_db p 1 21600 t' \<longrightarrow> t \<le> t')"
    using next_run_earliest [OF z, of "[?p]" 21600] demo_sound dur unfolding now by auto
  ultimately show ?thesis by (cases r) auto
qed

end
