(* ===== verification/Scheduler.thy ===== *)
theory Scheduler
  imports Program_Laws Observed_State
begin

text \<open>
  The job side of \<open>src/irrigation_scheduler.py\<close>: planning a program's jobs, the automatic,
  watchdog and cap stops of zones, cancellation, recovery of missed runs and the boot clean-up.
  APScheduler is outside the repository: the model keeps its job table, a set of rows keyed by id
  (\<open>add_job\<close> replaces or, without \<open>replace_existing\<close>, refuses a known id; \<open>remove_job\<close> deletes),
  and takes \<open>accepts\<close>, which says whether constructing a trigger raises \<open>ValueError\<close>.  When a
  trigger fires is not modelled, its fields are.  Job ids are kept structured; their printed forms
  are prefix-free, so the code's \<open>startswith\<close> tests select by constructor.
\<close>

datatype stop_tag = Cmd string | Stamp time

text \<open>The suffix of a program job: \<open>main\<close> or \<open>extra:n\<close>.\<close>

datatype start_slot = Main_Time | Extra_Time nat

datatype job_id =
    J_program int start_slot "int option"
  | J_zone_stop int stop_tag
  | J_hard_stop int
  | J_zone_cap int
  | J_master_cap int
  | J_group_seq int time
  | J_recover int time

datatype callable =
    Run_Program int "int list" string
  | Stop_Zone int
  | Close_Master int
  | Run_Group_Sequence int "int list" "int option" "int option" bool

datatype trigger =
    Cron_Weekday int int int
  | Cron_Monthdays "int list" int int
  | Every_Days int time
  | At_Time time

datatype store = Default_Store | Volatile_Store

record job =
  j_id :: job_id
  j_call :: callable
  j_trigger :: trigger
  j_store :: store

text \<open>
  The scheduler object.  A cancel event (\<open>threading.Event\<close>) is a number, its flag is in \<open>event_set\<close>;
  the clock counts the seconds since the process started.
\<close>

record sched = world +
  jobs :: "job list"
  program_jobs :: "int \<Rightarrow> job_id list option"
  active_zones :: "int \<Rightarrow> time option"
  cancel_events :: "int \<Rightarrow> nat option"
  event_set :: "nat \<Rightarrow> bool"
  skip_events :: "int \<Rightarrow> bool option"
  next_event :: nat
  last_skip :: "int \<Rightarrow> rat"
  shutdown :: bool
  early_off :: int
  boot_now :: time
  boot_wall :: rat
  clk :: nat

definition now_of :: "'a sched_scheme \<Rightarrow> time" where "now_of s = boot_now s + int (clk s)"
definition mono_of :: "'a sched_scheme \<Rightarrow> rat" where "mono_of s = of_nat (clk s)"
definition wall_of :: "'a sched_scheme \<Rightarrow> rat" where "wall_of s = boot_wall s + of_nat (clk s)"

subsection \<open>The job table\<close>

definition has_job :: "job_id \<Rightarrow> 'a sched_scheme \<Rightarrow> bool" where
  "has_job i s = (i \<in> j_id ` set (jobs s))"

definition remove_job :: "job_id \<Rightarrow> 'a sched_scheme \<Rightarrow> 'a sched_scheme" where
  "remove_job i s = s\<lparr>jobs := filter (\<lambda>j. j_id j \<noteq> i) (jobs s)\<rparr>"

definition add_job :: "bool \<Rightarrow> job \<Rightarrow> 'a sched_scheme \<Rightarrow> bool \<times> 'a sched_scheme" where
  "add_job replace j s =
     (if \<not> replace \<and> has_job (j_id j) s then (False, s)
      else (True, s\<lparr>jobs := filter (\<lambda>k. j_id k \<noteq> j_id j) (jobs s) @ [j]\<rparr>))"

definition remove_jobs_where :: "(job_id \<Rightarrow> bool) \<Rightarrow> 'a sched_scheme \<Rightarrow> 'a sched_scheme" where
  "remove_jobs_where p s = s\<lparr>jobs := filter (\<lambda>j. \<not> p (j_id j)) (jobs s)\<rparr>"

subsection \<open>Programs\<close>

definition cancel_program :: "int \<Rightarrow> 'a sched_scheme \<Rightarrow> 'a sched_scheme" where
  "cancel_program pid s =
     (let ids = (case program_jobs s pid of None \<Rightarrow> [] | Some js \<Rightarrow> js);
          s1 = fold remove_job ids s
      in s1\<lparr>program_jobs := (program_jobs s1)(pid \<mapsto> [])\<rparr>)"

fun add_weekday_jobs ::
  "(trigger \<Rightarrow> bool) \<Rightarrow> program \<Rightarrow> start_slot \<Rightarrow> int \<Rightarrow> int \<Rightarrow> int list \<Rightarrow> job_id list \<Rightarrow> 'a sched_scheme
   \<Rightarrow> job_id list \<times> 'a sched_scheme" where
  "add_weekday_jobs accepts p suffix h m [] ids s = (ids, s)"
| "add_weekday_jobs accepts p suffix h m (d # ds) ids s =
     (if \<not> accepts (Cron_Weekday d h m) then (ids, s)
      else
        (let i = J_program (prog_id p) suffix (Some d);
             j = \<lparr>j_id = i, j_call = Run_Program (prog_id p) (sort (prog_zones p)) (prog_name p),
                  j_trigger = Cron_Weekday d h m, j_store = Default_Store\<rparr>
         in add_weekday_jobs accepts p suffix h m ds (ids @ [i]) (snd (add_job True j s))))"

definition even_days :: "int list" where "even_days = [2,4,6,8,10,12,14,16,18,20,22,24,26,28,30]"
definition odd_days :: "int list" where "odd_days = [1,3,5,7,9,11,13,15,17,19,21,23,25,27,29,31]"

definition first_interval_start :: "time \<Rightarrow> int \<Rightarrow> int \<Rightarrow> time" where
  "first_interval_start now h m = (if at_hm now h m \<le> now then at_hm now h m + 86400 else at_hm now h m)"

definition add_single_job ::
  "(trigger \<Rightarrow> bool) \<Rightarrow> program \<Rightarrow> start_slot \<Rightarrow> trigger \<Rightarrow> job_id list \<Rightarrow> 'a sched_scheme \<Rightarrow> job_id list \<times> 'a sched_scheme" where
  "add_single_job accepts p suffix trig ids s =
     (if \<not> accepts trig then (ids, s)
      else
        (let i = J_program (prog_id p) suffix None;
             j = \<lparr>j_id = i, j_call = Run_Program (prog_id p) (sort (prog_zones p)) (prog_name p),
                  j_trigger = trig, j_store = Default_Store\<rparr>
         in (ids @ [i], snd (add_job True j s))))"

definition schedule_single_time ::
  "(trigger \<Rightarrow> bool) \<Rightarrow> program \<Rightarrow> string \<Rightarrow> start_slot \<Rightarrow> job_id list \<Rightarrow> 'a sched_scheme \<Rightarrow> job_id list \<times> 'a sched_scheme" where
  "schedule_single_time accepts p tm suffix ids s =
     (case parse_hhmm tm of
        None \<Rightarrow> (ids, s)
      | Some (h, m) \<Rightarrow>
          (if schedule_type p = ''weekdays'' then add_weekday_jobs accepts p suffix h m (prog_days p) ids s
           else if schedule_type p = ''interval'' then
             (case interval_days p of
                None \<Rightarrow> (ids, s)
              | Some n \<Rightarrow>
                  (if \<not> valid_hm h m then (ids, s)
                   else add_single_job accepts p suffix (Every_Days n (first_interval_start (now_of s) h m)) ids s))
           else if schedule_type p = ''even-odd'' then
             add_single_job accepts p suffix
               (Cron_Monthdays (if even_odd p = Some ''even'' then even_days else odd_days) h m) ids s
           else (ids, s)))"

fun planned_starts :: "'a db_scheme \<Rightarrow> time \<Rightarrow> int list \<Rightarrow> int \<Rightarrow> (int \<times> time) list" where
  "planned_starts d start [] cum = []"
| "planned_starts d start (i # is) cum =
     (case get_zone d i of
        None \<Rightarrow> planned_starts d start is cum
      | Some z \<Rightarrow> (i, start + minutes cum) # planned_starts d start is (cum + int_or0 (duration z)))"

definition put_start :: "int \<times> time \<Rightarrow> 'a sched_scheme \<Rightarrow> 'a sched_scheme" where
  "put_start e s = update_zone (fst e) [U_sched (Some (snd e))] s"

fun schedule_extra_times ::
  "(trigger \<Rightarrow> bool) \<Rightarrow> program \<Rightarrow> nat \<Rightarrow> string list \<Rightarrow> job_id list \<Rightarrow> 'a sched_scheme \<Rightarrow> job_id list \<times> 'a sched_scheme" where
  "schedule_extra_times accepts p n [] ids s = (ids, s)"
| "schedule_extra_times accepts p n (t # ts) ids s =
     (case schedule_single_time accepts p t (Extra_Time n) ids s of
        (ids1, s1) \<Rightarrow> schedule_extra_times accepts p (n + 1) ts ids1 s1)"

text \<open>
  The early returns leave the old jobs alone; an invalid hour raises after the old jobs were
  cancelled, but only when some zone of the program exists.
\<close>

definition schedule_program :: "(trigger \<Rightarrow> bool) \<Rightarrow> program \<Rightarrow> 'a sched_scheme \<Rightarrow> 'a sched_scheme" where
  "schedule_program accepts p s =
     (if \<not> prog_enabled p then cancel_program (prog_id p) s
      else case parse_hhmm (prog_time p) of
             None \<Rightarrow> s
           | Some (h, m) \<Rightarrow>
               (let zs = sort (prog_zones p) in
                if zs = [] then s
                else if schedule_type p = ''weekdays'' \<and> prog_days p = [] then s
                else
                  (let s1 = cancel_program (prog_id p) s;
                       starts = planned_starts s1 (at_hm (now_of s1) h m) zs 0
                   in if starts \<noteq> [] \<and> \<not> valid_hm h m then s1
                      else
                        (let s2 = fold put_start starts s1;
                             main = schedule_single_time accepts p (prog_time p) Main_Time [] s2;
                             res = schedule_extra_times accepts p 0 (extra_times p) (fst main) (snd main);
                             s3 = snd res
                         in s3\<lparr>program_jobs := (program_jobs s3)(prog_id p \<mapsto> fst res)\<rparr>))))"

definition load_programs :: "(trigger \<Rightarrow> bool) \<Rightarrow> 'a sched_scheme \<Rightarrow> 'a sched_scheme" where
  "load_programs accepts s = fold (schedule_program accepts) (get_programs s) s"

subsection \<open>Stops\<close>

definition clamp_early :: "int \<Rightarrow> int" where
  "clamp_early e = (if e < 0 then 0 else if 15 < e then 15 else e)"

definition zone_stop_time :: "int \<Rightarrow> int \<Rightarrow> time \<Rightarrow> time" where
  "zone_stop_time early dur now =
     (let run_at = now + minutes dur - clamp_early early in if run_at \<le> now then now + 1 else run_at)"

definition schedule_zone_stop :: "int \<Rightarrow> int option \<Rightarrow> string option \<Rightarrow> 'a sched_scheme \<Rightarrow> 'a sched_scheme" where
  "schedule_zone_stop i dur cmd s =
     (case dur of
        None \<Rightarrow> s
      | Some n \<Rightarrow>
          (let run_at = zone_stop_time (early_off s) n (now_of s);
               tag = (case cmd of None \<Rightarrow> Stamp run_at | Some c \<Rightarrow> (if c = [] then Stamp run_at else Cmd c));
               res = add_job False \<lparr>j_id = J_zone_stop i tag, j_call = Stop_Zone i, j_trigger = At_Time run_at,
                                    j_store = Volatile_Store\<rparr> s
           in if fst res then (snd res)\<lparr>active_zones := (active_zones (snd res))(i \<mapsto> run_at)\<rparr> else s))"

definition schedule_zone_hard_stop :: "int \<Rightarrow> time \<Rightarrow> 'a sched_scheme \<Rightarrow> 'a sched_scheme" where
  "schedule_zone_hard_stop i run_at s =
     (let due = (if run_at \<le> now_of s then now_of s + 1 else run_at)
      in snd (add_job True \<lparr>j_id = J_hard_stop i, j_call = Stop_Zone i, j_trigger = At_Time due, j_store = Volatile_Store\<rparr> s))"

definition schedule_zone_cap :: "int \<Rightarrow> int \<Rightarrow> 'a sched_scheme \<Rightarrow> 'a sched_scheme" where
  "schedule_zone_cap i cap s =
     snd (add_job True \<lparr>j_id = J_zone_cap i, j_call = Stop_Zone i, j_trigger = At_Time (now_of s + minutes cap),
                        j_store = Volatile_Store\<rparr> s)"

definition cancel_zone_cap :: "int \<Rightarrow> 'a sched_scheme \<Rightarrow> 'a sched_scheme" where
  "cancel_zone_cap i s = remove_job (J_zone_cap i) s"

definition schedule_master_valve_cap :: "int \<Rightarrow> int \<Rightarrow> 'a sched_scheme \<Rightarrow> 'a sched_scheme" where
  "schedule_master_valve_cap g hours s =
     snd (add_job True \<lparr>j_id = J_master_cap g, j_call = Close_Master g, j_trigger = At_Time (now_of s + 3600 * hours),
                        j_store = Volatile_Store\<rparr> s)"

definition cancel_master_valve_cap :: "int \<Rightarrow> 'a sched_scheme \<Rightarrow> 'a sched_scheme" where
  "cancel_master_valve_cap g s = remove_job (J_master_cap g) s"

text \<open>\<open>cancel_zone_jobs\<close> removes the automatic and the watchdog stop, not the cap.\<close>

definition is_zone_stop_job :: "int \<Rightarrow> job_id \<Rightarrow> bool" where
  "is_zone_stop_job i j = (case j of J_zone_stop k t \<Rightarrow> k = i | J_hard_stop k \<Rightarrow> k = i | _ \<Rightarrow> False)"

definition cancel_zone_jobs :: "int \<Rightarrow> 'a sched_scheme \<Rightarrow> 'a sched_scheme" where
  "cancel_zone_jobs i s =
     (let s1 = remove_jobs_where (is_zone_stop_job i) s in s1\<lparr>active_zones := (active_zones s1)(i := None)\<rparr>)"

definition is_group_seq_job :: "int \<Rightarrow> job_id \<Rightarrow> bool" where
  "is_group_seq_job g j = (case j of J_group_seq k t \<Rightarrow> k = g | _ \<Rightarrow> False)"

text \<open>The automatic stop a job runs.\<close>

definition auto_stop_zone :: "int \<Rightarrow> 'a sched_scheme \<Rightarrow> 'a sched_scheme" where
  "auto_stop_zone i s =
     (let s1 = snd (stop_zone i ''auto_stop'' False False False (now_of s) (mono_of s) (wall_of s) s)
      in case get_zone s1 i of None \<Rightarrow> s1 | Some z \<Rightarrow> add_log ''zone_auto_stop'' [i] s1)"

text \<open>The job that closes a master valve by its cap, \<open>job_close_master_valve\<close>.\<close>

definition job_close_master_valve :: "int \<Rightarrow> 'a sched_scheme \<Rightarrow> 'a sched_scheme" where
  "job_close_master_valve g s =
     (case row_at gid (get_groups s) g of
        None \<Rightarrow> s
      | Some row \<Rightarrow>
          (if use_master_valve row \<noteq> 1 \<or> master_topic row = [] \<or> \<not> truthy_int (master_mqtt_server_id row) then s
           else case get_mqtt_server s (int_or0 (master_mqtt_server_id row)) of
                  None \<Rightarrow> s
                | Some srv \<Rightarrow> snd (publish_mqtt_value (server_id srv) (normalize_topic (master_topic row)) (close_value row) s)))"

subsection \<open>Sessions\<close>

definition is_group_session_active :: "'a sched_scheme \<Rightarrow> int \<Rightarrow> bool" where
  "is_group_session_active s g = (cancel_events s g \<noteq> None)"

datatype skip_result = Skip_ok | No_session | Debounced

definition request_skip_current_zone :: "int \<Rightarrow> 'a sched_scheme \<Rightarrow> skip_result \<times> 'a sched_scheme" where
  "request_skip_current_zone g s =
     (if \<not> is_group_session_active s g then (No_session, s)
      else if mono_of s - last_skip s g < 1 then (Debounced, s)
      else (Skip_ok, s\<lparr>last_skip := (last_skip s)(g := mono_of s), skip_events := (skip_events s)(g \<mapsto> True)\<rparr>))"

text \<open>The first component is an exception of the rescheduling, which no handler here catches.\<close>

definition cancel_group_jobs :: "int \<Rightarrow> bool \<Rightarrow> 'a sched_scheme \<Rightarrow> py_error option \<times> 'a sched_scheme" where
  "cancel_group_jobs g imm s =
     (let s1 = (case cancel_events s g of
                  None \<Rightarrow> s
                | Some e \<Rightarrow> s\<lparr>event_set := (event_set s)(e := True)\<rparr>);
          s2 = stop_all_in_group g ''group_cancel'' True imm False (now_of s1) (mono_of s1) (wall_of s1) s1;
          s3 = fold (\<lambda>z. cancel_zone_jobs (zid z)) (filter (\<lambda>z. group_id z = Some g) (get_zones s2)) s2;
          s4 = remove_jobs_where (is_group_seq_job g) s3
      in reschedule_group_to_next_program g (get_programs s4) (now_of s4) s4)"

subsection \<open>Postponements\<close>

definition postpone_expired :: "time \<Rightarrow> zone \<Rightarrow> bool" where
  "postpone_expired now z =
     (case postpone_until z of
        None \<Rightarrow> False
      | Some t \<Rightarrow> t \<noteq> [] \<and> (case parse_dt (Some t) of None \<Rightarrow> True | Some dt \<Rightarrow> dt \<le> now))"

definition clear_postpone :: "int \<Rightarrow> 'a sched_scheme \<Rightarrow> 'a sched_scheme" where
  "clear_postpone i s = add_log ''postpone_expired'' [i] (snd (update_zone_postpone i None None s))"

definition clear_expired_postpones :: "'a sched_scheme \<Rightarrow> 'a sched_scheme" where
  "clear_expired_postpones s = fold clear_postpone (map zid (filter (postpone_expired (now_of s)) (get_zones s))) s"

subsection \<open>Recovery and boot\<close>

text \<open>The index of the first zone not yet finished after \<open>elapsed\<close> minutes.\<close>

fun resume_index :: "int \<Rightarrow> int list \<Rightarrow> int \<Rightarrow> nat \<Rightarrow> nat \<Rightarrow> nat" where
  "resume_index elapsed [] cum idx start = start"
| "resume_index elapsed (d # ds) cum idx start =
     (if cum + d \<le> elapsed then resume_index elapsed ds (cum + d) (idx + 1) (idx + 1) else idx)"

text \<open>\<open>split(":", 1)\<close> leaves anything after the first colon to \<open>int\<close>.\<close>

definition split_once :: "char \<Rightarrow> string \<Rightarrow> string list" where
  "split_once c s = (let a = takeWhile (\<lambda>x. x \<noteq> c) s; r = dropWhile (\<lambda>x. x \<noteq> c) s in if r = [] then [a] else [a, tl r])"

definition parse_hhmm_once :: "string \<Rightarrow> (int \<times> int) option" where
  "parse_hhmm_once s =
     (case split_once (CHR '':'') s of
        [h, m] \<Rightarrow> (case (py_int h, py_int m) of (Some hh, Some mm) \<Rightarrow> Some (hh, mm) | _ \<Rightarrow> None)
      | _ \<Rightarrow> None)"

definition zone_on :: "'a db_scheme \<Rightarrow> int \<Rightarrow> bool" where
  "zone_on d i = (case row_at zid (get_zones d) i of None \<Rightarrow> False | Some z \<Rightarrow> zstate z = ''on'')"

text \<open>The zones a restart still owes a program, if any.\<close>

definition missed_zones :: "'a db_scheme \<Rightarrow> time \<Rightarrow> program \<Rightarrow> int list option" where
  "missed_zones d now p =
     (if weekday now \<notin> set (prog_days p) then None
      else case parse_hhmm_once (if prog_time p = [] then ''00:00'' else prog_time p) of
             None \<Rightarrow> None
           | Some (h, m) \<Rightarrow>
               (let start = at_hm now h m; zs = sort (prog_zones p);
                    durs = map (zone_dur (get_zones d)) zs;
                    k = resume_index ((now - start) div 60) durs 0 0 0
                in if \<not> valid_hm h m \<or> now < start \<or> zs = [] \<or> list_ex (zone_on d) zs
                      \<or> start + minutes (sum_list durs) \<le> now \<or> length zs \<le> k
                   then None else Some (drop k zs)))"

definition recover_program :: "program \<Rightarrow> 'a sched_scheme \<Rightarrow> 'a sched_scheme" where
  "recover_program p s =
     (case missed_zones s (now_of s) p of
        None \<Rightarrow> s
      | Some zs \<Rightarrow>
          snd (add_job False \<lparr>j_id = J_recover (prog_id p) (now_of s),
                 j_call = Run_Program (prog_id p) zs
                   ((if prog_name p = [] then ''program_'' @ str_int (prog_id p) else prog_name p) @ '' (recovered)''),
                 j_trigger = At_Time (now_of s), j_store = Volatile_Store\<rparr> s))"

definition recover_missed_runs :: "'a sched_scheme \<Rightarrow> 'a sched_scheme" where
  "recover_missed_runs s = fold recover_program (get_programs s) s"

definition cleanup_jobs_on_boot :: "'a sched_scheme \<Rightarrow> 'a sched_scheme" where
  "cleanup_jobs_on_boot s =
     remove_jobs_where (\<lambda>i. case i of J_zone_stop k t \<Rightarrow> True | J_group_seq g t \<Rightarrow> True | _ \<Rightarrow> False) s"

definition boot_active :: "zone \<Rightarrow> bool" where
  "boot_active z = (lower (zstate z) \<in> {''starting'', ''on'', ''stopping'', ''paused''})"

definition stop_on_boot_active_zones :: "'a sched_scheme \<Rightarrow> 'a sched_scheme" where
  "stop_on_boot_active_zones s =
     fold (\<lambda>i s. snd (stop_zone i ''recovery_boot'' True False False (now_of s) (mono_of s) (wall_of s) s))
       (map zid (filter boot_active (get_zones s))) s"

definition init_scheduler :: "(trigger \<Rightarrow> bool) \<Rightarrow> 'a sched_scheme \<Rightarrow> 'a sched_scheme" where
  "init_scheduler accepts s =
     stop_on_boot_active_zones (cleanup_jobs_on_boot (recover_missed_runs
       (load_programs accepts (clear_expired_postpones s))))"

end
