(* ===== verification/Scheduler_Laws.thy ===== *)
theory Scheduler_Laws
  imports Scheduler
begin

text \<open>
  What the scheduler guarantees: a program's jobs are exactly those of its plan and disappear with
  it, cancelling a group leaves nothing of it running or planned, recovery resumes at the first
  unfinished zone, and the boot sequence leaves no zone running.
\<close>

subsection \<open>The valve controller does not touch the scheduler\<close>

text \<open>The scheduler's own fields are what extends the world.\<close>

lemma db_more_world: "db.more w = db.more w' \<Longrightarrow> world.more w = world.more w'"
  by (cases w; cases w') simp

lemma sched_of_more:
  fixes s s' :: "'a sched_scheme"
  assumes "world.more s = world.more s'"
  shows "jobs s = jobs s'" "program_jobs s = program_jobs s'" "active_zones s = active_zones s'"
    "cancel_events s = cancel_events s'" "skip_events s = skip_events s'" "clk s = clk s'"
    "boot_now s = boot_now s'" "boot_wall s = boot_wall s'" "early_off s = early_off s'" "last_skip s = last_skip s'"
    "next_event s = next_event s'" "event_set s = event_set s'" "shutdown s = shutdown s'"
  using assms by (cases s; cases s'; simp)+

named_theorems keeps_sched \<open>the operation leaves the scheduler's fields alone\<close>

lemma more_send [keeps_sched]: "world.more (snd (send srv t v w)) = world.more w"
  by (simp add: send_def)

lemma more_publish [keeps_sched]: "world.more (snd (publish_mqtt_value srv t v w)) = world.more w"
  by (simp add: publish_mqtt_value_def Let_def keeps_sched)

lemma more_update_zone [keeps_sched]: "world.more (update_zone i us w) = world.more w"
  by (rule db_more_world) (simp add: frame_simps)

lemma more_uzs [keeps_sched]: "world.more (uzs i us r w) = world.more w"
proof -
  have "world.more (snd (update_zone_versioned i us w)) = world.more w"
    by (rule db_more_world) (simp add: frame_simps)
  then show ?thesis by (simp add: update_zone_state_def Let_def keeps_sched)
qed

lemma more_effects [keeps_sched]:
  "world.more (add_log ty is w) = world.more w" "world.more (emit_event wall ty i w) = world.more w"
  "world.more (verify_async i e w) = world.more w" "world.more (schedule_master_close g imm w) = world.more w"
  "world.more (set_observed g' st w) = world.more w"
  "world.more (snd (finish_zone_run r en m raw lt f st w)) = world.more w"
  by (simp_all add: add_log_def emit_event_def verify_async_def schedule_master_close_def Let_def set_observed_def
      update_group_fields_def finish_zone_run_def)

lemma more_finish_open_run [keeps_sched]: "world.more (snd (finish_open_run i g now mn wall w)) = world.more w"
  by (simp add: finish_open_run_def Let_def keeps_sched split: option.splits)

lemma more_water_stats [keeps_sched]: "world.more (water_stats i g since now mn wall w) = world.more w"
  by (simp add: water_stats_def store_stats_def Let_def keeps_sched)

lemma more_plan [keeps_sched]: "world.more (plan_master_close g imm skip w) = world.more w"
  by (simp add: plan_master_close_def keeps_sched split: option.splits)

lemma more_switch_off [keeps_sched]: "world.more (switch_off z imm skip w) = world.more w"
  by (simp add: switch_off_def keeps_sched split: option.splits)

lemma more_stop_zone [keeps_sched]:
  "world.more (snd (stop_zone i reason force imm skip now mn wall w)) = world.more w"
  by (simp add: stop_zone_def stop_already_off_def Let_def keeps_sched split: option.splits)

lemma more_fold:
  assumes "\<And>x w. world.more (f x w) = world.more w"
  shows "world.more (fold f xs w) = world.more w"
  by (induction xs arbitrary: w) (simp_all add: assms)

lemma more_stop_all [keeps_sched]: "world.more (stop_all_in_group g reason force imm skip now mn wall w) = world.more w"
  unfolding stop_all_in_group_def by (rule more_fold) (rule more_stop_zone)

lemma more_put_start [keeps_sched]: "world.more (put_start e w) = world.more w"
  by (simp add: put_start_def keeps_sched)

lemma more_scheduled_starts [keeps_sched]:
  "world.more (clear_group_scheduled_starts g w) = world.more w"
  "world.more (set_group_scheduled_starts g sched w) = world.more w"
proof -
  show "world.more (clear_group_scheduled_starts g w) = world.more w" by (simp add: clear_group_scheduled_starts_def)
  show "world.more (set_group_scheduled_starts g sched w) = world.more w"
    by (induction g sched w rule: set_group_scheduled_starts.induct) simp_all
qed

lemma more_reschedule [keeps_sched]: "world.more (snd (reschedule_group_to_next_program g ps now w)) = world.more w"
  by (simp add: reschedule_group_to_next_program_def keeps_sched split: sum.splits)

lemma more_postpone [keeps_sched]: "world.more (snd (update_zone_postpone i u r w)) = world.more w"
  by (simp add: update_zone_postpone_def put_zone_def)

subsection \<open>The job table\<close>

definition add_all :: "job list \<Rightarrow> 'a sched_scheme \<Rightarrow> 'a sched_scheme" where
  "add_all js s = fold (\<lambda>j s. snd (add_job True j s)) js s"

lemma add_all_simps [simp]:
  "add_all [] s = s" "add_all (j # js) s = add_all js (snd (add_job True j s))"
  "add_all (js @ ks) s = add_all ks (add_all js s)"
  by (simp_all add: add_all_def)

lemma add_job_replace: "snd (add_job True j s) = s\<lparr>jobs := filter (\<lambda>k. j_id k \<noteq> j_id j) (jobs s) @ [j]\<rparr>"
  by (simp add: add_job_def)

lemma add_all_fields [simp]:
  "world.truncate (add_all js s) = world.truncate s" "program_jobs (add_all js s) = program_jobs s"
  "active_zones (add_all js s) = active_zones s" "now_of (add_all js s) = now_of s"
  "zones (add_all js s) = zones s" "db_up (add_all js s) = db_up s"
  by (induction js arbitrary: s) (simp_all add: add_job_replace now_of_def world.defs)

lemma jobs_remove [simp]: "jobs (remove_job i s) = filter (\<lambda>j. j_id j \<noteq> i) (jobs s)"
  by (simp add: remove_job_def)

lemma jobs_fold_remove: "jobs (fold remove_job is s) = filter (\<lambda>j. j_id j \<notin> set is) (jobs s)"
  by (induction "is" arbitrary: s) (auto intro: filter_cong)

lemma distinct_ids_add: "distinct (map j_id (jobs s)) \<Longrightarrow> distinct (map j_id (jobs (snd (add_job b j s))))"
  by (auto simp: add_job_def has_job_def distinct_map_filter_key)

lemma distinct_ids_add_all: "distinct (map j_id (jobs s)) \<Longrightarrow> distinct (map j_id (jobs (add_all js s)))"
  by (induction js arbitrary: s) (simp_all add: distinct_ids_add)

text \<open>Planting a list of jobs: they all stand, unless two of them share an id.\<close>

lemma set_jobs_add_all:
  "inj_on j_id (set js) \<Longrightarrow> set (jobs (add_all js s)) = {j \<in> set (jobs s). j_id j \<notin> j_id ` set js} \<union> set js"
proof (induction js arbitrary: s)
  case (Cons j js)
  have inj: "inj_on j_id (set js)" using Cons.prems by simp
  have own: "k = j" if "k \<in> set js" "j_id k = j_id j" for k
    using Cons.prems that by (auto simp: inj_on_def)
  have "set (jobs (add_all js (snd (add_job True j s)))) =
      {k \<in> {k \<in> set (jobs s). j_id k \<noteq> j_id j} \<union> {j}. j_id k \<notin> j_id ` set js} \<union> set js"
    by (subst Cons.IH [OF inj]) (auto simp: add_job_replace)
  also have "\<dots> = {k \<in> set (jobs s). j_id k \<notin> j_id ` set (j # js)} \<union> set (j # js)"
    using own by (auto simp: image_iff)
  finally show ?case by simp
qed simp

lemma ids_add_all: "j_id ` set (jobs (add_all js s)) = j_id ` set (jobs s) \<union> j_id ` set js"
  by (induction js arbitrary: s) (auto simp: add_job_replace)

subsection \<open>The plan of a program\<close>

text \<open>The jobs one start time contributes, and those of the whole program.\<close>

definition run_job :: "program \<Rightarrow> start_slot \<Rightarrow> int option \<Rightarrow> trigger \<Rightarrow> job" where
  "run_job p sl d t = \<lparr>j_id = J_program (prog_id p) sl d,
     j_call = Run_Program (prog_id p) (sort (prog_zones p)) (prog_name p), j_trigger = t, j_store = Default_Store\<rparr>"

definition slot_triggers :: "(trigger \<Rightarrow> bool) \<Rightarrow> program \<Rightarrow> time \<Rightarrow> int \<Rightarrow> int \<Rightarrow> (int option \<times> trigger) list" where
  "slot_triggers accepts p now h m =
     (if schedule_type p = ''weekdays'' then
        map (\<lambda>d. (Some d, Cron_Weekday d h m)) (takeWhile (\<lambda>d. accepts (Cron_Weekday d h m)) (prog_days p))
      else filter (\<lambda>dt. accepts (snd dt))
       (if schedule_type p = ''interval'' then
          (case interval_days p of
             Some n \<Rightarrow> if valid_hm h m then [(None, Every_Days n (first_interval_start now h m))] else []
           | None \<Rightarrow> [])
        else if schedule_type p = ''even-odd'' then
          [(None, Cron_Monthdays (if even_odd p = Some ''even'' then even_days else odd_days) h m)]
        else []))"

definition slot_jobs :: "(trigger \<Rightarrow> bool) \<Rightarrow> program \<Rightarrow> time \<Rightarrow> string \<Rightarrow> start_slot \<Rightarrow> job list" where
  "slot_jobs accepts p now tm sl =
     (case parse_hhmm tm of None \<Rightarrow> []
      | Some (h, m) \<Rightarrow> map (\<lambda>dt. run_job p sl (fst dt) (snd dt)) (slot_triggers accepts p now h m))"

fun extra_jobs :: "(trigger \<Rightarrow> bool) \<Rightarrow> program \<Rightarrow> time \<Rightarrow> nat \<Rightarrow> string list \<Rightarrow> job list" where
  "extra_jobs accepts p now n [] = []"
| "extra_jobs accepts p now n (t # ts) = slot_jobs accepts p now t (Extra_Time n) @ extra_jobs accepts p now (n + 1) ts"

definition program_plan :: "(trigger \<Rightarrow> bool) \<Rightarrow> program \<Rightarrow> time \<Rightarrow> job list" where
  "program_plan accepts p now = slot_jobs accepts p now (prog_time p) Main_Time @ extra_jobs accepts p now 0 (extra_times p)"

lemma add_weekday_jobs_plan:
  "add_weekday_jobs accepts p sl h m ds ids s =
    (let js = map (\<lambda>d. run_job p sl (Some d) (Cron_Weekday d h m)) (takeWhile (\<lambda>d. accepts (Cron_Weekday d h m)) ds)
     in (ids @ map j_id js, add_all js s))"
  by (induction ds arbitrary: ids s) (simp_all add: run_job_def Let_def)

lemma schedule_single_time_plan:
  "schedule_single_time accepts p tm sl ids s =
    (ids @ map j_id (slot_jobs accepts p (now_of s) tm sl), add_all (slot_jobs accepts p (now_of s) tm sl) s)"
  by (cases "parse_hhmm tm")
    (auto simp: schedule_single_time_def slot_jobs_def slot_triggers_def add_weekday_jobs_plan Let_def comp_def
      add_single_job_def run_job_def split: option.splits)

lemma schedule_extra_times_plan:
  "schedule_extra_times accepts p n ts ids s =
    (ids @ map j_id (extra_jobs accepts p (now_of s) n ts), add_all (extra_jobs accepts p (now_of s) n ts) s)"
  by (induction ts arbitrary: n ids s) (simp_all add: schedule_single_time_plan)

definition job_owner :: "job_id \<Rightarrow> int option" where
  "job_owner i = (case i of J_program pid sl d \<Rightarrow> Some pid | _ \<Rightarrow> None)"

lemma job_owner_simps [simp]:
  "job_owner (J_program pid sl d) = Some pid" "job_owner (J_zone_stop i tg) = None" "job_owner (J_hard_stop i) = None"
  "job_owner (J_zone_cap i) = None" "job_owner (J_master_cap g) = None" "job_owner (J_group_seq g t) = None"
  "job_owner (J_recover pid t) = None"
  by (simp_all add: job_owner_def)

lemma run_job_simps [simp]: "j_id (run_job p sl d t) = J_program (prog_id p) sl d"
  by (simp add: run_job_def)

lemma plan_owner: "j \<in> set (program_plan accepts p now) \<Longrightarrow> job_owner (j_id j) = Some (prog_id p)"
proof -
  have slot: "list_all (\<lambda>j. job_owner (j_id j) = Some (prog_id p)) (slot_jobs accepts p now tm sl)" for tm sl
    by (cases "parse_hhmm tm") (auto simp: slot_jobs_def list_all_iff)
  have "list_all (\<lambda>j. job_owner (j_id j) = Some (prog_id p)) (extra_jobs accepts p now n ts)" for n ts
    by (induction ts arbitrary: n) (simp_all add: slot)
  then have "list_all (\<lambda>j. job_owner (j_id j) = Some (prog_id p)) (program_plan accepts p now)"
    using slot by (simp add: program_plan_def)
  then show "j \<in> set (program_plan accepts p now) \<Longrightarrow> job_owner (j_id j) = Some (prog_id p)"
    by (simp add: list_all_iff)
qed

subsection \<open>Planning a program\<close>

text \<open>Every program job is known to the scheduler object, and ids are unique.\<close>

definition tracked :: "'a sched_scheme \<Rightarrow> bool" where
  "tracked s = (distinct (map j_id (jobs s))
     \<and> (\<forall>j \<in> set (jobs s). \<forall>pid. job_owner (j_id j) = Some pid \<longrightarrow>
          (\<exists>ids. program_jobs s pid = Some ids \<and> j_id j \<in> set ids))
     \<and> (\<forall>pid ids. program_jobs s pid = Some ids \<longrightarrow> (\<forall>i \<in> set ids. job_owner i = Some pid)))"

definition plannable :: "program \<Rightarrow> bool" where
  "plannable p = (parse_hhmm (prog_time p) \<noteq> None \<and> prog_zones p \<noteq> []
     \<and> (schedule_type p = ''weekdays'' \<longrightarrow> prog_days p \<noteq> []))"

definition with_starts :: "program \<Rightarrow> int \<Rightarrow> int \<Rightarrow> 'a sched_scheme \<Rightarrow> 'a sched_scheme" where
  "with_starts p h m s = fold put_start (planned_starts s (at_hm (now_of s) h m) (sort (prog_zones p)) 0) s"

definition starts_ok :: "program \<Rightarrow> int \<Rightarrow> int \<Rightarrow> 'a sched_scheme \<Rightarrow> bool" where
  "starts_ok p h m s = (planned_starts s (at_hm (now_of s) h m) (sort (prog_zones p)) 0 = [] \<or> valid_hm h m)"

lemma more_with_starts [keeps_sched]: "world.more (with_starts p h m s) = world.more s"
  unfolding with_starts_def by (rule more_fold) (rule more_put_start)

lemma more_now_of: "world.more s = world.more s' \<Longrightarrow> now_of s = now_of s'"
  using sched_of_more(6,7) [of s s'] by (simp add: now_of_def)

lemma cancel_program_fields:
  "jobs (cancel_program pid s) = filter (\<lambda>j. j_id j \<notin> set (case program_jobs s pid of None \<Rightarrow> [] | Some ids \<Rightarrow> ids)) (jobs s)"
  "program_jobs (cancel_program pid s) = (program_jobs s)(pid \<mapsto> [])"
  "now_of (cancel_program pid s) = now_of s"
proof -
  have r: "program_jobs (fold remove_job is s) = program_jobs s \<and> now_of (fold remove_job is s) = now_of s" for "is"
    by (induction "is" arbitrary: s) (simp_all add: remove_job_def now_of_def)
  then show "jobs (cancel_program pid s) = filter (\<lambda>j. j_id j \<notin> set (case program_jobs s pid of None \<Rightarrow> [] | Some ids \<Rightarrow> ids)) (jobs s)"
    "program_jobs (cancel_program pid s) = (program_jobs s)(pid \<mapsto> [])"
    by (simp_all add: cancel_program_def Let_def jobs_fold_remove)
  have "now_of (t\<lparr>program_jobs := f\<rparr>) = now_of t" for t :: "'a sched_scheme" and f by (simp add: now_of_def)
  then show "now_of (cancel_program pid s) = now_of s"
    using r by (simp add: cancel_program_def Let_def)
qed

text \<open>The four ways a call can go.\<close>

lemma schedule_program_cases:
  obtains
    (disabled) "\<not> prog_enabled p" "schedule_program accepts p s = cancel_program (prog_id p) s"
  | (rejected) "prog_enabled p" "\<not> plannable p" "schedule_program accepts p s = s"
  | (bad_hour) h m where "prog_enabled p" "plannable p" "parse_hhmm (prog_time p) = Some (h, m)"
      "\<not> starts_ok p h m (cancel_program (prog_id p) s)" "schedule_program accepts p s = cancel_program (prog_id p) s"
  | (planned) h m where "prog_enabled p" "plannable p" "parse_hhmm (prog_time p) = Some (h, m)"
      "starts_ok p h m (cancel_program (prog_id p) s)"
      "schedule_program accepts p s =
        (let t = add_all (program_plan accepts p (now_of s)) (with_starts p h m (cancel_program (prog_id p) s))
         in t\<lparr>program_jobs := (program_jobs t)(prog_id p \<mapsto> map j_id (program_plan accepts p (now_of s)))\<rparr>)"
proof -
  have srt: "(sort (prog_zones p) = []) = (prog_zones p = [])"
    by (metis length_0_conv length_sort)
  show ?thesis
  proof (cases "prog_enabled p \<and> plannable p")
    case False
    then show ?thesis
      by (cases "prog_enabled p")
        (use disabled rejected in \<open>auto simp: schedule_program_def plannable_def srt Let_def split: option.splits\<close>)
  next
    case True
    then obtain h m where hm: "parse_hhmm (prog_time p) = Some (h, m)" by (auto simp: plannable_def)
    have now: "now_of (with_starts p h m (cancel_program (prog_id p) s)) = now_of s"
      by (simp only: more_now_of [OF more_with_starts] cancel_program_fields)
    note pl = schedule_single_time_plan [where s = "with_starts p h m (cancel_program (prog_id p) s)"]
    have "schedule_program accepts p s =
       (if \<not> starts_ok p h m (cancel_program (prog_id p) s) then cancel_program (prog_id p) s
        else (let t = add_all (program_plan accepts p (now_of s)) (with_starts p h m (cancel_program (prog_id p) s))
         in t\<lparr>program_jobs := (program_jobs t)(prog_id p \<mapsto> map j_id (program_plan accepts p (now_of s)))\<rparr>))"
      using True hm now
      by (auto simp: schedule_program_def plannable_def srt Let_def schedule_single_time_plan schedule_extra_times_plan
          program_plan_def starts_ok_def cancel_program_fields with_starts_def)
    with True hm bad_hour planned show ?thesis by (auto split: if_splits)
  qed
qed

lemma tracked_known:
  assumes "tracked s" "j \<in> set (jobs s)"
  shows "j_id j \<in> set (case program_jobs s pid of None \<Rightarrow> [] | Some ids \<Rightarrow> ids) \<longleftrightarrow> job_owner (j_id j) = Some pid"
  using assms by (cases "program_jobs s pid") (fastforce simp: tracked_def)+

lemma tracked_cancel:
  assumes "tracked s"
  shows "tracked (cancel_program pid s)"
    "{j \<in> set (jobs (cancel_program pid s)). job_owner (j_id j) = Some pid} = {}"
    "{j \<in> set (jobs (cancel_program pid s)). job_owner (j_id j) \<noteq> Some pid} = {j \<in> set (jobs s). job_owner (j_id j) \<noteq> Some pid}"
proof -
  have set_c: "set (jobs (cancel_program pid s)) = {j \<in> set (jobs s). job_owner (j_id j) \<noteq> Some pid}"
    using tracked_known [OF assms] by (auto simp: cancel_program_fields)
  then show "{j \<in> set (jobs (cancel_program pid s)). job_owner (j_id j) = Some pid} = {}"
    "{j \<in> set (jobs (cancel_program pid s)). job_owner (j_id j) \<noteq> Some pid} = {j \<in> set (jobs s). job_owner (j_id j) \<noteq> Some pid}"
    by blast+
  have "distinct (map j_id (jobs (cancel_program pid s)))"
    using assms by (simp add: cancel_program_fields distinct_map_filter_key tracked_def)
  then show "tracked (cancel_program pid s)"
    using assms unfolding tracked_def set_c by (auto simp: cancel_program_fields)
qed

lemma planned_fields:
  assumes "schedule_program accepts p s =
      (let t = add_all js (with_starts p h m (cancel_program (prog_id p) s))
       in t\<lparr>program_jobs := (program_jobs t)(prog_id p \<mapsto> ids)\<rparr>)"
  shows "jobs (schedule_program accepts p s) = jobs (add_all js (with_starts p h m (cancel_program (prog_id p) s)))"
    "jobs (with_starts p h m (cancel_program (prog_id p) s)) = jobs (cancel_program (prog_id p) s)"
    "program_jobs (schedule_program accepts p s) = (program_jobs s)(prog_id p \<mapsto> ids)"
  using assms sched_of_more [OF more_with_starts, of p h m "cancel_program (prog_id p) s"]
  by (simp_all add: Let_def cancel_program_fields)

lemma tracked_schedule_program:
  assumes "tracked s"
  shows "tracked (schedule_program accepts p s)"
proof (cases rule: schedule_program_cases [of p accepts s])
  case (planned h m)
  let ?js = "program_plan accepts p (now_of s)" and ?c = "cancel_program (prog_id p) s"
  note f = planned_fields [OF planned(5)]
  have c: "tracked ?c" "\<forall>j \<in> set (jobs ?c). job_owner (j_id j) \<noteq> Some (prog_id p)"
    using tracked_cancel [OF assms] by blast+
  have "distinct (map j_id (jobs (schedule_program accepts p s)))"
    using c(1) by (simp add: f(1) distinct_ids_add_all f(2) tracked_def)
  moreover have "\<exists>ids. program_jobs (schedule_program accepts p s) pid = Some ids \<and> j_id j \<in> set ids"
    if "j \<in> set (jobs (schedule_program accepts p s))" "job_owner (j_id j) = Some pid" for j pid
  proof -
    have "j_id j \<in> j_id ` set (jobs ?c) \<union> j_id ` set ?js"
      using that(1) by (simp add: f(1) ids_add_all flip: f(2))
        (metis (no_types) UnE f(2) ids_add_all image_eqI)
    then consider k where "k \<in> set (jobs ?c)" "j_id k = j_id j" | k where "k \<in> set ?js" "j_id k = j_id j"
      by auto
    then show ?thesis
    proof cases
      case 1
      then have "pid \<noteq> prog_id p" using c(2) that(2) by auto
      moreover have "\<exists>ids. program_jobs ?c pid = Some ids \<and> j_id j \<in> set ids"
        using c(1) 1 that(2) by (metis tracked_def)
      ultimately show ?thesis by (simp add: f(3) cancel_program_fields)
    next
      case 2
      have "pid = prog_id p" using plan_owner [OF 2(1)] 2(2) that(2) by simp
      moreover have "j_id j \<in> set (map j_id ?js)" using 2 by (metis image_eqI set_map)
      ultimately show ?thesis by (simp add: f(3))
    qed
  qed
  moreover have "job_owner i = Some pid" if "program_jobs (schedule_program accepts p s) pid = Some ids" "i \<in> set ids" for pid ids i
  proof (cases "pid = prog_id p")
    case True
    then show ?thesis using that plan_owner [of _ accepts p "now_of s"] by (auto simp: f(3))
  next
    case False
    then show ?thesis using that assms by (auto simp: f(3) tracked_def)
  qed
  ultimately show ?thesis by (auto simp: tracked_def)
qed (use assms tracked_cancel in auto)

subsection \<open>Reachable schedulers\<close>

text \<open>
  What runs against a scheduler: the calls of the web layer, the jobs that fire (a one-shot job
  leaves the table when it does), the valve controller and the database edits.
\<close>

inductive sched_step :: "'a sched_scheme \<Rightarrow> 'a sched_scheme \<Rightarrow> bool" where
  st_plan: "sched_step s (schedule_program accepts p s)"
| st_cancel: "sched_step s (cancel_program pid s)"
| st_load: "sched_step s (load_programs accepts s)"
| st_stop: "sched_step s (schedule_zone_stop i dur cmd s)"
| st_hard: "sched_step s (schedule_zone_hard_stop i t s)"
| st_cap: "sched_step s (schedule_zone_cap i n s)"
| st_no_cap: "sched_step s (cancel_zone_cap i s)"
| st_mcap: "sched_step s (schedule_master_valve_cap g n s)"
| st_no_mcap: "sched_step s (cancel_master_valve_cap g s)"
| st_cancel_zone: "sched_step s (cancel_zone_jobs i s)"
| st_cancel_group: "sched_step s (snd (cancel_group_jobs g imm s))"
| st_fired_stop: "sched_step s (auto_stop_zone i (remove_job j s))"
| st_fired_close: "sched_step s (job_close_master_valve g (remove_job j s))"
| st_skip: "sched_step s (snd (request_skip_current_zone g s))"
| st_postpones: "sched_step s (clear_expired_postpones s)"
| st_recover: "sched_step s (recover_missed_runs s)"
| st_clean: "sched_step s (cleanup_jobs_on_boot s)"
| st_boot_stop: "sched_step s (stop_on_boot_active_zones s)"
| st_world: "world.more s' = world.more s \<Longrightarrow> sched_step s s'"

inductive_cases sched_stepE: "sched_step s s'"

lemma tracked_more: "world.more s' = world.more s \<Longrightarrow> tracked s \<Longrightarrow> tracked s'"
  using sched_of_more(1,2) [of s' s] by (simp add: tracked_def)

lemma tracked_fields [simp]:
  "tracked (s\<lparr>active_zones := a\<rparr>) = tracked s" "tracked (s\<lparr>event_set := c\<rparr>) = tracked s"
  "tracked (s\<lparr>skip_events := k\<rparr>) = tracked s" "tracked (s\<lparr>last_skip := l\<rparr>) = tracked s"
  by (simp_all add: tracked_def)

lemma tracked_filter:
  assumes "tracked s" "jobs s' = filter P (jobs s)" "program_jobs s' = program_jobs s"
  shows "tracked s'"
  using assms by (simp add: tracked_def distinct_map_filter_key)

lemma tracked_add:
  assumes "tracked s" "job_owner (j_id j) = None"
  shows "tracked (snd (add_job b j s))"
proof -
  have "distinct (map j_id (jobs (snd (add_job b j s))))" using assms(1) by (simp add: tracked_def distinct_ids_add)
  moreover have "set (jobs (snd (add_job b j s))) \<subseteq> insert j (set (jobs s))"
    "program_jobs (snd (add_job b j s)) = program_jobs s"
    by (auto simp: add_job_def)
  moreover from this assms(2) have "k \<in> set (jobs s)"
    if "k \<in> set (jobs (snd (add_job b j s)))" "job_owner (j_id k) = Some pid" for k pid
    using that by auto
  ultimately show ?thesis using assms(1) unfolding tracked_def by metis
qed

lemma tracked_remove: "tracked s \<Longrightarrow> tracked (remove_job i s)"
  by (rule tracked_filter) (simp_all add: remove_job_def)

lemma tracked_remove_where: "tracked s \<Longrightarrow> tracked (remove_jobs_where P s)"
  by (rule tracked_filter) (simp_all add: remove_jobs_where_def)

lemma tracked_fold: "(\<And>x s. tracked s \<Longrightarrow> tracked (f x s)) \<Longrightarrow> tracked s \<Longrightarrow> tracked (fold f xs s)"
  by (induction xs arbitrary: s) simp_all

lemma tracked_cancel_zone_jobs: "tracked s \<Longrightarrow> tracked (cancel_zone_jobs i s)"
  by (simp add: cancel_zone_jobs_def Let_def tracked_remove_where)

lemma tracked_zone_stop: "tracked s \<Longrightarrow> tracked (schedule_zone_stop i dur cmd s)"
proof -
  assume s: "tracked s"
  have "tracked (snd (add_job False \<lparr>j_id = J_zone_stop i tag, j_call = Stop_Zone i, j_trigger = t, j_store = Volatile_Store\<rparr> s))"
    for tag t by (rule tracked_add [OF s]) simp
  with s show ?thesis
    by (simp add: schedule_zone_stop_def Let_def split: option.splits)
qed

lemma tracked_recover: "tracked s \<Longrightarrow> tracked (recover_program p s)"
  by (simp add: recover_program_def tracked_add split: option.splits)

lemma more_group_stop:
  "world.more (stop_all_in_group g ''group_cancel'' True imm False now mn wall s) = world.more s"
  by (rule more_stop_all)

lemma tracked_cancel_group: "tracked s \<Longrightarrow> tracked (snd (cancel_group_jobs g imm s))"
proof -
  assume s: "tracked s"
  let ?s1 = "case cancel_events s g of None \<Rightarrow> s | Some e \<Rightarrow> s\<lparr>event_set := (event_set s)(e := True)\<rparr>"
  have "tracked ?s1" using s by (simp split: option.splits prod.splits)
  then have "tracked (stop_all_in_group g ''group_cancel'' True imm False (now_of ?s1) (mono_of ?s1) (wall_of ?s1) ?s1)"
    by (rule tracked_more [OF more_stop_all])
  then show ?thesis
    unfolding cancel_group_jobs_def Let_def
    by (intro tracked_more [OF more_reschedule] tracked_remove_where tracked_fold) (auto intro: tracked_cancel_zone_jobs)
qed

lemma more_auto_stop: "world.more (auto_stop_zone i s) = world.more s"
  by (simp add: auto_stop_zone_def Let_def keeps_sched split: option.splits)

lemma more_close_master: "world.more (job_close_master_valve g s) = world.more s"
  by (simp add: job_close_master_valve_def Let_def keeps_sched split: option.splits)

lemma more_postpones: "world.more (clear_expired_postpones s) = world.more s"
  unfolding clear_expired_postpones_def by (rule more_fold) (simp add: clear_postpone_def keeps_sched)

lemma more_boot_stop: "world.more (stop_on_boot_active_zones s) = world.more s"
  unfolding stop_on_boot_active_zones_def by (rule more_fold) (simp add: keeps_sched)

lemma tracked_step: "sched_step s s' \<Longrightarrow> tracked s \<Longrightarrow> tracked s'"
proof (induction rule: sched_step.induct)
  case (st_load s accepts)
  then show ?case by (auto simp: load_programs_def intro: tracked_fold tracked_schedule_program)
next
  case (st_hard s i t)
  then show ?case by (simp add: schedule_zone_hard_stop_def Let_def tracked_add)
next
  case (st_recover s)
  then show ?case by (auto simp: recover_missed_runs_def intro: tracked_fold tracked_recover)
next
  case (st_skip s g)
  then show ?case by (simp add: request_skip_current_zone_def)
next
  case (st_fired_stop s i j)
  then show ?case by (intro tracked_more [OF more_auto_stop] tracked_remove)
next
  case (st_fired_close s g j)
  then show ?case by (intro tracked_more [OF more_close_master] tracked_remove)
next
  case (st_world s' s)
  then show ?case by (rule tracked_more)
qed (simp_all add: tracked_schedule_program tracked_cancel tracked_zone_stop tracked_remove tracked_cancel_zone_jobs
    tracked_cancel_group schedule_zone_cap_def schedule_master_valve_cap_def cancel_zone_cap_def
    cancel_master_valve_cap_def tracked_add cleanup_jobs_on_boot_def tracked_remove_where
    tracked_more [OF more_postpones] tracked_more [OF more_boot_stop])

lemma tracked_reachable: "sched_step\<^sup>*\<^sup>* s s' \<Longrightarrow> tracked s \<Longrightarrow> tracked s'"
  by (induction rule: rtranclp_induct) (simp_all add: tracked_step)

text \<open>The jobs of one program, and all the others.\<close>

definition own_jobs :: "int \<Rightarrow> 'a sched_scheme \<Rightarrow> job set" where
  "own_jobs pid s = {j \<in> set (jobs s). job_owner (j_id j) = Some pid}"

definition other_jobs :: "int \<Rightarrow> 'a sched_scheme \<Rightarrow> job set" where
  "other_jobs pid s = {j \<in> set (jobs s). job_owner (j_id j) \<noteq> Some pid}"

lemma cancel_own_jobs:
  assumes "tracked s"
  shows "own_jobs pid (cancel_program pid s) = {} \<and> other_jobs pid (cancel_program pid s) = other_jobs pid s"
  unfolding own_jobs_def other_jobs_def by (rule conjI [OF tracked_cancel(2,3) [OF assms]])

text \<open>A scheduler with an empty job table around a world.\<close>

definition fresh_sched :: "world \<Rightarrow> sched" where
  "fresh_sched w = world.extend w
     (sched.fields [] (\<lambda>_. None) (\<lambda>_. None) (\<lambda>_. None) (\<lambda>_. False) (\<lambda>_. None) 0 (\<lambda>_. 0) False 3 24000 0 0)"

lemma fresh_sched_simps [simp]:
  "jobs (fresh_sched w) = []" "program_jobs (fresh_sched w) = (\<lambda>_. None)" "active_zones (fresh_sched w) = (\<lambda>_. None)"
  "cancel_events (fresh_sched w) = (\<lambda>_. None)" "now_of (fresh_sched w) = 24000" "early_off (fresh_sched w) = 3"
  "zones (fresh_sched w) = zones w" "programs (fresh_sched w) = programs w" "db_up (fresh_sched w) = db_up w"
  "groups (fresh_sched w) = groups w" "servers (fresh_sched w) = servers w" "mono_of (fresh_sched w) = 0"
  "tracked (fresh_sched w)"
  by (simp_all add: fresh_sched_def world.defs sched.defs now_of_def mono_of_def tracked_def)

definition weekday_program :: program where
  "weekday_program =
     \<lparr>prog_id = 4, prog_name = ''p'', prog_time = ''06:30'', prog_days = [0, 2], prog_zones = [2, 1],
      prog_type = ''time-based'', schedule_type = ''weekdays'', interval_days = None, even_odd = None,
      prog_color = [], prog_enabled = True, extra_times = [''20:00'']\<rparr>"

subsection \<open>Exactly the planned jobs\<close>

definition slot_time :: "program \<Rightarrow> start_slot \<Rightarrow> string option" where
  "slot_time p sl = (case sl of Main_Time \<Rightarrow> Some (prog_time p)
     | Extra_Time n \<Rightarrow> if n < length (extra_times p) then Some (extra_times p ! n) else None)"

text \<open>The start jobs a weekday program should have.\<close>

definition weekday_jobs :: "program \<Rightarrow> job set" where
  "weekday_jobs p = {run_job p sl (Some d) (Cron_Weekday d h m) |sl tm h m d.
     slot_time p sl = Some tm \<and> parse_hhmm tm = Some (h, m) \<and> valid_hm h m \<and> d \<in> set (prog_days p)}"

text \<open>What APScheduler documents of its cron fields.\<close>

definition cron_accepts :: "(trigger \<Rightarrow> bool) \<Rightarrow> bool" where
  "cron_accepts accepts = (\<forall>d h m. accepts (Cron_Weekday d h m) = (0 \<le> d \<and> d \<le> 6 \<and> valid_hm h m))"

lemma slot_jobs_weekdays:
  assumes "schedule_type p = ''weekdays''" "set (prog_days p) \<subseteq> {0..6}" "cron_accepts accepts"
  shows "set (slot_jobs accepts p now tm sl) = {run_job p sl (Some d) (Cron_Weekday d h m) |h m d.
     parse_hhmm tm = Some (h, m) \<and> valid_hm h m \<and> d \<in> set (prog_days p)}"
proof (cases "parse_hhmm tm")
  case (Some hm)
  obtain h m where hm: "hm = (h, m)" by (cases hm)
  have "takeWhile (\<lambda>d. accepts (Cron_Weekday d h m)) (prog_days p) = (if valid_hm h m then prog_days p else [])"
  proof (cases "valid_hm h m")
    case True
    then show ?thesis using assms(2,3) by (auto simp: cron_accepts_def takeWhile_eq_all_conv)
  next
    case False
    then show ?thesis using assms(3) by (cases "prog_days p") (auto simp: cron_accepts_def)
  qed
  then show ?thesis using Some hm assms(1) by (auto simp: slot_jobs_def slot_triggers_def)
qed (simp add: slot_jobs_def)

lemma extra_jobs_weekdays:
  assumes "schedule_type p = ''weekdays''" "set (prog_days p) \<subseteq> {0..6}" "cron_accepts accepts"
  shows "set (extra_jobs accepts p now n ts) = {run_job p (Extra_Time (n + k)) (Some d) (Cron_Weekday d h m) |k h m d.
     k < length ts \<and> parse_hhmm (ts ! k) = Some (h, m) \<and> valid_hm h m \<and> d \<in> set (prog_days p)}"
proof (induction ts arbitrary: n)
  case (Cons t ts)
  show ?case (is "?L = ?R")
  proof
    show "?L \<subseteq> ?R"
      unfolding extra_jobs.simps set_append slot_jobs_weekdays [OF assms] Cons.IH
      by safe (force intro: exI [of _ 0], metis add_Suc_right add_Suc_shift Suc_eq_plus1 Suc_less_eq length_Cons nth_Cons_Suc)
    show "?R \<subseteq> ?L"
    proof
      fix x assume "x \<in> ?R"
      then obtain k h m d where x: "x = run_job p (Extra_Time (n + k)) (Some d) (Cron_Weekday d h m)"
        "k < length (t # ts)" "parse_hhmm ((t # ts) ! k) = Some (h, m)" "valid_hm h m" "d \<in> set (prog_days p)"
        by blast
      show "x \<in> ?L"
        unfolding extra_jobs.simps set_append slot_jobs_weekdays [OF assms] Cons.IH
        using x by (cases k) auto
    qed
  qed
qed simp

lemma plan_weekdays:
  assumes "schedule_type p = ''weekdays''" "set (prog_days p) \<subseteq> {0..6}" "cron_accepts accepts"
  shows "set (program_plan accepts p now) = weekday_jobs p"
proof
  note sets = program_plan_def set_append slot_jobs_weekdays [OF assms] extra_jobs_weekdays [OF assms]
  show "set (program_plan accepts p now) \<subseteq> weekday_jobs p"
  proof
    fix x assume "x \<in> set (program_plan accepts p now)"
    then consider h m d where "x = run_job p Main_Time (Some d) (Cron_Weekday d h m)"
        "parse_hhmm (prog_time p) = Some (h, m)" "valid_hm h m" "d \<in> set (prog_days p)"
      | k h m d where "x = run_job p (Extra_Time (0 + k)) (Some d) (Cron_Weekday d h m)" "k < length (extra_times p)"
        "parse_hhmm (extra_times p ! k) = Some (h, m)" "valid_hm h m" "d \<in> set (prog_days p)"
      unfolding sets by blast
    then show "x \<in> weekday_jobs p"
    proof cases
      case 1
      moreover have "slot_time p Main_Time = Some (prog_time p)" by (simp add: slot_time_def)
      ultimately show ?thesis unfolding weekday_jobs_def by blast
    next
      case 2
      then have "slot_time p (Extra_Time (0 + k)) = Some (extra_times p ! k)" by (simp add: slot_time_def)
      with 2 show ?thesis unfolding weekday_jobs_def by blast
    qed
  qed
  show "weekday_jobs p \<subseteq> set (program_plan accepts p now)"
  proof
    fix x assume "x \<in> weekday_jobs p"
    then obtain sl tm h m d where x: "x = run_job p sl (Some d) (Cron_Weekday d h m)" "slot_time p sl = Some tm"
      "parse_hhmm tm = Some (h, m)" "valid_hm h m" "d \<in> set (prog_days p)"
      unfolding weekday_jobs_def by blast
    show "x \<in> set (program_plan accepts p now)"
    proof (cases sl)
      case Main_Time
      then show ?thesis unfolding sets using x by (auto simp: slot_time_def)
    next
      case (Extra_Time n)
      then have "n < length (extra_times p)" "tm = extra_times p ! n"
        using x(2) by (auto simp: slot_time_def split: if_splits)
      then show ?thesis unfolding sets using x Extra_Time by force
    qed
  qed
qed

lemma weekday_jobs_inj: "inj_on j_id (weekday_jobs p)"
proof (rule inj_onI)
  fix x y assume "x \<in> weekday_jobs p" "y \<in> weekday_jobs p" and eq: "j_id x = j_id y"
  then obtain sl tm h m d sl' tm' h' m' d' where
    x: "x = run_job p sl (Some d) (Cron_Weekday d h m)" "slot_time p sl = Some tm" "parse_hhmm tm = Some (h, m)" and
    y: "y = run_job p sl' (Some d') (Cron_Weekday d' h' m')" "slot_time p sl' = Some tm'" "parse_hhmm tm' = Some (h', m')"
    unfolding weekday_jobs_def by blast
  have "sl = sl' \<and> d = d'" using eq x(1) y(1) by simp
  then have "h = h' \<and> m = m'" using x(2,3) y(2,3) by simp
  with \<open>sl = sl' \<and> d = d'\<close> show "x = y" using x(1) y(1) by simp
qed

lemma plan_replaces_jobs:
  assumes "tracked s" "cron_accepts accepts" "prog_enabled p" "schedule_type p = ''weekdays''"
    "prog_zones p \<noteq> []" "prog_days p \<noteq> []" "set (prog_days p) \<subseteq> {0..6}"
    "parse_hhmm (prog_time p) = Some (h, m)" "valid_hm h m"
  shows "own_jobs (prog_id p) (schedule_program accepts p s) = weekday_jobs p
    \<and> other_jobs (prog_id p) (schedule_program accepts p s) = other_jobs (prog_id p) s"
proof (cases rule: schedule_program_cases [of p accepts s])
  case (planned h' m')
  let ?js = "program_plan accepts p (now_of s)" and ?c = "cancel_program (prog_id p) s"
  note f = planned_fields [OF planned(5)]
  have plan: "set ?js = weekday_jobs p" using assms(4,7,2) by (rule plan_weekdays)
  have set_jobs: "set (jobs (schedule_program accepts p s)) = {j \<in> set (jobs ?c). j_id j \<notin> j_id ` set ?js} \<union> set ?js"
    unfolding f(1) using set_jobs_add_all [of ?js "with_starts p h' m' ?c"] weekday_jobs_inj [of p] by (simp add: plan f(2))
  have own: "job_owner (j_id j) = Some (prog_id p)" if "j \<in> set ?js" for j using that by (rule plan_owner)
  have c: "own_jobs (prog_id p) ?c = {}" "other_jobs (prog_id p) ?c = other_jobs (prog_id p) s"
    using cancel_own_jobs [OF assms(1)] by blast+
  have none: "job_owner (j_id j) \<noteq> Some (prog_id p)" if "j \<in> set (jobs ?c)" for j
    using c(1) that by (auto simp: own_jobs_def)
  have "own_jobs (prog_id p) (schedule_program accepts p s) = set ?js"
    using own none by (auto simp: own_jobs_def set_jobs)
  moreover have "other_jobs (prog_id p) (schedule_program accepts p s) = other_jobs (prog_id p) ?c"
    using own none by (force simp: other_jobs_def set_jobs)
  ultimately show ?thesis using plan c(2) by simp
qed (use assms in \<open>auto simp: plannable_def starts_ok_def\<close>)

text \<open>
  Planning is exact.  For a weekday program with a valid start time, the program's jobs are
  afterwards one for every day of the week it lists and every start time (the main one and each
  valid extra one), each running the program's zones in ascending order; nothing of an earlier
  plan is left and no other job is touched.
\<close>

theorem weekday_plan_exact:
  assumes "tracked s" "cron_accepts accepts" "prog_enabled p" "schedule_type p = ''weekdays''"
    "prog_zones p \<noteq> []" "prog_days p \<noteq> []" "set (prog_days p) \<subseteq> {0..6}"
    "parse_hhmm (prog_time p) = Some (h, m)" "valid_hm h m"
  shows "own_jobs (prog_id p) (schedule_program accepts p s) = weekday_jobs p
    \<and> other_jobs (prog_id p) (schedule_program accepts p s) = other_jobs (prog_id p) s"
  using assms by (rule plan_replaces_jobs)

theorem weekday_plan_exact_witness:
  "own_jobs 4 (schedule_program (\<lambda>t. case t of Cron_Weekday d h m \<Rightarrow> 0 \<le> d \<and> d \<le> 6 \<and> valid_hm h m | _ \<Rightarrow> False)
     weekday_program (fresh_sched demo_world)) = weekday_jobs weekday_program
   \<and> run_job weekday_program (Extra_Time 0) (Some 2) (Cron_Weekday 2 20 0) \<in> weekday_jobs weekday_program"
proof
  let ?a = "\<lambda>t. case t of Cron_Weekday d h m \<Rightarrow> 0 \<le> d \<and> d \<le> 6 \<and> valid_hm h m | _ \<Rightarrow> False"
  have time: "parse_hhmm ''06:30'' = Some (6, 30)" "parse_hhmm ''20:00'' = Some (20, 0)"
    by (simp_all add: parse_hhmm_def py_int_def strip_def is_ws_def nat_of_digits_def digit_val_def Let_def)
  have hm: "valid_hm 6 30" "valid_hm 20 0" by (simp_all add: valid_hm_def)
  have "cron_accepts ?a" by (simp add: cron_accepts_def)
  from weekday_plan_exact [OF _ this, of "fresh_sched demo_world" weekday_program 6 30]
  show "own_jobs 4 (schedule_program ?a weekday_program (fresh_sched demo_world)) = weekday_jobs weekday_program"
    by (simp add: weekday_program_def time hm)
  show "run_job weekday_program (Extra_Time 0) (Some 2) (Cron_Weekday 2 20 0) \<in> weekday_jobs weekday_program"
    using time hm unfolding weekday_jobs_def
    by (intro CollectI exI [of _ "Extra_Time 0"] exI [of _ "''20:00''"] exI [of _ 20] exI [of _ 0] exI [of _ 2])
      (simp add: slot_time_def weekday_program_def)
qed

text \<open>
  An edit that cannot be planned is ignored.  When an enabled program was edited so that its
  time does not parse, it has no zones or no days, planning it returns before the old jobs are
  cancelled: the program goes on starting at its old times with its old zones.
\<close>

theorem unplannable_edit_keeps_old_jobs:
  assumes "prog_enabled p" "prog_zones p = [] \<or> parse_hhmm (prog_time p) = None
    \<or> schedule_type p = ''weekdays'' \<and> prog_days p = []"
  shows "own_jobs (prog_id p) (schedule_program accepts p s) = own_jobs (prog_id p) s"
proof -
  have "\<not> plannable p" using assms(2) by (auto simp: plannable_def)
  then show ?thesis using assms(1) by (cases rule: schedule_program_cases [of p accepts s]) auto
qed

theorem unplannable_edit_keeps_old_jobs_witness:
  "let p = weekday_program\<lparr>prog_days := []\<rparr>; s = (fresh_sched demo_world)\<lparr>jobs := [run_job weekday_program Main_Time (Some 0) (Cron_Weekday 0 6 30)]\<rparr>
   in own_jobs 4 (schedule_program (\<lambda>_. True) p s) \<noteq> {}"
  using unplannable_edit_keeps_old_jobs [of "weekday_program\<lparr>prog_days := []\<rparr>" "\<lambda>_. True"
      "(fresh_sched demo_world)\<lparr>jobs := [run_job weekday_program Main_Time (Some 0) (Cron_Weekday 0 6 30)]\<rparr>"]
  by (simp add: weekday_program_def Let_def) (simp add: own_jobs_def)

end
