(* ===== verification/Session_Laws.thy ===== *)
theory Session_Laws
  imports Scheduler_Laws
begin

text \<open>
  Ending things: cancelling a group leaves nothing of it running or planned; after a restart,
  recovery resumes a program at its first unfinished zone and the boot sequence turns every zone
  off.
\<close>

subsection \<open>Writes that leave the zone states alone\<close>

lemma zstate_at_upd_rows:
  assumes "upd_state us = None"
  shows "zstate_at (d\<lparr>zones := upd_rows P (set_cols us) (zones d)\<rparr>) = zstate_at d"
proof
  fix j
  show "zstate_at (d\<lparr>zones := upd_rows P (set_cols us) (zones d)\<rparr>) j = zstate_at d j"
    using assms
    by (cases "row_at zid (zones d) j") (auto simp: zstate_at_def get_zone_def zcols.row_at_upd_rows zstate_set_cols)
qed

lemma zstate_at_clear_starts [simp]: "zstate_at (clear_group_scheduled_starts g d) = zstate_at d"
  by (simp add: clear_group_scheduled_starts_def zstate_at_upd_rows del: set_cols_simps)

lemma zstate_at_set_starts [simp]: "zstate_at (set_group_scheduled_starts g sched d) = zstate_at d"
  by (induction g sched d rule: set_group_scheduled_starts.induct)
    (simp_all add: zstate_at_upd_rows del: set_cols_simps)

lemma zstate_at_reschedule [simp]: "zstate_at (snd (reschedule_group_to_next_program g ps now d)) = zstate_at d"
  by (simp add: reschedule_group_to_next_program_def split: sum.splits)

lemma zstate_at_update_zone:
  "upd_state us = None \<Longrightarrow> zstate_at (update_zone i us d) = zstate_at d"
  by (rule ext) (auto simp: zstate_at_def get_zone_update_zone zstate_plain_write option.map_comp comp_def)

lemma zstate_at_put_start [simp]: "zstate_at (put_start e s) = zstate_at s"
  by (simp add: put_start_def zstate_at_update_zone)

lemma zstate_at_postpone [simp]: "zstate_at (snd (update_zone_postpone i u r d)) = zstate_at d"
  unfolding update_zone_postpone_def put_zone_def by (simp add: zstate_at_upd_rows del: set_cols_simps)

lemma zview_sched_fields [simp]:
  "zview (s\<lparr>jobs := js\<rparr>) = zview s" "zview (s\<lparr>program_jobs := ps\<rparr>) = zview s"
  "zview (s\<lparr>active_zones := a\<rparr>) = zview s" "zview (s\<lparr>cancel_events := c\<rparr>) = zview s" "zview (s\<lparr>event_set := f\<rparr>) = zview s"
  by (simp_all add: zview_def)

lemma zstate_at_fold:
  assumes "\<And>x s. zstate_at (f x s) = zstate_at s"
  shows "zstate_at (fold f xs s) = zstate_at s"
  by (induction xs arbitrary: s) (simp_all add: assms)

lemma zview_fold:
  assumes "\<And>x s. zview (f x s) = zview s"
  shows "zview (fold f xs s) = zview s"
  by (induction xs arbitrary: s) (simp_all add: assms)

lemma zview_jobs [simp]:
  "zview (remove_job i s) = zview s" "zview (remove_jobs_where P s) = zview s"
  "zview (snd (add_job b j s)) = zview s" "zview (cancel_zone_jobs k s) = zview s"
  by (simp_all add: remove_job_def remove_jobs_where_def add_job_def cancel_zone_jobs_def Let_def)

lemma zview_more_jobs [simp]:
  "zview (add_all js s) = zview s" "zview (cancel_program pid s) = zview s"
  "zview (recover_missed_runs s) = zview s" "zview (cleanup_jobs_on_boot s) = zview s"
proof -
  show "zview (add_all js s) = zview s" by (induction js arbitrary: s) simp_all
  show "zview (cancel_program pid s) = zview s" by (simp add: cancel_program_def Let_def zview_fold)
  show "zview (recover_missed_runs s) = zview s"
    unfolding recover_missed_runs_def by (rule zview_fold) (simp add: recover_program_def split: option.splits)
  show "zview (cleanup_jobs_on_boot s) = zview s" by (simp add: cleanup_jobs_on_boot_def)
qed

lemma zstate_at_schedule_program [simp]: "zstate_at (schedule_program accepts p s) = zstate_at s"
proof (cases rule: schedule_program_cases [of p accepts s])
  case (planned h m)
  have "zstate_at (with_starts p h m (cancel_program (prog_id p) s)) = zstate_at (cancel_program (prog_id p) s)"
    unfolding with_starts_def by (rule zstate_at_fold) simp
  moreover have "zview (schedule_program accepts p s) = zview (with_starts p h m (cancel_program (prog_id p) s))"
    by (simp add: planned(5) Let_def)
  ultimately show ?thesis by (metis zstate_at_cong zview_more_jobs(2))
qed (simp_all add: zstate_at_cong [OF zview_more_jobs(2)])

subsection \<open>Cancelling a group\<close>

lemma jobs_cancel_zone_jobs: "jobs (cancel_zone_jobs i s) = filter (\<lambda>j. \<not> is_zone_stop_job i (j_id j)) (jobs s)"
  by (simp add: cancel_zone_jobs_def remove_jobs_where_def Let_def)

lemma jobs_fold_cancel:
  "jobs (fold (\<lambda>z. cancel_zone_jobs (zid z)) zs s)
     = filter (\<lambda>j. \<forall>z \<in> set zs. \<not> is_zone_stop_job (zid z) (j_id j)) (jobs s)"
  by (induction zs arbitrary: s) (auto simp: jobs_cancel_zone_jobs intro: filter_cong)

lemma fold_cancel_fields:
  "active_zones (fold (\<lambda>z. cancel_zone_jobs (zid z)) zs s) i = (if i \<in> zid ` set zs then None else active_zones s i)"
  "cancel_events (fold (\<lambda>z. cancel_zone_jobs (zid z)) zs s) = cancel_events s"
  "event_set (fold (\<lambda>z. cancel_zone_jobs (zid z)) zs s) = event_set s"
  "zview (fold (\<lambda>z. cancel_zone_jobs (zid z)) zs s) = zview s"
  by (induction zs arbitrary: s) (auto simp: cancel_zone_jobs_def remove_jobs_where_def Let_def)

definition set_cancelled :: "int \<Rightarrow> 'a sched_scheme \<Rightarrow> 'a sched_scheme" where
  "set_cancelled g s = (case cancel_events s g of None \<Rightarrow> s
     | Some e \<Rightarrow> s\<lparr>event_set := (event_set s)(e := True)\<rparr>)"

lemma set_cancelled_simps [simp]:
  "zview (set_cancelled g s) = zview s" "zgroups (set_cancelled g s) = zgroups s"
  "jobs (set_cancelled g s) = jobs s" "now_of (set_cancelled g s) = now_of s"
  "cancel_events (set_cancelled g s) = cancel_events s"
  "cancel_events s g = Some e \<Longrightarrow> event_set (set_cancelled g s) e"
  by (auto simp: set_cancelled_def zgroups_def now_of_def split: option.splits)

lemma set_cancelled_more: "sched.more (set_cancelled g s) = sched.more s"
  by (simp add: set_cancelled_def split: option.splits)

definition group_stopped :: "int \<Rightarrow> bool \<Rightarrow> 'a sched_scheme \<Rightarrow> 'a sched_scheme" where
  "group_stopped g imm s = stop_all_in_group g ''group_cancel'' True imm False (now_of s) (mono_of s) (wall_of s) s"

lemma events_group_stopped [simp]:
  "cancel_events (group_stopped g imm s) = cancel_events s" "event_set (group_stopped g imm s) = event_set s"
  unfolding group_stopped_def by (rule sched_of_more [OF more_stop_all])+

lemma cancel_group_jobs_eq:
  "cancel_group_jobs g imm s =
    (let t = group_stopped g imm (set_cancelled g s);
         u = remove_jobs_where (is_group_seq_job g)
               (fold (\<lambda>z. cancel_zone_jobs (zid z)) (filter (\<lambda>z. group_id z = Some g) (get_zones t)) t)
     in reschedule_group_to_next_program g (get_programs u) (now_of u) u)"
  by (simp add: cancel_group_jobs_def group_stopped_def set_cancelled_def Let_def)

lemma get_zones_group: "filter (\<lambda>z. group_id z = Some g) (get_zones d) = get_zones_by_group d g"
  by (simp add: get_zones_def get_zones_by_group_def)

text \<open>What cancelling a group does to each part of the state.\<close>

lemma zgroups_upd_rows:
  "list_all keeps_group us \<Longrightarrow> zgroups (d\<lparr>zones := upd_rows P (set_cols us) (zones d)\<rparr>) = zgroups d"
  using group_id_set_cols [of us] by (auto simp: zgroups_def upd_rows_def simp del: set_cols_simps)

lemma zgroups_scheduled_starts [simp]:
  "zgroups (clear_group_scheduled_starts g d) = zgroups d" "zgroups (set_group_scheduled_starts g sched d) = zgroups d"
proof -
  show "zgroups (clear_group_scheduled_starts g d) = zgroups d"
    by (simp add: clear_group_scheduled_starts_def zgroups_upd_rows del: set_cols_simps)
  show "zgroups (set_group_scheduled_starts g sched d) = zgroups d"
    by (induction g sched d rule: set_group_scheduled_starts.induct) (simp_all add: zgroups_upd_rows del: set_cols_simps)
qed

lemma zgroups_reschedule [simp]: "zgroups (snd (reschedule_group_to_next_program g ps now d)) = zgroups d"
  by (simp add: reschedule_group_to_next_program_def split: sum.splits)

definition group_cleared :: "int \<Rightarrow> bool \<Rightarrow> 'a sched_scheme \<Rightarrow> 'a sched_scheme" where
  "group_cleared g imm s =
     (let t = group_stopped g imm (set_cancelled g s)
      in remove_jobs_where (is_group_seq_job g) (fold (\<lambda>z. cancel_zone_jobs (zid z)) (get_zones_by_group t g) t))"

lemma cancel_group_cleared:
  "cancel_group_jobs g imm s =
     (let u = group_cleared g imm s in reschedule_group_to_next_program g (get_programs u) (now_of u) u)"
  by (simp add: cancel_group_jobs_eq get_zones_group group_cleared_def Let_def)

lemma zgroups_job_table [simp]:
  "zgroups (remove_jobs_where P s) = zgroups s" "zgroups (cancel_zone_jobs i s) = zgroups s"
  by (simp_all add: remove_jobs_where_def cancel_zone_jobs_def zgroups_def Let_def)

lemma zgroups_fold_cancel [simp]: "zgroups (fold (\<lambda>z. cancel_zone_jobs (zid z)) zs s) = zgroups s"
  by (induction zs arbitrary: s) simp_all

lemma zgroups_cleared [simp]: "zgroups (group_cleared g imm s) = zgroups s"
  by (simp add: group_cleared_def group_stopped_def Let_def)

lemma zgroups_cancel_group [simp]: "zgroups (snd (cancel_group_jobs g imm s)) = zgroups s"
  by (simp add: cancel_group_cleared Let_def)

lemma zstate_at_cancel_group:
  "zstate_at (snd (cancel_group_jobs g imm s)) j =
     (if j \<in> group_members s g then map_option (\<lambda>_. ''off'') (zstate_at s j) else zstate_at s j)"
proof -
  let ?t = "group_stopped g imm (set_cancelled g s)"
  have "zstate_at (group_cleared g imm s) = zstate_at ?t"
    by (rule zstate_at_cong) (simp add: group_cleared_def fold_cancel_fields Let_def)
  moreover have "group_members (set_cancelled g s) = group_members s" by (rule group_members_cong) simp
  ultimately show ?thesis
    by (simp add: cancel_group_cleared Let_def group_stopped_def zstate_at_forced_group group_members_eq
        zstate_at_cong [OF set_cancelled_simps(1)])
qed

lemma cancel_group_sched:
  fixes s :: "'a sched_scheme"
  assumes s': "s' = snd (cancel_group_jobs g imm s)"
  shows "jobs s' = filter (\<lambda>j. (\<forall>i \<in> group_members s g. \<not> is_zone_stop_job i (j_id j)) \<and> \<not> is_group_seq_job g (j_id j)) (jobs s)"
    "active_zones s' i = (if i \<in> group_members s g then None else active_zones s i)"
    "cancel_events s' = cancel_events s"
    "event_set s' = (case cancel_events s g of None \<Rightarrow> event_set s | Some e \<Rightarrow> (event_set s)(e := True))"
    "sched.more s' = sched.more s"
proof -
  let ?t = "group_stopped g imm (set_cancelled g s)" and ?u = "group_cleared g imm s"
  let ?zs = "get_zones_by_group ?t g"
  have more: "world.more s' = world.more ?u" by (simp add: s' cancel_group_cleared Let_def keeps_sched)
  have "zgroups ?t = zgroups s" by (simp add: group_stopped_def)
  then have ids: "zid ` set ?zs = group_members s g" by (simp add: group_members_eq group_members_cong [of ?t s])
  have sc: "world.more ?t = world.more (set_cancelled g s)" by (simp add: group_stopped_def keeps_sched)
  have base: "jobs ?t = jobs s" "active_zones ?t = active_zones s" "cancel_events ?t = cancel_events s"
    "event_set ?t = event_set (set_cancelled g s)"
    using sched_of_more [OF sc] by (simp_all add: set_cancelled_def split: option.splits)
  have all: "(\<forall>z \<in> set ?zs. \<not> is_zone_stop_job (zid z) k) = (\<forall>i \<in> group_members s g. \<not> is_zone_stop_job i k)" for k
    unfolding ids [symmetric] by blast
  show "jobs s' = filter (\<lambda>j. (\<forall>i \<in> group_members s g. \<not> is_zone_stop_job i (j_id j)) \<and> \<not> is_group_seq_job g (j_id j)) (jobs s)"
    using sched_of_more(1) [OF more]
    by (simp add: group_cleared_def Let_def remove_jobs_where_def jobs_fold_cancel base all filter_filter conj_commute)
  show "active_zones s' i = (if i \<in> group_members s g then None else active_zones s i)"
    using sched_of_more(3) [OF more] by (simp add: group_cleared_def Let_def remove_jobs_where_def fold_cancel_fields base ids)
  show "cancel_events s' = cancel_events s"
    using sched_of_more(4) [OF more] by (simp add: group_cleared_def Let_def remove_jobs_where_def fold_cancel_fields base)
  show "event_set s' = (case cancel_events s g of None \<Rightarrow> event_set s | Some e \<Rightarrow> (event_set s)(e := True))"
    using sched_of_more(12) [OF more]
    by (simp add: group_cleared_def Let_def remove_jobs_where_def fold_cancel_fields base set_cancelled_def split: option.splits)
  have "sched.more ?u = sched.more ?t"
  proof -
    have "sched.more (fold (\<lambda>z. cancel_zone_jobs (zid z)) zs r) = sched.more r" for zs and r :: "'a sched_scheme"
      by (induction zs arbitrary: r) (simp_all add: cancel_zone_jobs_def remove_jobs_where_def Let_def)
    then show ?thesis by (simp add: group_cleared_def Let_def remove_jobs_where_def)
  qed
  moreover have "world.more r = world.more r' \<Longrightarrow> sched.more r = sched.more r'" for r r' :: "'a sched_scheme"
    by (cases r; cases r') simp
  ultimately show "sched.more s' = sched.more s"
    using more sc by (metis set_cancelled_more)
qed

lemma cancel_group_clock:
  fixes s :: "'a sched_scheme"
  shows "now_of (snd (cancel_group_jobs g imm s)) = now_of s" "early_off (snd (cancel_group_jobs g imm s)) = early_off s"
    "wall_of (snd (cancel_group_jobs g imm s)) = wall_of s"
proof -
  let ?u = "group_cleared g imm s" and ?t = "group_stopped g imm (set_cancelled g s)"
  have "world.more (snd (cancel_group_jobs g imm s)) = world.more ?u" by (simp add: cancel_group_cleared Let_def keeps_sched)
  note a = sched_of_more(6-9) [OF this]
  have "world.more ?t = world.more (set_cancelled g s)" by (simp add: group_stopped_def keeps_sched)
  note b = sched_of_more(6-9) [OF this]
  have c: "clk (fold (\<lambda>z. cancel_zone_jobs (zid z)) zs r) = clk r" "boot_now (fold (\<lambda>z. cancel_zone_jobs (zid z)) zs r) = boot_now r"
    "boot_wall (fold (\<lambda>z. cancel_zone_jobs (zid z)) zs r) = boot_wall r" "early_off (fold (\<lambda>z. cancel_zone_jobs (zid z)) zs r) = early_off r"
    for zs and r :: "'a sched_scheme"
    by (induction zs arbitrary: r) (simp_all add: cancel_zone_jobs_def remove_jobs_where_def Let_def)
  have d: "clk (set_cancelled g s) = clk s" "boot_now (set_cancelled g s) = boot_now s" "boot_wall (set_cancelled g s) = boot_wall s"
    "early_off (set_cancelled g s) = early_off s"
    by (simp_all add: set_cancelled_def split: option.splits)
  show "now_of (snd (cancel_group_jobs g imm s)) = now_of s" "early_off (snd (cancel_group_jobs g imm s)) = early_off s"
    "wall_of (snd (cancel_group_jobs g imm s)) = wall_of s"
    unfolding now_of_def wall_of_def a by (simp_all add: group_cleared_def Let_def remove_jobs_where_def c b d)
qed

text \<open>
  Cancelling a group ends all of it, at once.  Afterwards every zone of the group is off, none
  has an automatic or watchdog stop planned or is listed as active, no sequence of the group waits
  to start, and the running session, if there is one, sees its cancel flag set.
\<close>

theorem cancel_group_ends_everything:
  assumes "z \<in> set (get_zones_by_group s g)" "wf_zones s"
  shows "let s' = snd (cancel_group_jobs g imm s) in
    zstate_at s' (zid z) = Some ''off''
    \<and> filter (\<lambda>j. is_zone_stop_job (zid z) (j_id j) \<or> is_group_seq_job g (j_id j)) (jobs s') = []
    \<and> active_zones s' (zid z) = None
    \<and> cancel_events s' g = cancel_events s g
    \<and> (\<forall>e. cancel_events s g = Some e \<longrightarrow> event_set s' e)"
proof -
  have "zid z \<in> group_members s g" using assms(1) by (auto simp: group_members_eq [symmetric])
  moreover have "zstate_at s (zid z) = Some (zstate z)" by (rule active_member(1) [OF assms])
  ultimately show ?thesis
    by (auto simp: zstate_at_cancel_group cancel_group_sched [OF refl] Let_def filter_empty_conv)
qed

definition busy_sched :: sched where
  "busy_sched = (fresh_sched demo_world)
     \<lparr>jobs := [\<lparr>j_id = J_zone_stop 1 (Stamp 9), j_call = Stop_Zone 1, j_trigger = At_Time 9, j_store = Volatile_Store\<rparr>],
      cancel_events := [1 \<mapsto> 0]\<rparr>"

theorem cancel_group_ends_everything_witness:
  "zstate_at (snd (cancel_group_jobs 1 False busy_sched)) 1 = Some ''off''
   \<and> event_set (snd (cancel_group_jobs 1 False busy_sched)) 0"
  using cancel_group_ends_everything [of "demo_zone 1 ''on''" busy_sched 1 False]
  by (simp add: Let_def) (simp add: busy_sched_def get_zones_by_group_def wf_zones_def)

subsection \<open>Recovery\<close>

lemma resume_index_bounds:
  assumes "resume_index e ds c i i = k" "list_all (\<lambda>d. 0 \<le> d) ds"
  shows "i \<le> k \<and> k \<le> i + length ds \<and> (i < k \<longrightarrow> c + sum_list (take (k - i) ds) \<le> e)
    \<and> (k < i + length ds \<longrightarrow> e < c + sum_list (take (Suc (k - i)) ds))"
  using assms
proof (induction ds arbitrary: c i)
  case (Cons d ds)
  show ?case
  proof (cases "c + d \<le> e")
    case True
    then have k: "resume_index e ds (c + d) (i + 1) (i + 1) = k" using Cons.prems(1) by simp
    have IH: "i + 1 \<le> k" "k \<le> i + 1 + length ds"
      "i + 1 < k \<longrightarrow> c + d + sum_list (take (k - (i + 1)) ds) \<le> e"
      "k < i + 1 + length ds \<longrightarrow> e < c + d + sum_list (take (Suc (k - (i + 1))) ds)"
      using Cons.IH [OF k] Cons.prems(2) by auto
    have sp: "k - i = Suc (k - (i + 1))" using IH(1) by simp
    show ?thesis
      using IH True unfolding sp by (cases "i + 1 < k") auto
  next
    case False
    then show ?thesis using Cons.prems by auto
  qed
qed simp

text \<open>
  Recovery resumes where the program was.  The zones a restart starts are the tail of the
  program's zones from the first one that is not finished: the minutes elapsed since today's start
  cover every zone before it and do not cover it too.
\<close>

theorem recovery_resumes_first_unfinished:
  assumes "missed_zones d now p = Some zs" "\<forall>i \<in> set (prog_zones p). 0 \<le> zone_dur (get_zones d) i"
    "parse_hhmm_once (if prog_time p = [] then ''00:00'' else prog_time p) = Some (h, m)"
  shows "\<exists>k. zs = drop k (sort (prog_zones p)) \<and> zs \<noteq> []
    \<and> total_dur (get_zones d) (take k (sort (prog_zones p))) \<le> (now - at_hm now h m) div 60
    \<and> (now - at_hm now h m) div 60 < total_dur (get_zones d) (take (Suc k) (sort (prog_zones p)))"
proof -
  let ?s = "sort (prog_zones p)" and ?e = "(now - at_hm now h m) div 60"
  let ?ds = "map (zone_dur (get_zones d)) ?s"
  define k where "k = resume_index ?e ?ds 0 0 0"
  have mz: "at_hm now h m \<le> now" "k < length ?s" "zs = drop k ?s"
    using assms(1,3) by (auto simp: missed_zones_def k_def Let_def split: if_splits)
  have nonneg: "list_all (\<lambda>d. 0 \<le> d) ?ds" using assms(2) by (auto simp: list_all_iff)
  note b = resume_index_bounds [OF k_def [symmetric] nonneg]
  have e0: "0 \<le> ?e" using mz(1) by (simp add: pos_imp_zdiv_nonneg_iff)
  have lo: "total_dur (get_zones d) (take k ?s) \<le> ?e"
    using b e0 by (cases "k = 0") (auto simp: total_dur_def take_map)
  have hi: "?e < total_dur (get_zones d) (take (Suc k) ?s)"
    using b mz(2) by (auto simp: total_dur_def take_map)
  show ?thesis using mz(2,3) lo hi by (intro exI [of _ k]) auto
qed

definition restart_program :: program where
  "restart_program = weekday_program\<lparr>prog_days := [0, 1, 2, 3, 4, 5, 6]\<rparr>"

definition idle_world :: world where
  "idle_world = boot_world [demo_zone 1 ''off'', demo_zone 2 ''off''] [] []"

theorem recovery_resumes_first_unfinished_witness:
  "missed_zones idle_world (23400 + 1080) restart_program = Some [2]
   \<and> (\<exists>k. [2] = drop k (sort (prog_zones restart_program)) \<and> total_dur (zones idle_world) (take k (sort (prog_zones restart_program))) \<le> 18)"
proof -
  have time: "parse_hhmm_once ''06:30'' = Some (6, 30)"
    by (simp add: parse_hhmm_once_def split_once_def py_int_def strip_def is_ws_def nat_of_digits_def digit_val_def Let_def)
  have dur: "zone_dur (zones idle_world) 1 = 15" "zone_dur (zones idle_world) 2 = 15"
    by (simp_all add: zone_dur_def idle_world_def boot_world_def demo_zone_def new_zone_def plain_req_def rq_duration_or10_def)
  have st: "at_hm 24480 6 30 = 23400" "weekday 24480 = 0"
    by (simp_all add: at_hm_def day_start_def day_of_def weekday_def)
  have up: "get_zones idle_world = zones idle_world" by (simp add: get_zones_def idle_world_def boot_world_def)
  have off: "\<not> zone_on idle_world 1" "\<not> zone_on idle_world 2"
    by (simp_all add: zone_on_def up) (simp_all add: idle_world_def boot_world_def)
  have mz: "missed_zones idle_world 24480 restart_program = Some [2]"
    by (simp add: missed_zones_def restart_program_def weekday_program_def time st Let_def up dur off valid_hm_def
        minutes_def numeral_2_eq_2)
  have "\<exists>k. [2] = drop k (sort (prog_zones restart_program)) \<and> ([2] :: int list) \<noteq> []
      \<and> total_dur (get_zones idle_world) (take k (sort (prog_zones restart_program))) \<le> (24480 - at_hm 24480 6 30) div 60
      \<and> (24480 - at_hm 24480 6 30) div 60 < total_dur (get_zones idle_world) (take (Suc k) (sort (prog_zones restart_program)))"
    by (rule recovery_resumes_first_unfinished [OF mz])
      (simp_all add: restart_program_def weekday_program_def up dur time)
  then show ?thesis using mz by (auto simp: st up)
qed

subsection \<open>Boot\<close>

lemma zstate_at_load [simp]: "zstate_at (load_programs accepts s) = zstate_at s"
  unfolding load_programs_def by (rule zstate_at_fold) simp

lemma zstate_at_log [simp]: "zstate_at (add_log ty is w) = zstate_at w"
  by (rule zstate_at_cong) (simp add: add_log_def zview_def)

lemma zstate_at_clear_postpones [simp]: "zstate_at (clear_expired_postpones s) = zstate_at s"
  unfolding clear_expired_postpones_def by (rule zstate_at_fold) (simp add: clear_postpone_def)

definition before_boot_stop :: "(trigger \<Rightarrow> bool) \<Rightarrow> 'a sched_scheme \<Rightarrow> 'a sched_scheme" where
  "before_boot_stop accepts s = cleanup_jobs_on_boot (recover_missed_runs (load_programs accepts (clear_expired_postpones s)))"

lemma zstate_at_before_boot_stop [simp]: "zstate_at (before_boot_stop accepts s) = zstate_at s"
proof -
  have "zstate_at (before_boot_stop accepts s) = zstate_at (load_programs accepts (clear_expired_postpones s))"
    by (rule zstate_at_cong) (simp add: before_boot_stop_def)
  then show ?thesis by simp
qed

definition boot_state :: "string \<Rightarrow> string" where
  "boot_state v = (if lower v \<in> {''starting'', ''on'', ''stopping'', ''paused''} then ''off'' else v)"

lemma zstate_at_fold_forced:
  "zstate_at (fold (\<lambda>i s. snd (stop_zone i reason True imm skip (now_of s) (mono_of s) (wall_of s) s)) is s) j
     = (if j \<in> set is then map_option (\<lambda>_. ''off'') (zstate_at s j) else zstate_at s j)"
  by (induction "is" arbitrary: s) (auto simp: zstate_at_forced_stop option.map_comp comp_def)

lemma zstate_at_boot_stop:
  assumes "wf_zones s"
  shows "zstate_at (stop_on_boot_active_zones s) j = map_option boot_state (zstate_at s j)"
proof (cases "get_zone s j")
  case None
  then have "zstate_at s j = None" by (simp add: zstate_at_def)
  then show ?thesis by (simp add: stop_on_boot_active_zones_def zstate_at_fold_forced)
next
  case (Some z)
  have up: "db_up s" and row: "row_at zid (zones s) j = Some z" using Some by (auto simp: get_zone_def split: if_splits)
  have "z \<in> set (get_zones s)" "zid z = j" using up row by (auto simp: get_zones_def dest: row_at_mem row_at_key)
  moreover have "z' = z" if "z' \<in> set (get_zones s)" "zid z' = j" for z'
    using row_at_mem_unique [OF wf_zones_distinct [OF assms], of z'] that row by (simp add: get_zones_def split: if_splits)
  ultimately have mem: "(j \<in> set (map zid (filter boot_active (get_zones s)))) = boot_active z"
    unfolding set_map set_filter image_def by blast
  have "zstate_at s j = Some (zstate z)" using Some by (simp add: zstate_at_def)
  then show ?thesis
    unfolding stop_on_boot_active_zones_def zstate_at_fold_forced mem by (simp add: boot_active_def boot_state_def)
qed

lemma wf_zones_before_boot: "wf_zones s \<Longrightarrow> wf_zones (before_boot_stop accepts s)"
proof -
  assume wf: "wf_zones s"
  have fold: "(\<And>x s. wf_zones s \<Longrightarrow> wf_zones (f x s)) \<Longrightarrow> wf_zones s \<Longrightarrow> wf_zones (fold f xs s)"
    for f :: "'b \<Rightarrow> 'a sched_scheme \<Rightarrow> 'a sched_scheme" and xs s
    by (induction xs arbitrary: s) simp_all
  have view: "zview s = zview s' \<Longrightarrow> wf_zones s' \<Longrightarrow> wf_zones s" for s s' :: "'a sched_scheme"
    by (simp add: wf_zones_def zview_def)
  have plan: "wf_zones (schedule_program accepts p s)" if "wf_zones s" for p and s :: "'a sched_scheme"
  proof -
    have c: "wf_zones (cancel_program (prog_id p) s)" by (rule view [OF zview_more_jobs(2) that])
    show ?thesis
    proof (cases rule: schedule_program_cases [of p accepts s])
    case (planned h m)
    have "wf_zones (with_starts p h m (cancel_program (prog_id p) s))"
      unfolding with_starts_def using c by (intro fold) (simp_all add: put_start_def wf_zones_update)
    moreover have "zview (schedule_program accepts p s) = zview (with_starts p h m (cancel_program (prog_id p) s))"
        by (simp add: planned(5) Let_def)
      ultimately show ?thesis by (rule view [rotated])
    qed (simp_all add: c that)
  qed
  have "wf_zones (clear_expired_postpones s)"
    unfolding clear_expired_postpones_def
    by (rule fold [OF _ wf]) (simp add: clear_postpone_def add_log_def update_zone_postpone_def put_zone_def wf_zones_def
        zcols.keys_upd_rows del: set_cols_simps)
  then have "wf_zones (load_programs accepts (clear_expired_postpones s))"
    unfolding load_programs_def by (intro fold plan)
  moreover have "zview (before_boot_stop accepts s) = zview (load_programs accepts (clear_expired_postpones s))"
    by (simp add: before_boot_stop_def)
  ultimately show ?thesis by (rule view [rotated])
qed

text \<open>
  After a restart nothing runs.  The boot sequence turns off every zone that the database
  shows starting, on, stopping or paused, leaves the others as they are, and removes every stop
  and sequence job an earlier process may have left.
\<close>

theorem boot_turns_every_zone_off:
  assumes "wf_zones s"
  shows "zstate_at (init_scheduler accepts s) j = map_option boot_state (zstate_at s j)
    \<and> filter (\<lambda>k. case j_id k of J_zone_stop i t \<Rightarrow> True | J_group_seq g t \<Rightarrow> True | _ \<Rightarrow> False)
        (jobs (init_scheduler accepts s)) = []"
proof
  have init: "init_scheduler accepts s = stop_on_boot_active_zones (before_boot_stop accepts s)"
    by (simp add: init_scheduler_def before_boot_stop_def)
  show "zstate_at (init_scheduler accepts s) j = map_option boot_state (zstate_at s j)"
    by (simp add: init zstate_at_boot_stop [OF wf_zones_before_boot [OF assms]])
  have "jobs (init_scheduler accepts s) = jobs (before_boot_stop accepts s)"
    unfolding init by (rule sched_of_more(1) [OF more_boot_stop])
  then show "filter (\<lambda>k. case j_id k of J_zone_stop i t \<Rightarrow> True | J_group_seq g t \<Rightarrow> True | _ \<Rightarrow> False)
        (jobs (init_scheduler accepts s)) = []"
    by (auto simp: before_boot_stop_def cleanup_jobs_on_boot_def remove_jobs_where_def filter_empty_conv)
qed

theorem boot_turns_every_zone_off_witness:
  "zstate_at (init_scheduler (\<lambda>_. True) (fresh_sched demo_world)) 1 = Some ''off''"
proof -
  have "zstate_at (fresh_sched demo_world) 1 = Some ''on''" "wf_zones (fresh_sched demo_world)"
    by (simp_all add: zstate_at_def get_zone_def wf_zones_def)
  then show ?thesis using boot_turns_every_zone_off [of "fresh_sched demo_world" "\<lambda>_. True" 1] by (simp add: boot_state_def)
qed

text \<open>Program \<open>pid\<close> was interrupted while its zone \<open>i\<close> was on, and no recovery of it is planned.\<close>

definition interrupted :: "int \<Rightarrow> int \<Rightarrow> 'a sched_scheme \<Rightarrow> bool" where
  "interrupted pid i s = ((\<exists>z. get_zone s i = Some z \<and> zstate z = ''on'' \<and> group_id z \<noteq> Some 999)
     \<and> (\<forall>q \<in> set (programs s). prog_id q = pid \<longrightarrow> i \<in> set (prog_zones q))
     \<and> (\<forall>j \<in> set (jobs s). \<forall>t. j_id j \<noteq> J_recover pid t))"

lemma interrupted_put_start:
  assumes "interrupted pid i s"
  shows "interrupted pid i (put_start e s)"
proof -
  obtain z where z: "get_zone s i = Some z" "zstate z = ''on''" "group_id z \<noteq> Some 999"
    using assms by (auto simp: interrupted_def)
  let ?us = "[U_sched (Some (snd e))]"
  have w: "zstate (plain_write ?us y) = zstate y" "group_id (plain_write ?us y) = group_id y" for y
    by (simp_all add: plain_write_def Let_def)
  have "jobs (put_start e s) = jobs s" by (rule sched_of_more(1) [OF more_put_start])
  moreover have "\<exists>z. get_zone (put_start e s) i = Some z \<and> zstate z = ''on'' \<and> group_id z \<noteq> Some 999"
    using z by (auto simp: put_start_def get_zone_update_zone w)
  moreover have "\<forall>q \<in> set (programs (put_start e s)). prog_id q = pid \<longrightarrow> i \<in> set (prog_zones q)"
  proof (cases "get_zone s (fst e)")
    case None
    then show ?thesis using assms by (simp add: put_start_def update_zone_def interrupted_def)
  next
    case (Some y)
    have "i = fst e \<longrightarrow> group_id y \<noteq> Some 999" using Some z by auto
    then show ?thesis
      using Some assms w(2) [of y]
      by (auto simp: put_start_def update_zone_def Let_def interrupted_def drop_zone_from_programs_def put_zone_def)
  qed
  ultimately show ?thesis using assms by (simp add: interrupted_def)
qed

lemma interrupted_fold: "(\<And>x s. interrupted pid i s \<Longrightarrow> interrupted pid i (f x s)) \<Longrightarrow> interrupted pid i s \<Longrightarrow> interrupted pid i (fold f xs s)"
  by (induction xs arbitrary: s) simp_all

lemma interrupted_cong:
  assumes "interrupted pid i s" "zview s' = zview s" "programs s' = programs s"
    "\<And>j t. j \<in> set (jobs s') \<Longrightarrow> j_id j = J_recover pid t \<Longrightarrow> j \<in> set (jobs s)"
  shows "interrupted pid i s'"
proof -
  have "get_zone s' = get_zone s" using assms(2) by (rule zview_get_zone)
  then show ?thesis using assms by (auto simp: interrupted_def)
qed

lemma programs_cancel [simp]: "programs (cancel_program pid s) = programs s"
proof -
  have "programs (fold remove_job is s) = programs s" for "is" by (induction "is" arbitrary: s) (simp_all add: remove_job_def)
  then show ?thesis by (simp add: cancel_program_def Let_def)
qed

lemma programs_add_all [simp]: "programs (add_all js s) = programs s"
  by (induction js arbitrary: s) (simp_all add: add_job_replace)

lemma interrupted_schedule_program:
  assumes "interrupted pid i s"
  shows "interrupted pid i (schedule_program accepts p s)"
proof -
  have c: "interrupted pid i (cancel_program (prog_id p) s)"
    by (rule interrupted_cong [OF assms]) (auto simp: cancel_program_fields)
  show ?thesis
  proof (cases rule: schedule_program_cases [of p accepts s])
    case (planned h m)
    let ?t = "with_starts p h m (cancel_program (prog_id p) s)" and ?js = "program_plan accepts p (now_of s)"
    have t: "interrupted pid i ?t"
      unfolding with_starts_def by (rule interrupted_fold [OF interrupted_put_start c])
    show ?thesis
    proof (rule interrupted_cong [OF t])
      show "zview (schedule_program accepts p s) = zview ?t" "programs (schedule_program accepts p s) = programs ?t"
        by (simp_all add: planned(5) Let_def)
      fix j t assume j: "j \<in> set (jobs (schedule_program accepts p s))" "j_id j = J_recover pid t"
      have "j_id k \<noteq> j_id j" if "k \<in> set ?js" for k using plan_owner [OF that] j(2) by auto
      moreover have "set (jobs (add_all js u)) \<subseteq> set (jobs u) \<union> set js" for js and u :: "'a sched_scheme"
        by (induction js arbitrary: u) (fastforce simp: add_job_replace)+
      ultimately show "j \<in> set (jobs ?t)" using j(1) by (auto simp: planned_fields(1) [OF planned(5)])
    qed
  qed (simp_all add: c assms)
qed

lemma interrupted_recover:
  assumes "interrupted pid i s" "prog_id q = pid \<longrightarrow> i \<in> set (prog_zones q)"
  shows "interrupted pid i (recover_program q s)"
proof (cases "missed_zones s (now_of s) q")
  case None
  then show ?thesis using assms by (simp add: recover_program_def)
next
  case (Some zs)
  have on: "zone_on s i"
    using assms(1) by (auto simp: interrupted_def zone_on_def get_zone_def get_zones_def split: if_splits)
  have "\<not> list_ex (zone_on s) (sort (prog_zones q))"
    using Some by (auto simp: missed_zones_def Let_def split: if_splits option.splits)
  then have "prog_id q \<noteq> pid" using on assms(2) by (auto simp: list_ex_iff)
  then show ?thesis
    using Some by (intro interrupted_cong [OF assms(1)]) (auto simp: recover_program_def add_job_def zview_def split: if_splits)
qed

text \<open>
  A program interrupted by a restart is not resumed.  When one of its zones was on at the time,
  recovery skips the program because it takes it to be running, and the boot sequence then turns
  that zone off: the rest of the program is lost for the day.
\<close>

theorem interrupted_program_is_dropped:
  assumes "interrupted pid i s" "wf_zones s"
  shows "zstate_at (init_scheduler accepts s) i = Some ''off''
    \<and> filter (\<lambda>j. \<exists>t. j_id j = J_recover pid t) (jobs (init_scheduler accepts s)) = []"
proof
  have init: "init_scheduler accepts s = stop_on_boot_active_zones (before_boot_stop accepts s)"
    by (simp add: init_scheduler_def before_boot_stop_def)
  have "zstate_at s i = Some ''on''" using assms(1) by (auto simp: interrupted_def zstate_at_def)
  then show "zstate_at (init_scheduler accepts s) i = Some ''off''"
    by (simp add: init zstate_at_boot_stop [OF wf_zones_before_boot [OF assms(2)]] boot_state_def)
  have cp: "interrupted pid i (clear_postpone k t)" if t: "interrupted pid i t" for k and t :: "'a sched_scheme"
  proof -
    have "get_zone (clear_postpone k t) i = (if i = k \<and> db_up t then map_option (set_cols [U_postpone None, U_preason None]) (get_zone t i)
        else get_zone t i)"
      by (auto simp: clear_postpone_def add_log_def update_zone_postpone_def get_zone_def put_zone_def zcols.row_at_upd_key
          simp del: set_cols_simps)
    moreover have "programs (clear_postpone k t) = programs t" "jobs (clear_postpone k t) = jobs t"
      by (simp_all add: clear_postpone_def add_log_def update_zone_postpone_def put_zone_def)
    ultimately show ?thesis using t by (auto simp: interrupted_def)
  qed
  have "interrupted pid i (load_programs accepts (clear_expired_postpones s))" (is "interrupted pid i ?l")
    unfolding load_programs_def clear_expired_postpones_def
    by (intro interrupted_fold interrupted_schedule_program cp assms(1))
  moreover have "\<forall>q \<in> set (get_programs ?l). prog_id q = pid \<longrightarrow> i \<in> set (prog_zones q)"
    using calculation by (simp add: interrupted_def get_programs_def)
  ultimately have rec: "interrupted pid i (recover_missed_runs ?l)"
  proof -
    have "(\<forall>q \<in> set qs. prog_id q = pid \<longrightarrow> i \<in> set (prog_zones q)) \<Longrightarrow> interrupted pid i t \<Longrightarrow> interrupted pid i (fold recover_program qs t)"
      for qs and t :: "'a sched_scheme"
      by (induction qs arbitrary: t) (simp_all add: interrupted_recover)
    then show ?thesis
      using \<open>interrupted pid i ?l\<close> \<open>\<forall>q \<in> set (get_programs ?l). _\<close> by (simp add: recover_missed_runs_def)
  qed
  have "jobs (init_scheduler accepts s) = jobs (before_boot_stop accepts s)"
    unfolding init by (rule sched_of_more(1) [OF more_boot_stop])
  then show "filter (\<lambda>j. \<exists>t. j_id j = J_recover pid t) (jobs (init_scheduler accepts s)) = []"
    using rec by (auto simp: before_boot_stop_def cleanup_jobs_on_boot_def remove_jobs_where_def filter_empty_conv interrupted_def)
qed

theorem interrupted_program_is_dropped_witness:
  "zstate_at (init_scheduler (\<lambda>_. True) ((fresh_sched demo_world)\<lparr>programs := [weekday_program]\<rparr>)) 1 = Some ''off''
   \<and> filter (\<lambda>j. \<exists>t. j_id j = J_recover 4 t) (jobs (init_scheduler (\<lambda>_. True) ((fresh_sched demo_world)\<lparr>programs := [weekday_program]\<rparr>))) = []"
  by (rule interrupted_program_is_dropped)
    (simp_all add: interrupted_def weekday_program_def get_zone_def wf_zones_def)

end
