(* ===== verification/Runner.thy ===== *)
theory Runner
  imports Scheduler
begin

text \<open>
  The threads of \<open>src/irrigation_scheduler.py\<close> that water: \<open>_run_program_threaded\<close>,
  \<open>start_group_sequence\<close> and \<open>_run_group_sequence\<close> with the weather hooks between them.

  A thread runs between its waits in one step; during each second it waits, everything else in the
  process may run: \<open>env\<close> is any function on the scheduler, applied once per second (the clock is
  part of the state it sees).  So a cancel, a skip request, an emergency stop or a shutdown can
  arrive at any second.  The weather service decides \<open>wx\<close>: whether the adjustment is enabled,
  whether to skip now and the coefficient, per second.  Telegram messages, the weather log tables
  and SSE broadcasts are left out.
\<close>

subsection \<open>Weather\<close>

record weather =
  wx_enabled :: bool
  wx_skip :: bool
  wx_coeff :: int

text \<open>A NULL duration makes the hook raise after it logged the skip, and its handler answers "no skip".\<close>

definition check_weather_skip :: "weather \<Rightarrow> int \<Rightarrow> int \<Rightarrow> 'a sched_scheme \<Rightarrow> bool \<times> 'a sched_scheme" where
  "check_weather_skip x i pid s =
     (if \<not> wx_enabled x \<or> \<not> wx_skip x then (False, s)
      else (case get_zone s i of
              None \<Rightarrow> True
            | Some z \<Rightarrow> duration z \<noteq> None, add_log ''weather_skip'' [i, pid] s))"

definition weather_adjusted_duration :: "weather \<Rightarrow> int \<Rightarrow> int" where
  "weather_adjusted_duration x base =
     (if \<not> wx_enabled x then base
      else if wx_coeff x = 0 then 0
      else max 1 (py_round (of_int (base * wx_coeff x) / 100)))"

subsection \<open>Sessions\<close>

definition group_cancelled :: "'a sched_scheme \<Rightarrow> int \<Rightarrow> bool" where
  "group_cancelled s g = (case cancel_events s g of None \<Rightarrow> False | Some e \<Rightarrow> event_set s e)"

text \<open>\<open>setdefault\<close> with a new event; the event when it was planted.\<close>

definition plant_event :: "int \<Rightarrow> 'a sched_scheme \<Rightarrow> nat option \<times> 'a sched_scheme" where
  "plant_event g s =
     (let e = next_event s; s1 = s\<lparr>next_event := e + 1, event_set := (event_set s)(e := False)\<rparr>
      in case cancel_events s1 g of
           None \<Rightarrow> (Some e, s1\<lparr>cancel_events := (cancel_events s1)(g \<mapsto> e)\<rparr>)
         | Some k \<Rightarrow> (None, s1))"

fun register_sessions :: "int list \<Rightarrow> 'a sched_scheme \<Rightarrow> (int \<times> nat) list \<times> 'a sched_scheme" where
  "register_sessions [] s = ([], s)"
| "register_sessions (g # gs) s =
     (case plant_event g s of
        (None, s1) \<Rightarrow> register_sessions gs s1
      | (Some e, s1) \<Rightarrow> (case register_sessions gs s1 of (reg, s2) \<Rightarrow> ((g, e) # reg, s2)))"

definition drop_event :: "int \<Rightarrow> nat \<Rightarrow> 'a sched_scheme \<Rightarrow> 'a sched_scheme" where
  "drop_event g e s =
     (if cancel_events s g = Some e
      then s\<lparr>cancel_events := (cancel_events s)(g := None), event_set := (event_set s)(e := False)\<rparr> else s)"

definition drop_skip :: "int \<Rightarrow> 'a sched_scheme \<Rightarrow> 'a sched_scheme" where
  "drop_skip g s = s\<lparr>skip_events := (skip_events s)(g := None)\<rparr>"

definition cleanup_sessions :: "(int \<times> nat) list \<Rightarrow> 'a sched_scheme \<Rightarrow> 'a sched_scheme" where
  "cleanup_sessions reg s = fold (\<lambda>(g, e) s. drop_skip g (drop_event g e s)) reg s"

definition clear_stale_skip :: "int \<Rightarrow> 'a sched_scheme \<Rightarrow> 'a sched_scheme" where
  "clear_stale_skip g s =
     (if skip_events s g = Some True then s\<lparr>skip_events := (skip_events s)(g \<mapsto> False)\<rparr> else s)"

subsection \<open>Waiting\<close>

definition tick :: "('a sched_scheme \<Rightarrow> 'a sched_scheme) \<Rightarrow> 'a sched_scheme \<Rightarrow> 'a sched_scheme" where
  "tick env s = env (s\<lparr>clk := clk s + 1\<rparr>)"

datatype wait_end = Elapsed | Cancelled | Skipped | Shut_down

text \<open>The wait for the end of a zone; \<open>stop\<close> is the caller's test of the cancel event.\<close>

fun wait_loop ::
  "('a sched_scheme \<Rightarrow> 'a sched_scheme) \<Rightarrow> ('a sched_scheme \<Rightarrow> bool) \<Rightarrow> int \<Rightarrow> nat \<Rightarrow> 'a sched_scheme
   \<Rightarrow> wait_end \<times> 'a sched_scheme" where
  "wait_loop env stop g 0 s = (Elapsed, s)"
| "wait_loop env stop g (Suc n) s =
     (if stop s then (Cancelled, s)
      else if skip_events s g = Some True then (Skipped, s\<lparr>skip_events := (skip_events s)(g \<mapsto> False)\<rparr>)
      else if shutdown s then (Shut_down, s)
      else let s1 = tick env s in if shutdown s1 then (Shut_down, s1) else wait_loop env stop g n s1)"

text \<open>The seconds left to the nominal end; a skip does not end this wait.\<close>

fun pad_loop ::
  "('a sched_scheme \<Rightarrow> 'a sched_scheme) \<Rightarrow> ('a sched_scheme \<Rightarrow> bool) \<Rightarrow> nat \<Rightarrow> 'a sched_scheme \<Rightarrow> 'a sched_scheme" where
  "pad_loop env stop 0 s = s"
| "pad_loop env stop (Suc n) s =
     (if stop s \<or> shutdown s then s
      else let s1 = tick env s in if shutdown s1 then s1 else pad_loop env stop n s1)"

definition watering_seconds :: "int \<Rightarrow> int \<Rightarrow> nat" where
  "watering_seconds dur early = nat (60 * dur - clamp_early early)"

subsection \<open>A program\<close>

definition peer_off :: "zone \<Rightarrow> 'a sched_scheme \<Rightarrow> 'a sched_scheme" where
  "peer_off gz s =
     uzs (zid gz) [U_state ''off'', U_wstart None] ''peer_off_scheduled''
       (case mqtt_ready s gz of
          None \<Rightarrow> s
        | Some srv \<Rightarrow> snd (publish_mqtt_value (server_id srv) (normalize_topic (strip (topic gz))) ''0'' s))"

definition group_peers :: "'a db_scheme \<Rightarrow> int \<Rightarrow> int \<Rightarrow> zone list" where
  "group_peers d g i = filter (\<lambda>z. group_id z = Some g \<and> zid z \<noteq> i) (get_zones d)"

definition scheduled_cols :: "time \<Rightarrow> zone_upd list" where
  "scheduled_cols now = [U_state ''on'', U_wstart (Some now), U_source (Some ''schedule''), U_commanded (Some ''on'')]"

definition mark_scheduled_on :: "int \<Rightarrow> time \<Rightarrow> 'a sched_scheme \<Rightarrow> 'a sched_scheme" where
  "mark_scheduled_on i now s =
     (let res = update_zone_versioned i (scheduled_cols now) s; s1 = snd res in
      if fst (fst res)
      then (case snd (fst res) of
              None \<Rightarrow> s1
            | Some z \<Rightarrow>
                (if lower (zstate z) \<noteq> ''on''
                 then s1\<lparr>audit := audit s1 @ [Zone_Change i (Some (zstate z)) ''on'' ''scheduled_start'' (Some ''on'')]\<rparr>
                 else s1))
      else uzs i (scheduled_cols now) ''scheduled_start_fallback'' s1)"

definition start_scheduled_zone :: "int \<Rightarrow> int \<Rightarrow> int \<Rightarrow> 'a sched_scheme \<Rightarrow> 'a sched_scheme" where
  "start_scheduled_zone pid i dur s =
     (let s1 = mark_scheduled_on i (now_of s) s;
          s2 = snd (exclusive_start_zone i ''program'' (now_of s1) (mono_of s1) (wall_of s1) s1);
          end_time = now_of s2 + minutes dur;
          s3 = s2\<lparr>active_zones := (active_zones s2)(i \<mapsto> end_time)\<rparr>;
          s4 = update_zone i [U_planned (Some end_time)] s3
      in add_log ''zone_auto_start'' [i, pid, dur] (schedule_zone_hard_stop i end_time s4))"

definition finish_scheduled_zone :: "int \<Rightarrow> 'a sched_scheme \<Rightarrow> 'a sched_scheme" where
  "finish_scheduled_zone i s =
     (let s1 = snd (stop_zone i ''auto'' False False False (now_of s) (mono_of s) (wall_of s) s)
      in s1\<lparr>active_zones := (active_zones s1)(i := None)\<rparr>)"

definition water_program_zone ::
  "('a sched_scheme \<Rightarrow> 'a sched_scheme) \<Rightarrow> int \<Rightarrow> int \<Rightarrow> int \<Rightarrow> int \<Rightarrow> 'a sched_scheme \<Rightarrow> 'a sched_scheme" where
  "water_program_zone env pid g i dur s =
     (let s1 = start_scheduled_zone pid i dur (fold peer_off (group_peers s g i) s);
          early = early_off s1;
          stop = (\<lambda>s. group_cancelled s g);
          w = wait_loop env stop g (watering_seconds dur early) s1;
          s2 = finish_scheduled_zone i (snd w)
      in if fst w = Skipped then add_log ''zone_skip'' [pid, g, i] s2
         else pad_loop env stop (nat (clamp_early early)) s2)"

text \<open>One turn of the program's loop; the flag is the \<open>TypeError\<close> of \<open>int(None)\<close>, which ends the loop.\<close>

definition run_program_zone ::
  "('a sched_scheme \<Rightarrow> 'a sched_scheme) \<Rightarrow> (nat \<Rightarrow> weather) \<Rightarrow> bool \<Rightarrow> int \<Rightarrow> int \<Rightarrow> 'a sched_scheme
   \<Rightarrow> bool \<times> 'a sched_scheme" where
  "run_program_zone env wx manual pid i s =
     (case get_zone s i of
        None \<Rightarrow> (False, s)
      | Some z \<Rightarrow>
          (let g = zone_gid z in
           if is_program_run_cancelled_for_group s pid (day_of (now_of s)) g \<or> group_cancelled s g then (False, s)
           else
             (let s1 = clear_stale_skip g s;
                  until = (case postpone_until z of None \<Rightarrow> [] | Some t \<Rightarrow> t)
              in if until \<noteq> [] \<and> \<not> postpone_expired (now_of s) z then (False, s1)
                 else
                   (let s2 = (if until \<noteq> [] then snd (update_zone_postpone i None None s1) else s1)
                    in case duration z of
                         None \<Rightarrow> (True, s2)
                       | Some base \<Rightarrow>
                           (let dur = (if manual then base else weather_adjusted_duration (wx (clk s2)) base)
                            in if dur \<le> 0 then (False, s2) else (False, water_program_zone env pid g i dur s2))))))"

fun run_program_zones ::
  "('a sched_scheme \<Rightarrow> 'a sched_scheme) \<Rightarrow> (nat \<Rightarrow> weather) \<Rightarrow> bool \<Rightarrow> int \<Rightarrow> int list \<Rightarrow> 'a sched_scheme
   \<Rightarrow> bool \<times> 'a sched_scheme" where
  "run_program_zones env wx manual pid [] s = (False, s)"
| "run_program_zones env wx manual pid (i # is) s =
     (case run_program_zone env wx manual pid i s of
        (True, s1) \<Rightarrow> (True, s1)
      | (False, s1) \<Rightarrow> run_program_zones env wx manual pid is s1)"

definition program_gids :: "'a db_scheme \<Rightarrow> int list \<Rightarrow> int list" where
  "program_gids d is = remdups (filter real_group (concat
     (map (\<lambda>i. case get_zone d i of None \<Rightarrow> [] | Some z \<Rightarrow> [zone_gid z]) is)))"

definition run_program ::
  "('a sched_scheme \<Rightarrow> 'a sched_scheme) \<Rightarrow> (nat \<Rightarrow> weather) \<Rightarrow> int \<Rightarrow> int list \<Rightarrow> bool \<Rightarrow> 'a sched_scheme
   \<Rightarrow> 'a sched_scheme" where
  "run_program env wx pid is manual s =
     (let gids = program_gids s is; blocking = filter (is_group_session_active s) gids in
      if blocking \<noteq> []
      then (let s1 = add_log ''prog_skipped_manual_running'' (pid # blocking) s
            in s1\<lparr>audit := audit s1 @ [Program_Skipped pid blocking]\<rparr>)
      else
        (let reg = register_sessions gids s;
             s2 = add_log ''program_start'' [pid] (snd reg);
             sk = (if manual then (False, s2)
                   else check_weather_skip (wx (clk s2)) (case is of [] \<Rightarrow> 0 | i # _ \<Rightarrow> i) pid s2)
         in cleanup_sessions (fst reg)
              (if fst sk then add_log ''program_weather_skip'' [pid] (snd sk)
               else case run_program_zones env wx manual pid is (snd sk) of
                      (True, s3) \<Rightarrow> s3
                    | (False, s3) \<Rightarrow> add_log ''program_finish'' [pid] s3)))"

subsection \<open>A group sequence\<close>

text \<open>The caller's order of the chosen zones: the last position of an id that is given twice.\<close>

fun last_index :: "int list \<Rightarrow> int \<Rightarrow> nat \<Rightarrow> nat \<Rightarrow> nat" where
  "last_index [] i n best = best"
| "last_index (k # ks) i n best = last_index ks i (n + 1) (if k = i then n else best)"

definition chosen_zones :: "'a db_scheme \<Rightarrow> int \<Rightarrow> int list option \<Rightarrow> zone list" where
  "chosen_zones d g wanted =
     (let gz = sort_key zid (filter (\<lambda>z. group_id z = Some g) (get_zones d)) in
      case wanted of
        None \<Rightarrow> gz
      | Some is \<Rightarrow> sort_key (\<lambda>z. last_index is (zid z) 0 9999) (filter (\<lambda>z. zid z \<in> set is) gz))"

fun sequence_starts :: "zone list \<Rightarrow> int option \<Rightarrow> int option \<Rightarrow> time \<Rightarrow> int \<Rightarrow> (int \<times> time) list" where
  "sequence_starts [] od op base cum = []"
| "sequence_starts (z # zs) od op base cum =
     (zid z, base + minutes cum) # sequence_starts zs od op base (cum + fst (per_zone_dur z od op))"

definition bulk_off :: "zone \<Rightarrow> 'a sched_scheme \<Rightarrow> 'a sched_scheme" where
  "bulk_off z s = uzs (zid z) [U_state ''off'', U_wstart None] ''group_sequence_bulk_off'' s"

definition drop_group_jobs :: "int \<Rightarrow> int list \<Rightarrow> 'a sched_scheme \<Rightarrow> 'a sched_scheme" where
  "drop_group_jobs g is s =
     (let s1 = remove_jobs_where (\<lambda>j. is_group_seq_job g j \<or> list_ex (\<lambda>i. is_zone_stop_job i j) is) s
      in s1\<lparr>active_zones := (\<lambda>i. if i \<in> set is then None else active_zones s1 i)\<rparr>)"

definition start_group_sequence ::
  "int \<Rightarrow> int option \<Rightarrow> int option \<Rightarrow> int list option \<Rightarrow> bool \<Rightarrow> 'a sched_scheme \<Rightarrow> bool \<times> 'a sched_scheme" where
  "start_group_sequence g od op wanted manual s =
     (let gz = chosen_zones s g wanted; is = map zid gz in
      if gz = [] then (False, s)
      else
        (let s1 = fold bulk_off gz s;
             s2 = set_group_scheduled_starts g (sequence_starts gz od op (now_of s1) 0) (clear_group_scheduled_starts g s1);
             s3 = drop_group_jobs g is (snd (plant_event g s2))
         in add_job False \<lparr>j_id = J_group_seq g (now_of s3), j_call = Run_Group_Sequence g is od op manual,
              j_trigger = At_Time (now_of s3), j_store = Volatile_Store\<rparr> s3))"

text \<open>
  The start of a zone by a sequence does not go through \<open>exclusive_start_zone\<close>.  The run it opens has
  no meter snapshot: the import of the meter module (\<open>services.water_monitor\<close>) names no module of the
  repository, its \<open>ImportError\<close> is logged, and the defaults are stored.
\<close>

definition start_sequence_zone :: "int \<Rightarrow> zone \<Rightarrow> int \<Rightarrow> 'a sched_scheme \<Rightarrow> 'a sched_scheme" where
  "start_sequence_zone g z dur s =
     (let i = zid z; now = now_of s; gid' = zone_gid z;
          s1 = uzs i [U_state ''on'', U_wstart (Some now), U_planned (Some (now + minutes dur))] ''group_sequence_start'' s;
          s2 = schedule_zone_hard_stop i (now_of s1 + minutes dur) s1;
          s3 = (if gid' \<noteq> 0 then open_master gid' s2 else s2);
          s4 = (case mqtt_ready s3 z of
                  None \<Rightarrow> s3
                | Some srv \<Rightarrow> snd (publish_mqtt_value (server_id srv) (normalize_topic (strip (topic z))) ''1'' s3));
          s5 = (if real_group gid'
                then snd (create_zone_run i gid' now (mono_of s4) None 1 None (Some ''program'') s4) else s4)
      in add_log ''group_seq_zone_start'' [g, i, dur] s5)"

definition finish_sequence_zone :: "int \<Rightarrow> 'a sched_scheme \<Rightarrow> 'a sched_scheme" where
  "finish_sequence_zone i s =
     (let s1 = snd (stop_zone i ''group_sequence'' False False False (now_of s) (mono_of s) (wall_of s) s)
      in update_zone i [U_planned None] (s1\<lparr>active_zones := (active_zones s1)(i := None)\<rparr>))"

text \<open>The captured event, when there was one at the start of the thread.\<close>

definition captured_set :: "nat option \<Rightarrow> 'a sched_scheme \<Rightarrow> bool" where
  "captured_set c s = (case c of None \<Rightarrow> False | Some e \<Rightarrow> event_set s e)"

definition water_sequence_zone ::
  "('a sched_scheme \<Rightarrow> 'a sched_scheme) \<Rightarrow> nat option \<Rightarrow> int \<Rightarrow> zone \<Rightarrow> int \<Rightarrow> 'a sched_scheme \<Rightarrow> bool \<times> 'a sched_scheme" where
  "water_sequence_zone env c g z dur s =
     (let s1 = start_sequence_zone g z dur s;
          early = clamp_early (early_off s1);
          w = wait_loop env (captured_set c) g (watering_seconds dur (early_off s1)) s1;
          s2 = finish_sequence_zone (zid z) (snd w)
      in if fst w = Skipped then (False, add_log ''zone_skip'' [g, zid z] s2)
         else
           (let s3 = (if 0 < early \<and> \<not> captured_set c s2 then pad_loop env (\<lambda>_. False) (nat early) s2 else s2)
            in (captured_set c s3, s3)))"

fun run_sequence_zones ::
  "('a sched_scheme \<Rightarrow> 'a sched_scheme) \<Rightarrow> (nat \<Rightarrow> weather) \<Rightarrow> nat option \<Rightarrow> int \<Rightarrow> int option \<Rightarrow> int option \<Rightarrow> bool
   \<Rightarrow> int list \<Rightarrow> 'a sched_scheme \<Rightarrow> 'a sched_scheme" where
  "run_sequence_zones env wx c g od op manual [] s = s"
| "run_sequence_zones env wx c g od op manual (i # is) s =
     (if captured_set c s then s
      else
        (let s1 = clear_stale_skip g s in
         case get_zone s1 i of
           None \<Rightarrow> run_sequence_zones env wx c g od op manual is s1
         | Some z \<Rightarrow>
             (let base = fst (per_zone_dur z od op);
                  dur = (if manual then base else weather_adjusted_duration (wx (clk s1)) base)
              in if dur \<le> 0 then run_sequence_zones env wx c g od op manual is s1
                 else (case water_sequence_zone env c g z dur s1 of
                         (True, s2) \<Rightarrow> s2
                       | (False, s2) \<Rightarrow> run_sequence_zones env wx c g od op manual is s2))))"

definition finish_sequence :: "nat option \<Rightarrow> int \<Rightarrow> 'a sched_scheme \<Rightarrow> 'a sched_scheme" where
  "finish_sequence c g s = drop_skip g (case c of None \<Rightarrow> s | Some e \<Rightarrow> drop_event g e s)"

definition run_group_sequence ::
  "('a sched_scheme \<Rightarrow> 'a sched_scheme) \<Rightarrow> (nat \<Rightarrow> weather) \<Rightarrow> int \<Rightarrow> int list \<Rightarrow> int option \<Rightarrow> int option \<Rightarrow> bool
   \<Rightarrow> 'a sched_scheme \<Rightarrow> 'a sched_scheme" where
  "run_group_sequence env wx g is od op manual s =
     (let c = cancel_events s g;
          sk = (if manual then (False, s)
                else check_weather_skip (wx (clk s)) (case is of [] \<Rightarrow> 0 | i # _ \<Rightarrow> i) 0 s)
      in finish_sequence c g
           (if fst sk then add_log ''group_weather_skip'' [g] (snd sk)
            else
              (let s1 = run_sequence_zones env wx c g od op manual is (snd sk);
                   r = reschedule_group_to_next_program g (get_programs s1) (now_of s1) s1
               in case fst r of None \<Rightarrow> add_log ''group_seq_complete'' (g # is) (snd r) | Some e \<Rightarrow> snd r)))"

end
