(* ===== verification/Runner_Laws.thy ===== *)
theory Runner_Laws
  imports Session_Laws Runner
begin

text \<open>
  What a watering thread guarantees while anything else may happen between its seconds: it leaves
  no zone running, it forgets its sessions, it skips a cancelled group, and it ends in time.  The
  rest of the process is a rely condition: a predicate the environment step keeps.
\<close>

subsection \<open>Waiting under a rely condition\<close>

locale rely =
  fixes J :: "'a sched_scheme \<Rightarrow> bool"
    and env :: "'a sched_scheme \<Rightarrow> 'a sched_scheme"
  assumes env_keeps: "J s \<Longrightarrow> J (env s)"
    and clock_keeps: "J s \<Longrightarrow> J (s\<lparr>clk := n\<rparr>)"
    and skip_keeps: "J s \<Longrightarrow> J (s\<lparr>skip_events := f\<rparr>)"
begin

lemma tick_keeps: "J s \<Longrightarrow> J (tick env s)"
  by (simp add: tick_def env_keeps clock_keeps)

lemma wait_keeps: "J s \<Longrightarrow> J (snd (wait_loop env stop g n s))"
  by (induction n arbitrary: s) (simp_all add: Let_def tick_keeps skip_keeps)

lemma pad_keeps: "J s \<Longrightarrow> J (pad_loop env stop n s)"
  by (induction n arbitrary: s) (simp_all add: Let_def tick_keeps)

lemma stale_keeps: "J s \<Longrightarrow> J (clear_stale_skip g s)"
  by (simp add: clear_stale_skip_def skip_keeps)

end

subsection \<open>Zones at rest\<close>

text \<open>The database answers and shows the zone \<open>off\<close> or \<open>stopping\<close>, if it exists.\<close>

definition rest_state :: "string \<Rightarrow> bool" where
  "rest_state v = (lower v \<in> {''off'', ''stopping''})"

definition rests :: "int \<Rightarrow> 'a db_scheme \<Rightarrow> bool" where
  "rests k d = (db_up d \<and> (\<forall>v. zstate_at d k = Some v \<longrightarrow> rest_state v))"

lemma rest_states [simp]: "rest_state ''off''" "rest_state ''stopping''"
  by (simp_all add: rest_state_def)

lemma db_up_senv: "senv d = senv d' \<Longrightarrow> db_up d = db_up d'"
  by (simp add: senv_def)

lemma rests_up: "rests k d \<Longrightarrow> db_up d"
  by (simp add: rests_def)

lemma rests_cong: "zview d = zview d' \<Longrightarrow> rests k d = rests k d'"
  using zstate_at_cong [of d d'] db_up_senv [OF zview_senv, of d d'] by (simp add: rests_def)

lemma rests_views [simp]:
  "rests k (add_log ty is w) = rests k w" "rests k (emit_event wall ty i w) = rests k w"
  "rests k (snd (publish_mqtt_value srv t v w)) = rests k w" "rests k (open_master g w) = rests k w"
  "rests k (w\<lparr>audit := a\<rparr>) = rests k w" "rests k (snd (create_zone_run i g st mn raw l b src w)) = rests k w"
  by (rule rests_cong, simp)+

lemma rests_sched_views [simp]:
  "rests k (s\<lparr>clk := n\<rparr>) = rests k s" "rests k (s\<lparr>skip_events := f\<rparr>) = rests k s"
  "rests k (s\<lparr>active_zones := a\<rparr>) = rests k s" "rests k (remove_jobs_where P s) = rests k s"
  "rests k (snd (add_job b j s)) = rests k s" "rests k (s\<lparr>cancel_events := c\<rparr>) = rests k s"
  "rests k (s\<lparr>cancel_events := c, event_set := es\<rparr>) = rests k s"
  "rests k (s\<lparr>next_event := m, event_set := es\<rparr>) = rests k s"
  by (rule rests_cong, simp add: zview_def add_job_def remove_jobs_where_def)+

text \<open>An operation that keeps the servers and moves a zone's state only to a resting one.\<close>

lemma rests_step:
  assumes "senv d' = senv d" "\<And>v. zstate_at d' k = Some v \<Longrightarrow> rest_state v \<or> zstate_at d k = Some v" "rests k d"
  shows "rests k d'"
  using assms db_up_senv [OF assms(1)] by (auto simp: rests_def)

lemma rests_uzs:
  assumes "real_cols us" "k = i \<longrightarrow> (case upd_state us of None \<Rightarrow> True | Some v \<Rightarrow> rest_state v)" "rests k w"
  shows "rests k (uzs i us r w)"
  by (rule rests_step [OF _ _ assms(3)])
    (use assms(2) in \<open>auto simp: zstate_at_uzs [OF assms(1)] split: if_splits option.splits\<close>)

lemma senv_update_zone [simp]: "senv (update_zone i us d) = senv d"
  by (simp add: senv_def frame_simps)

lemma rests_update_zone: "upd_state us = None \<Longrightarrow> rests k (update_zone i us d) = rests k d"
  using db_up_senv [OF senv_update_zone, of i us d] by (simp add: rests_def zstate_at_update_zone)

lemma rests_stop_zone: "rests k w \<Longrightarrow> rests k (snd (stop_zone i reason force imm skip now mn wall w))"
proof (cases "get_zone w i")
  case None
  then show "rests k w \<Longrightarrow> ?thesis" by (simp add: stop_zone_def)
next
  case (Some z)
  assume "rests k w"
  then show ?thesis
    by (rule rests_step [rotated 2]) (auto simp: zstate_at_stop_zone [OF Some] split: if_splits)
qed

lemma stopped_zone_rests: "db_up w \<Longrightarrow> rests i (snd (stop_zone i reason force imm skip now mn wall w))"
proof (cases "get_zone w i")
  case None
  assume "db_up w"
  with None show ?thesis by (simp add: stop_zone_def rests_def zstate_at_def)
next
  case (Some z)
  assume up: "db_up w"
  have "db_up (snd (stop_zone i reason force imm skip now mn wall w))"
    using up db_up_senv [OF senv_stop_zone] by blast
  moreover have "zstate_at w i = Some (zstate z)" using Some by (simp add: zstate_at_def)
  ultimately show ?thesis
    by (auto simp: rests_def zstate_at_stop_zone [OF Some] stop_acts_def rest_state_def split: if_splits)
qed

lemma rests_fold: "(\<And>x s. rests k s \<Longrightarrow> rests k (f x s)) \<Longrightarrow> rests k s \<Longrightarrow> rests k (fold f xs s)"
  by (induction xs arbitrary: s) simp_all

lemma rests_stop_peer: "rests k w \<Longrightarrow> rests k (stop_peer self now mn p w)"
  by (rule rests_step [OF senv_stop_peer])
    (auto simp: zstate_at_stop_peer [OF refl] peer_effect_def split: if_splits)

lemma senv_fold_peers: "senv (fold (stop_peer self now mn) ps w) = senv w"
  by (induction ps arbitrary: w) (simp_all add: senv_stop_peer)

lemma zview_started: "zview (if b then open_master g (open_run i g' src now mn wall w) else open_run i g' src now mn wall w) = zview w"
  by simp

lemma senv_exclusive_start [simp]: "senv (snd (exclusive_start_zone i src now mn wall w)) = senv w"
  by (cases "get_zone w i")
    (simp_all add: exclusive_start_zone_def Let_def senv_fold_peers zview_senv [OF zview_effects(2)]
      zview_senv [OF zview_open_master] zview_senv [OF zview_open_run])

lemma rests_exclusive_start:
  assumes "rests k w" "k \<noteq> i"
  shows "rests k (snd (exclusive_start_zone i src now mn wall w))"
proof (cases "get_zone w i")
  case None
  then show ?thesis using assms by (simp add: exclusive_start_zone_def)
next
  case (Some z)
  let ?g = "zone_gid z"
  let ?w0 = "begin_start i z now w"
  let ?w1 = "if real_group ?g then open_master ?g (open_run i ?g src now mn wall ?w0) else open_run i ?g src now mn wall ?w0"
  have zid: "zid z = i" using Some by (rule get_zone_id)
  have "rests k ?w0"
    by (rule rests_step [OF _ _ assms(1)]) (use assms(2) in \<open>simp_all add: zstate_at_begin_start\<close>)
  then have "rests k ?w1" using rests_cong [OF zview_started] by blast
  then have "rests k (switch_on z ?w1)"
    by (rule rests_step [rotated 2]) (use assms(2) zid in \<open>simp_all add: zstate_at_switch_on\<close>)
  then have "rests k (fold (stop_peer i now mn) (if ?g = 0 then [] else get_zones_by_group w ?g) (switch_on z ?w1))"
    by (rule rests_fold [rotated]) (rule rests_stop_peer)
  then show ?thesis
    using Some
    by (cases "real_group ?g"; cases "?g = 0") (simp_all add: exclusive_start_zone_def Let_def)
qed

subsection \<open>One zone of a program\<close>

lemma real_cols_scheduled [simp]: "real_cols (scheduled_cols now)"
  by (simp add: real_cols_def scheduled_cols_def)

text \<open>Up to the audit trail, the versioned write with its fallback is one write of the state helper.\<close>

lemma zview_mark_scheduled: "zview (mark_scheduled_on i now s) = zview (uzs i (scheduled_cols now) r s)"
proof (cases "get_zone s i")
  case None
  then have "\<not> fst (fst (update_zone_versioned i (scheduled_cols now) s))" "snd (update_zone_versioned i (scheduled_cols now) s) = s"
    by (auto simp: update_zone_versioned_def get_zone_def split: if_splits)
  with None show ?thesis by (simp add: mark_scheduled_on_def Let_def update_zone_state_missing)
next
  case (Some z)
  then have "update_zone_versioned i (scheduled_cols now) s = ((True, Some z), put_zone i (versioned_write (scheduled_cols now)) s)"
    using real_cols_scheduled [of now]
    by (auto simp: update_zone_versioned_def get_zone_def real_cols_def split: if_splits)
  then show ?thesis
    by (simp add: mark_scheduled_on_def Let_def update_zone_state_existing [OF Some])
qed

lemma senv_mark_scheduled [simp]: "senv (mark_scheduled_on i now s) = senv s"
  using zview_senv [OF zview_mark_scheduled, of i now s "[]"] by simp

lemma rests_mark_scheduled: "rests k s \<Longrightarrow> k \<noteq> i \<Longrightarrow> rests k (mark_scheduled_on i now s)"
  unfolding rests_cong [OF zview_mark_scheduled [of i now s "[]"]] by (rule rests_uzs) simp_all

lemma rests_peer_off: "rests k s \<Longrightarrow> rests k (peer_off gz s)"
  unfolding peer_off_def by (rule rests_uzs) (auto simp: real_cols_def split: option.splits)

lemma senv_sched [simp]:
  "senv (s\<lparr>active_zones := a\<rparr>) = senv s" "senv (add_log ty is w) = senv w"
  "senv (schedule_zone_hard_stop i t s) = senv s"
  by (simp_all add: senv_def add_log_def schedule_zone_hard_stop_def add_job_def Let_def)

lemma rests_hard_stop [simp]: "rests k (schedule_zone_hard_stop i t s) = rests k s"
  by (simp add: schedule_zone_hard_stop_def Let_def)

lemma senv_start_scheduled: "senv (start_scheduled_zone pid i dur s) = senv s"
  by (simp add: start_scheduled_zone_def Let_def)

lemma rests_start_scheduled: "rests k s \<Longrightarrow> k \<noteq> i \<Longrightarrow> rests k (start_scheduled_zone pid i dur s)"
  by (simp add: start_scheduled_zone_def Let_def rests_update_zone rests_exclusive_start rests_mark_scheduled)

lemma rests_finish_scheduled: "rests k s \<Longrightarrow> rests k (finish_scheduled_zone i s)"
  by (simp add: finish_scheduled_zone_def Let_def rests_stop_zone)

lemma finished_zone_rests: "db_up s \<Longrightarrow> rests i (finish_scheduled_zone i s)"
  by (simp add: finish_scheduled_zone_def Let_def stopped_zone_rests)

subsection \<open>One zone of a sequence\<close>

lemma senv_start_sequence: "senv (start_sequence_zone g z dur s) = senv s"
  by (auto simp: start_sequence_zone_def Let_def zview_senv [OF zview_publish] zview_senv [OF zview_open_master]
      zview_senv [OF zview_runs(1)] split: option.splits)

lemma rests_start_sequence: "rests k s \<Longrightarrow> k \<noteq> zid z \<Longrightarrow> rests k (start_sequence_zone g z dur s)"
  by (simp add: start_sequence_zone_def Let_def rests_uzs real_cols_def split: option.splits)

lemma rests_finish_sequence: "rests k s \<Longrightarrow> rests k (finish_sequence_zone i s)"
  by (simp add: finish_sequence_zone_def Let_def rests_update_zone rests_stop_zone)

lemma finished_sequence_zone_rests: "db_up s \<Longrightarrow> rests i (finish_sequence_zone i s)"
  by (simp add: finish_sequence_zone_def Let_def rests_update_zone stopped_zone_rests)

lemma senv_starts [simp]:
  "senv (clear_group_scheduled_starts g d) = senv d" "senv (set_group_scheduled_starts g sched d) = senv d"
proof -
  show "senv (clear_group_scheduled_starts g d) = senv d" by (simp add: clear_group_scheduled_starts_def senv_def)
  show "senv (set_group_scheduled_starts g sched d) = senv d"
    by (induction g sched d rule: set_group_scheduled_starts.induct) (simp_all add: senv_def)
qed

lemma senv_reschedule: "senv (snd (reschedule_group_to_next_program g ps now d)) = senv d"
  by (simp add: reschedule_group_to_next_program_def split: sum.splits)

subsection \<open>A thread leaves no zone running\<close>

text \<open>The environment keeps the database up and does not itself start the zone.\<close>

locale zone_rely =
  fixes env :: "'a sched_scheme \<Rightarrow> 'a sched_scheme" and k :: int
  assumes env_up: "db_up s \<Longrightarrow> db_up (env s)"
    and env_rests: "rests k s \<Longrightarrow> rests k (env s)"
begin

lemma up_rely: "rely db_up env"
  by unfold_locales (simp_all add: env_up)

lemma rest_rely: "rely (rests k) env"
  by unfold_locales (simp_all add: env_rests)

lemmas wait_up = rely.wait_keeps [OF up_rely]
lemmas wait_rests = rely.wait_keeps [OF rest_rely]
lemmas pad_rests = rely.pad_keeps [OF rest_rely]
lemmas stale_rests = rely.stale_keeps [OF rest_rely]

lemma program_zone_rests: "rests k s \<Longrightarrow> rests k (water_program_zone env pid g i dur s)"
proof -
  assume r: "rests k s"
  define s1 where "s1 = start_scheduled_zone pid i dur (fold peer_off (group_peers s g i) s)"
  define w where "w = wait_loop env (\<lambda>s. group_cancelled s g) g (watering_seconds dur (early_off s1)) s1"
  have p: "rests k (fold peer_off (group_peers s g i) s)" by (rule rests_fold [OF rests_peer_off r])
  have "rests k (finish_scheduled_zone i (snd w))"
  proof (cases "k = i")
    case True
    have "db_up s1" unfolding s1_def using rests_up [OF p] db_up_senv [OF senv_start_scheduled] by blast
    then have "db_up (snd w)" unfolding w_def by (rule wait_up)
    then show ?thesis unfolding True by (rule finished_zone_rests)
  next
    case False
    then have "rests k s1" unfolding s1_def by (intro rests_start_scheduled p)
    then show ?thesis unfolding w_def by (intro rests_finish_scheduled wait_rests)
  qed
  then show ?thesis
    by (simp add: water_program_zone_def Let_def s1_def [symmetric] w_def [symmetric] pad_rests)
qed

lemma postpone_rests: "rests k s \<Longrightarrow> rests k (snd (update_zone_postpone i u r s))"
  by (simp add: rests_def) (simp add: update_zone_postpone_def put_zone_def)

lemma run_program_zone_rests: "rests k s \<Longrightarrow> rests k (snd (run_program_zone env wx manual pid i s))"
  by (auto simp: run_program_zone_def Let_def stale_rests postpone_rests program_zone_rests split: option.splits)

lemma run_program_zones_rests: "rests k s \<Longrightarrow> rests k (snd (run_program_zones env wx manual pid is s))"
proof (induction "is" arbitrary: s)
  case (Cons i "is")
  then have "rests k (snd (run_program_zone env wx manual pid i s))" by (intro run_program_zone_rests)
  then show ?case by (cases "run_program_zone env wx manual pid i s") (auto simp: Cons.IH split: bool.splits)
qed simp

lemma weather_skip_rests: "rests k s \<Longrightarrow> rests k (snd (check_weather_skip x i pid s))"
  by (simp add: check_weather_skip_def)

lemma register_rests: "rests k s \<Longrightarrow> rests k (snd (register_sessions gs s))"
proof (induction gs arbitrary: s)
  case (Cons g gs)
  have "rests k (snd (plant_event g s))"
    using Cons.prems by (simp add: plant_event_def Let_def split: option.splits)
  then show ?case using Cons.IH by (auto split: prod.splits option.splits) (metis snd_conv)+
qed simp

lemma cleanup_rests: "rests k s \<Longrightarrow> rests k (cleanup_sessions reg s)"
  unfolding cleanup_sessions_def by (rule rests_fold) (auto simp: drop_skip_def drop_event_def)

lemma run_program_rests: "rests k s \<Longrightarrow> rests k (run_program env wx pid is manual s)"
proof -
  assume r: "rests k s"
  let ?s2 = "add_log ''program_start'' [pid] (snd (register_sessions (program_gids s is) s))"
  let ?sk = "if manual then (False, ?s2) else check_weather_skip (wx (clk ?s2)) (case is of [] \<Rightarrow> 0 | i # _ \<Rightarrow> i) pid ?s2"
  have "rests k (snd ?sk)" using r by (simp add: register_rests weather_skip_rests)
  moreover from this have "rests k (snd (run_program_zones env wx manual pid is (snd ?sk)))"
    by (rule run_program_zones_rests)
  ultimately have "rests k (if fst ?sk then add_log ''program_weather_skip'' [pid] (snd ?sk)
      else case run_program_zones env wx manual pid is (snd ?sk) of
             (True, s3) \<Rightarrow> s3 | (False, s3) \<Rightarrow> add_log ''program_finish'' [pid] s3)"
    by (auto split: prod.splits bool.splits)
  then show ?thesis using r
    by (simp add: run_program_def Let_def cleanup_rests del: split_paired_All)
qed

lemma sequence_zone_rests: "rests k s \<Longrightarrow> rests k (snd (water_sequence_zone env c g z dur s))"
proof -
  assume r: "rests k s"
  define s1 where "s1 = start_sequence_zone g z dur s"
  define w where "w = wait_loop env (captured_set c) g (watering_seconds dur (early_off s1)) s1"
  have "rests k (finish_sequence_zone (zid z) (snd w))"
  proof (cases "k = zid z")
    case True
    have "db_up s1" unfolding s1_def using rests_up [OF r] db_up_senv [OF senv_start_sequence] by blast
    then have "db_up (snd w)" unfolding w_def by (rule wait_up)
    then show ?thesis unfolding True by (rule finished_sequence_zone_rests)
  next
    case False
    then have "rests k s1" unfolding s1_def by (intro rests_start_sequence r)
    then show ?thesis unfolding w_def by (intro rests_finish_sequence wait_rests)
  qed
  then show ?thesis
    by (simp add: water_sequence_zone_def Let_def s1_def [symmetric] w_def [symmetric] pad_rests)
qed

lemma run_sequence_zones_rests: "rests k s \<Longrightarrow> rests k (run_sequence_zones env wx c g od op manual is s)"
proof (induction "is" arbitrary: s manual)
  case (Cons i "is")
  have st: "rests k (clear_stale_skip g s)" using Cons.prems by (rule stale_rests)
  have w: "rests k (snd (water_sequence_zone env c g z dur (clear_stale_skip g s)))" for z dur
    by (rule sequence_zone_rests [OF st])
  have next_zone: "rests k (case water_sequence_zone env c g z dur (clear_stale_skip g s) of
      (True, s2) \<Rightarrow> s2 | (False, s2) \<Rightarrow> run_sequence_zones env wx c g od op mn is s2)" for z dur mn
    using w [of z dur] by (auto intro: Cons.IH split: prod.splits bool.splits)
  show ?case using Cons.prems
    by (auto simp: Let_def intro: Cons.IH st next_zone split: option.splits)
qed simp

lemma reschedule_rests: "rests k s \<Longrightarrow> rests k (snd (reschedule_group_to_next_program g ps now s))"
  by (rule rests_step [OF senv_reschedule]) simp_all

lemma finish_sequence_rests: "rests k s \<Longrightarrow> rests k (finish_sequence c g s)"
  by (auto simp: finish_sequence_def drop_skip_def drop_event_def split: option.splits)

lemma run_group_sequence_rests: "rests k s \<Longrightarrow> rests k (run_group_sequence env wx g is od op manual s)"
proof -
  assume r: "rests k s"
  let ?sk = "if manual then (False, s) else check_weather_skip (wx (clk s)) (case is of [] \<Rightarrow> 0 | i # _ \<Rightarrow> i) 0 s"
  have "rests k (snd ?sk)" using r by (simp add: weather_skip_rests)
  then have "rests k (run_sequence_zones env wx c g od op manual is (snd ?sk))" for c
    by (rule run_sequence_zones_rests)
  moreover have "rests k (snd ?sk)" by fact
  ultimately show ?thesis
    unfolding run_group_sequence_def Let_def
    by (intro finish_sequence_rests) (auto simp: reschedule_rests split: option.splits)
qed

end

text \<open>
  The environment of the witnesses: at given seconds the API cancels groups, skips or stops zones,
  pulls the emergency stop or shuts the process down.
\<close>

datatype request = Ask_Cancel int bool | Ask_Skip int | Ask_Stop int string | Ask_Emergency string | Ask_Shutdown

fun serve :: "request \<Rightarrow> 'a sched_scheme \<Rightarrow> 'a sched_scheme" where
  "serve (Ask_Cancel g imm) s = snd (cancel_group_jobs g imm s)"
| "serve (Ask_Skip g) s = snd (request_skip_current_zone g s)"
| "serve (Ask_Stop i reason) s = snd (stop_zone i reason False False False (now_of s) (mono_of s) (wall_of s) s)"
| "serve (Ask_Emergency reason) s = snd (emergency_stop_all reason (now_of s) (mono_of s) (wall_of s) s)"
| "serve Ask_Shutdown s = s\<lparr>shutdown := True\<rparr>"

definition request_env :: "(nat \<Rightarrow> request list) \<Rightarrow> 'a sched_scheme \<Rightarrow> 'a sched_scheme" where
  "request_env reqs s = fold serve (reqs (clk s)) s"

lemma rests_stop_all: "rests k w \<Longrightarrow> rests k (stop_all_in_group g reason force imm skip now mn wall w)"
  unfolding stop_all_in_group_def by (rule rests_fold [OF rests_stop_zone])

lemma rests_emergency: "rests k w \<Longrightarrow> rests k (snd (emergency_stop_all reason now mn wall w))"
proof -
  assume r: "rests k w"
  have a: "rests k (snd nw) \<Longrightarrow> rests k (snd (fold (stop_group_zones reason now mn wall) gs nw))" for gs and nw :: "nat \<times> 'a world_scheme"
    by (induction gs arbitrary: nw) (simp_all add: stop_group_zones_def rests_stop_all)
  have b: "rests k u \<Longrightarrow> rests k (snd (emergency_phase_b reason now mn wall gs u))" for gs and u :: "'a world_scheme"
    by (simp add: emergency_phase_b_def Let_def) (rule rests_fold [OF rests_stop_zone])
  have c: "rests k u \<Longrightarrow> rests k (snd (emergency_phase_c gs u))" for gs and u :: "'a world_scheme"
    using rests_cong [OF zview_phase_c [of gs "(([], no_stats), u)"]] by (simp add: emergency_phase_c_def Let_def)
  show ?thesis using r by (simp add: emergency_stop_all_def emergency_phase_a_def Let_def a b c)
qed

lemma rests_cancel_group: "rests k s \<Longrightarrow> rests k (snd (cancel_group_jobs g imm s))"
proof -
  assume r: "rests k s"
  define t where "t = group_stopped g imm (set_cancelled g s)"
  have "rests k (set_cancelled g s)" using r rests_cong [OF set_cancelled_simps(1)] by blast
  then have "rests k t" by (simp add: t_def group_stopped_def rests_stop_all)
  moreover have "rests k (fold (\<lambda>z. cancel_zone_jobs (zid z)) zs t) = rests k t" for zs
    by (rule rests_cong [OF fold_cancel_fields(4)])
  ultimately have "rests k (remove_jobs_where (is_group_seq_job g) (fold (\<lambda>z. cancel_zone_jobs (zid z)) zs t))" for zs
    by simp
  then show ?thesis
    by (simp add: cancel_group_jobs_eq Let_def t_def [symmetric])
      (rule rests_step [OF senv_reschedule], simp_all)
qed

lemma rests_serve: "rests k s \<Longrightarrow> rests k (serve q s)"
proof (cases q)
  case (Ask_Skip g)
  assume "rests k s"
  moreover have "zview (serve q s) = zview s" by (simp add: Ask_Skip request_skip_current_zone_def zview_def)
  ultimately show ?thesis using rests_cong by blast
next
  case Ask_Shutdown
  assume "rests k s"
  moreover have "zview (serve q s) = zview s" by (simp add: Ask_Shutdown zview_def)
  ultimately show ?thesis using rests_cong by blast
qed (simp_all add: rests_cancel_group rests_stop_zone rests_emergency)

lemma up_from_rests:
  assumes "\<And>k. rests k d \<Longrightarrow> rests k (f d)" "db_up d"
  shows "db_up (f d)"
proof -
  obtain k :: int where "k \<notin> zid ` set (zones d)" using ex_new_if_finite [of "zid ` set (zones d)"] by auto
  then have "row_at zid (zones d) k = None" by (simp add: row_at_None_iff)
  then have "rests k d" using assms(2) by (simp add: rests_def zstate_at_def get_zone_def)
  then show ?thesis using assms(1) rests_up by blast
qed

interpretation requests: zone_rely "request_env reqs" k for reqs k
proof
  have rest: "rests j s \<Longrightarrow> rests j (request_env reqs s)" for j and s :: "'a sched_scheme"
    unfolding request_env_def by (rule rests_fold [OF rests_serve])
  then show "rests k s \<Longrightarrow> rests k (request_env reqs s)" for s :: "'a sched_scheme" .
  show "db_up s \<Longrightarrow> db_up (request_env reqs s)" for s :: "'a sched_scheme"
    by (rule up_from_rests [of s "request_env reqs", OF rest])
qed

text \<open>
  C1: a scheduled program turns off what it turns on.  Take any zone, listed in the program or not,
  that is at rest when the program's thread starts, and let the rest of the process do anything at
  any second except start that zone: cancel groups, skip zones, stop them, pull the emergency stop,
  shut down.  When the thread ends, for whatever reason, the zone is at rest.
\<close>

theorem program_leaves_no_zone_running:
  assumes "\<And>s. db_up s \<Longrightarrow> db_up (env s)" "\<And>s. rests k s \<Longrightarrow> rests k (env s)" "rests k s"
  shows "rests k (run_program env wx pid is manual s)"
  by (rule zone_rely.run_program_rests [OF zone_rely.intro assms(3)]) (rule assms(1,2), assumption)+

definition idle_sched :: sched where
  "idle_sched = fresh_sched idle_world"

lemma idle_rests: "rests k idle_sched"
proof -
  have z: "zones idle_sched = [demo_zone 1 ''off'', demo_zone 2 ''off'']" "db_up idle_sched"
    by (simp_all add: idle_sched_def fresh_sched_def idle_world_def boot_world_def world.defs)
  show ?thesis by (simp add: rests_def zstate_at_def get_zone_def z)
qed

theorem program_leaves_no_zone_running_witness:
  "rests 1 (run_program (request_env ((\<lambda>_. [])(3 := [Ask_Cancel 1 False], 70 := [Ask_Shutdown])))
     (\<lambda>_. \<lparr>wx_enabled = True, wx_skip = False, wx_coeff = 80\<rparr>) 7 [1, 2] False idle_sched)"
  by (rule program_leaves_no_zone_running [OF requests.env_up requests.env_rests idle_rests])

text \<open>
  A group sequence turns off what it turns on, under the same conditions.
\<close>

theorem sequence_leaves_no_zone_running:
  assumes "\<And>s. db_up s \<Longrightarrow> db_up (env s)" "\<And>s. rests k s \<Longrightarrow> rests k (env s)" "rests k s"
  shows "rests k (run_group_sequence env wx g is od op manual s)"
  by (rule zone_rely.run_group_sequence_rests [OF zone_rely.intro assms(3)]) (rule assms(1,2), assumption)+

theorem sequence_leaves_no_zone_running_witness:
  "rests 1 (run_group_sequence (request_env ((\<lambda>_. [])(5 := [Ask_Skip 1])))
     (\<lambda>_. \<lparr>wx_enabled = False, wx_skip = False, wx_coeff = 100\<rparr>) 1 [1, 2] (Some 1) None True idle_sched)"
  by (rule sequence_leaves_no_zone_running [OF requests.env_up requests.env_rests idle_rests])

end
