(* ===== verification/Thread_Laws.thy ===== *)
theory Thread_Laws
  imports Runner_Laws
begin

text \<open>
  Sessions, cancellation and time of the watering threads: what a thread does to the session table,
  that it leaves a cancelled group alone, and how long it runs.
\<close>

subsection \<open>What the body of a thread never touches\<close>

text \<open>The sessions, the shutdown flag and the clock: between waits a thread changes none of them.\<close>

definition core :: "'a sched_scheme \<Rightarrow> (int \<Rightarrow> nat option) \<times> (nat \<Rightarrow> bool) \<times> bool \<times> nat \<times> int \<times> time" where
  "core s = (cancel_events s, event_set s, shutdown s, clk s, early_off s, boot_now s)"

lemma core_of_more: "world.more s = world.more s' \<Longrightarrow> core s = core s'" for s s' :: "'a sched_scheme"
  using sched_of_more [of s s'] by (simp add: core_def)

lemma core_fields:
  assumes "core s = core s'"
  shows "cancel_events s = cancel_events s'" "event_set s = event_set s'" "shutdown s = shutdown s'"
    "clk s = clk s'" "early_off s = early_off s'" "boot_now s = boot_now s'"
  using assms by (simp_all add: core_def)

lemma core_sched [simp]:
  "core (s\<lparr>active_zones := a\<rparr>) = core s" "core (s\<lparr>jobs := js\<rparr>) = core s" "core (s\<lparr>skip_events := f\<rparr>) = core s"
  by (simp_all add: core_def)

lemma zgroups_sched [simp]:
  "zgroups (s\<lparr>active_zones := a\<rparr>) = zgroups s" "zgroups (s\<lparr>jobs := js\<rparr>) = zgroups s"
  "zgroups (s\<lparr>skip_events := f\<rparr>) = zgroups s" "zgroups (s\<lparr>clk := n\<rparr>) = zgroups s"
  by (simp_all add: zgroups_def)

lemma hard_stop_frame [simp]:
  "core (schedule_zone_hard_stop i t s) = core s" "zgroups (schedule_zone_hard_stop i t s) = zgroups s"
  by (simp_all add: schedule_zone_hard_stop_def add_job_def Let_def)

lemma more_start [keeps_sched]:
  "world.more (snd (create_zone_run i g st mn raw l b src w)) = world.more w"
  "world.more (open_master g w) = world.more w" "world.more (begin_start i z now w) = world.more w"
  "world.more (switch_on z w) = world.more w"
  by (auto simp: create_zone_run_def Let_def open_master_def begin_start_def switch_on_def keeps_sched split: option.splits)

lemma more_open_run [keeps_sched]: "world.more (open_run i g src now mn wall w) = world.more w"
  by (simp add: open_run_def keeps_sched split: option.splits)

lemma more_stop_peer [keeps_sched]: "world.more (stop_peer self now mn p w) = world.more w"
  by (simp add: stop_peer_def finish_peer_run_def mark_stopping_def Let_def keeps_sched split: option.splits)

lemma more_exclusive_start [keeps_sched]: "world.more (snd (exclusive_start_zone i src now mn wall w)) = world.more w"
  by (simp add: exclusive_start_zone_def Let_def keeps_sched more_fold split: option.splits)

lemma more_versioned [keeps_sched]: "world.more (snd (update_zone_versioned i us w)) = world.more w"
  by (rule db_more_world) (simp add: frame_simps)

lemma more_mark_scheduled [keeps_sched]: "world.more (mark_scheduled_on i now s) = world.more s"
proof -
  have "world.more (snd (update_zone_versioned i us s)) = world.more s" for us by (simp add: keeps_sched)
  then show ?thesis by (simp add: mark_scheduled_on_def Let_def keeps_sched split: option.splits)
qed

lemma more_peer_off [keeps_sched]: "world.more (peer_off gz s) = world.more s"
  by (simp add: peer_off_def keeps_sched split: option.splits)

lemma zgroups_versioned: "list_all keeps_group us \<Longrightarrow> real_cols us \<Longrightarrow> zgroups (snd (update_zone_versioned i us d)) = zgroups d"
  by (auto simp: update_zone_versioned_def versioned_write_def group_id_set_cols intro!: zgroups_put split: option.splits)

lemma zgroups_mark_scheduled [simp]: "zgroups (mark_scheduled_on i now s) = zgroups s"
proof -
  have k: "list_all keeps_group (scheduled_cols now)" by (simp add: scheduled_cols_def)
  have v: "zgroups (snd (update_zone_versioned i (scheduled_cols now) s)) = zgroups s" by (rule zgroups_versioned) (simp_all add: k)
  then show ?thesis by (simp add: mark_scheduled_on_def Let_def zgroups_uzs k split: option.splits)
qed

lemma zgroups_peer_off [simp]: "zgroups (peer_off gz s) = zgroups s"
  by (simp add: peer_off_def zgroups_uzs real_cols_def split: option.splits)

lemma frame_fold:
  assumes "\<And>x s. core (f x s) = core s" "\<And>x s. zgroups (f x s) = zgroups s"
  shows "core (fold f xs s) = core s" "zgroups (fold f xs s) = zgroups s"
  by (induction xs arbitrary: s) (simp_all add: assms)

lemma add_log_core [simp]: "core (add_log ty is s) = core s"
  by (rule core_of_more) (simp add: keeps_sched)

lemma start_scheduled_frame [simp]:
  "core (start_scheduled_zone pid i dur s) = core s" "zgroups (start_scheduled_zone pid i dur s) = zgroups s"
  by (simp_all add: start_scheduled_zone_def Let_def zgroups_update_zone core_of_more [OF more_update_zone]
      core_of_more [OF more_exclusive_start] core_of_more [OF more_mark_scheduled])

lemma finish_scheduled_frame [simp]:
  "core (finish_scheduled_zone i s) = core s" "zgroups (finish_scheduled_zone i s) = zgroups s"
  by (simp_all add: finish_scheduled_zone_def Let_def core_of_more [OF more_stop_zone])

lemma peers_off_frame [simp]: "core (fold peer_off zs s) = core s" "zgroups (fold peer_off zs s) = zgroups s"
  by (rule frame_fold, simp_all add: core_of_more [OF more_peer_off])+

lemma postpone_frame [simp]:
  "core (snd (update_zone_postpone i u r s)) = core s" "zgroups (snd (update_zone_postpone i u r s)) = zgroups s"
proof -
  show "core (snd (update_zone_postpone i u r s)) = core s" by (rule core_of_more) (rule more_postpone)
  show "zgroups (snd (update_zone_postpone i u r s)) = zgroups s"
    unfolding update_zone_postpone_def
    by (cases "db_up s") (simp_all add: group_id_set_cols zgroups_put del: set_cols_simps)
qed

lemma stale_frame [simp]: "core (clear_stale_skip g s) = core s" "zgroups (clear_stale_skip g s) = zgroups s"
  by (simp_all add: clear_stale_skip_def)

lemma weather_frame [simp]:
  "core (snd (check_weather_skip x i pid s)) = core s" "zgroups (snd (check_weather_skip x i pid s)) = zgroups s"
  by (simp_all add: check_weather_skip_def)

lemma start_sequence_frame [simp]:
  "core (start_sequence_zone g z dur s) = core s" "zgroups (start_sequence_zone g z dur s) = zgroups s"
  by (auto simp: start_sequence_zone_def Let_def core_of_more [OF more_start(1)] core_of_more [OF more_start(2)]
      core_of_more [OF more_publish] core_of_more [OF more_uzs] zgroups_uzs real_cols_def split: option.splits)

lemma finish_sequence_frame [simp]:
  "core (finish_sequence_zone i s) = core s" "zgroups (finish_sequence_zone i s) = zgroups s"
  by (simp_all add: finish_sequence_zone_def Let_def core_of_more [OF more_stop_zone] core_of_more [OF more_update_zone]
      zgroups_update_zone)

subsection \<open>A thread under a rely condition\<close>

text \<open>A condition on the sessions, the flags and the zone table, which the environment keeps.\<close>

locale thread_rely = rely J env
  for J :: "'a sched_scheme \<Rightarrow> bool" and env :: "'a sched_scheme \<Rightarrow> 'a sched_scheme" +
  assumes frame: "core s' = core s \<Longrightarrow> zgroups s' = zgroups s \<Longrightarrow> J s \<Longrightarrow> J s'"
begin

lemma water_program_keeps: "J s \<Longrightarrow> J (water_program_zone env pid g i dur s)"
proof -
  assume j: "J s"
  define s1 where "s1 = start_scheduled_zone pid i dur (fold peer_off (group_peers s g i) s)"
  define w where "w = wait_loop env (\<lambda>s. group_cancelled s g) g (watering_seconds dur (early_off s1)) s1"
  have "J s1" by (rule frame [OF _ _ j]) (simp_all add: s1_def)
  then have "J (snd w)" unfolding w_def by (rule wait_keeps)
  then have f: "J (finish_scheduled_zone i (snd w))" by (rule frame [rotated 2]) simp_all
  then have "J (add_log ''zone_skip'' [pid, g, i] (finish_scheduled_zone i (snd w)))" by (rule frame [rotated 2]) simp_all
  then show ?thesis using f
    by (simp add: water_program_zone_def Let_def s1_def [symmetric] w_def [symmetric] pad_keeps)
qed

lemma run_program_zone_keeps: "J s \<Longrightarrow> J (snd (run_program_zone env wx manual pid i s))"
proof -
  assume j: "J s"
  have st: "J (clear_stale_skip g s)" for g by (rule frame [OF _ _ j]) simp_all
  then have "J (snd (update_zone_postpone i u r (clear_stale_skip g s)))" for u r g
    by (rule frame [rotated 2]) simp_all
  with st j show ?thesis
    by (auto simp: run_program_zone_def Let_def water_program_keeps split: option.splits)
qed

lemma run_program_zones_keeps: "J s \<Longrightarrow> J (snd (run_program_zones env wx manual pid is s))"
proof (induction "is" arbitrary: s)
  case (Cons i "is")
  then have "J (snd (run_program_zone env wx manual pid i s))" by (intro run_program_zone_keeps)
  then show ?case by (cases "run_program_zone env wx manual pid i s") (auto simp: Cons.IH split: bool.splits)
qed simp

lemma water_sequence_keeps: "J s \<Longrightarrow> J (snd (water_sequence_zone env c g z dur s))"
proof -
  assume j: "J s"
  define s1 where "s1 = start_sequence_zone g z dur s"
  define w where "w = wait_loop env (captured_set c) g (watering_seconds dur (early_off s1)) s1"
  have "J s1" by (rule frame [OF _ _ j]) (simp_all add: s1_def)
  then have "J (snd w)" unfolding w_def by (rule wait_keeps)
  then have f: "J (finish_sequence_zone (zid z) (snd w))" by (rule frame [rotated 2]) simp_all
  then have "J (add_log ''zone_skip'' [g, zid z] (finish_sequence_zone (zid z) (snd w)))" by (rule frame [rotated 2]) simp_all
  then show ?thesis using f
    by (simp add: water_sequence_zone_def Let_def s1_def [symmetric] w_def [symmetric] pad_keeps)
qed

lemma run_sequence_zones_keeps: "J s \<Longrightarrow> J (run_sequence_zones env wx c g od op manual is s)"
proof (induction "is" arbitrary: s manual)
  case (Cons i "is")
  have st: "J (clear_stale_skip g s)" by (rule frame [OF _ _ Cons.prems]) simp_all
  have "J (snd (water_sequence_zone env c g z dur (clear_stale_skip g s)))" for z dur
    by (rule water_sequence_keeps [OF st])
  then have next_zone: "J (case water_sequence_zone env c g z dur (clear_stale_skip g s) of
      (True, s2) \<Rightarrow> s2 | (False, s2) \<Rightarrow> run_sequence_zones env wx c g od op mn is s2)" for z dur mn
    by (auto simp: case_prod_beta intro: Cons.IH split: bool.splits)
  show ?case using Cons.prems
    by (auto simp: Let_def intro: Cons.IH st next_zone split: option.splits)
qed simp

end

subsection \<open>Sessions\<close>

lemma plant_event_at:
  assumes "cancel_events s g = None"
  shows "plant_event g s = (Some (next_event s), snd (plant_event g s))"
    "cancel_events (snd (plant_event g s)) = (cancel_events s)(g \<mapsto> next_event s)"
  using assms by (simp_all add: plant_event_def Let_def)

lemma register_sessions_free:
  assumes "distinct gs" "\<forall>g \<in> set gs. cancel_events s g = None"
  shows "map fst (fst (register_sessions gs s)) = gs
    \<and> (\<forall>g e. (g, e) \<in> set (fst (register_sessions gs s)) \<longrightarrow> cancel_events (snd (register_sessions gs s)) g = Some e)
    \<and> (\<forall>g. g \<notin> set gs \<longrightarrow> cancel_events (snd (register_sessions gs s)) g = cancel_events s g)"
  using assms
proof (induction gs arbitrary: s)
  case (Cons g gs)
  let ?e = "next_event s" and ?s1 = "snd (plant_event g s)"
  have free: "cancel_events s g = None" using Cons.prems(2) by simp
  note pl = plant_event_at [OF free]
  have "\<forall>h \<in> set gs. cancel_events ?s1 h = None" using Cons.prems by (auto simp: pl(2))
  then have IH: "map fst (fst (register_sessions gs ?s1)) = gs"
    "\<forall>h e. (h, e) \<in> set (fst (register_sessions gs ?s1)) \<longrightarrow> cancel_events (snd (register_sessions gs ?s1)) h = Some e"
    "\<forall>h. h \<notin> set gs \<longrightarrow> cancel_events (snd (register_sessions gs ?s1)) h = cancel_events ?s1 h"
    using Cons.IH [of ?s1] Cons.prems(1) by auto
  have reg: "register_sessions (g # gs) s = ((g, ?e) # fst (register_sessions gs ?s1), snd (register_sessions gs ?s1))"
    by (subst register_sessions.simps, subst pl(1)) (simp add: case_prod_beta)
  show ?case using IH Cons.prems(1) by (auto simp: reg pl(2) simp del: register_sessions.simps)
qed simp

lemma drop_session_at:
  "cancel_events (drop_skip g (drop_event g e s)) h =
     (if h = g \<and> cancel_events s g = Some e then None else cancel_events s h)"
  by (simp add: drop_skip_def drop_event_def)

text \<open>The clean-up removes exactly the sessions that are still the ones registered.\<close>

lemma cleanup_sessions_at:
  "distinct (map fst reg) \<Longrightarrow> cancel_events (cleanup_sessions reg s) h =
     (if \<exists>e. (h, e) \<in> set reg \<and> cancel_events s h = Some e then None else cancel_events s h)"
proof (induction reg arbitrary: s)
  case (Cons p reg)
  obtain g e where p: "p = (g, e)" by force
  have "h = g \<Longrightarrow> (h, e') \<notin> set reg" for e' using Cons.prems by (auto simp: p rev_image_eqI)
  then show ?case using Cons by (auto simp: cleanup_sessions_def p drop_session_at)
qed (simp add: cleanup_sessions_def)

lemma session_rely:
  assumes "\<And>s. cancel_events (env s) g = cancel_events s g"
  shows "thread_rely (\<lambda>s. cancel_events s g = c) env"
  by unfold_locales (simp_all add: assms core_def)

text \<open>
  C14: a program's sessions end with it.  If the rest of the process neither opens nor closes a
  session of group \<open>g\<close> while the thread runs, then, whatever way the thread ends (finished, skipped
  because of the weather or of a manual run, aborted by an error), the session table shows for \<open>g\<close>
  what it showed before: no group stays blocked and no other session is closed.
\<close>

theorem program_restores_sessions:
  assumes "\<And>s. cancel_events (env s) g = cancel_events s g"
  shows "cancel_events (run_program env wx pid is manual s) g = cancel_events s g"
proof (cases "filter (is_group_session_active s) (program_gids s is) = []")
  case False
  then show ?thesis by (simp add: run_program_def Let_def add_log_def)
next
  case True
  let ?gids = "program_gids s is"
  define reg where "reg = register_sessions ?gids s"
  let ?s2 = "add_log ''program_start'' [pid] (snd reg)"
  define sk where "sk = (if manual then (False, ?s2) else check_weather_skip (wx (clk ?s2)) (case is of [] \<Rightarrow> 0 | i # _ \<Rightarrow> i) pid ?s2)"
  define r where "r = run_program_zones env wx manual pid is (snd sk)"
  define u where "u = (if fst sk then add_log ''program_weather_skip'' [pid] (snd sk)
      else case r of (True, s3) \<Rightarrow> s3 | (False, s3) \<Rightarrow> add_log ''program_finish'' [pid] s3)"
  have run: "run_program env wx pid is manual s = cleanup_sessions (fst reg) u"
    using True by (simp add: run_program_def Let_def reg_def u_def sk_def r_def)
  have dist: "distinct ?gids" by (simp add: program_gids_def)
  have free: "\<forall>g \<in> set ?gids. cancel_events s g = None"
    using True by (auto simp: filter_empty_conv is_group_session_active_def)
  note reg_facts = register_sessions_free [OF dist free, folded reg_def]
  have "core (snd sk) = core (snd reg)" by (simp add: sk_def)
  then have sk_ev: "cancel_events (snd sk) = cancel_events (snd reg)" by (rule core_fields)
  have "cancel_events (snd r) g = cancel_events (snd sk) g"
    unfolding r_def by (rule thread_rely.run_program_zones_keeps [OF session_rely]) (simp_all add: assms)
  then have "cancel_events u g = cancel_events (snd reg) g"
    using sk_ev by (auto simp: u_def add_log_def case_prod_beta split: bool.splits)
  moreover have dr: "distinct (map fst (fst reg))" and gids: "fst ` set (fst reg) = set ?gids"
    using dist reg_facts by (simp, simp flip: set_map)
  moreover have "\<exists>e. (g, e) \<in> set (fst reg) \<and> cancel_events (snd reg) g = Some e" if "g \<in> set ?gids"
    using that reg_facts unfolding gids [symmetric] by auto
  moreover have "(g, e) \<notin> set (fst reg)" if "g \<notin> set ?gids" for e
    using that unfolding gids [symmetric] by force
  ultimately show ?thesis
    using reg_facts free unfolding run by (cases "g \<in> set ?gids") (simp_all add: cleanup_sessions_at)
qed

theorem program_restores_sessions_witness:
  "cancel_events (run_program (\<lambda>s. s) (\<lambda>_. \<lparr>wx_enabled = True, wx_skip = True, wx_coeff = 100\<rparr>) 7 [1, 2] False idle_sched) 1 = None"
  using program_restores_sessions [of "\<lambda>s. s" 1 "\<lambda>_. \<lparr>wx_enabled = True, wx_skip = True, wx_coeff = 100\<rparr>" 7 "[1, 2]" False idle_sched]
  by (simp add: idle_sched_def)

text \<open>
  A sequence ends the session of its group even when it does not own it.  The event was planted
  by whoever came first, for example by a scheduled program that is still watering the group; the
  sequence's clean-up removes it all the same, and from then on the program has no session: it
  cannot be cancelled, and a manual start no longer sees it.
\<close>

theorem sequence_ends_foreign_session:
  assumes "\<And>s. cancel_events (env s) g = cancel_events s g"
  shows "cancel_events (run_group_sequence env wx g is od op manual s) g = None"
proof -
  let ?sk = "if manual then (False, s) else check_weather_skip (wx (clk s)) (case is of [] \<Rightarrow> 0 | i # _ \<Rightarrow> i) 0 s"
  let ?c = "cancel_events s g"
  have sk: "cancel_events (snd ?sk) g = ?c" using core_fields(1) [of "snd ?sk" s] by simp
  define s1 where "s1 = run_sequence_zones env wx ?c g od op manual is (snd ?sk)"
  have "cancel_events s1 g = ?c"
    unfolding s1_def using sk by (rule thread_rely.run_sequence_zones_keeps [OF session_rely, rotated]) (rule assms)
  moreover have "cancel_events (snd (reschedule_group_to_next_program g ps now s1)) = cancel_events s1" for ps now
    by (rule core_fields(1) [OF core_of_more]) (rule more_reschedule)
  moreover define u where "u = (if fst ?sk then add_log ''group_weather_skip'' [g] (snd ?sk)
      else let r = reschedule_group_to_next_program g (get_programs s1) (now_of s1) s1
           in case fst r of None \<Rightarrow> add_log ''group_seq_complete'' (g # is) (snd r) | Some e \<Rightarrow> snd r)"
  moreover have "cancel_events (add_log ty ks w) = cancel_events w" for ty ks and w :: "'a sched_scheme"
    by (simp add: add_log_def)
  ultimately have "cancel_events u g = ?c" using sk by (auto simp: Let_def split: option.splits)
  moreover have "run_group_sequence env wx g is od op manual s = finish_sequence ?c g u"
    by (simp add: run_group_sequence_def u_def s1_def Let_def)
  ultimately show ?thesis
    by (cases ?c) (simp_all add: finish_sequence_def drop_skip_def drop_event_def)
qed

theorem sequence_ends_foreign_session_witness:
  "is_group_session_active (idle_sched\<lparr>cancel_events := [1 \<mapsto> 0]\<rparr>) 1
   \<and> \<not> is_group_session_active (run_group_sequence (\<lambda>s. s) (\<lambda>_. \<lparr>wx_enabled = False, wx_skip = False, wx_coeff = 100\<rparr>)
        1 [1, 2] (Some 1) None True (idle_sched\<lparr>cancel_events := [1 \<mapsto> 0]\<rparr>)) 1"
  using sequence_ends_foreign_session [of "\<lambda>s. s" 1 "\<lambda>_. \<lparr>wx_enabled = False, wx_skip = False, wx_coeff = 100\<rparr>"
      "[1, 2]" "Some 1" None True "idle_sched\<lparr>cancel_events := [1 \<mapsto> 0]\<rparr>"]
  by (simp add: is_group_session_active_def)

subsection \<open>A cancelled group\<close>

definition gid_at :: "'a db_scheme \<Rightarrow> int \<Rightarrow> int option" where
  "gid_at d i = map_option zone_gid (get_zone d i)"

lemma row_at_fst_map: "row_at fst (map (\<lambda>z. (zid z, h z)) zs) i = map_option (\<lambda>z. (zid z, h z)) (row_at zid zs i)"
  by (induction zs) auto

lemma gid_at_zgroups:
  "gid_at d i = (if fst (snd (zgroups d)) then map_option (\<lambda>p. int_or0 (fst (snd p))) (row_at fst (fst (zgroups d)) i) else None)"
proof -
  have "zone_gid = (\<lambda>z. int_or0 (group_id z))" by (simp add: fun_eq_iff zone_gid_def)
  then show ?thesis by (simp add: gid_at_def get_zone_def zgroups_def row_at_fst_map option.map_comp comp_def)
qed

lemma gid_at_cong: "zgroups d = zgroups d' \<Longrightarrow> gid_at d = gid_at d'"
  by (simp add: fun_eq_iff gid_at_zgroups)

text \<open>Group \<open>g\<close> is cancelled and the zones are those of the store \<open>d\<close>.\<close>

definition group_off :: "int \<Rightarrow> 'b db_scheme \<Rightarrow> 'a sched_scheme \<Rightarrow> bool" where
  "group_off g d s = (group_cancelled s g \<and> zgroups s = zgroups d)"

lemma group_off_rely:
  assumes "\<And>s. group_off g d s \<Longrightarrow> group_off g d (env s)"
  shows "thread_rely (group_off g d) env"
proof
  show "core s' = core s \<Longrightarrow> zgroups s' = zgroups s \<Longrightarrow> group_off g d s \<Longrightarrow> group_off g d s'" for s s' :: "'a sched_scheme"
    using core_fields(1,2) [of s' s] by (auto simp: group_off_def group_cancelled_def split: option.splits)
qed (simp_all add: assms, auto simp: group_off_def group_cancelled_def split: option.splits)

text \<open>
  C13: a cancelled group is left alone by the program that is watering it.  While the cancel flag of
  group \<open>g\<close> is set and the zones stay in their groups, the program does exactly what it would do if
  the remaining zones of the group were not in its list: nothing is published, written or logged for
  them, and the zones of the other groups are watered as before.
\<close>

theorem cancelled_group_is_skipped:
  assumes "\<And>s. group_off g d s \<Longrightarrow> group_off g d (env s)" "group_off g d s"
  shows "run_program_zones env wx manual pid is s
       = run_program_zones env wx manual pid (filter (\<lambda>i. gid_at d i \<noteq> Some g) is) s"
  using assms(2)
proof (induction "is" arbitrary: s)
  case (Cons i "is")
  have keep: "group_off g d (snd (run_program_zone env wx manual pid i s))"
    by (rule thread_rely.run_program_zone_keeps [OF group_off_rely Cons.prems]) (rule assms(1))
  have gid: "gid_at s i = gid_at d i" using gid_at_cong [of s d] Cons.prems by (simp add: group_off_def gid_at_zgroups)
  show ?case
  proof (cases "gid_at d i = Some g")
    case True
    then have "run_program_zone env wx manual pid i s = (False, s)"
      using gid Cons.prems by (auto simp: gid_at_def run_program_zone_def group_off_def Let_def)
    then show ?thesis using Cons True by simp
  next
    case False
    then show ?thesis using Cons.IH keep
      by (cases "run_program_zone env wx manual pid i s") (auto split: bool.splits)
  qed
qed simp

definition cancelled_sched :: sched where
  "cancelled_sched = idle_sched\<lparr>cancel_events := [1 \<mapsto> 0], event_set := (\<lambda>_. True)\<rparr>"

lemma idle_sched_rows: "zones idle_sched = [demo_zone 1 ''off'', demo_zone 2 ''off'']" "db_up idle_sched"
  by (simp_all add: idle_sched_def idle_world_def boot_world_def)

theorem cancelled_group_is_skipped_witness:
  "run_program_zones (\<lambda>s. s) (\<lambda>_. \<lparr>wx_enabled = False, wx_skip = False, wx_coeff = 100\<rparr>) True 7 [1, 2] cancelled_sched
     = (False, cancelled_sched)"
proof -
  have "group_off 1 cancelled_sched cancelled_sched"
    by (simp add: group_off_def group_cancelled_def cancelled_sched_def)
  moreover have "gid_at cancelled_sched 1 = Some 1" "gid_at cancelled_sched 2 = Some 1"
    by (simp_all add: gid_at_def get_zone_def cancelled_sched_def idle_sched_rows)
  ultimately show ?thesis
    using cancelled_group_is_skipped [of 1 cancelled_sched "\<lambda>s. s" cancelled_sched
        "\<lambda>_. \<lparr>wx_enabled = False, wx_skip = False, wx_coeff = 100\<rparr>" True 7 "[1, 2]"] by simp
qed

subsection \<open>How long a thread runs\<close>

lemma wait_clock:
  assumes "\<And>s. clk (env s) = clk s"
  shows "clk (snd (wait_loop env stop g n s)) \<le> clk s + n"
proof (induction n arbitrary: s)
  case (Suc n)
  have "clk (tick env s) = clk s + 1" for s :: "'a sched_scheme" by (simp add: tick_def assms)
  then show ?case using Suc [of "tick env s"] by (auto simp: Let_def)
qed simp

lemma pad_clock:
  assumes "\<And>s. clk (env s) = clk s"
  shows "clk (pad_loop env stop n s) \<le> clk s + n"
proof (induction n arbitrary: s)
  case (Suc n)
  have "clk (tick env s) = clk s + 1" for s :: "'a sched_scheme" by (simp add: tick_def assms)
  then show ?case using Suc [of "tick env s"] by (auto simp: Let_def)
qed simp

lemma clamp_early_bounds: "0 \<le> clamp_early e" "clamp_early e \<le> 15"
  by (simp_all add: clamp_early_def)

lemma watering_plus_pad: "0 < dur \<Longrightarrow> int (watering_seconds dur e) + int (nat (clamp_early e)) = 60 * dur"
  using clamp_early_bounds [of e] by (simp add: watering_seconds_def)

lemma clk_frame: "core s = core s' \<Longrightarrow> clk s = clk s'"
  by (rule core_fields)

lemma water_program_clock:
  assumes "\<And>s. clk (env s) = clk s" "0 < dur"
  shows "int (clk (water_program_zone env pid g i dur s)) \<le> int (clk s) + 60 * dur"
proof -
  define s1 where "s1 = start_scheduled_zone pid i dur (fold peer_off (group_peers s g i) s)"
  define w where "w = wait_loop env (\<lambda>s. group_cancelled s g) g (watering_seconds dur (early_off s1)) s1"
  define s2 where "s2 = finish_scheduled_zone i (snd w)"
  have s1: "clk s1 = clk s" by (rule clk_frame) (simp add: s1_def)
  have "clk (snd w) \<le> clk s1 + watering_seconds dur (early_off s1)"
    unfolding w_def by (rule wait_clock) (rule assms(1))
  moreover have s2: "clk s2 = clk (snd w)" by (rule clk_frame) (simp add: s2_def)
  moreover have "clk (pad_loop env (\<lambda>s. group_cancelled s g) (nat (clamp_early (early_off s1))) s2)
      \<le> clk s2 + nat (clamp_early (early_off s1))" by (rule pad_clock) (rule assms(1))
  moreover have "clk (add_log ty ks s2) = clk s2" for ty ks by (simp add: add_log_def)
  ultimately have "clk (water_program_zone env pid g i dur s)
      \<le> clk s + watering_seconds dur (early_off s1) + nat (clamp_early (early_off s1))"
    unfolding water_program_zone_def Let_def s1_def [symmetric] w_def [symmetric] s2_def [symmetric]
    by (cases "fst w = Skipped") (simp_all add: s1)
  then show ?thesis using watering_plus_pad [OF assms(2), of "early_off s1"] by linarith
qed

text \<open>No zone's norm exceeds \<open>D\<close> minutes.\<close>

definition norms_within :: "int \<Rightarrow> 'a db_scheme \<Rightarrow> bool" where
  "norms_within D d = (\<forall>p \<in> set (fst (zgroups d)). \<forall>n. fst (snd (snd p)) = Some n \<longrightarrow> n \<le> D)"

lemma norms_withinD: "norms_within D d \<Longrightarrow> get_zone d i = Some z \<Longrightarrow> duration z = Some n \<Longrightarrow> n \<le> D"
  by (force simp: norms_within_def zgroups_def get_zone_def dest: row_at_mem split: if_splits)

lemma norms_rely:
  assumes "\<And>s. norms_within D s \<Longrightarrow> norms_within D (env s)"
  shows "thread_rely (norms_within D) env"
  by unfold_locales (simp_all add: assms, simp_all add: norms_within_def)

text \<open>The requests a thread meets (cancel, skip, stop, emergency, shutdown) change no duration.\<close>

lemma zgroups_serve: "zgroups (serve q s) = zgroups s"
proof (cases q)
  case (Ask_Skip g)
  then show ?thesis by (simp add: request_skip_current_zone_def Let_def zgroups_def)
next
  case Ask_Shutdown
  then show ?thesis by (simp add: zgroups_def)
qed simp_all

lemma zgroups_request_env: "zgroups (request_env reqs s) = zgroups s"
proof -
  have "zgroups (fold serve qs t) = zgroups t" for qs and t :: "'a sched_scheme"
    by (induction qs arbitrary: t) (simp_all add: zgroups_serve)
  then show ?thesis by (simp add: request_env_def)
qed

interpretation norms_kept: thread_rely "norms_within D" "request_env reqs" for D reqs
  by (rule norms_rely) (simp add: norms_within_def zgroups_request_env)

lemma adjusted_le:
  assumes "base \<le> D" "1 \<le> D" "0 \<le> wx_coeff x" "wx_coeff x \<le> 200"
  shows "weather_adjusted_duration x base \<le> 2 * D"
proof -
  have "base * wx_coeff x \<le> D * wx_coeff x" using assms(1,3) by (rule mult_right_mono)
  also have "\<dots> \<le> D * 200" using assms(2,4) by (intro mult_left_mono) simp_all
  finally have "(of_int (base * wx_coeff x) :: rat) \<le> of_int (D * 200)" by (simp only: of_int_le_iff)
  then have "(of_int (base * wx_coeff x) :: rat) / 100 \<le> of_int (2 * D)" by simp
  then have "py_round (of_int (base * wx_coeff x) / 100) \<le> 2 * D"
    using py_round_mono [of "of_int (base * wx_coeff x) / 100" "of_int (2 * D)"] by (simp only: py_round_of_int)
  then show ?thesis using assms(1,2) by (auto simp: weather_adjusted_duration_def)
qed

definition zone_limit :: "bool \<Rightarrow> int \<Rightarrow> int" where
  "zone_limit manual D = 60 * (if manual then D else 2 * D)"

lemma run_program_zone_clock:
  assumes "\<And>s. clk (env s) = clk s" "norms_within D s" "1 \<le> D" "\<And>t. 0 \<le> wx_coeff (wx t) \<and> wx_coeff (wx t) \<le> 200"
  shows "int (clk (snd (run_program_zone env wx manual pid i s))) \<le> int (clk s) + zone_limit manual D"
proof (cases "get_zone s i")
  case None
  then show ?thesis using assms(3) by (simp add: run_program_zone_def zone_limit_def)
next
  case (Some z)
  define s1 where "s1 = clear_stale_skip (zone_gid z) s"
  have s1: "clk s1 = clk s" by (rule clk_frame) (simp add: s1_def)
  have post: "clk (snd (update_zone_postpone i u r s1)) = clk s" for u r
    using s1 clk_frame [OF postpone_frame(1) [of i u r s1]] by simp
  have lim: "0 \<le> zone_limit manual D" using assms(3) by (simp add: zone_limit_def)
  have water: "int (clk (water_program_zone env pid g i dur t)) \<le> int (clk s) + L"
    if "clk t = clk s" "0 < dur" "60 * dur \<le> L" for g dur t L
    using water_program_clock [OF assms(1) that(2), where pid = pid and g = g and i = i and s = t] that by simp
  have dur: "60 * (if manual then base else weather_adjusted_duration (wx t) base) \<le> zone_limit manual D"
    if "duration z = Some base" for base t
    using adjusted_le [of base D "wx t"] norms_withinD [OF assms(2) Some that] assms(3,4) by (simp add: zone_limit_def)
  show ?thesis using lim dur
    by (auto simp: run_program_zone_def Some Let_def s1_def [symmetric] s1 post intro!: water split: option.splits)
qed

text \<open>
  C15: a program ends in time.  However often it is cancelled, skipped or shut down meanwhile, the
  waits of a program's thread add up to at most \<open>D\<close> minutes per listed zone when it was started by
  hand and \<open>2 D\<close> when it was scheduled, where \<open>D\<close> bounds the duration of every zone at the start, nobody
  raises a duration above it meanwhile, and the weather coefficient is between 0 and 200 percent.  The
  time a publish takes is not counted.
\<close>

theorem program_ends_in_time:
  assumes "\<And>s. clk (env s) = clk s" "\<And>s. norms_within D s \<Longrightarrow> norms_within D (env s)"
    "norms_within D s" "1 \<le> D" "\<And>t. 0 \<le> wx_coeff (wx t) \<and> wx_coeff (wx t) \<le> 200"
  shows "int (clk (run_program env wx pid is manual s)) \<le> int (clk s) + int (length is) * zone_limit manual D"
proof -
  have lim: "0 \<le> zone_limit manual D" using assms(4) by (simp add: zone_limit_def)
  have zones: "int (clk (snd (run_program_zones env wx manual pid ks t))) \<le> int (clk t) + int (length ks) * zone_limit manual D"
    if "norms_within D t" for ks t
    using that
  proof (induction ks arbitrary: t)
    case (Cons i ks)
    let ?r = "run_program_zone env wx manual pid i t"
    have one: "int (clk (snd ?r)) \<le> int (clk t) + zone_limit manual D"
      by (rule run_program_zone_clock [OF assms(1) Cons.prems assms(4,5)])
    have "norms_within D (snd ?r)"
      by (rule thread_rely.run_program_zone_keeps [OF norms_rely Cons.prems]) (rule assms(2))
    note rest = Cons.IH [OF this]
    show ?case using one rest lim by (cases ?r) (auto simp: algebra_simps split: bool.splits intro: order_trans add_increasing2)
  qed simp
  define reg where "reg = register_sessions (program_gids s is) s"
  let ?s2 = "add_log ''program_start'' [pid] (snd reg)"
  define sk where "sk = (if manual then (False, ?s2) else check_weather_skip (wx (clk ?s2)) (case is of [] \<Rightarrow> 0 | i # _ \<Rightarrow> i) pid ?s2)"
  have reg: "clk (snd (register_sessions gs t)) = clk t \<and> zgroups (snd (register_sessions gs t)) = zgroups t" for gs and t :: "'a sched_scheme"
    by (induction gs arbitrary: t) (auto simp: plant_event_def Let_def case_prod_beta zgroups_def split: option.splits)
  have cl: "clk (cleanup_sessions rs t) = clk t" for rs and t :: "'a sched_scheme"
    by (induction rs arbitrary: t) (auto simp: cleanup_sessions_def drop_skip_def drop_event_def)
  have lg: "clk (add_log ty ks t) = clk t" for ty ks and t :: "'a sched_scheme" by (simp add: add_log_def)
  have wc: "clk (snd (check_weather_skip x i pid t)) = clk t" for x i and t :: "'a sched_scheme"
    by (rule clk_frame) simp
  have sk: "clk (snd sk) = clk s" "zgroups (snd sk) = zgroups s"
    using reg by (simp_all add: sk_def reg_def lg wc)
  then have "norms_within D (snd sk)" using assms(3) by (simp add: norms_within_def)
  note z = zones [OF this, of "is"]
  show ?thesis using z lim
    by (auto simp: run_program_def Let_def reg_def [symmetric] sk_def [symmetric] cl lg sk case_prod_beta split: bool.splits)
qed

theorem program_ends_in_time_witness:
  "int (clk (run_program (\<lambda>s. s) (\<lambda>_. \<lparr>wx_enabled = True, wx_skip = False, wx_coeff = 150\<rparr>) 7 [1, 2] True idle_sched))
     \<le> int (clk idle_sched) + 1800"
proof -
  have "norms_within 15 idle_sched"
    by (simp add: norms_within_def zgroups_def idle_sched_rows demo_zone_def new_zone_def plain_req_def rq_duration_or10_def)
  then show ?thesis
    using program_ends_in_time [of "\<lambda>s. s" 15 idle_sched "\<lambda>_. \<lparr>wx_enabled = True, wx_skip = False, wx_coeff = 150\<rparr>" 7 "[1, 2]" True]
    by (simp add: zone_limit_def)
qed

subsection \<open>Starting a sequence\<close>

lemma zstate_at_bulk_off:
  "zstate_at (bulk_off z s) j = (if j = zid z then map_option (\<lambda>_. ''off'') (zstate_at s j) else zstate_at s j)"
  by (simp add: bulk_off_def zstate_at_uzs real_cols_def)

interpretation bulk: idem_op "\<lambda>_. True" zstate_at zid bulk_off "\<lambda>_ _. ''off''"
  by unfold_locales (simp_all add: zstate_at_bulk_off)

lemma bulk_off_frame: "sent (fold bulk_off zs s) = sent s \<and> zone_runs (fold bulk_off zs s) = zone_runs s"
  by (induction zs arbitrary: s) (simp_all add: bulk_off_def frame_simps)

lemma starts_frame:
  "zone_runs (clear_group_scheduled_starts g d) = zone_runs d" "zone_runs (set_group_scheduled_starts g sched d) = zone_runs d"
  "db.more (clear_group_scheduled_starts g d) = db.more d" "db.more (set_group_scheduled_starts g sched d) = db.more d"
proof -
  show "zone_runs (clear_group_scheduled_starts g d) = zone_runs d" "db.more (clear_group_scheduled_starts g d) = db.more d"
    by (simp_all add: clear_group_scheduled_starts_def)
  show "zone_runs (set_group_scheduled_starts g sched d) = zone_runs d" "db.more (set_group_scheduled_starts g sched d) = db.more d"
    by (induction g sched d rule: set_group_scheduled_starts.induct) simp_all
qed

lemma starts_sent:
  "sent (clear_group_scheduled_starts g w) = sent w" "sent (set_group_scheduled_starts g sched w) = sent w"
  by (rule world_more_eq(2), rule starts_frame)+

text \<open>
  Starting a sequence forgets the zones that run.  Every zone chosen for the sequence is recorded
  \<open>off\<close>, its automatic and watchdog stops are removed and it is no longer listed as active; but
  nothing is published, so the relay of a zone that was running stays open, and no run is finished.
\<close>

theorem sequence_start_forgets_running_zone:
  assumes "z \<in> set (chosen_zones s g wanted)" "zstate_at s (zid z) = Some v"
  shows "let s' = snd (start_group_sequence g od op wanted manual s) in
     zstate_at s' (zid z) = Some ''off'' \<and> sent s' = sent s \<and> zone_runs s' = zone_runs s
     \<and> filter (\<lambda>j. is_zone_stop_job (zid z) (j_id j)) (jobs s') = [] \<and> active_zones s' (zid z) = None"
proof -
  let ?gz = "chosen_zones s g wanted"
  define s1 where "s1 = fold bulk_off ?gz s"
  define s2 where "s2 = set_group_scheduled_starts g (sequence_starts ?gz od op (now_of s1) 0) (clear_group_scheduled_starts g s1)"
  define s3 where "s3 = drop_group_jobs g (map zid ?gz) (snd (plant_event g s2))"
  define j where "j = \<lparr>j_id = J_group_seq g (now_of s3), j_call = Run_Group_Sequence g (map zid ?gz) od op manual,
              j_trigger = At_Time (now_of s3), j_store = Volatile_Store\<rparr>"
  have s': "snd (start_group_sequence g od op wanted manual s) = snd (add_job False j s3)"
    using assms(1) by (auto simp: start_group_sequence_def Let_def s1_def s2_def s3_def j_def)
  have "row_at zid ?gz (zid z) \<noteq> None" using assms(1) by (simp add: row_at_None_iff)
  then have off: "zstate_at s1 (zid z) = Some ''off''"
    using assms(2) by (auto simp: s1_def bulk.val_fold_idem)
  have pe: "zview (snd (plant_event g t)) = zview t" "sent (snd (plant_event g t)) = sent t"
    "zone_runs (snd (plant_event g t)) = zone_runs t" for t :: "'a sched_scheme"
    by (simp_all add: plant_event_def Let_def zview_def split: option.splits)
  have v3: "zview s3 = zview (snd (plant_event g s2))" by (simp add: s3_def drop_group_jobs_def Let_def)
  have "zstate_at (snd (add_job False j s3)) = zstate_at s1"
    using zstate_at_cong [OF zview_jobs(3), of False j s3] zstate_at_cong [OF v3] zstate_at_cong [OF pe(1), of s2]
    by (simp add: s2_def)
  moreover have "sent (snd (add_job False j s3)) = sent s" "zone_runs (snd (add_job False j s3)) = zone_runs s"
    using bulk_off_frame [of ?gz s]
    by (simp_all add: add_job_def s3_def drop_group_jobs_def remove_jobs_where_def Let_def pe s2_def starts_sent starts_frame s1_def)
  moreover have "filter (\<lambda>j. is_zone_stop_job (zid z) (j_id j)) (jobs (snd (add_job False j s3))) = []"
    using assms(1)
    by (auto simp: add_job_def s3_def drop_group_jobs_def remove_jobs_where_def Let_def filter_empty_conv j_def
        is_zone_stop_job_def list_ex_iff)
  moreover have "active_zones (snd (add_job False j s3)) (zid z) = None"
    using assms(1) by (simp add: add_job_def s3_def drop_group_jobs_def Let_def)
  ultimately show ?thesis using off by (simp add: s' Let_def)
qed

theorem sequence_start_forgets_running_zone_witness:
  "zstate_at (snd (start_group_sequence 1 None None None True (fresh_sched demo_world))) 1 = Some ''off''
   \<and> sent (snd (start_group_sequence 1 None None None True (fresh_sched demo_world))) = sent (fresh_sched demo_world)"
proof -
  have "demo_zone 1 ''on'' \<in> set (chosen_zones (fresh_sched demo_world) 1 None)" "zstate_at (fresh_sched demo_world) 1 = Some ''on''"
    by (simp_all add: chosen_zones_def get_zones_def zstate_at_def get_zone_def)
  then show ?thesis
    using sequence_start_forgets_running_zone [of "demo_zone 1 ''on''" "fresh_sched demo_world" 1 None "''on''" None None True]
    by (simp add: Let_def)
qed

end
