(* ===== verification/Lifecycle.thy ===== *)
theory Lifecycle
  imports Thread_Laws
begin

text \<open>
  The guards around the controller: the boot synchronisation (\<open>src/services/app_init.py\<close>), the two
  watchdogs (\<open>src/services/watchdog.py\<close> for the time cap, \<open>src/app.py\<close> for one zone per group) and the
  shutdown (\<open>src/services/shutdown.py\<close>).  One round of a watchdog is one step.  Alerts, sleeps and the
  start-up of threads and monitors are left out.
\<close>

subsection \<open>Boot synchronisation\<close>

text \<open>Up to \<open>n\<close> attempts to deliver a value.\<close>

fun publish_retry :: "nat \<Rightarrow> int \<Rightarrow> string \<Rightarrow> string \<Rightarrow> 'a world_scheme \<Rightarrow> 'a world_scheme" where
  "publish_retry 0 srv t v w = w"
| "publish_retry (Suc n) srv t v w =
     (let res = publish_mqtt_value srv t v w in if fst res then snd res else publish_retry n srv t v (snd res))"

text \<open>
  The runs a crashed process left open are marked \<open>aborted\<close>; the statement does not set \<open>end_utc\<close>.
\<close>

definition abort_open_runs :: "'a db_scheme \<Rightarrow> 'a db_scheme" where
  "abort_open_runs d =
     (if db_up d
      then d\<lparr>zone_runs := upd_rows (\<lambda>r. end_utc r = None \<and> (run_status r = None \<or> run_status r = Some []))
               (\<lambda>r. r\<lparr>run_status := Some ''aborted''\<rparr>) (zone_runs d)\<rparr>
      else d)"

text \<open>One master valve per server and (raw) topic; \<open>tries\<close> attempts each.\<close>

fun close_masters :: "nat \<Rightarrow> group list \<Rightarrow> (int \<times> string) list \<Rightarrow> 'a world_scheme \<Rightarrow> 'a world_scheme" where
  "close_masters tries [] seen w = w"
| "close_masters tries (g # gs) seen w =
     (let key = (int_or0 (master_mqtt_server_id g), master_topic g) in
      if use_master_valve g \<noteq> 1 \<or> master_topic g = [] \<or> \<not> truthy_int (master_mqtt_server_id g) \<or> key \<in> set seen
      then close_masters tries gs seen w
      else close_masters tries gs (key # seen)
             (case get_mqtt_server w (fst key) of
                None \<Rightarrow> w
              | Some srv \<Rightarrow> publish_retry tries (server_id srv) (normalize_topic (master_topic g)) (close_value g) w))"

definition zone_off_retry :: "zone \<Rightarrow> 'a world_scheme \<Rightarrow> 'a world_scheme" where
  "zone_off_retry z w =
     (case mqtt_ready w z of
        None \<Rightarrow> w
      | Some srv \<Rightarrow> publish_retry 3 (server_id srv) (normalize_topic (strip (topic z))) ''0'' w)"

definition stop_group :: "string \<Rightarrow> group \<Rightarrow> 'a sched_scheme \<Rightarrow> 'a sched_scheme" where
  "stop_group reason g s = stop_all_in_group (gid g) reason True False False (now_of s) (mono_of s) (wall_of s) s"

definition boot_sync :: "'a sched_scheme \<Rightarrow> 'a sched_scheme" where
  "boot_sync s =
     (let s1 = fold (stop_group ''boot_sync'') (get_groups s) s;
          s2 = abort_open_runs s1;
          s3 = close_masters 1 (get_groups s2) [] s2;
          s4 = fold zone_off_retry (get_zones s3) s3
      in close_masters 3 (get_groups s4) [] s4)"

subsection \<open>The time cap\<close>

definition zone_cap_default_min :: int where "zone_cap_default_min = 240"

text \<open>A setting that is no integer raises, and the round is skipped.\<close>

definition get_zone_cap_minutes :: "string option \<Rightarrow> int option" where
  "get_zone_cap_minutes v = (case v of None \<Rightarrow> Some zone_cap_default_min | Some t \<Rightarrow> map_option (max 1) (py_int t))"

definition cap_expired :: "int \<Rightarrow> time \<Rightarrow> zone \<Rightarrow> bool" where
  "cap_expired cap now z =
     (lower (zstate z) = ''on''
      \<and> (case watering_start_time z of None \<Rightarrow> False | Some t \<Rightarrow> of_int cap < (of_int (now - t) :: rat) / 60))"

definition cap_stop :: "int \<Rightarrow> time \<Rightarrow> zone \<Rightarrow> 'a sched_scheme \<Rightarrow> 'a sched_scheme" where
  "cap_stop cap now z s =
     (let s1 = snd (stop_zone (zid z) ''watchdog_cap'' True False False (now_of s) (mono_of s) (wall_of s) s)
      in add_log ''watchdog_cap_stop''
           [zid z, (case watering_start_time z of None \<Rightarrow> 0 | Some t \<Rightarrow> (now - t) div 60), cap] s1)"

definition check_zones :: "string option \<Rightarrow> 'a sched_scheme \<Rightarrow> 'a sched_scheme" where
  "check_zones setting s =
     (case get_zone_cap_minutes setting of
        None \<Rightarrow> s
      | Some cap \<Rightarrow> fold (cap_stop cap (now_of s)) (filter (cap_expired cap (now_of s)) (get_zones s)) s)"

subsection \<open>One running zone per group\<close>

definition mv_topic_of :: "'a db_scheme \<Rightarrow> int \<Rightarrow> string" where
  "mv_topic_of d g = (case row_at gid (get_groups d) g of None \<Rightarrow> [] | Some row \<Rightarrow> normalize_topic (master_topic row))"

definition is_mv :: "string \<Rightarrow> zone \<Rightarrow> bool" where
  "is_mv mv z = (mv \<noteq> [] \<and> normalize_topic (strip (topic z)) = mv)"

definition running_zone :: "string \<Rightarrow> zone \<Rightarrow> bool" where
  "running_zone mv z = (zstate z = ''on'' \<and> \<not> is_mv mv z)"

text \<open>
  Latest start first; a zone without a start time counts as started at the beginning of time.  The
  sort is stable.
\<close>

definition latest_first :: "zone list \<Rightarrow> zone list" where
  "latest_first zs =
     sort_key (\<lambda>z. - the (watering_start_time z)) (filter (\<lambda>z. watering_start_time z \<noteq> None) zs)
     @ filter (\<lambda>z. watering_start_time z = None) zs"

definition exclusive_stop :: "zone \<Rightarrow> 'a sched_scheme \<Rightarrow> 'a sched_scheme" where
  "exclusive_stop z s =
     (let s1 = (case mqtt_ready s z of
                  None \<Rightarrow> s
                | Some srv \<Rightarrow> snd (publish_mqtt_value (server_id srv) (normalize_topic (strip (topic z))) ''0'' s))
      in snd (stop_zone (zid z) ''group_exclusive'' True False False (now_of s1) (mono_of s1) (wall_of s1) s1))"

definition force_group_exclusive :: "int \<Rightarrow> 'a sched_scheme \<Rightarrow> 'a sched_scheme" where
  "force_group_exclusive g s =
     (case latest_first (filter (running_zone (mv_topic_of s g)) (get_zones_by_group s g)) of
        [] \<Rightarrow> s
      | [z] \<Rightarrow> s
      | z # zs \<Rightarrow> add_log ''warning'' (g # zid z # map zid zs) (fold exclusive_stop zs s))"

text \<open>The groups in the order in which their zones are listed.\<close>

definition listed_groups :: "zone list \<Rightarrow> int list" where
  "listed_groups zs = rev (remdups (rev (filter real_group (map zone_gid zs))))"

definition enforce_group :: "zone list \<Rightarrow> int \<Rightarrow> 'a sched_scheme \<Rightarrow> 'a sched_scheme" where
  "enforce_group zs g s =
     (if 1 < length (filter (\<lambda>z. zone_gid z = g \<and> running_zone (mv_topic_of s g) z) zs)
      then force_group_exclusive g s else s)"

definition enforce_group_exclusive_all_groups :: "'a sched_scheme \<Rightarrow> 'a sched_scheme" where
  "enforce_group_exclusive_all_groups s = fold (enforce_group (get_zones s)) (listed_groups (get_zones s)) s"

subsection \<open>Shutdown\<close>

text \<open>
  \<open>reach\<close> says for which servers a client can be had.  Both topics are published without waiting for
  the first acknowledgement.
\<close>

definition shutdown_publish :: "int \<Rightarrow> string \<Rightarrow> string \<Rightarrow> 'a world_scheme \<Rightarrow> 'a world_scheme" where
  "shutdown_publish srv t v w = snd (send srv (t @ ''/on'') v (snd (send srv t v w)))"

definition shutdown_zone :: "(int \<Rightarrow> bool) \<Rightarrow> zone \<Rightarrow> 'a world_scheme \<Rightarrow> 'a world_scheme" where
  "shutdown_zone reach z w =
     (case mqtt_ready w z of
        None \<Rightarrow> w
      | Some srv \<Rightarrow> (if reach (server_id srv)
                     then shutdown_publish (server_id srv) (normalize_topic (strip (topic z))) ''0'' w else w))"

definition shutdown_value :: "group \<Rightarrow> string" where
  "shutdown_value g = (if mode_of g = ''NC'' then ''0'' else ''1'')"

fun shutdown_masters :: "(int \<Rightarrow> bool) \<Rightarrow> group list \<Rightarrow> string list \<Rightarrow> 'a world_scheme \<Rightarrow> 'a world_scheme" where
  "shutdown_masters reach [] seen w = w"
| "shutdown_masters reach (g # gs) seen w =
     (let t = normalize_topic (master_topic g) in
      if use_master_valve g \<noteq> 1 \<or> master_topic g = [] \<or> \<not> truthy_int (master_mqtt_server_id g) \<or> t \<in> set seen
      then shutdown_masters reach gs seen w
      else shutdown_masters reach gs (t # seen)
             (case get_mqtt_server w (int_or0 (master_mqtt_server_id g)) of
                None \<Rightarrow> w
              | Some srv \<Rightarrow> if reach (server_id srv) then shutdown_publish (server_id srv) t (shutdown_value g) w else w))"

definition shutdown_state :: "zone \<Rightarrow> 'a world_scheme \<Rightarrow> 'a world_scheme" where
  "shutdown_state z w = (if zid z = 0 then w else uzs (zid z) [U_state ''off''] ''graceful_shutdown'' w)"

text \<open>The first component is the module's \<open>_shutdown_done\<close>.\<close>

definition shutdown_all_zones_off :: "(int \<Rightarrow> bool) \<Rightarrow> bool \<Rightarrow> 'a world_scheme \<Rightarrow> bool \<times> 'a world_scheme" where
  "shutdown_all_zones_off reach done w =
     (if done then (True, w)
      else
        (let zs = get_zones w;
             w1 = fold (shutdown_zone reach) zs w;
             w2 = shutdown_masters reach (get_groups w1) [] w1
         in (True, fold shutdown_state zs w2)))"

end
