(* ===== verification/Lifecycle_Laws.thy ===== *)
theory Lifecycle_Laws
  imports Lifecycle
begin

text \<open>
  What the guards achieve: the time cap holds after each round, at most one zone of a group runs
  after a round of the exclusivity watchdog, and boot and shutdown leave every zone off; and what
  boot does to the run of a zone that was interrupted.
\<close>

subsection \<open>The time cap\<close>

lemma zstate_at_cap_stop:
  "zstate_at (cap_stop cap now z s) j = (if j = zid z then map_option (\<lambda>_. ''off'') (zstate_at s j) else zstate_at s j)"
  by (simp add: cap_stop_def Let_def zstate_at_forced_stop)

interpretation caps: idem_op "\<lambda>_. True" zstate_at zid "cap_stop cap now" "\<lambda>_ _. ''off''" for cap now
  by unfold_locales (simp_all add: zstate_at_cap_stop)

lemma row_at_get_zones: "row_at zid (get_zones d) j = get_zone d j"
  by (simp add: get_zones_def get_zone_def)

text \<open>
  No zone outlives the cap.  After a round of the watchdog every zone that was on for longer
  than the cap (the setting, at least one minute, 240 when it is not set) is off, and the state of
  every other zone is as it was.
\<close>

theorem watchdog_enforces_cap:
  assumes "get_zone_cap_minutes setting = Some cap" "wf_zones s" "get_zone s j = Some z"
  shows "1 \<le> cap \<and> zstate_at (check_zones setting s) j = Some (if cap_expired cap (now_of s) z then ''off'' else zstate z)"
proof
  show "1 \<le> cap" using assms(1) by (auto simp: get_zone_cap_minutes_def zone_cap_default_min_def split: option.splits)
  have dist: "distinct (map zid (get_zones s))" using wf_zones_distinct [OF assms(2)] by (simp add: get_zones_def)
  have row: "row_at zid (filter (cap_expired cap (now_of s)) (get_zones s)) j
      = (if cap_expired cap (now_of s) z then Some z else None)"
    using assms(3) by (simp add: row_at_filter [OF dist] row_at_get_zones)
  have "zstate_at s j = Some (zstate z)" using assms(3) by (simp add: zstate_at_def)
  then show "zstate_at (check_zones setting s) j = Some (if cap_expired cap (now_of s) z then ''off'' else zstate z)"
    by (simp add: check_zones_def assms(1) caps.val_fold_idem row)
qed

definition overdue_sched :: sched where
  "overdue_sched = fresh_sched (boot_world [(demo_zone 1 ''on'')\<lparr>watering_start_time := Some 0\<rparr>, demo_zone 2 ''on''] [demo_group 1] [])"

lemma overdue_rows:
  "zones overdue_sched = [(demo_zone 1 ''on'')\<lparr>watering_start_time := Some 0\<rparr>, demo_zone 2 ''on'']" "db_up overdue_sched"
  "now_of overdue_sched = 24000" "groups overdue_sched = [demo_group 1]"
  by (simp_all add: overdue_sched_def boot_world_def)

theorem watchdog_enforces_cap_witness:
  "zstate_at (check_zones None overdue_sched) 1 = Some ''off'' \<and> zstate_at (check_zones None overdue_sched) 2 = Some ''on''"
proof -
  have wf: "wf_zones overdue_sched" by (simp add: wf_zones_def overdue_rows)
  have cap: "get_zone_cap_minutes None = Some 240" by (simp add: get_zone_cap_minutes_def zone_cap_default_min_def)
  have "get_zone overdue_sched 1 = Some ((demo_zone 1 ''on'')\<lparr>watering_start_time := Some 0\<rparr>)"
    "get_zone overdue_sched 2 = Some (demo_zone 2 ''on'')"
    by (simp_all add: get_zone_def overdue_rows)
  from watchdog_enforces_cap [OF cap wf this(1)] watchdog_enforces_cap [OF cap wf this(2)]
  show ?thesis by (simp add: cap_expired_def overdue_rows)
qed

subsection \<open>One running zone per group\<close>

lemma set_latest_first [simp]: "set (latest_first zs) = set zs"
  by (auto simp: latest_first_def)

lemma case_row_at_const:
  "(case row_at key ks j of None \<Rightarrow> a | Some k \<Rightarrow> b) = (if j \<in> key ` set ks then b else a)"
proof (cases "row_at key ks j")
  case None
  then have "j \<notin> key ` set ks" by (simp only: row_at_None_iff not_False_eq_True)
  with None show ?thesis by simp
next
  case (Some k)
  then have "j \<in> key ` set ks" using row_at_mem [OF Some] row_at_key [OF Some] by blast
  with Some show ?thesis by simp
qed

lemma exclusive_stop_frame [simp]: "zgroups (exclusive_stop z s) = zgroups s"
  by (simp add: exclusive_stop_def Let_def split: option.splits)

lemma zstate_at_exclusive_stop:
  "zstate_at (exclusive_stop z s) j = (if j = zid z then map_option (\<lambda>_. ''off'') (zstate_at s j) else zstate_at s j)"
  by (cases "mqtt_ready s z")
    (simp_all add: exclusive_stop_def Let_def zstate_at_forced_stop zstate_at_cong [OF zview_publish])

interpretation excl: idem_op "\<lambda>_. True" zstate_at zid exclusive_stop "\<lambda>_ _. ''off''"
  by unfold_locales (simp_all add: zstate_at_exclusive_stop)

lemma zgroups_fold_exclusive [simp]: "zgroups (fold exclusive_stop zs s) = zgroups s"
  by (induction zs arbitrary: s) simp_all

text \<open>The group, the topic and the master topic of a zone are read from what no operation here changes.\<close>

lemma mv_topic_cong: "zgroups d = zgroups d' \<Longrightarrow> mv_topic_of d = mv_topic_of d'"
proof
  fix g
  assume eq: "zgroups d = zgroups d'"
  let ?f = "\<lambda>g. g\<lparr>master_valve_observed := None\<rparr>"
  have row: "row_at gid (map ?f gs) g = map_option ?f (row_at gid gs g)" for gs by (induction gs) auto
  have "map_option ?f (row_at gid (groups d) g) = map_option ?f (row_at gid (groups d') g)" "db_up d = db_up d'"
    using eq by (simp_all add: zgroups_def flip: row)
  moreover have "master_topic (?f r) = master_topic r" for r by (simp add: master_topic_def)
  ultimately show "mv_topic_of d g = mv_topic_of d' g"
    by (auto simp: mv_topic_of_def get_groups_def split: option.splits) (metis option.simps(9) option.inject option.distinct(1))+
qed

definition zone_kind :: "'a db_scheme \<Rightarrow> int \<Rightarrow> int option \<times> string" where
  "zone_kind d i = (case row_at fst (fst (zgroups d)) i of None \<Rightarrow> (None, []) | Some p \<Rightarrow> (fst (snd p), snd (snd (snd p))))"

lemma zone_kind_mem:
  assumes "wf_zones d" "z \<in> set (zones d)"
  shows "zone_kind d (zid z) = (group_id z, strip (topic z))"
proof -
  have "row_at zid (zones d) (zid z) = Some z" by (rule row_at_mem_unique [OF wf_zones_distinct [OF assms(1)] assms(2)])
  then show ?thesis by (simp add: zone_kind_def zgroups_def row_at_fst_map)
qed

text \<open>Zone \<open>i\<close> runs in group \<open>g\<close> and is not the group's master valve.\<close>

definition runs_in :: "'a db_scheme \<Rightarrow> int \<Rightarrow> int \<Rightarrow> bool" where
  "runs_in d g i = (zstate_at d i = Some ''on'' \<and> fst (zone_kind d i) = Some g
     \<and> \<not> (mv_topic_of d g \<noteq> [] \<and> normalize_topic (snd (zone_kind d i)) = mv_topic_of d g))"

lemma runs_in_mono:
  assumes "zgroups d' = zgroups d" "zstate_at d' i = Some ''on'' \<Longrightarrow> zstate_at d i = Some ''on''" "runs_in d' g i"
  shows "runs_in d g i"
  using assms mv_topic_cong [OF assms(1)] by (simp add: runs_in_def zone_kind_def)

lemma running_zone_runs_in:
  assumes "wf_zones d" "z \<in> set (get_zones_by_group d g)"
  shows "running_zone (mv_topic_of d g) z = runs_in d g (zid z)"
proof -
  have z: "z \<in> set (zones d)" "group_id z = Some g" using assms(2) by (auto simp: get_zones_by_group_def split: if_splits)
  have "zstate_at d (zid z) = Some (zstate z)" by (rule active_member(1) [OF assms(2,1)])
  then show ?thesis by (simp add: runs_in_def running_zone_def is_mv_def zone_kind_mem [OF assms(1) z(1)] z(2))
qed

lemma runs_in_member:
  assumes "wf_zones d" "runs_in d g i"
  obtains z where "z \<in> set (get_zones_by_group d g)" "zid z = i"
proof -
  obtain z where z: "get_zone d i = Some z" using assms(2) by (auto simp: runs_in_def zstate_at_def)
  then have up: "db_up d" and mem: "z \<in> set (zones d)" and id: "zid z = i"
    by (auto simp: get_zone_def dest: row_at_mem row_at_key split: if_splits)
  have "group_id z = Some g" using assms(2) zone_kind_mem [OF assms(1) mem] id by (simp add: runs_in_def)
  then have "z \<in> set (get_zones_by_group d g)" using up mem by (simp add: get_zones_by_group_def)
  then show ?thesis using id by (rule that)
qed

lemma force_group_exclusive_effect:
  assumes "wf_zones s"
  shows "zgroups (force_group_exclusive g s) = zgroups s
    \<and> (zstate_at (force_group_exclusive g s) j = Some ''on'' \<longrightarrow> zstate_at s j = Some ''on'')
    \<and> (runs_in (force_group_exclusive g s) g i \<and> runs_in (force_group_exclusive g s) g j \<longrightarrow> i = j)"
proof -
  let ?on = "filter (running_zone (mv_topic_of s g)) (get_zones_by_group s g)"
  have run_mem: "\<exists>z \<in> set ?on. zid z = k" if run: "runs_in s g k" for k
  proof -
    obtain z where "z \<in> set (get_zones_by_group s g)" "zid z = k" using runs_in_member [OF assms run] by blast
    with run running_zone_runs_in [OF assms, of z g] show ?thesis by auto
  qed
  consider (none) "latest_first ?on = []" | (one) z where "latest_first ?on = [z]"
    | (more) z y zs where "latest_first ?on = z # y # zs" by (metis list.exhaust)
  then show ?thesis
  proof cases
    case none
    then have "set ?on = {}" by (metis set_latest_first set_empty)
    then show ?thesis using run_mem none by (auto simp: force_group_exclusive_def)
  next
    case (one z)
    then have "set ?on = {z}" by (metis set_latest_first list.set(1,2))
    then show ?thesis using run_mem one by (auto simp: force_group_exclusive_def)
  next
    case (more z y zs)
    let ?t = "fold exclusive_stop (y # zs) s"
    have t: "force_group_exclusive g s = add_log ''warning'' (g # zid z # map zid (y # zs)) ?t"
      by (simp add: force_group_exclusive_def more)
    have zg: "zgroups (force_group_exclusive g s) = zgroups s" by (simp only: t zgroups_effects zgroups_fold_exclusive)
    have st: "zstate_at (force_group_exclusive g s) k
        = (if k \<in> zid ` set (y # zs) then map_option (\<lambda>_. ''off'') (zstate_at s k) else zstate_at s k)" for k
      unfolding t zstate_at_log excl.val_fold_idem [OF TrueI] by (rule case_row_at_const)
    have old: "zstate_at s k = Some ''on''" if "zstate_at (force_group_exclusive g s) k = Some ''on''" for k
      using that by (auto simp: st split: if_splits)
    have "k = zid z" if run: "runs_in (force_group_exclusive g s) g k" for k
    proof -
      have "runs_in s g k" by (rule runs_in_mono [OF zg old run])
      then obtain x where x: "x \<in> set ?on" "zid x = k" using run_mem by blast
      then have "x \<in> set (z # y # zs)" by (metis more set_latest_first)
      moreover have "k \<notin> zid ` set (y # zs)" using run by (auto simp: runs_in_def st split: if_splits)
      ultimately show ?thesis using x(2) by auto
    qed
    then show ?thesis using zg old by blast
  qed
qed

lemma enforce_group_effect:
  assumes "wf_zones s0" "zgroups s = zgroups s0" "\<And>j. zstate_at s j = Some ''on'' \<Longrightarrow> zstate_at s0 j = Some ''on''"
  shows "zgroups (enforce_group (get_zones s0) g s) = zgroups s
    \<and> (zstate_at (enforce_group (get_zones s0) g s) j = Some ''on'' \<longrightarrow> zstate_at s j = Some ''on'')
    \<and> (runs_in (enforce_group (get_zones s0) g s) g i \<and> runs_in (enforce_group (get_zones s0) g s) g j \<longrightarrow> i = j)"
proof (cases "enforce_group (get_zones s0) g s = s")
  case False
  then have "enforce_group (get_zones s0) g s = force_group_exclusive g s" by (auto simp: enforce_group_def split: if_splits)
  moreover have "wf_zones s" using assms(1) wf_zones_cong [OF assms(2)] by simp
  ultimately show ?thesis using force_group_exclusive_effect [of s g j i] by simp
next
  case True
  let ?ones = "filter (\<lambda>z. zone_gid z = g \<and> running_zone (mv_topic_of s g) z) (get_zones s0)"
  have wf: "wf_zones s" using assms(1) wf_zones_cong [OF assms(2)] by simp
  have mv: "mv_topic_of s = mv_topic_of s0" by (rule mv_topic_cong) (rule assms(2))
  have "i = j" if runs: "runs_in s g i" "runs_in s g j"
  proof (cases "1 < length ?ones")
    case True
    then have "force_group_exclusive g s = s" using \<open>enforce_group _ g s = s\<close> by (simp add: enforce_group_def)
    then show ?thesis using force_group_exclusive_effect [OF wf, of g j i] runs by simp
  next
    case False
    have mem: "\<exists>z \<in> set ?ones. zid z = k" if run: "runs_in s g k" for k
    proof -
      have run0: "runs_in s0 g k" by (rule runs_in_mono [OF assms(2,3) run])
      obtain z where z: "z \<in> set (get_zones_by_group s0 g)" "zid z = k" using runs_in_member [OF assms(1) run0] by blast
      then have "running_zone (mv_topic_of s0 g) z" using run0 running_zone_runs_in [OF assms(1) z(1)] by simp
      moreover have "zone_gid z = g" "z \<in> set (get_zones s0)"
        using z(1) by (auto simp: get_zones_by_group_def get_zones_def zone_gid_def split: if_splits)
      ultimately show ?thesis using z(2) by (auto simp: mv)
    qed
    from mem [OF runs(1)] mem [OF runs(2)] False show ?thesis
      by (cases ?ones rule: list.exhaust; cases "tl ?ones") auto
  qed
  then show ?thesis by (simp add: True)
qed

text \<open>
  At most one zone of a group runs.  After a round of the exclusivity watchdog no two zones of a
  real group are on, the master valve apart when it is itself a zone of the group, whatever the
  states were and whether or not the relays could be reached.
\<close>

theorem exclusivity_watchdog_keeps_one:
  assumes "wf_zones s" "real_group g"
    "z1 \<in> set (get_zones_by_group (enforce_group_exclusive_all_groups s) g)" "running_zone (mv_topic_of (enforce_group_exclusive_all_groups s) g) z1"
    "z2 \<in> set (get_zones_by_group (enforce_group_exclusive_all_groups s) g)" "running_zone (mv_topic_of (enforce_group_exclusive_all_groups s) g) z2"
  shows "z1 = z2"
proof -
  let ?zs = "get_zones s" and ?t = "enforce_group_exclusive_all_groups s"
  have inv: "zgroups (fold (enforce_group ?zs) gs u) = zgroups s
     \<and> (\<forall>j. zstate_at (fold (enforce_group ?zs) gs u) j = Some ''on'' \<longrightarrow> zstate_at u j = Some ''on'')
     \<and> (\<forall>h i j. h \<in> set gs \<longrightarrow> runs_in (fold (enforce_group ?zs) gs u) h i \<longrightarrow> runs_in (fold (enforce_group ?zs) gs u) h j \<longrightarrow> i = j)"
    if "zgroups u = zgroups s" "\<forall>j. zstate_at u j = Some ''on'' \<longrightarrow> zstate_at s j = Some ''on''" for gs u
    using that
  proof (induction gs arbitrary: u)
    case (Cons h gs)
    let ?u1 = "enforce_group ?zs h u"
    have eff: "zgroups ?u1 = zgroups u \<and> (zstate_at ?u1 j = Some ''on'' \<longrightarrow> zstate_at u j = Some ''on'')
        \<and> (runs_in ?u1 h i \<and> runs_in ?u1 h j \<longrightarrow> i = j)" for i j
      by (rule enforce_group_effect [OF assms(1) Cons.prems(1)]) (use Cons.prems(2) in blast)
    have zg: "zgroups ?u1 = zgroups s" using eff Cons.prems(1) by simp
    have on: "\<forall>j. zstate_at ?u1 j = Some ''on'' \<longrightarrow> zstate_at s j = Some ''on''" using eff Cons.prems(2) by blast
    note IH = Cons.IH [OF zg on]
    have first: "i = j" if "runs_in (fold (enforce_group ?zs) gs ?u1) h i" "runs_in (fold (enforce_group ?zs) gs ?u1) h j" for i j
    proof -
      have "runs_in ?u1 h k" if "runs_in (fold (enforce_group ?zs) gs ?u1) h k" for k
        by (rule runs_in_mono [OF _ _ that]) (use IH zg in auto)
      then show ?thesis using that eff by blast
    qed
    show ?case using IH eff first by auto
  qed simp
  have t: "zgroups ?t = zgroups s"
    "\<And>i j. g \<in> set (listed_groups ?zs) \<Longrightarrow> runs_in ?t g i \<Longrightarrow> runs_in ?t g j \<Longrightarrow> i = j"
    using inv [of s "listed_groups ?zs"] unfolding enforce_group_exclusive_all_groups_def by blast+
  have wf: "wf_zones ?t" using assms(1) wf_zones_cong [OF t(1)] by simp
  have "group_members ?t g = group_members s g" by (rule fun_cong [OF group_members_cong [OF t(1)]])
  moreover have "zid z1 \<in> group_members ?t g" using assms(3) by (auto simp: group_members_eq [symmetric])
  ultimately have "zid z1 \<in> zid ` set (get_zones_by_group s g)" by (simp add: group_members_eq)
  then have "g \<in> set (listed_groups ?zs)"
    using assms(2) by (force simp: listed_groups_def get_zones_by_group_def get_zones_def zone_gid_def split: if_splits)
  then have "zid z1 = zid z2"
    using t(2) running_zone_runs_in [OF wf assms(3)] running_zone_runs_in [OF wf assms(5)] assms(4,6) by blast
  then show ?thesis
    using assms(3,5) wf_zones_distinct [OF wf]
    by (auto simp: get_zones_by_group_def distinct_map inj_on_def split: if_splits)
qed

definition crowded_sched :: sched where
  "crowded_sched = fresh_sched (boot_world [demo_zone 1 ''on'', demo_zone 2 ''on''] [] [])"

theorem exclusivity_watchdog_keeps_one_witness:
  "\<exists>z. set (filter (running_zone (mv_topic_of (enforce_group_exclusive_all_groups crowded_sched) 1))
              (get_zones_by_group (enforce_group_exclusive_all_groups crowded_sched) 1)) \<subseteq> {z}"
proof -
  have "wf_zones crowded_sched" "real_group 1" by (simp_all add: crowded_sched_def wf_zones_def boot_world_def real_group_def)
  note one = exclusivity_watchdog_keeps_one [OF this]
  show ?thesis
  proof (cases "filter (running_zone (mv_topic_of (enforce_group_exclusive_all_groups crowded_sched) 1))
      (get_zones_by_group (enforce_group_exclusive_all_groups crowded_sched) 1)")
    case (Cons z zs)
    then have "z \<in> set (filter (running_zone (mv_topic_of (enforce_group_exclusive_all_groups crowded_sched) 1))
      (get_zones_by_group (enforce_group_exclusive_all_groups crowded_sched) 1))" by simp
    then show ?thesis using one by (intro exI [of _ z]) auto
  qed simp
qed

subsection \<open>Shutdown\<close>

lemma shutdown_publish_frame [simp]:
  "zview (shutdown_publish srv t v w) = zview w" "zone_runs (shutdown_publish srv t v w) = zone_runs w"
  "set (sent w) \<subseteq> set (sent (shutdown_publish srv t v w))"
  "\<lparr>ms_server = srv, ms_topic = t, ms_value = v\<rparr> \<in> set (sent (shutdown_publish srv t v w))"
  by (auto simp: shutdown_publish_def frame_simps) (auto simp: send_def)

lemma shutdown_zone_frame:
  "zview (shutdown_zone reach z w) = zview w \<and> zone_runs (shutdown_zone reach z w) = zone_runs w
   \<and> set (sent w) \<subseteq> set (sent (shutdown_zone reach z w))"
  by (simp add: shutdown_zone_def split: option.splits)

lemma shutdown_zones_frame:
  "zview (fold (shutdown_zone reach) zs w) = zview w \<and> zone_runs (fold (shutdown_zone reach) zs w) = zone_runs w
   \<and> set (sent w) \<subseteq> set (sent (fold (shutdown_zone reach) zs w))"
proof (induction zs arbitrary: w)
  case (Cons z zs)
  then show ?case using shutdown_zone_frame [of reach z w] Cons.IH [of "shutdown_zone reach z w"] by auto
qed simp

lemma shutdown_masters_frame:
  "zview (shutdown_masters reach gs seen w) = zview w \<and> zone_runs (shutdown_masters reach gs seen w) = zone_runs w
   \<and> set (sent w) \<subseteq> set (sent (shutdown_masters reach gs seen w))"
proof (induction reach gs seen w rule: shutdown_masters.induct)
  case (2 reach g gs seen w)
  let ?t = "normalize_topic (master_topic g)"
  let ?u = "case get_mqtt_server w (int_or0 (master_mqtt_server_id g)) of None \<Rightarrow> w
      | Some srv \<Rightarrow> if reach (server_id srv) then shutdown_publish (server_id srv) ?t (shutdown_value g) w else w"
  have "zview ?u = zview w \<and> zone_runs ?u = zone_runs w \<and> set (sent w) \<subseteq> set (sent ?u)" by (simp split: option.splits)
  then show ?case using 2 by (auto simp: Let_def)
qed simp

lemma shutdown_states_frame: "zone_runs (fold shutdown_state zs w) = zone_runs w \<and> sent (fold shutdown_state zs w) = sent w"
  by (induction zs arbitrary: w) (simp_all add: shutdown_state_def frame_simps)

lemma zstate_at_shutdown_state:
  "zstate_at (fold shutdown_state zs w) j =
     (if j \<noteq> 0 \<and> j \<in> zid ` set zs then map_option (\<lambda>_. ''off'') (zstate_at w j) else zstate_at w j)"
  by (induction zs arbitrary: w)
    (auto simp: shutdown_state_def zstate_at_uzs real_cols_def option.map_comp comp_def)

text \<open>
  C16: shutdown commands every relay off and says so.  Every zone the database lists ends off, every
  zone with a topic on a reachable server was sent \<open>0\<close>, and a second call (signal handler, then exit
  handler) does nothing.  The open runs are left open.
\<close>

theorem shutdown_turns_everything_off:
  assumes "z \<in> set (get_zones w)" "zid z \<noteq> 0" "wf_zones w"
  shows "let w' = snd (shutdown_all_zones_off reach False w) in
    zstate_at w' (zid z) = Some ''off'' \<and> zone_runs w' = zone_runs w
    \<and> (\<forall>srv. mqtt_ready w z = Some srv \<and> reach (server_id srv) \<longrightarrow>
         \<lparr>ms_server = server_id srv, ms_topic = normalize_topic (strip (topic z)), ms_value = ''0''\<rparr> \<in> set (sent w'))
    \<and> shutdown_all_zones_off reach (fst (shutdown_all_zones_off reach False w)) w' = (True, w')"
proof -
  let ?zs = "get_zones w"
  define w1 where "w1 = fold (shutdown_zone reach) ?zs w"
  define w2 where "w2 = shutdown_masters reach (get_groups w1) [] w1"
  have sd: "shutdown_all_zones_off reach False w = (True, fold shutdown_state ?zs w2)"
    by (simp add: shutdown_all_zones_off_def Let_def w1_def w2_def)
  have f1: "zview w1 = zview w" "zone_runs w1 = zone_runs w" using shutdown_zones_frame [of reach ?zs w] by (simp_all add: w1_def)
  have f2: "zview w2 = zview w" "zone_runs w2 = zone_runs w" "set (sent w1) \<subseteq> set (sent w2)"
    using shutdown_masters_frame [of reach "get_groups w1" "[]" w1] f1 by (simp_all add: w2_def)
  have up: "db_up w" and mem: "z \<in> set (zones w)" using assms(1) by (auto simp: get_zones_def split: if_splits)
  have "zstate_at w (zid z) = Some (zstate z)"
    using row_at_mem_unique [OF wf_zones_distinct [OF assms(3)] mem] up by (simp add: zstate_at_def get_zone_def)
  then have off: "zstate_at (fold shutdown_state ?zs w2) (zid z) = Some ''off''"
    using assms(1,2) zstate_at_cong [OF f2(1)] by (simp add: zstate_at_shutdown_state)
  have pub: "\<lparr>ms_server = server_id srv, ms_topic = normalize_topic (strip (topic z)), ms_value = ''0''\<rparr>
      \<in> set (sent (fold (shutdown_zone reach) zs u))"
    if "z \<in> set zs" "mqtt_ready w z = Some srv" "reach (server_id srv)" "zview u = zview w" for zs srv and u :: "'a world_scheme"
    using that
  proof (induction zs arbitrary: u)
    case (Cons y zs)
    let ?u = "shutdown_zone reach y u"
    have v: "zview ?u = zview w" using shutdown_zone_frame [of reach y u] Cons.prems(4) by simp
    show ?case
    proof (cases "y = z")
      case True
      have "mqtt_ready u z = Some srv" using Cons.prems(2) senv_mqtt_ready [OF zview_senv [OF Cons.prems(4)]] by simp
      then have "\<lparr>ms_server = server_id srv, ms_topic = normalize_topic (strip (topic z)), ms_value = ''0''\<rparr> \<in> set (sent ?u)"
        using True Cons.prems(3) by (simp add: shutdown_zone_def)
      then show ?thesis using shutdown_zones_frame [of reach zs ?u] by auto
    next
      case False
      then show ?thesis using Cons.IH [OF _ Cons.prems(2,3) v] Cons.prems(1) by simp
    qed
  qed simp
  have "\<lparr>ms_server = server_id srv, ms_topic = normalize_topic (strip (topic z)), ms_value = ''0''\<rparr>
      \<in> set (sent (fold shutdown_state ?zs w2))" if "mqtt_ready w z = Some srv" "reach (server_id srv)" for srv
    using pub [OF assms(1) that refl] f2(3) shutdown_states_frame [of ?zs w2] by (auto simp: w1_def)
  moreover have "shutdown_all_zones_off reach True u = (True, u)" for u :: "'a world_scheme"
    by (simp add: shutdown_all_zones_off_def)
  ultimately show ?thesis
    using off f2(2) shutdown_states_frame [of ?zs w2] by (simp add: sd Let_def)
qed

theorem shutdown_turns_everything_off_witness:
  "zstate_at (snd (shutdown_all_zones_off (\<lambda>_. True) False demo_world)) 1 = Some ''off''"
  using shutdown_turns_everything_off [of "demo_zone 1 ''on''" demo_world "\<lambda>_. True"]
  by (simp add: Let_def get_zones_def demo_facts)

subsection \<open>Boot\<close>

lemma publish_retry_frame:
  "zview (publish_retry n srv t v w) = zview w \<and> zone_runs (publish_retry n srv t v w) = zone_runs w
   \<and> set (sent w) \<subseteq> set (sent (publish_retry n srv t v w)) \<and> zgroups (publish_retry n srv t v w) = zgroups w
   \<and> world.more (publish_retry n srv t v w) = world.more w"
proof (induction n arbitrary: w)
  case (Suc n)
  show ?case
    using Suc [of "snd (publish_mqtt_value srv t v w)"] sent_publish_mem(2) [of w srv t v]
    by (auto simp: Let_def frame_simps keeps_sched)
qed simp

lemma publish_retry_sends:
  "0 < n \<Longrightarrow> \<lparr>ms_server = srv, ms_topic = normalize_topic t, ms_value = v\<rparr> \<in> set (sent (publish_retry n srv t v w))"
  using sent_publish_mem(1) [of srv t v w] publish_retry_frame [of "n - 1" srv t v "snd (publish_mqtt_value srv t v w)"]
  by (cases n) (auto simp: Let_def)

lemma close_masters_frame:
  "zview (close_masters tries gs seen w) = zview w \<and> zone_runs (close_masters tries gs seen w) = zone_runs w
   \<and> set (sent w) \<subseteq> set (sent (close_masters tries gs seen w))"
proof (induction tries gs seen w rule: close_masters.induct)
  case (2 tries g gs seen w)
  let ?u = "case get_mqtt_server w (int_or0 (master_mqtt_server_id g)) of None \<Rightarrow> w
      | Some srv \<Rightarrow> publish_retry tries (server_id srv) (normalize_topic (master_topic g)) (close_value g) w"
  have "zview ?u = zview w \<and> zone_runs ?u = zone_runs w \<and> set (sent w) \<subseteq> set (sent ?u)"
    using publish_retry_frame [of tries _ "normalize_topic (master_topic g)" "close_value g" w] by (auto split: option.splits)
  then show ?case using 2 by (auto simp: Let_def)
qed simp

lemma zone_off_retry_frame:
  "zview (zone_off_retry z w) = zview w \<and> zone_runs (zone_off_retry z w) = zone_runs w \<and> set (sent w) \<subseteq> set (sent (zone_off_retry z w))"
  using publish_retry_frame [of 3 _ "normalize_topic (strip (topic z))" "''0''" w]
  by (auto simp: zone_off_retry_def split: option.splits)

lemma zones_off_retry_frame:
  "zview (fold zone_off_retry zs w) = zview w \<and> zone_runs (fold zone_off_retry zs w) = zone_runs w
   \<and> set (sent w) \<subseteq> set (sent (fold zone_off_retry zs w))"
proof (induction zs arbitrary: w)
  case (Cons z zs)
  then show ?case using zone_off_retry_frame [of z w] Cons.IH [of "zone_off_retry z w"] by auto
qed simp

lemma zview_abort [simp]: "zview (abort_open_runs d) = zview d"
  by (simp add: abort_open_runs_def)

lemma stop_group_frame [simp]: "zgroups (stop_group r g s) = zgroups s" "senv (stop_group r g s) = senv s"
  by (simp_all add: stop_group_def stop_all_fold)

lemma zstate_at_stop_group_boot:
  "zstate_at (stop_group r g s) j =
     (if j \<in> group_members s (gid g) then map_option (\<lambda>_. ''off'') (zstate_at s j) else zstate_at s j)"
  by (simp add: stop_group_def zstate_at_forced_group group_members_eq)

lemma stop_groups_effect:
  "zgroups (fold (stop_group r) gs s) = zgroups s \<and> senv (fold (stop_group r) gs s) = senv s
   \<and> zstate_at (fold (stop_group r) gs s) j =
      (if \<exists>g \<in> set gs. j \<in> group_members s (gid g) then map_option (\<lambda>_. ''off'') (zstate_at s j) else zstate_at s j)"
proof (induction gs arbitrary: s)
  case (Cons g gs)
  have "group_members (stop_group r g s) = group_members s" by (rule group_members_cong) simp
  then show ?case by (auto simp: Cons zstate_at_stop_group_boot option.map_comp comp_def)
qed simp

text \<open>
  C17: after the boot synchronisation nothing waters.  Every zone of a listed group is off, and every
  zone that can be reached, grouped or not, was sent \<open>0\<close> by the boot itself.
\<close>

theorem boot_sync_turns_everything_off:
  assumes "wf_zones s" "g \<in> set (get_groups s)" "z \<in> set (get_zones_by_group s (gid g))"
  shows "zstate_at (boot_sync s) (zid z) = Some ''off''
    \<and> (\<forall>y \<in> set (get_zones (boot_sync s)). \<forall>srv. mqtt_ready s y = Some srv \<longrightarrow>
         \<lparr>ms_server = server_id srv, ms_topic = normalize_topic (normalize_topic (strip (topic y))), ms_value = ''0''\<rparr>
           \<in> set (sent (boot_sync s)))"
proof -
  define s1 where "s1 = fold (stop_group ''boot_sync'') (get_groups s) s"
  define s2 where "s2 = abort_open_runs s1"
  define s3 where "s3 = close_masters 1 (get_groups s2) [] s2"
  define s4 where "s4 = fold zone_off_retry (get_zones s3) s3"
  have b: "boot_sync s = close_masters 3 (get_groups s4) [] s4"
    by (simp add: boot_sync_def Let_def s1_def s2_def s3_def s4_def)
  have v3: "zview s3 = zview s1" using close_masters_frame [of 1 "get_groups s2" "[]" s2] by (simp add: s3_def s2_def)
  have v: "zview (boot_sync s) = zview s3" "set (sent s4) \<subseteq> set (sent (boot_sync s))"
    using close_masters_frame [of 3 "get_groups s4" "[]" s4] zones_off_retry_frame [of "get_zones s3" s3] by (simp_all add: b s4_def)
  have mem: "zid z \<in> group_members s (gid g)" using assms(3) by (auto simp: group_members_eq [symmetric])
  have "zstate_at s1 (zid z) = Some ''off''"
    using stop_groups_effect [of "''boot_sync''" "get_groups s" s "zid z"] assms(2) mem active_member(1) [OF assms(3,1)]
    by (auto simp: s1_def)
  then have off: "zstate_at (boot_sync s) (zid z) = Some ''off''" using zstate_at_cong [OF v(1)] zstate_at_cong [OF v3] by simp
  have e3: "senv s3 = senv s"
    using zview_senv [OF v3] stop_groups_effect [of "''boot_sync''" "get_groups s" s] by (simp add: s1_def)
  have pub: "\<lparr>ms_server = server_id srv, ms_topic = normalize_topic (normalize_topic (strip (topic y))), ms_value = ''0''\<rparr>
      \<in> set (sent (fold zone_off_retry zs u))"
    if "y \<in> set zs" "mqtt_ready s y = Some srv" "senv u = senv s" for zs y srv and u :: "'a sched_scheme"
    using that
  proof (induction zs arbitrary: u)
    case (Cons x zs)
    let ?u = "zone_off_retry x u"
    have e: "senv ?u = senv s" using zview_senv [of ?u u] zone_off_retry_frame [of x u] Cons.prems(3) by simp
    show ?case
    proof (cases "x = y")
      case True
      have "mqtt_ready u y = Some srv" using Cons.prems(2) senv_mqtt_ready [OF Cons.prems(3)] by simp
      then have "\<lparr>ms_server = server_id srv, ms_topic = normalize_topic (normalize_topic (strip (topic y))), ms_value = ''0''\<rparr> \<in> set (sent ?u)"
        using True by (simp add: zone_off_retry_def publish_retry_sends)
      then show ?thesis using zones_off_retry_frame [of zs ?u] by auto
    next
      case False
      then show ?thesis using Cons.IH [OF _ Cons.prems(2) e] Cons.prems(1) by simp
    qed
  qed simp
  have "get_zones (boot_sync s) = get_zones s3" using v(1) by (simp add: zview_def get_zones_def)
  then show ?thesis using off pub [OF _ _ e3, of _ "get_zones s3"] v(2) by (auto simp: s4_def)
qed

theorem boot_sync_turns_everything_off_witness:
  "zstate_at (boot_sync (fresh_sched demo_world)) 1 = Some ''off''"
  using boot_sync_turns_everything_off [of "fresh_sched demo_world" "demo_group 1" "demo_zone 1 ''on''"]
  by (simp add: wf_zones_def get_groups_def get_zones_by_group_def) (simp add: demo_group_def)

subsection \<open>Boot and the run that was interrupted\<close>

lemma run_row_unique: "wf_runs d \<Longrightarrow> r \<in> set (zone_runs d) \<Longrightarrow> row_at run_id (zone_runs d) (run_id r) = Some r"
  using sorted_wrt_less_distinct by (intro row_at_mem_unique) (auto simp: wf_runs_def)

lemma find_rev_upd_rows:
  "(\<And>x. x \<in> set xs \<Longrightarrow> p x \<Longrightarrow> \<not> P x \<and> \<not> P (f x)) \<Longrightarrow> List.find P (rev (upd_rows p f xs)) = List.find P (rev xs)"
proof -
  assume off: "\<And>x. x \<in> set xs \<Longrightarrow> p x \<Longrightarrow> \<not> P x \<and> \<not> P (f x)"
  have "List.find P (map (\<lambda>x. if p x then f x else x) ys) = List.find P ys" if "set ys \<subseteq> set xs" for ys
    using that off by (induction ys) auto
  then show ?thesis by (simp add: upd_rows_def rev_map)
qed

lemma finish_open_run_cases:
  assumes "wf_runs w"
  shows "wf_runs (snd (finish_open_run k g now mn wall w))
    \<and> (row_at run_id (zone_runs w) n = Some r \<and> (run_zone r \<noteq> k \<or> end_utc r \<noteq> None)
        \<longrightarrow> row_at run_id (zone_runs (snd (finish_open_run k g now mn wall w))) n = Some r)
    \<and> (i \<noteq> k \<longrightarrow> get_open_zone_run (snd (finish_open_run k g now mn wall w)) i = get_open_zone_run w i)"
proof (cases "get_open_zone_run w k")
  case None
  then show ?thesis using assms by (simp add: finish_open_run_def)
next
  case (Some q)
  have q: "q \<in> set (zone_runs w)" "run_zone q = k" "end_utc q = None" "db_up w"
    using get_open_zone_run_open [OF Some] Some by (auto simp: get_open_zone_run_def split: if_splits)
  note row_q = run_row_unique [OF assms q(1)]
  let ?w = "snd (finish_open_run k g now mn wall w)"
  define c where "c = get_pulses_at_or_after (meter w) g wall"
  define l where "l = map_option rat_of_int (run_litres q c)"
  define f where "f = map_option (\<lambda>l. run_lpm q l mn) (run_litres q c)"
  have w: "?w = snd (finish_zone_run (run_id q) now mn c l f ''ok'' w)"
    unfolding finish_open_run_def Some option.case Let_def snd_conv c_def l_def f_def by (rule refl)
  define e where "e = R_finish now mn c l f (honest_status w (run_id q) ''ok'')"
  have e: "zone_runs ?w = upd_rows (\<lambda>r. run_id r = run_id q) (run_write e) (zone_runs w)" "wf_runs ?w" "db_up ?w"
    unfolding w e_def using q(4) wf_runs_finish [OF assms] by (simp_all add: finish_zone_run_def del: run_write.simps)
  have "row_at run_id (zone_runs ?w) n = Some r"
    if "row_at run_id (zone_runs w) n = Some r" "run_zone r \<noteq> k \<or> end_utc r \<noteq> None"
  proof -
    have "n \<noteq> run_id q" using that row_q q(2,3) by auto
    then show ?thesis using that(1) by (simp add: e(1) run_rows.row_at_upd_key del: run_write.simps)
  qed
  moreover have "get_open_zone_run ?w i = get_open_zone_run w i" if "i \<noteq> k"
  proof -
    have keep: "run_zone (run_write e r) = run_zone r" for r by (cases e) auto
    have "run_zone x = k" if "x \<in> set (zone_runs w)" "run_id x = run_id q" for x
    proof -
      have "Some x = Some q" using run_row_unique [OF assms that(1)] row_q unfolding that(2) by (rule trans [OF sym])
      then show ?thesis using q(2) by simp
    qed
    then show ?thesis
      using that q(4) e(3) by (auto simp: get_open_zone_run_def e(1) keep intro!: find_rev_upd_rows simp del: run_write.simps)
  qed
  ultimately show ?thesis using e(2) by blast
qed

text \<open>A stop acts on the history only through the zone's own open run.\<close>

lemma stop_zone_history:
  "zone_runs (snd (stop_zone k reason force imm skip now mn wall w)) = zone_runs w
   \<or> (\<exists>g. zone_runs (snd (stop_zone k reason force imm skip now mn wall w)) = zone_runs (snd (finish_open_run k g now mn wall w)))"
proof (cases "get_zone w k")
  case None
  then show ?thesis by (simp add: stop_zone_def)
next
  case (Some z)
  show ?thesis
  proof (cases "real_group (zone_gid z)")
    case True
    then show ?thesis using runs_stop_zone [OF Some] by blast
  next
    case False
    have uz: "zone_runs (uzs i us r u) = zone_runs u" for i us r and u :: "'a world_scheme" by (simp add: frame_simps)
    have so: "zone_runs (switch_off z imm skip u) = zone_runs u" for u :: "'a world_scheme"
      using rview_switch_off [of z imm skip u] by (simp add: rview_def)
    have "zone_runs (snd (stop_zone k reason force imm skip now mn wall w)) = zone_runs w"
      using False Some
      by (simp add: stop_zone_split full_stop_def stop_already_off_def Let_def water_stats_def uz so emit_event_def add_log_def)
    then show ?thesis by simp
  qed
qed

lemma run_seq_stop_zone: "run_seq (snd (stop_zone k reason force imm skip now mn wall w)) = run_seq w"
proof -
  have fin: "run_seq (snd (finish_open_run k g now mn wall u)) = run_seq u" for g and u :: "'a world_scheme"
    by (simp add: finish_open_run_def finish_zone_run_def Let_def split: option.splits)
  have st: "run_seq (store_stats k st u) = run_seq u" for st and u :: "'a world_scheme"
    by (simp add: store_stats_def Let_def frame_simps)
  have ws: "run_seq (water_stats k g since now mn wall u) = run_seq u" for g since and u :: "'a world_scheme"
    by (simp add: water_stats_def Let_def fin st)
  have pl: "run_seq (plan_master_close g imm skip u) = run_seq u" for g and u :: "'a world_scheme"
    by (simp add: plan_master_close_def schedule_master_close_def Let_def split: option.splits)
  have so: "run_seq (switch_off z imm skip u) = run_seq u" for z and u :: "'a world_scheme"
    by (simp add: switch_off_def verify_async_def pl frame_simps split: option.splits)
  show ?thesis
    by (cases "get_zone w k")
      (simp_all add: stop_zone_def stop_already_off_def Let_def ws pl so frame_simps emit_event_def add_log_def)
qed

text \<open>Run \<open>r\<close> is still open (and the newest of its zone), or has been settled at \<open>now\<close>.\<close>

definition pending_run :: "zone_run \<Rightarrow> 'a db_scheme \<Rightarrow> bool" where
  "pending_run r d = (wf_runs d \<and> get_open_zone_run d (run_zone r) = Some r)"

definition settled_run :: "time \<Rightarrow> zone_run \<Rightarrow> 'a db_scheme \<Rightarrow> bool" where
  "settled_run now r d = (wf_runs d \<and> (\<exists>r'. row_at run_id (zone_runs d) (run_id r) = Some r'
     \<and> end_utc r' = Some now \<and> run_status r' = Some (if confirmed r then ''ok'' else ''failed'')))"

lemma stop_settles:
  assumes "pending_run r w \<or> settled_run now r w" "gid_at w (run_zone r) = Some g" "real_group g"
    and w'_def: "w' = snd (stop_zone k reason True imm skip now mn wall w)"
  shows "(pending_run r w' \<or> settled_run now r w') \<and> (settled_run now r w \<or> k = run_zone r \<longrightarrow> settled_run now r w')"
proof -
  let ?f = "\<lambda>g. snd (finish_open_run k g now mn wall w)"
  have wf: "wf_runs w" using assms(1) by (auto simp: pending_run_def settled_run_def)
  note fin = finish_open_run_cases [OF wf, where k = k and now = now and mn = mn and wall = wall]
  have seq: "run_seq w' = run_seq w" "db_up w' = db_up w"
    unfolding w'_def by (rule run_seq_stop_zone, rule db_up_senv [OF senv_stop_zone])
  have seq_f: "run_seq (?f g) = run_seq w" "db_up (?f g) = db_up w" for g
    by (simp_all add: finish_open_run_def finish_zone_run_def Let_def split: option.splits)
  have "zone_runs w' = zone_runs w \<or> (\<exists>g. zone_runs w' = zone_runs (?f g))"
    unfolding w'_def by (rule stop_zone_history)
  then have wf': "wf_runs w'" using wf fin seq seq_f by (auto simp: wf_runs_def)
  have keep_row: "row_at run_id (zone_runs w') n = Some q" if "row_at run_id (zone_runs w) n = Some q" "run_zone q \<noteq> k \<or> end_utc q \<noteq> None" for n q
    using that \<open>zone_runs w' = zone_runs w \<or> _\<close> fin [where n = n and r = q] by auto
  have keep_open: "get_open_zone_run w' i = get_open_zone_run w i" if "i \<noteq> k" for i
    using that \<open>zone_runs w' = zone_runs w \<or> _\<close> fin [where i = i] seq(2) seq_f(2) by (auto simp: get_open_zone_run_def)
  show ?thesis
  proof (cases "settled_run now r w")
    case True
    then show ?thesis using keep_row wf' unfolding settled_run_def by blast
  next
    case False
    then have p: "get_open_zone_run w (run_zone r) = Some r" using assms(1) by (simp add: pending_run_def)
    show ?thesis
    proof (cases "k = run_zone r")
      case True
      obtain z where z: "get_zone w k = Some z" "zone_gid z = g" using assms(2) True by (auto simp: gid_at_def)
      have r: "r \<in> set (zone_runs w)" using get_open_zone_run_open [OF p] by auto
      have row: "row_at run_id (zone_runs w) (run_id r) = Some r" by (rule run_row_unique [OF wf r])
      have up: "db_up w" using z(1) by (simp add: get_zone_def split: if_splits)
      have "zone_runs w' = zone_runs (?f g)" unfolding w'_def using runs_stop_zone [OF z(1)] z(2) assms(3) by simp
      then have "settled_run now r w'"
        using wf' up row p True
        by (auto simp: settled_run_def finish_open_run_def Let_def finish_zone_run_def honest_status_def run_rows.row_at_upd_key)
      then show ?thesis by simp
    next
      case other: False
      then show ?thesis using False p keep_open [of "run_zone r"] wf' by (simp add: pending_run_def)
    qed
  qed
qed

lemma stops_settle:
  assumes "pending_run r w \<or> settled_run now r w" "gid_at w (run_zone r) = Some g" "real_group g"
    and stop: "\<And>k w. stop k w = snd (stop_zone k reason True imm skip now mn wall w)"
  shows "(pending_run r (fold stop ks w) \<or> settled_run now r (fold stop ks w))
    \<and> (settled_run now r w \<or> run_zone r \<in> set ks \<longrightarrow> settled_run now r (fold stop ks w))"
  using assms(1,2)
proof (induction ks arbitrary: w)
  case (Cons k ks)
  note one = stop_settles [OF Cons.prems assms(3) stop]
  have "gid_at (stop k w) (run_zone r) = Some g" using Cons.prems(2) gid_at_cong [of "stop k w" w] by (simp add: stop)
  with Cons.IH [of "stop k w"] one [of k] show ?case by auto
qed simp

lemma more_stop_group [keeps_sched]: "world.more (stop_group r g s) = world.more s"
  by (simp add: stop_group_def keeps_sched)

lemma group_stops_settle:
  assumes "pending_run r s \<or> settled_run (now_of s) r s" "gid_at s (run_zone r) = Some g" "real_group g"
  shows "(pending_run r (fold (stop_group reason) gs s) \<or> settled_run (now_of s) r (fold (stop_group reason) gs s))
    \<and> (settled_run (now_of s) r s \<or> (\<exists>h \<in> set gs. run_zone r \<in> group_members s (gid h))
        \<longrightarrow> settled_run (now_of s) r (fold (stop_group reason) gs s))"
  using assms(1,2)
proof (induction gs arbitrary: s)
  case (Cons h gs)
  let ?t = "stop_group reason h s"
  note st = stops_settle [OF Cons.prems assms(3) refl, of reason False False "mono_of s" "wall_of s" "map zid (get_zones_by_group s (gid h))"]
  have one: "(pending_run r ?t \<or> settled_run (now_of s) r ?t)
      \<and> (settled_run (now_of s) r s \<or> run_zone r \<in> group_members s (gid h) \<longrightarrow> settled_run (now_of s) r ?t)"
    using st unfolding stop_group_def stop_all_fold set_map group_members_eq .
  have now: "now_of ?t = now_of s" by (rule more_now_of) (rule more_stop_group)
  have gid: "gid_at ?t (run_zone r) = Some g" using Cons.prems(2) gid_at_cong [of ?t s] by simp
  have mem: "group_members ?t = group_members s" by (rule group_members_cong) simp
  from one have pre: "pending_run r ?t \<or> settled_run (now_of ?t) r ?t" unfolding now by blast
  show ?case using Cons.IH [OF pre gid] one unfolding now mem by auto
qed simp

interpretation status_rows: row_update run_id "\<lambda>st r. r\<lparr>run_status := st\<rparr>"
  by unfold_locales simp

lemma row_at_abort:
  "row_at run_id (zone_runs d) n = Some r \<Longrightarrow> end_utc r \<noteq> None \<Longrightarrow> row_at run_id (zone_runs (abort_open_runs d)) n = Some r"
  by (auto simp: abort_open_runs_def status_rows.row_at_upd_rows [of _ "Some ''aborted''"])

text \<open>
  A run that was open when the process died is recorded as lasting until the restart.  The boot
  marks open runs as aborted only after it has stopped every group, and a stop finishes the run: its
  end is the time of the boot and, if its relay had confirmed it, its status is \<open>ok\<close>.
\<close>

theorem boot_settles_interrupted_run:
  assumes "wf_runs s" "g \<in> set (get_groups s)" "z \<in> set (get_zones_by_group s (gid g))" "wf_zones s"
    "real_group (gid g)" "get_open_zone_run s (zid z) = Some r"
  shows "\<exists>r'. row_at run_id (zone_runs (boot_sync s)) (run_id r) = Some r' \<and> end_utc r' = Some (now_of s)
    \<and> run_status r' = Some (if confirmed r then ''ok'' else ''failed'')"
proof -
  define s1 where "s1 = fold (stop_group ''boot_sync'') (get_groups s) s"
  define s3 where "s3 = close_masters 1 (get_groups (abort_open_runs s1)) [] (abort_open_runs s1)"
  have zr: "run_zone r = zid z" using get_open_zone_run_open [OF assms(6)] by simp
  have z: "db_up s" "z \<in> set (zones s)" "group_id z = Some (gid g)"
    using assms(3) by (auto simp: get_zones_by_group_def split: if_splits)
  have "row_at zid (zones s) (zid z) = Some z" by (rule row_at_mem_unique [OF wf_zones_distinct [OF assms(4)] z(2)])
  then have gid: "gid_at s (run_zone r) = Some (gid g)" using z by (simp add: gid_at_def get_zone_def zr zone_gid_def)
  have mem: "run_zone r \<in> group_members s (gid g)" using assms(3) by (auto simp: group_members_eq [symmetric] zr)
  have "pending_run r s" using assms(1,6) by (simp add: pending_run_def zr)
  then have "settled_run (now_of s) r s1"
    using group_stops_settle [OF _ gid assms(5), of "''boot_sync''" "get_groups s"] assms(2) mem unfolding s1_def by blast
  then obtain r' where r': "row_at run_id (zone_runs s1) (run_id r) = Some r'" "end_utc r' = Some (now_of s)"
    "run_status r' = Some (if confirmed r then ''ok'' else ''failed'')" by (auto simp: settled_run_def)
  have "row_at run_id (zone_runs (abort_open_runs s1)) (run_id r) = Some r'" by (rule row_at_abort [OF r'(1)]) (simp add: r'(2))
  moreover have "zone_runs (boot_sync s) = zone_runs (abort_open_runs s1)"
  proof -
    let ?s4 = "fold zone_off_retry (get_zones s3) s3"
    have "boot_sync s = close_masters 3 (get_groups ?s4) [] ?s4"
      unfolding boot_sync_def Let_def s1_def s3_def by (rule refl)
    then have "zone_runs (boot_sync s) = zone_runs ?s4" using close_masters_frame [of 3 "get_groups ?s4" "[]" ?s4] by metis
    also have "\<dots> = zone_runs s3" using zones_off_retry_frame [of "get_zones s3" s3] by blast
    also have "\<dots> = zone_runs (abort_open_runs s1)" unfolding s3_def using close_masters_frame by blast
    finally show ?thesis .
  qed
  ultimately show ?thesis using r'(2,3) by auto
qed

theorem boot_settles_interrupted_run_witness:
  "\<exists>r. row_at run_id (zone_runs (boot_sync (fresh_sched running_world))) 1 = Some r \<and> end_utc r = Some 24000"
proof -
  let ?s = "fresh_sched running_world"
  have rows: "zone_runs ?s = zone_runs running_world" "run_seq ?s = run_seq running_world"
    by (simp_all add: fresh_sched_def world.defs)
  have old: "zones running_world = zones demo_world" "groups running_world = groups demo_world" "db_up running_world"
    by (simp_all add: running_world_def create_zone_run_def Let_def)
  obtain r where r: "get_open_zone_run running_world 1 = Some r" "run_id r = 1" using running_facts(4) by auto
  have "get_open_zone_run ?s 1 = Some r"
    using r(1) by (simp add: get_open_zone_run_def rows old split: if_splits)
  moreover have "wf_runs ?s" using running_facts(2) by (simp add: wf_runs_def rows)
  ultimately show ?thesis
    using boot_settles_interrupted_run [of ?s "demo_group 1" "demo_zone 1 ''on''" r] r(2)
    by (auto simp: wf_zones_def get_groups_def get_zones_by_group_def old real_group_def demo_group_def)
qed

end
