(* ===== verification/Http_Control.thy ===== *)
theory Http_Control
  imports Lifecycle
begin

text \<open>
  The HTTP handlers that open and close valves: \<open>src/routes/zones_watering_api.py\<close>,
  \<open>src/routes/groups_api.py\<close> and the emergency switch of \<open>src/routes/system_emergency_api.py\<close>.  A handler
  takes the application's state and gives a reply and the state; everything it reads, it reads at one
  instant.  The scheduler object exists (\<open>get_scheduler()\<close> gives it).  Replies keep their status and the
  fields a client acts on; message texts, the SSE broadcast and the generic request audit
  (\<open>audit_log\<close>) are left out, the audit of an aborted session is kept.
\<close>

subsection \<open>The state and the requests\<close>

text \<open>\<open>EMERGENCY_STOP\<close> of the application's configuration and \<open>_GROUP_CHANGE_GUARD\<close>.\<close>

record app = sched +
  emergency :: bool
  group_guard :: "int \<Rightarrow> rat"

text \<open>A value of a JSON body; finite numbers only.\<close>

datatype json =
    J_Null | J_Bool bool | J_Int int | J_Float rat | J_Str string | J_List "json list" | J_Object "(string \<times> json) list"

text \<open>\<open>int(v)\<close>; \<open>None\<close> is a \<open>ValueError\<close> or a \<open>TypeError\<close>, which the handlers treat alike.\<close>

definition trunc :: "rat \<Rightarrow> int" where "trunc q = (if 0 \<le> q then \<lfloor>q\<rfloor> else \<lceil>q\<rceil>)"

fun json_int :: "json \<Rightarrow> int option" where
  "json_int (J_Int n) = Some n"
| "json_int (J_Bool b) = Some (if b then 1 else 0)"
| "json_int (J_Float q) = Some (trunc q)"
| "json_int (J_Str s) = py_int s"
| "json_int j = None"

type_synonym body = "(string \<times> json) list"

definition field :: "string \<Rightarrow> body \<Rightarrow> json" where
  "field k b = (case map_of b k of None \<Rightarrow> J_Null | Some v \<Rightarrow> v)"

datatype detail =
    Plain
  | Session_Ended
  | Busy
  | Warned "dur_warning list"
  | Skipped_To int "int option"
  | Watering (is_watering: bool) (elapsed_time: int) (remaining_time: int) (total_duration: int)
      (elapsed_seconds: int) (remaining_seconds: int) (total_seconds: int)
  | Ad_Hoc int
  | Stats stop_stats

datatype reply = Success detail | Failure nat

definition command_id :: "'a sched_scheme \<Rightarrow> string" where "command_id s = str_int (trunc (wall_of s))"

abbreviation start_now :: "int \<Rightarrow> string \<Rightarrow> 'a sched_scheme \<Rightarrow> bool \<times> 'a sched_scheme" where
  "start_now i source s \<equiv> exclusive_start_zone i source (now_of s) (mono_of s) (wall_of s) s"

abbreviation stop_now :: "int \<Rightarrow> string \<Rightarrow> bool \<Rightarrow> 'a sched_scheme \<Rightarrow> bool \<times> 'a sched_scheme" where
  "stop_now i reason force s \<equiv> stop_zone i reason force False False (now_of s) (mono_of s) (wall_of s) s"

subsection \<open>One-time durations\<close>

definition percent_presets :: "int list" where "percent_presets = [50, 75, 100, 125, 150, 200]"

definition minutes_ok :: "int \<Rightarrow> bool" where "minutes_ok d = (1 \<le> d \<and> d \<le> 120)"

text \<open>
  Minutes win when they are sent at all: \<open>Inl\<close> rejects the request.  A percentage that is no preset
  is ignored.
\<close>

definition minutes_field :: "json \<Rightarrow> unit + int option" where
  "minutes_field v =
     (if v = J_Null then Inr None
      else case json_int v of None \<Rightarrow> Inl () | Some d \<Rightarrow> (if minutes_ok d then Inr (Some d) else Inl ()))"

definition preset_field :: "json \<Rightarrow> int option" where
  "preset_field v =
     (if v = J_Null then None
      else case json_int v of None \<Rightarrow> None | Some p \<Rightarrow> (if p \<in> set percent_presets then Some p else None))"

text \<open>The durations of \<open>run-selected\<close>: both are checked, and a percentage is any of 10..200.\<close>

definition parse_run_overrides :: "body \<Rightarrow> unit + int option \<times> int option" where
  "parse_run_overrides b =
     (case minutes_field (field ''duration'' b) of
        Inl e \<Rightarrow> Inl e
      | Inr od \<Rightarrow>
          (let v = field ''duration_percent'' b in
           if v = J_Null then Inr (od, None)
           else case json_int v of
                  None \<Rightarrow> Inl ()
                | Some p \<Rightarrow> (if \<not> (10 \<le> p \<and> p \<le> 200) then Inl () else Inr (od, if od = None then Some p else None))))"

subsection \<open>Starting a zone\<close>

definition peer_off_manual :: "zone \<Rightarrow> 'a sched_scheme \<Rightarrow> 'a sched_scheme" where
  "peer_off_manual z s =
     (let t = strip (topic z);
          s1 = (case mqtt_ready s z of
                  None \<Rightarrow> s
                | Some srv \<Rightarrow>
                    snd (publish_mqtt_value (server_id srv) (if starts_with ''/'' t then t else CHR ''/'' # t) ''0'' s))
      in uzs (zid z) [U_state ''off'', U_wstart None] ''peer_off_manual_start'' s1)"

text \<open>
  \<open>start_zone\<close>: the duration is that of the row read first.  A zone without a duration starts; planning
  its stop fails, which is logged, and then the log entry raises.
\<close>

definition start_zone_api :: "int \<Rightarrow> 'a app_scheme \<Rightarrow> reply \<times> 'a app_scheme" where
  "start_zone_api i s =
     (if emergency s then (Failure 400, s)
      else case get_zone s i of
             None \<Rightarrow> (Failure 404, s)
           | Some z \<Rightarrow>
               (let s1 = (case group_id z of None \<Rightarrow> s | Some g \<Rightarrow> snd (cancel_group_jobs g False s));
                    g = zone_gid z;
                    s2 = (if g = 0 then s1 else fold peer_off_manual (group_peers s1 g i) s1);
                    st = start_now i ''manual'' s2
                in if \<not> fst st then (Failure 500, snd st)
                   else
                     (let s3 = schedule_zone_stop i (duration z) (Some (command_id (snd st))) (snd st) in
                      case duration z of
                        None \<Rightarrow> (Failure 500, s3)
                      | Some d \<Rightarrow> (Success Plain, add_log ''zone_start'' [i, g, d] s3))))"

text \<open>
  The programs whose main time has passed today are cancelled for the group.  A time that is no pair
  of integers counts as midnight; one that is out of range raises, and the first component is \<open>True\<close>.
\<close>

fun cancel_passed :: "int \<Rightarrow> time \<Rightarrow> program list \<Rightarrow> 'a db_scheme \<Rightarrow> bool \<times> 'a db_scheme" where
  "cancel_passed g now [] d = (False, d)"
| "cancel_passed g now (p # ps) d =
     (let hm = (case parse_hhmm_once (if prog_time p = [] then ''00:00'' else prog_time p) of None \<Rightarrow> (0, 0) | Some hm \<Rightarrow> hm) in
      if \<not> valid_hm (fst hm) (snd hm) then (True, d)
      else cancel_passed g now ps
             (if at_hm now (fst hm) (snd hm) \<le> now then snd (cancel_program_run_for_group (prog_id p) (day_of now) g d) else d))"

text \<open>
  The stop jobs of a zone that is started again: the id of a watchdog job is searched as a substring,
  so zone 1 also matches the zones 10 to 19, 100 to 199 and so on.
\<close>

definition matches_stop_job :: "int \<Rightarrow> job_id \<Rightarrow> bool" where
  "matches_stop_job i j =
     (case j of J_zone_stop k t \<Rightarrow> k = i | J_hard_stop k \<Rightarrow> starts_with (str_int i) (str_int k) | _ \<Rightarrow> False)"

definition plan_stops :: "int \<Rightarrow> int \<Rightarrow> time \<Rightarrow> 'a sched_scheme \<Rightarrow> 'a sched_scheme" where
  "plan_stops i d now s =
     (let s1 = schedule_zone_stop i (Some d) (Some (command_id s)) s in schedule_zone_hard_stop i (now + minutes d) s1)"

definition restart_running :: "int \<Rightarrow> int \<Rightarrow> 'a sched_scheme \<Rightarrow> 'a sched_scheme" where
  "restart_running i d s =
     (let now = now_of s;
          s1 = update_zone i [U_planned (Some (now + minutes d)), U_wstart (Some now), U_source (Some ''manual'')] s
      in plan_stops i d now (remove_jobs_where (matches_stop_job i) s1))"

text \<open>What precedes the start: the group's jobs, today's runs, the next runs; \<open>True\<close> when it raises.\<close>

definition clear_way :: "int \<Rightarrow> 'a sched_scheme \<Rightarrow> bool \<times> 'a sched_scheme" where
  "clear_way g s =
     (let c = cancel_group_jobs g False s in
      if fst c \<noteq> None then (True, snd c)
      else
        (let p = cancel_passed g (now_of (snd c)) (get_programs (snd c)) (snd c) in
         if fst p then p
         else (let r = reschedule_group_to_next_program g (get_programs (snd p)) (now_of (snd p)) (snd p)
               in (fst r \<noteq> None, snd r))))"

definition mqtt_start_zone :: "int \<Rightarrow> zone \<Rightarrow> int option \<Rightarrow> dur_warning list \<Rightarrow> 'a sched_scheme \<Rightarrow> reply \<times> 'a sched_scheme" where
  "mqtt_start_zone i z od warns s =
     (let g = zone_gid z; w = (if g = 0 then (False, s) else clear_way g s) in
      if fst w then (Failure 500, snd w)
      else
        (let st = start_now i ''manual'' (snd w) in
         if \<not> fst st then (Failure 500, snd st)
         else
           (let d = (case od of Some d \<Rightarrow> d | None \<Rightarrow> (if truthy_int (duration z) then int_or0 (duration z) else 10));
                now = now_of (snd st);
                s3 = uzs i [U_planned (Some (now + minutes d)), U_source (Some ''manual'')] ''manual_start_planned_end'' (snd st)
            in (Success (Warned warns), add_log ''zone_start_manual'' [i, g] (plan_stops i d now s3)))))"

definition mqtt_start_api :: "int \<Rightarrow> body \<Rightarrow> 'a app_scheme \<Rightarrow> reply \<times> 'a app_scheme" where
  "mqtt_start_api i b s =
     (case get_zone s i of
        None \<Rightarrow> (Failure 404, s)
      | Some z \<Rightarrow>
          (if emergency s then (Failure 400, s)
           else case minutes_field (field ''duration'' b) of
                  Inl e \<Rightarrow> (Failure 400, s)
                | Inr mins \<Rightarrow>
                    (let pct = (if mins = None then preset_field (field ''duration_percent'' b) else None);
                         pd = (case pct of None \<Rightarrow> (mins, []) | Some p \<Rightarrow> map_prod Some id (per_zone_dur z None (Some p)))
                     in if zstate z = ''on''
                        then (Success (Warned (snd pd)), case fst pd of None \<Rightarrow> s | Some d \<Rightarrow> restart_running i d s)
                        else mqtt_start_zone i z (fst pd) (snd pd) s)))"

subsection \<open>Stopping a zone\<close>

text \<open>
  When the zone's group has a session the whole session is cancelled; \<open>None\<close> when there is none or
  cancelling it raised, and the zone alone is to be stopped.
\<close>

definition end_session :: "string \<Rightarrow> int \<Rightarrow> zone \<Rightarrow> 'a sched_scheme \<Rightarrow> reply option \<times> 'a sched_scheme" where
  "end_session endpoint i z s =
     (let g = zone_gid z in
      if g \<noteq> 0 \<and> is_group_session_active s g
      then
        (let c = cancel_group_jobs g False (s\<lparr>audit := audit s @ [Session_Aborted endpoint g (Some i)]\<rparr>)
         in (if fst c = None then Some (Success Session_Ended) else None, snd c))
      else (None, s))"

definition stop_zone_api :: "int \<Rightarrow> 'a sched_scheme \<Rightarrow> reply \<times> 'a sched_scheme" where
  "stop_zone_api i s =
     (case get_zone s i of
        None \<Rightarrow> (Failure 404, s)
      | Some z \<Rightarrow>
          (case end_session ''api_zone_stop'' i z s of
             (Some r, s1) \<Rightarrow> (r, s1)
           | (None, s1) \<Rightarrow>
               (let st = stop_now i ''manual'' False s1 in
                if fst st then (Success Plain, add_log ''zone_stop'' [i, zone_gid z] (snd st)) else (Failure 500, snd st))))"

text \<open>The MQTT handler publishes \<open>0\<close> itself when the controller could not stop the zone.\<close>

definition mqtt_stop_api :: "int \<Rightarrow> 'a sched_scheme \<Rightarrow> reply \<times> 'a sched_scheme" where
  "mqtt_stop_api i s =
     (case get_zone s i of
        None \<Rightarrow> (Failure 404, s)
      | Some z \<Rightarrow>
          (case end_session ''api_zone_mqtt_stop'' i z s of
             (Some r, s1) \<Rightarrow> (r, s1)
           | (None, s1) \<Rightarrow>
               (let st = stop_now i ''manual'' False s1 in
                if fst st then (Success Plain, snd st)
                else case mqtt_ready (snd st) z of
                       None \<Rightarrow> (Failure 400, snd st)
                     | Some srv \<Rightarrow>
                         (Success Plain,
                          uzs i [U_state ''off'', U_wstart None] ''mqtt_stop''
                            (snd (publish_mqtt_value (server_id srv) (normalize_topic (strip (topic z))) ''0'' (snd st)))))))"

text \<open>The poll for the remaining time stops a zone whose time is over.\<close>

definition planned_minutes :: "zone \<Rightarrow> int" where
  "planned_minutes z =
     (case (planned_end_time z, watering_start_time z) of
        (Some e, Some t) \<Rightarrow> max 1 ((e - t) div 60)
      | _ \<Rightarrow> int_or0 (duration z))"

definition watering_time_api :: "int \<Rightarrow> 'a sched_scheme \<Rightarrow> reply \<times> 'a sched_scheme" where
  "watering_time_api i s =
     (case get_zone s i of
        None \<Rightarrow> (Failure 404, s)
      | Some z \<Rightarrow>
          (let total = planned_minutes z in
           case watering_start_time z of
             None \<Rightarrow> (Success (Watering False 0 0 total 0 0 (total * 60)), s)
           | Some t \<Rightarrow>
               (if zstate z \<noteq> ''on'' then (Success (Watering False 0 0 total 0 0 (total * 60)), s)
                else
                  (let el = max 0 (now_of s - t); rem = max 0 (total * 60 - el) in
                   if total * 60 \<le> el
                   then (Success (Watering False total 0 total (total * 60) 0 (total * 60)),
                         snd (stop_now i ''time_expired_poll'' True s))
                   else (Success (Watering True (el div 60) (rem div 60) total el rem (total * 60)), s)))))"

end
