(* ===== verification/Relay_Hub.thy ===== *)
theory Relay_Hub
  imports Http_Control
begin

text \<open>
  \<open>src/services/sse_hub.py\<close>: the MQTT client that listens to the relays, and the event queues of the
  browsers.  What a relay reports on its topic is written into the zone, confirms or ends its run,
  and re-plans its stop.  \<open>_on_message\<close> takes no group or zone lock; here a message is one step.
  The hub is its own record beside the application's state.  paho is installed, \<open>TESTING\<close> is off;
  \<open>reachable\<close> says for which brokers \<open>connect\<close> succeeds; \<open>recent t\<close>, of one message, says whether the
  last value for the topic \<open>t\<close> was sent less than 0.2 s before.  The debug counter thread is left out.
\<close>

subsection \<open>State\<close>

definition max_sse_clients :: nat where "max_sse_clients = 20"
definition sse_queue_size :: nat where "sse_queue_size = 100"
definition meta_buffer_size :: nat where "meta_buffer_size = 100"

text \<open>\<open>Sse_End\<close> is the sentinel \<open>None\<close>; the others are the JSON texts the hub pushes.\<close>

datatype sse_item =
    Sse_End
  | Sse_Zone int string string string
  | Sse_Master int string
  | Sse_Text string

record sse_client =
  cl_id :: nat
  cl_queue :: "sse_item list"

type_synonym topic_map = "((int \<times> string) \<times> int list) list"

record hub =
  hub_started :: bool
  zone_topics :: topic_map
  mv_topics :: topic_map
  hub_mqtt :: "int list"
  hub_subscribed :: "(int \<times> string) list"
  manual_stops :: "int \<Rightarrow> rat option"
  sse_clients :: "sse_client list"
  evicted :: "sse_client list"
  next_client :: nat
  meta_buffer :: "(string \<times> string \<times> time) list"

definition new_hub :: hub where
  "new_hub = \<lparr>hub_started = False, zone_topics = [], mv_topics = [], hub_mqtt = [], hub_subscribed = [],
     manual_stops = (\<lambda>_. None), sse_clients = [], evicted = [], next_client = 0, meta_buffer = []\<rparr>"

subsection \<open>The browsers' queues\<close>

definition queue_full :: "sse_client \<Rightarrow> bool" where
  "queue_full c = (sse_queue_size \<le> length (cl_queue c))"

definition put_nowait :: "sse_item \<Rightarrow> sse_client \<Rightarrow> sse_client" where
  "put_nowait x c = (if queue_full c then c else c\<lparr>cl_queue := cl_queue c @ [x]\<rparr>)"

text \<open>The push of the message handler loses the item for a full client and keeps the client.\<close>

definition fan_out :: "sse_item \<Rightarrow> hub \<Rightarrow> hub" where
  "fan_out x h = h\<lparr>sse_clients := map (put_nowait x) (sse_clients h)\<rparr>"

text \<open>\<open>broadcast\<close> drops the clients whose queue is full.\<close>

definition broadcast :: "sse_item \<Rightarrow> hub \<Rightarrow> hub" where
  "broadcast x h = h\<lparr>sse_clients := map (put_nowait x) (filter (\<lambda>c. \<not> queue_full c) (sse_clients h))\<rparr>"

definition register_client :: "hub \<Rightarrow> hub" where
  "register_client h =
     (let over = length (sse_clients h) + 1 - max_sse_clients
      in h\<lparr>evicted := evicted h @ map (put_nowait Sse_End) (take over (sse_clients h)),
           sse_clients := drop over (sse_clients h) @ [\<lparr>cl_id = next_client h, cl_queue = []\<rparr>],
           next_client := next_client h + 1\<rparr>)"

definition unregister_client :: "nat \<Rightarrow> hub \<Rightarrow> hub" where
  "unregister_client i h = h\<lparr>sse_clients := filter (\<lambda>c. cl_id c \<noteq> i) (sse_clients h)\<rparr>"

definition buffer_meta :: "string \<Rightarrow> string \<Rightarrow> time \<Rightarrow> hub \<Rightarrow> hub" where
  "buffer_meta t p now h =
     (let b = meta_buffer h @ [(t, p, now)] in h\<lparr>meta_buffer := drop (length b - meta_buffer_size) b\<rparr>)"

subsection \<open>The anti-restart window\<close>

definition mark_zone_stopped :: "int \<Rightarrow> rat \<Rightarrow> hub \<Rightarrow> hub" where
  "mark_zone_stopped i wall h = h\<lparr>manual_stops := (manual_stops h)(i := Some wall)\<rparr>"

definition recently_stopped :: "hub \<Rightarrow> int \<Rightarrow> rat \<Rightarrow> int \<Rightarrow> bool" where
  "recently_stopped h i wall window =
     (case manual_stops h i of None \<Rightarrow> False | Some ts \<Rightarrow> wall - ts < of_int (max 0 window))"

subsection \<open>Subscribing\<close>

definition with_slash :: "string \<Rightarrow> string" where
  "with_slash t = (if starts_with ''/'' t then t else CHR ''/'' # t)"

fun add_topic :: "int \<times> string \<Rightarrow> int \<Rightarrow> topic_map \<Rightarrow> topic_map" where
  "add_topic k i [] = [(k, [i])]"
| "add_topic k i ((k', is) # m) = (if k' = k then (k', is @ [i]) # m else (k', is) # add_topic k i m)"

definition ids_at :: "topic_map \<Rightarrow> int \<times> string \<Rightarrow> int list" where
  "ids_at m k = (case map_of m k of None \<Rightarrow> [] | Some is \<Rightarrow> is)"

definition zone_topic_entry :: "zone \<Rightarrow> topic_map \<Rightarrow> topic_map" where
  "zone_topic_entry z m =
     (if \<not> truthy_int (mqtt_server_id z) \<or> strip (topic z) = [] then m
      else add_topic (int_or0 (mqtt_server_id z), with_slash (strip (topic z))) (zid z) m)"

definition mv_topic_entry :: "group \<Rightarrow> topic_map \<Rightarrow> topic_map" where
  "mv_topic_entry g m =
     (if use_master_valve g \<noteq> 1 \<or> strip (master_mqtt_topic g) = [] \<or> \<not> truthy_int (master_mqtt_server_id g) then m
      else add_topic (int_or0 (master_mqtt_server_id g), with_slash (strip (master_mqtt_topic g))) (gid g) m)"

definition rebuild_subscriptions :: "'a db_scheme \<Rightarrow> topic_map \<times> topic_map" where
  "rebuild_subscriptions d = (fold zone_topic_entry (get_zones d) [], fold mv_topic_entry (get_groups d) [])"

definition topics_of :: "topic_map \<Rightarrow> int \<Rightarrow> (int \<times> string) list" where
  "topics_of m sid = filter (\<lambda>k. fst k = sid) (map fst m)"

definition connect_server :: "(int \<Rightarrow> bool) \<Rightarrow> 'a db_scheme \<Rightarrow> topic_map \<Rightarrow> topic_map \<Rightarrow> int \<Rightarrow> hub \<Rightarrow> hub" where
  "connect_server reachable d zt mt sid h =
     (if get_mqtt_server d sid = None \<or> \<not> reachable sid then h
      else h\<lparr>hub_mqtt := hub_mqtt h @ [sid],
             hub_subscribed := hub_subscribed h @ topics_of zt sid @ topics_of mt sid\<rparr>)"

definition ensure_hub_started :: "(int \<Rightarrow> bool) \<Rightarrow> 'a db_scheme \<Rightarrow> hub \<Rightarrow> hub" where
  "ensure_hub_started reachable d h =
     (if hub_started h then h
      else case rebuild_subscriptions d of (zt, mt) \<Rightarrow>
        (fold (connect_server reachable d zt mt) (rev (remdups (rev (map (fst \<circ> fst) zt)))) (h\<lparr>zone_topics := zt, mv_topics := mt\<rparr>))
          \<lparr>hub_started := True\<rparr>)"

subsection \<open>A message of a relay\<close>

definition says_open :: "string \<Rightarrow> bool" where
  "says_open p = (p \<in> {''1'', ''true'', ''ON'', ''on''})"

definition mv_event :: "bool \<Rightarrow> int \<Rightarrow> hub \<times> 'a app_scheme \<Rightarrow> hub \<times> 'a app_scheme" where
  "mv_event b g = (\<lambda>(h, s). let v = (if b then ''open'' else ''closed'')
     in (fan_out (Sse_Master g v) h, snd (update_group_fields g [G_observed (Some v)] s)))"

text \<open>
  The hub publishes with the default spacing of \<open>publish_mqtt_value\<close>: a value that was the last one
  sent to the key, less than 0.2 s ago, is skipped.  The key's last value is that of the last attempt.
\<close>

definition last_value :: "'a world_scheme \<Rightarrow> int \<Rightarrow> string \<Rightarrow> string option" where
  "last_value w srv t = map_option ms_value (find (\<lambda>m. ms_server m = srv \<and> ms_topic m = t) (rev (sent w)))"

definition repeats :: "(string \<Rightarrow> bool) \<Rightarrow> int \<Rightarrow> string \<Rightarrow> string \<Rightarrow> 'a world_scheme \<Rightarrow> bool" where
  "repeats recent srv t v w = (recent t \<and> last_value w srv t = Some v)"

definition publish_spaced :: "(string \<Rightarrow> bool) \<Rightarrow> int \<Rightarrow> string \<Rightarrow> string \<Rightarrow> 'a world_scheme \<Rightarrow> 'a world_scheme" where
  "publish_spaced recent srv tp v w =
     (let t = normalize_topic tp; t_on = t @ ''/on'' in
      if repeats recent srv t v w then w
      else
        (let base = send srv t v w in
         if \<not> fst base \<or> repeats recent srv t_on v (snd base) then snd base
         else snd (send srv t_on v (snd base))))"

definition send_off :: "(string \<Rightarrow> bool) \<Rightarrow> int \<Rightarrow> string \<Rightarrow> 'a app_scheme \<Rightarrow> 'a app_scheme" where
  "send_off recent sid t s =
     (case get_mqtt_server s sid of None \<Rightarrow> s | Some srv \<Rightarrow> publish_spaced recent (server_id srv) t ''0'' s)"

text \<open>During an emergency, and for a zone stopped by hand a moment ago, an "on" is turned back.\<close>

definition refuse_emergency :: "(string \<Rightarrow> bool) \<Rightarrow> int \<Rightarrow> string \<Rightarrow> bool \<times> 'a app_scheme \<Rightarrow> bool \<times> 'a app_scheme" where
  "refuse_emergency recent sid t = (\<lambda>(b, s). if emergency s \<and> b then (False, send_off recent sid t s) else (b, s))"

definition refuse_restart :: "(string \<Rightarrow> bool) \<Rightarrow> hub \<Rightarrow> int \<Rightarrow> string \<Rightarrow> int \<Rightarrow> bool \<times> 'a app_scheme \<Rightarrow> bool \<times> 'a app_scheme" where
  "refuse_restart recent h sid t i =
     (\<lambda>(b, s). if b \<and> recently_stopped h i (wall_of s) 5 then (False, send_off recent sid t s) else (b, s))"

definition observed_on :: "int \<Rightarrow> zone option \<Rightarrow> 'a app_scheme \<Rightarrow> zone_upd list \<times> 'a app_scheme" where
  "observed_on i z s =
     (let s1 = snd (mark_zone_run_confirmed i s);
          us = U_state ''on'' # (if Option.bind z watering_start_time = None
                 then [U_wstart (Some (now_of s)), U_source (Some ''remote'')] else []);
          dur = int_or0 (Option.bind z duration)
      in (us, if 0 < dur then schedule_zone_stop i (Some dur) (Some (command_id s1)) (cancel_zone_jobs i s1) else s1))"

definition observed_off :: "int \<Rightarrow> zone option \<Rightarrow> 'a app_scheme \<Rightarrow> zone_upd list \<times> 'a app_scheme" where
  "observed_off i z s =
     (let s1 = (if Option.bind z watering_start_time = None then s
                else case get_open_zone_run s i of None \<Rightarrow> s
                     | Some r \<Rightarrow> snd (finish_zone_run (run_id r) (now_of s) (mono_of s) None None None ''ok'' s))
      in ([U_state ''off'', U_wstart None], cancel_zone_jobs i s1))"

definition observe_zone :: "string \<Rightarrow> string \<Rightarrow> bool \<Rightarrow> int \<Rightarrow> hub \<times> 'a app_scheme \<Rightarrow> hub \<times> 'a app_scheme" where
  "observe_zone t p b i = (\<lambda>(h, s).
     let z = get_zone s i;
         v = (if b then ''on'' else ''off'');
         res = (if b then observed_on i z s else observed_off i z s)
     in (fan_out (Sse_Zone i t p v) h,
         uzs i (fst res @ [U_observed (Some v)]) ''mqtt_observed_change'' (snd res)))"

definition on_message :: "(string \<Rightarrow> bool) \<Rightarrow> int \<Rightarrow> string \<Rightarrow> string \<Rightarrow> hub \<times> 'a app_scheme \<Rightarrow> hub \<times> 'a app_scheme" where
  "on_message recent sid tp payload = (\<lambda>(h, s).
     let t = with_slash tp; p = strip payload;
         zs = ids_at (zone_topics h) (sid, t); gs = ids_at (mv_topics h) (sid, t)
     in if ends_with ''/meta'' t then (buffer_meta t p (now_of s) h, s)
        else if gs \<noteq> [] then fold (mv_event (says_open p)) gs (h, s)
        else (case fold (refuse_restart recent h sid t) zs (refuse_emergency recent sid t (says_open p, s)) of (b, s1) \<Rightarrow>
                fold (observe_zone t p b) zs (h, s1)))"

end
