(* ===== verification/Http_Groups.thy ===== *)
theory Http_Groups
  imports Http_Control
begin

text \<open>
  The group handlers of \<open>src/routes/groups_api.py\<close> (stop, skip, the sequences, the exclusive start, the
  master valve), the emergency switch of \<open>src/routes/system_emergency_api.py\<close>, and the two guards of
  \<open>src/app.py\<close> that decide who may call them.
\<close>

subsection \<open>Stopping and skipping\<close>

text \<open>As \<open>cancel_passed\<close>, for the programs of this weekday only, and without a default for a bad time.\<close>

fun cancel_passed_today :: "int \<Rightarrow> time \<Rightarrow> program list \<Rightarrow> 'a db_scheme \<Rightarrow> bool \<times> 'a db_scheme" where
  "cancel_passed_today g now [] d = (False, d)"
| "cancel_passed_today g now (p # ps) d =
     (if weekday now \<notin> set (prog_days p) then cancel_passed_today g now ps d
      else case parse_hhmm_once (if prog_time p = [] then ''00:00'' else prog_time p) of
             None \<Rightarrow> (True, d)
           | Some (h, m) \<Rightarrow>
               (if \<not> valid_hm h m then (True, d)
                else cancel_passed_today g now ps
                       (if at_hm now h m \<le> now then snd (cancel_program_run_for_group (prog_id p) (day_of now) g d) else d)))"

definition stop_group_api :: "int \<Rightarrow> 'a sched_scheme \<Rightarrow> reply \<times> 'a sched_scheme" where
  "stop_group_api g s =
     (let s1 = stop_all_in_group g ''group_stop'' True False False (now_of s) (mono_of s) (wall_of s) s;
          c = cancel_group_jobs g False s1
      in if fst c \<noteq> None then (Failure 500, snd c)
         else
           (let s2 = (snd c)\<lparr>audit := audit (snd c) @ [Session_Aborted ''api_stop_group'' g None]\<rparr>;
                s3 = clear_group_scheduled_starts g s2;
                p = cancel_passed_today g (now_of s3) (get_programs s3) s3
            in if fst p then (Failure 500, snd p)
               else
                 (let r = reschedule_group_to_next_program g (get_programs (snd p)) (now_of (snd p)) (snd p)
                  in if fst r \<noteq> None then (Failure 500, snd r) else (Success Plain, add_log ''group_stop'' [g] (snd r)))))"

text \<open>The zone after the current one in the order of the planned starts.\<close>

definition planned_order :: "'a db_scheme \<Rightarrow> int \<Rightarrow> int list" where
  "planned_order d g =
     map zid (sort_key (\<lambda>z. the (scheduled_start_time z))
       (filter (\<lambda>z. zone_gid z = g \<and> scheduled_start_time z \<noteq> None) (get_zones d)))"

fun after_in :: "int \<Rightarrow> int list \<Rightarrow> int option" where
  "after_in i [] = None"
| "after_in i (k # ks) = (if k = i then (case ks of [] \<Rightarrow> None | n # _ \<Rightarrow> Some n) else after_in i ks)"

definition compute_next_zone_id :: "'a db_scheme \<Rightarrow> int \<Rightarrow> int \<Rightarrow> int option" where
  "compute_next_zone_id d g i = after_in i (planned_order d g)"

definition skip_api :: "int \<Rightarrow> 'a sched_scheme \<Rightarrow> reply \<times> 'a sched_scheme" where
  "skip_api g s =
     (if row_at gid (get_groups s) g = None then (Failure 404, s)
      else if \<not> is_group_session_active s g then (Failure 400, s)
      else case filter (\<lambda>z. zone_gid z = g \<and> zstate z = ''on'') (get_zones s) of
             [] \<Rightarrow> (Failure 400, s)
           | z # _ \<Rightarrow>
               (let nxt = compute_next_zone_id s g (zid z) in
                case request_skip_current_zone g s of
                  (Debounced, s1) \<Rightarrow> (Failure 429, s1)
                | (No_session, s1) \<Rightarrow> (Failure 400, s1)
                | (Skip_ok, s1) \<Rightarrow>
                    (Success (Skipped_To (zid z) nxt),
                     add_log ''zone_skip'' (g # zid z # (case nxt of None \<Rightarrow> [] | Some n \<Rightarrow> [n])) s1)))"

subsection \<open>Starting\<close>

text \<open>The warnings of all zones of the group, each once, in the order of their tags.\<close>

definition group_warnings :: "'a db_scheme \<Rightarrow> int \<Rightarrow> int option \<Rightarrow> int option \<Rightarrow> dur_warning list" where
  "group_warnings d g od op =
     (if op = None then []
      else filter (\<lambda>w. list_ex (\<lambda>z. group_id z = Some g \<and> w \<in> set (snd (per_zone_dur z od op))) (get_zones d))
             [Clipped_max, Clipped_min, Norm_not_set])"

definition start_from_first_api :: "int \<Rightarrow> body \<Rightarrow> 'a sched_scheme \<Rightarrow> reply \<times> 'a sched_scheme" where
  "start_from_first_api g b s =
     (case minutes_field (field ''override_duration'' b) of
        Inl e \<Rightarrow> (Failure 400, s)
      | Inr od \<Rightarrow>
          (let op = (if od = None then preset_field (field ''duration_percent'' b) else None);
               warns = group_warnings s g od op;
               st = start_group_sequence g od op None True s
           in if fst st then (Success (Warned warns), add_log ''group_start_from_first'' [g] (snd st)) else (Failure 400, snd st)))"

text \<open>The chosen ids are all integers of existing zones of the group, or the request is refused.\<close>

definition zone_ids_field :: "json \<Rightarrow> int list option" where
  "zone_ids_field v = (case v of J_List js \<Rightarrow> (if js = [] \<or> list_ex (\<lambda>j. json_int j = None) js then None
                                               else Some (map (\<lambda>j. the (json_int j)) js)) | _ \<Rightarrow> None)"

definition zones_of_group :: "'a db_scheme \<Rightarrow> int \<Rightarrow> int list \<Rightarrow> bool" where
  "zones_of_group d g is =
     list_all (\<lambda>i. case row_at zid (get_zones d) i of None \<Rightarrow> False | Some z \<Rightarrow> zone_gid z = g) is"

definition run_selected_api :: "int \<Rightarrow> body \<Rightarrow> 'a sched_scheme \<Rightarrow> reply \<times> 'a sched_scheme" where
  "run_selected_api g b s =
     (if row_at gid (get_groups s) g = None then (Failure 404, s)
      else case zone_ids_field (field ''zones'' b) of
             None \<Rightarrow> (Failure 400, s)
           | Some is \<Rightarrow>
               (if \<not> zones_of_group s g is then (Failure 400, s)
                else case parse_run_overrides b of
                       Inl e \<Rightarrow> (Failure 400, s)
                     | Inr (od, op) \<Rightarrow>
                         (let ad_hoc = - trunc (wall_of s); st = start_group_sequence g od op (Some is) True s
                          in if \<not> fst st then (Failure 400, snd st)
                             else (Success (Ad_Hoc ad_hoc), add_log ''prog_manual_run_selected'' (g # ad_hoc # is) (snd st)))))"

definition group_debounce_sec :: rat where "group_debounce_sec = 4 / 5"

definition should_throttle_group :: "int \<Rightarrow> 'a app_scheme \<Rightarrow> bool \<times> 'a app_scheme" where
  "should_throttle_group g s =
     (if wall_of s - group_guard s g < group_debounce_sec then (True, s)
      else (False, s\<lparr>group_guard := (group_guard s)(g := wall_of s)\<rparr>))"

definition plan_exclusive_end :: "int \<Rightarrow> 'a sched_scheme \<Rightarrow> 'a sched_scheme" where
  "plan_exclusive_end i s =
     (let dur = (\<lambda>t. case get_zone t i of None \<Rightarrow> 0 | Some z \<Rightarrow> int_or0 (duration z));
          s1 = update_zone i [U_wstart (Some (now_of s))] s;
          s2 = (if 0 < dur s then update_zone i [U_planned (Some (now_of s + minutes (dur s)))] s1 else s1)
      in if 0 < dur s2 then plan_stops i (dur s2) (now_of s2) s2 else s2)"

definition start_zone_exclusive_api :: "int \<Rightarrow> int \<Rightarrow> 'a app_scheme \<Rightarrow> reply \<times> 'a app_scheme" where
  "start_zone_exclusive_api g i s =
     (if emergency s then (Failure 400, s)
      else
        (let th = should_throttle_group g s in
         if fst th then (Success Busy, snd th)
         else
           (let s1 = snd (cancel_group_jobs g False (snd th));
                s2 = stop_all_in_group g ''manual_zone_start_preempt'' True False False (now_of s1) (mono_of s1) (wall_of s1) s1;
                st = start_now i ''manual'' s2
            in if \<not> fst st then (Failure 400, snd st)
               else
                 (let s3 = schedule_zone_cap i zone_cap_default_min (snd st);
                      s4 = plan_exclusive_end i (clear_scheduled_for_zone_group_peers i g s3)
                  in (Success Plain, add_log ''zone_start_exclusive'' [g, i] s4)))))"

subsection \<open>The master valve\<close>

text \<open>
  Some zone of a group fed by the same topic is on.  Unlike the delayed close this counts the groups
  that use a master valve only, and not a zone that is starting.
\<close>

definition fed_zone_on :: "'a world_scheme \<Rightarrow> string \<Rightarrow> bool" where
  "fed_zone_on w t =
     list_ex (\<lambda>gg. use_master_valve gg = 1 \<and> master_topic gg \<noteq> [] \<and> normalize_topic (master_topic gg) = t
                 \<and> list_ex (\<lambda>z. lower (zstate z) = ''on'') (get_zones_by_group w (gid gg)))
       (get_groups w)"

definition master_valve_api :: "int \<Rightarrow> string \<Rightarrow> 'a app_scheme \<Rightarrow> reply \<times> 'a app_scheme" where
  "master_valve_api g action s =
     (let want = (lower action = ''open'') in
      if emergency s \<and> want then (Failure 400, s)
      else case row_at gid (get_groups s) g of
             None \<Rightarrow> (Failure 404, s)
           | Some row \<Rightarrow>
               (if use_master_valve row = 0 then (Failure 400, s)
                else if master_topic row = [] \<or> \<not> truthy_int (master_mqtt_server_id row) then (Failure 400, s)
                else case get_mqtt_server s (int_or0 (master_mqtt_server_id row)) of
                       None \<Rightarrow> (Failure 400, s)
                     | Some srv \<Rightarrow>
                         (let t = normalize_topic (master_topic row) in
                          if \<not> want \<and> fed_zone_on s t then (Failure 400, s)
                          else
                            (let res = publish_mqtt_value (server_id srv) t (if want then open_value row else close_value row) s in
                             if \<not> fst res then (Failure 500, snd res)
                             else
                               (let s1 = set_observed g (if want then ''open'' else ''closed'') (snd res)
                                in (Success Plain,
                                    if want then schedule_master_valve_cap g 24 s1 else cancel_master_valve_cap g s1))))))"

subsection \<open>The emergency switch\<close>

definition emergency_event :: "string \<Rightarrow> event" where
  "emergency_event ty = \<lparr>ev_type = ty, ev_id = PNone, ev_event_id = PNone, ev_ts = PNone\<rparr>"

text \<open>
  The sessions are cancelled group by group; a \<open>ValueError\<close> of one group is passed over, a \<open>TypeError\<close>
  is not and ends the request.
\<close>

fun cancel_groups :: "group list \<Rightarrow> 'a sched_scheme \<Rightarrow> bool \<times> 'a sched_scheme" where
  "cancel_groups [] s = (True, s)"
| "cancel_groups (g # gs) s =
     (let c = cancel_group_jobs (gid g) True s in
      if fst c = Some Type_Error then (False, snd c) else cancel_groups gs (snd c))"

definition emergency_stop_api :: "'a app_scheme \<Rightarrow> reply \<times> 'a app_scheme" where
  "emergency_stop_api s =
     (let s1 = add_log ''emergency_stop'' [1] (s\<lparr>emergency := True\<rparr>);
          e = emergency_stop_all ''emergency_stop'' (now_of s1) (mono_of s1) (wall_of s1) s1;
          c = cancel_groups (get_groups (snd e)) (snd e)
      in if \<not> fst c then (Failure 500, snd c)
         else (Success (Stats (fst e)),
               (snd c)\<lparr>bus := publish_event (wall_of (snd c)) (emergency_event ''emergency_on'') (bus (snd c))\<rparr>))"

definition emergency_resume_api :: "'a app_scheme \<Rightarrow> reply \<times> 'a app_scheme" where
  "emergency_resume_api s =
     (let s1 = add_log ''emergency_stop'' [0] (s\<lparr>emergency := False\<rparr>)
      in (Success Plain, s1\<lparr>bus := publish_event (wall_of s1) (emergency_event ''emergency_off'') (bus s1)\<rparr>))"

subsection \<open>Who may call\<close>

datatype role = Guest | Viewer | Admin

datatype http_method = GET | HEAD | OPTIONS | POST | PUT | DELETE | PATCH

definition public_posts :: "string list" where
  "public_posts = [''/api/login'', ''/api/status'', ''/health'', ''/api/env'', ''/api/emergency-stop'', ''/api/emergency-resume'',
     ''/api/postpone'', ''/api/zones/next-watering-bulk'', ''/api/audit/ui'']"

definition all_digits :: "string \<Rightarrow> bool" where
  "all_digits s = (s \<noteq> [] \<and> list_all (\<lambda>c. digit_val c \<noteq> None) s)"

definition word_char :: "char \<Rightarrow> bool" where
  "word_char c = (let n = (of_char c :: nat) in
     (48 \<le> n \<and> n \<le> 57) \<or> (65 \<le> n \<and> n \<le> 90) \<or> n = 95 \<or> (97 \<le> n \<and> n \<le> 122))"

text \<open>The regular expressions, on ASCII paths without a newline.\<close>

definition public_pattern :: "string \<Rightarrow> bool" where
  "public_pattern p =
     (case split_on (CHR ''/'') p of
        [a, b, c, n, x] \<Rightarrow>
          a = [] \<and> b = ''api'' \<and> all_digits n
          \<and> (c = ''zones'' \<and> x \<in> {''start'', ''stop''}
             \<or> c = ''groups'' \<and> x \<in> {''start-from-first'', ''stop'', ''run-selected'', ''skip-current''})
      | [a, b, c, n, x, y] \<Rightarrow>
          a = [] \<and> b = ''api'' \<and> all_digits n
          \<and> (c = ''zones'' \<and> x = ''mqtt'' \<and> y \<in> {''start'', ''stop''}
             \<or> c = ''groups'' \<and> x = ''master-valve'' \<and> y \<noteq> [] \<and> list_all word_char y
             \<or> c = ''groups'' \<and> x = ''start-zone'' \<and> all_digits y)
      | _ \<Rightarrow> False)"

definition is_status_action :: "string \<Rightarrow> bool" where
  "is_status_action p = (p \<in> set public_posts \<or> public_pattern p)"

definition api_path :: "string \<Rightarrow> bool" where "api_path p = starts_with ''/api/'' p"

definition mutating :: "http_method \<Rightarrow> bool" where "mutating m = (m \<in> {POST, PUT, DELETE})"

text \<open>Each guard gives the status of its refusal, or \<open>None\<close> to let the request pass.\<close>

definition auth_before_request :: "role \<Rightarrow> bool \<Rightarrow> http_method \<Rightarrow> string \<Rightarrow> nat option" where
  "auth_before_request r must_change m p =
     (if starts_with ''/static/'' p then None
      else if \<not> api_path p \<or> m = GET then None
      else if r = Viewer \<and> mutating m \<and> p \<noteq> ''/api/login'' then Some 403
      else if r \<noteq> Admin \<and> \<not> is_status_action p then Some 401
      else if r = Admin \<and> mutating m \<and> must_change \<and> p \<noteq> ''/api/password'' then Some 403
      else None)"

definition require_admin_for_mutations :: "role \<Rightarrow> http_method \<Rightarrow> string \<Rightarrow> nat option" where
  "require_admin_for_mutations r m p =
     (if \<not> api_path p \<or> m = GET then None
      else if r = Viewer \<and> mutating m \<and> p \<noteq> ''/api/login'' then Some 403
      else if \<not> mutating m then None
      else if p = ''/api/login'' \<or> starts_with ''/api/env'' p \<or> p = ''/api/password'' then None
      else if r \<noteq> Admin \<and> \<not> is_status_action p then Some 403
      else None)"

definition guarded :: "role \<Rightarrow> bool \<Rightarrow> http_method \<Rightarrow> string \<Rightarrow> nat option" where
  "guarded r must_change m p =
     (case auth_before_request r must_change m p of
        Some st \<Rightarrow> Some st
      | None \<Rightarrow> require_admin_for_mutations r m p)"

end
