(* ===== verification/Http_Laws.thy ===== *)
theory Http_Laws
  imports Http_Groups
begin

text \<open>
  What the handlers guarantee: the emergency switch ends all watering and refuses new starts, a stop
  ends the whole session, a started zone has its stops planned, the master valve is not closed under a
  running zone, and who may call what; and three ways in which the handlers fall short.
\<close>

subsection \<open>What a handler leaves alone\<close>

lemma app_of_more:
  fixes s s' :: "'a app_scheme"
  assumes "sched.more s = sched.more s'"
  shows "emergency s = emergency s'" "group_guard s = group_guard s'"
  using assms by (cases s; cases s'; simp)+

lemma sched_more_of_world: "world.more s = world.more s' \<Longrightarrow> sched.more s = sched.more s'" for s s' :: "'a sched_scheme"
  by (cases s; cases s') simp

lemma emergency_cancel [simp]: "emergency (snd (cancel_group_jobs g imm s)) = emergency s"
  by (rule app_of_more) (rule cancel_group_sched(5) [OF refl])

subsection \<open>A group that is over\<close>

text \<open>
  Every zone of the group is off, none of its stops or sequences is planned, and a session of the
  group has been told to end.
\<close>

definition group_over :: "int \<Rightarrow> 'a sched_scheme \<Rightarrow> bool" where
  "group_over g s =
     ((\<forall>i \<in> group_members s g. zstate_at s i = Some ''off''
         \<and> filter (\<lambda>j. is_zone_stop_job i (j_id j)) (jobs s) = [])
      \<and> filter (\<lambda>j. is_group_seq_job g (j_id j)) (jobs s) = []
      \<and> (\<forall>e. cancel_events s g = Some e \<longrightarrow> event_set s e))"

lemma group_member_state: "i \<in> group_members d g \<Longrightarrow> zstate_at d i \<noteq> None"
proof -
  assume i: "i \<in> group_members d g"
  then have "i \<in> zid ` set (zones d)" "db_up d" by (auto simp: group_members_def zgroups_def split: if_splits)
  then show ?thesis by (simp add: zstate_at_def get_zone_def row_at_None_iff)
qed

lemma group_over_cancel: "group_over g (snd (cancel_group_jobs g imm s))"
proof -
  have mem: "group_members (snd (cancel_group_jobs g imm s)) g = group_members s g"
    by (simp add: group_members_cong [OF zgroups_cancel_group])
  show ?thesis
    unfolding group_over_def mem using group_member_state [of _ s g]
    by (auto simp: zstate_at_cancel_group cancel_group_sched [OF refl] filter_empty_conv)
qed

lemma group_over_other: "group_over h s \<Longrightarrow> group_over h (snd (cancel_group_jobs g imm s))"
proof -
  assume over: "group_over h s"
  have mem: "group_members (snd (cancel_group_jobs g imm s)) h = group_members s h"
    by (simp add: group_members_cong [OF zgroups_cancel_group])
  show ?thesis
    using over unfolding group_over_def mem
    by (auto simp: zstate_at_cancel_group cancel_group_sched [OF refl] filter_empty_conv split: option.splits)
qed

lemma group_over_frame:
  assumes "zgroups s' = zgroups s" "zstate_at s' = zstate_at s" "jobs s' = jobs s" "cancel_events s' = cancel_events s"
    "event_set s' = event_set s"
  shows "group_over g s' = group_over g s"
  using group_members_cong [OF assms(1)] assms by (simp add: group_over_def)

lemma group_over_bus [simp]: "group_over g (s\<lparr>bus := b\<rparr>) = group_over g s"
proof (rule group_over_frame)
  show "zstate_at (s\<lparr>bus := b\<rparr>) = zstate_at s" by (rule zstate_at_cong) (simp add: zview_def)
qed simp_all

subsection \<open>The emergency switch\<close>

lemma cancel_groups_keeps: "group_over h s \<Longrightarrow> group_over h (snd (cancel_groups gs s))"
  by (induction gs arbitrary: s) (simp_all add: group_over_other Let_def)

lemma cancel_groups_over:
  "fst (cancel_groups gs s) \<Longrightarrow> g \<in> set gs \<Longrightarrow> group_over (gid g) (snd (cancel_groups gs s))"
proof (induction gs arbitrary: s)
  case (Cons h gs)
  let ?t = "snd (cancel_group_jobs (gid h) True s)"
  have c: "cancel_groups (h # gs) s = cancel_groups gs ?t" using Cons.prems(1) by (simp add: Let_def split: if_splits)
  show ?case
  proof (cases "g \<in> set gs")
    case True
    then show ?thesis using Cons.IH [of ?t] Cons.prems(1) unfolding c by simp
  next
    case False
    then have "g = h" using Cons.prems(2) by simp
    then show ?thesis unfolding c by (simp add: cancel_groups_keeps group_over_cancel)
  qed
qed simp

lemma cancel_groups_frame [simp]:
  "zgroups (snd (cancel_groups gs s)) = zgroups s" "cancel_events (snd (cancel_groups gs s)) = cancel_events s"
  "sched.more (snd (cancel_groups gs s)) = sched.more s"
  by (induction gs arbitrary: s) (simp_all add: Let_def cancel_group_sched [OF refl])

lemma more_emergency [keeps_sched]: "world.more (snd (emergency_stop_all reason now mn wall w)) = world.more w"
proof -
  have cm: "world.more (snd (close_group_master g st)) = world.more (snd st)" for g and st :: "(string list \<times> stop_stats) \<times> 'a world_scheme"
    by (simp add: close_group_master_def Let_def keeps_sched split: option.splits)
  have c: "world.more (snd (emergency_phase_c gs u)) = world.more u" for gs and u :: "'a world_scheme"
  proof -
    have "world.more (snd (fold close_group_master gs st)) = world.more (snd st)" for st :: "(string list \<times> stop_stats) \<times> 'a world_scheme"
      by (induction gs arbitrary: st) (simp_all add: cm)
    then show ?thesis by (simp add: emergency_phase_c_def Let_def)
  qed
  have a: "world.more (snd (fold (stop_group_zones reason now mn wall) gs nw)) = world.more (snd nw)" for gs and nw :: "nat \<times> 'a world_scheme"
    by (induction gs arbitrary: nw) (simp_all add: stop_group_zones_def keeps_sched)
  have b: "world.more (snd (emergency_phase_b reason now mn wall gs u)) = world.more u" for gs and u :: "'a world_scheme"
    by (simp add: emergency_phase_b_def Let_def more_fold more_stop_zone)
  show ?thesis by (simp add: emergency_stop_all_def emergency_phase_a_def Let_def a b c)
qed

text \<open>Only a zone without a duration makes the computation of the next runs raise \<open>TypeError\<close>.\<close>

definition all_timed :: "'a db_scheme \<Rightarrow> bool" where
  "all_timed d = (\<forall>z \<in> set (zones d). duration z \<noteq> None)"

lemma all_timed_zgroups: "all_timed d = (\<forall>p \<in> set (fst (zgroups d)). fst (snd (snd p)) \<noteq> None)"
  by (simp add: all_timed_def zgroups_def)

lemma all_timed_cong: "zgroups d = zgroups d' \<Longrightarrow> all_timed d = all_timed d'"
  by (simp add: all_timed_zgroups)

lemma timed_minutes_before: "all_timed d \<Longrightarrow> minutes_before d i js cum \<noteq> Inl e"
proof (induction js arbitrary: cum)
  case (Cons j js)
  have "get_zone_duration d j \<noteq> None"
    using Cons.prems by (auto simp: get_zone_duration_def all_timed_def dest: row_at_mem split: option.splits)
  with Cons show ?case by auto
qed simp

lemma first_start_error: "first_start days tm now k n = Inl e \<Longrightarrow> e = Value_Error"
  by (induction n arbitrary: k) (auto simp: Let_def split: option.splits if_splits)

lemma timed_next_runs: "all_timed d \<Longrightarrow> next_runs d ps now zs = Inl e \<Longrightarrow> e = Value_Error"
proof (induction zs)
  case (Cons z zs)
  have cand: "program_candidate d i t p = Inl e' \<Longrightarrow> e' = Value_Error" for i t p e'
    using timed_minutes_before [OF Cons.prems(1)] first_start_error
    by (auto simp: program_candidate_def split: if_splits sum.splits option.splits)
  have best: "best_candidate d i t qs b = Inl e' \<Longrightarrow> e' = Value_Error" for i t qs b e'
    by (induction qs arbitrary: b) (auto dest: cand split: sum.splits)
  show ?case using Cons best
    by (auto simp: compute_next_run_for_zone_def split: sum.splits option.splits)
qed simp

lemma timed_cancel_group: "all_timed s \<Longrightarrow> fst (cancel_group_jobs g imm s) \<noteq> Some Type_Error"
proof -
  assume "all_timed s"
  then have "all_timed (group_cleared g imm s)" by (simp add: all_timed_cong [OF zgroups_cleared])
  then show ?thesis
    using timed_next_runs by (fastforce simp: cancel_group_cleared reschedule_group_to_next_program_def Let_def split: sum.splits)
qed

lemma timed_cancel_groups: "all_timed s \<Longrightarrow> fst (cancel_groups gs s)"
proof (induction gs arbitrary: s)
  case (Cons g gs)
  then have "all_timed (snd (cancel_group_jobs (gid g) True s))" by (simp add: all_timed_cong [OF zgroups_cancel_group])
  then show ?case using Cons timed_cancel_group [of s "gid g" True] by (simp add: Let_def)
qed simp


lemma zgroups_emergency_api: "zgroups (snd (emergency_stop_api s)) = zgroups s"
proof -
  have "zgroups (s\<lparr>emergency := b\<rparr>) = zgroups s" for b by (simp add: zgroups_def)
  then show ?thesis by (simp add: emergency_stop_api_def Let_def)
qed

definition app_of :: "sched \<Rightarrow> app" where
  "app_of s = sched.extend s (app.fields False (\<lambda>_. 0))"

lemma app_of_fields [simp]:
  "zones (app_of s) = zones s" "groups (app_of s) = groups s" "servers (app_of s) = servers s" "db_up (app_of s) = db_up s"
  "jobs (app_of s) = jobs s" "cancel_events (app_of s) = cancel_events s" "clk (app_of s) = clk s" "boot_now (app_of s) = boot_now s"
  "emergency (app_of s) = False" "early_off (app_of s) = early_off s"
  "boot_wall (app_of s) = boot_wall s" "broker (app_of s) = broker s" "programs (app_of s) = programs s" "sent (app_of s) = sent s"
  by (simp_all add: app_of_def sched.defs app.defs)

lemma now_of_app_of [simp]: "now_of (app_of s) = now_of s"
  by (simp add: now_of_def)

abbreviation demo_app :: app where "demo_app \<equiv> app_of (fresh_sched demo_world)"

lemma demo_zone_duration [simp]: "duration (demo_zone i v) = Some 15"
  by (simp add: demo_zone_def new_zone_def plain_req_def rq_duration_or10_def)


subsection \<open>Stopping a zone ends its session\<close>

lemma group_over_stop_now: "group_over g s \<Longrightarrow> group_over g (snd (stop_now i reason force s))"
proof -
  assume over: "group_over g s"
  let ?t = "snd (stop_now i reason force s)"
  have mem: "group_members ?t g = group_members s g" by (simp add: group_members_cong [of ?t s])
  have sch: "jobs ?t = jobs s" "cancel_events ?t = cancel_events s" "event_set ?t = event_set s"
    using sched_of_more [OF more_stop_zone, of i reason force False False "now_of s" "mono_of s" "wall_of s" s] by simp_all
  have "zstate_at s k = Some ''off'' \<Longrightarrow> zstate_at ?t k = Some ''off''" for k
  proof (cases "get_zone s i")
    case None
    then show "zstate_at s k = Some ''off'' \<Longrightarrow> ?thesis" by (simp add: stop_zone_def)
  qed (simp add: zstate_at_stop_zone)
  with over show ?thesis by (simp add: group_over_def mem sch)
qed

lemma group_over_effects [simp]:
  "group_over g (add_log ty is s) = group_over g s" "group_over g (s\<lparr>audit := a\<rparr>) = group_over g s"
proof -
  show "group_over g (add_log ty is s) = group_over g s"
    by (rule group_over_frame) (simp_all add: add_log_def zgroups_def zstate_at_cong [of "s\<lparr>logs := l\<rparr>" s for l] zview_def)
  show "group_over g (s\<lparr>audit := a\<rparr>) = group_over g s"
    by (rule group_over_frame) (simp_all add: zgroups_def zstate_at_cong [of "s\<lparr>audit := a\<rparr>" s] zview_def)
qed

lemma member_found: "i \<in> group_members d g \<Longrightarrow> \<exists>z. get_zone d i = Some z"
  using group_member_state [of i d g] by (auto simp: zstate_at_def)

lemma zone_in_group: "get_zone d i = Some z \<Longrightarrow> zone_gid z = g \<Longrightarrow> g \<noteq> 0 \<Longrightarrow> i \<in> group_members d g"
proof -
  assume "get_zone d i = Some z" "zone_gid z = g" "g \<noteq> 0"
  then have "z \<in> set (get_zones_by_group d g)" "zid z = i"
    by (auto simp: get_zone_def get_zones_by_group_def zone_gid_def int_or0_def dest: row_at_mem row_at_key split: if_splits option.splits)
  then show ?thesis by (auto simp: group_members_eq [symmetric])
qed

lemma end_session_over:
  assumes "get_zone s i = Some z" "zone_gid z \<noteq> 0" "is_group_session_active s (zone_gid z)"
  shows "group_over (zone_gid z) (snd (end_session ep i z s))"
    "fst (end_session ep i z s) \<in> {None, Some (Success Session_Ended)}"
    "i \<in> group_members (snd (end_session ep i z s)) (zone_gid z)"
proof -
  let ?g = "zone_gid z" and ?u = "s\<lparr>audit := audit s @ [Session_Aborted ep (zone_gid z) (Some i)]\<rparr>"
  have t: "snd (end_session ep i z s) = snd (cancel_group_jobs ?g False ?u)"
    using assms(2,3) by (simp add: end_session_def Let_def)
  show "group_over ?g (snd (end_session ep i z s))" unfolding t by (rule group_over_cancel)
  show "fst (end_session ep i z s) \<in> {None, Some (Success Session_Ended)}" by (simp add: end_session_def Let_def)
  have "zgroups ?u = zgroups s" by (simp add: zgroups_def)
  then show "i \<in> group_members (snd (end_session ep i z s)) ?g"
    unfolding t using zone_in_group [OF assms(1) refl assms(2)]
    by (simp add: group_members_cong [of "snd (cancel_group_jobs ?g False ?u)" s])
qed

text \<open>
  A stop on one zone ends the whole session.  When the zone's group has a session, either stop
  request succeeds and leaves the group over: every zone of it off, none of its stops or sequences
  planned, and the session told to end, also when cancelling the group's jobs raised.
\<close>

theorem zone_stop_ends_session:
  assumes "get_zone s i = Some z" "zone_gid z \<noteq> 0" "is_group_session_active s (zone_gid z)"
  shows "(\<exists>d. fst (stop_zone_api i s) = Success d) \<and> group_over (zone_gid z) (snd (stop_zone_api i s))
    \<and> (\<exists>d. fst (mqtt_stop_api i s) = Success d) \<and> group_over (zone_gid z) (snd (mqtt_stop_api i s))"
proof -
  let ?g = "zone_gid z"
  have solo: "fst (stop_now i ''manual'' False t) \<and> group_over ?g (snd (stop_now i ''manual'' False t))"
    if over: "group_over ?g t" and mem: "i \<in> group_members t ?g" for t :: "'a sched_scheme"
  proof -
    obtain y where "get_zone t i = Some y" using member_found [OF mem] by blast
    then have "fst (stop_now i ''manual'' False t)" by (simp only: stop_zone_split fst_conv)
    with group_over_stop_now [OF over] show ?thesis by blast
  qed
  have two: "(\<exists>d. fst r = Success d) \<and> group_over ?g (snd r)"
    if "r = (case end_session ep i z s of (Some d, t) \<Rightarrow> (d, t) | (None, t) \<Rightarrow> k t)"
      "\<And>t. group_over ?g t \<Longrightarrow> i \<in> group_members t ?g \<Longrightarrow> (\<exists>d. fst (k t) = Success d) \<and> group_over ?g (snd (k t))" for ep k r
    using end_session_over [OF assms, of ep] that
    by (cases "end_session ep i z s") (auto split: option.splits)
  have "(\<exists>d. fst (stop_zone_api i s) = Success d) \<and> group_over ?g (snd (stop_zone_api i s))"
    by (rule two [where ep = "''api_zone_stop''" and k = "\<lambda>t. let st = stop_now i ''manual'' False t in
      if fst st then (Success Plain, add_log ''zone_stop'' [i, ?g] (snd st)) else (Failure 500, snd st)"])
      (simp_all add: stop_zone_api_def assms(1) Let_def solo del: split_paired_All)
  moreover have "(\<exists>d. fst (mqtt_stop_api i s) = Success d) \<and> group_over ?g (snd (mqtt_stop_api i s))"
    by (rule two [where ep = "''api_zone_mqtt_stop''" and k = "\<lambda>t. let st = stop_now i ''manual'' False t in
        if fst st then (Success Plain, snd st)
        else case mqtt_ready (snd st) z of None \<Rightarrow> (Failure 400, snd st)
             | Some srv \<Rightarrow> (Success Plain, uzs i [U_state ''off'', U_wstart None] ''mqtt_stop''
                 (snd (publish_mqtt_value (server_id srv) (normalize_topic (strip (topic z))) ''0'' (snd st))))"])
      (simp_all add: mqtt_stop_api_def assms(1) Let_def solo)
  ultimately show ?thesis by blast
qed

theorem zone_stop_ends_session_witness:
  "group_over 1 (snd (stop_zone_api 1 busy_sched)) \<and> group_over 1 (snd (mqtt_stop_api 1 busy_sched))"
proof -
  have z: "zones busy_sched = [demo_zone 1 ''on'', demo_zone 2 ''off'']" "db_up busy_sched" "cancel_events busy_sched 1 = Some 0"
    by (simp_all add: busy_sched_def)
  have "get_zone busy_sched 1 = Some (demo_zone 1 ''on'')" "is_group_session_active busy_sched 1"
    by (simp_all add: get_zone_def z is_group_session_active_def)
  then show ?thesis using zone_stop_ends_session [of busy_sched 1 "demo_zone 1 ''on''"] by simp
qed

end
