(* ===== verification/Http_Start_Laws.thy ===== *)
theory Http_Start_Laws
  imports Http_Laws
begin

text \<open>
  The requests that start a zone or a sequence: which jobs a start plans, what a zone without a
  duration does, and which starts the emergency flag does not stop.
\<close>

subsection \<open>The job table\<close>

lemma has_job_simps [simp]:
  "has_job i (snd (add_job b j s)) = (i = j_id j \<or> has_job i s)"
  "has_job i (remove_jobs_where P s) = (has_job i s \<and> \<not> P i)"
  "has_job i (s\<lparr>active_zones := a\<rparr>) = has_job i s"
  by (auto simp: has_job_def add_job_def remove_jobs_where_def)

lemma has_job_plan_stops [simp]:
  "has_job (J_hard_stop k) (plan_stops i d now s) = (k = i \<or> has_job (J_hard_stop k) s)"
  by (auto simp: plan_stops_def schedule_zone_stop_def schedule_zone_hard_stop_def Let_def)

subsection \<open>Before the start\<close>

lemma cancel_passed_frame [simp]:
  "zview (snd (cancel_passed g now ps d)) = zview d" "zgroups (snd (cancel_passed g now ps d)) = zgroups d"
  "db.more (snd (cancel_passed g now ps d)) = db.more d"
proof -
  have "zview (snd (cancel_program_run_for_group p day g d)) = zview d" "zgroups (snd (cancel_program_run_for_group p day g d)) = zgroups d"
    "db.more (snd (cancel_program_run_for_group p day g d)) = db.more d" for p day g and d :: "'a db_scheme"
    by (simp_all add: cancel_program_run_for_group_def zview_def zgroups_def)
  then show "zview (snd (cancel_passed g now ps d)) = zview d" "zgroups (snd (cancel_passed g now ps d)) = zgroups d"
    "db.more (snd (cancel_passed g now ps d)) = db.more d"
    by (induction ps arbitrary: d) (simp_all add: Let_def)
qed

lemma more_cancel_passed [keeps_sched]: "world.more (snd (cancel_passed g now ps w)) = world.more w"
  by (rule db_more_world) simp

text \<open>
  The start clears the way by cancelling the group; what it writes after that concerns neither the
  zones' states nor the scheduler.
\<close>

lemma clear_way_effect:
  assumes "clear_way g s = (r, t)"
  shows "zgroups t = zgroups s"
    "world.more t = world.more (snd (cancel_group_jobs g False s))"
    "zstate_at t = zstate_at (snd (cancel_group_jobs g False s))"
proof -
  define c where "c = snd (cancel_group_jobs g False s)"
  define p where "p = snd (cancel_passed g (now_of c) (get_programs c) c)"
  have cp: "zgroups p = zgroups s" "world.more p = world.more c" "zstate_at p = zstate_at c"
  proof -
    show "zgroups p = zgroups s" by (simp add: p_def c_def)
    show "world.more p = world.more c" unfolding p_def by (rule more_cancel_passed)
    show "zstate_at p = zstate_at c" unfolding p_def by (rule zstate_at_cong) simp
  qed
  have "t \<in> {c, p, snd (reschedule_group_to_next_program g (get_programs p) (now_of p) p)}"
    using assms by (auto simp: clear_way_def c_def [symmetric] p_def [symmetric] Let_def prod_eq_iff split: if_splits)
  then show "zgroups t = zgroups s" "world.more t = world.more (snd (cancel_group_jobs g False s))"
    "zstate_at t = zstate_at (snd (cancel_group_jobs g False s))"
    by (auto simp: cp c_def [symmetric] more_reschedule) (simp_all add: c_def)
qed

lemma clear_way_sched:
  assumes "clear_way g s = (r, t)"
  shows "i \<in> group_members s g \<Longrightarrow> filter (\<lambda>j. is_zone_stop_job i (j_id j)) (jobs t) = []"
    "now_of t = now_of s" "early_off t = early_off s" "wall_of t = wall_of s"
    "sched.more t = sched.more s"
proof -
  note more = clear_way_effect(2) [OF assms]
  show "i \<in> group_members s g \<Longrightarrow> filter (\<lambda>j. is_zone_stop_job i (j_id j)) (jobs t) = []"
    using sched_of_more(1) [OF more] by (auto simp: cancel_group_sched(1) [OF refl] filter_empty_conv)
  show "now_of t = now_of s" using more_now_of [OF more] by (simp add: cancel_group_clock)
  show "early_off t = early_off s" using sched_of_more(9) [OF more] by (simp add: cancel_group_clock)
  show "wall_of t = wall_of s"
    using sched_of_more(6,8) [OF more] cancel_group_clock(3) [of g False s] by (simp add: wall_of_def)
  show "sched.more t = sched.more s"
    using sched_more_of_world [OF more] by (simp add: cancel_group_sched(5) [OF refl])
qed

subsection \<open>Planning the stops\<close>

definition auto_stop_job :: "int \<Rightarrow> int \<Rightarrow> 'a sched_scheme \<Rightarrow> job" where
  "auto_stop_job i d s =
     \<lparr>j_id = J_zone_stop i (Cmd (command_id s)), j_call = Stop_Zone i,
      j_trigger = At_Time (zone_stop_time (early_off s) d (now_of s)), j_store = Volatile_Store\<rparr>"

definition watchdog_job :: "int \<Rightarrow> int \<Rightarrow> 'a sched_scheme \<Rightarrow> job" where
  "watchdog_job i d s =
     \<lparr>j_id = J_hard_stop i, j_call = Stop_Zone i,
      j_trigger = At_Time (if minutes d \<le> 0 then now_of s + 1 else now_of s + minutes d), j_store = Volatile_Store\<rparr>"

lemma str_int_nonempty: "str_int n \<noteq> []"
proof -
  have "str_nat k \<noteq> []" for k by (subst str_nat.simps) simp
  then show ?thesis by (simp add: str_int_def)
qed

lemma plan_stops_jobs:
  assumes "filter (\<lambda>j. is_zone_stop_job i (j_id j)) (jobs s) = []" "now = now_of s"
  shows "jobs (plan_stops i d now s) = jobs s @ [auto_stop_job i d s, watchdog_job i d s]"
proof -
  have ne: "j_id j \<noteq> J_zone_stop i tag \<and> j_id j \<noteq> J_hard_stop i" if mem: "j \<in> set (jobs s)" for j tag
  proof -
    have "\<not> is_zone_stop_job i (j_id j)" using assms(1) mem by (simp add: filter_empty_conv)
    then show ?thesis by (auto simp: is_zone_stop_job_def)
  qed
  have free: "\<not> has_job (J_zone_stop i (Cmd (command_id s))) s" unfolding has_job_def using ne [where tag = "Cmd (command_id s)"] by (metis imageE)
  have keep: "filter (\<lambda>k. j_id k \<noteq> J_zone_stop i tag) (jobs s) = jobs s" "filter (\<lambda>k. j_id k \<noteq> J_hard_stop i) (jobs s) = jobs s" for tag
    using ne by (simp_all add: filter_id_conv)
  have cmd: "command_id s \<noteq> []" by (simp add: command_id_def str_int_nonempty)
  show ?thesis
    by (simp add: plan_stops_def schedule_zone_stop_def schedule_zone_hard_stop_def add_job_def Let_def free keep
        cmd assms(2) auto_stop_job_def watchdog_job_def now_of_def)
qed

lemma plan_stops_frame [simp]:
  "zview (plan_stops i d now s) = zview s" "zgroups (plan_stops i d now s) = zgroups s"
  "sched.more (plan_stops i d now s) = sched.more s" "now_of (plan_stops i d now s) = now_of s"
  by (simp_all add: plan_stops_def schedule_zone_stop_def schedule_zone_hard_stop_def add_job_def zview_def zgroups_def
      now_of_def Let_def)

subsection \<open>A started zone\<close>

text \<open>The minutes a request asks for.\<close>

definition asked_minutes :: "zone \<Rightarrow> body \<Rightarrow> int" where
  "asked_minutes z b =
     (case minutes_field (field ''duration'' b) of
        Inr (Some d) \<Rightarrow> d
      | _ \<Rightarrow> (case preset_field (field ''duration_percent'' b) of
                Some p \<Rightarrow> fst (per_zone_dur z None (Some p))
              | None \<Rightarrow> if truthy_int (duration z) then int_or0 (duration z) else 10))"

lemma started_active: "started_state d z (zid z) = Some v \<Longrightarrow> active_state v"
  by (auto simp: started_state_def active_state_def zone_active_def split: if_splits)

lemma mqtt_start_zone_effect:
  assumes "get_zone s i = Some z" "zone_gid z \<noteq> 0" "wf_zones s" "fst (mqtt_start_zone i z od ws s) = Success d"
  defines "n \<equiv> case od of Some d \<Rightarrow> d | None \<Rightarrow> if truthy_int (duration z) then int_or0 (duration z) else 10"
  shows "map_option planned_end_time (get_zone (snd (mqtt_start_zone i z od ws s)) i) = Some (Some (now_of s + minutes n))"
    "filter (\<lambda>j. is_zone_stop_job i (j_id j)) (jobs (snd (mqtt_start_zone i z od ws s))) = [auto_stop_job i n s, watchdog_job i n s]"
    "\<exists>v. zstate_at (snd (mqtt_start_zone i z od ws s)) i = Some v \<and> active_state v"
    "k \<in> group_members s (zone_gid z) \<Longrightarrow> k \<noteq> i \<Longrightarrow> \<exists>v. zstate_at (snd (mqtt_start_zone i z od ws s)) k = Some v \<and> \<not> active_state v"
proof -
  let ?g = "zone_gid z"
  obtain r t where w: "clear_way ?g s = (r, t)" by (cases "clear_way ?g s")
  define st where "st = start_now i ''manual'' t"
  define s3 where "s3 = uzs i [U_planned (Some (now_of (snd st) + minutes n)), U_source (Some ''manual'')] ''manual_start_planned_end'' (snd st)"
  have ok: "\<not> r" "fst st"
    using assms(2,4) by (auto simp: mqtt_start_zone_def w st_def [symmetric] Let_def split: if_splits)
  have s': "snd (mqtt_start_zone i z od ws s) = add_log ''zone_start_manual'' [i, ?g] (plan_stops i n (now_of (snd st)) s3)"
    using assms(2) ok by (simp add: mqtt_start_zone_def w st_def [symmetric] s3_def n_def Let_def)
  have zt: "zgroups t = zgroups s" by (rule clear_way_effect(1) [OF w])
  have i: "i \<in> group_members s ?g" by (rule zone_in_group [OF assms(1) refl assms(2)])
  obtain y where y: "get_zone t i = Some y" using member_found [of i t ?g] i group_members_cong [OF zt] by auto
  have wft: "wf_zones t" using assms(3) wf_zones_cong [OF zt] by simp
  have gy: "zone_gid y = ?g"
  proof -
    have "map_option fst (row_at fst (fst (zgroups t)) i) = map_option fst (row_at fst (fst (zgroups s)) i)" by (simp add: zt)
    have "map_option (\<lambda>z. (zid z, group_id z, duration z, strip (topic z))) (row_at zid (zones t) i)
        = map_option (\<lambda>z. (zid z, group_id z, duration z, strip (topic z))) (row_at zid (zones s) i)"
      using zt by (simp add: zgroups_def flip: row_at_fst_map)
    then have "group_id y = group_id z" using y assms(1) by (auto simp: get_zone_def split: if_splits)
    then show ?thesis by (simp add: zone_gid_def)
  qed
  have more: "world.more (snd st) = world.more t" unfolding st_def by (rule more_exclusive_start)
  have more3: "world.more s3 = world.more t" using more by (simp add: s3_def keeps_sched)
  note eq3 = sched_of_more(1,6,7,8,9) [OF more3]
  have clock: "now_of (snd st) = now_of s" "now_of s3 = now_of s" "wall_of s3 = wall_of s" "early_off s3 = early_off s"
    using more_now_of [OF more] more_now_of [OF more3] clear_way_sched(2-4) [OF w] eq3 by (simp_all add: wall_of_def)
  have none: "filter (\<lambda>j. is_zone_stop_job i (j_id j)) (jobs s3) = []"
    using clear_way_sched(1) [OF w i] eq3(1) by simp
  have jobs: "jobs (plan_stops i n (now_of (snd st)) s3) = jobs s3 @ [auto_stop_job i n s3, watchdog_job i n s3]"
    by (rule plan_stops_jobs [OF none]) (simp add: clock)
  have same: "auto_stop_job i n s3 = auto_stop_job i n s" "watchdog_job i n s3 = watchdog_job i n s"
    by (simp_all add: auto_stop_job_def watchdog_job_def command_id_def clock)
  show "filter (\<lambda>j. is_zone_stop_job i (j_id j)) (jobs (snd (mqtt_start_zone i z od ws s))) = [auto_stop_job i n s, watchdog_job i n s]"
    using none by (simp add: s' add_log_def jobs same) (simp add: auto_stop_job_def watchdog_job_def is_zone_stop_job_def)
  have rc: "real_cols [U_planned a, U_source b]" for a b by (simp add: real_cols_def)
  have view: "zview (snd (mqtt_start_zone i z od ws s)) = zview s3" by (simp add: s')
  have started: "zstate_at (snd st) j = started_state t y j" for j
    using exclusive_start_states_lemma [OF y wft] by (simp add: st_def)
  have sta: "zstate_at (snd (mqtt_start_zone i z od ws s)) j = started_state t y j" for j
    by (simp add: zstate_at_cong [OF view] s3_def zstate_at_uzs [OF rc] started option.map_ident)
  have idy: "zid y = i" using y by (rule get_zone_id)
  show "\<exists>v. zstate_at (snd (mqtt_start_zone i z od ws s)) i = Some v \<and> active_state v"
    using started_active [of t y] by (simp add: sta) (simp add: started_state_def idy)
  show "\<exists>v. zstate_at (snd (mqtt_start_zone i z od ws s)) k = Some v \<and> \<not> active_state v"
    if k: "k \<in> group_members s ?g" "k \<noteq> i"
  proof -
    have "k \<in> zid ` set (get_zones_by_group t ?g)" using k(1) group_members_cong [OF zt] by (simp add: group_members_eq)
    then obtain x where "x \<in> set (get_zones_by_group t ?g)" "zid x = k" by auto
    then have x: "get_zone t k = Some x" "group_id x = Some (zone_gid y)"
      using row_at_mem_unique [OF wf_zones_distinct [OF wft], of x]
      by (auto simp: get_zones_by_group_def get_zone_def gy split: if_splits)
    then obtain v where v: "started_state t y k = Some v" using k(2) idy gy assms(2) by (auto simp: started_state_def split: if_splits)
    have "\<not> active_state v" by (rule started_state_peer [OF v]) (use k(2) idy gy assms(2) x in simp_all)
    with v show ?thesis by (simp add: sta)
  qed
  have "get_zone (snd st) i \<noteq> None" using started [of i] idy by (auto simp: zstate_at_def started_state_def)
  then show "map_option planned_end_time (get_zone (snd (mqtt_start_zone i z od ws s)) i) = Some (Some (now_of s + minutes n))"
    by (auto simp: zview_get_zone [OF view] s3_def get_zone_uzs [OF rc] versioned_write_def clock)
qed


definition two_app :: app where
  "two_app = app_of (fresh_sched (boot_world [demo_zone 1 ''on'', demo_zone 2 ''off''] [] []))"

lemma two_app_accepts: "fst (mqtt_start_api 2 [(''duration'', J_Int 7)] two_app) = Success (Warned [])"
  by code_simp

lemma two_app_rows:
  "zones two_app = [demo_zone 1 ''on'', demo_zone 2 ''off'']" "db_up two_app" "now_of two_app = 24000" "jobs two_app = []"
  "get_zone two_app 2 = Some (demo_zone 2 ''off'')" "wf_zones two_app"
  by (simp_all add: two_app_def boot_world_def get_zone_def wf_zones_def)


subsection \<open>A zone without a duration\<close>

lemma peer_off_manual_frame [simp]:
  "zgroups (peer_off_manual z s) = zgroups s" "world.more (peer_off_manual z s) = world.more s"
  by (simp_all add: peer_off_manual_def Let_def zgroups_uzs real_cols_def keeps_sched split: option.splits)

lemma peers_off_manual_frame [simp]:
  "zgroups (fold peer_off_manual zs s) = zgroups s" "world.more (fold peer_off_manual zs s) = world.more s"
  by (induction zs arbitrary: s) simp_all

text \<open>
  A zone without a duration is opened and nothing is planned to close it.  The plain start request
  of such a zone answers with an error, but only after the zone was started: it is on (or starting),
  and neither an automatic stop nor a watchdog stop of it exists.
\<close>

theorem start_without_duration_stays_open:
  assumes "\<not> emergency s" "get_zone s i = Some z" "duration z = None" "zone_gid z \<noteq> 0" "wf_zones s"
  shows "fst (start_zone_api i s) = Failure 500
    \<and> (\<exists>v. zstate_at (snd (start_zone_api i s)) i = Some v \<and> active_state v)
    \<and> filter (\<lambda>j. is_zone_stop_job i (j_id j)) (jobs (snd (start_zone_api i s))) = []"
proof -
  let ?g = "zone_gid z"
  have gz: "group_id z = Some ?g" using assms(4) by (auto simp: zone_gid_def int_or0_def split: option.splits)
  define s1 where "s1 = snd (cancel_group_jobs ?g False s)"
  define s2 where "s2 = fold peer_off_manual (group_peers s1 ?g i) s1"
  have zg: "zgroups s2 = zgroups s" by (simp add: s2_def s1_def)
  have i: "i \<in> group_members s ?g" by (rule zone_in_group [OF assms(2) refl assms(4)])
  obtain y where y: "get_zone s2 i = Some y" using member_found [of i s2 ?g] i group_members_cong [OF zg] by auto
  have wf: "wf_zones s2" using assms(5) wf_zones_cong [OF zg] by simp
  define st where "st = start_now i ''manual'' s2"
  have ok: "fst st" and sta: "zstate_at (snd st) i = started_state s2 y i"
    using exclusive_start_states_lemma [OF y wf] by (simp_all add: st_def)
  have eq: "start_zone_api i s = (Failure 500, snd st)"
    using assms(1-4) gz ok by (simp add: start_zone_api_def s1_def [symmetric] s2_def [symmetric] st_def [symmetric]
        schedule_zone_stop_def Let_def)
  have "world.more (snd st) = world.more s1"
    unfolding st_def s2_def by (simp only: more_exclusive_start peers_off_manual_frame)
  then have jobs: "jobs (snd st) = jobs s1" by (rule sched_of_more)
  have "filter (\<lambda>j. is_zone_stop_job i (j_id j)) (jobs s1) = []"
    using i by (auto simp: s1_def cancel_group_sched(1) [OF refl] filter_empty_conv)
  moreover have "\<exists>v. zstate_at (snd st) i = Some v \<and> active_state v"
    using started_active [of s2 y] get_zone_id [OF y] by (simp add: sta) (simp add: started_state_def)
  ultimately show ?thesis by (simp add: eq jobs)
qed

theorem start_without_duration_stays_open_witness:
  "fst (start_zone_api 1 (two_app\<lparr>zones := [(demo_zone 1 ''off'')\<lparr>duration := None\<rparr>]\<rparr>)) = Failure 500"
proof -
  let ?s = "two_app\<lparr>zones := [(demo_zone 1 ''off'')\<lparr>duration := None\<rparr>]\<rparr>"
  have "\<not> emergency ?s" by (simp add: two_app_def)
  moreover have "get_zone ?s 1 = Some ((demo_zone 1 ''off'')\<lparr>duration := None\<rparr>)" "wf_zones ?s"
    by (simp_all add: get_zone_def two_app_rows(2) wf_zones_def)
  moreover have "zone_gid ((demo_zone 1 ''off'')\<lparr>duration := None\<rparr>) \<noteq> 0"
    using demo_zone_simps(6) [of 1 "''off''"] by (simp add: zone_gid_def)
  ultimately show ?thesis using start_without_duration_stays_open [of ?s 1] by simp
qed

subsection \<open>Starting again\<close>

text \<open>
  Starting a running zone again for some minutes plans its stops anew, but it also removes the
  watchdog stop of every zone whose number begins with the same digits.
\<close>

theorem restart_drops_other_watchdogs:
  assumes "get_zone s i = Some z" "zstate z = ''on''" "\<not> emergency s" "minutes_field (field ''duration'' b) = Inr (Some d)"
    "k \<noteq> i" "starts_with (str_int i) (str_int k)"
  shows "fst (mqtt_start_api i b s) = Success (Warned []) \<and> \<not> has_job (J_hard_stop k) (snd (mqtt_start_api i b s))
    \<and> has_job (J_hard_stop i) (snd (mqtt_start_api i b s))"
proof -
  have eq: "mqtt_start_api i b s = (Success (Warned []), restart_running i d s)"
    using assms(1-4) by (simp add: mqtt_start_api_def Let_def)
  show ?thesis using assms(5,6) by (simp add: eq restart_running_def matches_stop_job_def Let_def)
qed

theorem restart_drops_other_watchdogs_witness:
  "\<not> has_job (J_hard_stop 10) (snd (mqtt_start_api 1 [(''duration'', J_Int 7)] two_app))"
proof -
  have "get_zone two_app 1 = Some (demo_zone 1 ''on'')" "\<not> emergency two_app"
    by (simp_all add: get_zone_def two_app_rows) (simp add: two_app_def)
  moreover have "minutes_field (field ''duration'' [(''duration'', J_Int 7)]) = Inr (Some 7)"
    by (simp add: minutes_field_def field_def minutes_ok_def)
  moreover have "starts_with (str_int 1) (str_int 10)" by (simp add: str_int_def str_nat.simps)
  ultimately show ?thesis using restart_drops_other_watchdogs [of two_app 1 "demo_zone 1 ''on''" _ 7 10] by simp
qed

subsection \<open>Sequences and the emergency flag\<close>

text \<open>
  The emergency flag does not stop a sequence.  A request to water a group from its first zone is
  accepted while the emergency is on, and plants the job that runs all zones of the group at once.
\<close>

theorem sequence_starts_in_emergency:
  assumes "emergency s" "chosen_zones s g None \<noteq> []" "field ''override_duration'' b = J_Null"
  shows "\<exists>ws op j. fst (start_from_first_api g b s) = Success (Warned ws)
    \<and> j \<in> set (jobs (snd (start_from_first_api g b s)))
    \<and> j_call j = Run_Group_Sequence g (map zid (chosen_zones s g None)) None op True
    \<and> emergency (snd (start_from_first_api g b s))"
proof -
  define op where "op = preset_field (field ''duration_percent'' b)"
  let ?gz = "chosen_zones s g None"
  define s1 where "s1 = fold bulk_off ?gz s"
  define s2 where "s2 = set_group_scheduled_starts g (sequence_starts ?gz None op (now_of s1) 0) (clear_group_scheduled_starts g s1)"
  define s3 where "s3 = drop_group_jobs g (map zid ?gz) (snd (plant_event g s2))"
  define j where "j = \<lparr>j_id = J_group_seq g (now_of s3), j_call = Run_Group_Sequence g (map zid ?gz) None op True,
              j_trigger = At_Time (now_of s3), j_store = Volatile_Store\<rparr>"
  have st: "start_group_sequence g None op None True s = add_job False j s3"
    using assms(2) by (simp add: start_group_sequence_def Let_def s1_def s2_def s3_def j_def)
  have free: "\<not> has_job (J_group_seq g (now_of s3)) s3"
    by (simp add: s3_def drop_group_jobs_def is_group_seq_job_def Let_def)
  have add: "add_job False j s3 = (True, s3\<lparr>jobs := filter (\<lambda>k. j_id k \<noteq> j_id j) (jobs s3) @ [j]\<rparr>)"
    using free by (simp add: add_job_def j_def)
  have "world.more s1 = world.more s" unfolding s1_def by (rule more_fold) (simp add: bulk_off_def keeps_sched)
  then have "sched.more s2 = sched.more s"
    using sched_more_of_world [of s2 s1] sched_more_of_world [of s1 s] by (simp add: s2_def keeps_sched)
  moreover have "sched.more (snd (plant_event g t)) = sched.more t" for t :: "'a app_scheme"
    by (simp add: plant_event_def Let_def split: option.splits)
  ultimately have "sched.more s3 = sched.more s" by (simp add: s3_def drop_group_jobs_def remove_jobs_where_def Let_def)
  then have em: "emergency s3" using assms(1) app_of_more(1) [of s3 s] by simp
  have eq: "start_from_first_api g b s
      = (Success (Warned (group_warnings s g None op)), add_log ''group_start_from_first'' [g] (snd (add_job False j s3)))"
    using assms(3) by (simp add: start_from_first_api_def minutes_field_def op_def [symmetric] st add Let_def)
  show ?thesis
  proof (intro exI conjI)
    show "fst (start_from_first_api g b s) = Success (Warned (group_warnings s g None op))" by (simp add: eq)
    show "j \<in> set (jobs (snd (start_from_first_api g b s)))" by (simp add: eq add add_log_def)
    show "j_call j = Run_Group_Sequence g (map zid ?gz) None op True" by (simp add: j_def)
    show "emergency (snd (start_from_first_api g b s))" using em by (simp add: eq add add_log_def)
  qed
qed

theorem sequence_starts_in_emergency_witness:
  "\<exists>ws. fst (start_from_first_api 1 [] (two_app\<lparr>emergency := True\<rparr>)) = Success (Warned ws)"
proof -
  have "chosen_zones (two_app\<lparr>emergency := True\<rparr>) 1 None \<noteq> []"
    by (simp add: chosen_zones_def get_zones_def two_app_rows)
  then show ?thesis using sequence_starts_in_emergency [of "two_app\<lparr>emergency := True\<rparr>" 1 "[]"] by (auto simp: field_def)
qed

end
