(* ===== verification/Relay_Laws.thy ===== *)
theory Relay_Laws
  imports Relay_Hub Http_Start_Laws
begin

text \<open>
  What a relay's report does: which zone rows it writes, that it cannot break an emergency stop, how
  it confirms or ends a run, and that an "on" re-plans the stop of the zone from its own duration.
\<close>

subsection \<open>The zone rows after a message\<close>

definition word_of :: "bool \<Rightarrow> string" where "word_of b = (if b then ''on'' else ''off'')"

text \<open>Whatever is skipped, only the list of sent messages grows.\<close>

lemma publish_spaced_sent: "\<exists>ms. publish_spaced recent srv t v w = w\<lparr>sent := ms\<rparr>"
  by (auto simp: publish_spaced_def send_def Let_def intro: exI [of _ "sent w"])

lemma send_off_sent: "\<exists>ms. send_off recent sid t s = s\<lparr>sent := ms\<rparr>"
  using publish_spaced_sent [of recent _ t "''0''" s] by (auto simp: send_off_def intro: exI [of _ "sent s"] split: option.splits)

lemma zview_send_off [simp]: "zview (send_off recent sid t s) = zview s"
  using send_off_sent [of recent sid t s] by (auto simp: zview_def)

lemma zview_schedule_stop [simp]: "zview (schedule_zone_stop i dur cmd s) = zview s"
  by (simp add: schedule_zone_stop_def Let_def split: option.splits)

lemma zview_observed [simp]:
  "zview (snd (observed_on i z s)) = zview s" "zview (snd (observed_off i z s)) = zview s"
  by (auto simp: observed_on_def observed_off_def Let_def split: option.splits)

definition report_cols :: "bool \<Rightarrow> zone option \<Rightarrow> time \<Rightarrow> zone_upd list" where
  "report_cols b z now =
     (if b then U_state ''on'' # (if Option.bind z watering_start_time = None
             then [U_wstart (Some now), U_source (Some ''remote'')] else [])
      else [U_state ''off'', U_wstart None]) @ [U_observed (Some (word_of b))]"

lemma observe_zone_eq:
  "observe_zone t p b i (h, s) = (fan_out (Sse_Zone i t p (word_of b)) h,
     uzs i (report_cols b (get_zone s i) (now_of s)) ''mqtt_observed_change''
       (snd (if b then observed_on i (get_zone s i) s else observed_off i (get_zone s i) s)))"
  by (simp add: observe_zone_def report_cols_def observed_on_def observed_off_def word_of_def Let_def)

lemma real_cols_report: "real_cols (report_cols b z now)"
  by (simp add: real_cols_def report_cols_def)

lemma upd_state_report: "upd_state (report_cols b z now) = Some (word_of b)"
  by (simp add: report_cols_def word_of_def)

lemma get_zone_observe:
  "get_zone (snd (observe_zone t p b i (h, s))) j =
     (if j = i then map_option (versioned_write (report_cols b (get_zone s i) (now_of s))) (get_zone s i) else get_zone s j)"
proof -
  have "get_zone (snd (if b then observed_on i (get_zone s i) s else observed_off i (get_zone s i) s)) = get_zone s"
    by (rule zview_get_zone) simp
  then show ?thesis by (simp add: observe_zone_eq get_zone_uzs [OF real_cols_report])
qed

lemma zstate_at_observe:
  "zstate_at (snd (observe_zone t p b i st)) j =
     (if j = i then map_option (\<lambda>_. word_of b) (zstate_at (snd st) i) else zstate_at (snd st) j)"
  by (cases st) (simp add: zstate_at_def get_zone_observe option.map_comp comp_def zstate_versioned_write upd_state_report)

lemma zstate_at_observe_all:
  "zstate_at (snd (fold (observe_zone t p b) zs st)) j =
     (if j \<in> set zs then map_option (\<lambda>_. word_of b) (zstate_at (snd st) j) else zstate_at (snd st) j)"
  by (induction zs arbitrary: st) (auto simp: zstate_at_observe option.map_comp comp_def)

text \<open>Whether an "on" is taken for an "on".\<close>

definition accepted :: "hub \<Rightarrow> 'a app_scheme \<Rightarrow> int list \<Rightarrow> string \<Rightarrow> bool" where
  "accepted h s zs p = (says_open p \<and> \<not> emergency s \<and> \<not> (\<exists>i \<in> set zs. recently_stopped h i (wall_of s) 5))"

lemma more_send_off [keeps_sched]: "world.more (send_off recent sid t s) = world.more s"
  using send_off_sent [of recent sid t s] by auto

lemma more_mono_of: "world.more s = world.more s' \<Longrightarrow> mono_of s = mono_of s'" for s s' :: "'a sched_scheme"
  by (cases s; cases s') (simp add: mono_of_def)

lemma run_write_finish:
  "run_write (R_finish e mn None None None st) = (\<lambda>r. r\<lparr>end_utc := Some e, end_monotonic := Some mn, run_status := Some st\<rparr>)"
  by (simp add: fun_eq_iff)

lemma runs_send_off: "zone_runs (send_off recent sid t s) = zone_runs s"
  using send_off_sent [of recent sid t s] by auto

lemma more_wall_of: "world.more s = world.more s' \<Longrightarrow> wall_of s = wall_of s'" for s s' :: "'a sched_scheme"
  by (cases s; cases s') (simp add: wall_of_def)

lemma send_off_fields [simp]:
  "emergency (send_off recent sid t s) = emergency s" "wall_of (send_off recent sid t s) = wall_of s" "now_of (send_off recent sid t s) = now_of s"
  using app_of_more(1) [OF sched_more_of_world] more_wall_of more_now_of more_send_off by blast+

lemma refuse_restart_all:
  "fst (fold (refuse_restart recent h sid t) zs (b, s)) = (b \<and> \<not> (\<exists>i \<in> set zs. recently_stopped h i (wall_of s) 5))"
  "zview (snd (fold (refuse_restart recent h sid t) zs (b, s))) = zview s"
  "emergency (snd (fold (refuse_restart recent h sid t) zs (b, s))) = emergency s"
  "now_of (snd (fold (refuse_restart recent h sid t) zs (b, s))) = now_of s"
  "world.more (snd (fold (refuse_restart recent h sid t) zs (b, s))) = world.more s"
  "zone_runs (snd (fold (refuse_restart recent h sid t) zs (b, s))) = zone_runs s"
  by (induction zs arbitrary: b s) (auto simp: refuse_restart_def keeps_sched runs_send_off)

definition before_report :: "(string \<Rightarrow> bool) \<Rightarrow> hub \<Rightarrow> int \<Rightarrow> string \<Rightarrow> int list \<Rightarrow> string \<Rightarrow> 'a app_scheme \<Rightarrow> bool \<times> 'a app_scheme" where
  "before_report recent h sid t zs p s = fold (refuse_restart recent h sid t) zs (refuse_emergency recent sid t (says_open p, s))"

lemma before_report:
  "fst (before_report recent h sid t zs p s) = accepted h s zs p" "zview (snd (before_report recent h sid t zs p s)) = zview s"
  "emergency (snd (before_report recent h sid t zs p s)) = emergency s" "now_of (snd (before_report recent h sid t zs p s)) = now_of s"
  "world.more (snd (before_report recent h sid t zs p s)) = world.more s" "zone_runs (snd (before_report recent h sid t zs p s)) = zone_runs s"
proof -
  obtain b s1 where r: "refuse_emergency recent sid t (says_open p, s) = (b, s1)" by fastforce
  then have k: "zview s1 = zview s" "emergency s1 = emergency s" "now_of s1 = now_of s" "wall_of s1 = wall_of s"
    "world.more s1 = world.more s" "zone_runs s1 = zone_runs s" "b = (says_open p \<and> \<not> emergency s)"
    by (auto simp: refuse_emergency_def keeps_sched runs_send_off split: if_splits)
  show "fst (before_report recent h sid t zs p s) = accepted h s zs p"
    using k by (auto simp: before_report_def r refuse_restart_all accepted_def)
  show "zview (snd (before_report recent h sid t zs p s)) = zview s" "emergency (snd (before_report recent h sid t zs p s)) = emergency s"
    "now_of (snd (before_report recent h sid t zs p s)) = now_of s" "world.more (snd (before_report recent h sid t zs p s)) = world.more s"
    "zone_runs (snd (before_report recent h sid t zs p s)) = zone_runs s"
    using k by (simp_all add: before_report_def r refuse_restart_all)
qed

lemma on_message_eq:
  "on_message recent sid tp payload (h, s) =
     (let t = with_slash tp; p = strip payload; zs = ids_at (zone_topics h) (sid, t); gs = ids_at (mv_topics h) (sid, t)
      in if ends_with ''/meta'' t then (buffer_meta t p (now_of s) h, s)
         else if gs \<noteq> [] then fold (mv_event (says_open p)) gs (h, s)
         else fold (observe_zone t p (accepted h s zs p)) zs (h, snd (before_report recent h sid t zs p s)))"
proof -
  have "(case before_report recent h sid t zs p s of (b, s1) \<Rightarrow> fold (observe_zone t p b) zs (h, s1)) =
      fold (observe_zone t p (accepted h s zs p)) zs (h, snd (before_report recent h sid t zs p s))" for t p zs
    using before_report(1) [of recent h sid t zs p s] by (cases "before_report recent h sid t zs p s") simp
  then show ?thesis by (simp add: on_message_def before_report_def [symmetric] Let_def)
qed

lemma group_fields_frame:
  "zview (snd (update_group_fields g us s)) = zview s" "emergency (snd (update_group_fields g us s)) = emergency s"
  for s :: "'a app_scheme"
  by (simp_all add: update_group_fields_def zview_def Let_def)

lemma mv_event_frame:
  "zview (snd (mv_event b g st)) = zview (snd st)" "emergency (snd (mv_event b g st)) = emergency (snd st)"
  by (cases st, simp add: mv_event_def Let_def group_fields_frame)+

lemma mv_events_frame:
  "zview (snd (fold (mv_event b) gs st)) = zview (snd st)" "emergency (snd (fold (mv_event b) gs st)) = emergency (snd st)"
  by (induction gs arbitrary: st) (simp_all add: mv_event_frame)

text \<open>The zones a message is about.\<close>

definition addressed :: "hub \<Rightarrow> int \<Rightarrow> string \<Rightarrow> int list" where
  "addressed h sid tp = (if ends_with ''/meta'' (with_slash tp) \<or> ids_at (mv_topics h) (sid, with_slash tp) \<noteq> [] then []
     else ids_at (zone_topics h) (sid, with_slash tp))"

lemma zstate_at_on_message:
  "zstate_at (snd (on_message recent sid tp payload (h, s))) j =
     (if j \<in> set (addressed h sid tp)
      then map_option (\<lambda>_. word_of (accepted h s (addressed h sid tp) (strip payload))) (zstate_at s j) else zstate_at s j)"
proof -
  have v: "zstate_at (snd (before_report recent h sid t zs p s)) = zstate_at s" for t zs p
    by (rule zstate_at_cong) (rule before_report(2))
  have m: "zstate_at (snd (fold (mv_event b) gs (h, s))) = zstate_at s" for b gs
    by (rule zstate_at_cong) (simp add: mv_events_frame(1))
  show ?thesis by (simp add: on_message_eq addressed_def Let_def zstate_at_observe_all v m)
qed

subsection \<open>The emergency stop holds\<close>

lemma sent_observe: "sent (snd (observe_zone t p b i st)) = sent (snd st)"
proof (cases st)
  case (Pair h s)
  have "sent (snd (observed_on i z s)) = sent s" "sent (snd (observed_off i z s)) = sent s" for z
    by (auto simp: observed_on_def observed_off_def Let_def mark_zone_run_confirmed_def finish_zone_run_def
        schedule_zone_stop_def cancel_zone_jobs_def remove_jobs_where_def add_job_def split: option.splits)
  then show ?thesis using Pair by (simp add: observe_zone_eq frame_simps)
qed

lemma sent_observe_all: "sent (snd (fold (observe_zone t p b) zs st)) = sent (snd st)"
  by (induction zs arbitrary: st) (simp_all add: sent_observe)

lemma emergency_observe: "emergency (snd (observe_zone t p b i st)) = emergency (snd st)"
proof (cases st)
  case (Pair h s)
  have "emergency (snd (observed_on i z s)) = emergency s" "emergency (snd (observed_off i z s)) = emergency s" for z
    by (auto simp: observed_on_def observed_off_def Let_def mark_zone_run_confirmed_def finish_zone_run_def
        schedule_zone_stop_def cancel_zone_jobs_def remove_jobs_where_def add_job_def split: option.splits)
  moreover have "emergency (uzs i us r w) = emergency w" for us r and w :: "'a app_scheme"
    using app_of_more(1) [OF sched_more_of_world] more_uzs by blast
  ultimately show ?thesis using Pair by (simp add: observe_zone_eq)
qed

lemma emergency_observe_all: "emergency (snd (fold (observe_zone t p b) zs st)) = emergency (snd st)"
  by (induction zs arbitrary: st) (simp_all add: emergency_observe)

lemma last_value_snoc: "sent w' = sent w @ [m] \<Longrightarrow>
    last_value w' srv t = (if ms_server m = srv \<and> ms_topic m = t then Some (ms_value m) else last_value w srv t)"
  by (simp add: last_value_def)

lemma publish_spaced_last:
  "last_value (publish_spaced recent srv t v w) srv (normalize_topic t) = Some v"
  "\<not> recent (normalize_topic t) \<Longrightarrow> \<exists>xs. sent (publish_spaced recent srv t v w) =
     sent w @ \<lparr>ms_server = srv, ms_topic = normalize_topic t, ms_value = v\<rparr> # xs"
  by (auto simp: publish_spaced_def repeats_def send_def Let_def last_value_def)

lemma before_report_refuses:
  assumes "emergency s" "says_open p" "get_mqtt_server s sid = Some srv"
  shows "last_value (snd (before_report recent h sid t zs p s)) (server_id srv) (normalize_topic t) = Some ''0''"
    "\<not> recent (normalize_topic t) \<Longrightarrow> \<exists>xs. sent (snd (before_report recent h sid t zs p s)) =
      sent s @ \<lparr>ms_server = server_id srv, ms_topic = normalize_topic t, ms_value = ''0''\<rparr> # xs"
proof -
  have "fold (refuse_restart recent h sid t) zs (False, u) = (False, u)" for u :: "'a app_scheme"
    by (induction zs) (auto simp: refuse_restart_def)
  then have e: "snd (before_report recent h sid t zs p s) = publish_spaced recent (server_id srv) t ''0'' s"
    using assms by (simp add: before_report_def refuse_emergency_def send_off_def)
  show "last_value (snd (before_report recent h sid t zs p s)) (server_id srv) (normalize_topic t) = Some ''0''"
    unfolding e by (rule publish_spaced_last)
  show "\<not> recent (normalize_topic t) \<Longrightarrow> \<exists>xs. sent (snd (before_report recent h sid t zs p s)) =
      sent s @ \<lparr>ms_server = server_id srv, ms_topic = normalize_topic t, ms_value = ''0''\<rparr> # xs"
    unfolding e by (rule publish_spaced_last)
qed

lemma last_value_sent: "sent w = sent w' \<Longrightarrow> last_value w = last_value w'" for w w' :: "'a world_scheme"
  by (simp add: last_value_def fun_eq_iff)

text \<open>
  C36: A relay cannot break an emergency stop.  While the emergency flag is set no message on any topic
  puts a zone into the state \<open>on\<close> that was not in it, and the flag stays set.  After a relay has reported
  "on", the last value sent to its topic is a zero; it is sent in answer to the report, unless the last
  value, sent less than 0.2 s before, was a zero already.
\<close>

theorem relay_cannot_break_emergency:
  assumes "emergency s" "on_message recent sid tp payload (h, s) = (h', s')"
  shows "(\<forall>j. zstate_at s' j = Some ''on'' \<longrightarrow> zstate_at s j = Some ''on'' \<and> j \<notin> set (addressed h sid tp)) \<and> emergency s' \<and>
    (addressed h sid tp \<noteq> [] \<longrightarrow> says_open (strip payload) \<longrightarrow> (\<forall>srv. get_mqtt_server s sid = Some srv \<longrightarrow>
       last_value s' (server_id srv) (normalize_topic (with_slash tp)) = Some ''0'' \<and>
       (\<not> recent (normalize_topic (with_slash tp)) \<longrightarrow>
       (\<exists>xs. sent s' = sent s @ \<lparr>ms_server = server_id srv, ms_topic = normalize_topic (with_slash tp), ms_value = ''0''\<rparr> # xs))))"
proof (intro conjI allI impI)
  have s': "s' = snd (on_message recent sid tp payload (h, s))" using assms(2) by simp
  have na: "\<not> accepted h s zs p" for zs p using assms(1) by (simp add: accepted_def)
  fix j assume "zstate_at s' j = Some ''on''"
  then show "zstate_at s j = Some ''on''" "j \<notin> set (addressed h sid tp)"
    unfolding s' zstate_at_on_message by (auto simp: na word_of_def split: if_splits)
next
  show "emergency s'"
  proof -
    have "emergency (snd (on_message recent sid tp payload (h, s))) = emergency s"
      by (simp add: on_message_eq Let_def emergency_observe_all before_report(3) mv_events_frame(2))
    then show ?thesis using assms by simp
  qed
next
  fix srv assume a: "addressed h sid tp \<noteq> []" "says_open (strip payload)" "get_mqtt_server s sid = Some srv"
  then have "snd (on_message recent sid tp payload (h, s)) = snd (fold (observe_zone (with_slash tp) (strip payload)
      (accepted h s (addressed h sid tp) (strip payload))) (addressed h sid tp)
      (h, snd (before_report recent h sid (with_slash tp) (addressed h sid tp) (strip payload) s)))"
    by (auto simp: on_message_eq addressed_def Let_def split: if_splits)
  then have e: "sent s' = sent (snd (before_report recent h sid (with_slash tp) (addressed h sid tp) (strip payload) s))"
    using assms(2) by (simp add: sent_observe_all)
  then show "last_value s' (server_id srv) (normalize_topic (with_slash tp)) = Some ''0''"
    using before_report_refuses(1) [OF assms(1) a(2,3)] last_value_sent by metis
  show "\<exists>xs. sent s' = sent s @ \<lparr>ms_server = server_id srv, ms_topic = normalize_topic (with_slash tp), ms_value = ''0''\<rparr> # xs"
    if "\<not> recent (normalize_topic (with_slash tp))"
    unfolding e using before_report_refuses(2) [OF assms(1) a(2,3), of recent "with_slash tp"] that by blast
qed

definition demo_hub :: hub where
  "demo_hub = new_hub\<lparr>zone_topics := [((1, ''/z''), [2])], hub_started := True\<rparr>"

lemma demo_hub_addressed: "addressed demo_hub 1 ''z'' = [2]"
  by code_simp

definition halted_app :: app where
  "halted_app = two_app\<lparr>servers := [\<lparr>server_id = 1, server_enabled = True\<rparr>], emergency := True\<rparr>"

theorem relay_cannot_break_emergency_witness:
  "let s' = snd (on_message (\<lambda>_. False) 1 ''z'' ''ON'' (demo_hub, halted_app))
   in zstate_at s' 2 \<noteq> Some ''on'' \<and> last_value s' 1 ''/z'' = Some ''0''"
proof -
  obtain h' s' where m: "on_message (\<lambda>_. False) 1 ''z'' ''ON'' (demo_hub, halted_app) = (h', s')" by fastforce
  have e: "emergency halted_app" "get_mqtt_server halted_app 1 = Some \<lparr>server_id = 1, server_enabled = True\<rparr>"
    "says_open (strip ''ON'')" "normalize_topic (with_slash ''z'') = ''/z''"
    by code_simp+
  have "zstate_at s' 2 = Some ''on'' \<longrightarrow> 2 \<notin> set (addressed demo_hub 1 ''z'')" "last_value s' 1 ''/z'' = Some ''0''"
    using relay_cannot_break_emergency [OF e(1) m] by (auto simp: demo_hub_addressed e)
  then show ?thesis by (simp add: m demo_hub_addressed)
qed

text \<open>
  A relay switched on again within 0.2 s of that zero is not sent another one.
\<close>

lemma quick_restart_is_not_answered:
  "let s1 = snd (on_message (\<lambda>_. False) 1 ''z'' ''ON'' (demo_hub, halted_app));
       s2 = snd (on_message (\<lambda>_. True) 1 ''z'' ''ON'' (demo_hub, s1))
   in length (sent s1) = 2 \<and> sent s2 = sent s1"
  by code_simp

subsection \<open>A report of one zone\<close>

lemma on_message_one:
  assumes "addressed h sid tp = [i]"
  shows "snd (on_message recent sid tp payload (h, s)) =
    (let p = strip payload; b = accepted h s [i] p; u = snd (before_report recent h sid (with_slash tp) [i] p s)
     in uzs i (report_cols b (get_zone s i) (now_of s)) ''mqtt_observed_change''
          (snd (if b then observed_on i (get_zone s i) u else observed_off i (get_zone s i) u)))"
proof -
  have "get_zone (snd (before_report recent h sid t zs p s)) = get_zone s" for t zs p
    by (rule zview_get_zone) (rule before_report(2))
  then show ?thesis using assms
    by (auto simp: on_message_eq addressed_def Let_def observe_zone_eq before_report(4) split: if_splits)
qed

lemma observed_runs:
  "zone_runs (snd (observed_on i z u)) =
     (if db_up u then upd_rows (\<lambda>r. run_zone r = i \<and> end_utc r = None) (run_write R_confirm) (zone_runs u) else zone_runs u)"
  "zone_runs (snd (observed_off i z u)) =
     (if Option.bind z watering_start_time = None then zone_runs u
      else case get_open_zone_run u i of None \<Rightarrow> zone_runs u
        | Some r \<Rightarrow> (if db_up u then upd_rows (\<lambda>k. run_id k = run_id r)
            (run_write (R_finish (now_of u) (mono_of u) None None None (honest_status u (run_id r) ''ok''))) (zone_runs u)
           else zone_runs u))"
  by (auto simp: observed_on_def observed_off_def Let_def mark_zone_run_confirmed_def finish_zone_run_def
      schedule_zone_stop_def cancel_zone_jobs_def remove_jobs_where_def add_job_def split: option.splits)

text \<open>
  C37: A relay's report is recorded.  For a zone addressed alone the report sets the state and the observed
  state of this zone, and of no other, and leaves its planned end.  An "on" keeps the watering start or
  sets it to now, and flags every open run of the zone as confirmed.  An "off" clears the start and, when
  there was one, ends the newest open run now, as a watering only if it had been confirmed and without
  its litres; an "off" for a zone with no recorded start leaves the open run open.
\<close>

theorem relay_report_is_recorded:
  assumes "addressed h sid tp = [i]" "get_zone s i = Some z" "on_message recent sid tp payload (h, s) = (h', s')"
    "b = accepted h s [i] (strip payload)"
  shows "(\<exists>z'. get_zone s' i = Some z' \<and> zstate z' = word_of b \<and> observed_state z' = Some (word_of b) \<and>
      watering_start_time z' = (if b then case watering_start_time z of None \<Rightarrow> Some (now_of s) | Some t \<Rightarrow> Some t else None) \<and>
      planned_end_time z' = planned_end_time z \<and> duration z' = duration z) \<and>
    (\<forall>j. j \<noteq> i \<longrightarrow> get_zone s' j = get_zone s j) \<and>
    zone_runs s' =
      (if b then upd_rows (\<lambda>r. run_zone r = i \<and> end_utc r = None) (run_write R_confirm) (zone_runs s)
       else case (watering_start_time z, get_open_zone_run s i) of
           (Some st, Some r) \<Rightarrow> upd_rows (\<lambda>k. run_id k = run_id r)
             (\<lambda>k. k\<lparr>end_utc := Some (now_of s), end_monotonic := Some (mono_of s),
                    run_status := Some (honest_status s (run_id r) ''ok'')\<rparr>) (zone_runs s)
         | _ \<Rightarrow> zone_runs s)"
proof (intro conjI)
  define u where "u = snd (before_report recent h sid (with_slash tp) [i] (strip payload) s)"
  define v where "v = snd (if b then observed_on i (Some z) u else observed_off i (Some z) u)"
  have s': "s' = uzs i (report_cols b (Some z) (now_of s)) ''mqtt_observed_change'' v"
    using on_message_one [OF assms(1), of recent payload s] assms(2-4) by (simp add: Let_def u_def v_def)
  have zv: "zview u = zview s" and rn: "zone_runs u = zone_runs s" and nw: "now_of u = now_of s" "mono_of u = mono_of s"
    using before_report(2,4,6) more_mono_of [OF before_report(5)] by (simp_all add: u_def)
  from zv have gz: "get_zone v = get_zone s"
    by (intro zview_get_zone) (simp add: v_def)
  have up: "db_up u" "db_up s" using zv assms(2) by (simp_all add: zview_def get_zone_def split: if_splits)
  show "\<exists>z'. get_zone s' i = Some z' \<and> zstate z' = word_of b \<and> observed_state z' = Some (word_of b) \<and>
      watering_start_time z' = (if b then case watering_start_time z of None \<Rightarrow> Some (now_of s) | Some t \<Rightarrow> Some t else None) \<and>
      planned_end_time z' = planned_end_time z \<and> duration z' = duration z"
    by (simp add: s' get_zone_uzs [OF real_cols_report] gz assms(2))
      (simp add: report_cols_def versioned_write_def word_of_def split: option.splits)
  show "\<forall>j. j \<noteq> i \<longrightarrow> get_zone s' j = get_zone s j"
    by (simp add: s' get_zone_uzs [OF real_cols_report] gz)
  have og: "get_open_zone_run u i = get_open_zone_run s i" and hs: "honest_status u = honest_status s"
    using rn up by (auto simp: get_open_zone_run_def honest_status_def fun_eq_iff)
  have rs: "zone_runs s' = zone_runs v" by (simp add: s' frame_simps)
  show "zone_runs s' = (if b then upd_rows (\<lambda>r. run_zone r = i \<and> end_utc r = None) (run_write R_confirm) (zone_runs s)
       else case (watering_start_time z, get_open_zone_run s i) of
           (Some st, Some r) \<Rightarrow> upd_rows (\<lambda>k. run_id k = run_id r)
             (\<lambda>k. k\<lparr>end_utc := Some (now_of s), end_monotonic := Some (mono_of s),
                    run_status := Some (honest_status s (run_id r) ''ok'')\<rparr>) (zone_runs s)
         | _ \<Rightarrow> zone_runs s)"
    by (auto simp: rs v_def observed_runs up rn og hs nw run_write_finish split: option.splits)
qed

theorem relay_report_is_recorded_witness:
  "zstate_at (snd (on_message (\<lambda>_. False) 1 ''z'' ''ON'' (demo_hub, two_app))) 2 = Some ''on''"
proof -
  have a: "accepted demo_hub two_app [2] (strip ''ON'')" by code_simp
  obtain h' s' where m: "on_message (\<lambda>_. False) 1 ''z'' ''ON'' (demo_hub, two_app) = (h', s')" by fastforce
  show ?thesis
    using relay_report_is_recorded [OF demo_hub_addressed two_app_rows(5) m refl] a by (auto simp: m zstate_at_def word_of_def)
qed

subsection \<open>The stop is planned anew\<close>

lemma stop_jobs_observed_on:
  assumes "duration z = Some n" "0 < n"
  shows "jobs (snd (observed_on i (Some z) u)) = filter (\<lambda>j. \<not> is_zone_stop_job i (j_id j)) (jobs u) @ [auto_stop_job i n u]"
    "active_zones (snd (observed_on i (Some z) u)) = (active_zones u)(i \<mapsto> zone_stop_time (early_off u) n (now_of u))"
proof -
  define s1 where "s1 = cancel_zone_jobs i (snd (mark_zone_run_confirmed i u))"
  have m: "world.more (snd (mark_zone_run_confirmed i u)) = world.more u" by (simp add: mark_zone_run_confirmed_def)
  note sm = sched_of_more [OF m] more_now_of [OF m] more_wall_of [OF m]
  have j1: "jobs s1 = filter (\<lambda>j. \<not> is_zone_stop_job i (j_id j)) (jobs u)" "active_zones s1 = (active_zones u)(i := None)"
    "early_off s1 = early_off u" "now_of s1 = now_of u"
    using sm by (simp_all add: s1_def cancel_zone_jobs_def remove_jobs_where_def Let_def now_of_def)
  have cmd: "command_id (snd (mark_zone_run_confirmed i u)) = command_id u" using sm by (simp add: command_id_def)
  have ne: "j_id k \<noteq> J_zone_stop i tag" if "k \<in> set (jobs s1)" for k tag
    using that by (auto simp: j1 is_zone_stop_job_def)
  have "\<not> has_job (J_zone_stop i tag) s1" for tag
    using ne by (auto simp: has_job_def image_iff dest: sym)
  moreover have "filter (\<lambda>k. j_id k \<noteq> J_zone_stop i tag) (jobs s1) = jobs s1" for tag
    using ne by (simp add: filter_id_conv)
  moreover have e: "snd (observed_on i (Some z) u) = schedule_zone_stop i (Some n) (Some (command_id u)) s1"
    using assms by (simp add: observed_on_def Let_def int_or0_def s1_def cmd)
  ultimately have "snd (observed_on i (Some z) u) = s1\<lparr>jobs := jobs s1 @ [auto_stop_job i n u],
      active_zones := (active_zones s1)(i \<mapsto> zone_stop_time (early_off u) n (now_of u))\<rparr>"
    by (simp add: schedule_zone_stop_def add_job_def Let_def command_id_def str_int_nonempty auto_stop_job_def j1)
  then show "jobs (snd (observed_on i (Some z) u)) = filter (\<lambda>j. \<not> is_zone_stop_job i (j_id j)) (jobs u) @ [auto_stop_job i n u]"
    "active_zones (snd (observed_on i (Some z) u)) = (active_zones u)(i \<mapsto> zone_stop_time (early_off u) n (now_of u))"
    by (simp_all add: j1)
qed



text \<open>A manual start for 7 minutes of a zone of 15 runs for 15 once its relay has answered.\<close>

lemma echo_lengthens_manual_start:
  "let s = snd (mqtt_start_api 2 [(''duration'', J_Int 7)] two_app)
   in filter (\<lambda>j. is_zone_stop_job 2 (j_id j)) (jobs (snd (on_message (\<lambda>_. False) 1 ''z'' ''ON'' (demo_hub, s)))) =
     [\<lparr>j_id = J_zone_stop 2 (Cmd (command_id s)), j_call = Stop_Zone 2,
       j_trigger = At_Time (zone_stop_time 3 15 24000), j_store = Volatile_Store\<rparr>]"
  by code_simp

text \<open>Two zones of one group are on after the reports of their relays.\<close>

lemma echo_ignores_exclusivity:
  "let s = snd (on_message (\<lambda>_. False) 1 ''z'' ''ON'' (demo_hub, two_app)) in zstate_at s 1 = Some ''on'' \<and> zstate_at s 2 = Some ''on''"
  by code_simp

subsection \<open>The browsers' queues\<close>

definition hub_ok :: "hub \<Rightarrow> bool" where
  "hub_ok h = (length (sse_clients h) \<le> max_sse_clients \<and> list_all (\<lambda>c. length (cl_queue c) \<le> sse_queue_size) (sse_clients h) \<and>
     length (meta_buffer h) \<le> meta_buffer_size)"

lemma put_nowait_bound: "length (cl_queue c) \<le> sse_queue_size \<Longrightarrow> length (cl_queue (put_nowait x c)) \<le> sse_queue_size"
  by (simp add: put_nowait_def queue_full_def)

lemma hub_ok_ops:
  "hub_ok new_hub"
  "hub_ok h \<Longrightarrow> hub_ok (fan_out x h)" "hub_ok h \<Longrightarrow> hub_ok (broadcast x h)" "hub_ok h \<Longrightarrow> hub_ok (register_client h)"
  "hub_ok h \<Longrightarrow> hub_ok (unregister_client i h)" "hub_ok h \<Longrightarrow> hub_ok (buffer_meta t p now h)"
proof -
  show "hub_ok new_hub" by (simp add: hub_ok_def new_hub_def)
  show "hub_ok h \<Longrightarrow> hub_ok (fan_out x h)" by (auto simp: hub_ok_def fan_out_def list_all_iff put_nowait_bound)
  show "hub_ok h \<Longrightarrow> hub_ok (broadcast x h)"
    by (auto simp: hub_ok_def broadcast_def list_all_iff put_nowait_bound intro: order_trans [OF length_filter_le])
  show "hub_ok h \<Longrightarrow> hub_ok (register_client h)"
    by (auto simp: hub_ok_def register_client_def Let_def list_all_iff max_sse_clients_def dest: in_set_dropD)
  show "hub_ok h \<Longrightarrow> hub_ok (unregister_client i h)"
    by (auto simp: hub_ok_def unregister_client_def list_all_iff intro: order_trans [OF length_filter_le])
  show "hub_ok h \<Longrightarrow> hub_ok (buffer_meta t p now h)"
    by (auto simp: hub_ok_def buffer_meta_def Let_def meta_buffer_size_def)
qed

lemma hub_ok_on_message: "hub_ok h \<Longrightarrow> hub_ok (fst (on_message recent sid tp payload (h, s)))"
proof -
  assume ok: "hub_ok h"
  have o: "hub_ok (fst st) \<Longrightarrow> hub_ok (fst (fold (observe_zone t p b) zs st))" for t p b zs and st :: "hub \<times> 'a app_scheme"
    by (induction zs arbitrary: st) (auto simp: observe_zone_def Let_def hub_ok_ops split: prod.splits)
  have m: "hub_ok (fst st) \<Longrightarrow> hub_ok (fst (fold (mv_event b) gs st))" for b gs and st :: "hub \<times> 'a app_scheme"
    by (induction gs arbitrary: st) (auto simp: mv_event_def Let_def hub_ok_ops split: prod.splits)
  show ?thesis using ok by (simp add: on_message_eq Let_def o m hub_ok_ops)
qed

text \<open>A client evicted with a full queue never gets the sentinel that would end its stream.\<close>

lemma evicted_full_client_not_told:
  assumes "length (sse_clients h) = max_sse_clients" "sse_clients h = c # cs" "queue_full c"
  shows "evicted (register_client h) = evicted h @ [c]"
  using assms by (simp add: register_client_def Let_def put_nowait_def)

text \<open>The hub counts as started although no broker answered, and it never tries again.\<close>

lemma hub_started_without_connection:
  "hub_started (ensure_hub_started (\<lambda>_. False) d new_hub)" "hub_mqtt (ensure_hub_started (\<lambda>_. False) d new_hub) = []"
  "ensure_hub_started reach d' (ensure_hub_started (\<lambda>_. False) d new_hub) = ensure_hub_started (\<lambda>_. False) d new_hub"
proof -
  have "fold (connect_server (\<lambda>_. False) d zt mt) xs h = h" for zt mt xs h
    by (induction xs arbitrary: h) (simp_all add: connect_server_def)
  then show "hub_started (ensure_hub_started (\<lambda>_. False) d new_hub)" "hub_mqtt (ensure_hub_started (\<lambda>_. False) d new_hub) = []"
    by (simp_all add: ensure_hub_started_def rebuild_subscriptions_def new_hub_def)
  then show "ensure_hub_started reach d' (ensure_hub_started (\<lambda>_. False) d new_hub) = ensure_hub_started (\<lambda>_. False) d new_hub"
    by (simp add: ensure_hub_started_def)
qed

text \<open>Without a zone topic no server is connected, whatever master valves it carries.\<close>

lemma master_only_server_not_heard:
  assumes "get_zones d = []" shows "hub_mqtt (ensure_hub_started reach d new_hub) = []"
  using assms by (simp add: ensure_hub_started_def rebuild_subscriptions_def new_hub_def split: prod.splits)

end
