(* ===== verification/Timestamps.thy ===== *)
theory Timestamps
  imports Calendar
begin

text \<open>
  Writing a timestamp: \<open>strftime("%Y-%m-%d %H:%M:%S")\<close> and \<open>strftime("%Y-%m-%d")\<close> of a local
  time, and that \<open>parse_dt\<close> (the \<open>strptime\<close> helper of \<open>db/zones.py\<close> and
  \<open>irrigation_scheduler.py\<close>) reads back every second of the years 1000 to 9999.
  \<open>date_of\<close> is Python's \<open>date.fromordinal\<close>, computed by walking up from an underestimate
  of the year.
\<close>

subsection \<open>From a day number to a date\<close>

definition jan1 :: "int \<Rightarrow> int" where
  "jan1 y = days_from_civil y 1 1"

text \<open>The closed form shows how long a year is.\<close>

lemma era_form: "(y div 400) * 146097 + ((y - y div 400 * 400) * 365 + (y - y div 400 * 400) div 4
    - (y - y div 400 * 400) div 100) = 365 * y + y div 4 - y div 100 + y div 400" for y :: int
proof -
  define e where "e = y div 400"
  define r where "r = y mod 400"
  have y: "y = 400 * e + r" by (simp add: e_def r_def)
  have "y = r + 4 * (100 * e)" "y = r + 100 * (4 * e)" by (simp_all add: y)
  then have "y div 4 = 100 * e + r div 4" "y div 100 = 4 * e + r div 100"
    by (metis div_mult_self2 zero_neq_numeral)+
  then show ?thesis by (simp add: y [symmetric] e_def [symmetric] algebra_simps) (simp add: y)
qed

lemma civil_regroup: "a + b = (c :: int) \<Longrightarrow> a + (b + (x + d - 1)) - 719468 - 4 = c + x + d - 719473"
  by simp

lemma days_from_civil_closed:
  "days_from_civil y m d = (let v = (if m \<le> 2 then y - 1 else y) in
     365 * v + v div 4 - v div 100 + v div 400 + (153 * ((m + 9) mod 12) + 2) div 5 + d - 719473)"
  unfolding days_from_civil_def Let_def by (rule civil_regroup [OF era_form])

lemma div_step: "0 < k \<Longrightarrow> y div k = (y - 1) div k + (if k dvd y then 1 else 0)" for y k :: int
proof -
  assume k: "0 < k"
  define q where "q = y div k"
  define r where "r = y mod k"
  have y: "y = k * q + r" and r: "0 \<le> r" "r < k" using k by (simp_all add: q_def r_def)
  show ?thesis
  proof (cases "r = 0")
    case True
    have "y - 1 = k * (q - 1) + (k - 1)" by (simp add: y True algebra_simps)
    from int_div_pos_eq [OF this] show ?thesis using k True q_def r_def by (simp add: dvd_eq_mod_eq_0)
  next
    case False
    have "y - 1 = k * q + (r - 1)" by (simp add: y)
    from int_div_pos_eq [OF this] show ?thesis using r False q_def r_def by (simp add: dvd_eq_mod_eq_0)
  qed
qed

lemma year_length: "jan1 (y + 1) = jan1 y + (if is_leap y then 366 else 365)"
proof -
  have dv: "400 dvd y \<Longrightarrow> 100 dvd y" "100 dvd y \<Longrightarrow> 4 dvd y"
    by (erule dvd_trans [rotated], simp)+
  have j: "jan1 x = 365 * (x - 1) + (x - 1) div 4 - (x - 1) div 100 + (x - 1) div 400 - 719166" for x
    by (simp add: jan1_def days_from_civil_closed Let_def)
  show ?thesis
    unfolding j is_leap_def add_diff_cancel_right'
    using dv by (simp add: div_step [of 4 y] div_step [of 100 y] div_step [of 400 y])
qed

lemma jan1_less: "jan1 y < jan1 (y + 1)"
  by (simp add: year_length)

function year_from :: "int \<Rightarrow> int \<Rightarrow> int" where
  "year_from y d = (if jan1 (y + 1) \<le> d then year_from (y + 1) d else y)"
  by pat_completeness auto
termination
  by (relation "measure (\<lambda>(y, d). nat (d - jan1 y))") (use jan1_less in \<open>auto intro: less_le_trans\<close>)

declare year_from.simps [simp del]

fun month_from :: "int \<Rightarrow> int \<Rightarrow> nat \<Rightarrow> int" where
  "month_from y d 0 = 1"
| "month_from y d (Suc m) = (if days_from_civil y (int (Suc m)) 1 \<le> d then int (Suc m) else month_from y d m)"

definition year_of :: "int \<Rightarrow> int" where
  "year_of d = year_from (1969 + (if 0 \<le> d then d div 366 else d div 365)) d"

definition month_of :: "int \<Rightarrow> int" where
  "month_of d = month_from (year_of d) d 12"

definition mday_of :: "int \<Rightarrow> int" where
  "mday_of d = d - days_from_civil (year_of d) (month_of d) 1 + 1"

lemma jan1_start: "jan1 (1970 + int n) \<le> 366 * int n - 4"
proof (induction n)
  case 0
  show ?case by (simp add: jan1_def days_from_civil_closed)
next
  case (Suc n)
  have "1970 + int (Suc n) = (1970 + int n) + 1" by simp
  then show ?case using Suc year_length [of "1970 + int n"] by (simp split: if_splits)
qed

lemma jan1_before: "jan1 (1970 - int n) \<le> - 365 * int n - 4"
proof (induction n)
  case 0
  show ?case by (simp add: jan1_def days_from_civil_closed)
next
  case (Suc n)
  have "1970 - int n = (1970 - int (Suc n)) + 1" by simp
  then have "jan1 (1970 - int n) = jan1 (1970 - int (Suc n)) + (if is_leap (1970 - int (Suc n)) then 366 else 365)"
    by (simp only: year_length)
  then show ?case using Suc by (simp split: if_splits)
qed

lemma year_from_bounds: "jan1 y \<le> d \<Longrightarrow> y \<le> year_from y d \<and> jan1 (year_from y d) \<le> d \<and> d < jan1 (year_from y d + 1)"
proof (induction y d rule: year_from.induct)
  case (1 y d)
  show ?case
  proof (cases "jan1 (y + 1) \<le> d")
    case True
    then show ?thesis using 1 by (subst (1 2 3) year_from.simps) auto
  next
    case False
    then show ?thesis using 1(2) by (subst (1 2 3) year_from.simps) auto
  qed
qed

lemma year_of_bounds: "jan1 (year_of d) \<le> d \<and> d < jan1 (year_of d + 1)"
proof (cases "0 \<le> d")
  case True
  define n where "n = nat (d div 366)"
  have n: "int n = d div 366" using True by (simp add: n_def pos_imp_zdiv_nonneg_iff)
  have "366 * (d div 366) \<le> d"
    using mult_div_mod_eq [of 366 d] pos_mod_sign [of 366 d] by linarith
  then have "jan1 (1969 + d div 366) \<le> d"
    using jan1_start [of n] jan1_less [of "1969 + d div 366"] by (simp add: n add.commute)
  from year_from_bounds [OF this] show ?thesis using True by (simp add: year_of_def)
next
  case False
  define n where "n = nat (- (d div 365))"
  have n: "int n = - (d div 365)" using False by (simp add: n_def)
  have "d div 365 * 365 + d mod 365 = d" by simp
  then have "365 * (d div 365) \<le> d" using pos_mod_sign [of 365 d] by linarith
  moreover have "1970 - int n = 1969 + d div 365 + 1" using n by simp
  ultimately have "jan1 (1969 + d div 365) \<le> d"
    using jan1_before [of n] jan1_less [of "1969 + d div 365"] n by simp
  from year_from_bounds [OF this] show ?thesis using False by (simp add: year_of_def)
qed

text \<open>Months follow each other with the length \<open>month_days\<close> gives them.\<close>

lemma dec_length: "jan1 (y + 1) = days_from_civil y 12 1 + 31"
  by (simp add: jan1_def days_from_civil_closed Let_def)

definition year_base :: "int \<Rightarrow> int" where
  "year_base v = 365 * v + v div 4 - v div 100 + v div 400 - 719473"

lemma days_from_base:
  "days_from_civil y m d = year_base (if m \<le> 2 then y - 1 else y) + ((153 * ((m + 9) mod 12) + 2) div 5 + d)"
  by (simp add: days_from_civil_closed year_base_def Let_def)

lemma month_length:
  assumes "1 \<le> m" "m \<le> 11"
  shows "days_from_civil y (m + 1) 1 = days_from_civil y m 1 + month_days y m"
proof -
  have m: "m = 1 \<or> m = 2 \<or> m = 3 \<or> m = 4 \<or> m = 5 \<or> m = 6 \<or> m = 7 \<or> m = 8 \<or> m = 9 \<or> m = 10 \<or> m = 11"
    using assms by presburger
  have feb: "days_from_civil y 3 1 = days_from_civil y 2 1 + (if is_leap y then 29 else 28)"
    using year_length [of y] by (simp add: jan1_def days_from_base split: if_splits)
  show ?thesis
  proof (cases "m = 2")
    case True
    then show ?thesis using feb by (simp add: month_days_def)
  next
    case False
    then show ?thesis using m by (elim disjE) (simp_all add: month_days_def days_from_base)
  qed
qed

lemma month_from_bounds:
  assumes "jan1 y \<le> d" "d < days_from_civil y (int n + 1) 1 \<or> (n = 12 \<and> d < jan1 (y + 1))" "1 \<le> n" "n \<le> 12"
  shows "1 \<le> month_from y d n \<and> month_from y d n \<le> 12 \<and> days_from_civil y (month_from y d n) 1 \<le> d
    \<and> d < days_from_civil y (month_from y d n) 1 + month_days y (month_from y d n)"
  using assms(2-4)
proof (induction n)
  case (Suc n)
  show ?case
  proof (cases "days_from_civil y (int (Suc n)) 1 \<le> d")
    case True
    show ?thesis
    proof (cases "Suc n = 12")
      case 12: True
      then have "d < days_from_civil y 12 1 + 31"
        using Suc.prems(1) dec_length [of y] month_length [of 12 y] by (auto simp: days_from_civil_closed Let_def jan1_def)
      moreover have "month_from y d (Suc n) = 12" unfolding month_from.simps using True 12 by simp
      ultimately show ?thesis using True 12 by (simp only:) (simp add: month_days_def)
    next
      case False
      then show ?thesis using True Suc.prems month_length [of "int (Suc n)" y] by auto
    qed
  next
    case False
    show ?thesis
    proof (cases n)
      case 0
      then show ?thesis using False assms(1) by (simp add: jan1_def)
    next
      case (Suc k)
      then show ?thesis using False Suc.IH Suc.prems by (simp add: add.commute)
    qed
  qed
qed simp

lemma date_bounds:
  "1 \<le> month_of d \<and> month_of d \<le> 12 \<and> 1 \<le> mday_of d \<and> mday_of d \<le> month_days (year_of d) (month_of d)"
  using month_from_bounds [of "year_of d" d 12] year_of_bounds [of d]
  by (auto simp: month_of_def mday_of_def)

lemma civil_of_date: "days_from_civil (year_of d) (month_of d) (mday_of d) = d"
  by (simp add: mday_of_def days_from_civil_closed Let_def)

subsection \<open>Digits\<close>

lemma digit_val_char: "k < 10 \<Longrightarrow> digit_val (char_of (48 + k)) = Some (int k)"
  by (simp add: digit_val_def Let_def)

lemma digits_val_append: "digits_val (xs @ ys) a = Option.bind (digits_val xs a) (digits_val ys)"
  by (induction xs arbitrary: a) (simp_all split: option.splits)

lemma str_nat_digit: "n < 10 \<Longrightarrow> str_nat n = [char_of (48 + n)]"
  by (simp add: str_nat.simps)

lemma digits_val_str_nat: "digits_val (str_nat n) 0 = Some (int n)"
proof (induction n rule: str_nat.induct)
  case (1 n)
  show ?case
  proof (cases "n < 10")
    case True
    then show ?thesis by (simp add: str_nat_digit digit_val_char)
  next
    case False
    then have "digits_val (str_nat (n div 10)) 0 = Some (int (n div 10))" by (rule 1)
    moreover have "digit_val (char_of (48 + n mod 10)) = Some (int (n mod 10))"
      by (rule digit_val_char) simp
    moreover have "10 * int (n div 10) + int (n mod 10) = int n"
      using mult_div_mod_eq [of "10 :: nat" n] by (metis of_nat_add of_nat_mult of_nat_numeral)
    ultimately show ?thesis
      using False by (simp add: str_nat.simps [of n] digits_val_append)
  qed
qed

lemma str_nat_nonempty [simp]: "str_nat n \<noteq> []"
  by (simp add: str_nat.simps [of n])

lemma digits_val_zeros: "digits_val (replicate k (CHR ''0'')) 0 = Some 0"
  by (induction k) (simp_all add: digit_val_def)

definition zero_pad :: "nat \<Rightarrow> int \<Rightarrow> string" where
  "zero_pad k n = (let s = str_nat (nat n) in replicate (k - length s) (CHR ''0'') @ s)"

lemma nat_of_zero_pad: "0 \<le> n \<Longrightarrow> nat_of_digits (zero_pad k n) = Some n"
  by (simp add: nat_of_digits_def zero_pad_def Let_def digits_val_append digits_val_zeros digits_val_str_nat)

lemma length_str_nat: "n < 10 ^ Suc k \<Longrightarrow> length (str_nat n) \<le> Suc k"
proof (induction k arbitrary: n)
  case 0
  then show ?case by (simp add: str_nat_digit)
next
  case (Suc k)
  then have "n div 10 < 10 ^ Suc k" by (simp add: less_mult_imp_div_less mult.commute)
  from Suc.IH [OF this] show ?case by (subst str_nat.simps) simp
qed

lemma length_zero_pad: "0 \<le> n \<Longrightarrow> n < 10 ^ Suc k \<Longrightarrow> length (zero_pad (Suc k) n) = Suc k"
proof -
  assume "0 \<le> n" "n < 10 ^ Suc k"
  then have "nat n < 10 ^ Suc k" by (simp add: nat_less_iff)
  from length_str_nat [OF this] show ?thesis by (simp add: zero_pad_def Let_def)
qed

lemma digit_chars: "c \<in> set (str_nat n) \<Longrightarrow> digit_val c \<noteq> None"
proof (induction n rule: str_nat.induct)
  case (1 n)
  then show ?case
    by (subst (asm) (2) str_nat.simps) (auto simp: digit_val_char split: if_splits)
qed

lemma zero_pad_no_sep: "digit_val c = None \<Longrightarrow> c \<notin> set (zero_pad k n)"
  by (auto simp: zero_pad_def Let_def digit_chars) (simp add: digit_val_def)

lemma split_on_none: "c \<notin> set s \<Longrightarrow> split_on c s = [s]"
  by (induction s) auto

lemma split_on_append: "c \<notin> set s \<Longrightarrow> split_on c (s @ c # t) = s # split_on c t"
  by (induction s) auto

subsection \<open>strftime and back\<close>

definition date_text :: "int \<Rightarrow> string" where
  "date_text d = zero_pad 4 (year_of d) @ CHR ''-'' # zero_pad 2 (month_of d) @ CHR ''-'' # zero_pad 2 (mday_of d)"

definition clock_text :: "int \<Rightarrow> string" where
  "clock_text c = zero_pad 2 (c div 3600) @ CHR '':'' # zero_pad 2 (c div 60 mod 60) @ CHR '':'' # zero_pad 2 (c mod 60)"

definition time_text :: "time \<Rightarrow> string" where
  "time_text t = date_text (day_of t) @ CHR '' '' # clock_text (t mod 86400)"

lemma separators: "digit_val (CHR ''-'') = None" "digit_val (CHR '':'') = None" "digit_val (CHR '' '') = None"
  by (simp_all add: digit_val_def)

lemma short_num_pad: "0 \<le> n \<Longrightarrow> n < 100 \<Longrightarrow> short_num 2 (zero_pad 2 n) = Some n"
  using length_zero_pad [of n 1] by (simp add: short_num_def nat_of_zero_pad numeral_2_eq_2)

lemma month_days_le: "month_days y m \<le> 31"
  by (simp add: month_days_def)

lemma parse_date_text:
  assumes "1000 \<le> year_of d" "year_of d \<le> 9999"
  shows "parse_date (date_text d) = Some d"
proof -
  note b = date_bounds [of d] assms(1)
  have "split_on (CHR ''-'') (date_text d) = [zero_pad 4 (year_of d), zero_pad 2 (month_of d), zero_pad 2 (mday_of d)]"
    by (simp add: date_text_def split_on_append split_on_none zero_pad_no_sep separators)
  moreover have "length (zero_pad 4 (year_of d)) = 4"
    using length_zero_pad [of "year_of d" 3] b(2) assms(2) by (simp add: eval_nat_numeral)
  moreover have "short_num 2 (zero_pad 2 (month_of d)) = Some (month_of d)"
    by (rule short_num_pad) (use b(1) in linarith)+
  moreover have "short_num 2 (zero_pad 2 (mday_of d)) = Some (mday_of d)"
    by (rule short_num_pad) (use b(1) month_days_le [of "year_of d" "month_of d"] in linarith)+
  moreover have "nat_of_digits (zero_pad 4 (year_of d)) = Some (year_of d)"
    using b(2) by (intro nat_of_zero_pad) linarith
  ultimately show ?thesis
    using b by (simp add: parse_date_def civil_of_date)
qed

lemma parse_clock_text:
  assumes "0 \<le> c" "c < 86400"
  shows "parse_clock (clock_text c) = Some c"
proof -
  define h where "h = c div 3600"
  define m where "m = c div 60 mod 60"
  define s where "s = c mod 60"
  have h: "0 \<le> h" "h < 24" using assms by (simp_all add: h_def pos_imp_zdiv_nonneg_iff)
  have ms: "0 \<le> m" "m < 60" "0 \<le> s" "s < 60" by (simp_all add: m_def s_def)
  have "c div 60 = 60 * h + m" using mult_div_mod_eq [of 60 "c div 60"] by (simp add: h_def m_def zdiv_zmult2_eq [symmetric])
  then have c: "3600 * h + 60 * m + s = c" using mult_div_mod_eq [of 60 c] by (simp add: s_def)
  have "split_on (CHR '':'') (clock_text c) = [zero_pad 2 h, zero_pad 2 m, zero_pad 2 s]"
    by (simp add: clock_text_def h_def m_def s_def split_on_append split_on_none zero_pad_no_sep separators)
  then show ?thesis
    using h ms c by (simp add: parse_clock_def short_num_pad valid_hm_def)
qed

lemma parse_dt_time_text_lemma:
  assumes "1000 \<le> year_of (day_of t)" "year_of (day_of t) \<le> 9999"
  shows "parse_dt (Some (time_text t)) = Some t"
proof -
  have "CHR '' '' \<notin> set (date_text d)" "CHR '' '' \<notin> set (clock_text c)" for d c
    by (simp_all add: date_text_def clock_text_def zero_pad_no_sep separators)
  then have "split_on (CHR '' '') (time_text t) = [date_text (day_of t), clock_text (t mod 86400)]"
    by (simp add: time_text_def split_on_append split_on_none)
  moreover have "86400 * day_of t + t mod 86400 = t" by (simp add: day_of_def)
  ultimately show ?thesis
    using assms by (simp add: parse_dt_def parse_date_text parse_clock_text)
qed

text \<open>
  What the code writes it can read.  Every local time of the years 1000 to 9999,
  printed with \<open>strftime("%Y-%m-%d %H:%M:%S")\<close>, is read back unchanged by the two-format
  parser used for start times, planned ends and postponements, leap days included.
\<close>

theorem parse_dt_time_text:
  assumes "1000 \<le> year_of (day_of t)" "year_of (day_of t) \<le> 9999"
  shows "parse_dt (Some (time_text t)) = Some t"
  by (rule parse_dt_time_text_lemma [OF assms])

theorem parse_dt_time_text_witness:
  "time_text 1708871399 = ''2024-02-29 14:29:59'' \<and> parse_dt (Some (time_text 1708871399)) = Some 1708871399"
proof -
  have y: "time_text 1708871399 = ''2024-02-29 14:29:59''" "year_of (day_of 1708871399) = 2024" by code_simp+
  show ?thesis using parse_dt_time_text [of 1708871399] y by simp
qed

end
