(* ===== verification/Settings.thy ===== *)
theory Settings
  imports Timestamps Http_Control
begin

text \<open>
  The key-value table \<open>settings\<close> and the typed configuration on top of it:
  \<open>src/db/settings.py\<close> (\<open>SettingsRepository\<close>).  No method writes a NULL value (it
  deletes the row), so the table is a map to strings.  \<open>kv_up\<close> is false while SQLite raises.  The
  password hash is werkzeug's \<open>generate_password_hash\<close>, an argument.  A configuration dict is
  a record whose optional fields are the keys that may be absent; its server id is still the
  JSON value of the request, because \<open>int\<close> is applied to it here.
\<close>

subsection \<open>The table\<close>

record settings =
  kv :: "string \<Rightarrow> string option"
  kv_up :: bool

definition get_setting_value :: "string \<Rightarrow> settings \<Rightarrow> string option" where
  "get_setting_value k st = (if kv_up st then kv st k else None)"

definition set_setting_value :: "string \<Rightarrow> string option \<Rightarrow> settings \<Rightarrow> bool \<times> settings" where
  "set_setting_value k v st = (if kv_up st then (True, st\<lparr>kv := (kv st)(k := v)\<rparr>) else (False, st))"

lemma get_after_set [simp]:
  "get_setting_value k (snd (set_setting_value k' v st)) = (if k = k' \<and> kv_up st then v else get_setting_value k st)"
  by (simp add: get_setting_value_def set_setting_value_def)

lemma set_setting_up [simp]:
  "fst (set_setting_value k v st) = kv_up st" "kv_up (snd (set_setting_value k v st)) = kv_up st"
  by (simp_all add: set_setting_value_def)

text \<open>\<open>str(v or "0") in ("1", "true", "True")\<close> and the server id that must be a digit string.\<close>

definition flag_setting :: "string option \<Rightarrow> bool" where
  "flag_setting v = (str_or ''0'' v \<in> {''1'', ''true'', ''True''})"

definition is_digit_string :: "string \<Rightarrow> bool" where
  "is_digit_string s = (s \<noteq> [] \<and> list_all (\<lambda>c. digit_val c \<noteq> None) s)"

definition id_setting :: "string option \<Rightarrow> int option" where
  "id_setting v = (case v of None \<Rightarrow> None | Some s \<Rightarrow> (if is_digit_string s then py_int s else None))"

definition bit_text :: "bool \<Rightarrow> string option" where "bit_text b = Some (if b then ''1'' else ''0'')"

text \<open>\<open>str(int(sid)) if sid is not None else None\<close>; the outer \<open>None\<close> is the exception of \<open>int\<close>.\<close>

definition id_text :: "json \<Rightarrow> string option option" where
  "id_text v = (if v = J_Null then Some None else map_option (\<lambda>n. Some (str_int n)) (json_int v))"

subsection \<open>Sequences of writes that may raise\<close>

text \<open>
  A setter runs its writes in order and combines their results with \<open>&=\<close>; a write whose value
  cannot be computed raises there, after the earlier ones have been committed.
\<close>

type_synonym kv_write = "string \<times> string option option"

fun write_all :: "kv_write list \<Rightarrow> bool \<Rightarrow> settings \<Rightarrow> bool option \<times> settings" where
  "write_all [] ok st = (Some ok, st)"
| "write_all ((k, v) # ws) ok st =
     (case v of
        None \<Rightarrow> (None, st)
      | Some w \<Rightarrow> (let r = set_setting_value k w st in write_all ws (ok \<and> fst r) (snd r)))"

lemma write_all_up [simp]: "kv_up (snd (write_all ws ok st)) = kv_up st"
  by (induction ws ok st rule: write_all.induct) (simp_all add: Let_def split: option.split)

lemma write_all_True: "fst (write_all ws ok st) = Some True \<Longrightarrow> ok \<and> (ws \<noteq> [] \<longrightarrow> kv_up st)"
proof (induction ws arbitrary: ok st)
  case (Cons w ws)
  then show ?case by (cases w) (auto simp: Let_def split: option.splits dest: Cons.IH)
qed simp

subsection \<open>Rain sensor\<close>

record rain_cfg =
  rc_enabled :: bool
  rc_topic :: string
  rc_type :: string
  rc_server :: "int option"

definition sensor_type :: "string \<Rightarrow> string" where
  "sensor_type t = (if t \<in> {''NO'', ''NC''} then t else ''NO'')"

definition get_rain_config :: "settings \<Rightarrow> rain_cfg" where
  "get_rain_config st =
     \<lparr>rc_enabled = flag_setting (get_setting_value ''rain.enabled'' st),
      rc_topic = str_or [] (get_setting_value ''rain.topic'' st),
      rc_type = sensor_type (str_or ''NO'' (get_setting_value ''rain.type'' st)),
      rc_server = id_setting (get_setting_value ''rain.server_id'' st)\<rparr>"

record rain_req =
  rr_enabled :: bool
  rr_topic :: "string option"
  rr_type :: "string option"
  rr_server :: "json option"

definition opt_write :: "string \<Rightarrow> ('v \<Rightarrow> string option option) \<Rightarrow> 'v option \<Rightarrow> kv_write list" where
  "opt_write k f v = (case v of None \<Rightarrow> [] | Some x \<Rightarrow> [(k, f x)])"

definition set_rain_config :: "rain_req \<Rightarrow> settings \<Rightarrow> bool option \<times> settings" where
  "set_rain_config r st =
     write_all
       ([(''rain.enabled'', Some (bit_text (rr_enabled r)))]
        @ opt_write ''rain.topic'' (\<lambda>t. Some (Some t)) (rr_topic r)
        @ opt_write ''rain.type'' (\<lambda>t. Some (Some (sensor_type t))) (rr_type r)
        @ opt_write ''rain.server_id'' id_text (rr_server r)) True st"

subsection \<open>Master valve\<close>

record master_cfg =
  mc_enabled :: bool
  mc_topic :: string
  mc_server :: "int option"
  mc_delay_ms :: int

definition get_master_config :: "settings \<Rightarrow> master_cfg" where
  "get_master_config st =
     \<lparr>mc_enabled = flag_setting (get_setting_value ''master.enabled'' st),
      mc_topic = str_or [] (get_setting_value ''master.topic'' st),
      mc_server = id_setting (get_setting_value ''master.server_id'' st),
      mc_delay_ms = (case id_setting (get_setting_value ''master.delay_ms'' st) of None \<Rightarrow> 300 | Some n \<Rightarrow> n)\<rparr>"

record master_req =
  mr_enabled :: bool
  mr_topic :: "string option"
  mr_server :: "json option"
  mr_delay :: "json option"

definition falsy :: "json \<Rightarrow> bool" where
  "falsy v = (v \<in> {J_Null, J_Bool False, J_Int 0, J_Float 0, J_Str [], J_List [], J_Object []})"

text \<open>Here the setter catches the exception of \<open>int\<close> and answers \<open>False\<close>.\<close>

definition set_master_config :: "master_req \<Rightarrow> settings \<Rightarrow> bool \<times> settings" where
  "set_master_config r st =
     (let w = write_all
         ([(''master.enabled'', Some (bit_text (mr_enabled r)))]
          @ opt_write ''master.topic'' (\<lambda>t. Some (Some t)) (mr_topic r)
          @ opt_write ''master.server_id'' id_text (mr_server r)
          @ opt_write ''master.delay_ms'' (\<lambda>v. map_option (\<lambda>n. Some (str_int n)) (json_int (if falsy v then J_Int 300 else v))) (mr_delay r))
         True st
      in (case fst w of None \<Rightarrow> False | Some ok \<Rightarrow> ok, snd w))"

subsection \<open>Environment sensors\<close>

record sensor_cfg =
  sc_enabled :: bool
  sc_topic :: string
  sc_server :: "int option"

definition get_sensor_config :: "string \<Rightarrow> settings \<Rightarrow> sensor_cfg" where
  "get_sensor_config p st =
     \<lparr>sc_enabled = flag_setting (get_setting_value (p @ ''.enabled'') st),
      sc_topic = str_or [] (get_setting_value (p @ ''.topic'') st),
      sc_server = id_setting (get_setting_value (p @ ''.server_id'') st)\<rparr>"

definition get_env_config :: "settings \<Rightarrow> sensor_cfg \<times> sensor_cfg" where
  "get_env_config st = (get_sensor_config ''env.temp'' st, get_sensor_config ''env.hum'' st)"

record sensor_req =
  sr_enabled :: bool
  sr_topic :: string
  sr_server :: json

definition sensor_writes :: "string \<Rightarrow> sensor_req \<Rightarrow> kv_write list" where
  "sensor_writes p r =
     [(p @ ''.enabled'', Some (bit_text (sr_enabled r))), (p @ ''.topic'', Some (Some (sr_topic r))),
      (p @ ''.server_id'', id_text (sr_server r))]"

definition set_env_config :: "sensor_req \<Rightarrow> sensor_req \<Rightarrow> settings \<Rightarrow> bool option \<times> settings" where
  "set_env_config t h st = write_all (sensor_writes ''env.temp'' t @ sensor_writes ''env.hum'' h) True st"

subsection \<open>Passwords, early-off and logging\<close>

text \<open>\<open>secret\<close> is the token drawn by \<open>secrets.token_urlsafe\<close>, \<open>hash\<close> the password hash.\<close>

definition ensure_password_change_required :: "(string \<Rightarrow> string) \<Rightarrow> string \<Rightarrow> settings \<Rightarrow> settings" where
  "ensure_password_change_required hash secret st =
     (if \<not> kv_up st then st
      else if kv st ''password_hash'' = None
           then st\<lparr>kv := (kv st)(''password_hash'' \<mapsto> hash secret, ''password_must_change'' \<mapsto> ''1'')\<rparr>
           else if kv st ''password_must_change'' = None
                then st\<lparr>kv := (kv st)(''password_must_change'' \<mapsto> ''1'')\<rparr> else st)"

definition get_password_hash :: "settings \<Rightarrow> string option" where
  "get_password_hash st = (if kv_up st then kv st ''password_hash'' else None)"

definition set_password :: "(string \<Rightarrow> string) \<Rightarrow> string \<Rightarrow> settings \<Rightarrow> bool \<times> settings" where
  "set_password hash p st =
     (if kv_up st
      then (True, st\<lparr>kv := (kv st)(''password_hash'' \<mapsto> hash p, ''password_must_change'' \<mapsto> ''0'')\<rparr>)
      else (False, st))"

definition get_early_off_seconds :: "settings \<Rightarrow> int" where
  "get_early_off_seconds st =
     (if \<not> kv_up st then 3
      else case kv st ''early_off_seconds'' of
             None \<Rightarrow> 3
           | Some s \<Rightarrow> (case py_int s of None \<Rightarrow> 3 | Some v \<Rightarrow> clamp_early v))"

definition set_early_off_seconds :: "int \<Rightarrow> settings \<Rightarrow> bool \<times> settings" where
  "set_early_off_seconds n st = set_setting_value ''early_off_seconds'' (Some (str_int (clamp_early n))) st"

definition get_logging_debug :: "settings \<Rightarrow> bool" where
  "get_logging_debug st = flag_setting (get_setting_value ''logging.debug'' st)"

definition set_logging_debug :: "bool \<Rightarrow> settings \<Rightarrow> bool \<times> settings" where
  "set_logging_debug b st = set_setting_value ''logging.debug'' (bit_text b) st"

subsection \<open>What is written is read back\<close>

lemma strip_id: "list_all (\<lambda>c. \<not> is_ws c) s \<Longrightarrow> strip s = s"
proof -
  have "list_all (\<lambda>c. \<not> is_ws c) t \<Longrightarrow> dropWhile is_ws t = t" for t
    by (cases t) simp_all
  then show "list_all (\<lambda>c. \<not> is_ws c) s \<Longrightarrow> strip s = s" by (simp add: strip_def)
qed

lemma digits_no_ws: "is_digit_string s \<Longrightarrow> list_all (\<lambda>c. \<not> is_ws c) s"
  by (auto simp: is_digit_string_def list_all_iff digit_val_def is_ws_def Let_def)

lemma py_int_digits: "is_digit_string s \<Longrightarrow> py_int s = nat_of_digits s"
proof -
  assume d: "is_digit_string s"
  have "c \<noteq> CHR ''-''" "c \<noteq> CHR ''+''" if "c \<in> set s" for c
    using d that by (auto simp: is_digit_string_def list_all_iff digit_val_def)
  then show ?thesis using d strip_id [OF digits_no_ws [OF d]]
    by (cases s) (auto simp: py_int_def is_digit_string_def)
qed

lemma digit_string_nat: "is_digit_string (str_nat n)"
  by (auto simp: is_digit_string_def list_all_iff dest: digit_chars)

lemma py_int_str_int: "py_int (str_int n) = Some n"
proof (cases "n < 0")
  case True
  have "strip (CHR ''-'' # str_nat m) = CHR ''-'' # str_nat m" for m
    by (rule strip_id) (use digits_no_ws [OF digit_string_nat [of m]] in \<open>simp add: is_ws_def\<close>)
  then show ?thesis
    using True by (simp add: py_int_def str_int_def nat_of_digits_def digits_val_str_nat)
next
  case False
  then show ?thesis
    by (simp add: str_int_def py_int_digits [OF digit_string_nat] nat_of_digits_def digits_val_str_nat)
qed

lemma id_setting_str_int: "id_setting (Some (str_int n)) = (if 0 \<le> n then Some n else None)"
proof (cases "0 \<le> n")
  case True
  then have "is_digit_string (str_int n)" by (simp add: str_int_def digit_string_nat)
  then show ?thesis using True by (simp add: id_setting_def py_int_str_int)
next
  case False
  then have "\<not> is_digit_string (str_int n)" by (simp add: str_int_def is_digit_string_def digit_val_def)
  then show ?thesis using False by (simp add: id_setting_def)
qed

lemma flag_bit [simp]: "flag_setting (bit_text b) = b"
  by (simp add: flag_setting_def bit_text_def str_or_def)

definition json_id :: "json \<Rightarrow> int option" where
  "json_id v = (if v = J_Null then None else case json_int v of None \<Rightarrow> None | Some n \<Rightarrow> (if 0 \<le> n then Some n else None))"

lemma id_setting_text: "id_text v = Some w \<Longrightarrow> id_setting w = json_id v"
  by (auto simp: id_text_def json_id_def id_setting_str_int split: if_splits) (simp add: id_setting_def)

lemma str_or_type [simp]: "str_or ''NO'' (Some (sensor_type t)) = sensor_type t" "sensor_type (sensor_type t) = sensor_type t"
  by (auto simp: str_or_def sensor_type_def)

lemma str_or_Nil [simp]: "str_or [] (Some t) = t"
  by (simp add: str_or_def)

text \<open>
  The sensor configuration is read as it was written.  When storing a rain configuration succeeds, reading
  it gives the stored switch, topic and contact type (any word but \<open>NC\<close> counts as \<open>NO\<close>) and the server
  id, provided it is not negative; a key that the request did not carry keeps its stored value.
\<close>

theorem rain_config_roundtrip:
  assumes "fst (set_rain_config r st) = Some True"
  shows "get_rain_config (snd (set_rain_config r st)) =
    \<lparr>rc_enabled = rr_enabled r,
     rc_topic = (case rr_topic r of None \<Rightarrow> rc_topic (get_rain_config st) | Some t \<Rightarrow> t),
     rc_type = (case rr_type r of None \<Rightarrow> rc_type (get_rain_config st) | Some t \<Rightarrow> sensor_type t),
     rc_server = (case rr_server r of None \<Rightarrow> rc_server (get_rain_config st) | Some v \<Rightarrow> json_id v)\<rparr>"
proof -
  have "kv_up st" using write_all_True [OF assms [unfolded set_rain_config_def]] by simp
  then show ?thesis
    using assms
    by (cases "rr_topic r"; cases "rr_type r"; cases "rr_server r")
      (auto simp: set_rain_config_def get_rain_config_def opt_write_def id_setting_text Let_def split: option.splits)
qed

theorem rain_config_roundtrip_witness:
  "let st = \<lparr>kv = [''rain.topic'' \<mapsto> ''/rain''], kv_up = True\<rparr>;
       r = \<lparr>rr_enabled = True, rr_topic = None, rr_type = Some ''nc'', rr_server = Some (J_Str '' 12 '')\<rparr>
   in get_rain_config (snd (set_rain_config r st)) =
     \<lparr>rc_enabled = True, rc_topic = ''/rain'', rc_type = ''NO'', rc_server = Some 12\<rparr>"
proof -
  let ?st = "\<lparr>kv = [''rain.topic'' \<mapsto> ''/rain''], kv_up = True\<rparr>"
  let ?r = "\<lparr>rr_enabled = True, rr_topic = None, rr_type = Some ''nc'', rr_server = Some (J_Str '' 12 '')\<rparr>"
  have "fst (set_rain_config ?r ?st) = Some True" by code_simp
  moreover have "rc_topic (get_rain_config ?st) = ''/rain''" "sensor_type ''nc'' = ''NO''" "json_id (J_Str '' 12 '') = Some 12"
    by code_simp+
  ultimately show ?thesis using rain_config_roundtrip [of ?r ?st] by (simp add: Let_def)
qed

text \<open>The early-off seconds are always within their range, whatever the table holds.\<close>

theorem early_off_range:
  "0 \<le> get_early_off_seconds st \<and> get_early_off_seconds st \<le> 15
   \<and> (kv_up st \<longrightarrow> get_early_off_seconds (snd (set_early_off_seconds n st)) = clamp_early n)"
proof -
  have "clamp_early (clamp_early k) = clamp_early k" "0 \<le> clamp_early k" "clamp_early k \<le> 15" for k
    by (simp_all add: clamp_early_def)
  then show ?thesis
    by (auto simp: get_early_off_seconds_def set_early_off_seconds_def set_setting_value_def py_int_str_int split: option.splits)
qed

end
