(* ===== verification/Rain_Sensor.thy ===== *)
theory Rain_Sensor
  imports Settings
begin

text \<open>
  The rain sensor, \<open>src/services/monitors/rain_monitor.py\<close>, with the two requests of
  \<open>src/routes/system_config_api.py\<close> that concern postponed watering: the configuration of the sensor
  and \<open>/api/postpone\<close>.  The monitor object is the record \<open>rain_monitor\<close>; a message of the sensor is
  handled on it and on the state of the process.  Whether a broker can be reached when the monitor
  connects is the argument \<open>reach\<close>.
\<close>

subsection \<open>The groups that obey the sensor\<close>

definition get_group_use_rain :: "int \<Rightarrow> 'a db_scheme \<Rightarrow> bool" where
  "get_group_use_rain g d =
     (db_up d \<and> (case row_at gid (groups d) g of None \<Rightarrow> False | Some r \<Rightarrow> truthy_int (use_rain_sensor r)))"

definition set_group_use_rain :: "int \<Rightarrow> bool \<Rightarrow> 'a db_scheme \<Rightarrow> bool \<times> 'a db_scheme" where
  "set_group_use_rain g b d =
     (if db_up d
      then (True, d\<lparr>groups := upd_rows (\<lambda>r. gid r = g) (\<lambda>r. r\<lparr>use_rain_sensor := Some (if b then 1 else 0)\<rparr>) (groups d)\<rparr>)
      else (False, d))"

definition rain_groups :: "'a db_scheme \<Rightarrow> int list" where
  "rain_groups d = filter (\<lambda>g. get_group_use_rain g d \<and> g \<noteq> 999) (map gid (get_groups d))"

subsection \<open>The monitor\<close>

record rain_monitor =
  rm_topic :: "string option"
  rm_server_id :: "int option"
  is_rain :: "bool option"
  rm_cfg :: "rain_cfg option"
  rm_connected :: bool

definition new_rain_monitor :: rain_monitor where
  "new_rain_monitor = \<lparr>rm_topic = None, rm_server_id = None, is_rain = None, rm_cfg = None, rm_connected = False\<rparr>"

definition rain_stop :: "rain_monitor \<Rightarrow> rain_monitor" where
  "rain_stop m = m\<lparr>rm_connected := False\<rparr>"

definition rain_start :: "(int \<Rightarrow> bool) \<Rightarrow> rain_cfg \<Rightarrow> 'a db_scheme \<Rightarrow> rain_monitor \<Rightarrow> rain_monitor" where
  "rain_start reach c d m =
     (let t = strip (rc_topic c)
      in if \<not> rc_enabled c \<or> t = [] \<or> \<not> truthy_int (rc_server c) then m
         else (let sid = int_or0 (rc_server c);
                   m1 = m\<lparr>rm_cfg := Some c, rm_topic := Some t, rm_server_id := Some sid\<rparr>
               in if get_mqtt_server d sid = None \<or> \<not> reach sid then m1 else m1\<lparr>rm_connected := True\<rparr>))"

definition start_rain_monitor :: "(int \<Rightarrow> bool) \<Rightarrow> settings \<Rightarrow> 'a db_scheme \<Rightarrow> rain_monitor \<Rightarrow> rain_monitor" where
  "start_rain_monitor reach st d m =
     (let c = get_rain_config st in if rc_enabled c then rain_start reach c d m else m)"

text \<open>The state of the sensor as \<open>services/weather/merge.py\<close> reads it.\<close>

definition get_rain_state :: "rain_monitor \<Rightarrow> bool \<times> bool option" where
  "get_rain_state m = ((case rm_cfg m of None \<Rightarrow> False | Some c \<Rightarrow> rc_enabled c), is_rain m)"

subsection \<open>Rain begins and ends\<close>

definition end_of_day :: "int \<Rightarrow> string" where
  "end_of_day day = date_text day @ '' 23:59:59''"

definition stop_for_rain :: "int \<Rightarrow> 'a sched_scheme \<Rightarrow> 'a sched_scheme" where
  "stop_for_rain g s = stop_all_in_group g ''rain'' True True False (now_of s) (mono_of s) (wall_of s) s"

definition postpone_zone :: "string option \<Rightarrow> string option \<Rightarrow> zone \<Rightarrow> 'a db_scheme \<Rightarrow> 'a db_scheme" where
  "postpone_zone until reason z d = snd (update_zone_postpone (zid z) until reason d)"

definition on_rain_start :: "'a sched_scheme \<Rightarrow> 'a sched_scheme" where
  "on_rain_start s =
     (let gs = rain_groups s in
      if gs = [] then s
      else
        (let s1 = fold stop_for_rain gs s;
             s2 = fold (postpone_zone (Some (end_of_day (day_of (now_of s1)))) (Some ''rain''))
                    (filter (\<lambda>z. zone_gid z \<in> set gs) (get_zones s1)) s1
         in add_log ''rain_postpone'' gs s2))"

definition on_rain_stop :: "'a sched_scheme \<Rightarrow> 'a sched_scheme" where
  "on_rain_stop s =
     (let gs = rain_groups s in
      if gs = [] then s
      else
        (let s1 = fold (postpone_zone None None)
                    (filter (\<lambda>z. zone_gid z \<in> set gs \<and> postpone_reason z = Some ''rain'') (get_zones s)) s;
             s2 = fold (\<lambda>g s. snd (clear_program_cancellations_for_group_on_date g (day_of (now_of s)) s)) gs s1
         in add_log ''rain_resume'' gs s2))"

definition rain_signal :: "string \<Rightarrow> bool option" where
  "rain_signal payload =
     (let p = lower (strip payload) in
      if p \<in> {''1'', ''true'', ''rain'', ''yes'', ''on''} then Some True
      else if p \<in> {''0'', ''false'', ''no_rain'', ''no'', ''off''} then Some False
      else None)"

text \<open>A normally closed contact inverts the signal.\<close>

definition inverted :: "settings \<Rightarrow> rain_monitor \<Rightarrow> bool" where
  "inverted st m =
     (let own = (case rm_cfg m of None \<Rightarrow> [] | Some c \<Rightarrow> rc_type c);
          ty = (if own = [] then rc_type (get_rain_config st) else own)
      in upper (if ty = [] then ''NO'' else ty) = ''NC'')"

definition handle_payload :: "settings \<Rightarrow> string \<Rightarrow> rain_monitor \<Rightarrow> 'a sched_scheme \<Rightarrow> rain_monitor \<times> 'a sched_scheme" where
  "handle_payload st payload m s =
     (case rain_signal payload of
        None \<Rightarrow> (m, s)
      | Some v \<Rightarrow>
          (let raining = (if inverted st m then \<not> v else v)
           in (m\<lparr>is_rain := Some raining\<rparr>, if raining then on_rain_start s else on_rain_stop s)))"

subsection \<open>Requests\<close>

text \<open>
  The body of \<open>POST /api/rain\<close> once its values are read.  The sensor type of any other value is
  \<open>NO\<close>.  The outcome is \<open>None\<close> when \<open>int\<close> of the server id raises, which no handler catches.
\<close>

definition rain_config_api :: "bool \<Rightarrow> string \<Rightarrow> string \<Rightarrow> json \<Rightarrow> settings \<Rightarrow> 'a db_scheme \<Rightarrow> reply \<times> settings \<times> 'a db_scheme" where
  "rain_config_api on tp ty sid st d =
     (let t = strip tp in
      if on \<and> t = [] then (Failure 400, st, d)
      else
        (let r = set_rain_config \<lparr>rr_enabled = on, rr_topic = Some t, rr_type = Some (sensor_type ty), rr_server = Some sid\<rparr> st
         in case fst r of
              None \<Rightarrow> (Failure 500, snd r, d)
            | Some ok \<Rightarrow>
                (if \<not> ok then (Failure 200, snd r, d)
                 else (Success Plain, snd r,
                   if on then fold (\<lambda>g d. snd (set_group_use_rain g True d)) (filter (\<lambda>g. g \<noteq> 999) (map gid (get_groups d))) d
                   else d))))"

text \<open>
  \<open>POST /api/postpone\<close>.  A date that Python cannot represent raises \<open>OverflowError\<close>, a \<open>days\<close> that
  is no number \<open>TypeError\<close>; neither is caught.  Of the exceptions of the cancellation only a
  \<open>ValueError\<close> is.
\<close>

fun json_days :: "json \<Rightarrow> rat option" where
  "json_days (J_Int n) = Some (of_int n)"
| "json_days (J_Bool b) = Some (if b then 1 else 0)"
| "json_days (J_Float q) = Some q"
| "json_days j = None"

definition postponed_day :: "time \<Rightarrow> rat \<Rightarrow> int" where
  "postponed_day now days = \<lfloor>of_int (day_of now) + of_int (now mod 86400) / 86400 + days\<rfloor>"

definition turn_off_postponed :: "zone \<Rightarrow> 'a sched_scheme \<Rightarrow> 'a sched_scheme" where
  "turn_off_postponed z s =
     (if zstate z = ''on'' \<or> watering_start_time z \<noteq> None
      then (let s1 = uzs (zid z) [U_state ''off'', U_wstart None] ''postpone_action'' s;
                t = strip (topic z)
            in if truthy_int (mqtt_server_id z) \<and> t \<noteq> []
               then (case get_mqtt_server s1 (int_or0 (mqtt_server_id z)) of
                       None \<Rightarrow> s1
                     | Some srv \<Rightarrow> snd (publish_mqtt_value (server_id srv) (normalize_topic t) ''0'' s1))
               else s1)
      else s)"

definition postpone_api :: "body \<Rightarrow> 'a sched_scheme \<Rightarrow> reply \<times> 'a sched_scheme" where
  "postpone_api b s =
     (case json_int (field ''group_id'' b) of
        None \<Rightarrow> (Failure 400, s)
      | Some g \<Rightarrow>
          (let zs = filter (\<lambda>z. zone_gid z = g) (get_zones s) in
           if field ''action'' b = J_Str ''cancel''
           then (Success Plain, add_log ''postpone_cancel'' [g] (fold (postpone_zone None None) zs s))
           else if field ''action'' b = J_Str ''postpone''
           then (case json_days (if map_of b ''days'' = None then J_Int 1 else field ''days'' b) of
                   None \<Rightarrow> (Failure 500, s)
                 | Some days \<Rightarrow>
                     (let day = postponed_day (now_of s) days in
                      if year_of day < 1 \<or> 9999 < year_of day then (Failure 500, s)
                      else
                        (let s1 = fold (postpone_zone (Some (end_of_day day)) (Some ''manual'')) zs s;
                             s2 = fold turn_off_postponed zs s1;
                             c = cancel_group_jobs g False s2
                         in if fst c = Some Type_Error then (Failure 500, snd c)
                            else (Success Plain, add_log ''postpone_set'' [g, day] (snd c)))))
           else (Failure 400, s)))"

end
