(* ===== verification/Access_Laws.thy ===== *)
theory Access_Laws
  imports Http_Laws
begin

text \<open>
  The master valve opened and closed by hand, and who may call which handler.
\<close>

subsection \<open>The master valve\<close>

lemma publish_value_acked:
  "fst (publish_mqtt_value srv t v w) \<Longrightarrow>
     sent (snd (publish_mqtt_value srv t v w))
       = sent w @ [\<lparr>ms_server = srv, ms_topic = normalize_topic t, ms_value = v\<rparr>,
                   \<lparr>ms_server = srv, ms_topic = normalize_topic t @ ''/on'', ms_value = v\<rparr>]
     \<and> broker w (length (sent w)) \<and> broker w (Suc (length (sent w)))"
  by (auto simp: publish_mqtt_value_def send_def Let_def split: if_splits)

lemma observed_set:
  "db_up d \<Longrightarrow> row_at gid (groups d) g = Some row \<Longrightarrow>
     map_option master_valve_observed (row_at gid (groups (set_observed g v d)) g) = Some (Some v)"
  by (simp add: set_observed_def update_group_fields_def group_rows.row_at_upd_key [of g "G_observed (Some v)"])

text \<open>
  C8: a master valve is closed by hand only when nothing waters through it.  While some zone, of this
  or of any other group with a master valve whose topic is the same once normalised, is on, a request to
  close it fails, changes nothing and publishes nothing.  A request that succeeds sent the value of the
  valve's type to the server of the group's row, on the base topic and on its \<open>/on\<close> topic, had both
  acknowledged, and is recorded for the group.
\<close>

theorem master_valve_request_safe:
  fixes s :: "'a app_scheme" and a t :: string
  assumes "row_at gid (get_groups s) g = Some row"
  defines "t \<equiv> normalize_topic (strip (master_mqtt_topic row))" and "opening \<equiv> lower a = ''open''"
    and "watering \<equiv> \<exists>h \<in> set (groups s). \<exists>z \<in> set (zones s).
      use_master_valve h = 1 \<and> strip (master_mqtt_topic h) \<noteq> [] \<and> normalize_topic (strip (master_mqtt_topic h)) = t \<and>
      group_id z = Some (gid h) \<and> lower (zstate z) = ''on''"
  shows "(\<not> opening \<and> watering \<longrightarrow> (\<exists>st. fst (master_valve_api g a s) = Failure st) \<and> snd (master_valve_api g a s) = s)
    \<and> (\<forall>d. fst (master_valve_api g a s) = Success d \<longrightarrow>
        (let s' = snd (master_valve_api g a s); v = (if opening then open_value row else close_value row) in
         (opening \<or> \<not> watering)
         \<and> (\<exists>srv. get_mqtt_server s (int_or0 (master_mqtt_server_id row)) = Some srv
              \<and> sent s' = sent s @ [\<lparr>ms_server = server_id srv, ms_topic = normalize_topic t, ms_value = v\<rparr>,
                                 \<lparr>ms_server = server_id srv, ms_topic = normalize_topic t @ ''/on'', ms_value = v\<rparr>])
         \<and> broker s (length (sent s)) \<and> broker s (Suc (length (sent s)))
         \<and> map_option master_valve_observed (row_at gid (groups s') g) = Some (Some (if opening then ''open'' else ''closed''))))"
proof -
  have tt: "t = normalize_topic (master_topic row)" by (simp add: t_def master_topic_def)
  have up: "db_up s" using assms(1) by (auto simp: get_groups_def split: if_splits)
  then have fed: "fed_zone_on s t = watering"
    by (auto simp: fed_zone_on_def watering_def list_ex_iff get_groups_def get_zones_by_group_def master_topic_def)
  show ?thesis
  proof (intro conjI impI allI)
    assume "\<not> opening \<and> watering"
    then have "\<not> opening \<and> fed_zone_on s t" by (simp add: fed)
    then show "\<exists>st. fst (master_valve_api g a s) = Failure st" "snd (master_valve_api g a s) = s"
      using assms(1) by (auto simp: master_valve_api_def opening_def tt Let_def split: option.splits)
  next
    fix d
    assume ok: "fst (master_valve_api g a s) = Success d"
    let ?v = "if opening then open_value row else close_value row" and ?o = "if opening then ''open'' else ''closed''"
    obtain srv where srv: "get_mqtt_server s (int_or0 (master_mqtt_server_id row)) = Some srv"
      and go: "opening \<or> \<not> fed_zone_on s t" and ack: "fst (publish_mqtt_value (server_id srv) t ?v s)"
      using ok assms(1) by (auto simp: master_valve_api_def opening_def tt Let_def split: option.splits if_splits)
    let ?p = "snd (publish_mqtt_value (server_id srv) t ?v s)"
    let ?s1 = "set_observed g ?o ?p"
    have eq: "snd (master_valve_api g a s) = (if opening then schedule_master_valve_cap g 24 ?s1 else cancel_master_valve_cap g ?s1)"
      using ok assms(1) srv go ack
      by (auto simp: master_valve_api_def opening_def [symmetric] tt [symmetric] Let_def split: if_splits)
    have row: "row_at gid (groups ?p) g = Some row" "db_up ?p"
      using assms(1) by (auto simp: get_groups_def frame_simps split: if_splits)
    have same: "sent (snd (master_valve_api g a s)) = sent ?p" "groups (snd (master_valve_api g a s)) = groups ?s1"
      by (simp_all add: eq schedule_master_valve_cap_def cancel_master_valve_cap_def remove_job_def add_job_def)
    have pub: "sent ?p = sent s @ [\<lparr>ms_server = server_id srv, ms_topic = normalize_topic t, ms_value = ?v\<rparr>,
        \<lparr>ms_server = server_id srv, ms_topic = normalize_topic t @ ''/on'', ms_value = ?v\<rparr>]"
      "broker s (length (sent s))" "broker s (Suc (length (sent s)))"
      using publish_value_acked [OF ack] by blast+
    show "let s' = snd (master_valve_api g a s); v = ?v in
         (opening \<or> \<not> watering)
         \<and> (\<exists>srv. get_mqtt_server s (int_or0 (master_mqtt_server_id row)) = Some srv
              \<and> sent s' = sent s @ [\<lparr>ms_server = server_id srv, ms_topic = normalize_topic t, ms_value = v\<rparr>,
                                 \<lparr>ms_server = server_id srv, ms_topic = normalize_topic t @ ''/on'', ms_value = v\<rparr>])
         \<and> broker s (length (sent s)) \<and> broker s (Suc (length (sent s)))
         \<and> map_option master_valve_observed (row_at gid (groups s') g) = Some (Some ?o)"
      unfolding Let_def same
    proof (intro conjI)
      show "opening \<or> \<not> watering" using go by (simp add: fed)
      show "map_option master_valve_observed (row_at gid (groups ?s1) g) = Some (Some ?o)"
        by (rule observed_set [OF row(2,1)])
    qed (use srv pub in blast)+
  qed
qed

text \<open>Zone 1 waters through the valve, so closing it is refused.\<close>

theorem master_valve_request_safe_witness:
  "snd (master_valve_api 1 ''close'' demo_app) = demo_app"
proof -
  have z: "zones demo_app = [demo_zone 1 ''on'', demo_zone 2 ''off'']" "groups demo_app = [demo_group 1]"
    by simp_all
  have g: "gid (demo_group 1) = 1" "use_master_valve (demo_group 1) = 1" "strip (master_mqtt_topic (demo_group 1)) \<noteq> []"
    by (simp_all add: demo_group_def strip_def is_ws_def)
  have row: "row_at gid (get_groups demo_app) 1 = Some (demo_group 1)" by (simp add: get_groups_def g)
  have l: "lower ''close'' \<noteq> ''open''" "lower ''on'' = ''on''" by (simp_all add: lower_def lower_char_def Let_def)
  have "\<exists>h \<in> set (groups demo_app). \<exists>z \<in> set (zones demo_app).
      use_master_valve h = 1 \<and> strip (master_mqtt_topic h) \<noteq> [] \<and>
      normalize_topic (strip (master_mqtt_topic h)) = normalize_topic (strip (master_mqtt_topic (demo_group 1))) \<and>
      group_id z = Some (gid h) \<and> lower (zstate z) = ''on''"
    unfolding z by (rule bexI [of _ "demo_group 1"], rule bexI [of _ "demo_zone 1 ''on''"]) (simp_all add: g l)
  then show ?thesis using master_valve_request_safe [OF row, of "''close''"] l(1) by blast
qed

subsection \<open>Who may call\<close>

text \<open>
  Who may change what.  A request to the API that is not a GET passes both guards exactly when it
  comes from an administrator (who must change a default password first), or from a guest and names
  one of the public actions; a viewer may only log in.  The second guard refuses nothing the first
  lets pass.
\<close>

theorem guards_exact:
  assumes "api_path p" "m \<noteq> GET"
  shows "(guarded r must_change m p = None \<longleftrightarrow>
      (case r of
         Admin \<Rightarrow> \<not> mutating m \<or> \<not> must_change \<or> p = ''/api/password''
       | Guest \<Rightarrow> is_status_action p
       | Viewer \<Rightarrow> if mutating m then p = ''/api/login'' else is_status_action p))
    \<and> guarded r must_change m p = auth_before_request r must_change m p"
proof -
  have no_static: "\<not> starts_with ''/static/'' p" using assms(1) by (auto simp: api_path_def split: list.splits)
  have login: "is_status_action ''/api/login''" by (simp add: is_status_action_def public_posts_def)
  show ?thesis
    using assms no_static login
    by (cases r) (auto simp: guarded_def auth_before_request_def require_admin_for_mutations_def split: option.splits)
qed

theorem guards_exact_witness:
  "guarded Guest False POST ''/api/zones/7/start'' = None \<and> guarded Guest False DELETE ''/api/zones/7'' = Some 401"
proof -
  have a: "api_path ''/api/zones/7/start''" "is_status_action ''/api/zones/7/start''" "api_path ''/api/zones/7''"
    "\<not> is_status_action ''/api/zones/7''" "\<not> starts_with ''/static/'' ''/api/zones/7''"
    by (simp_all add: api_path_def is_status_action_def public_posts_def public_pattern_def all_digits_def digit_val_def Let_def)
  show ?thesis
    using guards_exact [OF a(1), of POST Guest False] guards_exact [OF a(3), of DELETE Guest False] a
    by (simp add: auth_before_request_def)
qed

end
