(* ===== verification/Column_Frames.thy ===== *)
theory Column_Frames
  imports Access_Laws
begin

text \<open>
  What stopping leaves alone.  Stopping a zone, stopping a group and cancelling a group's session
  write a few run-time columns only; the interface \<open>quiet_column\<close> says what a property of a zone row
  must satisfy to survive them, and its interpretation gives the survival for the postponement.
\<close>

definition column_at :: "(zone \<Rightarrow> 'v) \<Rightarrow> 'a db_scheme \<Rightarrow> int \<Rightarrow> 'v option" where
  "column_at h d j = map_option h (get_zone d j)"

lemma column_at_zview: "zview d = zview d' \<Longrightarrow> column_at h d = column_at h d'"
  by (rule ext) (simp add: column_at_def get_zone_def zview_def)

lemma column_at_fold:
  assumes "\<And>x s. column_at h (f x s) = column_at h s"
  shows "column_at h (fold f xs s) = column_at h s"
  by (induction xs arbitrary: s) (simp_all add: assms)

fun stop_column :: "zone_upd \<Rightarrow> bool" where
  "stop_column (U_state v) = True"
| "stop_column (U_commanded v) = True"
| "stop_column (U_wstart v) = True"
| "stop_column (U_planned v) = True"
| "stop_column (U_flow v) = True"
| "stop_column (U_liters v) = True"
| "stop_column (U_sched v) = True"
| "stop_column u = False"

locale quiet_column =
  fixes h :: "zone \<Rightarrow> 'v"
  assumes quiet_col: "stop_column u \<Longrightarrow> h (set_col u z) = h z"
    and quiet_topic: "h (z\<lparr>topic := t\<rparr>) = h z"
    and quiet_version: "h (z\<lparr>version := v\<rparr>) = h z"
begin

lemma cols: "list_all stop_column us \<Longrightarrow> h (set_cols us z) = h z"
  unfolding set_cols_def by (induction us arbitrary: z) (simp_all add: quiet_col)

lemma rows: "list_all stop_column us \<Longrightarrow> column_at h (d\<lparr>zones := upd_rows P (set_cols us) (zones d)\<rparr>) = column_at h d"
  by (rule ext) (auto simp: column_at_def get_zone_def zcols.row_at_upd_rows option.map_comp comp_def cols
      simp del: set_cols_simps intro!: option.map_cong)

lemma update_zone: "list_all stop_column us \<Longrightarrow> column_at h (update_zone i us d) = column_at h d"
  by (rule ext) (auto simp: column_at_def get_zone_update_zone plain_write_def Let_def quiet_topic cols list_all_filterI
      option.map_comp comp_def simp del: set_cols_simps)

lemma uzs: "list_all stop_column us \<Longrightarrow> real_cols us \<Longrightarrow> column_at h (uzs i us r w) = column_at h w"
  by (rule ext) (simp add: column_at_def get_zone_uzs versioned_write_def quiet_version cols option.map_comp comp_def
      del: set_cols_simps)

lemma water_stats: "column_at h (water_stats i g since now mn wall w) = column_at h w"
proof -
  have "list_all stop_column ((case snd st of None \<Rightarrow> [] | Some f \<Rightarrow> [U_flow (Some f)]) @
    (case fst st of None \<Rightarrow> [] | Some l \<Rightarrow> [U_liters (Some l)]))" for st :: "rat option \<times> rat option"
    by (cases "fst st"; cases "snd st"; simp)
  then have "column_at h (store_stats i st u) = column_at h u" for st and u :: "'a world_scheme"
    by (simp add: store_stats_def Let_def update_zone)
  moreover have "zview (snd (finish_open_run i g now mn wall w)) = zview w"
    by (simp add: finish_open_run_def finish_zone_run_def zview_def Let_def split: option.splits)
  note column_at_zview [OF this, of h]
  ultimately show ?thesis by (simp add: water_stats_def Let_def)
qed

lemma stop_zone [simp]: "column_at h (snd (stop_zone i reason force imm skip now mn wall w)) = column_at h w"
proof (cases "get_zone w i")
  case None
  then show ?thesis by (simp add: stop_zone_def)
next
  case (Some z)
  have v: "column_at h (plan_master_close g imm skip u) = column_at h u" "column_at h (switch_off z imm skip u) = column_at h u"
    "column_at h (emit_event wall ty k u) = column_at h u" "column_at h (add_log ty is u) = column_at h u"
    for g u ty k "is" by (rule column_at_zview, simp)+
  show ?thesis
    using Some by (simp add: stop_zone_split full_stop_def stop_already_off_def Let_def v water_stats uzs real_cols_def)
qed

lemma stop_group [simp]: "column_at h (stop_all_in_group g reason force imm skip now mn wall w) = column_at h w"
  unfolding stop_all_in_group_def by (rule column_at_fold) simp

lemma cancel_group [simp]: "column_at h (snd (cancel_group_jobs g imm s)) = column_at h s"
proof -
  have st: "column_at h (clear_group_scheduled_starts g d) = column_at h d"
    "column_at h (set_group_scheduled_starts g sched d) = column_at h d" for d :: "'b db_scheme" and sched
  proof -
    show c: "column_at h (clear_group_scheduled_starts g d) = column_at h d" for d :: "'b db_scheme"
      by (simp add: clear_group_scheduled_starts_def rows del: set_cols_simps)
    show "column_at h (set_group_scheduled_starts g sched d) = column_at h d"
      by (induction g sched d rule: set_group_scheduled_starts.induct) (simp_all add: rows del: set_cols_simps)
  qed
  have next_program: "column_at h (snd (reschedule_group_to_next_program g ps now d)) = column_at h d" for ps now and d :: "'b db_scheme"
    by (simp add: reschedule_group_to_next_program_def st split: sum.splits)
  have "column_at h (group_cleared g imm s) = column_at h s"
  proof -
    have "column_at h (group_cleared g imm s) = column_at h (group_stopped g imm (set_cancelled g s))"
      by (rule column_at_zview) (simp add: group_cleared_def fold_cancel_fields Let_def)
    also have "\<dots> = column_at h (set_cancelled g s)" by (simp add: group_stopped_def)
    also have "\<dots> = column_at h s" by (rule column_at_zview) simp
    finally show ?thesis .
  qed
  then show ?thesis by (simp add: cancel_group_cleared Let_def next_program)
qed

end

interpretation postponement: quiet_column "\<lambda>z. (postpone_until z, postpone_reason z)"
proof
  show "stop_column u \<Longrightarrow> (postpone_until (set_col u z), postpone_reason (set_col u z)) = (postpone_until z, postpone_reason z)"
    for u z by (cases u) simp_all
qed simp_all

end
