(* ===== verification/Rain_Laws.thy ===== *)
theory Rain_Laws
  imports Rain_Sensor Column_Frames
begin

text \<open>
  What the rain sensor and the postponement request achieve: valves closed and zones postponed
  to the end of the day, programs passing over postponed zones, and the end of the rain giving
  back exactly what the rain had taken.
\<close>

subsection \<open>Postponing a set of zones\<close>

abbreviation postponed :: "string option \<Rightarrow> string option \<Rightarrow> zone \<Rightarrow> zone" where
  "postponed u r \<equiv> set_cols [U_postpone u, U_preason r]"

lemma get_zone_postpone:
  "get_zone (postpone_zone u r z d) j = (if j = zid z then map_option (postponed u r) (get_zone d j) else get_zone d j)"
  by (auto simp: postpone_zone_def update_zone_postpone_def get_zone_def put_zone_def zcols.row_at_upd_key
      simp del: set_cols_simps)

interpretation postponing: idem_op "\<lambda>_. True" get_zone zid "postpone_zone u r" "\<lambda>_. postponed u r" for u r
  by unfold_locales (auto simp: get_zone_postpone)

lemma get_zone_postpone_all:
  "get_zone (fold (postpone_zone u r) zs d) j =
     (if j \<in> zid ` set zs then map_option (postponed u r) (get_zone d j) else get_zone d j)"
  by (simp add: postponing.val_fold_idem split: option.split)
    (metis image_iff not_Some_eq option.distinct(1) row_at_None_iff)

lemma postpone_zone_frame [simp]:
  "zstate_at (postpone_zone u r z d) = zstate_at d" "zgroups (postpone_zone u r z d) = zgroups d"
  "db_up (postpone_zone u r z d) = db_up d"
  by (simp_all add: postpone_zone_def)
    (simp_all add: update_zone_postpone_def put_zone_def zgroups_upd_rows)

lemma postpone_all_frame [simp]:
  "zstate_at (fold (postpone_zone u r) zs d) = zstate_at d" "zgroups (fold (postpone_zone u r) zs d) = zgroups d"
  by (induction zs arbitrary: d) simp_all

lemma postponed_cols [simp]:
  "postpone_until (postponed u r z) = u" "postpone_reason (postponed u r z) = r"
  by (simp_all add: set_cols_def)

lemma more_postpone_all [simp]: "world.more (fold (postpone_zone u r) zs w) = world.more w"
  by (rule more_fold) (simp add: postpone_zone_def keeps_sched)

subsection \<open>Rain begins\<close>

lemma stop_for_rain_frame [simp]:
  "zgroups (stop_for_rain g s) = zgroups s" "world.more (stop_for_rain g s) = world.more s"
  by (simp_all add: stop_for_rain_def keeps_sched)

lemma stop_for_rain_all_frame [simp]:
  "zgroups (fold stop_for_rain gs s) = zgroups s" "world.more (fold stop_for_rain gs s) = world.more s"
  by (induction gs arbitrary: s) simp_all

lemma zstate_at_rain_stop:
  "zstate_at (stop_for_rain g s) j = (if j \<in> group_members s g then map_option (\<lambda>_. ''off'') (zstate_at s j) else zstate_at s j)"
  by (simp add: stop_for_rain_def zstate_at_forced_group group_members_eq)

lemma zstate_at_stop_for_rain:
  "zstate_at (fold stop_for_rain gs s) j =
     (if \<exists>g \<in> set gs. j \<in> group_members s g then map_option (\<lambda>_. ''off'') (zstate_at s j) else zstate_at s j)"
proof (induction gs arbitrary: s)
  case (Cons g gs)
  have "group_members (stop_for_rain g s) = group_members s" by (rule group_members_cong) simp
  then show ?case
    by (auto simp: Cons zstate_at_rain_stop option.map_comp comp_def)
qed simp

lemma get_zone_in_zones: "get_zone d j = Some z \<Longrightarrow> z \<in> set (get_zones d) \<and> zid z = j"
  by (auto simp: get_zone_def get_zones_def row_at_mem row_at_key split: if_splits)

lemma member_of_group: "get_zone d j = Some z \<Longrightarrow> group_id z = Some g \<Longrightarrow> j \<in> group_members d g"
  by (auto simp: group_members_eq [symmetric] get_zones_by_group_def get_zone_def row_at_mem row_at_key
      intro!: rev_image_eqI split: if_splits)

lemma now_of_stop_for_rain [simp]: "now_of (fold stop_for_rain gs s) = now_of s"
  by (rule more_now_of) simp

lemma get_zone_add_log [simp]: "get_zone (add_log ty is d) = get_zone d"
  by (rule get_zone_cong) (simp_all add: add_log_def)

lemma rain_start_effect:
  assumes "get_zone s j = Some z" "group_id z = Some g" "g \<in> set (rain_groups s)"
  shows "zstate_at (on_rain_start s) j = Some ''off''
    \<and> map_option (\<lambda>z. (postpone_until z, postpone_reason z)) (get_zone (on_rain_start s) j)
      = Some (Some (end_of_day (day_of (now_of s))), Some ''rain'')"
proof -
  define s1 where "s1 = fold stop_for_rain (rain_groups s) s"
  define zs where "zs = filter (\<lambda>z. zone_gid z \<in> set (rain_groups s)) (get_zones s1)"
  have eq: "on_rain_start s = add_log ''rain_postpone'' (rain_groups s)
      (fold (postpone_zone (Some (end_of_day (day_of (now_of s)))) (Some ''rain'')) zs s1)"
    using assms(3) by (cases "rain_groups s = []") (simp_all add: on_rain_start_def Let_def s1_def zs_def)
  have "gid_at s1 j = gid_at s j" by (rule fun_cong [OF gid_at_cong]) (simp add: s1_def)
  then obtain z1 where z1: "get_zone s1 j = Some z1" "zone_gid z1 = g"
    using assms(1,2) by (auto simp: gid_at_def zone_gid_def)
  have "j \<in> zid ` set zs"
    using get_zone_in_zones [OF z1(1)] z1(2) assms(3) by (auto simp: zs_def)
  moreover have "zstate_at s1 j = Some ''off''"
    using assms member_of_group [OF assms(1,2)] by (auto simp: s1_def zstate_at_stop_for_rain) (auto simp: zstate_at_def)
  ultimately show ?thesis
    using z1(1) by (simp add: eq get_zone_postpone_all del: set_cols_simps)
qed

definition wet :: "settings \<Rightarrow> string \<Rightarrow> rain_monitor \<Rightarrow> bool" where
  "wet st payload m = (rain_signal payload = Some (\<not> inverted st m))"

text \<open>
  C19: rain closes the valves and keeps them closed.  When the sensor reports rain (its contact
  type taken into account), every zone of every group that obeys the sensor is off, whatever state
  it was in and whether or not its relay could be reached, and is postponed to the last second of
  the day, with the reason \<open>rain\<close>.
\<close>

theorem rain_stops_and_postpones:
  assumes "wet st payload m" "get_zone s j = Some z" "group_id z = Some g" "g \<in> set (rain_groups s)"
  defines "s' \<equiv> snd (handle_payload st payload m s)"
  shows "zstate_at s' j = Some ''off''
    \<and> map_option (\<lambda>z. (postpone_until z, postpone_reason z)) (get_zone s' j)
      = Some (Some (end_of_day (day_of (now_of s))), Some ''rain'')
    \<and> is_rain (fst (handle_payload st payload m s)) = Some True"
  using assms(1) rain_start_effect [OF assms(2-4)]
  by (cases "inverted st m") (simp_all add: s'_def handle_payload_def wet_def)

definition plain_settings :: settings where
  "plain_settings = \<lparr>kv = (\<lambda>_. None), kv_up = True\<rparr>"

theorem rain_stops_and_postpones_witness:
  "zstate_at (snd (handle_payload plain_settings '' Rain '' new_rain_monitor (fresh_sched demo_world))) 1 = Some ''off''"
proof -
  have "wet plain_settings '' Rain '' new_rain_monitor" by code_simp
  moreover have "get_zone (fresh_sched demo_world) 1 = Some (demo_zone 1 ''on'')"
    "1 \<in> set (rain_groups (fresh_sched demo_world))"
    by (simp_all add: demo_facts get_zone_def rain_groups_def get_group_use_rain_def get_groups_def demo_group_def)
  ultimately show ?thesis
    using rain_stops_and_postpones [of plain_settings "'' Rain ''" new_rain_monitor "fresh_sched demo_world" 1 "demo_zone 1 ''on''" 1]
    by simp
qed

subsection \<open>Programs pass over postponed zones\<close>

lemma parse_end_of_day:
  assumes "1000 \<le> year_of day" "year_of day \<le> 9999"
  shows "parse_dt (Some (end_of_day day)) = Some (86400 * day + 86399)"
proof -
  have "clock_text 86399 = ''23:59:59''" by code_simp
  then have "end_of_day day = time_text (86400 * day + 86399)"
    by (simp add: end_of_day_def time_text_def day_of_def)
  then show ?thesis
    using parse_dt_time_text_lemma [of "86400 * day + 86399"] assms by (simp add: day_of_def)
qed

text \<open>
  A postponement holds.  A zone postponed to the end of a day is not watered by a program that
  reaches it before the last second of that day, started by hand or not: the turn of the zone changes
  no zone, publishes nothing, opens no run and does not end the program.
\<close>

theorem postponed_zone_is_passed_over:
  assumes "get_zone s i = Some z" "postpone_until z = Some (end_of_day day)"
    "1000 \<le> year_of day" "year_of day \<le> 9999" "now_of s < 86400 * day + 86399"
  shows "\<not> fst (run_program_zone env wx manual pid i s)
    \<and> (let s' = snd (run_program_zone env wx manual pid i s)
        in zones s' = zones s \<and> sent s' = sent s \<and> zone_runs s' = zone_runs s)"
proof -
  have "\<not> postpone_expired (now_of s) z"
    using assms(2,5) by (simp add: postpone_expired_def parse_end_of_day [OF assms(3,4)])
  moreover have "end_of_day day \<noteq> []" by (simp add: end_of_day_def)
  ultimately have "run_program_zone env wx manual pid i s \<in> {(False, s), (False, clear_stale_skip (zone_gid z) s)}"
    using assms(1,2) by (simp add: run_program_zone_def Let_def)
  moreover have "zones (clear_stale_skip g s) = zones s" "sent (clear_stale_skip g s) = sent s"
    "zone_runs (clear_stale_skip g s) = zone_runs s" for g
    by (simp_all add: clear_stale_skip_def)
  ultimately show ?thesis by (auto simp: Let_def)
qed

theorem postponed_zone_is_passed_over_witness:
  "let s = postpone_zone (Some (end_of_day 20000)) (Some ''manual'') (demo_zone 1 ''on'') (fresh_sched demo_world)
   in zone_runs (snd (run_program_zone (\<lambda>s. s) (\<lambda>_. \<lparr>wx_enabled = False, wx_skip = False, wx_coeff = 100\<rparr>) True 7 1 s)) = zone_runs s"
proof -
  define s where "s = postpone_zone (Some (end_of_day 20000)) (Some ''manual'') (demo_zone 1 ''on'') (fresh_sched demo_world)"
  have "world.more s = world.more (fresh_sched demo_world)" by (simp add: s_def postpone_zone_def keeps_sched)
  then have "now_of s < 86400 * 20000 + 86399"
    using more_now_of [of s "fresh_sched demo_world"] by simp
  moreover have "get_zone s 1 = Some (postponed (Some (end_of_day 20000)) (Some ''manual'') (demo_zone 1 ''on''))"
    by (simp add: s_def get_zone_postpone del: set_cols_simps) (simp add: get_zone_def)
  moreover have "year_of 20000 = 2024" by code_simp
  ultimately show ?thesis
    using postponed_zone_is_passed_over [of s 1 "postponed (Some (end_of_day 20000)) (Some ''manual'') (demo_zone 1 ''on'')" 20000
        "\<lambda>s. s" "\<lambda>_. \<lparr>wx_enabled = False, wx_skip = False, wx_coeff = 100\<rparr>" True 7]
    by (simp add: Let_def s_def del: set_cols_simps)
qed

subsection \<open>The rain ends\<close>

lemma postpone_all_same:
  "cancellations (fold (postpone_zone u r) zs w) = cancellations w \<and> sent (fold (postpone_zone u r) zs w) = sent w
   \<and> db_up (fold (postpone_zone u r) zs w) = db_up w" for w :: "'a world_scheme"
  by (induction zs arbitrary: w) (simp_all add: postpone_zone_def update_zone_postpone_def put_zone_def)

lemma clear_cancellations_frame:
  "let d' = fold (\<lambda>g d. snd (clear_program_cancellations_for_group_on_date g (day_of (now_of d)) d)) gs s
   in zones d' = zones s \<and> db_up d' = db_up s \<and> sent d' = sent s \<and> now_of d' = now_of s
    \<and> (db_up s \<longrightarrow> set (cancellations d') =
         {c \<in> set (cancellations s). \<not> (snd (snd c) \<in> set gs \<and> fst (snd c) = day_of (now_of s))})"
proof (induction gs arbitrary: s)
  case (Cons g gs)
  show ?case
    using Cons [of "snd (clear_program_cancellations_for_group_on_date g (day_of (now_of s)) s)"]
    by (auto simp: Let_def clear_program_cancellations_for_group_on_date_def now_of_def split: if_splits)
qed simp

lemma rain_over_gives_back_lemma:
  fixes s :: "'a sched_scheme"
  defines "s' \<equiv> on_rain_stop s"
  assumes "rain_groups s \<noteq> []" "wf_zones s"
  shows "get_zone s' j = map_option (\<lambda>z. if zone_gid z \<in> set (rain_groups s) \<and> postpone_reason z = Some ''rain''
             then postponed None None z else z) (get_zone s j)
    \<and> zstate_at s' = zstate_at s \<and> sent s' = sent s
    \<and> set (cancellations s') = {c \<in> set (cancellations s).
         \<not> (snd (snd c) \<in> set (rain_groups s) \<and> fst (snd c) = day_of (now_of s))}"
proof -
  let ?gs = "rain_groups s"
  define zs where "zs = filter (\<lambda>z. zone_gid z \<in> set ?gs \<and> postpone_reason z = Some ''rain'') (get_zones s)"
  define s1 where "s1 = fold (postpone_zone None None) zs s"
  define s2 where "s2 = fold (\<lambda>g s. snd (clear_program_cancellations_for_group_on_date g (day_of (now_of s)) s)) ?gs s1"
  have s': "s' = add_log ''rain_resume'' ?gs s2"
    using assms(2) by (simp add: s'_def on_rain_stop_def Let_def s1_def s2_def zs_def)
  have up: "db_up s" using assms(2) by (auto simp: rain_groups_def get_groups_def split: if_splits)
  have same: "cancellations s1 = cancellations s" "sent s1 = sent s" "db_up s1 = db_up s"
    using postpone_all_same [of None None zs s] by (simp_all add: s1_def)
  have now: "now_of s1 = now_of s" by (rule more_now_of) (simp add: s1_def)
  note f = clear_cancellations_frame [of ?gs s1, folded s2_def, unfolded Let_def]
  have "get_zone s2 = get_zone s1" using f by (intro get_zone_cong) simp_all
  moreover have "get_zone s1 j = (if j \<in> zid ` set zs then map_option (postponed None None) (get_zone s j) else get_zone s j)"
    by (simp add: s1_def get_zone_postpone_all)
  moreover have "j \<in> zid ` set zs \<longleftrightarrow> zone_gid z \<in> set ?gs \<and> postpone_reason z = Some ''rain''"
    if "get_zone s j = Some z" for z
  proof
    assume "j \<in> zid ` set zs"
    then obtain y where y: "y \<in> set zs" "zid y = j" by auto
    then have "get_zone s j = Some y"
      using row_at_mem_unique [OF wf_zones_distinct [OF assms(3)], of y] up
      by (auto simp: zs_def get_zones_def get_zone_def)
    then show "zone_gid z \<in> set ?gs \<and> postpone_reason z = Some ''rain''" using that y(1) by (simp add: zs_def)
  next
    assume "zone_gid z \<in> set ?gs \<and> postpone_reason z = Some ''rain''"
    then show "j \<in> zid ` set zs" using get_zone_in_zones [OF that] by (auto simp: zs_def)
  qed
  ultimately have rows: "get_zone s' j = map_option (\<lambda>z. if zone_gid z \<in> set ?gs \<and> postpone_reason z = Some ''rain''
      then postponed None None z else z) (get_zone s j)"
    by (cases "get_zone s j") (simp_all add: s' del: set_cols_simps)
  have "zstate_at s2 = zstate_at s1" using f by (simp add: zstate_at_def get_zone_def fun_eq_iff)
  then have "zstate_at s' = zstate_at s" by (simp add: s' s1_def)
  then show ?thesis
    using rows f same now up by (simp add: s') (simp add: add_log_def)
qed

text \<open>
  The end of the rain gives back what the rain had taken, and only that.  In a table with
  distinct ids, zones of groups that obey
  the sensor lose a postponement whose reason is \<open>rain\<close>; every other zone and every other
  postponement is as before, no zone changes its state and nothing is published.  Of the cancelled
  program runs those of these groups for today are restored, whoever cancelled them.
\<close>

theorem rain_over_gives_back:
  fixes s :: "'a sched_scheme"
  defines "s' \<equiv> on_rain_stop s"
  assumes "rain_groups s \<noteq> []" "wf_zones s"
  shows "get_zone s' j = map_option (\<lambda>z. if zone_gid z \<in> set (rain_groups s) \<and> postpone_reason z = Some ''rain''
             then postponed None None z else z) (get_zone s j)
    \<and> zstate_at s' = zstate_at s \<and> sent s' = sent s
    \<and> set (cancellations s') = {c \<in> set (cancellations s).
         \<not> (snd (snd c) \<in> set (rain_groups s) \<and> fst (snd c) = day_of (now_of s))}"
  unfolding s'_def by (rule rain_over_gives_back_lemma [OF assms(2,3)])

lemma demo_rain_groups: "zgroups s = zgroups (fresh_sched demo_world) \<Longrightarrow> rain_groups s = [1]"
proof -
  assume "zgroups s = zgroups (fresh_sched demo_world)"
  then have up: "db_up s" and gs: "map (\<lambda>g. g\<lparr>master_valve_observed := None\<rparr>) (groups s) = [(demo_group 1)\<lparr>master_valve_observed := None\<rparr>]"
    by (simp_all add: zgroups_def)
  from gs obtain h where h: "groups s = [h]" "h\<lparr>master_valve_observed := None\<rparr> = (demo_group 1)\<lparr>master_valve_observed := None\<rparr>"
    by auto
  have "gid h = gid (h\<lparr>master_valve_observed := None\<rparr>)" "use_rain_sensor h = use_rain_sensor (h\<lparr>master_valve_observed := None\<rparr>)"
    by simp_all
  then have "gid h = 1" "use_rain_sensor h = Some 1" unfolding h(2) by (simp_all add: demo_group_def)
  then show ?thesis using up by (simp add: rain_groups_def get_groups_def get_group_use_rain_def h(1))
qed

theorem rain_over_gives_back_witness:
  "zstate_at (on_rain_stop (fresh_sched demo_world)) 1 = Some ''on''"
  using rain_over_gives_back [of "fresh_sched demo_world" 1] demo_rain_groups [of "fresh_sched demo_world"]
  by (simp add: demo_facts wf_zones_def zstate_at_def get_zone_def)

text \<open>
  A postponement set by a person does not survive a shower: the rain overwrites it with its own, and the
  end of the rain clears that.
\<close>

theorem rain_forgets_manual_postpone:
  assumes "get_zone s j = Some z" "group_id z = Some g" "g \<in> set (rain_groups s)" "wf_zones s"
    "rain_groups (on_rain_start s) = rain_groups s"
  shows "map_option postpone_until (get_zone (on_rain_stop (on_rain_start s)) j) = Some None"
proof -
  let ?t = "on_rain_start s"
  have gs: "zgroups ?t = zgroups s" by (simp add: on_rain_start_def Let_def)
  have "gid_at ?t j = gid_at s j" by (rule fun_cong [OF gid_at_cong [OF gs]])
  then obtain y where y: "get_zone ?t j = Some y" "zone_gid y = g"
    using assms(1,2) by (auto simp: gid_at_def zone_gid_def)
  moreover have "postpone_reason y = Some ''rain''" using rain_start_effect [OF assms(1-3)] y(1) by simp
  moreover have "wf_zones ?t" using assms(4) wf_zones_cong [OF gs] by simp
  ultimately show ?thesis
    using rain_over_gives_back_lemma [of ?t j] assms(3,5) by (cases "rain_groups s = []") (simp_all del: set_cols_simps)
qed

subsection \<open>Postponing by request\<close>

lemma turn_off_postponement: "column_at (\<lambda>z. (postpone_until z, postpone_reason z)) (turn_off_postponed z s)
    = column_at (\<lambda>z. (postpone_until z, postpone_reason z)) s"
proof -
  have pub: "column_at h (snd (publish_mqtt_value a b c w)) = column_at h w" for h :: "zone \<Rightarrow> 'v" and a b c and w :: "'x world_scheme"
    by (rule column_at_zview) (simp add: zview_def frame_simps)
  show ?thesis
    by (simp add: turn_off_postponed_def Let_def postponement.uzs real_cols_def pub split: option.split)
qed

text \<open>
  A postponement by request stops the group and keeps it stopped.  When the request succeeds, every
  zone of the group is off, none of its stops and no sequence of the group is planned any more, a running
  session has been told to end, and every zone of the group is postponed to the end of the day that lies
  \<open>days\<close> ahead.
\<close>

theorem postpone_request_holds:
  assumes "fst (postpone_api b s) = Success Plain" "field ''action'' b = J_Str ''postpone''"
    "json_int (field ''group_id'' b) = Some g"
    "json_days (if map_of b ''days'' = None then J_Int 1 else field ''days'' b) = Some days"
    "get_zone s j = Some z" "zone_gid z = g"
  defines "s' \<equiv> snd (postpone_api b s)"
  shows "group_over g s' \<and> map_option (\<lambda>z. (postpone_until z, postpone_reason z)) (get_zone s' j)
      = Some (Some (end_of_day (postponed_day (now_of s) days)), Some ''manual'')"
proof -
  define day where "day = postponed_day (now_of s) days"
  define zs where "zs = filter (\<lambda>z. zone_gid z = g) (get_zones s)"
  define s1 where "s1 = fold (postpone_zone (Some (end_of_day day)) (Some ''manual'')) zs s"
  define s2 where "s2 = fold turn_off_postponed zs s1"
  define c where "c = cancel_group_jobs g False s2"
  have s': "s' = add_log ''postpone_set'' [g, day] (snd c)"
    using assms(1-4) by (simp add: s'_def postpone_api_def Let_def c_def s2_def s1_def zs_def day_def split: if_splits)
  let ?h = "\<lambda>z. (postpone_until z, postpone_reason z)"
  have "j \<in> zid ` set zs" using get_zone_in_zones [OF assms(5)] assms(6) by (auto simp: zs_def)
  then have "column_at ?h s1 j = Some (Some (end_of_day day), Some ''manual'')"
    using assms(5) by (simp add: column_at_def s1_def get_zone_postpone_all del: set_cols_simps)
  moreover have "column_at ?h s2 = column_at ?h s1"
    unfolding s2_def by (rule column_at_fold) (rule turn_off_postponement)
  ultimately have "column_at ?h (snd c) j = Some (Some (end_of_day day), Some ''manual'')" by (simp add: c_def)
  moreover have "group_over g (snd c)" unfolding c_def by (rule group_over_cancel)
  ultimately show ?thesis by (simp add: s' column_at_def day_def)
qed

lemma zgroups_turn_off [simp]:
  "zgroups (turn_off_postponed z s) = zgroups s" "zgroups (fold turn_off_postponed zs s) = zgroups s"
proof -
  show one: "zgroups (turn_off_postponed z s) = zgroups s" for z and s :: "'x sched_scheme"
    by (simp add: turn_off_postponed_def Let_def zgroups_uzs real_cols_def split: option.split)
  show "zgroups (fold turn_off_postponed zs s) = zgroups s"
    by (induction zs arbitrary: s) (simp_all add: one)
qed

theorem postpone_request_holds_witness:
  "let s' = snd (postpone_api [(''group_id'', J_Int 1), (''action'', J_Str ''postpone''), (''days'', J_Int 2)] (fresh_sched demo_world))
   in group_over 1 s' \<and> map_option postpone_until (get_zone s' 1) = Some (Some ''1970-01-07 23:59:59'')"
proof -
  let ?b = "[(''group_id'', J_Int 1), (''action'', J_Str ''postpone''), (''days'', J_Int 2)]" and ?s = "fresh_sched demo_world"
  have z: "get_zone ?s 1 = Some (demo_zone 1 ''on'')" by (simp add: get_zone_def)
  have day: "postponed_day 24000 2 = 2" "year_of 2 = 1970" "end_of_day 2 = ''1970-01-07 23:59:59''" by code_simp+
  have "all_timed (fold turn_off_postponed zs (fold (postpone_zone u r) ys ?s))" for zs u r ys
    by (simp add: all_timed_cong [of "fold turn_off_postponed zs (fold (postpone_zone u r) ys ?s)" ?s]) (simp add: all_timed_def)
  note timed = timed_cancel_group [OF this]
  have f: "field ''group_id'' ?b = J_Int 1" "field ''action'' ?b = J_Str ''postpone''" "field ''days'' ?b = J_Int 2"
    by (simp_all add: field_def)
  have ok: "fst (postpone_api ?b ?s) = Success Plain"
    using timed by (simp add: postpone_api_def f day Let_def)
  show ?thesis
    using postpone_request_holds [OF ok f(2), of 1 2 1 "demo_zone 1 ''on''"] z by (auto simp: f day Let_def)
qed

end
