(* ===== verification/Decimals.thy ===== *)
theory Decimals
  imports Settings
begin

text \<open>
  Python's \<open>float(s)\<close> and \<open>str(x)\<close> on the decimal numbers that the weather settings hold.
  A \<open>float\<close> is a rational, so \<open>float_text\<close> writes the shortest decimal of a number with at
  most seventeen decimals, as Python does for the decimals it has read or rounded; the exponent
  form of very small and very large numbers, which reads back the same, is not written.
\<close>

subsection \<open>Reading\<close>

text \<open>
  \<open>float(s)\<close> on a decimal numeral; \<open>None\<close> is \<open>ValueError\<close>.  The words for infinities and
  NaN, which no code here writes, are not numerals.
\<close>

definition signed :: "(string \<Rightarrow> 'v option) \<Rightarrow> ('v \<Rightarrow> 'v) \<Rightarrow> string \<Rightarrow> 'v option" where
  "signed f neg s =
     (case s of
        [] \<Rightarrow> f s
      | c # cs \<Rightarrow> (if c = CHR ''-'' then map_option neg (f cs) else if c = CHR ''+'' then f cs else f s))"

definition mantissa :: "string \<Rightarrow> rat option" where
  "mantissa s =
     (case split_on (CHR ''.'') s of
        [a] \<Rightarrow> map_option of_int (nat_of_digits a)
      | [a, b] \<Rightarrow> (if a = [] \<and> b = [] then None
          else (case (digits_val a 0, digits_val b 0) of
                  (Some m, Some f) \<Rightarrow> Some (of_int m + of_int f / 10 ^ length b)
                | _ \<Rightarrow> None))
      | _ \<Rightarrow> None)"

definition scaled :: "rat \<Rightarrow> int \<Rightarrow> rat" where
  "scaled m e = (if 0 \<le> e then m * 10 ^ nat e else m / 10 ^ nat (- e))"

definition unsigned_float :: "string \<Rightarrow> rat option" where
  "unsigned_float s =
     (case split_on (CHR ''e'') (lower s) of
        [m] \<Rightarrow> mantissa m
      | [m, e] \<Rightarrow> (case (mantissa m, signed nat_of_digits uminus e) of (Some q, Some k) \<Rightarrow> Some (scaled q k) | _ \<Rightarrow> None)
      | _ \<Rightarrow> None)"

definition py_float :: "string \<Rightarrow> rat option" where
  "py_float s = signed unsigned_float uminus (strip s)"

fun json_float :: "json \<Rightarrow> rat option" where
  "json_float (J_Int n) = Some (of_int n)"
| "json_float (J_Bool b) = Some (if b then 1 else 0)"
| "json_float (J_Float q) = Some q"
| "json_float (J_Str s) = py_float s"
| "json_float j = None"

subsection \<open>Writing\<close>

text \<open>How many decimals a number needs, up to \<open>n\<close>.\<close>

fun places :: "nat \<Rightarrow> rat \<Rightarrow> nat" where
  "places 0 q = 0"
| "places (Suc n) q = (if of_int \<lfloor>q\<rfloor> = q then 0 else Suc (places n (q * 10)))"

definition decimal_text :: "nat \<Rightarrow> nat \<Rightarrow> string" where
  "decimal_text k m = str_nat (m div 10 ^ k) @ CHR ''.'' # zero_pad k (int (m mod 10 ^ k))"

definition max_places :: nat where "max_places = 17"

definition float_text :: "rat \<Rightarrow> string" where
  "float_text q =
     (let a = \<bar>q\<bar>; k = max 1 (places max_places a); s = decimal_text k (nat (py_round (a * 10 ^ k)))
      in if q < 0 then CHR ''-'' # s else s)"

definition short_decimal :: "rat \<Rightarrow> bool" where
  "short_decimal q = (\<exists>n. q * 10 ^ max_places = of_int n)"

subsection \<open>A number that was written is read back\<close>

lemma places_int: "q * 10 ^ n = of_int m \<Longrightarrow> \<exists>i. q * 10 ^ places n q = of_int i"
proof (induction n arbitrary: q)
  case (Suc n)
  then have "q * 10 * 10 ^ n = of_int m" by (simp add: ac_simps)
  from Suc.IH [OF this] obtain i where i: "q * 10 * 10 ^ places n (q * 10) = of_int i" by blast
  show ?case
  proof (cases "of_int \<lfloor>q\<rfloor> = q")
    case True
    then show ?thesis by (simp del: of_int_floor_cancel) (metis)
  next
    case False
    then show ?thesis using i by (auto simp: ac_simps)
  qed
qed auto

lemma more_places: "q * 10 ^ j = of_int i \<Longrightarrow> j \<le> k \<Longrightarrow> \<exists>i'. q * 10 ^ k = of_int i'"
proof -
  assume q: "q * 10 ^ j = of_int i" and "j \<le> k"
  then obtain d where "k = j + d" by (metis le_Suc_ex)
  then have "q * 10 ^ k = of_int (i * 10 ^ d)" using q by (simp add: power_add mult.assoc [symmetric])
  then show ?thesis ..
qed

lemma short_abs: "short_decimal q \<Longrightarrow> short_decimal \<bar>q\<bar>"
proof -
  assume "short_decimal q"
  then obtain n where n: "q * 10 ^ max_places = of_int n" by (auto simp: short_decimal_def)
  have "\<bar>q\<bar> * 10 ^ max_places = \<bar>of_int n\<bar>" by (simp only: n [symmetric] abs_mult) simp
  then show ?thesis unfolding short_decimal_def by (intro exI [of _ "\<bar>n\<bar>"]) simp
qed

definition plain :: "char \<Rightarrow> bool" where
  "plain c = (digit_val c \<noteq> None \<or> c = CHR ''.'')"

lemma zero_pad_digit: "c \<in> set (zero_pad k n) \<Longrightarrow> digit_val c \<noteq> None"
  using zero_pad_no_sep by blast

lemma decimal_plain: "c \<in> set (decimal_text k m) \<Longrightarrow> plain c"
  by (auto simp: decimal_text_def plain_def dest: digit_chars zero_pad_digit)

lemma plain_facts: "plain c \<Longrightarrow> \<not> is_ws c \<and> c \<noteq> CHR ''-'' \<and> c \<noteq> CHR ''+'' \<and> c \<noteq> CHR ''e'' \<and> lower_char c = c"
proof (cases "c = CHR ''.''")
  case True
  then show ?thesis by (simp add: is_ws_def lower_char_def)
next
  case False
  assume "plain c"
  then have "48 \<le> (of_char c :: nat)" "(of_char c :: nat) \<le> 57"
    using False by (auto simp: plain_def digit_val_def Let_def split: if_splits)
  then show ?thesis by (auto simp: is_ws_def lower_char_def Let_def)
qed

lemma unsigned_plain:
  assumes "\<And>c. c \<in> set s \<Longrightarrow> plain c"
  shows "unsigned_float s = mantissa s"
proof -
  have "lower s = s" using assms plain_facts by (auto simp: lower_def intro: map_idI)
  moreover have "CHR ''e'' \<notin> set s" using assms plain_facts by blast
  ultimately show ?thesis by (simp add: unsigned_float_def split_on_none)
qed

lemma dot_not_digit: "digit_val (CHR ''.'') = None"
  by (simp add: digit_val_def)

lemma mantissa_decimal: "0 < k \<Longrightarrow> mantissa (decimal_text k m) = Some (of_nat m / 10 ^ k)"
proof -
  assume "0 < k"
  then obtain j where k: "k = Suc j" by (cases k) auto
  let ?a = "str_nat (m div 10 ^ k)" and ?b = "zero_pad k (int (m mod 10 ^ k))"
  have "CHR ''.'' \<notin> set ?a" "CHR ''.'' \<notin> set ?b"
    using digit_chars dot_not_digit zero_pad_no_sep by blast+
  then have sp: "split_on (CHR ''.'') (decimal_text k m) = [?a, ?b]"
    by (simp add: decimal_text_def split_on_append split_on_none)
  have "int (m mod 10 ^ k) < 10 ^ k"
    using mod_less_divisor [of "10 ^ k" m] by (metis of_nat_less_iff of_nat_numeral of_nat_power zero_less_numeral zero_less_power)
  then have len: "length ?b = k" unfolding k by (intro length_zero_pad) (simp_all only: of_nat_0_le_iff)
  have "nat_of_digits ?b = Some (int (m mod 10 ^ k))" by (rule nat_of_zero_pad) (simp only: of_nat_0_le_iff)
  then have b: "digits_val ?b 0 = Some (int (m mod 10 ^ k))" by (simp add: nat_of_digits_def split: if_splits)
  have "m = m div 10 ^ k * 10 ^ k + m mod 10 ^ k" by (simp only: div_mult_mod_eq)
  then have "(of_nat m :: rat) = of_nat (m div 10 ^ k) * 10 ^ k + of_nat (m mod 10 ^ k)"
    by (metis of_nat_add of_nat_mult of_nat_numeral of_nat_power)
  then have "(of_nat m :: rat) / 10 ^ k = of_nat (m div 10 ^ k) + of_nat (m mod 10 ^ k) / 10 ^ k"
    by (simp only: add_divide_distrib nonzero_mult_div_cancel_right [OF power_not_zero [OF zero_neq_numeral [symmetric]]])
  then show ?thesis
    by (simp only: mantissa_def sp list.case if_False str_nat_nonempty simp_thms digits_val_str_nat b prod.case option.case
        len of_int_of_nat_eq)
qed

lemma py_float_unsigned:
  assumes "\<And>c. c \<in> set s \<Longrightarrow> plain c"
  shows "py_float s = mantissa s" "py_float (CHR ''-'' # s) = map_option uminus (mantissa s)"
proof -
  have ws: "list_all (\<lambda>c. \<not> is_ws c) s" using assms plain_facts by (auto simp: list_all_iff)
  have "s = [] \<or> (hd s \<noteq> CHR ''-'' \<and> hd s \<noteq> CHR ''+'')"
    using assms plain_facts by (metis list.set_sel(1))
  then have "signed unsigned_float uminus s = unsigned_float s" by (cases s) (simp_all add: signed_def)
  then show "py_float s = mantissa s"
    by (simp only: py_float_def strip_id [OF ws] unsigned_plain [OF assms])
  have "strip (CHR ''-'' # s) = CHR ''-'' # s" by (rule strip_id) (use ws in \<open>simp add: is_ws_def\<close>)
  then show "py_float (CHR ''-'' # s) = map_option uminus (mantissa s)"
    by (simp add: py_float_def signed_def unsigned_plain [OF assms])
qed

lemma py_float_text: "short_decimal q \<Longrightarrow> py_float (float_text q) = Some q"
proof -
  assume "short_decimal q"
  then obtain n where "\<bar>q\<bar> * 10 ^ max_places = of_int n" using short_abs by (auto simp: short_decimal_def)
  from places_int [OF this] obtain i where i: "\<bar>q\<bar> * 10 ^ places max_places \<bar>q\<bar> = of_int i" by blast
  define k where "k = max 1 (places max_places \<bar>q\<bar>)"
  have "places max_places \<bar>q\<bar> \<le> k" by (simp add: k_def)
  from more_places [OF i this] obtain j where j: "\<bar>q\<bar> * 10 ^ k = of_int j" by blast
  have "0 \<le> \<bar>q\<bar> * 10 ^ k" by simp
  then have "0 \<le> j" by (simp only: j of_int_0_le_iff)
  then have m: "(of_nat (nat (py_round (\<bar>q\<bar> * 10 ^ k))) :: rat) / 10 ^ k = \<bar>q\<bar>"
    by (simp only: j py_round_of_int of_nat_nat) (simp add: j [symmetric])
  have "0 < k" by (simp add: k_def)
  note val = mantissa_decimal [OF this, of "nat (py_round (\<bar>q\<bar> * 10 ^ k))", unfolded m]
  note read = py_float_unsigned [of "decimal_text k (nat (py_round (\<bar>q\<bar> * 10 ^ k)))", OF decimal_plain]
  define T where "T = decimal_text k (nat (py_round (\<bar>q\<bar> * 10 ^ k)))"
  have "float_text q = (if q < 0 then CHR ''-'' # T else T)" by (simp only: float_text_def Let_def k_def T_def)
  moreover have "py_float T = Some \<bar>q\<bar>" "py_float (CHR ''-'' # T) = Some (- \<bar>q\<bar>)"
    by (simp_all only: T_def read val option.map)
  ultimately show ?thesis by simp
qed

lemma short_of_int: "short_decimal (of_int n)"
  unfolding short_decimal_def by (intro exI [of _ "n * 10 ^ max_places"]) simp

lemma short_round: "n \<le> max_places \<Longrightarrow> short_decimal (round_dec n q)"
proof -
  assume n: "n \<le> max_places"
  have "round_dec n q * 10 ^ n = of_int (py_round (q * 10 ^ n))" by (simp add: round_dec_def)
  from more_places [OF this n] show ?thesis by (simp add: short_decimal_def)
qed

lemma short_minmax [intro]: "short_decimal p \<Longrightarrow> short_decimal q \<Longrightarrow> short_decimal (min p q)"
  "short_decimal p \<Longrightarrow> short_decimal q \<Longrightarrow> short_decimal (max p q)"
  by (simp_all add: min_def max_def)

lemma float_text_examples:
  "float_text 7 = ''7.0''" "float_text (-5/4) = ''-1.25''" "py_float '' 1.5e2 '' = Some 150" "py_float ''.'' = None"
  by code_simp+

text \<open>\<open>int(float(s))\<close>, which both the integer settings and the cached coefficient go through.\<close>

definition int_float :: "string \<Rightarrow> int option" where
  "int_float s = map_option trunc (py_float s)"

lemma digits_plain: "list_all (\<lambda>c. digit_val c \<noteq> None) s \<Longrightarrow> c \<in> set s \<Longrightarrow> plain c"
  by (auto simp: list_all_iff plain_def)

lemma int_float_str_int: "int_float (str_int n) = Some n"
proof -
  have pl: "\<And>c. c \<in> set (str_nat m) \<Longrightarrow> plain c" for m using digit_chars by (auto simp: plain_def)
  have "CHR ''.'' \<notin> set (str_nat m)" for m using digit_chars dot_not_digit by blast
  then have "mantissa (str_nat m) = Some (of_nat m)" for m
    by (simp add: mantissa_def split_on_none nat_of_digits_def digits_val_str_nat)
  then show ?thesis
    by (simp add: int_float_def str_int_def py_float_unsigned [OF pl] trunc_def)
qed

end
