(* ===== verification/Weather_Data.thy ===== *)
theory Weather_Data
  imports Decimals
begin

text \<open>
  Where the weather comes from: the Open-Meteo client (\<open>src/services/weather/client.py\<close>), the cache
  table (\<open>cache.py\<close>), the parser of a forecast (\<open>models.py\<close>) and \<open>WeatherService.get_weather\<close>
  (\<open>service.py\<close>).  A forecast holds the arrays of the response; as the service documents, their
  entries are numbers or null.  What a request answers is an argument, one answer per attempt.  An
  answer is a non-empty object (an empty one counts as \<open>Broken\<close>: the service drops it), and the
  \<open>requests\<close> package is installed, as \<open>requirements.txt\<close> says.
\<close>

subsection \<open>The client\<close>

text \<open>One answer of the server; \<open>Transient\<close> is a timeout or a lost connection.\<close>

datatype 'p answer = Answer 'p | Transient | Http_Status nat | Broken

definition retryable_status :: "nat set" where "retryable_status = {429, 500, 502, 503, 504}"

definition max_attempts :: nat where "max_attempts = 2"

text \<open>The loop of \<open>fetch_api\<close>, \<open>fetch_history\<close> and \<open>fetch_relay\<close>; \<open>n\<close> attempts are left.\<close>

fun fetch :: "(nat \<Rightarrow> 'p answer) \<Rightarrow> nat \<Rightarrow> 'p option" where
  "fetch net 0 = None"
| "fetch net (Suc n) =
     (case net (max_attempts - n) of
        Answer p \<Rightarrow> Some p
      | Transient \<Rightarrow> (if n = 0 then None else fetch net n)
      | Http_Status k \<Rightarrow> (if k \<in> retryable_status \<and> n \<noteq> 0 then fetch net n else None)
      | Broken \<Rightarrow> None)"

subsection \<open>A forecast and its parser\<close>

record forecast =
  fc_offset :: "int option"
  h_time :: "string list"
  h_temperature :: "rat option list"
  h_humidity :: "rat option list"
  h_precipitation :: "rat option list"
  h_wind :: "rat option list"
  h_et0 :: "rat option list"
  h_code :: "int option list"
  d_time :: "string list"
  d_code :: "int option list"
  d_sunrise :: "string option list"
  d_sunset :: "string option list"
  d_precipitation :: "rat option list"
  d_et0 :: "rat option list"
  d_tmin :: "rat option list"
  d_tmax :: "rat option list"

record hour_tile =
  t_time :: string
  t_temp :: "rat option"
  t_precip :: "rat option"
  t_wind :: "rat option"
  t_code :: "int option"

record day_tile =
  y_date :: string
  y_name :: "nat option"
  y_tmin :: "rat option"
  y_tmax :: "rat option"
  y_precip :: "rat option"
  y_code :: "int option"
  y_sunrise :: "string option"
  y_sunset :: "string option"

record weather_data =
  w_timestamp :: rat
  w_temperature :: "rat option"
  w_humidity :: "rat option"
  w_precipitation :: "rat option"
  w_wind_speed :: "rat option"
  w_et0_hourly :: "rat option"
  w_code :: "int option"
  w_daily_precipitation :: "rat option"
  w_daily_et0 :: "rat option"
  w_temperature_min :: "rat option"
  w_temperature_max :: "rat option"
  w_sunrise :: "string option"
  w_sunset :: "string option"
  w_precipitation_24h :: rat
  w_precipitation_6h :: rat
  w_hours :: "hour_tile list"
  w_days :: "day_tile list"
  w_min_temp_6h :: "rat option"

text \<open>The clocks: the server's local time and UTC, both on the time line of \<open>Calendar\<close>.\<close>

record clocks =
  local_now :: time
  utc_now :: time
  wall :: rat

definition hour_text :: "time \<Rightarrow> string" where
  "hour_text t = date_text (day_of t) @ CHR ''T'' # zero_pad 2 (t mod 86400 div 3600) @ '':00''"

definition local_time :: "clocks \<Rightarrow> int option \<Rightarrow> time" where
  "local_time c offs = (case offs of None \<Rightarrow> local_now c | Some d \<Rightarrow> utc_now c + d)"

definition current_hour :: "clocks \<Rightarrow> int option \<Rightarrow> string" where
  "current_hour c offs = hour_text (local_time c offs)"

fun index_of :: "'v \<Rightarrow> 'v list \<Rightarrow> nat option" where
  "index_of x [] = None"
| "index_of x (y # ys) = (if x = y then Some 0 else map_option Suc (index_of x ys))"

definition hour_index :: "clocks \<Rightarrow> forecast \<Rightarrow> nat option" where
  "hour_index c f =
     (case index_of (current_hour c (fc_offset f)) (h_time f) of
        Some i \<Rightarrow> Some i
      | None \<Rightarrow> (if h_time f = [] then None else Some 0))"

definition safe_get :: "'v option list \<Rightarrow> nat option \<Rightarrow> 'v option" where
  "safe_get arr i = (case i of None \<Rightarrow> None | Some k \<Rightarrow> (if k < length arr then arr ! k else None))"

definition known :: "'v option list \<Rightarrow> nat list \<Rightarrow> 'v list" where
  "known arr ks = concat (map (\<lambda>k. case safe_get arr (Some k) of None \<Rightarrow> [] | Some v \<Rightarrow> [v]) ks)"

definition sum_known :: "rat option list \<Rightarrow> nat list \<Rightarrow> rat" where
  "sum_known arr ks = fold (\<lambda>v acc. acc + v) (known arr ks) 0"

definition min_known :: "rat option list \<Rightarrow> nat list \<Rightarrow> rat option" where
  "min_known arr ks = fold (\<lambda>v acc. case acc of None \<Rightarrow> Some v | Some m \<Rightarrow> Some (if v < m then v else m)) (known arr ks) None"

text \<open>The clock part of an ISO time, for the sunrise, the sunset and the tiles.\<close>

definition clock_part :: "string \<Rightarrow> string" where
  "clock_part t = (case split_on (CHR ''T'') t of _ # b # _ \<Rightarrow> take 5 b | _ \<Rightarrow> t)"

definition sun_time :: "string option list \<Rightarrow> nat \<Rightarrow> string option" where
  "sun_time arr i = (case safe_get arr (Some i) of None \<Rightarrow> None | Some t \<Rightarrow> (if t = [] then None else Some (clock_part t)))"

definition hour_tiles :: "int \<Rightarrow> nat \<Rightarrow> forecast \<Rightarrow> hour_tile list" where
  "hour_tiles h i f =
     (let first = (if h mod 4 \<noteq> 0 then nat (4 - h mod 4) else 4);
          ks = filter (\<lambda>k. k < length (h_time f)) (map (\<lambda>d. i + first + d) [0, 4, 8, 12, 16, 20])
      in map (\<lambda>k. \<lparr>t_time = clock_part (h_time f ! k), t_temp = safe_get (h_temperature f) (Some k),
                   t_precip = safe_get (h_precipitation f) (Some k), t_wind = safe_get (h_wind f) (Some k),
                   t_code = safe_get (h_code f) (Some k)\<rparr>) ks)"

text \<open>The name of a day is its place in the week, Monday first.\<close>

definition day_tiles :: "forecast \<Rightarrow> day_tile list" where
  "day_tiles f =
     map (\<lambda>k. \<lparr>y_date = d_time f ! k, y_name = map_option (\<lambda>d. nat (d mod 7)) (parse_date (d_time f ! k)),
               y_tmin = safe_get (d_tmin f) (Some k), y_tmax = safe_get (d_tmax f) (Some k),
               y_precip = safe_get (d_precipitation f) (Some k), y_code = safe_get (d_code f) (Some k),
               y_sunrise = sun_time (d_sunrise f) k, y_sunset = sun_time (d_sunset f) k\<rparr>)
       [0..<min 3 (length (d_time f))]"

definition parse_weather :: "clocks \<Rightarrow> rat \<Rightarrow> forecast \<Rightarrow> weather_data" where
  "parse_weather c fetched f =
     (let i = hour_index c f in
      \<lparr>w_timestamp = fetched,
       w_temperature = safe_get (h_temperature f) i,
       w_humidity = safe_get (h_humidity f) i,
       w_precipitation = safe_get (h_precipitation f) i,
       w_wind_speed = safe_get (h_wind f) i,
       w_et0_hourly = safe_get (h_et0 f) i,
       w_code = safe_get (h_code f) i,
       w_daily_precipitation = safe_get (d_precipitation f) (Some 0),
       w_daily_et0 = safe_get (d_et0 f) (Some 0),
       w_temperature_min = safe_get (d_tmin f) (Some 0),
       w_temperature_max = safe_get (d_tmax f) (Some 0),
       w_sunrise = sun_time (d_sunrise f) 0,
       w_sunset = sun_time (d_sunset f) 0,
       w_precipitation_24h = (case i of None \<Rightarrow> 0 | Some k \<Rightarrow> sum_known (h_precipitation f) [k - 23..<Suc k]),
       w_precipitation_6h = (case i of None \<Rightarrow> 0
          | Some k \<Rightarrow> sum_known (h_precipitation f) [Suc k..<min (length (h_precipitation f)) (k + 7)]),
       w_hours = (case i of None \<Rightarrow> [] | Some k \<Rightarrow> hour_tiles (local_time c (fc_offset f) mod 86400 div 3600) k f),
       w_days = day_tiles f,
       w_min_temp_6h = (case i of None \<Rightarrow> None
          | Some k \<Rightarrow> min_known (h_temperature f) [k..<min (length (h_temperature f)) (k + 7)])\<rparr>)"

subsection \<open>The cache\<close>

record cache_row =
  c_lat :: rat
  c_lon :: rat
  c_fetched :: rat
  c_data :: forecast

record weather_store =
  wx_settings :: settings
  wx_cache :: "cache_row list"

definition get_location :: "settings \<Rightarrow> (rat \<times> rat) option" where
  "get_location st =
     (if \<not> kv_up st then None
      else case (kv st ''weather.latitude'', kv st ''weather.longitude'') of
             (Some a, Some b) \<Rightarrow>
               (if a = [] \<or> b = [] then None
                else case (py_float a, py_float b) of (Some x, Some y) \<Rightarrow> Some (x, y) | _ \<Rightarrow> None)
           | _ \<Rightarrow> None)"

definition latest_row :: "rat \<Rightarrow> rat \<Rightarrow> cache_row list \<Rightarrow> cache_row option" where
  "latest_row lat lon rows =
     fold (\<lambda>r best. if c_lat r = round_dec 4 lat \<and> c_lon r = round_dec 4 lon
                     \<and> (case best of None \<Rightarrow> True | Some b \<Rightarrow> c_fetched b < c_fetched r)
                    then Some r else best) rows None"

definition cache_ttl :: rat where "cache_ttl = 1800"

definition read_fresh :: "clocks \<Rightarrow> rat \<Rightarrow> rat \<Rightarrow> weather_store \<Rightarrow> weather_data option" where
  "read_fresh c lat lon st =
     (if \<not> kv_up (wx_settings st) then None
      else case latest_row lat lon (wx_cache st) of
             None \<Rightarrow> None
           | Some r \<Rightarrow> (if wall c - c_fetched r < cache_ttl then Some (parse_weather c (c_fetched r) (c_data r)) else None))"

definition read_stale :: "clocks \<Rightarrow> rat \<Rightarrow> rat \<Rightarrow> weather_store \<Rightarrow> weather_data option" where
  "read_stale c lat lon st =
     (if \<not> kv_up (wx_settings st) then None
      else map_option (\<lambda>r. parse_weather c (c_fetched r) (c_data r)) (latest_row lat lon (wx_cache st)))"

definition save_forecast :: "clocks \<Rightarrow> rat \<Rightarrow> rat \<Rightarrow> forecast \<Rightarrow> weather_store \<Rightarrow> weather_store" where
  "save_forecast c lat lon f st =
     (if \<not> kv_up (wx_settings st) then st
      else st\<lparr>wx_cache := filter (\<lambda>r. \<not> c_fetched r < wall c - 86400)
                (wx_cache st @ [\<lparr>c_lat = round_dec 4 lat, c_lon = round_dec 4 lon, c_fetched = wall c, c_data = f\<rparr>])\<rparr>)"

subsection \<open>The service\<close>

text \<open>\<open>relay\<close> is the relay's address in the process configuration: whether it is set.\<close>

record source =
  direct_net :: "nat \<Rightarrow> forecast answer"
  relay_net :: "nat \<Rightarrow> forecast answer"
  relay_set :: bool

definition get_source_mode :: "settings \<Rightarrow> string" where
  "get_source_mode st =
     (let v = get_setting_value ''weather.source_mode'' st
      in if v = Some ''relay'' then ''relay'' else ''direct'')"

definition relay_payload_is_current :: "clocks \<Rightarrow> forecast \<Rightarrow> bool" where
  "relay_payload_is_current c f =
     (h_time f \<noteq> [] \<and> (case fc_offset f of None \<Rightarrow> False | Some d \<Rightarrow> hour_text (utc_now c + d) \<in> set (h_time f)))"

definition fetch_weather :: "clocks \<Rightarrow> source \<Rightarrow> settings \<Rightarrow> forecast option" where
  "fetch_weather c src st =
     (if get_source_mode st = ''relay'' \<and> relay_set src
      then (case fetch (relay_net src) max_attempts of
              None \<Rightarrow> None
            | Some f \<Rightarrow> (if relay_payload_is_current c f then Some f else None))
      else fetch (direct_net src) max_attempts)"

definition get_weather :: "clocks \<Rightarrow> source \<Rightarrow> bool \<Rightarrow> weather_store \<Rightarrow> weather_data option \<times> weather_store" where
  "get_weather c src force st =
     (case get_location (wx_settings st) of
        None \<Rightarrow> (None, st)
      | Some (lat, lon) \<Rightarrow>
          (case (if force then None else read_fresh c lat lon st) of
             Some d \<Rightarrow> (Some d, st)
           | None \<Rightarrow>
               (case fetch_weather c src (wx_settings st) of
                  Some f \<Rightarrow> (Some (parse_weather c (wall c) f), save_forecast c lat lon f st)
                | None \<Rightarrow> (read_stale c lat lon st, st))))"

end
