(* ===== verification/Weather_Balance.thy ===== *)
theory Weather_Balance
  imports Weather_Data
begin

text \<open>
  The nightly water balance (\<open>src/services/weather/balance.py\<close>): the deficit of each completed day,
  the climate norm of the evapotranspiration, and the cached coefficient, with the manual
  recalculation of \<open>src/routes/weather_api.py\<close>.  The history is what the server answered; SQLite
  works or not for a whole recalculation.
\<close>

subsection \<open>Settings\<close>

record history =
  y_et0 :: "rat option list"
  y_rain :: "rat option list"
  y_time :: "string list"

record balance_cfg =
  b_window :: nat
  b_norm_window :: nat
  b_min :: int
  b_max :: int
  b_kc :: rat
  b_intercept :: rat
  b_last_recalc :: string
  b_norm :: "rat option"
  b_norm_day :: string

definition bal_key :: "string \<Rightarrow> string" where "bal_key k = ''weather.balance.'' @ k"

definition as_int :: "int \<Rightarrow> string option \<Rightarrow> int" where
  "as_int dflt v = (case v of None \<Rightarrow> dflt | Some s \<Rightarrow> (case int_float s of None \<Rightarrow> dflt | Some n \<Rightarrow> n))"

definition as_float :: "string option \<Rightarrow> rat option" where
  "as_float v = (case v of None \<Rightarrow> None | Some s \<Rightarrow> py_float s)"

definition or_default :: "'v \<Rightarrow> 'v option \<Rightarrow> 'v" where
  "or_default d v = (case v of None \<Rightarrow> d | Some x \<Rightarrow> x)"

definition read_balance_settings :: "settings \<Rightarrow> balance_cfg" where
  "read_balance_settings st =
     (let v = (\<lambda>k. kv st (bal_key k)) in
      \<lparr>b_window = nat (max 1 (as_int 3 (v ''window_days''))),
       b_norm_window = nat (max 1 (as_int 30 (v ''norm_window_days''))),
       b_min = as_int 50 (v ''coef_min''),
       b_max = as_int 150 (v ''coef_max''),
       b_kc = or_default 1 (as_float (v ''kc'')),
       b_intercept = or_default 4 (as_float (v ''intercept_mm'')),
       b_last_recalc = or_default [] (v ''last_recalc_date''),
       b_norm = as_float (v ''et0_norm_daily''),
       b_norm_day = or_default [] (v ''norm_last_day'')\<rparr>)"

subsection \<open>The formula\<close>

definition compute_deficit_day :: "rat \<Rightarrow> rat \<Rightarrow> rat \<Rightarrow> rat \<Rightarrow> rat" where
  "compute_deficit_day et0 rain kc intercept = et0 * kc - max 0 (rain - intercept)"

definition clamp_between :: "rat \<Rightarrow> rat \<Rightarrow> rat \<Rightarrow> rat" where
  "clamp_between v lo hi = max lo (min hi v)"

definition compute_coef :: "rat \<Rightarrow> rat \<Rightarrow> int \<Rightarrow> int \<Rightarrow> int" where
  "compute_coef window_sum norm_window lo hi =
     (if norm_window \<le> 0 then 100
      else py_round (clamp_between (100 * window_sum / norm_window) (of_int lo) (of_int hi)))"

record day_row =
  r_date :: string
  r_et0 :: rat
  r_rain :: rat

definition history_row :: "int \<Rightarrow> rat option \<Rightarrow> rat option \<Rightarrow> string \<Rightarrow> day_row list" where
  "history_row today e p s =
     (case (parse_date s, e) of
        (Some d, Some et0) \<Rightarrow> (if today \<le> d then [] else [\<lparr>r_date = s, r_et0 = et0, r_rain = or_default 0 p\<rparr>])
      | _ \<Rightarrow> [])"

definition build_history_rows :: "int \<Rightarrow> history \<Rightarrow> day_row list" where
  "build_history_rows today h =
     concat (map (\<lambda>(e, p, s). history_row today e p s) (zip (y_et0 h) (zip (y_rain h) (y_time h))))"

definition last_rows :: "nat \<Rightarrow> 'v list \<Rightarrow> 'v list" where
  "last_rows n xs = drop (length xs - n) xs"

definition min_history_days :: nat where "min_history_days = 7"

definition bootstrap_norm :: "day_row list \<Rightarrow> nat \<Rightarrow> rat option" where
  "bootstrap_norm rows n =
     (if length rows < min_history_days then None
      else let vals = map r_et0 (if 0 < n then last_rows n rows else rows)
           in if vals = [] then None else Some (sum_list vals / of_nat (length vals)))"

definition already_folded :: "balance_cfg \<Rightarrow> day_row list \<Rightarrow> bool" where
  "already_folded c rows = (rows \<noteq> [] \<and> r_date (last rows) = b_norm_day c)"

definition ema :: "nat \<Rightarrow> rat \<Rightarrow> rat \<Rightarrow> rat" where
  "ema n latest old = (let alpha = 2 / (of_nat n + 1) in alpha * latest + (1 - alpha) * old)"

definition new_norm :: "balance_cfg \<Rightarrow> day_row list \<Rightarrow> rat option" where
  "new_norm c rows =
     (case b_norm c of
        None \<Rightarrow> bootstrap_norm rows (b_norm_window c)
      | Some n \<Rightarrow>
          (if n \<le> 0 then bootstrap_norm rows (b_norm_window c)
           else if rows \<noteq> [] \<and> \<not> already_folded c rows
           then Some (ema (b_norm_window c) (r_et0 (last rows)) n) else Some n))"

definition row_deficit :: "balance_cfg \<Rightarrow> day_row \<Rightarrow> rat" where
  "row_deficit c r = round_dec 4 (compute_deficit_day (r_et0 r) (r_rain r) (b_kc c) (b_intercept c))"

definition window_rows :: "balance_cfg \<Rightarrow> day_row list \<Rightarrow> day_row list" where
  "window_rows c rows = last_rows (b_window c) rows"

definition window_deficit :: "balance_cfg \<Rightarrow> day_row list \<Rightarrow> rat" where
  "window_deficit c rows = max 0 (sum_list (map (row_deficit c) (window_rows c rows)))"

definition norm_ready :: "rat option \<Rightarrow> day_row list \<Rightarrow> bool" where
  "norm_ready n rows = ((case n of None \<Rightarrow> False | Some q \<Rightarrow> 0 < q) \<and> min_history_days \<le> length rows)"

definition full_window :: "balance_cfg \<Rightarrow> day_row list \<Rightarrow> bool" where
  "full_window c rows = (b_window c \<le> length (window_rows c rows))"

definition balance_coef :: "balance_cfg \<Rightarrow> day_row list \<Rightarrow> int" where
  "balance_coef c rows =
     (if norm_ready (new_norm c rows) rows \<and> full_window c rows
      then compute_coef (window_deficit c rows) (or_default 0 (new_norm c rows) * of_nat (b_window c) * b_kc c)
             (b_min c) (b_max c)
      else 100)"

subsection \<open>The nightly job\<close>

text \<open>The audit row: date, ET0, norm, rain, effective rain, deficit of the day and of the window, coefficient.\<close>

record balance_entry =
  l_date :: string
  l_et0 :: "rat option"
  l_norm :: "rat option"
  l_rain :: "rat option"
  l_rain_eff :: "rat option"
  l_deficit :: rat
  l_window :: rat
  l_coef :: int

record balance_store = settings +
  balance_log :: "balance_entry list"

record balance_result =
  br_coef :: int
  br_deficit :: rat
  br_norm :: "rat option"
  br_days :: nat
  br_norm_ready :: bool
  br_full :: bool

text \<open>\<open>json.dumps\<close> of the deficit window.\<close>

fun joined :: "string \<Rightarrow> string list \<Rightarrow> string" where
  "joined sep [] = []"
| "joined sep [x] = x"
| "joined sep (x # xs) = x @ sep @ joined sep xs"

definition quoted :: "string \<Rightarrow> string" where "quoted s = CHR 0x22 # s @ [CHR 0x22]"

definition buffer_text :: "balance_cfg \<Rightarrow> day_row list \<Rightarrow> string" where
  "buffer_text c rows =
     ''['' @ joined '', '' (map (\<lambda>r. ''{'' @ quoted ''date'' @ '': '' @ quoted (r_date r) @ '', '' @ quoted ''deficit'' @ '': ''
                                 @ float_text (row_deficit c r) @ ''}'') (window_rows c rows)) @ '']''"

definition put_kv :: "string \<Rightarrow> string \<Rightarrow> 'a settings_scheme \<Rightarrow> 'a settings_scheme" where
  "put_kv k v st = st\<lparr>kv := (kv st)(bal_key k \<mapsto> v)\<rparr>"

definition audit_row :: "balance_cfg \<Rightarrow> string \<Rightarrow> day_row list \<Rightarrow> balance_entry" where
  "audit_row c today_text rows =
     \<lparr>l_date = (if rows = [] then today_text else r_date (last rows)),
      l_et0 = (if rows = [] then None else Some (round_dec 4 (r_et0 (last rows)))),
      l_norm = map_option (round_dec 4) (new_norm c rows),
      l_rain = (if rows = [] then None else Some (round_dec 4 (r_rain (last rows)))),
      l_rain_eff = (if rows = [] then None else Some (round_dec 4 (max 0 (r_rain (last rows) - b_intercept c)))),
      l_deficit = (if window_rows c rows = [] then 0 else round_dec 4 (row_deficit c (last (window_rows c rows)))),
      l_window = round_dec 4 (window_deficit c rows),
      l_coef = balance_coef c rows\<rparr>"

definition store_balance :: "balance_cfg \<Rightarrow> string \<Rightarrow> day_row list \<Rightarrow> balance_store \<Rightarrow> balance_store" where
  "store_balance c today_text rows st =
     (let s1 = put_kv ''deficit_buffer'' (buffer_text c rows) st;
          s2 = (case new_norm c rows of None \<Rightarrow> s1 | Some n \<Rightarrow> put_kv ''et0_norm_daily'' (float_text (round_dec 4 n)) s1);
          s3 = (if rows = [] then s2 else put_kv ''norm_last_day'' (r_date (last rows)) s2);
          s4 = put_kv ''last_recalc_date'' today_text s3;
          s5 = put_kv ''coef_cached'' (str_int (balance_coef c rows)) s4
      in if already_folded c rows then s5 else s5\<lparr>balance_log := balance_log s5 @ [audit_row c today_text rows]\<rparr>)"

definition balance_summary :: "balance_cfg \<Rightarrow> day_row list \<Rightarrow> balance_result" where
  "balance_summary c rows =
     \<lparr>br_coef = balance_coef c rows, br_deficit = round_dec 4 (window_deficit c rows),
      br_norm = map_option (round_dec 4) (new_norm c rows), br_days = length rows,
      br_norm_ready = norm_ready (new_norm c rows) rows, br_full = full_window c rows\<rparr>"

text \<open>\<open>net\<close> answers the request for the history; \<open>today\<close> is the local date.\<close>

definition recalc_balance :: "int \<Rightarrow> (nat \<Rightarrow> history answer) \<Rightarrow> balance_store \<Rightarrow> balance_result option \<times> balance_store" where
  "recalc_balance today net st =
     (if \<not> kv_up st then (None, st)
      else let c = read_balance_settings (settings.truncate st) in
        if b_last_recalc c = date_text today then (None, st)
        else case get_location (settings.truncate st) of
               None \<Rightarrow> (None, st)
             | Some _ \<Rightarrow>
                 (case fetch net max_attempts of
                    None \<Rightarrow> (None, st)
                  | Some h \<Rightarrow>
                      (let rows = build_history_rows today h
                       in (Some (balance_summary c rows), store_balance c (date_text today) rows st))))"

definition manual_recalc :: "int \<Rightarrow> (nat \<Rightarrow> history answer) \<Rightarrow> balance_store \<Rightarrow> balance_result option \<times> balance_store" where
  "manual_recalc today net st =
     recalc_balance today net (if kv_up st then st\<lparr>kv := (kv st)(bal_key ''last_recalc_date'' := None)\<rparr> else st)"

definition read_cached_coef :: "'a settings_scheme \<Rightarrow> int" where
  "read_cached_coef st =
     (if \<not> kv_up st then 100
      else case kv st (bal_key ''coef_cached'') of
             None \<Rightarrow> 100 | Some v \<Rightarrow> (case int_float v of None \<Rightarrow> 100 | Some n \<Rightarrow> n))"

definition has_computed :: "'a settings_scheme \<Rightarrow> bool" where
  "has_computed st = (kv_up st \<and> or_default [] (kv st (bal_key ''last_recalc_date'')) \<noteq> [])"

end
