(* ===== verification/Weather_Adjust.thy ===== *)
theory Weather_Adjust
  imports Weather_Balance Runner
begin

text \<open>
  The watering decision: \<open>WeatherAdjustment\<close> of \<open>src/services/weather/adjustment.py\<close>, the
  environment sensors it prefers (\<open>src/services/monitors/env_monitor.py\<close> and \<open>_get_env_state\<close> of
  \<open>merge.py\<close>) and the answers the scheduler's threads receive.  The texts of reasons and details
  are left out: a verdict keeps its kind, value and threshold.  So are the Telegram alerts and their
  throttle, and the two log tables.
\<close>

subsection \<open>Settings\<close>

record weather_settings =
  ws_enabled :: bool
  ws_rain :: rat
  ws_freeze :: rat
  ws_wind_kmh :: rat
  ws_wind_ms :: rat
  ws_humidity :: rat
  ws_reduction :: rat
  f_rain :: bool
  f_freeze :: bool
  f_wind :: bool
  f_humidity :: bool
  f_heat :: bool
  ws_soft :: rat
  ws_hard :: rat

definition flag_or :: "bool \<Rightarrow> string option \<Rightarrow> bool" where
  "flag_or d v = (case v of None \<Rightarrow> d | Some s \<Rightarrow> s \<in> {''1'', ''true'', ''True''})"

definition float_or :: "rat \<Rightarrow> string option \<Rightarrow> rat" where
  "float_or d v = (case v of None \<Rightarrow> d | Some s \<Rightarrow> (case py_float s of None \<Rightarrow> d | Some q \<Rightarrow> q))"

definition weather_settings_of :: "settings \<Rightarrow> weather_settings" where
  "weather_settings_of st =
     (let v = (\<lambda>k. get_setting_value (''weather.'' @ k) st) in
      \<lparr>ws_enabled = flag_or False (v ''enabled''),
       ws_rain = float_or 5 (v ''rain_threshold_mm''),
       ws_freeze = float_or 2 (v ''freeze_threshold_c''),
       ws_wind_kmh = float_or 25 (v ''wind_threshold_kmh''),
       ws_wind_ms = float_or 7 (v ''wind_threshold_ms''),
       ws_humidity = float_or 80 (v ''humidity_threshold_pct''),
       ws_reduction = float_or 30 (v ''humidity_reduction_pct''),
       f_rain = flag_or True (v ''factor.rain''),
       f_freeze = flag_or True (v ''factor.freeze''),
       f_wind = flag_or True (v ''factor.wind''),
       f_humidity = flag_or True (v ''factor.humidity''),
       f_heat = flag_or True (v ''factor.heat''),
       ws_soft = float_or 5 (v ''sensor_mismatch_soft_c''),
       ws_hard = float_or 10 (v ''sensor_mismatch_hard_c'')\<rparr>)"

definition weather_enabled :: "settings \<Rightarrow> bool" where
  "weather_enabled st = ws_enabled (weather_settings_of st)"

subsection \<open>The environment monitor\<close>

record env_monitor =
  env_cfg :: "(sensor_cfg \<times> sensor_cfg) option"
  temp_value :: "int option"
  hum_value :: "int option"
  last_temp_rx :: rat
  last_hum_rx :: rat
  temp_client :: "int option"
  hum_client :: "int option"

datatype sensor = Temp | Hum

definition env_stop :: "env_monitor \<Rightarrow> env_monitor" where
  "env_stop m = m\<lparr>temp_client := None, hum_client := None, last_temp_rx := 0, last_hum_rx := 0\<rparr>"

text \<open>\<open>reach i\<close>: broker \<open>i\<close> has a row and accepts the connection.\<close>

definition start_sensor :: "(int \<Rightarrow> bool) \<Rightarrow> sensor_cfg \<Rightarrow> int option" where
  "start_sensor reach c =
     (if sc_enabled c \<and> sc_topic c \<noteq> [] \<and> truthy_int (sc_server c) \<and> reach (int_or0 (sc_server c))
      then sc_server c else None)"

definition env_start :: "(int \<Rightarrow> bool) \<Rightarrow> sensor_cfg \<times> sensor_cfg \<Rightarrow> env_monitor \<Rightarrow> env_monitor" where
  "env_start reach c m =
     (env_stop m)\<lparr>env_cfg := Some c, temp_client := start_sensor reach (fst c), hum_client := start_sensor reach (snd c)\<rparr>"

definition dotted :: "string \<Rightarrow> string" where
  "dotted s = map (\<lambda>c. if c = CHR '','' then CHR ''.'' else c) (strip s)"

definition env_message :: "sensor \<Rightarrow> string \<Rightarrow> rat \<Rightarrow> env_monitor \<Rightarrow> env_monitor" where
  "env_message k payload now m =
     (case py_float (dotted payload) of
        None \<Rightarrow> m
      | Some q \<Rightarrow> (case k of
           Temp \<Rightarrow> m\<lparr>temp_value := Some (py_round q), last_temp_rx := now\<rparr>
         | Hum \<Rightarrow> m\<lparr>hum_value := Some (py_round q), last_hum_rx := now\<rparr>))"

definition env_disconnect :: "sensor \<Rightarrow> env_monitor \<Rightarrow> env_monitor" where
  "env_disconnect k m = (case k of Temp \<Rightarrow> m\<lparr>temp_client := None\<rparr> | Hum \<Rightarrow> m\<lparr>hum_client := None\<rparr>)"

definition stale_timeout :: rat where "stale_timeout = 600"

definition env_enabled :: "sensor \<Rightarrow> env_monitor \<Rightarrow> bool" where
  "env_enabled k m =
     (case env_cfg m of None \<Rightarrow> False | Some (t, h) \<Rightarrow> sc_enabled (case k of Temp \<Rightarrow> t | Hum \<Rightarrow> h))"

definition env_online :: "sensor \<Rightarrow> rat \<Rightarrow> env_monitor \<Rightarrow> bool" where
  "env_online k now m =
     (let rx = (case k of Temp \<Rightarrow> last_temp_rx m | Hum \<Rightarrow> last_hum_rx m)
      in env_enabled k m \<and> 0 < rx \<and> now - rx < stale_timeout)"

subsection \<open>Which readings count\<close>

datatype input_source = Local | Api | Api_Fallback

datatype mismatch_level = Soft | Hard

record mismatch =
  mm_level :: mismatch_level
  mm_local :: rat
  mm_api :: rat
  mm_delta :: rat

record verdict =
  v_temperature :: "rat option"
  v_humidity :: "rat option"
  v_temp_source :: input_source
  v_hum_source :: input_source
  v_mismatch :: "mismatch option"

definition sane :: "rat option \<Rightarrow> rat \<Rightarrow> rat \<Rightarrow> bool" where
  "sane v lo hi = (case v of None \<Rightarrow> False | Some q \<Rightarrow> lo \<le> q \<and> q \<le> hi)"

definition api_source :: "sensor \<Rightarrow> rat \<Rightarrow> env_monitor \<Rightarrow> input_source" where
  "api_source k now m = (if env_enabled k m \<and> \<not> env_online k now m then Api_Fallback else Api)"

definition choose_temperature ::
  "weather_settings \<Rightarrow> rat \<Rightarrow> env_monitor \<Rightarrow> rat option \<Rightarrow> rat option \<times> input_source \<times> mismatch option" where
  "choose_temperature ws now m api =
     (case map_option of_int (temp_value m) of
        None \<Rightarrow> (api, api_source Temp now m, None)
      | Some t \<Rightarrow>
          (if \<not> env_online Temp now m \<or> \<not> sane (Some t) (-50) 60 then (api, api_source Temp now m, None)
           else case api of
             None \<Rightarrow> (Some t, Local, None)
           | Some a \<Rightarrow>
               (if \<not> sane (Some a) (-50) 60 then (Some t, Local, None)
                else let d = \<bar>t - a\<bar>; mm = (\<lambda>l. \<lparr>mm_level = l, mm_local = t, mm_api = a, mm_delta = round_dec 1 d\<rparr>)
                     in if ws_hard ws < d then (Some a, Api_Fallback, Some (mm Hard))
                        else (Some t, Local, if ws_soft ws < d then Some (mm Soft) else None))))"

definition evaluate_sensor_source :: "weather_settings \<Rightarrow> rat \<Rightarrow> env_monitor \<Rightarrow> weather_data \<Rightarrow> verdict" where
  "evaluate_sensor_source ws now m w =
     (case choose_temperature ws now m (w_temperature w) of
        (t, src, mm) \<Rightarrow>
          (let hum = map_option of_int (hum_value m);
               (h, hsrc) =
                 (if (case mm of None \<Rightarrow> False | Some x \<Rightarrow> mm_level x = Hard) then (w_humidity w, Api_Fallback)
                  else if env_online Hum now m \<and> sane hum 0 100 then (hum, Local)
                  else (w_humidity w, api_source Hum now m))
           in \<lparr>v_temperature = t, v_humidity = h, v_temp_source = src, v_hum_source = hsrc, v_mismatch = mm\<rparr>))"

definition apply_source :: "verdict \<Rightarrow> weather_data \<Rightarrow> weather_data" where
  "apply_source v w = w\<lparr>w_temperature := v_temperature v, w_humidity := v_humidity v\<rparr>"

text \<open>What a caller finds around it: the clocks, the network, the sensors.\<close>

record outside =
  o_clocks :: clocks
  o_source :: source
  o_env :: env_monitor

definition adjusted_weather :: "outside \<Rightarrow> weather_store \<Rightarrow> weather_data option \<times> weather_store" where
  "adjusted_weather x st =
     (case get_weather (o_clocks x) (o_source x) False st of
        (None, st1) \<Rightarrow> (None, st1)
      | (Some w, st1) \<Rightarrow>
          (Some (apply_source (evaluate_sensor_source (weather_settings_of (wx_settings st1)) (wall (o_clocks x)) (o_env x) w) w), st1))"

definition get_sensor_mismatch :: "outside \<Rightarrow> weather_store \<Rightarrow> mismatch option" where
  "get_sensor_mismatch x st =
     (if \<not> weather_enabled (wx_settings st) then None
      else case get_location (wx_settings st) of
             None \<Rightarrow> None
           | Some (lat, lon) \<Rightarrow>
               (case read_fresh (o_clocks x) lat lon st of
                  None \<Rightarrow> None
                | Some w \<Rightarrow> v_mismatch (evaluate_sensor_source (weather_settings_of (wx_settings st)) (wall (o_clocks x)) (o_env x) w)))"

subsection \<open>Skip rules\<close>

definition has_ms_threshold :: "settings \<Rightarrow> bool" where
  "has_ms_threshold st = (get_setting_value ''weather.wind_threshold_ms'' st \<noteq> None)"

definition wind_threshold :: "settings \<Rightarrow> weather_settings \<Rightarrow> rat" where
  "wind_threshold st ws = (if has_ms_threshold st then ws_wind_ms ws else ws_wind_kmh ws)"

definition wind_exceeds :: "settings \<Rightarrow> weather_settings \<Rightarrow> weather_data \<Rightarrow> bool" where
  "wind_exceeds st ws w = (case w_wind_speed w of None \<Rightarrow> False | Some v \<Rightarrow> wind_threshold st ws < v)"

definition below :: "rat \<Rightarrow> rat option \<Rightarrow> bool" where
  "below q v = (case v of None \<Rightarrow> False | Some t \<Rightarrow> t < q)"

definition check_safety_skip :: "settings \<Rightarrow> weather_settings \<Rightarrow> weather_data \<Rightarrow> bool" where
  "check_safety_skip st ws w =
     (ws_rain ws < w_precipitation_24h w \<or> ws_rain ws < w_precipitation_6h w
      \<or> below (ws_freeze ws) (w_temperature w) \<or> below (ws_freeze ws) (w_min_temp_6h w) \<or> wind_exceeds st ws w)"

datatype skip_kind = Rain_24h | Rain_Forecast | Freeze | Freeze_Forecast | Wind

datatype skip_verdict = Water | Api_Unavailable | Skip skip_kind rat rat

text \<open>The rules in their order; the first that holds names the reason.\<close>

fun first_rule :: "(bool \<times> skip_verdict) list \<Rightarrow> skip_verdict" where
  "first_rule [] = Water"
| "first_rule ((c, v) # rs) = (if c then v else first_rule rs)"

definition skip_rules :: "settings \<Rightarrow> weather_settings \<Rightarrow> weather_data \<Rightarrow> (bool \<times> skip_verdict) list" where
  "skip_rules st ws w =
     [(f_rain ws \<and> ws_rain ws < w_precipitation_24h w, Skip Rain_24h (w_precipitation_24h w) (ws_rain ws)),
      (f_rain ws \<and> ws_rain ws < w_precipitation_6h w, Skip Rain_Forecast (w_precipitation_6h w) (ws_rain ws)),
      (f_freeze ws \<and> below (ws_freeze ws) (w_temperature w), Skip Freeze (or_default 0 (w_temperature w)) (ws_freeze ws)),
      (f_freeze ws \<and> below (ws_freeze ws) (w_min_temp_6h w), Skip Freeze_Forecast (or_default 0 (w_min_temp_6h w)) (ws_freeze ws)),
      (f_wind ws \<and> wind_exceeds st ws w, Skip Wind (or_default 0 (w_wind_speed w)) (wind_threshold st ws))]"

definition should_skip :: "outside \<Rightarrow> weather_store \<Rightarrow> skip_verdict \<times> weather_store" where
  "should_skip x st =
     (let ws = weather_settings_of (wx_settings st) in
      if \<not> ws_enabled ws then (Water, st)
      else case adjusted_weather x st of
             (None, st1) \<Rightarrow> (Api_Unavailable, st1)
           | (Some w, st1) \<Rightarrow> (first_rule (skip_rules (wx_settings st) ws w), st1))"

subsection \<open>The coefficient\<close>

text \<open>A ladder of thresholds: the first step the value is beyond gives the factor.\<close>

fun ladder :: "(bool \<times> rat) list \<Rightarrow> rat" where
  "ladder [] = 1"
| "ladder ((c, f) # rs) = (if c then f else ladder rs)"

definition heat_factor :: "weather_settings \<Rightarrow> rat option \<Rightarrow> rat" where
  "heat_factor ws temp =
     (case temp of None \<Rightarrow> 1
      | Some t \<Rightarrow> (if \<not> f_heat ws then 1
          else ladder [(35 < t, 3/2), (30 < t, 5/4), (25 < t, 11/10), (t < 5, 3/10), (t < 10, 1/2), (t < 15, 7/10), (t < 20, 17/20)]))"

definition humidity_factor :: "weather_settings \<Rightarrow> rat option \<Rightarrow> rat" where
  "humidity_factor ws hum =
     (case hum of None \<Rightarrow> 1
      | Some h \<Rightarrow>
          (let base = ladder [(90 < h, 1/2), (80 < h, 7/10), (70 < h, 17/20), (h < 30, 6/5), (h < 40, 11/10)]
           in if f_humidity ws \<and> ws_humidity ws < h then base * (1 - ws_reduction ws / 100) else base))"

definition rain_factor :: "weather_settings \<Rightarrow> rat \<Rightarrow> rat" where
  "rain_factor ws rain =
     (if 0 < rain \<and> 0 < ws_rain ws \<and> f_rain ws
      then (let ratio = rain / ws_rain ws in if 1 \<le> ratio then 0 else max (3/10) (1 - ratio * (7/10)))
      else 1)"

definition wind_factor :: "settings \<Rightarrow> weather_settings \<Rightarrow> rat option \<Rightarrow> rat" where
  "wind_factor st ws wind =
     (case wind of None \<Rightarrow> 1
      | Some v \<Rightarrow> (if \<not> f_wind ws then 1
          else if has_ms_threshold st then ladder [(21/5 < v, 11/10), (14/5 < v, 21/20)]
          else ladder [(15 < v, 11/10), (10 < v, 21/20)]))"

definition et0_factor :: "rat option \<Rightarrow> rat" where
  "et0_factor e =
     (case e of None \<Rightarrow> 1 | Some q \<Rightarrow> (if 0 < q then 1/2 + 1/2 * min 2 (q / (9/2)) else 1))"

definition coefficient_of :: "settings \<Rightarrow> weather_settings \<Rightarrow> weather_data \<Rightarrow> int" where
  "coefficient_of st ws w =
     (if check_safety_skip st ws w then 0
      else max 0 (min 200 (py_round (100 * heat_factor ws (w_temperature w) * humidity_factor ws (w_humidity w)
             * rain_factor ws (w_precipitation_24h w) * wind_factor st ws (w_wind_speed w) * et0_factor (w_daily_et0 w)))))"

definition get_coefficient :: "outside \<Rightarrow> weather_store \<Rightarrow> int \<times> weather_store" where
  "get_coefficient x st =
     (let ws = weather_settings_of (wx_settings st) in
      if \<not> ws_enabled ws then (100, st)
      else case adjusted_weather x st of
             (None, st1) \<Rightarrow> (100, st1)
           | (Some w, st1) \<Rightarrow> (coefficient_of (wx_settings st) ws w, st1))"

definition adjust_duration :: "outside \<Rightarrow> int \<Rightarrow> weather_store \<Rightarrow> int \<times> weather_store" where
  "adjust_duration x base st =
     (case get_coefficient x st of
        (k, st1) \<Rightarrow> (let a = py_round (of_int (base * k) / 100) in (if 0 < a then max 1 a else 0, st1)))"

subsection \<open>The water balance as the multiplier\<close>

definition balance_enabled :: "settings \<Rightarrow> bool" where
  "balance_enabled st = flag_or False (get_setting_value ''weather.balance.enabled'' st)"

definition balance_coef_fresh :: "int \<Rightarrow> settings \<Rightarrow> bool" where
  "balance_coef_fresh today st =
     (case get_setting_value ''weather.balance.last_recalc_date'' st of
        None \<Rightarrow> False
      | Some s \<Rightarrow>
          (case parse_date s of
             None \<Rightarrow> False
           | Some d \<Rightarrow> today - d \<le> as_int 2 (get_setting_value ''weather.balance.stale_fallback_days'' st)))"

definition get_effective_coefficient :: "outside \<Rightarrow> weather_store \<Rightarrow> int \<times> weather_store" where
  "get_effective_coefficient x st =
     (if balance_enabled (wx_settings st) \<and> balance_coef_fresh (day_of (local_now (o_clocks x))) (wx_settings st)
      then (read_cached_coef (wx_settings st), st) else get_coefficient x st)"

subsection \<open>The widget\<close>

datatype level = Fine | Warn | Danger

definition rain_level :: "weather_settings \<Rightarrow> weather_data option \<Rightarrow> level" where
  "rain_level ws w =
     (let r = (case w of None \<Rightarrow> 0 | Some d \<Rightarrow> w_precipitation_24h d)
      in if ws_rain ws < r then Danger else if ws_rain ws * (1/2) < r then Warn else Fine)"

definition freeze_level :: "weather_settings \<Rightarrow> weather_data option \<Rightarrow> level" where
  "freeze_level ws w =
     (case Option.bind w w_temperature of
        None \<Rightarrow> Fine
      | Some t \<Rightarrow> (let mn = Option.bind w w_min_temp_6h in
          if t < ws_freeze ws \<or> below (ws_freeze ws) mn then Danger
          else if below (ws_freeze ws + 3) mn then Warn else Fine))"

definition wind_level :: "settings \<Rightarrow> weather_settings \<Rightarrow> weather_data option \<Rightarrow> level" where
  "wind_level st ws w =
     (case Option.bind w w_wind_speed of
        None \<Rightarrow> Fine
      | Some v \<Rightarrow> (let thr = wind_threshold st ws in
          if thr < v then Danger else if thr * (7/10) < v then Warn else Fine))"

definition humidity_level :: "weather_settings \<Rightarrow> weather_data option \<Rightarrow> level" where
  "humidity_level ws w =
     (case Option.bind w w_humidity of None \<Rightarrow> Fine | Some h \<Rightarrow> (if ws_humidity ws < h then Warn else Fine))"

definition heat_level :: "weather_data option \<Rightarrow> level" where
  "heat_level w =
     (case Option.bind w w_temperature of
        None \<Rightarrow> Fine | Some t \<Rightarrow> (if 35 < t then Danger else if 30 < t then Warn else Fine))"

definition factor_levels :: "settings \<Rightarrow> weather_data option \<Rightarrow> (level \<times> bool) list" where
  "factor_levels st w =
     (let ws = weather_settings_of st in
      [(rain_level ws w, f_rain ws), (freeze_level ws w, f_freeze ws), (wind_level st ws w, f_wind ws),
       (humidity_level ws w, f_humidity ws), (heat_level w, f_heat ws)])"

datatype multiplier_mode = Balance_Mode | Shadow_Mode | Legacy_Mode

text \<open>
  What \<open>get_weather_extended\<close> reports as the mode, the coefficient it calls applied, the legacy
  coefficient and the balance coefficient.
\<close>

definition reported_multiplier ::
  "outside \<Rightarrow> weather_store \<Rightarrow> (multiplier_mode \<times> int option \<times> int \<times> int option) \<times> weather_store" where
  "reported_multiplier x st =
     (case get_coefficient x st of
        (k, st1) \<Rightarrow>
          (let s = wx_settings st1;
               fresh = balance_enabled s \<and> balance_coef_fresh (day_of (local_now (o_clocks x))) s;
               bal = (if has_computed s then Some (read_cached_coef s) else None)
           in ((if fresh then (Balance_Mode, bal, k, bal)
                else if bal \<noteq> None then (Shadow_Mode, Some k, k, bal) else (Legacy_Mode, Some k, k, None)), st1)))"

subsection \<open>What the scheduler's threads receive\<close>

text \<open>Each hook asks on its own: the switch, the skip verdict and the coefficient of one second.\<close>

definition skips :: "skip_verdict \<Rightarrow> bool" where
  "skips v = (case v of Skip _ _ _ \<Rightarrow> True | _ \<Rightarrow> False)"

definition weather_of :: "outside \<Rightarrow> weather_store \<Rightarrow> weather" where
  "weather_of x st =
     \<lparr>wx_enabled = weather_enabled (wx_settings st), wx_skip = skips (fst (should_skip x st)),
      wx_coeff = fst (get_coefficient x st)\<rparr>"

text \<open>The kind of decision \<open>log_decision\<close> records.\<close>

definition decision_text :: "int \<Rightarrow> bool \<Rightarrow> string" where
  "decision_text k skip = (if skip then ''skip'' else if k = 100 then ''water'' else ''adjust'')"

end
