(* ===== verification/Zones_Api.thy ===== *)
theory Zones_Api
  imports Http_Control Weather_Adjust
begin

text \<open>
  The zone requests of \<open>src/routes/zones_crud_api.py\<close>: editing, creating, deleting and importing zones,
  the next watering of one zone and of many, and the check whether a new duration makes programs
  overlap.  The keys of an edit are \<open>zone_upd\<close> values with their columns' types, those of a new zone
  a \<open>zone_req\<close>; the CSV log and the audit rows are left out.
\<close>

subsection \<open>Editing the table\<close>

datatype zone_reply = Zone_Saved zone | Zone_Created bool zone | Zone_Gone | Zones_Imported nat nat | Zone_Refused nat

text \<open>\<open>_STATE_MACHINE_FIELDS\<close>.\<close>

fun state_field :: "zone_upd \<Rightarrow> bool" where
  "state_field (U_state v) = True"
| "state_field (U_commanded v) = True"
| "state_field (U_observed v) = True"
| "state_field (U_faults v) = True"
| "state_field (U_last_fault v) = True"
| "state_field u = False"

definition max_duration :: int where "max_duration = 3600"

fun bad_field :: "zone_upd \<Rightarrow> bool" where
  "bad_field (U_duration v) = (case v of None \<Rightarrow> True | Some n \<Rightarrow> n < 1 \<or> max_duration < n)"
| "bad_field (U_name v) = (strip v = [])"
| "bad_field u = False"

definition put_zone_api :: "int \<Rightarrow> zone_upd list \<Rightarrow> 'a world_scheme \<Rightarrow> zone_reply \<times> 'a world_scheme" where
  "put_zone_api i us w =
     (if list_ex state_field us \<or> list_ex bad_field us then (Zone_Refused 400, w)
      else (let w1 = update_zone i us w
            in case get_zone w1 i of
                 None \<Rightarrow> (Zone_Refused 404, w1)
               | Some z \<Rightarrow> (Zone_Saved z, add_log ''zone_edit'' [i] w1)))"

definition delete_zone_api :: "int \<Rightarrow> 'a world_scheme \<Rightarrow> zone_reply \<times> 'a world_scheme" where
  "delete_zone_api i w =
     (case delete_zone i w of
        (True, w1) \<Rightarrow> (Zone_Gone, add_log ''zone_delete'' [i] w1)
      | (False, w1) \<Rightarrow> (Zone_Refused 404, w1))"

definition create_zone_api :: "zone_req \<Rightarrow> 'a world_scheme \<Rightarrow> zone_reply \<times> 'a world_scheme" where
  "create_zone_api r w =
     (if rq_duration_or10 r < 1 \<or> max_duration < rq_duration_or10 r \<or> strip (str_or default_zone_name (rq_name r)) = []
      then (Zone_Refused 400, w)
      else (case create_zone r w of
              (None, w1) \<Rightarrow> (Zone_Refused 400, w1)
            | (Some z, w1) \<Rightarrow> (Zone_Created (mqtt_server_id z = None) z, add_log ''zone_create'' [zid z] w1)))"

text \<open>The state keys of an entry are stripped before the import; a \<open>zone_req\<close> has none.\<close>

definition import_zones_api :: "zone_req list \<Rightarrow> 'a world_scheme \<Rightarrow> zone_reply \<times> 'a world_scheme" where
  "import_zones_api rs w =
     (if rs = [] then (Zone_Refused 400, w)
      else (case bulk_upsert_zones rs w of
              ((created, updated), w1) \<Rightarrow> (Zones_Imported created updated, add_log ''zones_import'' [] w1)))"

subsection \<open>The next watering of one zone\<close>

text \<open>A verdict of the weather moves the search to tomorrow, a postponement to its end.\<close>

definition weather_skip_today :: "outside \<Rightarrow> weather_store \<Rightarrow> bool \<times> weather_store" where
  "weather_skip_today x st =
     (if \<not> weather_enabled (wx_settings st) then (False, st)
      else (case should_skip x st of (v, st1) \<Rightarrow> (skips v, st1)))"

definition search_from :: "bool \<Rightarrow> time \<Rightarrow> time" where
  "search_from skip now = (if skip then day_start now + 86400 else now)"

text \<open>\<open>strptime(s, "%H:%M")\<close>.\<close>

definition strptime_hm :: "string \<Rightarrow> (int \<times> int) option" where
  "strptime_hm s =
     (case split_on (CHR '':'') s of
        [hs, ms] \<Rightarrow>
          (case (short_num 2 hs, short_num 2 ms) of
             (Some h, Some m) \<Rightarrow> (if valid_hm h m then Some (h, m) else None)
           | _ \<Rightarrow> None)
      | _ \<Rightarrow> None)"

text \<open>The days searched from \<open>now\<close>: \<open>mins\<close> minutes after midnight, on a day of the program (every day when it lists none).\<close>

fun first_slot :: "int list \<Rightarrow> bool \<Rightarrow> int \<Rightarrow> time \<Rightarrow> int \<Rightarrow> nat \<Rightarrow> nat \<Rightarrow> time option" where
  "first_slot days cancelled today now mins off 0 = None"
| "first_slot days cancelled today now mins off (Suc n) =
     (let day = day_start now + 86400 * int off; t = day + minutes mins
      in if days \<noteq> [] \<and> weekday day \<notin> set days \<or> t \<le> now \<or> cancelled \<and> day_of day = today
         then first_slot days cancelled today now mins (off + 1) n
         else Some t)"

definition cancelled_today :: "'a db_scheme \<Rightarrow> program \<Rightarrow> int \<Rightarrow> int \<Rightarrow> bool" where
  "cancelled_today d p today g = (g \<noteq> 0 \<and> is_program_run_cancelled_for_group d (prog_id p) today g)"

definition single_candidate :: "'a db_scheme \<Rightarrow> zone \<Rightarrow> int \<Rightarrow> time \<Rightarrow> program \<Rightarrow> py_error + time option" where
  "single_candidate d z today now p =
     (if zid z \<notin> set (prog_zones p) then Inr None
      else case strptime_hm (prog_time p) of
             None \<Rightarrow> Inl Value_Error
           | Some (h, m) \<Rightarrow>
               (case minutes_before d (zid z) (sort (prog_zones p)) 0 of
                  Inl e \<Rightarrow> Inl e
                | Inr None \<Rightarrow> Inr None
                | Inr (Some cum) \<Rightarrow>
                    Inr (first_slot (prog_days p) (cancelled_today d p today (zone_gid z)) today now (60 * h + m + cum) 0 14)))"

fun single_search ::
  "'a db_scheme \<Rightarrow> zone \<Rightarrow> int \<Rightarrow> time \<Rightarrow> program list \<Rightarrow> (time \<times> program) option \<Rightarrow> py_error + (time \<times> program) option" where
  "single_search d z today now [] best = Inr best"
| "single_search d z today now (p # ps) best =
     (case single_candidate d z today now p of
        Inl e \<Rightarrow> Inl e
      | Inr None \<Rightarrow> single_search d z today now ps best
      | Inr (Some t) \<Rightarrow>
          single_search d z today now ps
            (case best of None \<Rightarrow> Some (t, p) | Some (b, q) \<Rightarrow> if t < b then Some (t, p) else Some (b, q)))"

definition single_next :: "'a db_scheme \<Rightarrow> zone \<Rightarrow> bool \<Rightarrow> time \<Rightarrow> py_error + (time \<times> program) option" where
  "single_next d z skip now =
     single_search d z (day_of now) (effective_now z (search_from skip now)) (get_programs d) None"

datatype next_reply =
    Next_At time string string nat nat
  | Never
  | In_No_Program
  | No_Such_Zone
  | Server_Error

definition next_watering_api :: "'a db_scheme \<Rightarrow> int \<Rightarrow> bool \<Rightarrow> time \<Rightarrow> next_reply" where
  "next_watering_api d i skip now =
     (case get_zone d i of
        None \<Rightarrow> No_Such_Zone
      | Some z \<Rightarrow>
          (if \<forall>p \<in> set (get_programs d). i \<notin> set (prog_zones p) then In_No_Program
           else case single_next d z skip now of
                  Inl e \<Rightarrow> Server_Error
                | Inr None \<Rightarrow> Never
                | Inr (Some (t, p)) \<Rightarrow>
                    Next_At t (prog_name p) (prog_time p) (length (takeWhile (\<lambda>j. j \<noteq> i) (sort (prog_zones p))) + 1)
                      (length (prog_zones p))))"

subsection \<open>The next watering of many zones\<close>

text \<open>
  The list is searched program by program: where each zone stands in it, the next start of the whole
  program and whether it is running now.  A start time that does not parse is midnight; one that is
  no time of day raises on the first day it is needed.
\<close>

fun zone_offset :: "zone list \<Rightarrow> int \<Rightarrow> int list \<Rightarrow> int \<Rightarrow> int option \<Rightarrow> int option" where
  "zone_offset zs i [] cum found = found"
| "zone_offset zs i (j # js) cum found = zone_offset zs i js (cum + zone_dur zs j) (if j = i then Some cum else found)"

fun start_search :: "int list \<Rightarrow> int \<Rightarrow> int \<Rightarrow> time \<Rightarrow> nat \<Rightarrow> nat \<Rightarrow> py_error + time option" where
  "start_search days h m now off 0 = Inr None"
| "start_search days h m now off (Suc n) =
     (let c = now + 86400 * int off in
      if weekday c \<in> set days then
        (if \<not> valid_hm h m then Inl Value_Error
         else if now < at_hm c h m then Inr (Some (at_hm c h m))
         else start_search days h m now (off + 1) n)
      else start_search days h m now (off + 1) n)"

record bulk_info =
  bi_next :: "time option"
  bi_today :: "time option"
  bi_running :: bool
  bi_elapsed :: int

definition bulk_time :: "program \<Rightarrow> (int \<times> int) option" where
  "bulk_time p = parse_hhmm_once (if prog_time p = [] then ''00:00'' else prog_time p)"

definition bulk_info :: "zone list \<Rightarrow> time \<Rightarrow> program \<Rightarrow> py_error + bulk_info" where
  "bulk_info zs now p =
     (case (case bulk_time p of None \<Rightarrow> (0, 0) | Some hm \<Rightarrow> hm) of
        (h, m) \<Rightarrow>
          (if weekday now \<in> set (prog_days p) \<and> \<not> valid_hm h m then Inl Value_Error
           else
             (let today = (if weekday now \<in> set (prog_days p) then Some (at_hm now h m) else None);
                  len = total_dur zs (prog_zones p);
                  running = (case today of None \<Rightarrow> False | Some t \<Rightarrow> t \<le> now \<and> 0 < len \<and> now < t + minutes len);
                  elapsed = (if running then (now - the today) div 60 else 0)
              in case start_search (prog_days p) h m now 0 14 of
                   Inl e \<Rightarrow> Inl e
                 | Inr nxt \<Rightarrow> Inr \<lparr>bi_next = nxt, bi_today = today, bi_running = running, bi_elapsed = elapsed\<rparr>)))"

definition first_program_start_after :: "program \<Rightarrow> time \<Rightarrow> py_error + time option" where
  "first_program_start_after p lo =
     (case bulk_time p of
        None \<Rightarrow> Inr None
      | Some (h, m) \<Rightarrow> start_search (prog_days p) h m lo 0 15)"

text \<open>The next day of the program, from tomorrow on; here an impossible time is passed over.\<close>

definition skip_cancelled :: "program \<Rightarrow> time \<Rightarrow> time option" where
  "skip_cancelled p now =
     (case bulk_time p of
        None \<Rightarrow> None
      | Some (h, m) \<Rightarrow>
          (case List.find (\<lambda>off. weekday (now + 86400 * int off) \<in> set (prog_days p)) [1..<15] of
             None \<Rightarrow> None
           | Some off \<Rightarrow> if valid_hm h m then Some (at_hm (now + 86400 * int off) h m) else None))"

definition bulk_candidate ::
  "'a db_scheme \<Rightarrow> zone list \<Rightarrow> time \<Rightarrow> int \<Rightarrow> program \<times> bulk_info \<Rightarrow> py_error + time option" where
  "bulk_candidate d zs now i pb =
     (case pb of (p, b) \<Rightarrow>
      case zone_offset zs i (sort (prog_zones p)) 0 None of
        None \<Rightarrow> Inr None
      | Some off \<Rightarrow>
          (let zo = row_at zid zs i;
               zone_now = (case zo of None \<Rightarrow> now | Some z \<Rightarrow> effective_now z now);
               g = (case zo of None \<Rightarrow> 0 | Some z \<Rightarrow> zone_gid z);
               cancelled = (bi_today b \<noteq> None \<and> cancelled_today d p (day_of now) g);
               after = (\<lambda>t. if t \<le> zone_now then None else Some t)
           in if bi_running b \<and> \<not> cancelled \<and> zone_now \<le> now then
                Inr (if bi_elapsed b \<le> off then after (the (bi_today b) + minutes off)
                     else (case bi_next b of None \<Rightarrow> None | Some t \<Rightarrow> after (t + minutes off)))
              else
                (case (if zone_now \<noteq> now then first_program_start_after p zone_now else Inr (bi_next b)) of
                   Inl e \<Rightarrow> Inl e
                 | Inr None \<Rightarrow> Inr None
                 | Inr (Some t) \<Rightarrow>
                     Inr (after ((if cancelled \<and> zone_now = now
                                  then (case skip_cancelled p now of None \<Rightarrow> t | Some t' \<Rightarrow> t') else t) + minutes off)))))"

fun all_infos :: "zone list \<Rightarrow> time \<Rightarrow> program list \<Rightarrow> py_error + (program \<times> bulk_info) list" where
  "all_infos zs now [] = Inr []"
| "all_infos zs now (p # ps) =
     (case bulk_info zs now p of
        Inl e \<Rightarrow> Inl e
      | Inr b \<Rightarrow> (case all_infos zs now ps of Inl e \<Rightarrow> Inl e | Inr bs \<Rightarrow> Inr ((p, b) # bs)))"

fun bulk_search ::
  "'a db_scheme \<Rightarrow> zone list \<Rightarrow> time \<Rightarrow> int \<Rightarrow> (program \<times> bulk_info) list \<Rightarrow> time option \<Rightarrow> py_error + time option" where
  "bulk_search d zs now i [] best = Inr best"
| "bulk_search d zs now i (pb # pbs) best =
     (case bulk_candidate d zs now i pb of Inl e \<Rightarrow> Inl e | Inr c \<Rightarrow> bulk_search d zs now i pbs (min_opt best c))"

fun bulk_items ::
  "'a db_scheme \<Rightarrow> zone list \<Rightarrow> time \<Rightarrow> (program \<times> bulk_info) list \<Rightarrow> int list \<Rightarrow> py_error + (int \<times> time option) list" where
  "bulk_items d zs now pbs [] = Inr []"
| "bulk_items d zs now pbs (i # is) =
     (case bulk_search d zs now i pbs None of
        Inl e \<Rightarrow> Inl e
      | Inr t \<Rightarrow> (case bulk_items d zs now pbs is of Inl e \<Rightarrow> Inl e | Inr ts \<Rightarrow> Inr ((i, t) # ts)))"

text \<open>Without a list of zones it is all zones but those out of service; an exception is answered with 500.\<close>

definition next_watering_bulk_api :: "'a db_scheme \<Rightarrow> int list \<Rightarrow> bool \<Rightarrow> time \<Rightarrow> py_error + (int \<times> time option) list" where
  "next_watering_bulk_api d is skip now =
     (let zs = get_zones d;
          js = (if is = [] then map zid (filter (\<lambda>z. zone_gid z \<noteq> 999) zs) else is);
          t = search_from skip now
      in case all_infos zs t (get_programs d) of
           Inl e \<Rightarrow> Inl e
         | Inr pbs \<Rightarrow> bulk_items d zs t pbs js)"

subsection \<open>Overlaps after a change of duration\<close>

record dur_conflict =
  dc_checked :: int
  dc_other :: int
  dc_zones :: "int set"
  dc_groups :: "int set"
  dc_start :: int
  dc_end :: int

text \<open>Python's \<open>for\<close> with an exception (\<open>None\<close>: a zone without a duration is no integer).\<close>

fun collect :: "('a \<Rightarrow> 'b list option) \<Rightarrow> 'a list \<Rightarrow> 'b list option" where
  "collect f [] = Some []"
| "collect f (x # xs) =
     (case f x of None \<Rightarrow> None | Some ys \<Rightarrow> (case collect f xs of None \<Rightarrow> None | Some zs \<Rightarrow> Some (ys @ zs)))"

fun sum_durations :: "(int \<Rightarrow> int option) \<Rightarrow> int list \<Rightarrow> int option" where
  "sum_durations dur [] = Some 0"
| "sum_durations dur (i # is) =
     (case dur i of None \<Rightarrow> None | Some n \<Rightarrow> map_option (\<lambda>s. n + s) (sum_durations dur is))"

definition group_set :: "zone list \<Rightarrow> int list \<Rightarrow> int set" where
  "group_set zs is = {g. \<exists>i \<in> set is. \<exists>z. row_at zid zs i = Some z \<and> group_id z = Some g}"

definition other_conflict ::
  "zone list \<Rightarrow> (int \<Rightarrow> int option) \<Rightarrow> program \<Rightarrow> int \<Rightarrow> int \<Rightarrow> program \<Rightarrow> dur_conflict list option" where
  "other_conflict zs dur p start endm q =
     (let common = set (prog_zones p) \<inter> set (prog_zones q); cg = group_set zs (prog_zones p) \<inter> group_set zs (prog_zones q) in
      if prog_id q = prog_id p \<or> set (prog_days p) \<inter> set (prog_days q) = {} \<or> common = {} \<and> cg = {} then Some []
      else case start_minutes (prog_time q) of
             None \<Rightarrow> Some []
           | Some sb \<Rightarrow>
               (case sum_durations dur (prog_zones q) of
                  None \<Rightarrow> None
                | Some n \<Rightarrow>
                    Some (if start < sb + n \<and> sb < endm
                          then [\<lparr>dc_checked = prog_id p, dc_other = prog_id q, dc_zones = common, dc_groups = cg,
                                 dc_start = max start sb, dc_end = min endm (sb + n)\<rparr>]
                          else [])))"

definition checked_conflicts ::
  "zone list \<Rightarrow> (int \<Rightarrow> int option) \<Rightarrow> program list \<Rightarrow> int \<Rightarrow> int \<Rightarrow> program \<Rightarrow> dur_conflict list option" where
  "checked_conflicts zs dur ps i n p =
     (if i \<notin> set (prog_zones p) then Some []
      else case start_minutes (prog_time p) of
             None \<Rightarrow> Some []
           | Some start \<Rightarrow>
               (case sum_durations (\<lambda>j. if j = i then Some n else dur j) (prog_zones p) of
                  None \<Rightarrow> None
                | Some len \<Rightarrow> collect (other_conflict zs dur p start (start + len)) ps))"

text \<open>One zone: 404 for an unknown one, an uncaught \<open>TypeError\<close> where a duration is missing.\<close>

definition check_duration_api :: "'a db_scheme \<Rightarrow> int \<Rightarrow> int \<Rightarrow> nat + dur_conflict list" where
  "check_duration_api d i n =
     (if get_zone d i = None then Inl 404
      else case collect (checked_conflicts (get_zones d) (get_zone_duration d) (get_programs d) i n) (get_programs d) of
             None \<Rightarrow> Inl 500
           | Some cs \<Rightarrow> Inr cs)"

text \<open>Many zones, each on its own; missing durations count as zero and the answers are keyed by zone.\<close>

definition check_durations_api :: "'a db_scheme \<Rightarrow> (int \<times> int) list \<Rightarrow> nat + (int \<rightharpoonup> dur_conflict list)" where
  "check_durations_api d changes =
     (if changes = [] then Inl 400
      else Inr (fold (\<lambda>(i, n) m. m(i :=
             collect (checked_conflicts (get_zones d) (\<lambda>j. Some (zone_dur (get_zones d) j)) (get_programs d) i n) (get_programs d)))
           changes Map.empty))"

end
