(* ===== verification/Float_Monitor.thy ===== *)
theory Float_Monitor
  imports Zone_Store Calendar
begin

text \<open>
  The tank float switches: \<open>src/services/float_monitor.py\<close> and its repository
  \<open>src/db/float.py\<close>.  A state and a subscription per group are rows of a dict in insertion
  order; \<open>time.monotonic()\<close> (a rational) and the wall clock are arguments of every step.  A
  handler runs as one step: it holds the monitor's lock except while it calls the queue and the
  notifier, whose calls are collected in \<open>float_out\<close>.  The three configuration columns with a
  default are not NULL; \<open>paused_since_mono\<close> and \<open>confirmed_level_ok\<close>, which nothing reads, and
  the log lines are left out.
\<close>

subsection \<open>State\<close>

definition float_min_run_time :: rat where "float_min_run_time = 60"
definition float_max_trips :: nat where "float_max_trips = 3"
definition float_trip_window :: rat where "float_trip_window = 300"

record float_state =
  fs_group :: int
  level_ok :: bool
  paused :: bool
  paused_since :: "time option"
  timeout_at :: "rat option"
  timeout_minutes :: int
  paused_zones :: "int list"
  resumed :: bool
  emergency_stopped :: bool
  debounce_seconds :: int
  pending_level_ok :: "bool option"
  pending_since :: "rat option"
  trip_times :: "rat list"
  last_resume_at :: "rat option"

definition fresh_float :: "int \<Rightarrow> float_state" where
  "fresh_float g = \<lparr>fs_group = g, level_ok = True, paused = False, paused_since = None,
     timeout_at = None, timeout_minutes = 30, paused_zones = [], resumed = False,
     emergency_stopped = False, debounce_seconds = 5, pending_level_ok = None,
     pending_since = None, trip_times = [], last_resume_at = None\<rparr>"

text \<open>The float columns of a row of \<open>groups\<close>, and what the monitor keeps of them.\<close>

record float_cfg =
  fc_id :: int
  fc_name :: string
  fc_enabled :: "int option"
  fc_topic :: "string option"
  fc_server :: "int option"
  fc_mode :: string
  fc_timeout :: int
  fc_debounce :: int

record subscription =
  sub_group :: int
  sub_topic :: string
  sub_server :: int
  sub_mode :: string
  sub_timeout :: int
  sub_debounce :: int
  sub_tripped :: string
  sub_name :: string

datatype float_out =
    Cancel_Queue int
  | Notify_Emergency int nat
  | Notify_Low int
  | Notify_Restored int
  | Notify_Timeout int int
  | Mqtt_Subscribe int string
  | Mqtt_Unsubscribe int string

record tank = db +
  float_rows :: "float_cfg list"
  float_events :: "(int \<times> string \<times> int list) list"
  clients :: "int list"
  notifier :: bool
  float_states :: "float_state list"
  subscriptions :: "subscription list"
  topic_groups :: "(string \<times> int) list"
  started :: bool
  late_groups :: "int list"
  float_out :: "float_out list"

definition float_of :: "tank \<Rightarrow> int \<Rightarrow> float_state option" where
  "float_of s g = row_at fs_group (float_states s) g"

definition sub_of :: "tank \<Rightarrow> int \<Rightarrow> subscription option" where
  "sub_of s g = row_at sub_group (subscriptions s) g"

definition put_float :: "int \<Rightarrow> (float_state \<Rightarrow> float_state) \<Rightarrow> tank \<Rightarrow> tank" where
  "put_float g f s = s\<lparr>float_states := upd_rows (\<lambda>r. fs_group r = g) f (float_states s)\<rparr>"

definition emit :: "float_out \<Rightarrow> tank \<Rightarrow> tank" where
  "emit x s = s\<lparr>float_out := float_out s @ [x]\<rparr>"

definition notify :: "float_out \<Rightarrow> tank \<Rightarrow> tank" where
  "notify x s = (if notifier s then emit x s else s)"

text \<open>Reading a row after an update that keeps the keys.\<close>

lemma row_at_upd_keys:
  "(\<And>r. key (f r) = key r) \<Longrightarrow>
     row_at key (upd_rows p f rows) i = map_option (\<lambda>r. if p r then f r else r) (row_at key rows i)"
  by (induction rows) auto

subsection \<open>The repository\<close>

definition float_columns :: "zone \<Rightarrow> zone" where
  "float_columns z = z\<lparr>zstate := ''paused'', pause_reason := Some ''float'',
     pause_remaining := Some (int_or0 (duration z))\<rparr>"

definition is_active_in :: "int \<Rightarrow> zone \<Rightarrow> bool" where
  "is_active_in g z = (group_id z = Some g \<and> zstate z = ''on'')"

definition pause_active_zones :: "int \<Rightarrow> 'a db_scheme \<Rightarrow> int list \<times> 'a db_scheme" where
  "pause_active_zones g s =
     (if \<not> db_up s then ([], s)
      else (map zid (filter (is_active_in g) (zones s)),
            s\<lparr>zones := upd_rows (\<lambda>z. zid z \<in> zid ` set (filter (is_active_in g) (zones s))) float_columns (zones s)\<rparr>))"

definition log_float_event :: "int \<Rightarrow> string \<Rightarrow> int list \<Rightarrow> tank \<Rightarrow> tank" where
  "log_float_event g kind zs s =
     (if db_up s then s\<lparr>float_events := float_events s @ [(g, kind, zs)]\<rparr> else s)"

definition get_float_enabled_groups :: "tank \<Rightarrow> float_cfg list" where
  "get_float_enabled_groups s = (if db_up s then filter (\<lambda>r. fc_enabled r = Some 1) (float_rows s) else [])"

definition get_float_group :: "tank \<Rightarrow> int \<Rightarrow> float_cfg option" where
  "get_float_group s g = (if db_up s then row_at fc_id (float_rows s) g else None)"

subsection \<open>Level changes\<close>

definition prune_trips :: "rat \<Rightarrow> rat list \<Rightarrow> rat list" where
  "prune_trips now ts = filter (\<lambda>t. now - float_trip_window \<le> t) ts"

definition record_trip :: "rat \<Rightarrow> float_state \<Rightarrow> float_state" where
  "record_trip now gs = gs\<lparr>trip_times := prune_trips now (trip_times gs @ [now])\<rparr>"

definition stop_unstable :: "time \<Rightarrow> float_state \<Rightarrow> float_state" where
  "stop_unstable clock gs = gs\<lparr>emergency_stopped := True, paused := True, paused_since := Some clock, resumed := False\<rparr>"

definition pause_low :: "rat \<Rightarrow> time \<Rightarrow> float_state \<Rightarrow> float_state" where
  "pause_low now clock gs = gs\<lparr>paused := True, paused_since := Some clock,
     timeout_at := Some (now + of_int (timeout_minutes gs * 60)), resumed := False\<rparr>"

definition on_level_low :: "rat \<Rightarrow> time \<Rightarrow> float_state \<Rightarrow> tank \<Rightarrow> tank" where
  "on_level_low now clock gs s =
     (if emergency_stopped gs then s
      else let g = fs_group gs;
               gs1 = record_trip now gs;
               s1 = put_float g (record_trip now) s
           in if float_max_trips \<le> length (trip_times gs1)
              then notify (Notify_Emergency g (length (trip_times gs1)))
                     (emit (Cancel_Queue g) (put_float g (stop_unstable clock) s1))
              else let s2 = put_float g (pause_low now clock) s1;
                       (zs, s3) = pause_active_zones g s2;
                       s4 = put_float g (\<lambda>r. r\<lparr>paused_zones := zs\<rparr>) s3
                   in notify (Notify_Low g) (log_float_event g ''float_pause'' zs s4))"

definition resume_level :: "rat \<Rightarrow> float_state \<Rightarrow> float_state" where
  "resume_level now gs = gs\<lparr>last_resume_at := Some now, paused := False, timeout_at := None, resumed := True\<rparr>"

definition on_level_restored :: "rat \<Rightarrow> float_state \<Rightarrow> tank \<Rightarrow> tank" where
  "on_level_restored now gs s =
     (if emergency_stopped gs \<or> \<not> paused gs then s
      else let g = fs_group gs;
               s1 = put_float g (resume_level now) s;
               s2 = log_float_event g ''float_resume'' (paused_zones gs) s1;
               s3 = put_float g (\<lambda>r. r\<lparr>paused_zones := []\<rparr>) s2
           in notify (Notify_Restored g) s3)"

definition apply_level :: "rat \<Rightarrow> time \<Rightarrow> bool \<Rightarrow> float_state \<Rightarrow> tank \<Rightarrow> tank" where
  "apply_level now clock b gs s =
     (let s1 = put_float (fs_group gs) (\<lambda>r. r\<lparr>level_ok := b\<rparr>) s
      in if b then on_level_restored now gs s1 else on_level_low now clock gs s1)"

subsection \<open>Messages\<close>

definition float_payload :: "string \<Rightarrow> bool option" where
  "float_payload p = (let v = lower (strip p) in
     if v \<in> {''1'', ''true'', ''on''} then Some True
     else if v \<in> {''0'', ''false'', ''off''} then Some False else None)"

definition level_of :: "tank \<Rightarrow> int \<Rightarrow> string \<Rightarrow> bool option" where
  "level_of s g p = map_option (\<lambda>raw. if (case sub_of s g of None \<Rightarrow> ''NO'' | Some c \<Rightarrow> sub_mode c) = ''NC''
     then \<not> raw else raw) (float_payload p)"

definition set_pending :: "bool option \<Rightarrow> rat option \<Rightarrow> float_state \<Rightarrow> float_state" where
  "set_pending b t r = r\<lparr>pending_level_ok := b, pending_since := t\<rparr>"

definition held_long_enough :: "rat \<Rightarrow> float_state \<Rightarrow> bool" where
  "held_long_enough now gs = (case pending_since gs of None \<Rightarrow> False
     | Some t \<Rightarrow> of_int (debounce_seconds gs) \<le> now - t)"

definition on_float_message :: "rat \<Rightarrow> time \<Rightarrow> int \<Rightarrow> string \<Rightarrow> tank \<Rightarrow> tank" where
  "on_float_message now clock g p s =
     (case level_of s g p of None \<Rightarrow> s
      | Some b \<Rightarrow>
          (case float_of s g of None \<Rightarrow> s
           | Some gs \<Rightarrow>
               if debounce_seconds gs \<le> 0 then apply_level now clock b gs s
               else if pending_level_ok gs \<noteq> Some b then put_float g (set_pending (Some b) (Some now)) s
               else if held_long_enough now gs
               then put_float g (set_pending None None) (apply_level now clock b gs s)
               else s))"

subsection \<open>Timeouts\<close>

definition timed_out :: "rat \<Rightarrow> float_state \<Rightarrow> bool" where
  "timed_out now gs = (paused gs \<and> (case timeout_at gs of None \<Rightarrow> False | Some t \<Rightarrow> t \<le> now))"

definition stop_late :: "float_state \<Rightarrow> float_state" where
  "stop_late gs = gs\<lparr>timeout_at := None, emergency_stopped := True\<rparr>"

definition stop_timed_out :: "int \<Rightarrow> tank \<Rightarrow> tank" where
  "stop_timed_out g s =
     (let late = (case sub_of s g of None \<Rightarrow> 30 | Some c \<Rightarrow> sub_timeout c);
          s1 = emit (Cancel_Queue g) s
      in notify (Notify_Timeout g late) (log_float_event g ''float_timeout_emergency_stop'' [] s1))"

text \<open>
  The check marks the late groups under the lock.  The calls that follow are made without it, one group
  after another, and each may block: the groups still to be called are kept in \<open>late_groups\<close>, and
  \<open>stop_next_late\<close> is the checker's next step.
\<close>

definition check_timeouts :: "rat \<Rightarrow> tank \<Rightarrow> tank" where
  "check_timeouts now s =
     s\<lparr>float_states := upd_rows (timed_out now) stop_late (float_states s),
       late_groups := late_groups s @ map fs_group (filter (timed_out now) (float_states s))\<rparr>"

definition stop_next_late :: "tank \<Rightarrow> tank" where
  "stop_next_late s = (case late_groups s of [] \<Rightarrow> s | g # gs \<Rightarrow> stop_timed_out g (s\<lparr>late_groups := gs\<rparr>))"

subsection \<open>Loading and subscribing\<close>

definition put_key :: "('r \<Rightarrow> 'k) \<Rightarrow> 'r \<Rightarrow> 'r list \<Rightarrow> 'r list" where
  "put_key key r rows = (if key r \<in> key ` set rows
     then map (\<lambda>x. if key x = key r then r else x) rows else rows @ [r])"

definition tripped_topic_of :: "int \<Rightarrow> string" where
  "tripped_topic_of g = ''/devices/float-watchdog/controls/group_'' @ str_int g @ ''_tripped''"

definition configured :: "int \<Rightarrow> int \<Rightarrow> float_state \<Rightarrow> float_state" where
  "configured deb late r = r\<lparr>debounce_seconds := deb, timeout_minutes := late\<rparr>"

definition subscribe_group :: "float_cfg \<Rightarrow> tank \<Rightarrow> tank" where
  "subscribe_group c s =
     (let g = fc_id c; tp = strip (str_or [] (fc_topic c)) in
      if tp = [] \<or> \<not> truthy_int (fc_server c) \<or> int_or0 (fc_server c) \<notin> set (clients s) then s
      else let srv = int_or0 (fc_server c); trip = tripped_topic_of g;
               s1 = s\<lparr>subscriptions := put_key sub_group
                        \<lparr>sub_group = g, sub_topic = tp, sub_server = srv, sub_mode = fc_mode c,
                         sub_timeout = fc_timeout c, sub_debounce = fc_debounce c,
                         sub_tripped = trip, sub_name = fc_name c\<rparr> (subscriptions s),
                      topic_groups := put_key fst (trip, g) (put_key fst (tp, g) (topic_groups s))\<rparr>;
               s2 = (if float_of s g = None
                     then s1\<lparr>float_states := float_states s1 @ [configured (fc_debounce c) (fc_timeout c) (fresh_float g)]\<rparr>
                     else put_float g (configured (fc_debounce c) (fc_timeout c)) s1)
           in emit (Mqtt_Subscribe srv trip) (emit (Mqtt_Subscribe srv tp) s2))"

definition unsubscribe_group :: "int \<Rightarrow> tank \<Rightarrow> tank" where
  "unsubscribe_group g s =
     (case sub_of s g of None \<Rightarrow> s
      | Some c \<Rightarrow>
          (let s1 = (if sub_server c \<in> set (clients s)
                     then emit (Mqtt_Unsubscribe (sub_server c) (sub_tripped c))
                            (emit (Mqtt_Unsubscribe (sub_server c) (sub_topic c)) s) else s)
           in s1\<lparr>topic_groups := filter (\<lambda>e. fst e \<noteq> sub_topic c \<and> fst e \<noteq> sub_tripped c) (topic_groups s1),
                 subscriptions := filter (\<lambda>x. sub_group x \<noteq> g) (subscriptions s1)\<rparr>))"

definition load_all_groups :: "tank \<Rightarrow> tank" where
  "load_all_groups s = fold subscribe_group (get_float_enabled_groups s) s"

definition load_group :: "int \<Rightarrow> tank \<Rightarrow> tank" where
  "load_group g s = (case get_float_group s g of None \<Rightarrow> s
     | Some c \<Rightarrow> if truthy_int (fc_enabled c) then subscribe_group c s else s)"

definition start_monitor :: "tank \<Rightarrow> tank" where
  "start_monitor s = load_all_groups (s\<lparr>started := True\<rparr>)"

definition stop_monitor :: "tank \<Rightarrow> tank" where
  "stop_monitor s =
     (fold unsubscribe_group (map sub_group (subscriptions s)) (s\<lparr>started := False\<rparr>))
       \<lparr>subscriptions := [], topic_groups := [], float_states := []\<rparr>"

definition reload_group :: "int \<Rightarrow> tank \<Rightarrow> tank" where
  "reload_group g s = load_group g (if sub_of s g = None then s else unsubscribe_group g s)"

definition on_float_connect :: "int \<Rightarrow> tank \<Rightarrow> tank" where
  "on_float_connect srv s = fold (\<lambda>e. emit (Mqtt_Subscribe srv (fst e))) (topic_groups s) s"

subsection \<open>What the queue asks\<close>

definition is_paused :: "tank \<Rightarrow> int \<Rightarrow> bool" where
  "is_paused s g = (case float_of s g of None \<Rightarrow> False | Some gs \<Rightarrow> paused gs)"

definition get_resume_event :: "int \<Rightarrow> tank \<Rightarrow> bool \<times> tank" where
  "get_resume_event g s = (case float_of s g of Some gs \<Rightarrow> (resumed gs, s)
     | None \<Rightarrow> (False, s\<lparr>float_states := float_states s @ [fresh_float g]\<rparr>))"

text \<open>
  The wait polls the event, the two flags and the clock; each element of the list is what one
  round of the loop reads, and \<open>None\<close> stands for a wait that has not ended within them.
\<close>

datatype wait_answer = Wait_Resumed | Wait_Cancelled | Wait_Shutdown | Wait_Timeout

record poll =
  p_resumed :: bool
  p_cancelled :: bool
  p_shutdown :: bool
  p_clock :: rat

fun wait_for_resume_or_cancel :: "rat \<Rightarrow> poll list \<Rightarrow> wait_answer option" where
  "wait_for_resume_or_cancel deadline [] = None"
| "wait_for_resume_or_cancel deadline (p # ps) =
     (if p_resumed p then Some Wait_Resumed
      else if p_cancelled p then Some Wait_Cancelled
      else if p_shutdown p then Some Wait_Shutdown
      else if deadline \<le> p_clock p then Some Wait_Timeout
      else wait_for_resume_or_cancel deadline ps)"

record float_view =
  v_group :: int
  v_level_ok :: bool
  v_paused :: bool
  v_paused_since :: "time option"
  v_timeout_at :: "time option"
  v_paused_zones :: "int list"
  v_trip_count :: nat
  v_emergency :: bool

definition get_float_state :: "rat \<Rightarrow> time \<Rightarrow> tank \<Rightarrow> int \<Rightarrow> float_view" where
  "get_float_state now clock s g =
     (case float_of s g of
        None \<Rightarrow> \<lparr>v_group = g, v_level_ok = True, v_paused = False, v_paused_since = None,
                 v_timeout_at = None, v_paused_zones = [], v_trip_count = 0, v_emergency = False\<rparr>
      | Some gs \<Rightarrow> \<lparr>v_group = g, v_level_ok = level_ok gs, v_paused = paused gs,
                    v_paused_since = paused_since gs,
                    v_timeout_at = (case timeout_at gs of None \<Rightarrow> None
                       | Some t \<Rightarrow> if 0 < t - now then Some clock else None),
                    v_paused_zones = paused_zones gs, v_trip_count = length (trip_times gs),
                    v_emergency = emergency_stopped gs\<rparr>)"

definition get_all_float_states :: "rat \<Rightarrow> time \<Rightarrow> tank \<Rightarrow> (int \<times> float_view) list" where
  "get_all_float_states now clock s = map (\<lambda>g. (g, get_float_state now clock s g)) (map fs_group (float_states s))"

subsection \<open>Steps\<close>

datatype float_op =
    Float_Message int string
  | Float_Check
  | Float_Next_Late
  | Float_Reload int
  | Float_Start
  | Float_Stop
  | Float_Connect int
  | Float_Ask int

fun float_step :: "rat \<Rightarrow> time \<Rightarrow> float_op \<Rightarrow> tank \<Rightarrow> tank" where
  "float_step now clock (Float_Message g p) s = on_float_message now clock g p s"
| "float_step now clock Float_Check s = check_timeouts now s"
| "float_step now clock Float_Next_Late s = stop_next_late s"
| "float_step now clock (Float_Reload g) s = reload_group g s"
| "float_step now clock Float_Start s = start_monitor s"
| "float_step now clock Float_Stop s = stop_monitor s"
| "float_step now clock (Float_Connect srv) s = on_float_connect srv s"
| "float_step now clock (Float_Ask g) s = snd (get_resume_event g s)"

text \<open>
  An effect is a call the step makes outside the lock.  Of these, \<open>queue_manager.cancel_group\<close> acts on a
  queue manager.
\<close>

definition perform_call :: "(int \<Rightarrow> 'q \<Rightarrow> 'q) \<Rightarrow> float_out \<Rightarrow> 'q \<Rightarrow> 'q" where
  "perform_call cancel e m = (case e of Cancel_Queue g \<Rightarrow> cancel g m | _ \<Rightarrow> m)"

definition new_effects :: "tank \<Rightarrow> tank \<Rightarrow> float_out list" where
  "new_effects s s' = drop (length (float_out s)) (float_out s')"

definition float_run :: "(rat \<times> time \<times> float_op) list \<Rightarrow> tank \<Rightarrow> tank" where
  "float_run tr s = fold (\<lambda>(now, clock, x). float_step now clock x) tr s"

lemma float_run_simps [simp]:
  "float_run [] s = s"
  "float_run ((now, clock, x) # tr) s = float_run tr (float_step now clock x s)"
  "float_run (tr @ tr') s = float_run tr' (float_run tr s)"
  by (simp_all add: float_run_def)

end
