(* ===== verification/State_Types.thy ===== *)
theory State_Types
  imports Relay_Laws Rain_Laws Zones_Api Float_Monitor
begin

text \<open>
  The type of \<open>zones.state\<close>.  The column is free text; every write of the controller, the scheduler,
  the watchdogs, the verifier, the rain and float monitors and the HTTP handlers puts one of six words
  there.  The whole system is a step relation, and the words are an invariant of its reachable states.
\<close>

definition zone_states :: "string set" where
  "zone_states = {''off'', ''starting'', ''on'', ''stopping'', ''fault'', ''paused''}"

definition well_typed :: "'a db_scheme \<Rightarrow> bool" where
  "well_typed d = (\<forall>j v. zstate_at d j = Some v \<longrightarrow> v \<in> zone_states)"

subsection \<open>Moves\<close>

text \<open>A move leaves every zone's state as it was or writes one of the words.\<close>

definition moves :: "'a db_scheme \<Rightarrow> 'b db_scheme \<Rightarrow> bool" where
  "moves d d' = (\<forall>j v. zstate_at d' j = Some v \<longrightarrow> v \<in> zone_states \<or> zstate_at d j = Some v)"

named_theorems moving \<open>operations that only make moves\<close>

lemma zone_states_simps [simp]:
  "''off'' \<in> zone_states" "''starting'' \<in> zone_states" "''on'' \<in> zone_states" "''stopping'' \<in> zone_states" "''fault'' \<in> zone_states"
  "''paused'' \<in> zone_states"
  by (simp_all add: zone_states_def)

lemma moves_refl [simp]: "moves d d"
  by (simp add: moves_def)

lemma moves_trans [trans]: "moves d d' \<Longrightarrow> moves d' d'' \<Longrightarrow> moves d d''"
  by (auto simp: moves_def)

lemma moves_same: "zstate_at d' = zstate_at d \<Longrightarrow> moves d d'"
  by (simp add: moves_def)

lemma moves_view: "zview d' = zview d \<Longrightarrow> moves d d'"
  by (rule moves_same) (rule zstate_at_cong)

lemma moves_typed: "moves d d' \<Longrightarrow> well_typed d \<Longrightarrow> well_typed d'"
  by (auto simp: moves_def well_typed_def)

lemma moves_fold: "(\<And>x s. moves s (f x s)) \<Longrightarrow> moves s (fold f xs s)"
proof (induction xs arbitrary: s)
  case (Cons x xs)
  then show ?case using moves_trans [of s "f x s" "fold f xs (f x s)"] by simp
qed simp

lemma moves_uzs:
  "real_cols us \<Longrightarrow> (case upd_state us of None \<Rightarrow> True | Some v \<Rightarrow> v \<in> zone_states) \<Longrightarrow> moves w (uzs i us r w)"
  by (auto simp: moves_def zstate_at_uzs split: if_splits option.splits)

lemma moves_update_zone: "upd_state us = None \<Longrightarrow> moves d (update_zone i us d)"
  by (rule moves_same) (rule zstate_at_update_zone)

subsection \<open>The controller\<close>

lemma moves_stop_zone [moving]: "moves w (snd (stop_zone i reason force imm skip now mn wl w))"
proof (cases "get_zone w i")
  case None
  then show ?thesis by (simp add: stop_zone_def)
next
  case (Some z)
  then show ?thesis by (auto simp: moves_def zstate_at_stop_zone split: if_splits)
qed

lemma moves_stop_all [moving]: "moves w (stop_all_in_group g reason force imm skip now mn wl w)"
  unfolding stop_all_in_group_def by (rule moves_fold) (rule moves_stop_zone)

lemma moves_stop_peer: "moves w (stop_peer self now mn p w)"
  by (auto simp: moves_def zstate_at_stop_peer [OF refl] peer_effect_def split: if_splits)

lemma moves_exclusive_start [moving]: "moves w (snd (exclusive_start_zone i src now mn wl w))"
proof (cases "get_zone w i")
  case None
  then show ?thesis by (simp add: exclusive_start_zone_def)
next
  case (Some z)
  let ?g = "zone_gid z"
  let ?w0 = "begin_start i z now w"
  let ?w1 = "if real_group ?g then open_master ?g (open_run i ?g src now mn wl ?w0) else open_run i ?g src now mn wl ?w0"
  let ?ps = "if ?g = 0 then [] else get_zones_by_group w ?g"
  have "moves w ?w0" by (auto simp: moves_def zstate_at_begin_start split: if_splits)
  also have "moves ?w0 ?w1" by (rule moves_view) simp
  also have "moves ?w1 (switch_on z ?w1)" by (auto simp: moves_def zstate_at_switch_on split: if_splits)
  also have "moves (switch_on z ?w1) (fold (stop_peer i now mn) ?ps (switch_on z ?w1))" by (rule moves_fold) (rule moves_stop_peer)
  also have "moves (fold (stop_peer i now mn) ?ps (switch_on z ?w1)) (snd (exclusive_start_zone i src now mn wl w))"
    by (rule moves_view) (use Some in \<open>cases "real_group ?g"; cases "?g = 0"; simp add: exclusive_start_zone_def Let_def\<close>)
  finally show ?thesis .
qed

lemma moves_emergency [moving]: "moves w (snd (emergency_stop_all reason now mn wl w))"
proof -
  define gs where "gs = get_groups w"
  define a where "a = emergency_phase_a reason now mn wl gs w"
  define b where "b = emergency_phase_b reason now mn wl gs (snd a)"
  have "moves (snd nw) (snd (fold (stop_group_zones reason now mn wl) gs nw))" for nw :: "nat \<times> 'a world_scheme"
  proof (induction gs arbitrary: nw)
    case (Cons g gs)
    have "moves (snd nw) (snd (stop_group_zones reason now mn wl g nw))" by (simp add: stop_group_zones_def moves_stop_all)
    from moves_trans [OF this Cons.IH] show ?case by simp
  qed simp
  from this [of "(0, w)"] have "moves w (snd a)" by (simp add: a_def emergency_phase_a_def)
  also have "moves (snd a) (snd b)"
    unfolding b_def emergency_phase_b_def Let_def snd_conv by (rule moves_fold) (rule moves_stop_zone)
  also have "moves (snd b) (snd (emergency_phase_c gs (snd b)))"
    by (rule moves_view) (simp add: emergency_phase_c_def Let_def zview_phase_c)
  finally show ?thesis by (simp add: emergency_stop_all_def Let_def gs_def a_def b_def)
qed

lemma moves_record_fault [moving]: "moves w (record_fault i z now wl w)"
  by (auto simp: moves_def zstate_at_def get_zone_record_fault versioned_write_def fault_fields_def split: if_splits)

subsection \<open>The scheduler\<close>

lemma moves_views [moving]:
  "moves s (add_log ty is s)" "moves s (snd (publish_mqtt_value srv t v s))" "moves s (s\<lparr>audit := a\<rparr>)"
  "moves s (s\<lparr>bus := b\<rparr>)"
  by (rule moves_view, simp add: zview_def add_log_def frame_simps)+

lemma moves_sched_views [moving]:
  "moves s (schedule_zone_stop i dur cmd s)" "moves s (schedule_zone_hard_stop i at' s)" "moves s (schedule_zone_cap i n s)"
  "moves s (schedule_master_valve_cap g n s)" "moves s (cancel_master_valve_cap g s)" "moves s (remove_jobs_where P s)"
  "moves s (remove_job j s)" "moves s (snd (request_skip_current_zone g s))" "moves s (s\<lparr>active_zones := az\<rparr>)"
  by (rule moves_view,
      simp add: zview_def schedule_zone_stop_def schedule_zone_hard_stop_def schedule_zone_cap_def schedule_master_valve_cap_def
        cancel_master_valve_cap_def remove_jobs_where_def remove_job_def request_skip_current_zone_def add_job_def Let_def
        split: option.splits)+

lemma moves_starts [moving]:
  "moves d (clear_group_scheduled_starts g d)" "moves d (snd (reschedule_group_to_next_program g ps now d))"
  "moves d (clear_scheduled_for_zone_group_peers i g d)"
proof -
  show "moves d (clear_group_scheduled_starts g d)" "moves d (snd (reschedule_group_to_next_program g ps now d))"
    by (rule moves_same, simp)+
  show "moves d (clear_scheduled_for_zone_group_peers i g d)"
    by (rule moves_same) (simp add: clear_scheduled_for_zone_group_peers_def zstate_at_upd_rows del: set_cols_simps)
qed

lemma moves_cancel_group [moving]: "moves s (snd (cancel_group_jobs g imm s))"
  by (auto simp: moves_def zstate_at_cancel_group split: if_splits)

lemma moves_auto_stop [moving]: "moves s (auto_stop_zone i s)"
proof -
  have "moves s (snd (stop_now i ''auto_stop'' False s))" by (rule moves_stop_zone)
  then show ?thesis
    by (auto simp: auto_stop_zone_def Let_def split: option.splits intro: moves_trans [OF _ moves_views(1)])
qed

lemma moves_close_master [moving]: "moves s (job_close_master_valve g s)"
  by (auto simp: job_close_master_valve_def moving split: option.splits)

lemma moves_plan_program [moving]: "moves s (schedule_program accepts p s)"
  by (rule moves_same) simp

lemma moves_boot [moving]: "moves s (init_scheduler accepts s)"
proof -
  have "moves s (before_boot_stop accepts s)" by (rule moves_same) simp
  also have "moves (before_boot_stop accepts s) (init_scheduler accepts s)"
    unfolding init_scheduler_def before_boot_stop_def [symmetric] stop_on_boot_active_zones_def
    by (rule moves_fold) (rule moves_stop_zone)
  finally show ?thesis .
qed

text \<open>The same facts for composing a handler from its steps.\<close>

lemmas moving_back = moving [THEN moves_trans [rotated]] moves_uzs [THEN moves_trans [rotated]]
  moves_update_zone [THEN moves_trans [rotated]]

text \<open>The steps of a program thread and of a sequence thread.\<close>

lemma moves_send_off:
  "moves s (case mqtt_ready s z of None \<Rightarrow> s | Some srv \<Rightarrow> snd (publish_mqtt_value (server_id srv) t v s))"
  by (simp add: moving split: option.splits)

lemma moves_peer_off [moving]: "moves s (peer_off z s)"
  unfolding peer_off_def
  by (rule moves_trans [OF moves_send_off]) (rule moves_uzs, simp_all add: real_cols_def)

lemma moves_mark_scheduled [moving]: "moves s (mark_scheduled_on i now s)"
proof -
  have "moves s (uzs i (scheduled_cols now) [] s)" by (rule moves_uzs [OF real_cols_scheduled]) (simp add: scheduled_cols_def)
  then show ?thesis by (rule moves_trans) (rule moves_view, rule zview_mark_scheduled)
qed

lemma moves_start_scheduled [moving]: "moves s (start_scheduled_zone pid i dur s)"
  unfolding start_scheduled_zone_def Let_def
  by (intro moving_back moves_mark_scheduled [THEN moves_trans [rotated]] moves_refl) simp

lemma moves_finish_scheduled [moving]: "moves s (finish_scheduled_zone i s)"
  unfolding finish_scheduled_zone_def Let_def by (intro moving_back moves_refl)

lemma moves_start_sequence [moving]: "moves s (start_sequence_zone g z dur s)"
proof -
  have om: "moves t (if b then open_master g t else t)" for b g and t :: "'b world_scheme" by (cases b) (simp_all add: moves_view)
  have cr: "moves t (if b then snd (create_zone_run i g st mn raw l bs src t) else t)" for b i g st mn raw l bs src and t :: "'b world_scheme"
    by (cases b) (simp_all add: moves_view)
  show ?thesis
    unfolding start_sequence_zone_def Let_def
    by (rule moving_back, rule moves_trans [OF _ cr], rule moves_trans [OF _ moves_send_off], rule moves_trans [OF _ om])
      (intro moving_back moves_refl, simp_all add: real_cols_def)
qed

lemma moves_finish_sequence [moving]: "moves s (finish_sequence_zone i s)"
  unfolding finish_sequence_zone_def Let_def by (intro moving_back moves_refl) simp

lemma moves_sequence [moving]: "moves s (snd (start_group_sequence g od op wanted manual s))"
proof -
  define s1 where "s1 = fold bulk_off (chosen_zones s g wanted) s"
  have "moves s s1" unfolding s1_def by (rule moves_fold) (simp add: bulk_off_def moves_uzs real_cols_def)
  moreover have "zstate_at (snd (add_job False j (drop_group_jobs g is (snd (plant_event g
      (set_group_scheduled_starts g sch (clear_group_scheduled_starts g s1))))))) = zstate_at s1" for j "is" sch
  proof -
    have v: "zview (snd (add_job False j (drop_group_jobs g is (snd (plant_event g t))))) = zview t" for t :: "'a sched_scheme"
      by (simp add: add_job_def drop_group_jobs_def remove_jobs_where_def plant_event_def zview_def Let_def split: option.splits)
    show ?thesis unfolding zstate_at_cong [OF v] by simp
  qed
  ultimately show ?thesis
    by (auto simp: start_group_sequence_def Let_def s1_def [symmetric] intro: moves_trans [OF _ moves_same])
qed

subsection \<open>The handlers\<close>

lemma moves_peer_off_manual: "moves s (peer_off_manual z s)"
  unfolding peer_off_manual_def Let_def
  by (rule moves_trans [OF moves_send_off]) (rule moves_uzs, simp_all add: real_cols_def)

lemma moves_plan_stops [moving]: "moves s (plan_stops i d now s)"
  unfolding plan_stops_def Let_def by (intro moving_back moves_refl)

lemma moves_clear_way [moving]: "moves s (snd (clear_way g s))"
proof (cases "clear_way g s")
  case (Pair r t)
  then have "zstate_at t = zstate_at (snd (cancel_group_jobs g False s))" by (rule clear_way_effect)
  then show ?thesis using moves_cancel_group [of s g False] by (simp add: Pair moves_def)
qed

text \<open>Taking a handler apart: one rule per construct, with what is known of the bound state.\<close>

lemma reply_let: "(\<And>x. moves s (snd (f x))) \<Longrightarrow> moves s (snd (Let e f))"
  by (simp add: Let_def)

lemma reply_state: "moves s e \<Longrightarrow> (\<And>x. moves s x \<Longrightarrow> moves s (snd (f x))) \<Longrightarrow> moves s (snd (Let e f))"
  by (simp add: Let_def)

lemma reply_pair: "moves s (snd e) \<Longrightarrow> (\<And>x. moves s (snd x) \<Longrightarrow> moves s (snd (f x))) \<Longrightarrow> moves s (snd (Let e f))"
  by (simp add: Let_def)

lemma reply_if: "moves s (snd a) \<Longrightarrow> moves s (snd b) \<Longrightarrow> moves s (snd (if c then a else b))"
  by simp

lemma reply_option: "moves s (snd a) \<Longrightarrow> (\<And>x. moves s (snd (f x))) \<Longrightarrow> moves s (snd (case v of None \<Rightarrow> a | Some x \<Rightarrow> f x))"
  by (cases v) simp_all

lemma reply_sum: "(\<And>x. moves s (snd (f x))) \<Longrightarrow> (\<And>x. moves s (snd (g x))) \<Longrightarrow> moves s (snd (case v of Inl x \<Rightarrow> f x | Inr y \<Rightarrow> g y))"
  by (cases v) simp_all

lemma reply_done: "moves s t \<Longrightarrow> moves s (snd (r, t))"
  by simp

lemma moves_start_api: "moves s (snd (start_zone_api i s))"
proof -
  have a: "moves s (case group_id z of None \<Rightarrow> s | Some g \<Rightarrow> snd (cancel_group_jobs g False s))" for z
    by (cases "group_id z") (simp_all add: moves_cancel_group)
  have b: "moves s t \<Longrightarrow> moves s (if g = 0 then t else fold peer_off_manual (group_peers t g i) t)" for g t
    by (simp add: moves_trans [OF _ moves_fold] moves_peer_off_manual)
  show ?thesis
    unfolding start_zone_api_def
    by (intro reply_if reply_option reply_done moves_refl, rule reply_state [OF a], rule reply_let, rule reply_state [OF b], assumption,
        rule reply_pair, erule moves_trans [OF _ moves_exclusive_start], rule reply_if, rule reply_done, assumption,
        rule reply_state, erule moves_trans [OF _ moves_sched_views(1)])
      (intro reply_option reply_done moving_back, assumption+)
qed

lemma moves_mqtt_start_zone: "moves s (snd (mqtt_start_zone i z od ws s))"
proof -
  have way: "moves s (snd (if g = 0 then (False, s) else clear_way g s))" for g by (simp add: moves_clear_way)
  show ?thesis
    unfolding mqtt_start_zone_def
    by (rule reply_let, rule reply_pair [OF way], rule reply_if, rule reply_done, assumption,
        rule reply_pair, erule moves_trans [OF _ moves_exclusive_start], rule reply_if, rule reply_done, assumption,
        rule reply_let, rule reply_let, rule reply_state, erule moves_trans, rule moves_uzs, simp add: real_cols_def, simp)
      (intro reply_done moves_plan_stops [THEN moves_trans [rotated]] moving_back, assumption)
qed

lemma moves_mqtt_start_api: "moves s (snd (mqtt_start_api i b s))"
proof -
  have again: "moves s (restart_running i d s)" for d
    unfolding restart_running_def Let_def by (intro moves_plan_stops [THEN moves_trans [rotated]] moving_back moves_refl) simp
  show ?thesis
    by (simp add: mqtt_start_api_def Let_def moves_mqtt_start_zone again split: option.splits sum.splits)
qed

lemma moves_end_session: "moves s (snd (end_session ep i z s))"
  by (simp add: end_session_def Let_def moves_trans [OF moves_views(3) moves_cancel_group])

lemma moves_stop_api: "moves s (snd (stop_zone_api i s))" "moves s (snd (mqtt_stop_api i s))"
proof -
  have t: "moves s (snd (stop_now i ''manual'' False t))" if "end_session ep i z s = (r, t)" for ep z r t
    using moves_end_session [of s ep i z] that by (auto intro: moves_trans [OF _ moves_stop_zone])
  have e: "moves s t" if "end_session ep i z s = (r, t)" for ep z r t
    using moves_end_session [of s ep i z] that by simp
  show "moves s (snd (stop_zone_api i s))"
    by (auto simp: stop_zone_api_def Let_def split: option.splits prod.splits intro!: moving_back dest: e t)
  show "moves s (snd (mqtt_stop_api i s))"
    by (auto simp: mqtt_stop_api_def Let_def real_cols_def split: option.splits prod.splits intro!: moving_back dest: e t)
qed

lemma moves_poll: "moves s (snd (watering_time_api i s))"
  by (auto simp: watering_time_api_def Let_def moving split: option.splits)

lemma cancel_loops_moves [moving]:
  "moves d (snd (cancel_passed_today g now ps d))" "moves s (snd (cancel_groups gs s))"
proof -
  have c: "zview (snd (cancel_program_run_for_group p day g d)) = zview d" for p day g and d :: "'x db_scheme"
    by (simp add: cancel_program_run_for_group_def zview_def)
  have v: "zview (snd (cancel_passed_today g now ps d)) = zview d" for d :: "'x db_scheme"
    by (induction ps arbitrary: d) (auto simp: c split: option.splits)
  show "moves d (snd (cancel_passed_today g now ps d))" by (rule moves_view [OF v])
  show "moves s (snd (cancel_groups gs s))"
  proof (induction gs arbitrary: s)
    case (Cons h gs)
    show ?case using moves_trans [OF moves_cancel_group Cons.IH, of s "gid h" True] by (simp add: Let_def moves_cancel_group)
  qed simp
qed

lemmas step_back = moving [THEN moves_trans [rotated]] moving_back

lemma moves_stop_group_api: "moves s (snd (stop_group_api g s))"
  unfolding stop_group_api_def
  by (rule reply_state [OF moves_stop_all], rule reply_pair, erule moves_trans [OF _ moves_cancel_group],
      rule reply_if, rule reply_done, assumption, rule reply_state, erule moves_trans [OF _ moves_views(3)],
      rule reply_state, erule moves_trans [OF _ moves_starts(1)], rule reply_pair, erule moves_trans [OF _ cancel_loops_moves(1)],
      rule reply_if, rule reply_done, assumption, rule reply_pair, erule moves_trans [OF _ moves_starts(2)])
    (intro reply_if reply_done step_back, assumption+)

lemma moves_skip_api: "moves s (snd (skip_api g s))"
proof -
  have "moves s t" if "request_skip_current_zone g s = (r, t)" for r t
    using moves_sched_views(8) [of s g] that by simp
  then show ?thesis
    by (auto simp: skip_api_def Let_def split: list.splits prod.splits skip_result.splits intro!: step_back moves_refl)
qed

lemma moves_sequence_apis: "moves s (snd (start_from_first_api g b s))" "moves s (snd (run_selected_api g b s))"
  by (auto simp: start_from_first_api_def run_selected_api_def Let_def split: sum.splits option.splits prod.splits
      intro!: step_back moves_refl)

lemma moves_exclusive_api: "moves s (snd (start_zone_exclusive_api g i s))"
proof -
  have th: "moves s (snd (should_throttle_group g s))"
    by (rule moves_view) (simp add: should_throttle_group_def zview_def)
  have pe: "moves t (plan_exclusive_end i t)" for t :: "'a app_scheme"
    unfolding plan_exclusive_end_def Let_def by (auto intro!: step_back moves_refl)
  have cap: "moves t (plan_exclusive_end i (clear_scheduled_for_zone_group_peers i g (schedule_zone_cap i n t)))" for t :: "'a app_scheme" and n
    by (rule moves_trans [OF _ pe]) (intro step_back moves_refl)
  show ?thesis
    unfolding start_zone_exclusive_api_def
    by (rule reply_if, rule reply_done, rule moves_refl, rule reply_pair [OF th], rule reply_if, rule reply_done, assumption,
        rule reply_state, erule moves_trans [OF _ moves_cancel_group], rule reply_state, erule moves_trans [OF _ moves_stop_all],
        rule reply_pair, erule moves_trans [OF _ moves_exclusive_start], rule reply_if, rule reply_done, assumption)
      (unfold Let_def snd_conv, intro step_back, erule moves_trans [OF _ cap])
qed

lemma moves_master_api: "moves s (snd (master_valve_api g a s))"
proof (rule moves_view)
  have o: "zview (set_observed g v d) = zview d" for v and d :: "'b db_scheme"
    by (simp add: set_observed_def update_group_fields_def zview_def)
  have c: "zview (schedule_master_valve_cap g n t) = zview t" "zview (cancel_master_valve_cap g t) = zview t" for n and t :: "'a app_scheme"
    by (simp_all add: schedule_master_valve_cap_def cancel_master_valve_cap_def)
  show "zview (snd (master_valve_api g a s)) = zview s"
    by (simp add: master_valve_api_def Let_def o c split: option.splits)
qed

lemma moves_emergency_api: "moves s (snd (emergency_stop_api s))" "moves s (snd (emergency_resume_api s))"
proof -
  have f: "moves s (add_log ty is (s\<lparr>emergency := b\<rparr>))" for ty "is" b
    by (rule moves_view) (simp add: zview_def add_log_def)
  show "moves s (snd (emergency_stop_api s))"
    unfolding emergency_stop_api_def
    by (rule reply_state [OF f], rule reply_pair, erule moves_trans [OF _ moves_emergency], rule reply_pair,
        erule moves_trans [OF _ cancel_loops_moves(2)])
      (intro reply_if reply_done step_back, assumption+)
  show "moves s (snd (emergency_resume_api s))"
    unfolding emergency_resume_api_def by (rule reply_state [OF f]) (intro reply_done step_back, assumption)
qed

subsection \<open>Boot and the watchdogs\<close>

lemma moves_check_zones: "moves s (check_zones setting s)"
proof -
  have "moves t (cap_stop cap now z t)" for cap now z and t :: "'a sched_scheme"
    unfolding cap_stop_def Let_def by (intro step_back moves_refl)
  then show ?thesis by (simp add: check_zones_def moves_fold split: option.splits)
qed

lemma moves_exclusivity: "moves s (enforce_group_exclusive_all_groups s)"
proof -
  have x: "moves t (exclusive_stop z t)" for z and t :: "'a sched_scheme"
    unfolding exclusive_stop_def Let_def by (rule moves_trans [OF moves_send_off moves_stop_zone])
  have f: "moves t (force_group_exclusive g t)" for g and t :: "'a sched_scheme"
    by (auto simp: force_group_exclusive_def split: list.splits intro!: step_back moves_trans [OF x moves_fold [OF x]])
  have "moves t (enforce_group zs g t)" for zs g and t :: "'a sched_scheme"
    by (simp add: enforce_group_def f)
  then show ?thesis by (simp add: enforce_group_exclusive_all_groups_def moves_fold)
qed

lemma moves_shutdown: "moves w (snd (shutdown_all_zones_off reach done w))"
proof -
  have p: "zview (shutdown_publish srv t v u) = zview u" for srv t v and u :: "'a world_scheme"
    by (simp add: shutdown_publish_def zview_def frame_simps)
  have z: "moves u (shutdown_zone reach z u)" for z and u :: "'a world_scheme"
    by (rule moves_view) (simp add: shutdown_zone_def p split: option.splits)
  have m: "moves u (shutdown_masters reach gs seen u)" for gs seen and u :: "'a world_scheme"
  proof (rule moves_view)
    show "zview (shutdown_masters reach gs seen u) = zview u"
      by (induction gs arbitrary: seen u) (simp_all add: p Let_def split: option.splits)
  qed
  have st: "moves u (shutdown_state z u)" for z and u :: "'a world_scheme"
    by (simp add: shutdown_state_def moves_uzs real_cols_def)
  show ?thesis
    unfolding shutdown_all_zones_off_def Let_def
    by (auto intro: moves_trans [OF moves_trans [OF moves_fold [OF z] m] moves_fold [OF st]])
qed

lemma moves_boot_sync: "moves s (boot_sync s)"
proof -
  have g: "moves t (stop_group r h t)" for r h and t :: "'a sched_scheme"
    by (simp add: stop_group_def moves_stop_all)
  have a: "moves t (abort_open_runs t)" for t :: "'a sched_scheme"
    by (rule moves_view) (simp add: abort_open_runs_def zview_def)
  have p: "zview (publish_retry n srv tp v t) = zview t" for n srv tp v and t :: "'a sched_scheme"
    by (induction n arbitrary: t) (simp_all add: Let_def)
  have m: "moves t (close_masters n gs seen t)" for n gs seen and t :: "'a sched_scheme"
  proof (rule moves_view)
    show "zview (close_masters n gs seen t) = zview t"
      by (induction gs arbitrary: seen t) (simp_all add: p Let_def split: option.splits)
  qed
  have z: "moves t (zone_off_retry y t)" for y and t :: "'a sched_scheme"
    by (rule moves_view) (simp add: zone_off_retry_def p split: option.splits)
  show ?thesis
    unfolding boot_sync_def Let_def
    by (rule moves_trans [OF _ m], rule moves_trans [OF _ moves_fold [OF z]], rule moves_trans [OF _ m],
        rule moves_trans [OF _ a], rule moves_fold [OF g])
qed

subsection \<open>The relays\<close>

lemma moves_on_message: "moves s (snd (on_message recent sid tp p (h, s)))"
  by (auto simp: moves_def zstate_at_on_message word_of_def split: if_splits)

subsection \<open>The monitors and the editor\<close>

lemma moves_postpone_zone [moving]: "moves d (postpone_zone until reason z d)"
  by (rule moves_same) (simp add: postpone_zone_def)

lemma moves_rain: "moves s (snd (handle_payload st p m s))"
proof -
  have a: "moves t (stop_for_rain g t)" for g and t :: "'a sched_scheme"
    by (simp add: stop_for_rain_def moves_stop_all)
  have c: "moves t (snd (clear_program_cancellations_for_group_on_date g day t))" for g day and t :: "'a sched_scheme"
    by (rule moves_view) (simp add: clear_program_cancellations_for_group_on_date_def zview_def)
  have "moves s (on_rain_start s)"
    unfolding on_rain_start_def Let_def
    by (auto intro!: moves_trans [OF moves_trans [OF moves_fold [OF a] moves_fold [OF moves_postpone_zone]] moves_views(1)])
  moreover have "moves s (on_rain_stop s)"
    unfolding on_rain_stop_def Let_def
    by (auto intro!: moves_trans [OF moves_trans [OF moves_fold [OF moves_postpone_zone] moves_fold [OF c]] moves_views(1)])
  ultimately show ?thesis by (simp add: handle_payload_def Let_def split: option.splits)
qed

lemma moves_postpone_api: "moves s (snd (postpone_api b s))"
proof -
  have off: "moves t (turn_off_postponed z t)" for z and t :: "'a sched_scheme"
    by (auto simp: turn_off_postponed_def Let_def real_cols_def split: option.splits intro!: step_back moves_refl)
  have pp: "moves t (fold (postpone_zone u r) zs t)" for u r zs and t :: "'a sched_scheme"
    by (rule moves_fold) (rule moves_postpone_zone)
  have offs: "moves t (fold turn_off_postponed zs (fold (postpone_zone u r) zs' t))" for u r zs zs' and t :: "'a sched_scheme"
    by (rule moves_trans [OF pp moves_fold [OF off]])
  have cg: "moves s (snd (cancel_group_jobs g imm (fold turn_off_postponed zs (fold (postpone_zone u r) zs' s))))" for g imm u r zs zs'
    by (rule moves_trans [OF offs moves_cancel_group])
  show ?thesis
    unfolding postpone_api_def Let_def
    by (intro reply_if reply_option reply_done moves_refl cg moves_trans [OF pp moves_views(1)] moves_trans [OF cg moves_views(1)])
qed

lemma moves_put_zone_api: "moves w (snd (put_zone_api i us w))"
proof -
  have "\<not> list_ex state_field us \<Longrightarrow> upd_state us = None"
    by (induction us rule: upd_state.induct) (auto split: zone_upd.splits)
  then show ?thesis
    by (auto simp: put_zone_api_def Let_def split: option.splits intro: moves_update_zone
        moves_trans [OF moves_update_zone moves_views(1)])
qed

lemma moves_delete_zone_api: "moves w (snd (delete_zone_api i w))"
proof -
  have "moves w (snd (delete_zone i w))"
    by (auto simp: moves_def delete_zone_def zstate_at_def get_zone_def row_at_filter_other split: if_splits option.splits)
  then show ?thesis
    by (auto simp: delete_zone_api_def split: prod.splits bool.splits intro: moves_trans [OF _ moves_views(1)] dest: arg_cong [of _ _ snd])
qed

lemma row_at_insort_cases: "row_at key (insort_key key r rows) j \<in> {Some r, row_at key rows j}"
  by (induction rows) auto

lemma moves_insert: "moves d (insert_zone (new_zone i sid r) d)"
proof (unfold moves_def, intro allI impI)
  fix j v
  let ?z = "new_zone i sid r"
  assume "zstate_at (insert_zone ?z d) j = Some v"
  then obtain z where up: "db_up d" and z: "row_at zid (insort_key zid ?z (zones d)) j = Some z" "zstate z = v"
    by (auto simp: zstate_at_def get_zone_def insert_zone_def split: if_splits)
  then consider "z = ?z" | "row_at zid (zones d) j = Some z"
    using row_at_insort_cases [of zid ?z "zones d" j] by auto
  then show "v \<in> zone_states \<or> zstate_at d j = Some v"
    using z(2) up by cases (auto simp: new_zone_def zstate_at_def get_zone_def)
qed

lemma moves_create_zone_api: "moves w (snd (create_zone_api r w))"
proof -
  have "moves w (snd (create_zone r w))" by (simp add: create_zone_def Let_def moves_insert)
  then show ?thesis
    by (auto simp: create_zone_api_def split: prod.splits option.splits intro: moves_trans [OF _ moves_views(1)]
        dest: arg_cong [of _ _ snd])
qed

lemma upd_state_upsert: "upd_state (upsert_cols r) = None"
  by (auto simp: upsert_cols_def split: option.splits)

lemma moves_import_api: "moves w (snd (import_zones_api rs w))"
proof -
  have put: "moves d (put_zone i (set_cols (upsert_cols r)) d)" for i r and d :: "'a world_scheme"
    unfolding put_zone_def
    by (rule moves_same) (rule zstate_at_upd_rows, rule upd_state_upsert)
  have "moves d (snd (bulk_upsert_loop rs c u d))" for c u and d :: "'a world_scheme"
    by (induction rs c u d rule: bulk_upsert_loop.induct)
      (auto split: option.splits intro: moves_trans [OF moves_insert] moves_trans [OF put])
  then have "moves w (snd (bulk_upsert_zones rs w))" by (simp add: bulk_upsert_zones_def)
  then show ?thesis
    by (auto simp: import_zones_api_def split: prod.splits intro: moves_trans [OF _ moves_views(1)] dest: arg_cong [of _ _ snd])
qed

lemma moves_float_pause: "moves d (snd (pause_active_zones g d))"
proof -
  have "row_at zid (upd_rows P float_columns zs) j =
      map_option (\<lambda>z. if P z then float_columns z else z) (row_at zid zs j)" for P zs j
    by (rule row_at_upd_keys) (simp add: float_columns_def)
  then show ?thesis
    by (auto simp: moves_def pause_active_zones_def zstate_at_def get_zone_def float_columns_def split: if_splits option.splits)
qed

subsection \<open>The system\<close>

text \<open>
  One step of the running system: a request, a job that fires, a step of a program or sequence thread,
  a message of a relay, of the rain sensor or of a tank float, a verdict of the verifier, a round of a
  watchdog, boot, shutdown, a write that does not name the state, or anything that does not touch the
  zones (the clock, meter samples, confirmed runs, each access of a delayed master close).
\<close>

inductive app_step :: "app \<Rightarrow> app \<Rightarrow> bool" where
  req_start: "app_step s (snd (start_zone_api i s))"
| req_mqtt_start: "app_step s (snd (mqtt_start_api i b s))"
| req_stop: "app_step s (snd (stop_zone_api i s))"
| req_mqtt_stop: "app_step s (snd (mqtt_stop_api i s))"
| req_poll: "app_step s (snd (watering_time_api i s))"
| req_group_stop: "app_step s (snd (stop_group_api g s))"
| req_skip: "app_step s (snd (skip_api g s))"
| req_first: "app_step s (snd (start_from_first_api g b s))"
| req_selected: "app_step s (snd (run_selected_api g b s))"
| req_exclusive: "app_step s (snd (start_zone_exclusive_api g i s))"
| req_master: "app_step s (snd (master_valve_api g a s))"
| req_emergency: "app_step s (snd (emergency_stop_api s))"
| req_resume: "app_step s (snd (emergency_resume_api s))"
| req_postpone: "app_step s (snd (postpone_api b s))"
| req_edit: "app_step s (snd (put_zone_api i us s))"
| req_create: "app_step s (snd (create_zone_api r s))"
| req_import: "app_step s (snd (import_zones_api rs s))"
| req_delete: "app_step s (snd (delete_zone_api i s))"
| job_stop: "app_step s (auto_stop_zone i (remove_job j s))"
| job_master: "app_step s (job_close_master_valve g (remove_job j s))"
| thread_peer: "app_step s (peer_off z s)"
| thread_start: "app_step s (start_scheduled_zone pid i dur s)"
| thread_finish: "app_step s (finish_scheduled_zone i s)"
| seq_start: "app_step s (start_sequence_zone g z dur s)"
| seq_finish: "app_step s (finish_sequence_zone i s)"
| relay: "app_step s (snd (on_message recent sid tp p (h, s)))"
| rain: "app_step s (snd (handle_payload st p m s))"
| float_low: "app_step s (snd (pause_active_zones g s))"
| plan: "app_step s (schedule_program accepts p s)"
| verdict: "app_step s (record_fault i z now wl s)"
| cap_round: "app_step s (check_zones setting s)"
| group_round: "app_step s (enforce_group_exclusive_all_groups s)"
| boot: "app_step s (init_scheduler accepts (boot_sync s))"
| shut: "app_step s (snd (shutdown_all_zones_off reach False s))"
| row_write: "upd_state us = None \<Longrightarrow> app_step s (update_zone i us s)"
| other: "zview s' = zview s \<Longrightarrow> app_step s s'"

inductive_cases app_stepE: "app_step s s'"

lemma app_step_moves: "app_step s s' \<Longrightarrow> moves s s'"
proof (induction rule: app_step.induct)
  case (job_stop s i j)
  show ?case by (rule moves_trans [OF moves_sched_views(7) moves_auto_stop])
next
  case (job_master s g j)
  show ?case by (rule moves_trans [OF moves_sched_views(7) moves_close_master])
next
  case (boot s accepts)
  show ?case by (rule moves_trans [OF moves_boot_sync moves_boot])
qed (simp_all add: moving moves_start_api moves_mqtt_start_api moves_stop_api moves_poll moves_stop_group_api moves_skip_api
    moves_sequence_apis moves_exclusive_api moves_master_api moves_emergency_api moves_check_zones moves_exclusivity
    moves_shutdown moves_update_zone moves_view moves_on_message moves_rain moves_postpone_api moves_put_zone_api
    moves_create_zone_api moves_import_api moves_delete_zone_api moves_float_pause)

text \<open>The delayed close of a master valve, other threads in between, is a sequence of such steps.\<close>

lemma close_is_steps:
  assumes "\<And>n v. app_step\<^sup>*\<^sup>* v (env n v)"
  shows "app_step\<^sup>*\<^sup>* w (snd (do_close env t ct w))"
proof -
  have f: "app_step\<^sup>*\<^sup>* w (fold env ns w)" for ns
    by (induction ns rule: rev_induct) (auto intro: rtranclp_trans assms)
  have view: "app_step\<^sup>*\<^sup>* v v'" if "zview v' = zview v" for v v' :: app using that by (auto intro: app_step.other)
  have p: "app_step\<^sup>*\<^sup>* v (snd (publish_close env t (ct_group ct) srv n v))" for srv n v
  proof -
    define v1 where "v1 = snd (publish_mqtt_value (server_id srv) t (close_value (ct_group ct)) (env n v))"
    have a: "app_step\<^sup>*\<^sup>* v v1"
      unfolding v1_def by (rule rtranclp_trans [OF assms], rule view) simp
    have b: "app_step\<^sup>*\<^sup>* v ((env (n + 1) v1)\<lparr>audit := x\<rparr>)" for x
      by (rule rtranclp_trans [OF a], rule rtranclp_trans [OF assms], rule view) (simp add: zview_def)
    have c: "app_step\<^sup>*\<^sup>* v (set_observed g ''closed'' (env (n + 2) ((env (n + 1) v1)\<lparr>audit := x\<rparr>)))" for x g
      by (rule rtranclp_trans [OF b], rule rtranclp_trans [OF assms], rule view) simp
    show ?thesis using a b c by (auto simp: publish_close_def Let_def v1_def [symmetric])
  qed
  show ?thesis using do_close_cases [of env t ct w] f rtranclp_trans [OF f p] by auto
qed

text \<open>
  C7: the type of a zone's state.  Started with every zone in one of the six states \<open>off\<close>, \<open>starting\<close>,
  \<open>on\<close>, \<open>stopping\<close>, \<open>fault\<close>, \<open>paused\<close>, the system never shows a zone in any other, whatever is requested,
  created, imported, deleted, reported or restarted, whatever fires or fails, in any order.
\<close>

theorem zone_states_typed:
  assumes "app_step\<^sup>*\<^sup>* s s'" "well_typed s" "zstate_at s' i = Some v"
  shows "v \<in> {''off'', ''starting'', ''on'', ''stopping'', ''fault'', ''paused''}"
proof -
  have "well_typed s'" using assms(1,2) by (induction rule: rtranclp_induct) (auto dest: app_step_moves moves_typed)
  then show ?thesis using assms(3) by (auto simp: well_typed_def zone_states_def)
qed

theorem zone_states_typed_witness:
  "\<exists>v. zstate_at (snd (stop_zone_api 1 two_app)) 1 = Some v \<and> v \<in> {''off'', ''starting'', ''on'', ''stopping'', ''fault'', ''paused''}"
proof -
  have z: "get_zone two_app 1 = Some (demo_zone 1 ''on'')" by (simp add: get_zone_def two_app_rows)
  have "cancel_events two_app = (\<lambda>_. None)" by (simp add: two_app_def)
  then have "end_session ''api_zone_stop'' 1 (demo_zone 1 ''on'') two_app = (None, two_app)"
    by (simp add: end_session_def is_group_session_active_def)
  then have "zstate_at (snd (stop_zone_api 1 two_app)) 1 \<noteq> None"
    using zstate_at_stop_zone [OF z] by (auto simp: stop_zone_api_def z Let_def stop_acts_def)
  then obtain v where v: "zstate_at (snd (stop_zone_api 1 two_app)) 1 = Some v" by blast
  have "well_typed two_app" by (auto simp: well_typed_def zstate_at_def get_zone_def two_app_rows split: if_splits)
  moreover have "app_step\<^sup>*\<^sup>* two_app (snd (stop_zone_api 1 two_app))" by (rule r_into_rtranclp) (rule req_stop)
  ultimately show ?thesis using zone_states_typed [of two_app "snd (stop_zone_api 1 two_app)" 1 v] v by simp
qed

end
