(* ===== verification/Balance_Laws.thy ===== *)
theory Balance_Laws
  imports Weather_Balance
begin

text \<open>
  The laws of the nightly water balance: what is cached is what was computed and lies in the
  configured range, a day is counted once, and more rain never means more water.
\<close>

subsection \<open>The cached coefficient\<close>

lemma bal_key_inj [simp]: "bal_key k = bal_key k' \<longleftrightarrow> k = k'"
  by (simp add: bal_key_def)

lemma put_kv_simps [simp]: "kv (put_kv k v st) = (kv st)(bal_key k \<mapsto> v)" "kv_up (put_kv k v st) = kv_up st"
  by (simp_all add: put_kv_def)

lemma put_kv_log [simp]: "balance_log (put_kv k v st) = balance_log st"
  by (simp add: put_kv_def)

definition norm_text :: "balance_cfg \<Rightarrow> day_row list \<Rightarrow> string option \<Rightarrow> string option" where
  "norm_text c rows old = (case new_norm c rows of None \<Rightarrow> old | Some n \<Rightarrow> Some (float_text (round_dec 4 n)))"

lemma store_balance_kv:
  "kv (store_balance c t rows st) = (kv st)
     (bal_key ''deficit_buffer'' := Some (buffer_text c rows),
      bal_key ''et0_norm_daily'' := norm_text c rows (kv st (bal_key ''et0_norm_daily'')),
      bal_key ''norm_last_day'' := (if rows = [] then kv st (bal_key ''norm_last_day'') else Some (r_date (last rows))),
      bal_key ''last_recalc_date'' := Some t,
      bal_key ''coef_cached'' := Some (str_int (balance_coef c rows)))"
  "kv_up (store_balance c t rows st) = kv_up st"
proof -
  show "kv_up (store_balance c t rows st) = kv_up st"
    by (simp add: store_balance_def Let_def split: option.split)
qed (rule ext, cases "new_norm c rows"; cases "rows = []"; simp add: store_balance_def Let_def norm_text_def)

lemma recalc_cases:
  assumes "recalc_balance today net st = (Some r, st')"
  obtains c rows where "c = read_balance_settings (settings.truncate st)" "kv_up st" "b_last_recalc c \<noteq> date_text today"
    "r = balance_summary c rows" "st' = store_balance c (date_text today) rows st"
    "\<exists>h. fetch net max_attempts = Some h \<and> rows = build_history_rows today h" "get_location (settings.truncate st) \<noteq> None"
  using assms by (auto simp: recalc_balance_def Let_def split: if_splits option.splits)

lemma compute_coef_range:
  "compute_coef s n lo hi = 100 \<or> (lo \<le> compute_coef s n lo hi \<and> (lo \<le> hi \<longrightarrow> compute_coef s n lo hi \<le> hi))"
proof (cases "n \<le> 0")
  case False
  let ?v = "clamp_between (100 * s / n) (of_int lo) (of_int hi)"
  have "of_int lo \<le> ?v" "lo \<le> hi \<Longrightarrow> ?v \<le> of_int hi" by (simp_all add: clamp_between_def)
  then have "lo \<le> py_round ?v" "lo \<le> hi \<Longrightarrow> py_round ?v \<le> hi"
    using py_round_mono [of "of_int lo" ?v] py_round_mono [of ?v "of_int hi"] by (simp_all only: py_round_of_int)
  then show ?thesis using False by (simp add: compute_coef_def)
qed (simp add: compute_coef_def)

text \<open>
  C22: the coefficient the nightly job reports is the one its reader finds.  After a recalculation that reports a
  result, the cached value \<open>read_cached_coef\<close> reads back from the settings is the reported coefficient; it is the
  neutral 100, or at least the configured minimum and, when the minimum is not above the maximum, at most
  the maximum; and it is 100 while the history or the window is too short.
\<close>

theorem balance_coef_read_back:
  assumes "recalc_balance today net st = (Some r, st')"
  shows "read_cached_coef st' = br_coef r \<and> has_computed st'
    \<and> (let c = read_balance_settings (settings.truncate st)
        in br_coef r = 100 \<or> (b_min c \<le> br_coef r \<and> (b_min c \<le> b_max c \<longrightarrow> br_coef r \<le> b_max c)))
    \<and> (\<not> (br_norm_ready r \<and> br_full r) \<or> br_days r < min_history_days \<longrightarrow> br_coef r = 100)"
proof -
  obtain c rows where c: "c = read_balance_settings (settings.truncate st)" "kv_up st"
    and r: "r = balance_summary c rows" "st' = store_balance c (date_text today) rows st"
    using recalc_cases [OF assms] by metis
  have "date_text today \<noteq> []" by (simp add: date_text_def)
  then have "read_cached_coef st' = balance_coef c rows" "has_computed st'"
    by (simp_all add: r read_cached_coef_def has_computed_def store_balance_kv c(2) int_float_str_int or_default_def)
  moreover have "balance_coef c rows = 100 \<or>
      (b_min c \<le> balance_coef c rows \<and> (b_min c \<le> b_max c \<longrightarrow> balance_coef c rows \<le> b_max c))"
    using compute_coef_range by (simp add: balance_coef_def)
  moreover have "\<not> (norm_ready (new_norm c rows) rows \<and> full_window c rows) \<or> length rows < min_history_days \<Longrightarrow> balance_coef c rows = 100"
    by (auto simp: balance_coef_def norm_ready_def)
  ultimately show ?thesis by (simp add: r balance_summary_def c(1) [symmetric] Let_def)
qed

subsection \<open>A day counts once\<close>

lemma same_day_noop: "b_last_recalc (read_balance_settings (settings.truncate st)) = date_text today \<Longrightarrow> recalc_balance today net st = (None, st)"
  by (simp add: recalc_balance_def)

lemma settings_after:
  assumes "kv_up st"
  shows "b_last_recalc (read_balance_settings (settings.truncate (store_balance c t rows st))) = t"
  by (simp add: read_balance_settings_def settings.truncate_def store_balance_kv or_default_def Let_def)

lemma round_dec_twice: "round_dec n (round_dec n q) = round_dec n q"
proof -
  have "round_dec n q * 10 ^ n = of_int (py_round (q * 10 ^ n))" by (simp add: round_dec_def)
  then show ?thesis by (metis py_round_of_int round_dec_def)
qed

lemma float_round [simp]: "as_float (Some (float_text (round_dec 4 q))) = Some (round_dec 4 q)"
  by (simp add: as_float_def py_float_text short_round max_places_def)

lemma stored_cfg:
  fixes st :: balance_store and c rows t
  defines "s1 \<equiv> store_balance c t rows st"
  defines "c2 \<equiv> read_balance_settings (settings.truncate (s1\<lparr>kv := (kv s1)(bal_key ''last_recalc_date'' := None)\<rparr>))"
  assumes "rows \<noteq> []"
  shows "b_norm_day c2 = r_date (last rows)" "new_norm c rows = Some n \<Longrightarrow> b_norm c2 = Some (round_dec 4 n)"
  using assms(3)
  by (simp_all add: c2_def s1_def read_balance_settings_def settings.truncate_def store_balance_kv or_default_def norm_text_def Let_def)

lemma folded_log:
  "already_folded c rows \<Longrightarrow> balance_log (store_balance c t rows st) = balance_log st"
  by (simp add: store_balance_def Let_def split: option.split)

text \<open>
  C23: one day is counted once.  After a recalculation a second one on the same day does nothing.  When an operator
  forces one on the same day and the service answers with a history that ends on the same day as the first
  answer, no second audit row is written and a positive climate norm stays exactly as the first run stored
  it, however the rest of the answer differs.  (Only the last day of the history is remembered: answers that
  end on a day, on the day before and on the first day again count that day twice.)
\<close>

theorem day_counts_once:
  assumes "recalc_balance today net st = (Some r, st1)" "fetch net max_attempts = Some h" "build_history_rows today h \<noteq> []"
    "manual_recalc today net' st1 = (Some r2, st2)" "fetch net' max_attempts = Some h'" "build_history_rows today h' \<noteq> []"
    "r_date (last (build_history_rows today h')) = r_date (last (build_history_rows today h))"
  shows "recalc_balance today net'' st1 = (None, st1) \<and> balance_log st2 = balance_log st1
    \<and> (\<forall>n. br_norm r = Some n \<and> 0 < n \<longrightarrow>
          br_norm r2 = Some n \<and> kv st2 (bal_key ''et0_norm_daily'') = kv st1 (bal_key ''et0_norm_daily''))"
proof -
  let ?rows = "build_history_rows today h" and ?rows' = "build_history_rows today h'"
  obtain c where c: "kv_up st" "r = balance_summary c ?rows" "st1 = store_balance c (date_text today) ?rows st"
    using recalc_cases [OF assms(1)] assms(2) by (metis option.inject)
  define sm where "sm = st1\<lparr>kv := (kv st1)(bal_key ''last_recalc_date'' := None)\<rparr>"
  define c2 where "c2 = read_balance_settings (settings.truncate sm)"
  have up: "kv_up st1" by (simp add: c store_balance_kv)
  then have "recalc_balance today net' sm = (Some r2, st2)" using assms(4) by (simp add: manual_recalc_def sm_def)
  then have 2: "r2 = balance_summary c2 ?rows'" "st2 = store_balance c2 (date_text today) ?rows' sm"
    using recalc_cases [OF \<open>recalc_balance today net' sm = _\<close>] assms(5) unfolding c2_def by (metis option.inject)+
  have day: "b_norm_day c2 = r_date (last ?rows)"
    unfolding c2_def sm_def c(3) by (rule stored_cfg [OF assms(3)])
  then have folded: "already_folded c2 ?rows'" using assms(6,7) by (simp add: already_folded_def)
  then have "balance_log st2 = balance_log st1" by (simp add: 2 folded_log sm_def)
  moreover have "recalc_balance today net'' st1 = (None, st1)"
    by (rule same_day_noop) (simp add: c settings_after)
  moreover have "br_norm r2 = Some n \<and> kv st2 (bal_key ''et0_norm_daily'') = kv st1 (bal_key ''et0_norm_daily'')"
    if norm_r: "br_norm r = Some n" and pos: "0 < n" for n
  proof -
    obtain m where m: "new_norm c ?rows = Some m" "n = round_dec 4 m"
      using norm_r by (auto simp: c balance_summary_def)
    then have "b_norm c2 = Some n"
      unfolding c2_def sm_def c(3) by (simp add: stored_cfg(2) [OF assms(3)])
    then have "new_norm c2 ?rows' = Some n" using folded pos by (simp add: new_norm_def)
    moreover have "round_dec 4 n = n" by (simp add: m round_dec_twice)
    ultimately show ?thesis
      by (simp add: 2 balance_summary_def store_balance_kv norm_text_def) (simp add: c store_balance_kv norm_text_def m)
  qed
  ultimately show ?thesis by blast
qed

subsection \<open>More rain, less water\<close>

definition rainier :: "day_row \<Rightarrow> day_row \<Rightarrow> bool" where
  "rainier a b = (r_date a = r_date b \<and> r_et0 a = r_et0 b \<and> r_rain a \<le> r_rain b)"

lemma round_dec_mono: "p \<le> q \<Longrightarrow> round_dec n p \<le> round_dec n q"
proof -
  assume "p \<le> q"
  then have "p * 10 ^ n \<le> q * 10 ^ n" by (rule mult_right_mono) simp
  from py_round_mono [OF this] show ?thesis by (simp add: round_dec_def divide_right_mono)
qed

lemma rainier_deficit: "rainier a b \<Longrightarrow> row_deficit c b \<le> row_deficit c a"
proof -
  assume r: "rainier a b"
  then have "max 0 (r_rain a - b_intercept c) \<le> max 0 (r_rain b - b_intercept c)"
    by (intro max.mono) (simp_all add: rainier_def)
  then show ?thesis using r unfolding row_deficit_def
    by (intro round_dec_mono) (simp add: rainier_def compute_deficit_day_def)
qed

lemma rainier_sum: "list_all2 rainier xs ys \<Longrightarrow> sum_list (map (row_deficit c) ys) \<le> sum_list (map (row_deficit c) xs)"
  by (induction xs ys rule: list_all2_induct) (simp_all add: add_mono rainier_deficit)

lemma rainier_last: "list_all2 rainier xs ys \<Longrightarrow> list_all2 rainier (last_rows n xs) (last_rows n ys)"
  using list_all2_lengthD [of rainier xs ys] by (simp add: last_rows_def list_all2_dropI)

lemma rainier_et0: "list_all2 rainier xs ys \<Longrightarrow> map r_et0 xs = map r_et0 ys"
  by (induction xs ys rule: list_all2_induct) (simp_all add: rainier_def)

lemma rainier_nil: "list_all2 rainier xs ys \<Longrightarrow> xs = [] \<longleftrightarrow> ys = []"
  by auto

lemma rainier_latest: "list_all2 rainier xs ys \<Longrightarrow> ys \<noteq> [] \<Longrightarrow> rainier (last xs) (last ys)"
  by (induction xs ys rule: list_all2_induct) auto

lemma rainier_norm: "list_all2 rainier xs ys \<Longrightarrow> new_norm c xs = new_norm c ys"
proof -
  assume r: "list_all2 rainier xs ys"
  have "bootstrap_norm xs n = bootstrap_norm ys n" for n
    by (simp only: bootstrap_norm_def if_distrib [of "map r_et0"] list_all2_lengthD [OF r] rainier_et0 [OF rainier_last [OF r]]
        rainier_et0 [OF r])
  moreover have "already_folded c xs = already_folded c ys" "ys \<noteq> [] \<Longrightarrow> r_et0 (last xs) = r_et0 (last ys)"
    using rainier_nil [OF r] rainier_latest [OF r] by (auto simp: already_folded_def rainier_def)
  ultimately show ?thesis using rainier_nil [OF r] by (simp add: new_norm_def split: option.split)
qed

lemma compute_coef_mono: "s \<le> s' \<Longrightarrow> compute_coef s n lo hi \<le> compute_coef s' n lo hi"
proof (cases "n \<le> 0")
  case False
  assume "s \<le> s'"
  then have "100 * s / n \<le> 100 * s' / n" using False by (simp add: divide_right_mono)
  then have "clamp_between (100 * s / n) (of_int lo) (of_int hi) \<le> clamp_between (100 * s' / n) (of_int lo) (of_int hi)"
    unfolding clamp_between_def by (intro max.mono min.mono order_refl)
  then show ?thesis using False py_round_mono by (simp add: compute_coef_def)
qed (simp add: compute_coef_def)

lemma rainier_coef:
  assumes "list_all2 rainier xs ys"
  shows "balance_coef c ys \<le> balance_coef c xs"
proof -
  have "window_deficit c ys \<le> window_deficit c xs"
    unfolding window_deficit_def window_rows_def
    using rainier_sum [OF rainier_last [OF assms]] by (intro max.mono) simp_all
  moreover have "full_window c xs = full_window c ys" "norm_ready (new_norm c xs) xs = norm_ready (new_norm c xs) ys"
    using list_all2_lengthD [OF assms] list_all2_lengthD [OF rainier_last [OF assms]]
    by (simp_all add: full_window_def window_rows_def norm_ready_def)
  ultimately show ?thesis
    using compute_coef_mono rainier_norm [OF assms, of c] by (simp add: balance_coef_def)
qed

lemma history_rainier:
  assumes "list_all2 (\<lambda>p q. or_default 0 p \<le> or_default 0 q) ps qs"
  shows "list_all2 rainier (concat (map (\<lambda>(e, p, s). history_row today e p s) (zip es (zip ps ts))))
    (concat (map (\<lambda>(e, p, s). history_row today e p s) (zip es (zip qs ts))))"
  using assms
proof (induction ps qs arbitrary: es ts rule: list_all2_induct)
  case (Cons p ps q qs)
  show ?case
    using Cons(1) Cons.IH [of "tl es" "tl ts"]
    by (cases es; cases ts) (auto simp: history_row_def rainier_def intro!: list_all2_appendI split: option.splits)
qed simp

text \<open>
  Rain is a credit, never a debt.  Of two histories that differ only in the rain of their days, the one with
  more rain never yields the larger coefficient, whatever the settings are.
\<close>

theorem rain_never_raises_coefficient:
  assumes "list_all2 (\<lambda>p q. or_default 0 p \<le> or_default 0 q) (y_rain h) rain"
  shows "balance_coef c (build_history_rows today (h\<lparr>y_rain := rain\<rparr>)) \<le> balance_coef c (build_history_rows today h)"
  unfolding build_history_rows_def by (rule rainier_coef) (simp add: history_rainier [OF assms])

text \<open>Eight days of July, the last three of them hot.\<close>

definition demo_history :: "rat option list \<Rightarrow> history" where
  "demo_history rain =
     \<lparr>y_et0 = [Some 4, Some 4, Some 4, Some 4, Some 4, Some 6, Some 6, Some 6, Some 1], y_rain = rain,
      y_time = [''2024-07-01'', ''2024-07-02'', ''2024-07-03'', ''2024-07-04'', ''2024-07-05'', ''2024-07-06'', ''2024-07-07'',
        ''2024-07-08'', ''2024-07-09'']\<rparr>"

definition dry :: "rat option list" where "dry = replicate 9 (Some 0)"

definition wet :: "rat option list" where "wet = replicate 6 (Some 0) @ [Some 9, None, None]"

definition demo_today :: int where "demo_today = 19909"

definition demo_balance :: balance_store where
  "demo_balance = \<lparr>kv = [''weather.latitude'' \<mapsto> ''42.65'', ''weather.longitude'' \<mapsto> ''77.08''], kv_up = True, balance_log = []\<rparr>"

definition demo_net :: "rat option list \<Rightarrow> nat \<Rightarrow> history answer" where
  "demo_net rain k = Answer (demo_history rain)"

lemma demo_fetch [simp]: "fetch (demo_net rain) max_attempts = Some (demo_history rain)"
  by (simp add: max_attempts_def numeral_2_eq_2 demo_net_def)

lemma demo_recalc:
  "recalc_balance demo_today (demo_net rain) demo_balance =
     (Some (balance_summary (read_balance_settings (settings.truncate demo_balance)) (build_history_rows demo_today (demo_history rain))),
      store_balance (read_balance_settings (settings.truncate demo_balance)) (date_text demo_today)
        (build_history_rows demo_today (demo_history rain)) demo_balance)"
proof -
  have "get_location (settings.truncate demo_balance) = Some (853/20, 1927/25)" by code_simp
  moreover have "b_last_recalc (read_balance_settings (settings.truncate demo_balance)) = []" by code_simp
  moreover have "kv_up demo_balance" by (simp add: demo_balance_def)
  moreover have "date_text demo_today \<noteq> []" by (simp add: date_text_def)
  ultimately show ?thesis by (simp add: recalc_balance_def Let_def)
qed

lemma demo_coef: "balance_coef (read_balance_settings (settings.truncate demo_balance)) (build_history_rows demo_today (demo_history dry)) = 126"
  by code_simp

theorem balance_coef_read_back_witness:
  "read_cached_coef (snd (recalc_balance demo_today (demo_net dry) demo_balance)) = 126"
  using balance_coef_read_back [OF demo_recalc [of dry]] by (simp add: demo_recalc balance_summary_def demo_coef)

lemma demo_manual:
  "\<exists>r2 st2. manual_recalc demo_today (demo_net rain) (snd (recalc_balance demo_today (demo_net dry) demo_balance)) = (Some r2, st2)"
proof -
  let ?st1 = "snd (recalc_balance demo_today (demo_net dry) demo_balance)"
  let ?sm = "?st1\<lparr>kv := (kv ?st1)(bal_key ''last_recalc_date'' := None)\<rparr>"
  have "kv_up ?st1" by (simp add: demo_recalc store_balance_kv) (simp add: demo_balance_def)
  moreover have "kv ?st1 ''weather.latitude'' = Some ''42.65''" "kv ?st1 ''weather.longitude'' = Some ''77.08''"
    by (simp_all add: demo_recalc store_balance_kv bal_key_def) (simp_all add: demo_balance_def)
  then have "get_location (settings.truncate ?sm) = get_location (settings.truncate demo_balance)"
    using \<open>kv_up ?st1\<close> by (simp add: get_location_def settings.truncate_def bal_key_def) (simp add: demo_balance_def)
  moreover have "get_location (settings.truncate demo_balance) = Some (853/20, 1927/25)" by code_simp
  moreover have "b_last_recalc (read_balance_settings (settings.truncate ?sm)) = []"
    by (simp add: read_balance_settings_def settings.truncate_def or_default_def Let_def)
  moreover have "date_text demo_today \<noteq> []" by (simp add: date_text_def)
  ultimately show ?thesis by (simp add: manual_recalc_def recalc_balance_def [of _ _ "?sm"] Let_def)
qed

theorem day_counts_once_witness:
  "let st1 = snd (recalc_balance demo_today (demo_net dry) demo_balance)
   in balance_log (snd (manual_recalc demo_today (demo_net wet) st1)) = balance_log st1"
proof -
  obtain r2 st2 where m: "manual_recalc demo_today (demo_net wet) (snd (recalc_balance demo_today (demo_net dry) demo_balance)) = (Some r2, st2)"
    using demo_manual by blast
  have d: "r_date (last (build_history_rows demo_today (demo_history dry))) = ''2024-07-08''"
    "r_date (last (build_history_rows demo_today (demo_history wet))) = ''2024-07-08''" by code_simp+
  have ne: "build_history_rows demo_today (demo_history dry) \<noteq> []" "build_history_rows demo_today (demo_history wet) \<noteq> []"
    by code_simp+
  show ?thesis
    using day_counts_once [OF demo_recalc [of dry] demo_fetch ne(1) m [unfolded demo_recalc snd_conv] demo_fetch ne(2)] d m
    by (simp add: demo_recalc)
qed

theorem rain_never_raises_coefficient_witness:
  "balance_coef (read_balance_settings (settings.truncate demo_balance)) (build_history_rows demo_today (demo_history wet)) \<le> 126"
proof -
  have "list_all2 (\<lambda>p q. or_default 0 p \<le> or_default 0 q) (y_rain (demo_history dry)) wet"
    by (simp add: demo_history_def dry_def wet_def or_default_def numeral_eq_Suc)
  from rain_never_raises_coefficient [OF this, of "read_balance_settings (settings.truncate demo_balance)" demo_today]
  show ?thesis by (simp add: demo_coef) (simp add: demo_history_def)
qed

end
