(* ===== verification/Weather_Laws.thy ===== *)
theory Weather_Laws
  imports Weather_Adjust Rain_Laws Thread_Laws
begin

text \<open>
  What the watering decision guarantees: how long a scheduled zone waters, that dangerous weather stops
  it whatever factors are switched off, when a local sensor or a relay file is
  trusted, which hours the rain rule sees, and the laws of the nightly water balance.
\<close>

subsection \<open>The coefficient\<close>

lemma coefficient_range: "0 \<le> fst (get_coefficient x st) \<and> fst (get_coefficient x st) \<le> 200"
proof -
  have "0 \<le> coefficient_of s ws w" "coefficient_of s ws w \<le> 200" for s ws w
    by (simp_all add: coefficient_of_def)
  then show ?thesis by (auto simp: get_coefficient_def Let_def split: prod.splits option.splits)
qed

subsection \<open>How long a scheduled zone waters\<close>

text \<open>The waits of a turn see no cancellation, no skip and no shutdown.\<close>

definition calm :: "int \<Rightarrow> 'a sched_scheme \<Rightarrow> bool" where
  "calm g s = (\<not> group_cancelled s g \<and> skip_events s g \<noteq> Some True \<and> \<not> shutdown s)"

lemma calm_frame: "core s = core s' \<Longrightarrow> skip_events s = skip_events s' \<Longrightarrow> calm g s = calm g s'"
  by (auto simp: calm_def group_cancelled_def core_def split: option.splits)

lemma skip_of_more: "world.more s = world.more s' \<Longrightarrow> skip_events s = skip_events s'" for s s' :: "'a sched_scheme"
  using sched_of_more [of s s'] by simp

lemma skip_peers [simp]: "skip_events (fold peer_off zs s) = skip_events s"
  by (induction zs arbitrary: s) (simp_all add: skip_of_more [OF more_peer_off])

lemma skip_hard_stop [simp]: "skip_events (schedule_zone_hard_stop i t s) = skip_events s"
  by (simp add: schedule_zone_hard_stop_def add_job_def Let_def)

lemma skip_log [simp]: "skip_events (add_log ty is s) = skip_events s"
  by (rule skip_of_more) (simp add: keeps_sched)

lemma skip_start [simp]: "skip_events (start_scheduled_zone pid i dur s) = skip_events s"
  by (simp add: start_scheduled_zone_def Let_def skip_of_more [OF more_update_zone] skip_of_more [OF more_exclusive_start]
      skip_of_more [OF more_mark_scheduled])

lemma skip_finish [simp]: "skip_events (finish_scheduled_zone i s) = skip_events s"
  by (simp add: finish_scheduled_zone_def Let_def skip_of_more [OF more_stop_zone])

text \<open>Between its seconds the rest of the program may write any row; it leaves the sessions and the clock.\<close>

definition quiet :: "('a sched_scheme \<Rightarrow> 'a sched_scheme) \<Rightarrow> bool" where
  "quiet env = (\<forall>s. core (env s) = core s \<and> skip_events (env s) = skip_events s)"

lemma quiet_tick:
  assumes "quiet env"
  shows "calm g (tick env s) = calm g s" "clk (tick env s) = clk s + 1" "shutdown (tick env s) = shutdown s"
  using assms by (auto simp: quiet_def tick_def calm_def group_cancelled_def core_def split: option.splits)

lemma quiet_wait:
  assumes "quiet env" "calm g s"
  shows "fst (wait_loop env (\<lambda>s. group_cancelled s g) g n s) = Elapsed
    \<and> calm g (snd (wait_loop env (\<lambda>s. group_cancelled s g) g n s))
    \<and> clk (snd (wait_loop env (\<lambda>s. group_cancelled s g) g n s)) = clk s + n"
  using assms(2)
proof (induction n arbitrary: s)
  case (Suc n)
  then have "\<not> group_cancelled s g" "skip_events s g \<noteq> Some True" "\<not> shutdown s" by (simp_all add: calm_def)
  then show ?case using Suc by (simp add: Let_def quiet_tick [OF assms(1)])
qed simp

lemma quiet_pad:
  assumes "quiet env" "calm g s"
  shows "clk (pad_loop env (\<lambda>s. group_cancelled s g) n s) = clk s + n"
  using assms(2)
proof (induction n arbitrary: s)
  case (Suc n)
  then have "\<not> group_cancelled s g" "\<not> shutdown s" by (simp_all add: calm_def)
  then show ?case using Suc by (simp add: Let_def quiet_tick [OF assms(1)])
qed simp

lemma quiet_turn:
  assumes "quiet env" "calm g s" "0 < dur"
  shows "int (clk (water_program_zone env pid g i dur s)) = int (clk s) + 60 * dur"
proof -
  define s1 where "s1 = start_scheduled_zone pid i dur (fold peer_off (group_peers s g i) s)"
  define w where "w = wait_loop env (\<lambda>s. group_cancelled s g) g (watering_seconds dur (early_off s1)) s1"
  define s2 where "s2 = finish_scheduled_zone i (snd w)"
  have s1: "clk s1 = clk s" "calm g s1"
    using calm_frame [of s1 s g] assms(2) clk_frame [of s1 s] by (simp_all add: s1_def)
  note w = quiet_wait [OF assms(1) s1(2), of "watering_seconds dur (early_off s1)", folded w_def]
  have s2: "clk s2 = clk (snd w)" "calm g s2"
    using calm_frame [of s2 "snd w" g] w clk_frame [of s2 "snd w"] by (simp_all add: s2_def)
  have "clk (water_program_zone env pid g i dur s)
      = clk s + watering_seconds dur (early_off s1) + nat (clamp_early (early_off s1))"
    unfolding water_program_zone_def Let_def s1_def [symmetric] w_def [symmetric] s2_def [symmetric]
    using w s2 s1 by (simp add: quiet_pad [OF assms(1) s2(2)])
  then show ?thesis using watering_plus_pad [OF assms(3), of "early_off s1"] by linarith
qed

lemma adjusted_bounds:
  assumes "1 \<le> base" "wx_enabled x" "0 \<le> wx_coeff x" "wx_coeff x \<le> 200" "wx_coeff x \<noteq> 0"
  defines "d \<equiv> weather_adjusted_duration x base"
  shows "1 \<le> d \<and> d \<le> 2 * base \<and> (d = 1 \<and> wx_coeff x * base \<le> 50 \<or> \<bar>100 * d - wx_coeff x * base\<bar> \<le> 50)"
proof -
  define p where "p = py_round (of_int (base * wx_coeff x) / 100)"
  have d: "d = max 1 p" using assms(2,5) by (simp add: d_def p_def weather_adjusted_duration_def)
  define n where "n = base * wx_coeff x"
  have "\<bar>of_int p - (of_int n :: rat) / 100\<bar> \<le> 1/2"
    unfolding p_def n_def by (rule py_round_near)
  then have "100 * of_int p - (of_int n :: rat) \<le> 50" "(of_int n :: rat) - 100 * of_int p \<le> 50"
    by (simp_all only: abs_le_iff, linarith+)
  then have "(of_int (100 * p - n) :: rat) \<le> of_int 50" "(of_int (n - 100 * p) :: rat) \<le> of_int 50" by simp_all
  then have "100 * p - n \<le> 50" "n - 100 * p \<le> 50" by (simp_all only: of_int_le_iff)
  then have near: "\<bar>100 * p - wx_coeff x * base\<bar> \<le> 50" by (simp add: n_def abs_le_iff mult.commute)
  have "d \<le> 2 * base" unfolding d_def by (rule adjusted_le) (use assms in simp_all)
  then show ?thesis using near d by auto
qed


subsection \<open>Dangerous weather\<close>

lemma rule_holds: "first_rule rs = v \<Longrightarrow> v \<noteq> Water \<Longrightarrow> \<exists>c. (c, v) \<in> set rs \<and> c"
  by (induction rs rule: first_rule.induct) (auto split: if_splits)

lemma no_rule: "first_rule rs = Water \<Longrightarrow> (\<And>c v. (c, v) \<in> set rs \<Longrightarrow> v \<noteq> Water) \<Longrightarrow> (c, v) \<in> set rs \<Longrightarrow> \<not> c"
  by (induction rs rule: first_rule.induct) (auto split: if_splits)

lemma skips_iff: "skips (first_rule (skip_rules st ws w)) \<longleftrightarrow>
   f_rain ws \<and> (ws_rain ws < w_precipitation_24h w \<or> ws_rain ws < w_precipitation_6h w)
   \<or> f_freeze ws \<and> (below (ws_freeze ws) (w_temperature w) \<or> below (ws_freeze ws) (w_min_temp_6h w))
   \<or> f_wind ws \<and> wind_exceeds st ws w"
  by (auto simp: skip_rules_def skips_def)

text \<open>
  Dangerous weather, in the thresholds of the settings: more rain in the last day or in the next six hours than
  the rain threshold, frost now or in the next six hours, or more wind than the threshold in the unit it is
  set in.  It is read in the data a hook sees in one second, and no factor switch occurs in it.
\<close>

definition dangerous :: "settings \<Rightarrow> weather_data \<Rightarrow> bool" where
  "dangerous ss w =
     (let ws = weather_settings_of ss in
      w_precipitation_24h w > ws_rain ws \<or> w_precipitation_6h w > ws_rain ws
      \<or> (\<exists>t \<in> set_option (w_temperature w). t < ws_freeze ws)
      \<or> (\<exists>t \<in> set_option (w_min_temp_6h w). t < ws_freeze ws)
      \<or> (\<exists>v \<in> set_option (w_wind_speed w).
           v > (if get_setting_value ''weather.wind_threshold_ms'' ss = None then ws_wind_kmh ws else ws_wind_ms ws)))"

definition danger :: "outside \<Rightarrow> weather_store \<Rightarrow> bool" where
  "danger x st = (\<exists>w \<in> set_option (fst (adjusted_weather x st)). dangerous (wx_settings st) w)"

lemma dangerous_iff: "dangerous ss w = check_safety_skip ss (weather_settings_of ss) w"
  by (auto simp: dangerous_def check_safety_skip_def below_def wind_exceeds_def wind_threshold_def has_ms_threshold_def
      Let_def split: option.splits)

lemma danger_coefficient: "weather_enabled (wx_settings st) \<Longrightarrow> danger x st \<Longrightarrow> fst (get_coefficient x st) = 0"
  by (auto simp: danger_def dangerous_iff get_coefficient_def weather_enabled_def coefficient_of_def Let_def split: prod.splits option.splits)

lemma postpone_keeps_runs: "sent (snd (update_zone_postpone i u r s)) = sent s"
  "zone_runs (snd (update_zone_postpone i u r s)) = zone_runs s" for s :: "'a world_scheme"
  by (simp_all add: update_zone_postpone_def put_zone_def)

lemma clear_stale_frame: "zones (clear_stale_skip g s) = zones s" "sent (clear_stale_skip g s) = sent s"
  "zone_runs (clear_stale_skip g s) = zone_runs s" "clk (clear_stale_skip g s) = clk s"
  by (simp_all add: clear_stale_skip_def)

lemma zstate_at_clear_stale: "zstate_at (clear_stale_skip g s) = zstate_at s"
  by (rule zstate_at_cong) (simp add: zview_def clear_stale_skip_def)

lemma postpone_clk: "clk (snd (update_zone_postpone i u r s)) = clk s"
  by (simp add: update_zone_postpone_def put_zone_def)

lemma zero_coefficient_waits:
  assumes "get_zone s i = Some z" "duration z \<noteq> None" "wx_enabled (wx (clk s))" "wx_coeff (wx (clk s)) = 0"
  shows "\<not> fst (run_program_zone env wx False pid i s)
    \<and> (let s' = snd (run_program_zone env wx False pid i s)
        in zstate_at s' = zstate_at s \<and> sent s' = sent s \<and> zone_runs s' = zone_runs s)"
proof -
  obtain base where "duration z = Some base" using assms(2) by auto
  then show ?thesis
    using assms(1,3,4)
    by (simp add: run_program_zone_def weather_adjusted_duration_def Let_def clear_stale_frame zstate_at_clear_stale
        postpone_keeps_runs postpone_clk)
qed

text \<open>
  C20: dangerous weather stops scheduled watering whatever factors are switched off.  When the adjustment is on
  and, in the second a scheduled program reaches a zone, the rain of the day or of the next six hours, the
  temperature now or expected, or the wind is beyond its threshold, the turn changes no zone state, sends
  nothing to a broker and opens no run, even with the rain, freeze and wind factors disabled.
\<close>

theorem danger_stops_scheduled_zone:
  assumes "get_zone s i = Some z" "duration z \<noteq> None"
    "weather_enabled (wx_settings (st (clk s)))" "danger (x (clk s)) (st (clk s))"
  shows "\<not> fst (run_program_zone env (\<lambda>t. weather_of (x t) (st t)) False pid i s)
    \<and> (let s' = snd (run_program_zone env (\<lambda>t. weather_of (x t) (st t)) False pid i s)
        in zstate_at s' = zstate_at s \<and> sent s' = sent s \<and> zone_runs s' = zone_runs s)"
  by (rule zero_coefficient_waits [OF assms(1,2)])
    (simp_all add: weather_of_def assms(3) danger_coefficient [OF assms(3,4)])

subsection \<open>The hours the rain rule sees\<close>

lemma pad_inj: "0 \<le> a \<Longrightarrow> 0 \<le> b \<Longrightarrow> zero_pad k a = zero_pad k b \<longleftrightarrow> a = b"
  by (metis nat_of_zero_pad option.inject)

lemma hour_text_inj:
  assumes "0 \<le> h" "h < 24" "0 \<le> h'" "h' < 24"
  shows "hour_text (86400 * d + 3600 * h) = hour_text (86400 * d + 3600 * h') \<longleftrightarrow> h = h'"
proof -
  have "day_of (86400 * d + 3600 * k) = d" "(86400 * d + 3600 * k) mod 86400 div 3600 = k" if "0 \<le> k" "k < 24" for k
  proof -
    have "3600 * k < 86400" "0 \<le> 3600 * k" using that by linarith+
    then show "day_of (86400 * d + 3600 * k) = d" "(86400 * d + 3600 * k) mod 86400 div 3600 = k"
      by (simp_all add: day_of_def mult.commute [of 86400] mod_pos_pos_trivial)
  qed
  note this [OF assms(1,2)] this [OF assms(3,4)]
  then show ?thesis using assms by (simp add: hour_text_def pad_inj)
qed

lemma hour_of_time: "hour_text t = hour_text (day_start t + 3600 * (t mod 86400 div 3600))"
proof -
  define h where "h = t mod 86400 div 3600"
  have b: "0 \<le> t mod 86400" "t mod 86400 < 86400" by simp_all
  then have "0 \<le> h" "h < 24" unfolding h_def by (simp_all add: div_less_iff_less_mult pos_imp_zdiv_nonneg_iff)
  then have "3600 * h < 86400" "0 \<le> 3600 * h" by linarith+
  then have "day_of (day_start t + 3600 * h) = day_of t" "(day_start t + 3600 * h) mod 86400 div 3600 = h"
    by (simp_all add: day_of_def day_start_def mult.commute [of 86400] mod_pos_pos_trivial)
  then show ?thesis by (simp add: hour_text_def h_def [symmetric])
qed

lemma index_of_map:
  "inj_on f (set xs) \<Longrightarrow> distinct xs \<Longrightarrow> k < length xs \<Longrightarrow> index_of (f (xs ! k)) (map f xs @ ys) = Some k"
proof (induction xs arbitrary: k)
  case (Cons x xs)
  then show ?case
    by (cases k) (auto simp: inj_on_def)
qed simp

definition day_hours :: "int \<Rightarrow> string list" where
  "day_hours d = map (\<lambda>h. hour_text (86400 * d + 3600 * int h)) [0..<24]"

lemma hour_index_today:
  assumes "take 24 (h_time f) = day_hours (day_of t)" "t = local_time c (fc_offset f)"
  shows "hour_index c f = Some (nat (t mod 86400 div 3600))"
proof -
  define h where "h = t mod 86400 div 3600"
  have b: "0 \<le> t mod 86400" "t mod 86400 < 86400" by simp_all
  then have h: "0 \<le> h" "h < 24" unfolding h_def by (simp_all add: div_less_iff_less_mult pos_imp_zdiv_nonneg_iff)
  let ?g = "\<lambda>k. hour_text (86400 * day_of t + 3600 * int k)"
  have "inj_on ?g (set [0..<24])" by (rule inj_onI) (simp add: hour_text_inj)
  then have "index_of (?g ([0..<24] ! nat h)) (map ?g [0..<24] @ drop 24 (h_time f)) = Some (nat h)"
    using h by (intro index_of_map) simp_all
  moreover have "map ?g [0..<24] @ drop 24 (h_time f) = h_time f"
    using assms(1) by (metis append_take_drop_id day_hours_def)
  moreover have "?g ([0..<24] ! nat h) = hour_text t"
    using h hour_of_time [of t] by (simp add: h_def [symmetric] day_start_def)
  ultimately show ?thesis
    using assms(2) by (simp add: hour_index_def current_hour_def h_def)
qed

lemma sum_known_list: "sum_known arr ks = sum_list (known arr ks)"
proof -
  have "fold (\<lambda>v acc. acc + v) xs a = a + sum_list xs" for xs and a :: rat
    by (induction xs arbitrary: a) (simp_all add: algebra_simps)
  then show ?thesis by (simp add: sum_known_def)
qed

text \<open>
  The "24 hours" of the rain rule are the hours of the current day.  The request asks for three forecast days and
  no past one, so the hourly arrays begin at the local midnight; for such a forecast the sum the skip rule and
  the coefficient compare with the threshold runs from that midnight to the current hour, and rain that
  fell the evening before is not in it.
\<close>

theorem rain_sum_starts_at_midnight:
  assumes "take 24 (h_time f) = day_hours (day_of t)" "t = local_time c (fc_offset f)"
  shows "w_precipitation_24h (parse_weather c q f) = sum_list (known (h_precipitation f) [0..<Suc (nat (t mod 86400 div 3600))])"
proof -
  have "t mod 86400 < 86400" by simp
  then have "t mod 86400 div 3600 < 24" by (simp add: div_less_iff_less_mult)
  then have "nat (t mod 86400 div 3600) - 23 = 0" by simp
  then show ?thesis
    by (simp add: parse_weather_def Let_def hour_index_today [OF assms] sum_known_list del: upt_Suc)
qed

text \<open>A concrete morning: the forecast of one day, with 8 mm of rain at five in the morning.\<close>

definition demo_forecast :: "int \<Rightarrow> forecast" where
  "demo_forecast day =
     \<lparr>fc_offset = Some 0, h_time = day_hours day, h_temperature = replicate 24 (Some 18), h_humidity = replicate 24 (Some 60),
      h_precipitation = [Some 0, Some 0, Some 0, Some 0, Some 0, Some 8, Some 0] @ replicate 17 (Some 0), h_wind = replicate 24 (Some 1), h_et0 = replicate 24 (Some (1/10)),
      h_code = replicate 24 (Some 61), d_time = [date_text day], d_code = [Some 61], d_sunrise = [], d_sunset = [],
      d_precipitation = [Some 8], d_et0 = [Some 3], d_tmin = [Some 12], d_tmax = [Some 20]\<rparr>"

definition demo_clocks :: "int \<Rightarrow> clocks" where
  "demo_clocks day = \<lparr>local_now = 86400 * day + 6 * 3600, utc_now = 86400 * day + 6 * 3600, wall = 1700000000\<rparr>"

definition demo_env :: env_monitor where
  "demo_env = \<lparr>env_cfg = None, temp_value = None, hum_value = None, last_temp_rx = 0, last_hum_rx = 0,
     temp_client = None, hum_client = None\<rparr>"

definition demo_outside :: outside where
  "demo_outside = \<lparr>o_clocks = demo_clocks 20000,
     o_source = \<lparr>direct_net = (\<lambda>k. if k = 0 then Transient else Answer (demo_forecast 20000)), relay_net = (\<lambda>_. Broken), relay_set = False\<rparr>,
     o_env = demo_env\<rparr>"

definition demo_weather_store :: "string \<Rightarrow> weather_store" where
  "demo_weather_store v = \<lparr>wx_settings = \<lparr>kv = [''weather.enabled'' \<mapsto> ''1'', ''weather.factor.rain'' \<mapsto> v,
     ''weather.latitude'' \<mapsto> ''42.65'', ''weather.longitude'' \<mapsto> ''77.08''], kv_up = True\<rparr>, wx_cache = []\<rparr>"

lemma demo_hour: "take 24 (h_time (demo_forecast d)) = day_hours (day_of (86400 * d + 6 * 3600))"
  "local_time (demo_clocks d) (fc_offset (demo_forecast d)) = 86400 * d + 6 * 3600"
  by (simp_all add: demo_forecast_def demo_clocks_def local_time_def day_hours_def day_of_def)

lemma demo_known: "known (h_precipitation (demo_forecast d)) [0..<7] = [0, 0, 0, 0, 0, 8, 0]"
  by (simp add: demo_forecast_def known_def safe_get_def upt_rec)

lemma demo_rain: "w_precipitation_24h (parse_weather (demo_clocks 20000) q (demo_forecast 20000)) = 8"
proof -
  have "hour_index (demo_clocks 20000) (demo_forecast 20000) = Some 6"
    using hour_index_today [OF demo_hour(1) demo_hour(2) [symmetric], of 20000] by simp
  then show ?thesis
    by (simp add: parse_weather_def Let_def sum_known_list demo_known [simplified] del: upt_Suc)
qed

theorem rain_sum_starts_at_midnight_witness:
  "w_precipitation_24h (parse_weather (demo_clocks 20000) 0 (demo_forecast 20000)) = 8"
proof -
  have "Suc (nat ((86400 * 20000 + 6 * 3600) mod 86400 div 3600)) = 7" by simp
  then show ?thesis
    using rain_sum_starts_at_midnight [OF demo_hour(1) demo_hour(2) [symmetric], of 20000 0] by (simp only: demo_known) simp
qed

lemma demo_weather: "fst (get_weather (o_clocks demo_outside) (o_source demo_outside) False (demo_weather_store v))
  = Some (parse_weather (demo_clocks 20000) 1700000000 (demo_forecast 20000))"
proof -
  have "get_location (wx_settings (demo_weather_store v)) = Some (853/20, 1927/25)" by code_simp
  moreover have "read_fresh c a b (demo_weather_store v) = None" for c a b
    by (simp add: read_fresh_def latest_row_def demo_weather_store_def)
  moreover have "get_source_mode (wx_settings (demo_weather_store v)) = ''direct''" by code_simp
  then have "fetch_weather c (o_source demo_outside) (wx_settings (demo_weather_store v)) = Some (demo_forecast 20000)" for c
    by (simp add: fetch_weather_def max_attempts_def numeral_2_eq_2) (simp add: demo_outside_def)
  moreover have "o_clocks demo_outside = demo_clocks 20000" "wall (demo_clocks 20000) = 1700000000"
    by (simp_all add: demo_outside_def demo_clocks_def)
  ultimately show ?thesis by (simp add: get_weather_def)
qed

lemma demo_settings: "weather_enabled (wx_settings (demo_weather_store v))" "ws_rain (weather_settings_of (wx_settings (demo_weather_store v))) = 5"
  by code_simp+

lemma demo_is_dangerous: "danger demo_outside (demo_weather_store v)"
proof -
  obtain st where "get_weather (o_clocks demo_outside) (o_source demo_outside) False (demo_weather_store v)
     = (Some (parse_weather (demo_clocks 20000) 1700000000 (demo_forecast 20000)), st)"
    using demo_weather by (metis prod.collapse)
  then show ?thesis
    by (simp add: danger_def dangerous_def Let_def adjusted_weather_def demo_settings apply_source_def demo_rain)
qed

theorem danger_stops_scheduled_zone_witness:
  "zone_runs (snd (run_program_zone (\<lambda>s. s) (\<lambda>t. weather_of demo_outside (demo_weather_store ''0'')) False 7 1 (fresh_sched demo_world)))
     = zone_runs (fresh_sched demo_world)"
proof -
  have "get_zone (fresh_sched demo_world) 1 = Some (demo_zone 1 ''on'')" by (simp add: get_zone_def)
  moreover have "duration (demo_zone 1 ''on'') \<noteq> None" by (simp add: demo_zone_def new_zone_def plain_req_def rq_duration_or10_def)
  ultimately show ?thesis
    using danger_stops_scheduled_zone [of "fresh_sched demo_world" 1 "demo_zone 1 ''on''" "\<lambda>_. demo_weather_store ''0''"
        "\<lambda>_. demo_outside" "\<lambda>s. s" 7] demo_is_dangerous demo_settings(1)
    by (simp add: Let_def)
qed

definition no_location :: weather_store where
  "no_location = \<lparr>wx_settings = \<lparr>kv = [''weather.enabled'' \<mapsto> ''1''], kv_up = True\<rparr>, wx_cache = []\<rparr>"

lemma fresh_sched_flags:
  "shutdown (fresh_sched w) = False" "clk (fresh_sched w) = 0" "event_set (fresh_sched w) = (\<lambda>_. False)"
  "cancellations (fresh_sched w) = cancellations w"
  by (simp_all add: fresh_sched_def world.defs sched.defs)

lemma demo_calm: "cancellations demo_world = []"
  by (simp add: demo_world_def boot_world_def)

lemma demo_turn:
  "get_zone (fresh_sched demo_world) 1 = Some (demo_zone 1 ''on'')" "duration (demo_zone 1 ''on'') = Some 15"
  "postpone_until (demo_zone 1 ''on'') = None"
  "\<not> group_cancelled (fresh_sched demo_world) g" "\<not> is_program_run_cancelled_for_group (fresh_sched demo_world) 7 d g"
  by (simp_all add: get_zone_def demo_zone_def new_zone_def plain_req_def rq_duration_or10_def group_cancelled_def
      is_program_run_cancelled_for_group_def fresh_sched_flags demo_calm)

lemma quiet_id: "quiet (\<lambda>s. s)"
  by (simp add: quiet_def)

lemma close_to_fifteen:
  assumes "1 \<le> d \<and> d \<le> 2 * 15 \<and> (d = 1 \<and> 100 * 15 \<le> (50::int) \<or> \<bar>100 * d - 100 * 15\<bar> \<le> 50)" "int n = int 0 + 60 * d"
  shows "n = 900"
proof -
  have "100 * d - 1500 \<le> 50" "1500 - 100 * d \<le> 50" using assms(1) by auto
  then have "d = 15" by presburger
  then show ?thesis using assms(2) by simp
qed

lemma hundred_not_zero: "((100::int) = 0) = False"
  by simp

lemma no_location: "fst (get_coefficient demo_outside no_location) = 100" "weather_enabled (wx_settings no_location)"
  by code_simp+


subsection \<open>The two decisions agree\<close>

lemma skip_is_danger: "skips (fst (should_skip x st)) \<Longrightarrow> weather_enabled (wx_settings st) \<and> danger x st"
  by (auto simp: should_skip_def danger_def dangerous_iff weather_enabled_def Let_def skips_iff check_safety_skip_def split: prod.splits option.splits if_splits)
    (auto simp: skips_def)

text \<open>
  The skip rules and the coefficient agree.  Whenever the skip rules stop a program, the coefficient of the same
  moment is zero; and with the rain, freeze and wind factors switched on they stop it exactly when one of the
  safety thresholds is passed.
\<close>

theorem skip_and_coefficient_agree:
  "(skips (fst (should_skip x st)) \<longrightarrow> fst (get_coefficient x st) = 0)
   \<and> (let ws = weather_settings_of (wx_settings st) in
       ws_enabled ws \<and> f_rain ws \<and> f_freeze ws \<and> f_wind ws \<longrightarrow> (skips (fst (should_skip x st)) \<longleftrightarrow> danger x st))"
proof -
  have "skips (fst (should_skip x st)) \<Longrightarrow> fst (get_coefficient x st) = 0"
    using skip_is_danger danger_coefficient by blast
  moreover have "danger x st \<Longrightarrow> skips (fst (should_skip x st))"
    if "ws_enabled (weather_settings_of (wx_settings st))" "f_rain (weather_settings_of (wx_settings st))"
      "f_freeze (weather_settings_of (wx_settings st))" "f_wind (weather_settings_of (wx_settings st))"
    using that by (auto simp: should_skip_def danger_def dangerous_iff Let_def skips_iff check_safety_skip_def split: prod.splits option.splits)
  ultimately show ?thesis using skip_is_danger by (auto simp: Let_def)
qed

theorem skip_and_coefficient_agree_witness:
  "skips (fst (should_skip demo_outside (demo_weather_store ''1''))) \<and> fst (get_coefficient demo_outside (demo_weather_store ''1'')) = 0"
proof -
  have "ws_enabled (weather_settings_of (wx_settings (demo_weather_store ''1'')))" "f_rain (weather_settings_of (wx_settings (demo_weather_store ''1'')))"
    "f_freeze (weather_settings_of (wx_settings (demo_weather_store ''1'')))" "f_wind (weather_settings_of (wx_settings (demo_weather_store ''1'')))"
    by code_simp+
  then show ?thesis
    using skip_and_coefficient_agree [of demo_outside "demo_weather_store ''1''"] demo_is_dangerous by (simp add: Let_def)
qed

subsection \<open>Which data is trusted\<close>

lemma index_of_Some: "index_of x xs = Some k \<Longrightarrow> k < length xs \<and> xs ! k = x"
  by (induction xs arbitrary: k) (auto split: if_splits)

lemma index_of_None: "index_of x xs = None \<longleftrightarrow> x \<notin> set xs"
  by (induction xs) auto

text \<open>
  A relay file that no longer covers the present is not used.  In relay mode a fetched forecast contains the
  current local hour, and what is read from it as the present weather is the entry of that hour; the direct
  service is never asked.
\<close>

theorem relay_forecast_is_current:
  assumes "get_source_mode st = ''relay''" "relay_set src" "fetch_weather c src st = Some f"
  shows "(\<exists>k. hour_index c f = Some k \<and> k < length (h_time f) \<and> h_time f ! k = current_hour c (fc_offset f)
      \<and> w_temperature (parse_weather c q f) = safe_get (h_temperature f) (Some k))
    \<and> fetch_weather c (src\<lparr>direct_net := net\<rparr>) st = Some f"
proof -
  have cur: "relay_payload_is_current c f"
    using assms by (simp add: fetch_weather_def split: option.splits if_splits)
  then obtain d where "fc_offset f = Some d" "current_hour c (fc_offset f) \<in> set (h_time f)"
    by (auto simp: relay_payload_is_current_def current_hour_def local_time_def split: option.splits)
  then obtain k where k: "index_of (current_hour c (fc_offset f)) (h_time f) = Some k"
    using index_of_None by (metis not_Some_eq)
  then have "hour_index c f = Some k" by (simp add: hour_index_def)
  then have "\<exists>k. hour_index c f = Some k \<and> k < length (h_time f) \<and> h_time f ! k = current_hour c (fc_offset f)
      \<and> w_temperature (parse_weather c q f) = safe_get (h_temperature f) (Some k)"
    using index_of_Some [OF k] by (intro exI [of _ k]) (simp add: parse_weather_def Let_def)
  moreover have "fetch_weather c (src\<lparr>direct_net := net\<rparr>) st = fetch_weather c src st"
    using assms(1,2) by (simp add: fetch_weather_def)
  ultimately show ?thesis using assms(3) by simp
qed

definition relay_source :: source where
  "relay_source = \<lparr>direct_net = (\<lambda>_. Broken), relay_net = (\<lambda>_. Answer (demo_forecast 20000)), relay_set = True\<rparr>"

theorem relay_forecast_is_current_witness:
  "\<exists>k. hour_index (demo_clocks 20000) (demo_forecast 20000) = Some k
     \<and> h_time (demo_forecast 20000) ! k = current_hour (demo_clocks 20000) (Some 0)"
proof -
  let ?st = "\<lparr>kv = [''weather.source_mode'' \<mapsto> ''relay''], kv_up = True\<rparr>"
  have m: "get_source_mode ?st = ''relay''" by code_simp
  have "hour_index (demo_clocks 20000) (demo_forecast 20000) = Some 6"
    using hour_index_today [OF demo_hour(1) demo_hour(2) [symmetric], of 20000] by simp
  moreover have "h_time (demo_forecast 20000) \<noteq> []" "fc_offset (demo_forecast 20000) = Some 0"
    by (simp_all add: demo_forecast_def day_hours_def)
  moreover have "hour_text (utc_now (demo_clocks 20000) + 0) \<in> set (h_time (demo_forecast 20000))"
    by (auto simp: demo_forecast_def demo_clocks_def day_hours_def image_iff intro!: bexI [of _ "6::nat"])
  ultimately have "fetch_weather (demo_clocks 20000) relay_source ?st = Some (demo_forecast 20000)"
    using m by (simp add: fetch_weather_def max_attempts_def numeral_2_eq_2) (simp add: relay_source_def relay_payload_is_current_def)
  from relay_forecast_is_current [OF m _ this] show ?thesis
    by (auto simp: relay_source_def demo_forecast_def)
qed

text \<open>Without that check (a cached forecast used when the service is down) the first entry stands for the present.\<close>

lemma missing_hour_reads_first:
  "current_hour c (fc_offset f) \<notin> set (h_time f) \<Longrightarrow> h_time f \<noteq> [] \<Longrightarrow>
     w_temperature (parse_weather c q f) = safe_get (h_temperature f) (Some 0)
     \<and> w_precipitation_24h (parse_weather c q f) = sum_list (known (h_precipitation f) [0])"
  by (simp add: parse_weather_def hour_index_def index_of_None [symmetric] sum_known_list Let_def)

definition trusted :: "sensor \<Rightarrow> rat \<Rightarrow> env_monitor \<Rightarrow> rat option \<Rightarrow> rat \<Rightarrow> rat \<Rightarrow> bool" where
  "trusted k now m v lo hi = (env_online k now m \<and> sane v lo hi)"

definition far_off :: "weather_settings \<Rightarrow> rat option \<Rightarrow> rat option \<Rightarrow> bool" where
  "far_off ws v api = (case (v, api) of (Some t, Some a) \<Rightarrow> -50 \<le> a \<and> a \<le> 60 \<and> ws_hard ws < \<bar>t - a\<bar> | _ \<Rightarrow> False)"

text \<open>
  A faulty local sensor does not steer the watering.  The temperature of the local sensor is used only when its
  monitor is enabled, heard from it less than ten minutes ago, the value is physically possible and, if the
  forecast has a possible value, differs from it by at most the hard threshold; otherwise the forecast's
  value is used.  The local humidity is used only under the same conditions of its own and when the
  temperature did not mark the module as faulty.
\<close>

theorem faulty_sensor_is_ignored:
  "let v = evaluate_sensor_source ws now m w; t = map_option of_int (temp_value m); h = map_option of_int (hum_value m)
    in v_temperature v = (if trusted Temp now m t (-50) 60 \<and> \<not> far_off ws t (w_temperature w) then t else w_temperature w)
     \<and> v_humidity v = (if trusted Hum now m h 0 100 \<and> \<not> (trusted Temp now m t (-50) 60 \<and> far_off ws t (w_temperature w))
                       then h else w_humidity w)"
  by (cases "temp_value m"; cases "w_temperature w"; cases "hum_value m")
    (auto simp: evaluate_sensor_source_def choose_temperature_def trusted_def far_off_def sane_def Let_def)

text \<open>A reading is stored in whole degrees, so a frost between the threshold and the next half degree is missed.\<close>

lemma frost_is_rounded_away:
  "temp_value (env_message Temp ''1.6'' now m) = Some 2" "below 2 (Some (8/5))" "\<not> below 2 (Some 2)"
proof -
  have "py_float (dotted ''1.6'') = Some (8/5)" by code_simp
  moreover have "py_round (8/5) = 2" by code_simp
  ultimately show "temp_value (env_message Temp ''1.6'' now m) = Some 2"
    by (simp add: env_message_def)
qed (simp_all add: below_def)

end
