(* ===== verification/Rate_Limits.thy ===== *)
theory Rate_Limits
  imports Settings Http_Groups
begin

text \<open>
  The two limiters and what they guard: \<open>src/services/api_rate_limiter.py\<close>,
  \<open>src/services/rate_limiter.py\<close>, the login of \<open>src/routes/auth.py\<close>, the password change of
  \<open>src/routes/system_config_api.py\<close> and the decorators of \<open>src/services/security.py\<close>.
  A list of timestamps that is absent from a dict is the empty list.  Each call of a limiter holds its
  lock, so it is one step; a login makes two such calls, with other requests in between.  \<open>check_password_hash\<close> and the hashing are arguments.
\<close>

subsection \<open>The interface of a sliding window\<close>

text \<open>
  A limiter answers requests \<open>c\<close> at times \<open>t\<close>; \<open>counted\<close> says which of them are counted against
  the limit when they pass.
\<close>

fun times_of :: "(rat \<Rightarrow> 'c \<Rightarrow> 's \<Rightarrow> bool \<times> 's) \<Rightarrow> ('c \<Rightarrow> bool) \<Rightarrow> (rat \<times> 'c) list \<Rightarrow> 's \<Rightarrow> rat list" where
  "times_of ask counted [] s = []"
| "times_of ask counted ((t, c) # cs) s =
     (case ask t c s of (b, s1) \<Rightarrow> (if counted c \<and> b then [t] else []) @ times_of ask counted cs s1)"

definition in_window :: "rat \<Rightarrow> rat \<Rightarrow> rat list \<Rightarrow> nat" where
  "in_window W T ts = length (filter (\<lambda>x. T - W < x \<and> x \<le> T) ts)"

definition after :: "rat \<Rightarrow> rat list \<Rightarrow> rat list" where
  "after a ts = filter (\<lambda>x. a < x) ts"

lemma after_append [simp]: "after a [] = []" "after a (xs @ ys) = after a xs @ after a ys"
  by (simp_all add: after_def)

lemma after_after: "b \<le> a \<Longrightarrow> after a (after b ts) = after a ts"
  unfolding after_def filter_filter by (rule filter_cong) auto

locale sliding_window =
  fixes seen :: "'s \<Rightarrow> rat list"
    and ask :: "rat \<Rightarrow> 'c \<Rightarrow> 's \<Rightarrow> bool \<times> 's"
    and counted :: "'c \<Rightarrow> bool"
    and legal :: "'c \<Rightarrow> bool"
    and ok :: "rat \<Rightarrow> 's \<Rightarrow> bool"
    and W :: rat
    and M :: nat
  assumes ok_later: "ok t s \<Longrightarrow> t \<le> t' \<Longrightarrow> ok t' s"
    and ok_step: "ok t s \<Longrightarrow> legal c \<Longrightarrow> ok t (snd (ask t c s))"
    and passed_over: "ok t s \<Longrightarrow> legal c \<Longrightarrow> \<not> (counted c \<and> fst (ask t c s)) \<Longrightarrow> t - W \<le> a \<Longrightarrow>
      after a (seen (snd (ask t c s))) = after a (seen s)"
    and admitted: "ok t s \<Longrightarrow> legal c \<Longrightarrow> counted c \<Longrightarrow> fst (ask t c s) \<Longrightarrow> t - W \<le> a \<Longrightarrow>
      after a (seen (snd (ask t c s))) = after a (seen s @ [t]) \<and> length (after (t - W) (seen s)) < M"
begin


lemma bounded_step:
  assumes "in_window W T ts \<le> M" "\<forall>x \<in> set ts. x \<le> t" "length (after (t - W) ts) < M"
  shows "in_window W T (ts @ [t]) \<le> M"
proof (cases "t \<le> T")
  case True
  have "filter (\<lambda>x. T - W < x \<and> x \<le> T) ts = filter (\<lambda>x. T - W < x \<and> x \<le> T) (after (t - W) ts)"
    unfolding after_def filter_filter using True by (intro filter_cong) auto
  then have "in_window W T ts \<le> length (after (t - W) ts)" by (simp add: in_window_def)
  then show ?thesis using assms(3) by (simp add: in_window_def)
next
  case False
  then show ?thesis using assms(1) by (simp add: in_window_def)
qed

lemma never_exceeded:
  assumes "ok t s" "\<forall>x \<in> set ts. x \<le> t" "\<And>a. t - W \<le> a \<Longrightarrow> after a (seen s) = after a ts"
    "\<And>T. in_window W T ts \<le> M" "sorted (map fst cs)" "\<forall>c \<in> set cs. t \<le> fst c \<and> legal (snd c)"
  shows "in_window W T (ts @ times_of ask counted cs s) \<le> M"
  using assms
proof (induction cs arbitrary: t s ts)
  case (Cons p cs)
  obtain u c where p: "p = (u, c)" by (cases p)
  obtain b s1 where r: "ask u c s = (b, s1)" by (cases "ask u c s")
  have t: "t \<le> u" "legal c" using Cons.prems(6) by (auto simp: p)
  have ok: "ok u s" using Cons.prems(1) t(1) by (rule ok_later)
  define us where "us = ts @ (if counted c \<and> b then [u] else [])"
  have eq: "after a (seen s) = after a ts" if "u - W \<le> a" for a
    using Cons.prems(3) [of a] that t(1) by simp
  have "ok u s1" using ok_step [OF ok t(2)] by (simp add: r)
  moreover have "\<forall>x \<in> set us. x \<le> u" using Cons.prems(2) t(1) by (auto simp: us_def)
  moreover have "after a (seen s1) = after a us" if "u - W \<le> a" for a
    using passed_over [OF ok t(2), of a] admitted [OF ok t(2), of a] eq [OF that] that
    by (cases "counted c \<and> b") (auto simp: r us_def)
  moreover have le: "\<forall>x \<in> set ts. x \<le> u" using Cons.prems(2) t(1) by auto
  have "in_window W T us \<le> M" for T
    using Cons.prems(4) [of T] admitted [OF ok t(2), of "u - W"] eq [of "u - W"] bounded_step [OF Cons.prems(4) le]
    by (cases "counted c \<and> b") (auto simp: us_def r)
  moreover have "sorted (map fst cs)" "\<forall>d \<in> set cs. u \<le> fst d \<and> legal (snd d)"
    using Cons.prems(5,6) by (auto simp: p)
  ultimately have "in_window W T (us @ times_of ask counted cs s1) \<le> M" by (rule Cons.IH)
  then show ?case by (simp add: p r us_def)
qed simp

lemma window_bound:
  assumes "ok t s" "seen s = []" "sorted (map fst cs)" "\<forall>c \<in> set cs. t \<le> fst c \<and> legal (snd c)"
  shows "in_window W T (times_of ask counted cs s) \<le> M"
  using never_exceeded [OF assms(1) _ _ _ assms(3,4), of "[]"] by (simp add: assms(2) in_window_def after_def)

end

subsection \<open>The request limiter\<close>

type_synonym client = "string \<times> string"

record limiter =
  requests :: "client \<Rightarrow> rat list"
  call_count :: nat

definition new_limiter :: limiter where "new_limiter = \<lparr>requests = (\<lambda>_. []), call_count = 0\<rparr>"

definition prune_every :: nat where "prune_every = 500"

definition prune_old :: "rat \<Rightarrow> rat \<Rightarrow> limiter \<Rightarrow> limiter" where
  "prune_old now window s = s\<lparr>requests := (\<lambda>k. filter (\<lambda>ts. now - window < ts) (requests s k))\<rparr>"

record call =
  c_key :: client
  c_max :: nat
  c_window :: rat

definition is_allowed :: "rat \<Rightarrow> call \<Rightarrow> limiter \<Rightarrow> (bool \<times> int) \<times> limiter" where
  "is_allowed now c s =
     (let n = call_count s + 1;
          s1 = s\<lparr>call_count := n\<rparr>;
          s2 = (if n mod prune_every = 0 then prune_old now 120 s1 else s1);
          cutoff = now - c_window c;
          recent = filter (\<lambda>ts. cutoff < ts) (requests s2 (c_key c))
      in if c_max c \<le> length recent
         then ((False, max 1 (trunc (hd recent - cutoff) + 1)), s2\<lparr>requests := (requests s2)(c_key c := recent)\<rparr>)
         else ((True, 0), s2\<lparr>requests := (requests s2)(c_key c := recent @ [now])\<rparr>))"

text \<open>The decorator: 429 with the time to wait, or the handler.\<close>

definition rate_limit :: "rat \<Rightarrow> call \<Rightarrow> ('s \<Rightarrow> reply \<times> 's) \<Rightarrow> limiter \<times> 's \<Rightarrow> (int + reply) \<times> limiter \<times> 's" where
  "rate_limit now c handler st =
     (case is_allowed now c (fst st) of
        ((False, wait), l) \<Rightarrow> (Inl wait, l, snd st)
      | ((True, _), l) \<Rightarrow> (case handler (snd st) of (r, s1) \<Rightarrow> (Inr r, l, s1)))"

definition ask_limiter :: "rat \<Rightarrow> call \<Rightarrow> limiter \<Rightarrow> bool \<times> limiter" where
  "ask_limiter t c s = (case is_allowed t c s of ((b, _), s1) \<Rightarrow> (b, s1))"

text \<open>The routes that share a key use one window of at most two minutes; their limits may differ.\<close>

definition uses_window :: "client \<Rightarrow> rat \<Rightarrow> nat \<Rightarrow> call \<Rightarrow> bool" where
  "uses_window k W M c = (0 \<le> W \<and> W \<le> 120 \<and> (c_key c = k \<longrightarrow> c_window c = W \<and> c_max c \<le> M))"

lemma ask_limiter_cases:
  obtains s2 :: limiter where "requests s2 = requests s \<or> requests s2 = (\<lambda>k. after (t - 120) (requests s k))"
    "fst (ask_limiter t c s) = (length (after (t - c_window c) (requests s2 (c_key c))) < c_max c)"
    "requests (snd (ask_limiter t c s)) = (requests s2)(c_key c :=
       after (t - c_window c) (requests s2 (c_key c)) @ (if fst (ask_limiter t c s) then [t] else []))"
proof -
  let ?s1 = "s\<lparr>call_count := call_count s + 1\<rparr>"
  let ?s2 = "if (call_count s + 1) mod prune_every = 0 then prune_old t 120 ?s1 else ?s1"
  have "requests ?s2 = requests s \<or> requests ?s2 = (\<lambda>k. after (t - 120) (requests s k))"
    by (simp add: prune_old_def after_def)
  moreover have "fst (ask_limiter t c s) = (length (after (t - c_window c) (requests ?s2 (c_key c))) < c_max c)"
    by (simp add: ask_limiter_def is_allowed_def Let_def after_def not_le)
  moreover have "requests (snd (ask_limiter t c s)) = (requests ?s2)(c_key c :=
       after (t - c_window c) (requests ?s2 (c_key c)) @ (if fst (ask_limiter t c s) then [t] else []))"
    by (simp add: ask_limiter_def is_allowed_def Let_def after_def not_le)
  ultimately show ?thesis by (rule that)
qed

interpretation api: sliding_window "\<lambda>s. requests s k" ask_limiter "\<lambda>c. c_key c = k" "uses_window k W M" "\<lambda>_ _. True" W M
  for k W M
proof unfold_locales
  fix t s c a
  assume l: "uses_window k W M c" and a: "t - W \<le> a" and no: "\<not> (c_key c = k \<and> fst (ask_limiter t c s))"
  obtain s2 :: limiter where s2: "requests s2 = requests s \<or> requests s2 = (\<lambda>k. after (t - 120) (requests s k))"
    "requests (snd (ask_limiter t c s)) = (requests s2)(c_key c :=
       after (t - c_window c) (requests s2 (c_key c)) @ (if fst (ask_limiter t c s) then [t] else []))"
    by (rule ask_limiter_cases)
  then show "after a (requests (snd (ask_limiter t c s)) k) = after a (requests s k)"
    using l a no by (auto simp: uses_window_def after_after)
next
  fix t s c a
  assume l: "uses_window k W M c" and a: "t - W \<le> a" and k: "c_key c = k" and yes: "fst (ask_limiter t c s)"
  obtain s2 :: limiter where s2: "requests s2 = requests s \<or> requests s2 = (\<lambda>k. after (t - 120) (requests s k))"
    "fst (ask_limiter t c s) = (length (after (t - c_window c) (requests s2 (c_key c))) < c_max c)"
    "requests (snd (ask_limiter t c s)) = (requests s2)(c_key c :=
       after (t - c_window c) (requests s2 (c_key c)) @ (if fst (ask_limiter t c s) then [t] else []))"
    by (rule ask_limiter_cases)
  then show "after a (requests (snd (ask_limiter t c s)) k) = after a (requests s k @ [t])
      \<and> length (after (t - W) (requests s k)) < M"
    using l a k yes by (auto simp: uses_window_def after_after)
qed simp_all

text \<open>
  The request limit holds over every window, not only at its edges.  Whatever other clients and groups do, of the
  requests of one client to one group of routes at most the group's limit is let through in any stretch of
  time of the window's length, as long as the routes of the group agree on a window of at most two minutes.
\<close>

theorem request_limit_holds:
  assumes "sorted (map fst calls)" "\<forall>c \<in> set calls. 0 \<le> fst c \<and> uses_window k W M (snd c)"
  shows "in_window W T (times_of ask_limiter (\<lambda>c. c_key c = k) calls new_limiter) \<le> M"
  using assms by (intro api.window_bound [where t = 0]) (auto simp: new_limiter_def)

text \<open>A longer window is not kept: the pruning, every 500 calls of anyone, drops what is older than two minutes.\<close>

lemma pruning_forgets_long_window:
  "fst (ask_limiter 200 \<lparr>c_key = k, c_max = 3, c_window = 300\<rparr> \<lparr>requests = (\<lambda>_. [10, 20, 30]), call_count = 499\<rparr>)"
  "\<not> fst (ask_limiter 200 \<lparr>c_key = k, c_max = 3, c_window = 300\<rparr> \<lparr>requests = (\<lambda>_. [10, 20, 30]), call_count = 7\<rparr>)"
  by (simp_all add: ask_limiter_def is_allowed_def Let_def prune_every_def prune_old_def)

subsection \<open>The login limiter\<close>

record login_limiter =
  attempts :: "string \<Rightarrow> rat list"
  lockouts :: "string \<Rightarrow> rat option"

definition new_login_limiter :: login_limiter where "new_login_limiter = \<lparr>attempts = (\<lambda>_. []), lockouts = (\<lambda>_. None)\<rparr>"

definition login_max_attempts :: nat where "login_max_attempts = 5"

definition login_window :: rat where "login_window = 300"

definition login_lockout :: rat where "login_lockout = 900"

definition count_recent :: "rat \<Rightarrow> string \<Rightarrow> login_limiter \<Rightarrow> (bool \<times> int) \<times> login_limiter" where
  "count_recent now ip s =
     (let recent = filter (\<lambda>ts. now - login_window < ts) (attempts s ip);
          s1 = s\<lparr>attempts := (attempts s)(ip := recent)\<rparr>
      in if login_max_attempts \<le> length recent
         then ((False, trunc login_lockout), s1\<lparr>lockouts := (lockouts s1)(ip \<mapsto> now + login_lockout)\<rparr>)
         else ((True, 0), s1))"

definition check_login :: "rat \<Rightarrow> string \<Rightarrow> login_limiter \<Rightarrow> (bool \<times> int) \<times> login_limiter" where
  "check_login now ip s =
     (case lockouts s ip of
        None \<Rightarrow> count_recent now ip s
      | Some e \<Rightarrow>
          (if now < e then ((False, trunc (e - now) + 1), s)
           else count_recent now ip (s\<lparr>lockouts := (lockouts s)(ip := None), attempts := (attempts s)(ip := [])\<rparr>)))"

definition record_failure :: "rat \<Rightarrow> string \<Rightarrow> login_limiter \<Rightarrow> login_limiter" where
  "record_failure now ip s =
     s\<lparr>attempts := (attempts s)(ip := filter (\<lambda>ts. now - login_window < ts) (attempts s ip @ [now]))\<rparr>"

definition reset_login :: "string \<Rightarrow> login_limiter \<Rightarrow> login_limiter" where
  "reset_login ip s = s\<lparr>attempts := (attempts s)(ip := []), lockouts := (lockouts s)(ip := None)\<rparr>"

subsection \<open>Login\<close>

text \<open>\<open>check\<close> is \<open>check_password_hash\<close>.\<close>

definition verify_password :: "(string \<Rightarrow> string \<Rightarrow> bool) \<Rightarrow> settings \<Rightarrow> string \<Rightarrow> bool" where
  "verify_password check st p =
     (case get_password_hash st of None \<Rightarrow> False | Some h \<Rightarrow> h \<noteq> [] \<and> check h p)"

record login_request =
  lr_ip :: string
  lr_password :: json

datatype login_reply = Logged_In | Wrong_Password | Too_Many int | Bad_Request

text \<open>\<open>(data.get("password") or "").strip()\<close>; a truthy value that is not a string has no \<open>strip\<close>.\<close>

definition given_password :: "json \<Rightarrow> string option" where
  "given_password v = (if falsy v then Some [] else case v of J_Str s \<Rightarrow> Some (strip s) | _ \<Rightarrow> None)"

text \<open>Up to the check of the limiter: an answer, or the password that goes on to be compared.\<close>

definition login_check :: "rat \<Rightarrow> login_request \<Rightarrow> login_limiter \<Rightarrow> (login_reply + string) \<times> login_limiter" where
  "login_check now r s =
     (case given_password (lr_password r) of
        None \<Rightarrow> (Inl Bad_Request, s)
      | Some p \<Rightarrow>
          (case check_login now (lr_ip r) s of
             ((False, wait), s1) \<Rightarrow> (Inl (Too_Many wait), s1)
           | ((True, _), s1) \<Rightarrow> (Inr p, s1)))"

text \<open>From the comparison on: the failures of the address are reset, or one more is recorded.\<close>

definition login_finish ::
  "(string \<Rightarrow> string \<Rightarrow> bool) \<Rightarrow> settings \<Rightarrow> rat \<Rightarrow> string \<Rightarrow> string \<Rightarrow> login_limiter \<Rightarrow> login_reply \<times> login_limiter" where
  "login_finish check st now ip p s =
     (if verify_password check st p then (Logged_In, reset_login ip s) else (Wrong_Password, record_failure now ip s))"

text \<open>One request; \<open>env\<close> is what others do to the limiter between its two calls, at \<open>now\<close> and at \<open>later\<close>.\<close>

definition login_api ::
  "(login_limiter \<Rightarrow> login_limiter) \<Rightarrow> (string \<Rightarrow> string \<Rightarrow> bool) \<Rightarrow> settings \<Rightarrow> rat \<Rightarrow> rat \<Rightarrow> login_request \<Rightarrow>
     login_limiter \<Rightarrow> login_reply \<times> login_limiter" where
  "login_api env check st now later r s =
     (case login_check now r s of
        (Inl a, s1) \<Rightarrow> (a, s1)
      | (Inr p, s1) \<Rightarrow> login_finish check st later (lr_ip r) p (env s1))"

text \<open>
  All requests together: each begins with its check and ends with its comparison; those in between are
  in flight, in the order in which they were let through.
\<close>

datatype login_op = Login_Begins login_request | Login_Ends nat

type_synonym login_state = "login_limiter \<times> (string \<times> string) list"

definition login_step :: "(string \<Rightarrow> string \<Rightarrow> bool) \<Rightarrow> settings \<Rightarrow> rat \<times> login_op \<Rightarrow> login_state \<Rightarrow> login_state" where
  "login_step check st = (\<lambda>(t, x) (s, fl). case x of
     Login_Begins r \<Rightarrow> (case login_check t r s of (Inl a, s1) \<Rightarrow> (s1, fl) | (Inr p, s1) \<Rightarrow> (s1, fl @ [(lr_ip r, p)]))
   | Login_Ends n \<Rightarrow>
       if n < length fl then (snd (login_finish check st t (fst (fl ! n)) (snd (fl ! n)) s), take n fl @ drop (Suc n) fl)
       else (s, fl))"

definition login_run :: "(string \<Rightarrow> string \<Rightarrow> bool) \<Rightarrow> settings \<Rightarrow> (rat \<times> login_op) list \<Rightarrow> login_state" where
  "login_run check st tr = fold (login_step check st) tr (new_login_limiter, [])"

text \<open>The requests of an address in flight, and the times at which its passwords were let through.\<close>

definition flying :: "string \<Rightarrow> login_state \<Rightarrow> nat" where
  "flying i v = length (filter (\<lambda>e. fst e = i) (snd v))"

definition passes :: "string \<Rightarrow> rat \<times> login_op \<Rightarrow> login_state \<Rightarrow> bool" where
  "passes i e v = (case snd e of
     Login_Begins r \<Rightarrow> lr_ip r = i \<and> given_password (lr_password r) \<noteq> None \<and> fst (fst (check_login (fst e) i (fst v)))
   | Login_Ends n \<Rightarrow> False)"

fun guesses_from :: "(string \<Rightarrow> string \<Rightarrow> bool) \<Rightarrow> settings \<Rightarrow> string \<Rightarrow> login_state \<Rightarrow> (rat \<times> login_op) list \<Rightarrow> rat list" where
  "guesses_from check st i v [] = []"
| "guesses_from check st i v (e # tr) =
     (if passes i e v then [fst e] else []) @ guesses_from check st i (login_step check st e v) tr"

definition guesses :: "(string \<Rightarrow> string \<Rightarrow> bool) \<Rightarrow> settings \<Rightarrow> string \<Rightarrow> (rat \<times> login_op) list \<Rightarrow> rat list" where
  "guesses check st i tr = guesses_from check st i (new_login_limiter, []) tr"

definition wrong_op :: "(string \<Rightarrow> string \<Rightarrow> bool) \<Rightarrow> settings \<Rightarrow> string \<Rightarrow> login_op \<Rightarrow> bool" where
  "wrong_op check st i x = (case x of
     Login_Begins r \<Rightarrow> lr_ip r = i \<longrightarrow> (case given_password (lr_password r) of None \<Rightarrow> True | Some p \<Rightarrow> \<not> verify_password check st p)
   | Login_Ends n \<Rightarrow> True)"

lemma count_recent_eqs:
  "attempts (snd (count_recent t i s)) = (attempts s)(i := after (t - login_window) (attempts s i))"
  "fst (fst (count_recent t i s)) = (length (after (t - login_window) (attempts s i)) < login_max_attempts)"
  "lockouts (snd (count_recent t i s)) =
     (if fst (fst (count_recent t i s)) then lockouts s else (lockouts s)(i \<mapsto> t + login_lockout))"
  by (simp_all add: count_recent_def after_def Let_def not_le)

text \<open>The attempts a check starts from: none when a lockout has just ended.\<close>

definition live_attempts :: "rat \<Rightarrow> string \<Rightarrow> login_limiter \<Rightarrow> rat list" where
  "live_attempts t i s = (if lockouts s i = None then attempts s i else [])"

lemma check_login_eqs:
  "fst (fst (check_login t i s)) =
     ((case lockouts s i of None \<Rightarrow> True | Some e \<Rightarrow> e \<le> t) \<and> length (after (t - login_window) (live_attempts t i s)) < login_max_attempts)"
  "attempts (snd (check_login t i s)) =
     (if (case lockouts s i of None \<Rightarrow> True | Some e \<Rightarrow> e \<le> t)
      then (attempts s)(i := after (t - login_window) (live_attempts t i s)) else attempts s)"
  "lockouts (snd (check_login t i s)) =
     (if (case lockouts s i of None \<Rightarrow> True | Some e \<Rightarrow> e \<le> t)
      then (if fst (fst (check_login t i s)) then (lockouts s)(i := None) else (lockouts s)(i \<mapsto> t + login_lockout))
      else lockouts s)"
  by (auto simp: check_login_def count_recent_eqs live_attempts_def after_def login_max_attempts_def split: option.split)

text \<open>
  The bookkeeping of one address: \<open>ad\<close> are the times at which its passwords were let through.  Every
  one of them that still counts is recorded or in flight; a lockout was imposed after all of them.
\<close>

definition guess_ok :: "(string \<Rightarrow> string \<Rightarrow> bool) \<Rightarrow> settings \<Rightarrow> string \<Rightarrow> rat \<Rightarrow> rat list \<Rightarrow> login_state \<Rightarrow> bool" where
  "guess_ok check st i t ad v \<longleftrightarrow>
     (\<forall>x \<in> set ad. x \<le> t) \<and> (\<forall>e. lockouts (fst v) i = Some e \<longrightarrow> (\<forall>x \<in> set ad. x \<le> e - login_lockout)) \<and>
     (\<forall>p. (i, p) \<in> set (snd v) \<longrightarrow> \<not> verify_password check st p) \<and>
     (\<forall>a. t - login_window \<le> a \<longrightarrow> length (after a ad) \<le> length (after a (attempts (fst v) i)) + flying i v)"

lemma guess_ok_later: "guess_ok check st i t ad v \<Longrightarrow> t \<le> u \<Longrightarrow> guess_ok check st i u ad v"
  unfolding guess_ok_def by (meson diff_right_mono order_trans)

lemma login_check_eqs:
  "snd (login_check t r s) = (if given_password (lr_password r) = None then s else snd (check_login t (lr_ip r) s))"
  "fst (login_check t r s) = Inr p \<longleftrightarrow> given_password (lr_password r) = Some p \<and> fst (fst (check_login t (lr_ip r) s))"
  by (auto simp: login_check_def split: option.splits prod.splits bool.splits)

lemma begin_step:
  "login_step check st (t, Login_Begins r) (s, fl) =
     (snd (login_check t r s), if \<exists>p. fst (login_check t r s) = Inr p then fl @ [(lr_ip r, the (given_password (lr_password r)))] else fl)"
proof (cases "login_check t r s")
  case (Pair res s1)
  show ?thesis
  proof (cases res)
    case (Inr p)
    then have "given_password (lr_password r) = Some p" using Pair login_check_eqs(2) [of t r s p] by simp
    then show ?thesis by (simp add: login_step_def Pair Inr)
  qed (simp add: login_step_def Pair)
qed

lemma check_keeps_recent:
  assumes "\<forall>x \<in> set ad. x \<le> t" "\<forall>e. lockouts s i = Some e \<longrightarrow> (\<forall>x \<in> set ad. x \<le> e - login_lockout)"
    and "length (after a ad) \<le> length (after a (attempts s i)) + n" "t - login_window \<le> a"
  shows "length (after a ad) \<le> length (after a (attempts (snd (check_login t i s)) i)) + n"
proof (cases "lockouts s i")
  case None
  then show ?thesis using assms(3,4) by (simp add: check_login_eqs live_attempts_def after_after)
next
  case (Some e)
  show ?thesis
  proof (cases "e \<le> t")
    case True
    have "x \<le> a" if "x \<in> set ad" for x
      using assms(2,4) Some True that by (auto simp: login_lockout_def login_window_def)
    then have "after a ad = []" by (auto simp: after_def filter_empty_conv not_less)
    then show ?thesis by simp
  qed (use Some assms(3) in \<open>simp add: check_login_eqs\<close>)
qed

lemma guess_ok_begin:
  assumes ok: "guess_ok check st i t ad (s, fl)" and w: "wrong_op check st i (Login_Begins r)"
  shows "guess_ok check st i t (ad @ (if passes i (t, Login_Begins r) (s, fl) then [t] else []))
    (login_step check st (t, Login_Begins r) (s, fl))"
proof (cases "lr_ip r = i \<and> given_password (lr_password r) \<noteq> None")
  case False
  then have same: "attempts (snd (login_check t r s)) i = attempts s i" "lockouts (snd (login_check t r s)) i = lockouts s i"
    by (auto simp: login_check_eqs check_login_eqs)
  have "\<not> passes i (t, Login_Begins r) (s, fl)" using False by (auto simp: passes_def)
  moreover have "filter (\<lambda>e. fst e = i) (snd (login_step check st (t, Login_Begins r) (s, fl))) = filter (\<lambda>e. fst e = i) fl"
    using False by (auto simp: begin_step login_check_eqs(2))
  moreover have "(i, p) \<in> set (snd (login_step check st (t, Login_Begins r) (s, fl))) \<longleftrightarrow> (i, p) \<in> set fl" for p
    using False by (auto simp: begin_step login_check_eqs(2))
  ultimately show ?thesis using ok same by (simp add: guess_ok_def flying_def begin_step)
next
  case True
  then obtain p where p: "given_password (lr_password r) = Some p" "lr_ip r = i" by auto
  let ?k = "snd (check_login t i s)" and ?b = "fst (fst (check_login t i s))"
  have ps: "passes i (t, Login_Begins r) (s, fl) = ?b" using p by (simp add: passes_def)
  have st: "login_step check st (t, Login_Begins r) (s, fl) = (?k, if ?b then fl @ [(i, p)] else fl)"
    using p by (auto simp: begin_step login_check_eqs)
  have np: "\<not> verify_password check st p" using w p by (simp add: wrong_op_def)
  have keep: "length (after a ad) \<le> length (after a (attempts ?k i)) + flying i (s, fl)" if "t - login_window \<le> a" for a
    using check_keeps_recent [of ad t s i a] ok that by (auto simp: guess_ok_def)
  have lk: "lockouts ?k i \<in> {lockouts s i, Some (t + login_lockout)}" if "\<not> ?b"
    using that by (simp add: check_login_eqs)
  have lb: "lockouts ?k i = None" if ?b using that by (simp add: check_login_eqs split: option.splits)
  show ?thesis
  proof (cases ?b)
    case True
    have "length (after a (ad @ [t])) \<le> length (after a (attempts ?k i)) + flying i (?k, fl @ [(i, p)])" if "t - login_window \<le> a" for a
      using keep [OF that] by (simp add: flying_def after_def)
    then show ?thesis using True ok lb np by (auto simp: st ps guess_ok_def)
  next
    case False
    then show ?thesis using ok lk keep by (auto simp: st ps guess_ok_def flying_def)
  qed
qed

lemma guess_ok_end:
  assumes ok: "guess_ok check st i t ad (s, fl)"
  shows "guess_ok check st i t ad (login_step check st (t, Login_Ends n) (s, fl))"
proof (cases "n < length fl")
  case False
  then show ?thesis using ok by (simp add: login_step_def)
next
  case True
  obtain j p where e: "fl ! n = (j, p)" by fastforce
  have fl: "fl = take n fl @ (j, p) # drop (Suc n) fl" using True by (simp add: id_take_nth_drop flip: e)
  let ?fl = "take n fl @ drop (Suc n) fl" and ?s = "snd (login_finish check st t j p s)"
  have st: "login_step check st (t, Login_Ends n) (s, fl) = (?s, ?fl)" using True by (simp add: login_step_def e)
  have fy: "flying i (s, fl) = flying i (?s, ?fl) + (if j = i then 1 else 0)"
  proof -
    have "length (filter (\<lambda>e. fst e = i) (take n fl @ (j, p) # drop (Suc n) fl)) =
        length (filter (\<lambda>e. fst e = i) ?fl) + (if j = i then 1 else 0)" by simp
    then show ?thesis by (simp only: fl [symmetric] flying_def snd_conv)
  qed
  have sub: "set ?fl \<subseteq> set fl" by (auto dest: in_set_takeD in_set_dropD)
  show ?thesis
  proof (cases "j = i")
    case False
    then have "attempts ?s i = attempts s i" "lockouts ?s i = lockouts s i"
      by (simp_all add: login_finish_def reset_login_def record_failure_def)
    then show ?thesis using ok fy False sub by (auto simp: st guess_ok_def)
  next
    case True
    have "(i, p) \<in> set fl" using \<open>n < length fl\<close> e True nth_mem by fastforce
    then have "?s = record_failure t i s" using ok True by (simp add: guess_ok_def login_finish_def)
    then have at': "attempts ?s i = filter (\<lambda>ts. t - login_window < ts) (attempts s i @ [t])" "lockouts ?s i = lockouts s i"
      by (simp_all add: record_failure_def)
    have "length (after a ad) \<le> length (after a (attempts ?s i)) + flying i (?s, ?fl)" if a: "t - login_window \<le> a" for a
    proof (cases "a < t")
      case True
      then have "length (after a (attempts ?s i)) = length (after a (attempts s i)) + 1"
        using a by (simp add: at' after_def filter_filter conj_commute)
          (rule arg_cong [where f = length], rule filter_cong, auto)
      then show ?thesis using ok a fy \<open>j = i\<close> by (auto simp: guess_ok_def)
    next
      case False
      then have "after a ad = []" using ok by (auto simp: guess_ok_def after_def filter_empty_conv)
      then show ?thesis by simp
    qed
    then show ?thesis using ok at' sub by (auto simp: st guess_ok_def)
  qed
qed

lemma guesses_from_snoc:
  "guesses_from check st i v (tr @ [e]) =
     guesses_from check st i v tr @ (if passes i e (fold (login_step check st) tr v) then [fst e] else [])"
  by (induction tr arbitrary: v) simp_all

lemma guesses_snoc:
  "guesses check st i (tr @ [e]) = guesses check st i tr @ (if passes i e (login_run check st tr) then [fst e] else [])"
  by (simp add: guesses_def guesses_from_snoc login_run_def)

lemma login_run_snoc: "login_run check st (tr @ [e]) = login_step check st e (login_run check st tr)"
  by (simp add: login_run_def)

lemma guess_ok_run:
  assumes "sorted (map fst tr)" "\<forall>e \<in> set tr. fst e \<le> t \<and> wrong_op check st i (snd e)"
  shows "guess_ok check st i t (guesses check st i tr) (login_run check st tr)"
  using assms
proof (induction tr arbitrary: t rule: rev_induct)
  case Nil
  then show ?case by (simp add: guess_ok_def guesses_def login_run_def new_login_limiter_def after_def)
next
  case (snoc e tr)
  obtain u x where e: "e = (u, x)" by (cases e)
  obtain s fl where v: "login_run check st tr = (s, fl)" by fastforce
  have u: "u \<le> t" "wrong_op check st i x" using snoc.prems by (simp_all add: e)
  have "guess_ok check st i u (guesses check st i tr) (s, fl)"
    using snoc.IH [of u] snoc.prems by (auto simp: e v sorted_append)
  then have "guess_ok check st i u (guesses check st i (tr @ [e])) (login_run check st (tr @ [e]))"
  proof (cases x)
    case (Login_Ends n)
    assume ok: "guess_ok check st i u (guesses check st i tr) (s, fl)"
    have "\<not> passes i e (s, fl)" by (simp add: passes_def e Login_Ends)
    then show ?thesis using guess_ok_end [OF ok, of n] by (simp add: guesses_snoc login_run_snoc v e Login_Ends)
  next
    case (Login_Begins r)
    assume "guess_ok check st i u (guesses check st i tr) (s, fl)"
    from guess_ok_begin [OF this u(2) [unfolded Login_Begins]] show ?thesis
      by (cases "passes i (u, Login_Begins r) (s, fl)") (simp_all add: guesses_snoc login_run_snoc v e Login_Begins)
  qed
  then show ?case using u(1) by (rule guess_ok_later)
qed

lemma window_step:
  assumes "in_window W T ts \<le> M" "length (after (t - W) ts) < M"
  shows "in_window W T (ts @ [t]) \<le> M"
proof (cases "t \<le> T")
  case True
  have "filter (\<lambda>x. T - W < x \<and> x \<le> T) ts = filter (\<lambda>x. T - W < x \<and> x \<le> T) (after (t - W) ts)"
    unfolding after_def filter_filter using True by (intro filter_cong) auto
  then have "in_window W T ts \<le> length (after (t - W) ts)" by (simp add: in_window_def)
  then show ?thesis using assms(2) by (simp add: in_window_def)
qed (use assms(1) in \<open>simp add: in_window_def\<close>)

lemma passes_few:
  assumes ok: "guess_ok check st i t ad v" and p: "passes i (t, x) v" and f: "flying i (login_step check st (t, x) v) \<le> K"
  shows "length (after (t - login_window) ad) < K + 4"
proof -
  obtain s fl where v: "v = (s, fl)" by fastforce
  obtain r q where x: "x = Login_Begins r" "lr_ip r = i" "given_password (lr_password r) = Some q" "fst (fst (check_login t i s))"
    using p by (auto simp: passes_def v split: login_op.splits)
  have "login_step check st (t, x) v = (snd (check_login t i s), fl @ [(i, q)])"
    using x by (auto simp: v begin_step login_check_eqs)
  then have k: "flying i v < K" using f by (simp add: flying_def v)
  have "length (after (t - login_window) ad) \<le> length (after (t - login_window) (attempts (snd (check_login t i s)) i)) + flying i v"
    using check_keeps_recent [of ad t s i "t - login_window"] ok by (auto simp: guess_ok_def v)
  moreover have "length (after (t - login_window) (attempts (snd (check_login t i s)) i)) < 5"
    using x(4) by (auto simp: check_login_eqs after_after login_max_attempts_def split: option.splits)
  ultimately show ?thesis using k by simp
qed

text \<open>
  C24: passwords cannot be tried quickly, even at once.  However the requests of all addresses interleave,
  each with its check and its comparison apart: while an address never sends the right password and never
  has more than \<open>K\<close> requests between the two, at most \<open>K + 4\<close> of its passwords are let through to the comparison
  in any five minutes; five, when its requests come one after another.
\<close>

theorem guesses_are_limited:
  assumes "sorted (map fst tr)" "\<forall>e \<in> set tr. wrong_op check st i (snd e)"
    and "\<forall>n \<le> length tr. flying i (login_run check st (take n tr)) \<le> K"
  shows "in_window 300 T (guesses check st i tr) \<le> K + 4"
  using assms
proof (induction tr rule: rev_induct)
  case Nil
  then show ?case by (simp add: guesses_def in_window_def)
next
  case (snoc e tr)
  obtain u x where e: "e = (u, x)" by (cases e)
  have "\<forall>n \<le> length tr. flying i (login_run check st (take n tr)) \<le> K"
  proof (intro allI impI)
    fix n assume "n \<le> length tr"
    then show "flying i (login_run check st (take n tr)) \<le> K" using snoc.prems(3) [rule_format, of n] by simp
  qed
  then have ih: "in_window 300 T (guesses check st i tr) \<le> K + 4" using snoc.IH snoc.prems(1,2) by (auto simp: sorted_append)
  have ok: "guess_ok check st i u (guesses check st i tr) (login_run check st tr)"
    using snoc.prems(1,2) by (intro guess_ok_run) (auto simp: e sorted_append)
  have "flying i (login_step check st (u, x) (login_run check st tr)) \<le> K"
    using snoc.prems(3) [rule_format, of "Suc (length tr)"] by (simp add: login_run_snoc e)
  then show ?case
    using window_step [OF ih, of u] passes_few [OF ok] ih by (auto simp: guesses_snoc e login_window_def)
qed

text \<open>An address that is locked out is refused whatever it sends, and the refusal changes nothing.\<close>

theorem locked_out_is_refused:
  assumes "lockouts s i = Some e" "now < e" "given_password v \<noteq> None"
  shows "login_api env check st now later \<lparr>lr_ip = i, lr_password = v\<rparr> s = (Too_Many (trunc (e - now) + 1), s)"
  using assms by (auto simp: login_api_def login_check_def check_login_def)

text \<open>The check and the record are two locked steps: requests answered at once are all let through.\<close>

lemma checks_count_nothing:
  "lockouts s i = None \<Longrightarrow> fst (fst (check_login t i s)) \<Longrightarrow>
     fst (fst (check_login t i (snd (check_login t i s)))) \<and> lockouts (snd (check_login t i s)) i = None"
  by (simp add: check_login_eqs live_attempts_def after_after)

theorem request_limit_holds_witness:
  "let c = \<lparr>c_key = (''10.0.0.1'', ''emergency''), c_max = 2, c_window = 60\<rparr>
   in in_window 60 30 (times_of ask_limiter (\<lambda>d. c_key d = c_key c) [(1, c), (2, c), (3, c), (30, c)] new_limiter) \<le> 2"
proof -
  define c where "c = \<lparr>c_key = (''10.0.0.1'', ''emergency''), c_max = 2, c_window = 60\<rparr>"
  have "uses_window (c_key c) 60 2 c" by (simp add: uses_window_def c_def)
  then show ?thesis
    unfolding c_def [symmetric] Let_def
    by (intro request_limit_holds) simp_all
qed

definition wrong_login :: login_request where
  "wrong_login = \<lparr>lr_ip = ''10.0.0.1'', lr_password = J_Str ''guess''\<rparr>"

definition two_at_once :: "(rat \<times> login_op) list" where
  "two_at_once = concat (map (\<lambda>t. [(t, Login_Begins wrong_login), (t, Login_Begins wrong_login), (t, Login_Ends 0), (t, Login_Ends 0)])
     [1, 2, 3, 4])"

definition locked_settings :: settings where "locked_settings = \<lparr>kv = (\<lambda>_. None), kv_up = True\<rparr>"

theorem guesses_are_limited_witness:
  "in_window 300 9 (guesses (\<lambda>_ _. False) locked_settings ''10.0.0.1'' two_at_once) \<le> 2 + 4"
proof (rule guesses_are_limited)
  show "sorted (map fst two_at_once)" by (simp add: two_at_once_def)
  show "\<forall>e \<in> set two_at_once. wrong_op (\<lambda>_ _. False) locked_settings ''10.0.0.1'' (snd e)"
    by (auto simp: two_at_once_def wrong_op_def verify_password_def split: option.splits)
  have "list_all (\<lambda>n. flying ''10.0.0.1'' (login_run (\<lambda>_ _. False) locked_settings (take n two_at_once)) \<le> 2) [0..<17]"
    by code_simp
  moreover have "length two_at_once = 16" by (simp add: two_at_once_def)
  ultimately show "\<forall>n \<le> length two_at_once. flying ''10.0.0.1'' (login_run (\<lambda>_ _. False) locked_settings (take n two_at_once)) \<le> 2"
    by (simp add: list_all_iff)
qed

text \<open>The sixth guess is really let through, by two requests at once.\<close>

lemma six_guesses_at_once: "length (guesses (\<lambda>_ _. False) locked_settings ''10.0.0.1'' two_at_once) = 6"
  by code_simp

subsection \<open>Sessions and the decorators\<close>

datatype gate = Pass | Refused nat | To_Login

definition admin_required :: "string option \<Rightarrow> bool \<Rightarrow> gate" where
  "admin_required r api =
     (if r = Some ''admin'' then Pass
      else if api then (if str_or [] r = [] then Refused 401 else Refused 403) else To_Login)"

definition user_required :: "string option \<Rightarrow> bool \<Rightarrow> gate" where
  "user_required r api = (if r \<in> {Some ''guest'', Some ''user'', Some ''admin''} then Pass else if api then Refused 401 else To_Login)"

definition role_required :: "string list \<Rightarrow> string option \<Rightarrow> bool \<Rightarrow> gate" where
  "role_required rs r api =
     (if (case r of None \<Rightarrow> False | Some x \<Rightarrow> x \<in> set rs) then Pass
      else if api then (if str_or [] r = [] then Refused 401 else Refused 403) else To_Login)"

text \<open>The guest entry of the login page: the session it starts and the page it sends the browser to.\<close>

record browser =
  b_logged_in :: bool
  b_role :: "string option"

definition guest_entry :: "browser \<Rightarrow> string \<times> browser" where
  "guest_entry b = (''/'', \<lparr>b_logged_in = True, b_role = Some ''viewer''\<rparr>)"

definition logout :: "browser \<Rightarrow> browser" where "logout b = \<lparr>b_logged_in = False, b_role = None\<rparr>"

definition session_of_reply :: "login_reply \<Rightarrow> browser \<Rightarrow> browser" where
  "session_of_reply a b = (if a = Logged_In then \<lparr>b_logged_in = True, b_role = Some ''admin''\<rparr> else b)"

text \<open>The start page lets guests in but not the viewer the guest entry has just made.\<close>

lemma viewer_is_sent_back: "user_required (b_role (snd (guest_entry b))) False = To_Login"
  by (simp add: guest_entry_def user_required_def)

subsection \<open>Changing the password\<close>

definition password_blocklist :: "string set" where
  "password_blocklist = {''1234'', ''12345678'', ''0000'', ''password'', ''admin'', ''qwerty''}"

definition min_password_length :: nat where "min_password_length = 8"

definition password_ok :: "string \<Rightarrow> bool" where
  "password_ok p = (min_password_length \<le> length p \<and> length p \<le> 32 \<and> lower p \<notin> password_blocklist)"

text \<open>Both passwords are strings here.  \<open>hash\<close> is \<open>generate_password_hash\<close>.\<close>

definition change_password_api ::
  "(string \<Rightarrow> string) \<Rightarrow> (string \<Rightarrow> string \<Rightarrow> bool) \<Rightarrow> browser \<Rightarrow> string \<Rightarrow> string \<Rightarrow> settings \<Rightarrow> reply \<times> settings" where
  "change_password_api hash check b old new st =
     (if \<not> b_logged_in b then (Failure 401, st)
      else if \<not> password_ok new then (Failure 400, st)
      else (case get_password_hash st of
              None \<Rightarrow> (Failure 400, st)
            | Some h \<Rightarrow>
                (if h = [] \<or> \<not> check h old then (Failure 400, st)
                 else (case set_password hash new st of (ok, st1) \<Rightarrow> (if ok then Success Plain else Failure 500, st1)))))"

lemma change_accepted:
  assumes "fst (change_password_api hash check b old new st) = Success Plain"
  shows "password_ok new" "b_logged_in b" "kv_up st"
    "snd (change_password_api hash check b old new st) =
       st\<lparr>kv := (kv st)(''password_hash'' \<mapsto> hash new, ''password_must_change'' \<mapsto> ''0'')\<rparr>"
  using assms
  by (auto simp: change_password_api_def set_password_def get_password_hash_def split: if_splits option.splits)

text \<open>
  C25: the password that was set is the one that logs in, unless it begins or ends with a blank.  After an accepted
  change an address that is not locked out logs in with the new password if it has no blanks around it; if it
  has, no password logs in any more, because the login strips what it receives and the change does not.
\<close>

theorem password_change_then_login:
  assumes "fst (change_password_api hash check b old new st) = Success Plain"
    "\<And>p q. check (hash p) q \<longleftrightarrow> p = q" "\<And>p. hash p \<noteq> []" "fst (fst (check_login t i s))"
  defines "st' \<equiv> snd (change_password_api hash check b old new st)"
  shows "(if strip new = new then fst (login_api env check st' t later \<lparr>lr_ip = i, lr_password = J_Str new\<rparr> s) = Logged_In
          else \<forall>v. fst (login_api env check st' t later \<lparr>lr_ip = i, lr_password = v\<rparr> s) \<in> {Wrong_Password, Bad_Request})
    \<and> get_setting_value ''password_must_change'' st' = Some ''0''"
proof -
  note st' = change_accepted(3,4) [OF assms(1)]
  have v: "verify_password check st' p \<longleftrightarrow> p = new" for p
    using assms(2,3) by (auto simp: verify_password_def get_password_hash_def st'_def st')
  obtain w s1 where c: "check_login t i s = ((True, w), s1)" using assms(4) by (metis prod.collapse)
  have ne: "new \<noteq> []" using change_accepted(1) [OF assms(1)] by (auto simp: password_ok_def min_password_length_def)
  have "given_password (J_Str new) = Some (strip new)" using ne by (simp add: given_password_def falsy_def)
  moreover have "given_password v = Some p \<Longrightarrow> strip p = p" for v p
    by (cases v) (auto simp: given_password_def split: if_splits)
  moreover have "get_setting_value ''password_must_change'' st' = Some ''0''"
    by (simp add: st'_def st' get_setting_value_def)
  ultimately show ?thesis by (auto simp: login_api_def login_check_def login_finish_def c v split: option.split)
qed

definition demo_hash :: "string \<Rightarrow> string" where "demo_hash p = CHR ''h'' # p"

definition demo_check :: "string \<Rightarrow> string \<Rightarrow> bool" where "demo_check h p = (h = demo_hash p)"

theorem password_change_then_login_witness:
  "let st' = snd (change_password_api demo_hash demo_check \<lparr>b_logged_in = True, b_role = Some ''admin''\<rparr> ''old-secret''
       ''new-secret'' \<lparr>kv = [''password_hash'' \<mapsto> ''hold-secret''], kv_up = True\<rparr>)
   in fst (login_api id demo_check st' 1 2 \<lparr>lr_ip = ''10.0.0.1'', lr_password = J_Str ''new-secret''\<rparr> new_login_limiter) = Logged_In"
proof -
  let ?b = "\<lparr>b_logged_in = True, b_role = Some ''admin''\<rparr>"
  let ?st = "\<lparr>kv = [''password_hash'' \<mapsto> ''hold-secret''], kv_up = True\<rparr>"
  have "fst (change_password_api demo_hash demo_check ?b ''old-secret'' ''new-secret'' ?st) = Success Plain"
    by code_simp
  moreover have "demo_check (demo_hash p) q \<longleftrightarrow> p = q" "demo_hash p \<noteq> []" for p q
    by (simp_all add: demo_check_def demo_hash_def)
  moreover have "fst (fst (check_login 1 ''10.0.0.1'' new_login_limiter))" by code_simp
  moreover have "strip ''new-secret'' = ''new-secret''" by code_simp
  ultimately show ?thesis
    using password_change_then_login [of demo_hash demo_check ?b "''old-secret''" "''new-secret''" ?st 1 "''10.0.0.1''" new_login_limiter id 2]
    by (simp add: Let_def)
qed

end
