(* ===== verification/Programs_Api.thy ===== *)
theory Programs_Api
  imports Http_Control Scheduler_Laws
begin

text \<open>
  The program requests of \<open>src/routes/programs_api.py\<close>: saving, deleting, copying, switching and
  starting a program, with the overlap check before a save and the planning after it.  The fields
  of a request are typed as the page sends them, an absent key is \<open>None\<close>; the entries of \<open>days\<close>
  are still JSON values, because the handler, the check and the repository each convert them (they are
  scalars: a list or an object among them ends in a \<open>TypeError\<close>).
  The scheduler is running, the audit rows and the rate limit are left out, and what is returned
  of a program is its row.
\<close>

subsection \<open>Requests and replies\<close>

record program_body =
  pb_name :: "string option"
  pb_time :: "string option"
  pb_days :: "json list option"
  pb_zones :: "int list option"
  pb_type :: "string option"
  pb_schedule :: "string option"
  pb_interval :: "int option option"
  pb_even_odd :: "string option option"
  pb_color :: "string option"
  pb_enabled :: "bool option"
  pb_extra :: "string list option"

datatype program_reply =
    Saved program
  | Deleted
  | Conflicts "legacy_conflict list"
  | Started_Program int "int list" string
  | Refused_Request nat

definition opt_upd :: "('v \<Rightarrow> prog_upd) \<Rightarrow> 'v option \<Rightarrow> prog_upd list" where
  "opt_upd f v = (case v of None \<Rightarrow> [] | Some x \<Rightarrow> [f x])"

definition body_updates :: "program_body \<Rightarrow> prog_upd list" where
  "body_updates b =
     opt_upd P_name (pb_name b) @ opt_upd P_time (pb_time b) @ opt_upd (P_days \<circ> map json_int) (pb_days b)
     @ opt_upd P_zones (pb_zones b) @ opt_upd P_type (pb_type b) @ opt_upd P_schedule (pb_schedule b)
     @ opt_upd P_interval (pb_interval b) @ opt_upd P_even_odd (pb_even_odd b) @ opt_upd P_color (pb_color b)
     @ opt_upd P_enabled (pb_enabled b) @ opt_upd P_extra (pb_extra b)"

definition body_request :: "string \<Rightarrow> string \<Rightarrow> int list \<Rightarrow> program_body \<Rightarrow> program_req" where
  "body_request nm tm zs b =
     \<lparr>pr_name = nm, pr_time = tm, pr_days = (case pb_days b of None \<Rightarrow> [] | Some ds \<Rightarrow> map json_int ds), pr_zones = zs,
      pr_type = pb_type b, pr_schedule = pb_schedule b, pr_interval = (case pb_interval b of None \<Rightarrow> None | Some v \<Rightarrow> v),
      pr_even_odd = (case pb_even_odd b of None \<Rightarrow> None | Some v \<Rightarrow> v), pr_color = pb_color b, pr_enabled = pb_enabled b,
      pr_extra = pb_extra b\<rparr>"

text \<open>
  The days the check compares with the stored ones: all converted, or, when one does not convert, as
  they came; then only values that are equal to an integer can match.
\<close>

definition raw_int :: "json \<Rightarrow> int option" where
  "raw_int v = (case v of J_Int n \<Rightarrow> Some n | J_Bool b \<Rightarrow> Some (if b then 1 else 0)
     | J_Float q \<Rightarrow> (if of_int \<lfloor>q\<rfloor> = q then Some \<lfloor>q\<rfloor> else None) | _ \<Rightarrow> None)"

definition check_days :: "json list \<Rightarrow> int list" where
  "check_days ds =
     (if list_ex (\<lambda>d. json_int d = None) ds then List.map_filter raw_int ds else List.map_filter json_int ds)"

definition conflicts_of :: "int option \<Rightarrow> string \<Rightarrow> int list \<Rightarrow> json list \<Rightarrow> 'a db_scheme \<Rightarrow> legacy_conflict list" where
  "conflicts_of pid tm zs ds d =
     (case check_program_conflicts pid tm zs (check_days ds) None False None 100 d of Legacy cs \<Rightarrow> cs | V2 _ _ _ \<Rightarrow> [])"

subsection \<open>The handlers\<close>

definition create_program_api :: "(trigger \<Rightarrow> bool) \<Rightarrow> program_body \<Rightarrow> 'a sched_scheme \<Rightarrow> program_reply \<times> 'a sched_scheme" where
  "create_program_api accepts b s =
     (case (pb_name b, pb_time b, pb_zones b) of
        (Some nm, Some tm, Some zs) \<Rightarrow>
          (let cs = conflicts_of None tm zs (case pb_days b of None \<Rightarrow> [] | Some ds \<Rightarrow> ds) s
           in if cs \<noteq> [] then (Conflicts cs, s)
              else (case create_program (body_request nm tm zs b) s of
                      (None, s1) \<Rightarrow> (Refused_Request 400, s1)
                    | (Some p, s1) \<Rightarrow> (Saved p, schedule_program accepts p (add_log ''prog_create'' [prog_id p] s1))))
      | _ \<Rightarrow> (Refused_Request 400, s))"

text \<open>The three keys are read with \<open>[]\<close> and nothing catches the \<open>KeyError\<close>.\<close>

definition put_program_api :: "(trigger \<Rightarrow> bool) \<Rightarrow> int \<Rightarrow> program_body \<Rightarrow> 'a sched_scheme \<Rightarrow> program_reply \<times> 'a sched_scheme" where
  "put_program_api accepts i b s =
     (case (pb_time b, pb_zones b, pb_days b) of
        (Some tm, Some zs, Some ds) \<Rightarrow>
          (let cs = conflicts_of (Some i) tm zs ds s
           in if cs \<noteq> [] then (Conflicts cs, s)
              else (case update_program i (body_updates b) s of
                      (None, s1) \<Rightarrow> (Refused_Request 404, s1)
                    | (Some p, s1) \<Rightarrow> (Saved p, schedule_program accepts p (add_log ''prog_edit'' [i] s1))))
      | _ \<Rightarrow> (Refused_Request 500, s))"

definition delete_program_api :: "int \<Rightarrow> 'a sched_scheme \<Rightarrow> program_reply \<times> 'a sched_scheme" where
  "delete_program_api i s =
     (case delete_program i s of
        (True, s1) \<Rightarrow> (Deleted, cancel_program i (add_log ''prog_delete'' [i] s1))
      | (False, s1) \<Rightarrow> (Refused_Request 404, s1))"

definition duplicate_program_api :: "(trigger \<Rightarrow> bool) \<Rightarrow> int \<Rightarrow> 'a sched_scheme \<Rightarrow> program_reply \<times> 'a sched_scheme" where
  "duplicate_program_api accepts i s =
     (case duplicate_program i s of
        (None, s1) \<Rightarrow> (Refused_Request 404, s1)
      | (Some p, s1) \<Rightarrow> (Saved p, schedule_program accepts p (add_log ''prog_duplicate'' [i, prog_id p] s1)))"

definition toggle_program_api ::
  "(trigger \<Rightarrow> bool) \<Rightarrow> int \<Rightarrow> bool option \<Rightarrow> 'a sched_scheme \<Rightarrow> program_reply \<times> 'a sched_scheme" where
  "toggle_program_api accepts i en s =
     (case en of
        None \<Rightarrow> (Refused_Request 400, s)
      | Some v \<Rightarrow>
          (case update_program i [P_enabled v] s of
             (None, s1) \<Rightarrow> (Refused_Request 404, s1)
           | (Some p, s1) \<Rightarrow>
               (let s2 = add_log ''prog_toggle'' [i] s1
                in (Saved p, if prog_enabled p then schedule_program accepts p s2 else cancel_program i s2))))"

text \<open>The manual start: the thread it starts is \<open>run_program\<close> of \<open>Runner\<close> with \<open>manual\<close> set.\<close>

definition run_program_api :: "int \<Rightarrow> 'a sched_scheme \<Rightarrow> program_reply \<times> 'a sched_scheme" where
  "run_program_api i s =
     (case get_program s i of
        None \<Rightarrow> (Refused_Request 404, s)
      | Some p \<Rightarrow>
          (if prog_zones p = [] then (Refused_Request 400, s)
           else (Started_Program i (prog_zones p) (if prog_name p = [] then ''Program '' @ str_int i else prog_name p),
                 add_log ''prog_manual_run'' (i # prog_zones p) s)))"

definition check_conflicts_api :: "int option \<Rightarrow> string \<Rightarrow> int list \<Rightarrow> json list \<Rightarrow> 'a db_scheme \<Rightarrow> program_reply" where
  "check_conflicts_api pid tm zs ds d =
     (if tm = [] \<or> zs = [] \<or> ds = [] then Refused_Request 400 else Conflicts (conflicts_of pid tm zs ds d))"

end
