(* ===== verification/Program_Requests.thy ===== *)
theory Program_Requests
  imports Programs_Api Session_Laws Program_Laws
begin

text \<open>
  What the program requests guarantee: a refused request changes nothing, and the job table always
  holds exactly the starts of the programs that are stored.  The interface between both sides is
  \<open>planner\<close>: planning and cancelling touch the jobs of one program and no program row.
\<close>

subsection \<open>The requests as one step\<close>

datatype program_request =
    Q_create program_body
  | Q_put int program_body
  | Q_delete int
  | Q_duplicate int
  | Q_toggle int "bool option"
  | Q_run int

fun answer_program :: "(trigger \<Rightarrow> bool) \<Rightarrow> program_request \<Rightarrow> 'a sched_scheme \<Rightarrow> program_reply \<times> 'a sched_scheme" where
  "answer_program accepts (Q_create b) s = create_program_api accepts b s"
| "answer_program accepts (Q_put i b) s = put_program_api accepts i b s"
| "answer_program accepts (Q_delete i) s = delete_program_api i s"
| "answer_program accepts (Q_duplicate i) s = duplicate_program_api accepts i s"
| "answer_program accepts (Q_toggle i en) s = toggle_program_api accepts i en s"
| "answer_program accepts (Q_run i) s = run_program_api i s"

lemmas request_defs = create_program_api_def put_program_api_def delete_program_api_def duplicate_program_api_def
  toggle_program_api_def run_program_api_def

text \<open>What the repository calls behind the requests do to the rows.\<close>

definition row_replaced :: "program \<Rightarrow> program list \<Rightarrow> program list \<Rightarrow> bool" where
  "row_replaced p ps qs =
     (row_at prog_id qs (prog_id p) = Some p \<and> (\<forall>i. i \<noteq> prog_id p \<longrightarrow> row_at prog_id qs i = row_at prog_id ps i))"

lemma upd_rows_absent: "row_at key rows i = None \<Longrightarrow> upd_rows (\<lambda>r. key r = i) f rows = rows"
  by (induction rows) (simp_all split: if_splits)

lemma zones_of_updates:
  "prog_zones (set_prog_cols us p) = prog_zones p \<or> P_zones (prog_zones (set_prog_cols us p)) \<in> set us"
proof (induction us arbitrary: p)
  case (Cons u us)
  have "prog_zones (set_prog_col u p) = prog_zones p \<or> u = P_zones (prog_zones (set_prog_col u p))"
    by (cases u) (auto split: option.splits)
  moreover have "set_prog_cols (u # us) p = set_prog_cols us (set_prog_col u p)" by (simp add: set_prog_cols_def)
  ultimately show ?case using Cons [of "set_prog_col u p"] by auto
qed (simp add: set_prog_cols_def)

text \<open>Every list of zones in the rows is an old one or \<open>zs\<close>.\<close>

definition zones_known :: "int list \<Rightarrow> program list \<Rightarrow> program list \<Rightarrow> bool" where
  "zones_known zs ps qs = (\<forall>q \<in> set qs. prog_zones q = zs \<or> prog_zones q \<in> prog_zones ` set ps)"

lemma update_cases:
  assumes "\<forall>v. P_zones v \<in> set us \<longrightarrow> v = zs"
  obtains (absent) "update_program i us s = (None, s)"
  | (changed) p ps where "update_program i us s = (Some p, s\<lparr>programs := ps\<rparr>)" "db_up s" "prog_id p = i"
      "row_replaced p (programs s) ps" "zones_known zs (programs s) ps"
proof (cases "db_up s")
  case False
  then show ?thesis using that(1) by (simp add: update_program_def)
next
  case True
  let ?ps = "upd_rows (\<lambda>p. prog_id p = i) (set_prog_cols us) (programs s)"
  show ?thesis
  proof (cases "row_at prog_id (programs s) i")
    case None
    then have "update_program i us s = (None, s)"
      using True by (simp add: update_program_def get_program_def upd_rows_absent Let_def)
    then show ?thesis by (rule that(1))
  next
    case (Some q)
    have "prog_id q = i" using Some by (rule row_at_key)
    then have p: "prog_id (set_prog_cols us q) = i" by (simp add: prog_rows.key_upd)
    have "update_program i us s = (Some (set_prog_cols us q), s\<lparr>programs := ?ps\<rparr>)"
      using True Some by (simp add: update_program_def get_program_def prog_rows.row_at_upd_key Let_def)
    moreover have "row_replaced (set_prog_cols us q) (programs s) ?ps"
      using Some by (simp add: row_replaced_def p prog_rows.row_at_upd_key)
    moreover have "zones_known zs (programs s) ?ps"
      using zones_of_updates [of us] assms unfolding zones_known_def upd_rows_def by fastforce
    ultimately show ?thesis using True p by (intro that(2))
  qed
qed

lemma create_cases:
  obtains "create_program r s = (None, s)"
  | p ps where "create_program r s = (Some p, s\<lparr>programs := ps\<rparr>)" "db_up s"
      "row_replaced p (programs s) ps" "zones_known (pr_zones r) (programs s) ps"
proof (cases "db_up s")
  case False
  then show ?thesis using that(1) by (simp add: create_program_def)
next
  case True
  have fresh: "next_rowid prog_id (programs s) \<notin> prog_id ` set (programs s)"
    using next_rowid_fresh [of prog_id "programs s"] by (simp add: row_at_None_iff)
  show ?thesis
    by (rule that(2)) (use True fresh in \<open>auto simp: create_program_def Let_def get_program_def row_at_insert_key row_replaced_def
        zones_known_def set_insort_key\<close>)
qed

text \<open>The five shapes an answer can have.\<close>

inductive answered :: "(trigger \<Rightarrow> bool) \<Rightarrow> int list \<Rightarrow> 'a sched_scheme \<Rightarrow> program_reply \<times> 'a sched_scheme \<Rightarrow> bool"
  for accepts zs s where
  refused: "answered accepts zs s (Refused_Request n, s)"
| conflict: "answered accepts zs s (Conflicts cs, s)"
| started: "db_up s \<Longrightarrow> answered accepts zs s (Started_Program i ws nm, add_log ty js s)"
| deleted: "db_up s \<Longrightarrow>
    answered accepts zs s (Deleted, cancel_program i (add_log ty js (s\<lparr>programs := filter (\<lambda>p. prog_id p \<noteq> i) (programs s)\<rparr>)))"
| saved: "db_up s \<Longrightarrow> row_replaced p (programs s) ps \<Longrightarrow> zones_known zs (programs s) ps \<Longrightarrow>
    answered accepts zs s (Saved p, schedule_program accepts p (add_log ty js (s\<lparr>programs := ps\<rparr>)))"

inductive_cases answeredE: "answered accepts zs s (r, s')"

lemma saved_off:
  assumes "db_up s" "row_replaced p (programs s) ps" "zones_known zs (programs s) ps" "\<not> prog_enabled p"
  shows "answered accepts zs s (Saved p, cancel_program (prog_id p) (add_log ty js (s\<lparr>programs := ps\<rparr>)))"
  using saved [OF assms(1,2,3), of accepts ty js] assms(4) by (simp add: schedule_program_def)

lemma answered_create: "answered accepts (case pb_zones b of None \<Rightarrow> [] | Some zs \<Rightarrow> zs) s (create_program_api accepts b s)"
proof (cases "pb_name b = None \<or> pb_time b = None \<or> pb_zones b = None")
  case True
  then show ?thesis by (auto simp: create_program_api_def refused split: option.split)
next
  case False
  then obtain nm tm zs where f: "pb_name b = Some nm" "pb_time b = Some tm" "pb_zones b = Some zs" by auto
  show ?thesis
    by (cases rule: create_cases [of "body_request nm tm zs b" s])
      (simp_all add: body_request_def create_program_api_def f Let_def answered.refused answered.conflict answered.saved)
qed

lemma answered_put: "answered accepts (case pb_zones b of None \<Rightarrow> [] | Some zs \<Rightarrow> zs) s (put_program_api accepts i b s)"
proof (cases "pb_time b = None \<or> pb_zones b = None \<or> pb_days b = None")
  case True
  then show ?thesis by (auto simp: put_program_api_def refused split: option.split)
next
  case False
  then obtain tm zs ds where f: "pb_time b = Some tm" "pb_zones b = Some zs" "pb_days b = Some ds" by auto
  have "\<forall>v. P_zones v \<in> set (body_updates b) \<longrightarrow> v = zs"
    using f(2) by (auto simp: body_updates_def opt_upd_def split: option.splits)
  then show ?thesis
    by (cases rule: update_cases [of "body_updates b" zs i s])
      (simp_all add: put_program_api_def f Let_def refused conflict saved)
qed

lemma answered_duplicate: "answered accepts [] s (duplicate_program_api accepts i s)"
proof (cases "get_program s i")
  case (Some q)
  then have "q \<in> set (programs s)" by (auto simp: get_program_def row_at_mem split: if_splits)
  then have known: "zones_known (pr_zones (req_of_program q)) (programs s) ps \<Longrightarrow> zones_known [] (programs s) ps" for ps
    by (auto simp: zones_known_def req_of_program_def)
  show ?thesis
    by (cases rule: create_cases [of "req_of_program q" s])
      (simp_all add: duplicate_program_api_def duplicate_program_def Some refused saved known)
qed (simp add: duplicate_program_api_def duplicate_program_def refused)

lemma answered_toggle: "answered accepts [] s (toggle_program_api accepts i en s)"
proof (cases en)
  case (Some v)
  have no: "\<forall>w. P_zones w \<in> set [P_enabled v] \<longrightarrow> w = []" by simp
  show ?thesis
  proof (cases rule: update_cases [OF no, where i = i and s = s, case_names absent changed])
    case (changed p ps)
    then show ?thesis
      using saved_off [of s p ps "[]" accepts "''prog_toggle''" "[i]"]
      by (simp add: toggle_program_api_def Some Let_def saved)
  qed (simp add: toggle_program_api_def Some refused)
qed (simp add: toggle_program_api_def refused)

lemma answered_run: "answered accepts zs s (run_program_api i s)"
proof (cases "get_program s i")
  case (Some q)
  then have "db_up s" by (simp add: get_program_def split: if_splits)
  then show ?thesis by (simp add: run_program_api_def Some refused started)
qed (simp add: run_program_api_def refused)

lemma answered_delete: "answered accepts zs s (delete_program_api i s)"
  by (simp add: delete_program_api_def delete_program_def refused deleted)

fun zones_sent :: "program_request \<Rightarrow> int list" where
  "zones_sent (Q_create b) = (case pb_zones b of None \<Rightarrow> [] | Some zs \<Rightarrow> zs)"
| "zones_sent (Q_put i b) = (case pb_zones b of None \<Rightarrow> [] | Some zs \<Rightarrow> zs)"
| "zones_sent rq = []"

lemma every_answer: "answered accepts (zones_sent rq) s (answer_program accepts rq s)"
  by (cases rq)
    (simp_all add: answered_create answered_put answered_delete answered_duplicate answered_toggle answered_run)

text \<open>
  C27: a refused program request changes nothing.  Whatever the reason (a conflict, a missing field, an
  unknown program, no zones, a database that fails), a request that is not answered with success leaves rows, jobs,
  log and everything else as they were; an edit without its time, its zones or its days is always
  refused, as an internal error.
\<close>

theorem refused_program_request:
  assumes "answer_program accepts rq s = (r, s')"
  shows "(case r of Refused_Request _ \<Rightarrow> s' = s | Conflicts _ \<Rightarrow> s' = s | _ \<Rightarrow> db_up s)
    \<and> (rq = Q_put i b \<and> (pb_time b = None \<or> pb_zones b = None \<or> pb_days b = None) \<longrightarrow> r = Refused_Request 500)"
proof
  have "answered accepts (zones_sent rq) s (r, s')" using every_answer [of accepts rq s] by (simp add: assms)
  then show "case r of Refused_Request _ \<Rightarrow> s' = s | Conflicts _ \<Rightarrow> s' = s | _ \<Rightarrow> db_up s"
    by (rule answeredE) simp_all
  show "rq = Q_put i b \<and> (pb_time b = None \<or> pb_zones b = None \<or> pb_days b = None) \<longrightarrow> r = Refused_Request 500"
    using assms by (auto simp: put_program_api_def split: option.splits)
qed

subsection \<open>The interface of a planner\<close>

text \<open>What the jobs of a program are due to be: none without an enabled row, the weekly starts of a regular one.\<close>

definition regular :: "program \<Rightarrow> bool" where
  "regular p = (schedule_type p = ''weekdays'' \<and> prog_zones p \<noteq> [] \<and> prog_days p \<noteq> [] \<and> set (prog_days p) \<subseteq> {0..6}
     \<and> (\<exists>h m. parse_hhmm (prog_time p) = Some (h, m) \<and> valid_hm h m))"

definition jobs_due :: "program option \<Rightarrow> job set \<Rightarrow> bool" where
  "jobs_due r js =
     (case r of
        None \<Rightarrow> js = {}
      | Some p \<Rightarrow> (\<not> prog_enabled p \<longrightarrow> js = {}) \<and> (prog_enabled p \<and> regular p \<longrightarrow> js = weekday_jobs p))"

locale planner =
  fixes rows :: "'s \<Rightarrow> program list"
    and owned :: "int \<Rightarrow> 's \<Rightarrow> job set"
    and sound :: "'s \<Rightarrow> bool"
    and plan :: "program \<Rightarrow> 's \<Rightarrow> 's"
    and drop_plan :: "int \<Rightarrow> 's \<Rightarrow> 's"
  assumes plan_rows: "sound s \<Longrightarrow> rows (plan p s) = rows s"
    and drop_rows: "rows (drop_plan i s) = rows s"
    and plan_sound: "sound s \<Longrightarrow> sound (plan p s)"
    and drop_sound: "sound s \<Longrightarrow> sound (drop_plan i s)"
    and plan_others: "sound s \<Longrightarrow> i \<noteq> prog_id p \<Longrightarrow> owned i (plan p s) = owned i s"
    and plan_own: "sound s \<Longrightarrow> jobs_due (Some p) (owned (prog_id p) (plan p s))"
    and drop_own: "sound s \<Longrightarrow> owned i (drop_plan i s) = {}"
    and drop_others: "sound s \<Longrightarrow> j \<noteq> i \<Longrightarrow> owned j (drop_plan i s) = owned j s"
begin

text \<open>The row was written before the plan; the rest of the rows and all jobs are as before.\<close>

lemma due_after_plan:
  assumes "sound t" "\<And>i. owned i t = owned i s" "row_replaced p (rows s) (rows t)"
    "\<And>i. jobs_due (row_at prog_id (rows s) i) (owned i s)"
  shows "jobs_due (row_at prog_id (rows (plan p t)) i) (owned i (plan p t))"
  using assms(3,4) plan_own [OF assms(1), of p] plan_others [OF assms(1), of i p]
  by (cases "i = prog_id p") (simp_all add: plan_rows [OF assms(1)] row_replaced_def assms(2))

lemma due_after_drop:
  assumes "sound t" "\<And>j. owned j t = owned j s" "rows t = filter (\<lambda>p. prog_id p \<noteq> i) (rows s)"
    "\<And>j. jobs_due (row_at prog_id (rows s) j) (owned j s)"
  shows "jobs_due (row_at prog_id (rows (drop_plan i t)) j) (owned j (drop_plan i t))"
  using assms(4) [of j] drop_own [OF assms(1), of i] drop_others [OF assms(1), of j i]
  by (cases "j = i") (simp_all add: drop_rows assms(2,3) row_at_filter_other jobs_due_def)

end

subsection \<open>The scheduler is a planner\<close>

lemma own_jobs_cong: "jobs s' = jobs s \<Longrightarrow> own_jobs pid s' = own_jobs pid s"
  by (simp add: own_jobs_def)

lemma own_jobs_add_all:
  "(\<And>j. j \<in> set js \<Longrightarrow> job_owner (j_id j) \<noteq> Some pid) \<Longrightarrow> own_jobs pid (add_all js s) = own_jobs pid s"
proof (induction js arbitrary: s)
  case (Cons j js)
  have "own_jobs pid (snd (add_job True j s)) = own_jobs pid s"
    using Cons.prems [of j] by (auto simp: add_job_replace own_jobs_def)
  then show ?case using Cons by simp
qed simp

lemma own_jobs_cancel_other:
  assumes "tracked s" "i \<noteq> pid"
  shows "own_jobs i (cancel_program pid s) = own_jobs i s"
proof -
  have "own_jobs i t = {j \<in> other_jobs pid t. job_owner (j_id j) = Some i}" for t :: "'a sched_scheme"
    using assms(2) by (auto simp: own_jobs_def other_jobs_def)
  then show ?thesis using cancel_own_jobs [OF assms(1), of pid] by simp
qed

lemma own_jobs_plan_other:
  assumes "tracked s" "i \<noteq> prog_id p"
  shows "own_jobs i (schedule_program accepts p s) = own_jobs i s"
proof (cases rule: schedule_program_cases [of p accepts s])
  case (planned h m)
  let ?t = "with_starts p h m (cancel_program (prog_id p) s)" and ?js = "program_plan accepts p (now_of s)"
  note f = planned_fields [OF planned(5)]
  have "own_jobs i (schedule_program accepts p s) = own_jobs i (add_all ?js ?t)" by (rule own_jobs_cong) (rule f(1))
  also have "\<dots> = own_jobs i ?t"
    using plan_owner [of _ accepts p "now_of s"] assms(2) by (intro own_jobs_add_all) auto
  also have "\<dots> = own_jobs i (cancel_program (prog_id p) s)" by (rule own_jobs_cong) (rule f(2))
  also have "\<dots> = own_jobs i s" by (rule own_jobs_cancel_other [OF assms])
  finally show ?thesis .
qed (use own_jobs_cancel_other [OF assms] in simp_all)

text \<open>
  Group 999 holds the zones taken out of service.  A plain write to such a zone removes it from all
  programs, and the start time that planning notes for it is a plain write too.
\<close>

definition parked :: "'a db_scheme \<Rightarrow> int \<Rightarrow> bool" where
  "parked d i = (\<exists>z. row_at zid (zones d) i = Some z \<and> group_id z = Some 999)"

definition none_parked :: "'a db_scheme \<Rightarrow> bool" where
  "none_parked d = (\<forall>p \<in> set (programs d). \<forall>i \<in> set (prog_zones p). \<not> parked d i)"

lemma parked_zone_leaves_programs:
  assumes "get_zone s i = Some z" "group_id z = Some 999"
  shows "programs (put_start (i, t) s) = map (\<lambda>p. p\<lparr>prog_zones := filter (\<lambda>j. j \<noteq> i) (prog_zones p)\<rparr>) (programs s)"
  using assms
  by (simp add: put_start_def update_zone_def Let_def drop_zone_from_programs_def put_zone_def plain_write_def)

lemma put_start_unparked:
  assumes "none_parked s"
  shows "programs (put_start e s) = programs s \<and> none_parked (put_start e s)"
proof -
  let ?us = "[U_sched (Some (snd e))]"
  have w: "group_id (plain_write ?us y) = group_id y" for y by (simp add: plain_write_def Let_def)
  have p: "parked (put_start e s) i = parked s i" for i
    by (auto simp: parked_def put_start_def update_zone_def Let_def put_zone_def w zplain.row_at_upd_key split: option.split)
  have "programs (put_start e s) = programs s"
  proof (cases "get_zone s (fst e)")
    case (Some z)
    then have row: "row_at zid (zones s) (fst e) = Some z" by (simp add: get_zone_def split: if_splits)
    have "map (\<lambda>p. p\<lparr>prog_zones := filter (\<lambda>j. j \<noteq> fst e) (prog_zones p)\<rparr>) (programs s) = programs s"
      if "group_id z = Some 999"
    proof (rule map_idI)
      fix p assume "p \<in> set (programs s)"
      then have "fst e \<notin> set (prog_zones p)" using assms row that by (auto simp: none_parked_def parked_def)
      then have "filter (\<lambda>j. j \<noteq> fst e) (prog_zones p) = prog_zones p" by (auto intro: filter_True)
      then show "p\<lparr>prog_zones := filter (\<lambda>j. j \<noteq> fst e) (prog_zones p)\<rparr> = p" by simp
    qed
    then show ?thesis
      using Some by (auto simp: put_start_def update_zone_def Let_def put_zone_def w drop_zone_from_programs_def)
  qed (simp add: put_start_def update_zone_def)
  then show ?thesis using assms by (simp add: none_parked_def p)
qed

lemma with_starts_unparked:
  assumes "none_parked s"
  shows "programs (with_starts p h m s) = programs s \<and> none_parked (with_starts p h m s)"
proof -
  have "programs (fold put_start es t) = programs t \<and> none_parked (fold put_start es t)"
    if "none_parked t" for es and t :: "'a sched_scheme"
    using that by (induction es arbitrary: t) (simp_all add: put_start_unparked)
  then show ?thesis using assms by (simp add: with_starts_def)
qed

lemma none_parked_cong: "programs s' = programs s \<Longrightarrow> zones s' = zones s \<Longrightarrow> none_parked s' = none_parked s"
  by (simp add: none_parked_def parked_def)

lemma none_parked_cancel [simp]: "none_parked (cancel_program pid s) = none_parked s"
proof (rule none_parked_cong)
  have "zones (fold remove_job is s) = zones s" for "is" by (induction "is" arbitrary: s) (simp_all add: remove_job_def)
  then show "zones (cancel_program pid s) = zones s" by (simp add: cancel_program_def Let_def)
qed simp

lemma none_parked_add_all [simp]: "none_parked (add_all js s) = none_parked s"
  by (rule none_parked_cong) simp_all

lemma schedule_unparked:
  assumes "none_parked s"
  shows "programs (schedule_program accepts p s) = programs s \<and> none_parked (schedule_program accepts p s)"
proof (cases rule: schedule_program_cases [of p accepts s])
  case (planned h m)
  have "none_parked (t\<lparr>program_jobs := f\<rparr>) = none_parked t" for t :: "'a sched_scheme" and f
    by (rule none_parked_cong) simp_all
  then show ?thesis
    using with_starts_unparked [of "cancel_program (prog_id p) s" p h m] assms by (simp add: planned(5) Let_def)
qed (use assms in simp_all)

lemma jobs_due_planned:
  assumes "tracked s" "cron_accepts accepts"
  shows "jobs_due (Some p) (own_jobs (prog_id p) (schedule_program accepts p s))"
  using plan_replaces_jobs [OF assms, of p] cancel_own_jobs [OF assms(1), of "prog_id p"]
  by (auto simp: jobs_due_def regular_def schedule_program_def)

interpretation table: planner programs own_jobs "\<lambda>s. tracked s \<and> none_parked s \<and> cron_accepts accepts"
  "schedule_program accepts" cancel_program for accepts
  by unfold_locales
    (simp_all add: tracked_schedule_program tracked_cancel cancel_own_jobs own_jobs_plan_other own_jobs_cancel_other
      jobs_due_planned schedule_unparked)

subsection \<open>A boot on kept jobs\<close>

text \<open>
  The start jobs are kept on disk by the scheduler library; the scheduler object's own list of them is not.  A boot
  therefore finds jobs its object does not know, and a program is only cancelled by that list.  A kept start
  job is taken over when the plan of its program writes a job of the same id again.
\<close>

definition renewable :: "(trigger \<Rightarrow> bool) \<Rightarrow> program \<Rightarrow> 'a sched_scheme \<Rightarrow> bool" where
  "renewable accepts p s =
     (own_jobs (prog_id p) s = {}
      \<or> prog_enabled p \<and> plannable p \<and> (\<exists>h m. parse_hhmm (prog_time p) = Some (h, m) \<and> valid_hm h m)
        \<and> j_id ` own_jobs (prog_id p) s \<subseteq> j_id ` set (program_plan accepts p (now_of s)))"

definition boot_state :: "(trigger \<Rightarrow> bool) \<Rightarrow> 'a sched_scheme \<Rightarrow> bool" where
  "boot_state accepts s =
     (program_jobs s = (\<lambda>_. None) \<and> distinct (map j_id (jobs s)) \<and> none_parked s \<and> db_up s
      \<and> distinct (map prog_id (programs s))
      \<and> (\<forall>i. case row_at prog_id (programs s) i of None \<Rightarrow> own_jobs i s = {} | Some p \<Rightarrow> renewable accepts p s))"

text \<open>One program planned by an object that does not know its jobs yet.\<close>

definition knows :: "int \<Rightarrow> 'a sched_scheme \<Rightarrow> bool" where
  "knows i s = (\<forall>j \<in> own_jobs i s. \<exists>ids. program_jobs s i = Some ids \<and> j_id j \<in> set ids)"

definition lists_own :: "'a sched_scheme \<Rightarrow> bool" where
  "lists_own s = (\<forall>i ids. program_jobs s i = Some ids \<longrightarrow> (\<forall>k \<in> set ids. job_owner k = Some i))"

lemma tracked_iff: "tracked s = (distinct (map j_id (jobs s)) \<and> (\<forall>i. knows i s) \<and> lists_own s)"
  by (auto simp: tracked_def knows_def lists_own_def own_jobs_def)

lemma cancel_unknown:
  assumes "program_jobs s pid = None"
  shows "jobs (cancel_program pid s) = jobs s" "program_jobs (cancel_program pid s) = (program_jobs s)(pid \<mapsto> [])"
    "now_of (cancel_program pid s) = now_of s"
  using assms by (simp_all add: cancel_program_fields)

lemma plan_unknown:
  assumes "cron_accepts accepts" "program_jobs s (prog_id p) = None" "renewable accepts p s"
  shows "knows (prog_id p) (schedule_program accepts p s)"
    "jobs_due (Some p) (own_jobs (prog_id p) (schedule_program accepts p s))"
    "\<And>i. i \<noteq> prog_id p \<Longrightarrow> own_jobs i (schedule_program accepts p s) = own_jobs i s
       \<and> program_jobs (schedule_program accepts p s) i = program_jobs s i"
    "distinct (map j_id (jobs s)) \<Longrightarrow> distinct (map j_id (jobs (schedule_program accepts p s)))"
    "lists_own s \<Longrightarrow> lists_own (schedule_program accepts p s)"
    "now_of (schedule_program accepts p s) = now_of s"
proof -
  let ?s = "schedule_program accepts p s" and ?c = "cancel_program (prog_id p) s"
  note c = cancel_unknown [OF assms(2)]
  have all: "knows (prog_id p) ?s \<and> jobs_due (Some p) (own_jobs (prog_id p) ?s)
      \<and> (\<forall>i. i \<noteq> prog_id p \<longrightarrow> own_jobs i ?s = own_jobs i s \<and> program_jobs ?s i = program_jobs s i)
      \<and> (distinct (map j_id (jobs s)) \<longrightarrow> distinct (map j_id (jobs ?s))) \<and> (lists_own s \<longrightarrow> lists_own ?s)
      \<and> now_of ?s = now_of s"
  proof (cases rule: schedule_program_cases [of p accepts s])
    case disabled
    then show ?thesis using assms(3) by (auto simp: knows_def jobs_due_def renewable_def lists_own_def own_jobs_def c)
  next
    case rejected
    then show ?thesis using assms(3) by (auto simp: knows_def jobs_due_def renewable_def regular_def plannable_def)
  next
    case (bad_hour h m)
    then show ?thesis using assms(3)
      by (auto simp: knows_def jobs_due_def renewable_def regular_def starts_ok_def lists_own_def own_jobs_def c)
  next
    case (planned h m)
    let ?js = "program_plan accepts p (now_of s)" and ?w = "with_starts p h m ?c"
    note f = planned_fields [OF planned(5)]
    have own: "job_owner (j_id j) = Some (prog_id p)" if "j \<in> set ?js" for j using that by (rule plan_owner)
    have w: "jobs ?w = jobs s" by (simp add: f(2) c)
    have ids: "j_id ` own_jobs (prog_id p) s \<subseteq> j_id ` set ?js" using assms(3) by (auto simp: renewable_def)
    have "j_id ` set (jobs ?s) = j_id ` set (jobs s) \<union> j_id ` set ?js" by (simp add: f(1) ids_add_all w)
    have "j_id j \<in> j_id ` set ?js" if "j \<in> own_jobs (prog_id p) ?s" for j
    proof (rule ccontr)
      assume new: "j_id j \<notin> j_id ` set ?js"
      then have "j_id j \<in> j_id ` set (jobs s)"
        using that \<open>j_id ` set (jobs ?s) = _\<close> by (auto simp: own_jobs_def)
      then obtain k where "k \<in> set (jobs s)" "j_id j = j_id k" by blast
      then have "j_id j \<in> j_id ` own_jobs (prog_id p) s" using that by (auto simp: own_jobs_def)
      then show False using ids new by blast
    qed
    then have k: "knows (prog_id p) ?s" by (simp add: knows_def f(3))
    have "own_jobs (prog_id p) ?s = weekday_jobs p" if "regular p"
    proof -
      have plan: "set ?js = weekday_jobs p"
        using that assms(1) by (intro plan_weekdays) (auto simp: regular_def)
      have "set (jobs ?s) = {j \<in> set (jobs s). j_id j \<notin> j_id ` set ?js} \<union> set ?js"
        unfolding f(1) using set_jobs_add_all [of ?js ?w] weekday_jobs_inj [of p] by (simp add: plan w)
      then show ?thesis using own ids plan by (auto simp: own_jobs_def)
    qed
    moreover have "own_jobs i ?s = own_jobs i s" if "i \<noteq> prog_id p" for i
    proof -
      have "own_jobs i ?s = own_jobs i (add_all ?js ?w)" by (rule own_jobs_cong) (rule f(1))
      also have "\<dots> = own_jobs i ?w" using own that by (intro own_jobs_add_all) auto
      also have "\<dots> = own_jobs i s" by (rule own_jobs_cong) (rule w)
      finally show ?thesis .
    qed
    moreover have "now_of ?s = now_of s"
    proof -
      have add: "now_of (add_all js t) = now_of t" for js and t :: "'a sched_scheme"
        by (induction js arbitrary: t) (simp_all add: add_job_def now_of_def)
      have pj: "now_of (t\<lparr>program_jobs := g\<rparr>) = now_of t" for t :: "'a sched_scheme" and g by (simp add: now_of_def)
      have "now_of ?w = now_of s" using more_now_of [OF more_with_starts] c(3) by metis
      then show ?thesis by (simp only: planned(5) Let_def pj add)
    qed
    moreover have "distinct (map j_id (jobs s)) \<Longrightarrow> distinct (map j_id (jobs ?s))"
      by (simp add: f(1) distinct_ids_add_all w)
    moreover have "lists_own s \<Longrightarrow> lists_own ?s" using own by (auto simp: lists_own_def f(3))
    ultimately show ?thesis using k planned(1) by (auto simp: jobs_due_def f(3))
  qed
  then show "knows (prog_id p) ?s" "jobs_due (Some p) (own_jobs (prog_id p) ?s)"
    "\<And>i. i \<noteq> prog_id p \<Longrightarrow> own_jobs i ?s = own_jobs i s \<and> program_jobs ?s i = program_jobs s i"
    "distinct (map j_id (jobs s)) \<Longrightarrow> distinct (map j_id (jobs ?s))" "lists_own s \<Longrightarrow> lists_own ?s" "now_of ?s = now_of s"
    by blast+
qed

definition in_step :: "'a sched_scheme \<Rightarrow> bool" where
  "in_step s = (tracked s \<and> none_parked s \<and> (\<forall>i. jobs_due (row_at prog_id (programs s) i) (own_jobs i s)))"

text \<open>The boot goes through the rows; those still to come are renewable and unknown.\<close>

definition boot_part :: "(trigger \<Rightarrow> bool) \<Rightarrow> program list \<Rightarrow> 'a sched_scheme \<Rightarrow> bool" where
  "boot_part accepts ps s =
     (distinct (map j_id (jobs s)) \<and> none_parked s \<and> lists_own s \<and> distinct (map prog_id ps)
      \<and> (\<forall>p \<in> set ps. program_jobs s (prog_id p) = None \<and> renewable accepts p s)
      \<and> (\<forall>i. i \<notin> prog_id ` set ps \<longrightarrow> knows i s \<and> jobs_due (row_at prog_id (programs s) i) (own_jobs i s)))"

lemma boot_part_next:
  assumes "cron_accepts accepts" "boot_part accepts (p # ps) s" "row_at prog_id (programs s) (prog_id p) = Some p"
  shows "boot_part accepts ps (schedule_program accepts p s)"
proof -
  let ?s = "schedule_program accepts p s"
  have b: "distinct (map j_id (jobs s))" "none_parked s" "lists_own s" "prog_id p \<notin> prog_id ` set ps" "distinct (map prog_id ps)"
    "program_jobs s (prog_id p) = None" "renewable accepts p s"
    "\<And>q. q \<in> set ps \<Longrightarrow> program_jobs s (prog_id q) = None \<and> renewable accepts q s"
    "\<And>i. i \<notin> prog_id ` set ps \<Longrightarrow> i \<noteq> prog_id p \<Longrightarrow> knows i s \<and> jobs_due (row_at prog_id (programs s) i) (own_jobs i s)"
    using assms(2) by (simp_all add: boot_part_def)
  note u = plan_unknown [OF assms(1) b(6,7)]
  note rows = schedule_unparked [OF b(2), of accepts p]
  have "program_jobs ?s (prog_id q) = None \<and> renewable accepts q ?s" if "q \<in> set ps" for q
  proof -
    have "prog_id q \<noteq> prog_id p" using that b(4) by (metis imageI)
    then show ?thesis using u(3) [of "prog_id q"] u(6) b(8) [OF that] by (simp add: renewable_def)
  qed
  moreover have "knows i ?s \<and> jobs_due (row_at prog_id (programs ?s) i) (own_jobs i ?s)" if "i \<notin> prog_id ` set ps" for i
    using u(1,2) u(3) [of i] b(9) [OF that] rows assms(3) by (cases "i = prog_id p") (auto simp: knows_def)
  ultimately show ?thesis using u(4,5) b(1-5) rows by (simp add: boot_part_def)
qed

lemma boot_part_all:
  assumes "cron_accepts accepts" "boot_part accepts ps s" "\<forall>p \<in> set ps. row_at prog_id (programs s) (prog_id p) = Some p"
  shows "in_step (fold (schedule_program accepts) ps s)"
  using assms(2,3)
proof (induction ps arbitrary: s)
  case Nil
  then show ?case by (simp add: boot_part_def in_step_def tracked_iff)
next
  case (Cons p ps)
  have "none_parked s" using Cons.prems(1) by (simp add: boot_part_def)
  then have "programs (schedule_program accepts p s) = programs s" using schedule_unparked by blast
  then show ?case using boot_part_next [OF assms(1) Cons.prems(1)] Cons.prems(2) by (simp add: Cons.IH)
qed

lemma in_step_load:
  assumes "cron_accepts accepts" "boot_state accepts s"
  shows "in_step (load_programs accepts s)"
proof -
  have b: "program_jobs s = (\<lambda>_. None)" "distinct (map j_id (jobs s))" "none_parked s" "db_up s" "distinct (map prog_id (programs s))"
    "\<And>i. row_at prog_id (programs s) i = None \<Longrightarrow> own_jobs i s = {}"
    "\<And>i p. row_at prog_id (programs s) i = Some p \<Longrightarrow> renewable accepts p s"
    using assms(2) unfolding boot_state_def by (simp_all, (metis option.simps(4,5))+)
  have row: "row_at prog_id (programs s) (prog_id p) = Some p" if "p \<in> set (programs s)" for p
    using row_at_mem_unique [OF b(5) that] .
  have "i \<notin> prog_id ` set (programs s) \<Longrightarrow> row_at prog_id (programs s) i = None" for i by (simp add: row_at_None_iff)
  moreover have "renewable accepts p s" if "p \<in> set (programs s)" for p using b(7) [OF row [OF that]] .
  ultimately have "boot_part accepts (programs s) s"
    using b(1-6) row by (auto simp: boot_part_def lists_own_def knows_def jobs_due_def)
  then have "in_step (fold (schedule_program accepts) (programs s) s)"
    using row by (intro boot_part_all [OF assms(1)]) blast+
  then show ?thesis using b(4) by (simp add: load_programs_def get_programs_def)
qed

subsection \<open>The life of the program table\<close>

text \<open>
  A restart keeps the rows and the jobs on disk; everything in memory is new, and so is the clock.  When
  every enabled program is a weekday program with zones, days and a valid time, what a restart finds is
  what a boot can take over.
\<close>

definition restarted :: "'a sched_scheme \<Rightarrow> 'a sched_scheme \<Rightarrow> bool" where
  "restarted s s1 =
     (programs s1 = programs s \<and> (\<forall>i. parked s1 i = parked s i) \<and> db_up s1 \<and> program_jobs s1 = (\<lambda>_. None)
      \<and> jobs s1 = filter (\<lambda>j. j_store j = Default_Store) (jobs s))"

definition all_regular :: "program list \<Rightarrow> bool" where
  "all_regular ps = (distinct (map prog_id ps) \<and> (\<forall>p \<in> set ps. prog_enabled p \<longrightarrow> regular p))"

lemma restart_boots:
  assumes "cron_accepts accepts" "in_step s" "all_regular (programs s)" "restarted s s1"
  shows "boot_state accepts s1"
proof -
  have r: "programs s1 = programs s" "jobs s1 = filter (\<lambda>j. j_store j = Default_Store) (jobs s)" "\<And>i. parked s1 i = parked s i"
    "db_up s1" "program_jobs s1 = (\<lambda>_. None)" using assms(4) by (simp_all add: restarted_def)
  have sub: "own_jobs i s1 \<subseteq> own_jobs i s" for i by (auto simp: own_jobs_def r)
  have due: "jobs_due (row_at prog_id (programs s) i) (own_jobs i s)" for i using assms(2) by (simp add: in_step_def)
  have "renewable accepts p s1" if p: "row_at prog_id (programs s) i = Some p" for i p
  proof (cases "prog_enabled p")
    case True
    have mem: "p \<in> set (programs s)" "prog_id p = i" using row_at_mem [OF p] row_at_key [OF p] by auto
    then have reg: "regular p" using True assms(3) by (simp add: all_regular_def)
    then have "set (program_plan accepts p (now_of s1)) = weekday_jobs p"
      using assms(1) by (intro plan_weekdays) (auto simp: regular_def)
    moreover have "own_jobs i s = weekday_jobs p" using due [of i] p True reg by (simp add: jobs_due_def)
    ultimately have "j_id ` own_jobs (prog_id p) s1 \<subseteq> j_id ` set (program_plan accepts p (now_of s1))"
      using sub [of i] mem(2) by auto
    then show ?thesis using True reg by (auto simp: renewable_def regular_def plannable_def)
  next
    case False
    then have "own_jobs i s = {}" using due [of i] p by (simp add: jobs_due_def)
    then show ?thesis using sub [of i] row_at_key [OF p] by (auto simp: renewable_def)
  qed
  moreover have "own_jobs i s1 = {}" if "row_at prog_id (programs s) i = None" for i
    using due [of i] sub [of i] that by (simp add: jobs_due_def)
  moreover have "none_parked s1" using assms(2) by (simp add: none_parked_def r(1,3) in_step_def)
  moreover have "distinct (map j_id (jobs s1))"
    using assms(2) by (simp add: r in_step_def tracked_def distinct_map_filter_key)
  ultimately show ?thesis using assms(3) r by (auto simp: boot_state_def all_regular_def split: option.splits)
qed

text \<open>
  Program requests that list no zone out of service, restarts of the process, and whatever else the process
  does (firing stops, cancelling groups, watering, time passing, the database failing and coming back)
  that edits no program, puts none of its zones out of service and adds or removes no job of it.
\<close>

inductive program_life :: "(trigger \<Rightarrow> bool) \<Rightarrow> 'a sched_scheme \<Rightarrow> 'a sched_scheme \<Rightarrow> bool" for accepts where
  life_request: "\<forall>i \<in> set (zones_sent rq). \<not> parked s i \<Longrightarrow> program_life accepts s (snd (answer_program accepts rq s))"
| life_restart: "all_regular (programs s) \<Longrightarrow> restarted s s1 \<Longrightarrow> program_life accepts s (load_programs accepts s1)"
| life_other: "programs s' = programs s \<Longrightarrow> tracked s' \<Longrightarrow> none_parked s' \<Longrightarrow> (\<And>i. own_jobs i s' = own_jobs i s) \<Longrightarrow>
    program_life accepts s s'"

lemma edited_fields:
  "programs (add_log ty js (s\<lparr>programs := ps\<rparr>)) = ps" "own_jobs i (add_log ty js (s\<lparr>programs := ps\<rparr>)) = own_jobs i s"
  "tracked s \<Longrightarrow> tracked (add_log ty js (s\<lparr>programs := ps\<rparr>))"
  by (simp_all add: add_log_def own_jobs_def tracked_def)

lemma edited_unparked:
  fixes s :: "'a sched_scheme"
  assumes "none_parked s" "zones_known zs (programs s) ps" "\<forall>i \<in> set zs. \<not> parked s i"
  shows "none_parked (add_log ty js (s\<lparr>programs := ps\<rparr>))"
proof -
  have "parked (add_log ty js (s\<lparr>programs := ps\<rparr>)) i = parked s i" for i by (simp add: parked_def add_log_def)
  moreover have "\<forall>i \<in> set (prog_zones q). \<not> parked s i" if q: "q \<in> set ps" for q
  proof -
    consider "prog_zones q = zs" | p where "p \<in> set (programs s)" "prog_zones q = prog_zones p"
      using assms(2) q by (auto simp: zones_known_def)
    then show ?thesis using assms(1,3) by cases (simp_all add: none_parked_def)
  qed
  ultimately show ?thesis by (simp add: none_parked_def edited_fields)
qed

lemma log_fields:
  "programs (add_log ty js s) = programs s" "own_jobs i (add_log ty js s) = own_jobs i s"
  "tracked s \<Longrightarrow> tracked (add_log ty js s)" "none_parked (add_log ty js s) = none_parked s"
  by (simp_all add: add_log_def own_jobs_def tracked_def none_parked_def parked_def)

lemma in_step_answer:
  assumes "cron_accepts accepts" "in_step s" "\<forall>i \<in> set zs. \<not> parked s i" "answered accepts zs s (r, s')"
  shows "in_step s'"
  using assms(4)
proof (rule answeredE)
  fix i ty js
  let ?t = "add_log ty js (s\<lparr>programs := filter (\<lambda>p. prog_id p \<noteq> i) (programs s)\<rparr>)"
  assume s': "s' = cancel_program i ?t"
  have "none_parked ?t" using assms(2) by (intro edited_unparked [where zs = "[]"]) (auto simp: in_step_def zones_known_def)
  then show "in_step s'"
    using table.due_after_drop [of ?t accepts s i] assms(1,2)
    by (simp add: s' in_step_def edited_fields tracked_cancel)
next
  fix p ps ty js
  let ?t = "add_log ty js (s\<lparr>programs := ps\<rparr>)"
  assume s': "s' = schedule_program accepts p ?t" and row: "row_replaced p (programs s) ps" and "zones_known zs (programs s) ps"
  then have "none_parked ?t" using assms(2,3) by (intro edited_unparked [where zs = zs]) (simp_all add: in_step_def)
  then show "in_step s'"
    using table.due_after_plan [of ?t accepts s p] assms(1,2) row
    by (simp add: s' in_step_def edited_fields tracked_schedule_program schedule_unparked)
qed (use assms(2) in \<open>simp_all add: in_step_def log_fields\<close>)

lemma in_step_life:
  assumes "program_life accepts s s'" "cron_accepts accepts" "in_step s"
  shows "in_step s'"
  using assms
proof (induction rule: program_life.induct)
  case (life_request rq s)
  obtain r s' where "answer_program accepts rq s = (r, s')" by (cases "answer_program accepts rq s")
  then show ?case
    using in_step_answer [OF life_request.prems life_request.hyps] every_answer [of accepts rq s] by simp
next
  case (life_restart s s1)
  then show ?case using restart_boots in_step_load by blast
qed (simp add: in_step_def)

text \<open>
  C26: the job table follows the program table.  After a boot that plans every stored program (on an empty job
  store, or on kept start jobs that the plans write again), and after any requests (saved, edited, deleted,
  copied or switched programs, refused or not) and restarts in any order with anything else in between, a
  program without a row or with a disabled one has no start job, and an enabled weekday program with zones,
  days and a valid time has exactly its weekly starts.  No program lists a zone taken out of service, and at
  a restart the enabled programs are such weekday programs.
\<close>

theorem jobs_follow_programs:
  assumes "cron_accepts accepts" "boot_state accepts s" "(program_life accepts)\<^sup>*\<^sup>* (load_programs accepts s) s'"
  shows "jobs_due (row_at prog_id (programs s') i) (own_jobs i s')"
proof -
  have "in_step (load_programs accepts s)" using assms(1,2) by (rule in_step_load)
  with assms(3) have "in_step s'" by (induction rule: rtranclp_induct) (simp_all add: in_step_life [OF _ assms(1)])
  then show ?thesis by (simp add: in_step_def)
qed

text \<open>
  C12: a cancelled or switched-off program never starts again by itself.  After a boot on an empty job store, or on
  kept start jobs that the plans of the stored programs write again, and in every scheduler reached
  from there by any sequence of calls, firing jobs, valve operations and database edits, cancelling a program
  removes every start job of it, at every slot and day, and nothing else; planning a disabled
  program does the same.
\<close>

theorem cancelled_program_has_no_jobs:
  assumes "cron_accepts accepts" "boot_state accepts s0" "sched_step\<^sup>*\<^sup>* (load_programs accepts s0) s"
  shows "own_jobs pid (cancel_program pid s) = {} \<and> other_jobs pid (cancel_program pid s) = other_jobs pid s
    \<and> (prog_enabled p \<or> own_jobs (prog_id p) (schedule_program accepts p s) = {}
         \<and> other_jobs (prog_id p) (schedule_program accepts p s) = other_jobs (prog_id p) s)"
proof -
  have "tracked (load_programs accepts s0)" using in_step_load [OF assms(1,2)] by (simp add: in_step_def)
  then have t: "tracked s" by (rule tracked_reachable [OF assms(3)])
  have "\<not> prog_enabled p \<Longrightarrow> schedule_program accepts p s = cancel_program (prog_id p) s"
    by (simp add: schedule_program_def)
  then show ?thesis using cancel_own_jobs [OF t] by (cases "prog_enabled p") simp_all
qed

text \<open>A kept start job that no plan writes again is known to nobody: cancelling its program leaves it.\<close>

lemma kept_job_survives_cancel:
  "program_jobs s pid = None \<Longrightarrow> own_jobs pid (cancel_program pid s) = own_jobs pid s"
  by (rule own_jobs_cong) (rule cancel_unknown)

definition demo_cron :: "trigger \<Rightarrow> bool" where
  "demo_cron t = (case t of Cron_Weekday d h m \<Rightarrow> 0 \<le> d \<and> d \<le> 6 \<and> valid_hm h m | _ \<Rightarrow> False)"

lemma demo_cron_accepts: "cron_accepts demo_cron"
  by (simp add: cron_accepts_def demo_cron_def)

definition demo_table :: sched where "demo_table = (fresh_sched demo_world)\<lparr>programs := [weekday_program]\<rparr>"

lemma db_up_put_start [simp]: "db_up (put_start e s) = db_up s"
  by (simp add: put_start_def frame_simps)

lemma db_up_schedule [simp]: "db_up (schedule_program accepts p s) = db_up s"
proof -
  have c: "db_up (cancel_program i t) = db_up t" for i and t :: "'a sched_scheme"
  proof -
    have "db_up (fold remove_job is u) = db_up u" for "is" and u :: "'a sched_scheme"
      by (induction "is" arbitrary: u) (simp_all add: remove_job_def)
    then show ?thesis by (simp add: cancel_program_def Let_def)
  qed
  have f: "db_up (fold put_start es t) = db_up t" for es and t :: "'a sched_scheme"
    by (induction es arbitrary: t) simp_all
  show ?thesis
    by (cases rule: schedule_program_cases [of p accepts s]) (simp_all add: Let_def c with_starts_def f)
qed

lemma db_up_load: "db_up s \<Longrightarrow> db_up (load_programs accepts s)"
proof -
  have "db_up (fold (schedule_program accepts) ps s) = db_up s" for ps by (induction ps arbitrary: s) simp_all
  then show "db_up s \<Longrightarrow> db_up (load_programs accepts s)" by (simp add: load_programs_def)
qed

text \<open>The demo table at its first boot, and the same after a restart on the jobs that boot planned.\<close>

lemma demo_boot: "boot_state demo_cron demo_table"
proof -
  have "none_parked demo_table"
    by (simp add: none_parked_def parked_def demo_table_def weekday_program_def)
  then show ?thesis by (simp add: boot_state_def demo_table_def renewable_def own_jobs_def split: option.splits)
qed

definition demo_restart :: sched where
  "demo_restart = (load_programs demo_cron demo_table)
     \<lparr>jobs := filter (\<lambda>j. j_store j = Default_Store) (jobs (load_programs demo_cron demo_table)), program_jobs := (\<lambda>_. None)\<rparr>"

lemma weekday_program_regular: "regular weekday_program"
proof -
  have "parse_hhmm ''06:30'' = Some (6, 30)" "valid_hm 6 30" by code_simp+
  then show ?thesis by (simp add: regular_def weekday_program_def)
qed

lemma demo_restarted:
  "all_regular (programs (load_programs demo_cron demo_table))" "restarted (load_programs demo_cron demo_table) demo_restart"
proof -
  have "none_parked demo_table" using demo_boot by (simp add: boot_state_def)
  then show "all_regular (programs (load_programs demo_cron demo_table))"
    using schedule_unparked [of demo_table demo_cron weekday_program] weekday_program_regular
    by (simp add: load_programs_def get_programs_def demo_table_def all_regular_def)
  have "db_up (load_programs demo_cron demo_table)" by (simp add: load_programs_def get_programs_def demo_table_def)
  then show "restarted (load_programs demo_cron demo_table) demo_restart"
    by (simp add: restarted_def demo_restart_def parked_def)
qed

theorem jobs_follow_programs_witness:
  "own_jobs 4 (snd (answer_program demo_cron (Q_delete 4) (load_programs demo_cron demo_restart))) = {}"
proof -
  let ?t = "load_programs demo_cron demo_table" and ?r = "load_programs demo_cron demo_restart"
  let ?s = "snd (answer_program demo_cron (Q_delete 4) ?r)"
  have "program_life demo_cron ?t ?r" by (rule life_restart [OF demo_restarted])
  moreover have "program_life demo_cron ?r ?s" by (rule life_request) simp
  ultimately have life: "(program_life demo_cron)\<^sup>*\<^sup>* ?t ?s" by (meson converse_rtranclp_into_rtranclp r_into_rtranclp)
  have "jobs_due (row_at prog_id (programs ?s) 4) (own_jobs 4 ?s)"
    by (rule jobs_follow_programs [OF demo_cron_accepts demo_boot life])
  moreover have "db_up demo_restart" by (simp add: demo_restart_def load_programs_def get_programs_def demo_table_def)
  then have "db_up ?r" by (rule db_up_load)
  then have "row_at prog_id (programs ?s) 4 = None"
    by (simp add: delete_program_api_def delete_program_def row_at_filter_other log_fields)
  ultimately show ?thesis by (simp add: jobs_due_def)
qed

theorem cancelled_program_has_no_jobs_witness:
  "own_jobs 4 (cancel_program 4 (schedule_program demo_cron weekday_program (load_programs demo_cron demo_table))) = {}"
proof -
  have "sched_step\<^sup>*\<^sup>* (load_programs demo_cron demo_table) (schedule_program demo_cron weekday_program (load_programs demo_cron demo_table))"
    by (rule r_into_rtranclp) (rule st_plan)
  from cancelled_program_has_no_jobs [OF demo_cron_accepts demo_boot this, of 4] show ?thesis by blast
qed

theorem refused_program_request_witness:
  "snd (answer_program demo_cron (Q_toggle 9 None) demo_table) = demo_table"
  using refused_program_request [of demo_cron "Q_toggle 9 None" demo_table "Refused_Request 400" demo_table]
  by (simp add: toggle_program_api_def)

subsection \<open>The days of a saved program\<close>

lemma set_prog_cols_snoc: "set_prog_cols (us @ [u]) p = set_prog_col u (set_prog_cols us p)"
  by (simp add: set_prog_cols_def)

lemma days_of_updates:
  assumes "P_days (map Some ds) \<in> set us" "\<forall>v. P_days v \<in> set us \<longrightarrow> v = map Some ds"
  shows "prog_days (set_prog_cols us p) = shift_days ds"
  using assms
proof (induction us rule: rev_induct)
  case (snoc u us)
  show ?case
  proof (cases "\<exists>v. u = P_days v")
    case True
    then obtain v where u: "u = P_days v" by blast
    then have "v = map Some ds" using snoc.prems(2) by simp
    then show ?thesis by (simp add: u set_prog_cols_snoc)
  next
    case False
    then have "prog_days (set_prog_col u q) = prog_days q" for q by (cases u) simp_all
    moreover have "P_days (map Some ds) \<in> set us" using snoc.prems(1) False by auto
    then have "prog_days (set_prog_cols us p) = shift_days ds" by (rule snoc.IH) (use snoc.prems(2) in simp)
    ultimately show ?thesis by (simp add: set_prog_cols_snoc)
  qed
qed simp

lemma shift_page_days:
  assumes "set ds \<subseteq> {0..6}"
  shows "shift_days ds = (if ds = [] \<or> 0 \<in> set ds then ds else map (\<lambda>d. d - 1) ds)"
proof (cases "ds = [] \<or> 0 \<in> set ds")
  case False
  moreover have "set ds \<subseteq> {1..6}"
  proof
    fix x assume "x \<in> set ds"
    then have "0 \<le> x" "x \<le> 6" "x \<noteq> 0" using assms False by auto
    then show "x \<in> {1..6}" by simp
  qed
  ultimately show ?thesis by (simp add: shift_days_moves)
qed (simp add: shift_days_keeps)

text \<open>
  Days saved without Monday come out one day early.  The page sends days counted from Monday 0.  What a new
  or an edited program stores, and is planned for, is that list only when it is empty or contains Monday;
  otherwise every day is moved to the day before, while the overlap check has looked at the days as sent.
\<close>

theorem saved_days_shift:
  assumes "answer_program accepts rq s = (Saved p, s')" "rq = Q_create b \<or> rq = Q_put i b"
    "pb_days b = Some (map J_Int ds)" "set ds \<subseteq> {0..6}"
  shows "check_days (map J_Int ds) = ds
    \<and> prog_days p = (if ds = [] \<or> 0 \<in> set ds then ds else map (\<lambda>d. d - 1) ds)"
proof
  have j: "json_int (J_Int d) = Some d" for d by simp
  have days: "map (json_int \<circ> J_Int) ds = map Some ds" by (simp add: comp_def j)
  have "\<not> list_ex (\<lambda>d. json_int d = None) (map J_Int ds)" by (simp add: list_ex_iff)
  moreover have "List.map_filter json_int (map J_Int ds) = ds" by (induction ds) (simp_all add: List.map_filter_simps)
  ultimately show "check_days (map J_Int ds) = ds" by (simp add: check_days_def)
  have "prog_days p = shift_days ds"
    using assms(2)
  proof
    assume "rq = Q_create b"
    then obtain nm tm zs s1 where c: "create_program (body_request nm tm zs b) s = (Some p, s1)"
      using assms(1) by (auto simp: create_program_api_def Let_def split: option.splits if_splits prod.splits)
    then have "db_up s" by (cases "db_up s") (simp_all add: create_program_def)
    from create_program_days [OF this, of "body_request nm tm zs b"] show ?thesis
      by (simp add: c) (simp add: body_request_def assms(3) days)
  next
    assume "rq = Q_put i b"
    then obtain s1 where u: "update_program i (body_updates b) s = (Some p, s1)"
      using assms(1) by (auto simp: put_program_api_def Let_def split: option.splits if_splits prod.splits)
    obtain q where p: "p = set_prog_cols (body_updates b) q"
      using u by (auto simp: update_program_def get_program_def prog_rows.row_at_upd_key Let_def split: if_splits)
    have "P_days (map Some ds) \<in> set (body_updates b)" by (simp add: body_updates_def opt_upd_def assms(3) days)
    moreover have "\<forall>v. P_days v \<in> set (body_updates b) \<longrightarrow> v = map Some ds"
      by (auto simp: body_updates_def opt_upd_def assms(3) days split: option.splits)
    ultimately show ?thesis unfolding p by (rule days_of_updates)
  qed
  then show "prog_days p = (if ds = [] \<or> 0 \<in> set ds then ds else map (\<lambda>d. d - 1) ds)"
    by (simp add: shift_page_days [OF assms(4)])
qed

definition demo_body :: program_body where
  "demo_body = \<lparr>pb_name = None, pb_time = Some ''06:30'', pb_days = Some (map J_Int [1, 3]), pb_zones = Some [2, 1], pb_type = None,
     pb_schedule = None, pb_interval = None, pb_even_odd = None, pb_color = None, pb_enabled = None, pb_extra = None\<rparr>"

theorem saved_days_shift_witness:
  "\<exists>p s'. answer_program demo_cron (Q_put 4 demo_body) demo_table = (Saved p, s') \<and> prog_days p = [0, 2]"
proof -
  have up: "update_program 4 (body_updates demo_body) demo_table
      = (Some (set_prog_cols (body_updates demo_body) weekday_program),
         demo_table\<lparr>programs := [set_prog_cols (body_updates demo_body) weekday_program]\<rparr>)"
    by (simp add: update_program_def get_program_def demo_table_def prog_rows.key_upd Let_def)
      (simp add: weekday_program_def)
  have "conflicts_of (Some 4) ''06:30'' [2, 1] (map J_Int [1, 3]) demo_table = []"
    by (simp add: conflicts_of_def check_program_conflicts_def others_def truthy_int_def int_or0_def demo_table_def Let_def
        weekday_program_def split: option.split)
  then obtain p s' where a: "answer_program demo_cron (Q_put 4 demo_body) demo_table = (Saved p, s')"
    using up by (simp add: put_program_api_def) (simp add: demo_body_def)
  then have "prog_days p = [0, 2]"
    using saved_days_shift [OF a, of demo_body 4 "[1, 3]"] by (simp add: demo_body_def)
  then show ?thesis using a by blast
qed

end
