(* ===== verification/Next_Watering.thy ===== *)
theory Next_Watering
  imports Zones_Api Program_Laws Settings "HOL-Library.Multiset"
begin

text \<open>
  The two computations of the next watering.  For a zone that is neither postponed nor cancelled they
  agree, except in the minute in which the zone's turn comes: then the list says "never".
\<close>

subsection \<open>Start times\<close>

lemma weekday_same_day: "weekday (day_start now + 86400 * k) = weekday (now + 86400 * k)"
  by (simp add: weekday_def day_of_def day_start_def add.commute)

text \<open>The least day of a search, when the search is a \<open>find\<close>.\<close>

definition hits :: "int list \<Rightarrow> time \<Rightarrow> (nat \<Rightarrow> bool) \<Rightarrow> nat \<Rightarrow> bool" where
  "hits days now P k = (weekday (now + 86400 * int k) \<in> set days \<and> P k)"

lemma start_search_find:
  assumes "valid_hm h m"
  shows "start_search days h m now off n =
    Inr (map_option (\<lambda>k. at_hm (now + 86400 * int k) h m)
      (List.find (hits days now (\<lambda>k. now < at_hm (now + 86400 * int k) h m)) [off..<off + n]))"
proof (induction n arbitrary: off)
  case (Suc n)
  have "[off..<off + Suc n] = off # [Suc off..<Suc off + n]" by (simp add: upt_conv_Cons)
  then show ?case using assms Suc [of "Suc off"] by (simp add: Let_def hits_def del: upt_Suc)
qed simp

lemma first_slot_find:
  assumes "days \<noteq> []"
  shows "first_slot days False today now mins off n =
    map_option (\<lambda>k. day_start now + 86400 * int k + minutes mins)
      (List.find (hits days now (\<lambda>k. now < day_start now + 86400 * int k + minutes mins)) [off..<off + n])"
proof (induction n arbitrary: off)
  case (Suc n)
  have "[off..<off + Suc n] = off # [Suc off..<Suc off + n]" by (simp add: upt_conv_Cons)
  then show ?case using assms Suc [of "Suc off"] by (simp add: Let_def hits_def weekday_same_day not_le del: upt_Suc)
qed simp

text \<open>After the first day every start lies in the future, so only the first day's condition matters.\<close>

lemma find_after_first:
  assumes "\<And>k. 1 \<le> k \<Longrightarrow> P k"
  shows "List.find (hits days now P) [0..<14] =
    (if hits days now P 0 then Some 0 else List.find (hits days now (\<lambda>_. True)) [1..<14])"
proof -
  have "List.find (hits days now P) [1..<14] = List.find (hits days now (\<lambda>_. True)) [1..<14]"
    by (intro find_cong refl) (auto simp: hits_def assms)
  moreover have "[0..<14] = 0 # [1..<14]" by (simp add: upt_conv_Cons)
  ultimately show ?thesis by simp
qed

lemma later_day: "1 \<le> k \<Longrightarrow> 0 \<le> c \<Longrightarrow> now < day_start now + 86400 * int k + c"
  using day_start_bounds [of now] by auto

subsection \<open>Both readers of a start time\<close>

lemma split_on_Nil: "split_on c s \<noteq> []"
  by (induction s) (auto split: list.split)

lemma split_on_single: "split_on c s = [b] \<Longrightarrow> b = s \<and> c \<notin> set s"
proof (induction s arbitrary: b)
  case (Cons x s)
  obtain p ps where "split_on c s = p # ps" using split_on_Nil [of c s] by (cases "split_on c s") auto
  then show ?case using Cons by (auto split: if_splits)
qed simp

lemma split_on_two: "split_on c s = [a, b] \<Longrightarrow> split_once c s = [a, b]"
proof (induction s arbitrary: a)
  case (Cons x s)
  obtain p ps where p: "split_on c s = p # ps" using split_on_Nil [of c s] by (cases "split_on c s") auto
  show ?case
  proof (cases "x = c")
    case True
    then have "split_on c s = [b]" "a = []" using Cons.prems by auto
    then show ?thesis using True split_on_single [of c s b] by (simp add: split_once_def)
  next
    case False
    then have a: "a = x # p" "ps = [b]" using Cons.prems p by auto
    then have "split_once c s = [p, b]" using Cons.IH p by simp
    then show ?thesis using False a by (auto simp: split_once_def Let_def split: if_splits)
  qed
qed simp

lemma digits_val_digits: "digits_val s acc = Some n \<Longrightarrow> list_all (\<lambda>c. digit_val c \<noteq> None) s"
  by (induction s acc rule: digits_val.induct) (auto split: option.splits)

lemma short_num_py_int: "short_num n s = Some k \<Longrightarrow> py_int s = Some k"
  using digits_val_digits [of s 0 k]
  by (auto simp: short_num_def nat_of_digits_def py_int_digits is_digit_string_def split: if_splits)

lemma strptime_once:
  assumes "strptime_hm s = Some (h, m)"
  shows "parse_hhmm_once s = Some (h, m) \<and> valid_hm h m \<and> s \<noteq> []"
proof -
  obtain hs ms where s: "split_on (CHR '':'') s = [hs, ms]" "short_num 2 hs = Some h" "short_num 2 ms = Some m" "valid_hm h m"
    using assms by (auto simp: strptime_hm_def split: list.splits option.splits if_splits)
  then have "parse_hhmm_once s = Some (h, m)"
    using split_on_two [OF s(1)] by (simp add: parse_hhmm_once_def short_num_py_int)
  moreover have "s \<noteq> []" using s(1) by auto
  ultimately show ?thesis using s(4) by simp
qed

subsection \<open>Where the zone stands\<close>

lemma zone_dur_get: "db_up d \<Longrightarrow> get_zone_duration d j = Some n \<Longrightarrow> zone_dur (zones d) j = n"
  by (auto simp: get_zone_duration_def zone_dur_def split: option.splits)

lemma zone_offset_absent: "i \<notin> set js \<Longrightarrow> zone_offset zs i js cum found = found"
  by (induction js arbitrary: cum) auto

text \<open>In a list without repetitions both walks stop at the same sum, within the length of the program.\<close>

lemma zone_offset_minutes:
  assumes "db_up d" "\<forall>j. \<exists>n. get_zone_duration d j = Some n \<and> 0 \<le> n" "i \<in> set js" "distinct js"
  shows "\<exists>c. minutes_before d i js cum = Inr (Some c) \<and> zone_offset (zones d) i js cum found = Some c
    \<and> cum \<le> c \<and> c \<le> cum + total_dur (zones d) js"
  using assms(3,4)
proof (induction js arbitrary: cum found)
  case (Cons j js)
  obtain n where n: "get_zone_duration d j = Some n" "0 \<le> n" using assms(2) by blast
  have dur: "zone_dur (zones d) j = n" using zone_dur_get [OF assms(1) n(1)] .
  have pos: "0 \<le> total_dur (zones d) js" for js
  proof -
    have "0 \<le> zone_dur (zones d) k" for k using assms(2) zone_dur_get [OF assms(1), of k] by fastforce
    then show ?thesis by (auto simp: total_dur_def intro!: sum_list_nonneg)
  qed
  show ?case
  proof (cases "j = i")
    case True
    then have "zone_dur (zones d) i = n" using dur by simp
    then show ?thesis using True Cons.prems(2) pos [of js] n(2) by (simp add: zone_offset_absent total_dur_def)
  next
    case False
    then obtain c where "minutes_before d i js (cum + n) = Inr (Some c)"
      "zone_offset (zones d) i js (cum + n) found = Some c" "cum + n \<le> c" "c \<le> cum + n + total_dur (zones d) js"
      using Cons by fastforce
    then show ?thesis using False n by (simp add: dur total_dur_def)
  qed
qed simp

lemma total_dur_sort: "total_dur zs (sort is) = total_dur zs is"
proof -
  have "mset (map (zone_dur zs) (sort is)) = mset (map (zone_dur zs) is)" by (simp only: mset_map mset_sort)
  then show ?thesis unfolding total_dur_def by (metis sum_mset_sum_list)
qed

subsection \<open>One program\<close>

text \<open>A program both computations can read; the zone is listed once.\<close>

definition readable :: "program \<Rightarrow> bool" where
  "readable p = (strptime_hm (prog_time p) \<noteq> None \<and> prog_days p \<noteq> [] \<and> distinct (prog_zones p))"

text \<open>The program is running, and the zone's turn comes in this minute.\<close>

definition turn_now :: "'a db_scheme \<Rightarrow> time \<Rightarrow> int \<Rightarrow> program \<Rightarrow> bool" where
  "turn_now d now i p =
     (\<exists>h m c. strptime_hm (prog_time p) = Some (h, m) \<and> weekday now \<in> set (prog_days p)
        \<and> minutes_before d i (sort (prog_zones p)) 0 = Inr (Some c)
        \<and> 0 \<le> now - at_hm now h m - minutes c \<and> now - at_hm now h m - minutes c < 60
        \<and> now < at_hm now h m + minutes (total_dur (zones d) (prog_zones p)))"

text \<open>The first matching day from tomorrow on.\<close>

definition later_day :: "int list \<Rightarrow> time \<Rightarrow> nat option" where
  "later_day days now = List.find (hits days now (\<lambda>_. True)) [1..<14]"

lemma later_day_after:
  assumes "later_day days now = Some k" "valid_hm h m" "0 \<le> c"
  shows "now < at_hm (now + 86400 * int k) h m + minutes c"
proof -
  have "1 \<le> k" using assms(1) by (auto simp: later_day_def find_Some_iff)
  then show ?thesis
    using later_day [of k "3600 * h + 60 * m + minutes c" now] assms(2,3)
    by (simp add: at_hm_days) (simp add: at_hm_def valid_hm_def minutes_def algebra_simps)
qed

lemma first_slot_form:
  assumes "days \<noteq> []" "valid_hm h m" "0 \<le> c"
  shows "first_slot days False today now (60 * h + m + c) 0 14 =
    map_option (\<lambda>k. at_hm (now + 86400 * int k) h m + minutes c)
      (if weekday now \<in> set days \<and> now < at_hm now h m + minutes c then Some 0 else later_day days now)"
proof -
  have at_k: "day_start now + 86400 * int k + minutes (60 * h + m + c) = at_hm (now + 86400 * int k) h m + minutes c" for k
    by (simp add: at_hm_days) (simp add: at_hm_def minutes_def algebra_simps)
  have "now < at_hm (now + 86400 * int k) h m + minutes c" if "1 \<le> k" for k
    using later_day [OF that, of "3600 * h + 60 * m + minutes c" now] assms(2,3)
    by (simp add: at_hm_days) (simp add: at_hm_def valid_hm_def minutes_def algebra_simps)
  then show ?thesis
    using find_after_first [of "\<lambda>k. now < at_hm (now + 86400 * int k) h m + minutes c" days now]
    by (simp add: first_slot_find [OF assms(1)] at_k later_day_def hits_def del: upt_Suc)
qed

lemma start_search_form:
  assumes "valid_hm h m"
  shows "start_search days h m now 0 14 =
    Inr (map_option (\<lambda>k. at_hm (now + 86400 * int k) h m)
      (if weekday now \<in> set days \<and> now < at_hm now h m then Some 0 else later_day days now))"
proof -
  have "now < at_hm (now + 86400 * int k) h m" if "1 \<le> k" for k
    using later_day [OF that, of "3600 * h + 60 * m" now] assms
    by (simp add: at_hm_days) (simp add: at_hm_def valid_hm_def algebra_simps)
  then show ?thesis
    using find_after_first [of "\<lambda>k. now < at_hm (now + 86400 * int k) h m" days now]
    by (simp add: start_search_find [OF assms] later_day_def hits_def del: upt_Suc)
qed

lemma bulk_info_form:
  fixes now :: time and zs :: "zone list"
  assumes "bulk_time p = Some (h, m)" "valid_hm h m"
  defines "T \<equiv> at_hm now h m" and "D \<equiv> weekday now \<in> set (prog_days p)" and "len \<equiv> total_dur zs (prog_zones p)"
  shows "\<exists>b. bulk_info zs now p = Inr b
    \<and> bi_next b = map_option (\<lambda>k. at_hm (now + 86400 * int k) h m) (if D \<and> now < T then Some 0 else later_day (prog_days p) now)
    \<and> bi_today b = (if D then Some T else None)
    \<and> bi_running b = (D \<and> T \<le> now \<and> 0 < len \<and> now < T + minutes len)
    \<and> (bi_running b \<longrightarrow> bi_elapsed b = (now - T) div 60)"
  unfolding T_def D_def len_def bulk_info_def
  by (simp add: assms(1,2) start_search_form Let_def)

lemma candidates_agree:
  assumes "db_up d" "\<forall>j. \<exists>n. get_zone_duration d j = Some n \<and> 0 \<le> n" "readable p"
    "get_zone d i = Some z" "effective_now z now = now" "\<not> cancelled_today d p today (zone_gid z)"
    "\<not> cancelled_today d p (day_of now) (zone_gid z)" "\<not> turn_now d now i p"
  shows "\<exists>b c. bulk_info (zones d) now p = Inr b \<and> single_candidate d z today now p = Inr c
    \<and> bulk_candidate d (zones d) now i (p, b) = Inr c \<and> (\<forall>t. c = Some t \<longrightarrow> now < t)"
proof -
  obtain h m where hm: "strptime_hm (prog_time p) = Some (h, m)" using assms(3) by (auto simp: readable_def)
  have v: "valid_hm h m" and bt: "bulk_time p = Some (h, m)" using strptime_once [OF hm] by (simp_all add: bulk_time_def)
  define T where "T = at_hm now h m"
  define D where "D = (weekday now \<in> set (prog_days p))"
  obtain b where b: "bulk_info (zones d) now p = Inr b"
    "bi_next b = map_option (\<lambda>k. at_hm (now + 86400 * int k) h m) (if D \<and> now < T then Some 0 else later_day (prog_days p) now)"
    "bi_today b = (if D then Some T else None)"
    "bi_running b = (D \<and> T \<le> now \<and> 0 < total_dur (zones d) (prog_zones p)
       \<and> now < T + minutes (total_dur (zones d) (prog_zones p)))"
    "bi_running b \<longrightarrow> bi_elapsed b = (now - T) div 60"
    using bulk_info_form [OF bt v, where now = now and zs = "zones d"] unfolding T_def [symmetric] D_def [symmetric] by blast
  have z: "zid z = i" "row_at zid (zones d) i = Some z"
    using assms(4) get_zone_id [OF assms(4)] by (auto simp: get_zone_def split: if_splits)
  show ?thesis
  proof (cases "i \<in> set (prog_zones p)")
    case False
    then show ?thesis using b(1) z by (auto simp: single_candidate_def bulk_candidate_def zone_offset_absent)
  next
    case True
    have days: "prog_days p \<noteq> []" using assms(3) by (simp add: readable_def)
    obtain c where c: "minutes_before d i (sort (prog_zones p)) 0 = Inr (Some c)"
      "zone_offset (zones d) i (sort (prog_zones p)) 0 None = Some c" "0 \<le> c" "c \<le> total_dur (zones d) (prog_zones p)"
      using zone_offset_minutes [OF assms(1,2), of i "sort (prog_zones p)" 0 None] True assms(3)
      by (auto simp: readable_def total_dur_sort)
    let ?l = "map_option (\<lambda>k. at_hm (now + 86400 * int k) h m + minutes c) (later_day (prog_days p) now)"
    have single: "single_candidate d z today now p = Inr (if D \<and> now < T + minutes c then Some (T + minutes c) else ?l)"
      using True c(1) assms(6) z(1)
      by (simp add: single_candidate_def hm first_slot_form [OF days v c(3)] D_def T_def)
    have later: "now < t" if "?l = Some t" for t using that later_day_after [OF _ v c(3)] by auto
    have form: "bulk_candidate d (zones d) now i (p, b) =
        Inr (if bi_running b then
               (if bi_elapsed b \<le> c then (if T + minutes c \<le> now then None else Some (T + minutes c))
                else case bi_next b of None \<Rightarrow> None | Some t \<Rightarrow> if t + minutes c \<le> now then None else Some (t + minutes c))
             else case bi_next b of None \<Rightarrow> None | Some t \<Rightarrow> if t + minutes c \<le> now then None else Some (t + minutes c))"
      using assms(7) b(3,4) by (simp add: bulk_candidate_def c(2) z(2) assms(5) Let_def split: option.split)
    have next_later: "(case map_option (\<lambda>k. at_hm (now + 86400 * int k) h m) (later_day (prog_days p) now) of
        None \<Rightarrow> None | Some t \<Rightarrow> if t + minutes c \<le> now then None else Some (t + minutes c)) = ?l"
      using later by (cases "later_day (prog_days p) now") auto
    have bulk: "bulk_candidate d (zones d) now i (p, b) =
        Inr (if D \<and> now < T + minutes c then Some (T + minutes c) else ?l)"
    proof (cases "D \<and> T \<le> now")
      case False
      then have "\<not> bi_running b" by (auto simp: b(4))
      moreover have "D \<Longrightarrow> now < T + minutes c" using False c(3) by (simp add: minutes_def)
      ultimately show ?thesis using False next_later c(3) by (auto simp: form b(2) T_def [symmetric] minutes_def)
    next
      case True
      have next_T: "bi_next b = map_option (\<lambda>k. at_hm (now + 86400 * int k) h m) (later_day (prog_days p) now)"
        using True by (simp add: b(2))
      show ?thesis
      proof (cases "now < T + minutes c")
        case coming: True
        then have "bi_running b" using True c(3,4) by (simp add: b(4) minutes_def)
        moreover have "(now - T) div 60 \<le> c" using coming by (simp add: minutes_def) 
        ultimately show ?thesis using b(5) True coming by (simp add: form)
      next
        case passed: False
        have "\<not> bi_elapsed b \<le> c" if "bi_running b"
          using that b(4,5) passed assms(8) hm c(1) by (auto simp: turn_now_def T_def D_def minutes_def)
        then show ?thesis using passed next_later by (simp add: form next_T)
      qed
    qed
    have "now < t" if "(if D \<and> now < T + minutes c then Some (T + minutes c) else ?l) = Some t" for t
      using that later by (auto split: if_splits)
    then show ?thesis using b(1) single bulk by blast
  qed
qed

subsection \<open>All programs\<close>

text \<open>The hypotheses of the comparison, from the moment the search starts.\<close>

definition comparable :: "'a db_scheme \<Rightarrow> int \<Rightarrow> zone \<Rightarrow> int \<Rightarrow> time \<Rightarrow> bool" where
  "comparable d i z today now =
     (effective_now z now = now
      \<and> (\<forall>p \<in> set (programs d). readable p \<and> \<not> cancelled_today d p today (zone_gid z)
           \<and> \<not> cancelled_today d p (day_of now) (zone_gid z) \<and> \<not> turn_now d now i p))"

lemma searches_agree:
  assumes "db_up d" "\<forall>j. \<exists>n. get_zone_duration d j = Some n \<and> 0 \<le> n" "get_zone d i = Some z" "effective_now z now = now"
    "\<forall>p \<in> set ps. readable p \<and> \<not> cancelled_today d p today (zone_gid z)
       \<and> \<not> cancelled_today d p (day_of now) (zone_gid z) \<and> \<not> turn_now d now i p"
    "\<forall>t q. best = Some (t, q) \<longrightarrow> now < t"
  shows "\<exists>r bs. single_search d z today now ps best = Inr r \<and> all_infos (zones d) now ps = Inr bs
    \<and> bulk_search d (zones d) now i bs (map_option fst best) = Inr (map_option fst r) \<and> (\<forall>t q. r = Some (t, q) \<longrightarrow> now < t)"
  using assms(5,6)
proof (induction ps arbitrary: best)
  case (Cons p ps)
  obtain b c where bc: "bulk_info (zones d) now p = Inr b" "single_candidate d z today now p = Inr c"
    "bulk_candidate d (zones d) now i (p, b) = Inr c" "\<forall>t. c = Some t \<longrightarrow> now < t"
    using candidates_agree [OF assms(1,2) _ assms(3,4), of p today] Cons.prems(1) by auto
  define best' where "best' = (case c of None \<Rightarrow> best
    | Some t \<Rightarrow> (case best of None \<Rightarrow> Some (t, p) | Some (u, q) \<Rightarrow> if t < u then Some (t, p) else Some (u, q)))"
  have "\<forall>t q. best' = Some (t, q) \<longrightarrow> now < t"
    using Cons.prems(2) bc(4) by (auto simp: best'_def split: option.splits if_splits)
  then obtain r bs where "single_search d z today now ps best' = Inr r" "all_infos (zones d) now ps = Inr bs"
    "bulk_search d (zones d) now i bs (map_option fst best') = Inr (map_option fst r)" "\<forall>t q. r = Some (t, q) \<longrightarrow> now < t"
    using Cons.IH [of best'] Cons.prems(1) by auto
  moreover have "map_option fst best' = min_opt (map_option fst best) c"
    by (auto simp: best'_def min_opt_def split: option.split)
  moreover have "single_search d z today now (p # ps) best = single_search d z today now ps best'"
    by (simp add: bc(2) best'_def split: option.split)
  ultimately show ?case by (simp add: bc(1,3))
qed simp

text \<open>
  C29: the card and the list show the same next watering.  When the zone is not postponed at the moment the search
  starts, no program is cancelled for its group today or on the day the search starts, every id has a
  duration that is not negative, and every program has a readable time, days and distinct zones (\<open>readable\<close>),
  both requests give the same time, later than now and, when the weather skips today, not today; outside
  the minute in which a running program reaches the zone.
\<close>

theorem next_waterings_agree:
  assumes "db_up d" "\<forall>j. \<exists>n. get_zone_duration d j = Some n \<and> 0 \<le> n" "get_zone d i = Some z"
    "comparable d i z (day_of now) (search_from skip now)"
  shows "\<exists>r. single_next d z skip now = Inr r
    \<and> next_watering_bulk_api d [i] skip now = Inr [(i, map_option fst r)]
    \<and> (\<forall>t p. r = Some (t, p) \<longrightarrow> now < t \<and> (skip \<longrightarrow> day_of now < day_of t))"
proof -
  let ?t = "search_from skip now"
  have e: "effective_now z ?t = ?t" using assms(4) by (simp add: comparable_def)
  obtain r bs where rb: "single_search d z (day_of now) ?t (programs d) None = Inr r" "all_infos (zones d) ?t (programs d) = Inr bs"
    "bulk_search d (zones d) ?t i bs None = Inr (map_option fst r)" "\<forall>t q. r = Some (t, q) \<longrightarrow> ?t < t"
    using searches_agree [OF assms(1,2,3) e, of "programs d" "day_of now" None] assms(4) by (auto simp: comparable_def)
  have "now < t \<and> (skip \<longrightarrow> day_of now < day_of t)" if "?t < t" for t
  proof
    show "now < t" using that day_start_bounds [of now] by (auto simp: search_from_def split: if_splits)
    show "skip \<longrightarrow> day_of now < day_of t"
    proof
      assume skip
      then have "86400 * (day_of now + 1) < t" using that by (simp add: search_from_def day_start_def)
      then show "day_of now < day_of t" by (simp add: day_of_def)
    qed
  qed
  then show ?thesis using rb assms(1)
    by (auto simp: single_next_def e get_programs_def next_watering_bulk_api_def get_zones_def Let_def)
qed

definition demo_plan :: db where
  "demo_plan = empty_db\<lparr>zones := [demo_zone 1 ''off''], programs := [demo_program 1 ''06:00'' [0, 1, 2, 3, 4, 5, 6] [1]]\<rparr>"

text \<open>Half a minute after the start the card of the zone shows tomorrow and the list "never".\<close>

lemma turn_says_never:
  "next_watering_bulk_api demo_plan [1] False 21630 = Inr [(1, None)]"
  "map_option fst (case single_next demo_plan (demo_zone 1 ''off'') False 21630 of Inr r \<Rightarrow> r) = Some 108000"
  by code_simp+

theorem next_waterings_agree_witness:
  "\<exists>r. single_next demo_plan (demo_zone 1 ''off'') False 20000 = Inr r
     \<and> next_watering_bulk_api demo_plan [1] False 20000 = Inr [(1, map_option fst r)]"
proof -
  have tm: "strptime_hm ''06:00'' = Some (6, 0)" by code_simp
  have st: "at_hm 20000 6 0 = 21600" by code_simp
  have "\<not> turn_now demo_plan 20000 1 (demo_program 1 ''06:00'' [0, 1, 2, 3, 4, 5, 6] [1])"
    by (simp add: turn_now_def demo_program_def tm st minutes_def)
  moreover have "readable (demo_program 1 ''06:00'' [0, 1, 2, 3, 4, 5, 6] [1])"
    by (simp add: readable_def demo_program_def tm)
  moreover have "effective_now (demo_zone 1 ''off'') 20000 = 20000" by code_simp
  ultimately have c: "comparable demo_plan 1 (demo_zone 1 ''off'') (day_of 20000) (search_from False 20000)"
    by (simp add: comparable_def search_from_def cancelled_today_def is_program_run_cancelled_for_group_def)
      (simp add: demo_plan_def empty_db_def)
  have d: "duration (demo_zone 1 ''off'') = Some 15" by code_simp
  have "\<forall>j. \<exists>n. get_zone_duration demo_plan j = Some n \<and> 0 \<le> n"
    by (simp add: get_zone_duration_def demo_plan_def empty_db_def d)
  moreover have "db_up demo_plan" "get_zone demo_plan 1 = Some (demo_zone 1 ''off'')"
    by (simp_all add: get_zone_def demo_plan_def empty_db_def)
  ultimately show ?thesis using next_waterings_agree [OF _ _ _ c] by blast
qed

end
