(* ===== verification/Zones_Api_Laws.thy ===== *)
theory Zones_Api_Laws
  imports Zones_Api
begin

text \<open>
  What the zone requests leave alone: the columns of the state machine and the relays, and that the
  check of many durations answers like the check of one.
\<close>

subsection \<open>The requests as one step\<close>

datatype zone_request =
    Z_put int "zone_upd list"
  | Z_delete int
  | Z_create zone_req
  | Z_import "zone_req list"

fun answer_zone :: "zone_request \<Rightarrow> 'a world_scheme \<Rightarrow> zone_reply \<times> 'a world_scheme" where
  "answer_zone (Z_put i us) w = put_zone_api i us w"
| "answer_zone (Z_delete i) w = delete_zone_api i w"
| "answer_zone (Z_create r) w = create_zone_api r w"
| "answer_zone (Z_import rs) w = import_zones_api rs w"

subsection \<open>The columns of the state machine\<close>

definition machine_cols :: "zone \<Rightarrow> string \<times> string option \<times> string option \<times> int \<times> time option" where
  "machine_cols z = (zstate z, commanded_state z, observed_state z, fault_count z, last_fault z)"

definition idle_machine :: "string \<times> string option \<times> string option \<times> int \<times> time option" where
  "idle_machine = (''off'', None, None, 0, None)"

lemma machine_new [simp]: "machine_cols (new_zone i s r) = idle_machine"
  by (simp add: machine_cols_def new_zone_def idle_machine_def)

lemma machine_upsert [simp]: "machine_cols (set_cols (upsert_cols r) z) = machine_cols z"
  by (auto simp: machine_cols_def upsert_cols_def split: option.splits)

interpretation machine: import_column machine_cols idle_machine
  by unfold_locales simp_all

lemma machine_set_cols: "\<not> list_ex state_field us \<Longrightarrow> machine_cols (set_cols us z) = machine_cols z"
proof (induction us arbitrary: z)
  case (Cons u us)
  then have "machine_cols (set_col u z) = machine_cols z" by (cases u) (simp_all add: machine_cols_def)
  then show ?case using Cons by simp
qed simp

lemma machine_plain_write: "\<not> list_ex state_field us \<Longrightarrow> machine_cols (plain_write us z) = machine_cols z"
proof -
  assume "\<not> list_ex state_field us"
  then have "\<not> list_ex state_field (filter plain_writable us)" by (auto simp: list_ex_iff)
  from machine_set_cols [OF this] show ?thesis by (simp add: plain_write_def Let_def) (simp add: machine_cols_def)
qed

text \<open>A row that survives keeps its columns and a new row starts idle; only a deletion removes one.\<close>

definition machine_kept :: "int set \<Rightarrow> zone list \<Rightarrow> zone list \<Rightarrow> bool" where
  "machine_kept gone zs zs' =
     (\<forall>i. case row_at zid zs' i of
            None \<Rightarrow> row_at zid zs i = None \<or> i \<in> gone
          | Some z' \<Rightarrow> machine_cols z' = (case row_at zid zs i of None \<Rightarrow> idle_machine | Some z \<Rightarrow> machine_cols z))"

fun removed_by :: "zone_request \<Rightarrow> int set" where
  "removed_by (Z_delete i) = {i}"
| "removed_by rq = {}"

lemma machine_kept_refl [simp]: "machine_kept gone zs zs"
  by (auto simp: machine_kept_def split: option.split)

lemma machine_kept_update:
  assumes "\<not> list_ex state_field us"
  shows "machine_kept {} (zones w) (zones (update_zone i us w))"
proof -
  have "row_at zid (zones (update_zone i us w)) j =
      (if j = i \<and> db_up w then map_option (plain_write us) (row_at zid (zones w) j) else row_at zid (zones w) j)" for j
    by (auto simp: update_zone_def get_zone_def put_zone_def Let_def zplain.row_at_upd_key split: option.splits)
  then show ?thesis
    by (auto simp: machine_kept_def machine_plain_write [OF assms] split: option.split)
qed

lemma machine_kept_create: "machine_kept {} (zones w) (zones (snd (create_zone r w)))"
proof -
  have "row_at zid (zones w) (case (case rq_id r of None \<Rightarrow> None | Some i \<Rightarrow> (case row_at zid (zones w) i of None \<Rightarrow> Some i | Some z \<Rightarrow> None))
      of Some i \<Rightarrow> i | None \<Rightarrow> next_rowid zid (zones w)) = None"
    by (auto simp: next_rowid_fresh split: option.splits)
  then show ?thesis
    by (auto simp: create_zone_def Let_def machine_kept_def row_at_insert_fresh split: option.split)
qed

lemma machine_kept_import: "machine_kept {} (zones w) (zones (snd (bulk_upsert_zones rs w)))"
proof (cases "db_up w")
  case True
  show ?thesis
    unfolding machine_kept_def
  proof
    fix i
    show "case row_at zid (zones (snd (bulk_upsert_zones rs w))) i of
        None \<Rightarrow> row_at zid (zones w) i = None \<or> i \<in> {}
      | Some z' \<Rightarrow> machine_cols z' = (case row_at zid (zones w) i of None \<Rightarrow> idle_machine | Some z \<Rightarrow> machine_cols z)"
      using machine.upsert_loop [of rs 0 0 w i] True
      by (auto simp: bulk_upsert_zones_def split: option.splits)
  qed
qed (simp add: bulk_upsert_zones_def)

lemma zones_log [simp]: "zones (add_log ty is w) = zones w"
  by (simp add: add_log_def)

lemma sent_log [simp]: "sent (add_log ty is w) = sent w"
  by (simp add: add_log_def)

lemma sent_more:
  fixes w w' :: "'a world_scheme"
  shows "db.more w = db.more w' \<Longrightarrow> sent w = sent w'"
  by (cases w; cases w') simp

lemma more_upsert_loop: "db.more (snd (bulk_upsert_loop rs c u d)) = db.more d"
  by (induction rs c u d rule: bulk_upsert_loop.induct) (auto simp: frame_simps insert_zone_def split: option.splits)

lemma sent_store:
  "sent (update_zone i us w) = sent w" "sent (snd (create_zone r w)) = sent w" "sent (snd (bulk_upsert_zones rs w)) = sent w"
  by (rule sent_more; simp add: frame_simps create_zone_def insert_zone_def bulk_upsert_zones_def more_upsert_loop Let_def)+

text \<open>
  C28: no zone request touches the state machine.  Whatever is edited, created, imported or deleted, every zone that is
  still there has the state, the commanded and the observed state, the fault count and the last fault it had,
  a new zone starts off and without faults, only a deletion removes a zone, and nothing is sent to a relay.
\<close>

theorem zone_requests_keep_states:
  "machine_kept (removed_by rq) (zones w) (zones (snd (answer_zone rq w))) \<and> sent (snd (answer_zone rq w)) = sent w"
proof (cases rq)
  case (Z_put i us)
  then show ?thesis
    using machine_kept_update [of us w i] by (auto simp: put_zone_api_def sent_store Let_def split: option.split)
next
  case (Z_delete i)
  then show ?thesis
    by (auto simp: delete_zone_api_def delete_zone_def machine_kept_def row_at_filter_other split: option.split)
next
  case (Z_create r)
  then show ?thesis
    using machine_kept_create [of w r] sent_store(2) [of r w]
    by (auto simp: create_zone_api_def split: option.split prod.split)
next
  case (Z_import rs)
  then show ?thesis
    using machine_kept_import [of w rs] sent_store(3) [of rs w]
    by (auto simp: import_zones_api_def split: prod.split)
qed

text \<open>
  The row is all a deletion removes.  A zone that is on when it is deleted keeps its valve open, and none of the
  stops can close it: they find no zone and send nothing.
\<close>

theorem deleted_zone_stays_open:
  fixes w :: "'a world_scheme" and i :: int
  assumes "db_up w"
  defines "w' \<equiv> snd (delete_zone_api i w)"
  shows "sent w' = sent w \<and> get_zone w' i = None
    \<and> stop_zone i reason force imm skip t mn clock w' = (False, w')"
proof -
  have "get_zone w' i = None" using assms(1) by (simp add: w'_def delete_zone_api_def delete_zone_def get_zone_def row_at_filter_other add_log_def)
  then show ?thesis
    using assms(1) by (simp add: stop_zone_def) (simp add: w'_def delete_zone_api_def delete_zone_def)
qed

subsection \<open>Overlaps after a change of duration\<close>

text \<open>With a duration for every zone nothing raises.\<close>

lemma collect_total: "(\<And>x. x \<in> set xs \<Longrightarrow> f x \<noteq> None) \<Longrightarrow> collect f xs \<noteq> None"
  by (induction xs) (auto split: option.split)

lemma sum_durations_total: "(\<And>j. dur j \<noteq> None) \<Longrightarrow> sum_durations dur is \<noteq> None"
  by (induction "is") (auto split: option.split)

lemma checked_total:
  assumes "\<And>j. dur j \<noteq> None"
  shows "checked_conflicts zs dur ps i n p \<noteq> None"
proof -
  have "other_conflict zs dur p start endm q \<noteq> None" for start endm q
    using sum_durations_total [of dur "prog_zones q"] assms by (auto simp: other_conflict_def Let_def split: option.split)
  then have "collect (other_conflict zs dur p start endm) ps \<noteq> None" for start endm by (intro collect_total) simp
  moreover have "sum_durations (\<lambda>j. if j = i then Some n else dur j) (prog_zones p) \<noteq> None"
    by (rule sum_durations_total) (use assms in auto)
  ultimately show ?thesis by (auto simp: checked_conflicts_def split: option.split)
qed

lemma get_zone_duration_dur:
  "db_up d \<Longrightarrow> get_zone_duration d j \<noteq> None \<Longrightarrow> get_zone_duration d j = Some (zone_dur (get_zones d) j)"
  by (auto simp: get_zone_duration_def zone_dur_def get_zones_def split: option.splits)

lemma fold_upd_last:
  "fold (\<lambda>(i, n) m. m(i := F i n)) cs m k =
     (case map_of (rev cs) k of None \<Rightarrow> m k | Some n \<Rightarrow> F k n)"
  by (induction cs arbitrary: m) (auto split: option.splits)

text \<open>
  Checking many durations is checking each one.  When every zone has a duration, the answer of the list for a zone that
  exists is the answer of the single check for the last duration the list gives it, and the single check does not fail.
\<close>

theorem duration_checks_agree:
  assumes "db_up d" "\<forall>j. get_zone_duration d j \<noteq> None" "map_of (rev changes) i = Some n" "get_zone d i \<noteq> None"
  shows "\<exists>m cs. check_durations_api d changes = Inr m \<and> check_duration_api d i n = Inr cs \<and> m i = Some cs"
proof -
  let ?f = "\<lambda>k. collect (checked_conflicts (get_zones d) (\<lambda>j. Some (zone_dur (get_zones d) j)) (get_programs d) i k) (get_programs d)"
  have dur: "get_zone_duration d = (\<lambda>j. Some (zone_dur (get_zones d) j))"
    using get_zone_duration_dur [OF assms(1)] assms(2) by (intro ext) simp
  have "?f n \<noteq> None" by (intro collect_total checked_total) simp
  then obtain cs where cs: "?f n = Some cs" by auto
  then have "check_duration_api d i n = Inr cs" using assms(4) by (simp add: check_duration_api_def dur)
  moreover have "changes \<noteq> []" using assms(3) by auto
  moreover have "fold (\<lambda>(i, n) m. m(i := collect (checked_conflicts (get_zones d) (\<lambda>j. Some (zone_dur (get_zones d) j))
      (get_programs d) i n) (get_programs d))) changes Map.empty i = Some cs"
    using fold_upd_last [of "\<lambda>i n. collect (checked_conflicts (get_zones d) (\<lambda>j. Some (zone_dur (get_zones d) j)) (get_programs d) i n)
        (get_programs d)" changes Map.empty i] cs assms(3) by simp
  ultimately show ?thesis by (simp add: check_durations_api_def)
qed

definition overlap_db :: db where
  "overlap_db = empty_db\<lparr>zones := [(new_zone 1 None (plain_req (Some 1)))\<lparr>duration := Some 30\<rparr>],
     programs := map (\<lambda>(i, tm). \<lparr>prog_id = i, prog_name = [], prog_time = tm, prog_days = [0], prog_zones = [1], prog_type = [],
       schedule_type = ''weekdays'', interval_days = None, even_odd = None, prog_color = [], prog_enabled = True, extra_times = []\<rparr>)
       [(1, ''06:00''), (2, ''06:20'')]\<rparr>"

text \<open>
  The other program is always measured with the stored durations: shortening the zone of both programs
  from 30 to 10 minutes ends their overlap and is still reported.
\<close>

lemma shortened_zone_still_conflicts:
  "check_duration_api overlap_db 1 10 =
     Inr [\<lparr>dc_checked = 2, dc_other = 1, dc_zones = {1}, dc_groups = {1}, dc_start = 380, dc_end = 390\<rparr>]"
  "check_program_conflicts (Some 1) ''06:00'' [1] [0] None False None 100 (update_zone 1 [U_duration (Some 10)] overlap_db) = Legacy []"
proof -
  have tm: "start_minutes ''06:00'' = Some 360" "start_minutes ''06:20'' = Some 380" by code_simp+
  have g: "group_set (zones overlap_db) [1] = {1}"
    by (auto simp: group_set_def overlap_db_def new_zone_def plain_req_def rq_target_group_def)
  show "check_duration_api overlap_db 1 10 =
     Inr [\<lparr>dc_checked = 2, dc_other = 1, dc_zones = {1}, dc_groups = {1}, dc_start = 380, dc_end = 390\<rparr>]"
    using g
    by (simp add: check_duration_api_def get_zone_def get_zones_def get_programs_def get_zone_duration_def)
      (simp add: overlap_db_def empty_db_def checked_conflicts_def other_conflict_def tm Let_def get_zone_duration_def)
  show "check_program_conflicts (Some 1) ''06:00'' [1] [0] None False None 100 (update_zone 1 [U_duration (Some 10)] overlap_db) = Legacy []"
    by code_simp
qed

theorem duration_checks_agree_witness:
  "\<exists>m cs. check_durations_api overlap_db [(1, 20), (1, 10)] = Inr m \<and> check_duration_api overlap_db 1 10 = Inr cs \<and> m 1 = Some cs"
  by (rule duration_checks_agree)
    (simp_all add: overlap_db_def empty_db_def get_zone_duration_def get_zone_def)

end
