(* ===== verification/Program_Queue.thy ===== *)
theory Program_Queue
  imports Float_Monitor Programs
begin

text \<open>
  \<open>src/services/program_queue.py\<close>: the per-group queues of program runs, their worker threads and
  the tracker of runs that span groups.

  Entries are objects shared by the queues, the workers and the callers, so they live in a table
  of their own and the queues hold their ids; \<open>uuid4\<close> is a counter, the ids being told apart only.
  The public methods hold the lock of a group for their whole body and are one step.  A worker
  runs between them: its program counter \<open>worker\<close> has a value for every point where it holds no
  lock, and \<open>work\<close> is what it does up to the next one.  The unlocked test and assignment of an
  entry's state at the end of a run are two steps.  The debug audit and the log lines are left out.
\<close>

subsection \<open>State\<close>

datatype entry_state = Q_Waiting | Q_Running | Q_Completed | Q_Cancelled | Q_Expired | Q_Failed

record entry =
  e_id :: int
  e_program :: int
  e_name :: string
  e_group :: int
  e_zones :: "int list"
  e_scheduled :: "time option"
  e_state :: entry_state
  e_enqueued :: rat
  e_excluded :: rat
  e_run :: "string option"
  e_cancel :: bool

datatype worker =
    W_Gone
  | W_Leaving
  | W_Top
  | W_Idle
  | W_Picked int
  | W_Claimed int
  | W_Zones int "int list"
  | W_Poll int "int list"
  | W_Pause int "int list"
  | W_Returned int "py_error option"
  | W_Settle int entry_state
  | W_Release int
  | W_Drain

record gqueue =
  gq_group :: int
  gq_queue :: "int list"
  gq_current :: "int option"
  gq_worker :: worker
  gq_cancel :: bool
  gq_new_item :: bool

datatype run_audit = Run_Started | Run_Completed entry_state

text \<open>
  \<open>q_float\<close> is what the attached monitor answers to \<open>is_paused()\<close>, if one is attached.
\<close>

record queues =
  q_entries :: "entry list"
  q_groups :: "gqueue list"
  q_next :: int
  q_shutdown :: bool
  q_max_wait :: int
  q_max_size :: int
  q_float :: "(py_error + bool) option"
  q_telegram :: bool
  q_overflows :: "int list"
  q_audit :: "(int \<times> int \<times> run_audit) list"

definition max_queue_size :: int where "max_queue_size = 20"

definition new_queues :: "int \<Rightarrow> int \<Rightarrow> (py_error + bool) option \<Rightarrow> bool \<Rightarrow> queues" where
  "new_queues wait cap fm tg = \<lparr>q_entries = [], q_groups = [], q_next = 0, q_shutdown = False,
     q_max_wait = wait, q_max_size = cap, q_float = fm, q_telegram = tg, q_overflows = [], q_audit = []\<rparr>"

definition new_gqueue :: "int \<Rightarrow> gqueue" where
  "new_gqueue g = \<lparr>gq_group = g, gq_queue = [], gq_current = None, gq_worker = W_Gone, gq_cancel = False, gq_new_item = False\<rparr>"

definition entry_of :: "queues \<Rightarrow> int \<Rightarrow> entry option" where
  "entry_of m i = row_at e_id (q_entries m) i"

definition queue_of :: "queues \<Rightarrow> int \<Rightarrow> gqueue option" where
  "queue_of m g = row_at gq_group (q_groups m) g"

definition put_entries :: "(entry \<Rightarrow> bool) \<Rightarrow> (entry \<Rightarrow> entry) \<Rightarrow> queues \<Rightarrow> queues" where
  "put_entries p f m = m\<lparr>q_entries := upd_rows p f (q_entries m)\<rparr>"

definition put_queue :: "int \<Rightarrow> (gqueue \<Rightarrow> gqueue) \<Rightarrow> queues \<Rightarrow> queues" where
  "put_queue g f m = m\<lparr>q_groups := upd_rows (\<lambda>q. gq_group q = g) f (q_groups m)\<rparr>"

definition state_of :: "queues \<Rightarrow> int \<Rightarrow> entry_state option" where
  "state_of m i = map_option e_state (entry_of m i)"

subsection \<open>Adding\<close>

record enqueue_req =
  n_program :: int
  n_name :: string
  n_group :: int
  n_zones :: "int list"
  n_scheduled :: "time option"
  n_run :: "string option"

definition new_entry :: "rat \<Rightarrow> int \<Rightarrow> enqueue_req \<Rightarrow> entry" where
  "new_entry now i r = \<lparr>e_id = i, e_program = n_program r, e_name = n_name r, e_group = n_group r,
     e_zones = n_zones r, e_scheduled = n_scheduled r, e_state = Q_Waiting, e_enqueued = now,
     e_excluded = 0, e_run = n_run r, e_cancel = False\<rparr>"

definition in_queue_count :: "gqueue \<Rightarrow> int" where
  "in_queue_count q = int (length (gq_queue q)) + (if gq_current q = None then 0 else 1)"

definition with_queue :: "int \<Rightarrow> queues \<Rightarrow> queues" where
  "with_queue g m = (if queue_of m g = None then m\<lparr>q_groups := q_groups m @ [new_gqueue g]\<rparr> else m)"

definition start_worker :: "gqueue \<Rightarrow> gqueue" where
  "start_worker q = (if gq_worker q = W_Gone then q\<lparr>gq_cancel := False, gq_worker := W_Top\<rparr> else q)"

definition add_to_queue :: "int \<Rightarrow> gqueue \<Rightarrow> gqueue" where
  "add_to_queue i q = start_worker (q\<lparr>gq_queue := gq_queue q @ [i], gq_new_item := True\<rparr>)"

definition enqueue :: "rat \<Rightarrow> enqueue_req \<Rightarrow> queues \<Rightarrow> entry option \<times> queues" where
  "enqueue now r m =
     (let i = q_next m; en = new_entry now i r;
          m1 = with_queue (n_group r) (m\<lparr>q_next := i + 1\<rparr>)
      in case queue_of m1 (n_group r) of None \<Rightarrow> (None, m1)
         | Some q \<Rightarrow>
             if q_max_size m \<le> in_queue_count q
             then (None, if q_telegram m1 then m1\<lparr>q_overflows := q_overflows m1 @ [n_group r]\<rparr> else m1)
             else (Some en, put_queue (n_group r) (add_to_queue i) (m1\<lparr>q_entries := q_entries m1 @ [en]\<rparr>)))"

subsection \<open>Cancelling\<close>

definition cancelled :: "entry \<Rightarrow> entry" where
  "cancelled x = x\<lparr>e_state := Q_Cancelled, e_cancel := True\<rparr>"

text \<open>Whether some group holds the entry, queued or current.\<close>

definition holds :: "int \<Rightarrow> gqueue \<Rightarrow> bool" where
  "holds i q = (i \<in> set (gq_queue q) \<or> gq_current q = Some i)"

definition cancel_entry :: "int \<Rightarrow> queues \<Rightarrow> bool \<times> queues" where
  "cancel_entry i m =
     (if list_ex (holds i) (q_groups m) then (True, put_entries (\<lambda>x. e_id x = i) cancelled m) else (False, m))"

text \<open>The entries a cancellation takes: the waiting ones of a queue and the running current one.\<close>

definition takes :: "(entry \<Rightarrow> bool) \<Rightarrow> gqueue \<Rightarrow> entry \<Rightarrow> bool" where
  "takes p q x = (p x \<and> (e_id x \<in> set (gq_queue q) \<and> e_state x = Q_Waiting
     \<or> gq_current q = Some (e_id x) \<and> e_state x = Q_Running))"

definition cancel_in :: "(entry \<Rightarrow> bool) \<Rightarrow> gqueue \<Rightarrow> queues \<Rightarrow> nat \<times> queues" where
  "cancel_in p q m = (length (filter (takes p q) (q_entries m)), put_entries (takes p q) cancelled m)"

definition cancel_program_entries :: "int \<Rightarrow> queues \<Rightarrow> nat \<times> queues" where
  "cancel_program_entries pid m =
     fold (\<lambda>q (n, m). case cancel_in (\<lambda>x. e_program x = pid) q m of (k, m') \<Rightarrow> (n + k, m')) (q_groups m) (0, m)"

definition cancel_queue :: "int \<Rightarrow> queues \<Rightarrow> nat \<times> queues" where
  "cancel_queue g m =
     (case queue_of m g of None \<Rightarrow> (0, m)
      | Some q \<Rightarrow> cancel_in (\<lambda>x. True) q (put_queue g (\<lambda>q. q\<lparr>gq_cancel := True\<rparr>) m))"

definition shutdown_queues :: "queues \<Rightarrow> queues" where
  "shutdown_queues m =
     put_entries (\<lambda>x. list_ex (holds (e_id x)) (q_groups m)) (\<lambda>x. x\<lparr>e_cancel := True\<rparr>)
       (m\<lparr>q_shutdown := True, q_groups := map (\<lambda>q. q\<lparr>gq_cancel := True, gq_new_item := True\<rparr>) (q_groups m)\<rparr>)"

subsection \<open>The worker\<close>

definition is_cancelled :: "queues \<Rightarrow> int \<Rightarrow> bool" where
  "is_cancelled m i = (state_of m i = Some Q_Cancelled)"

definition set_state :: "int \<Rightarrow> entry_state \<Rightarrow> queues \<Rightarrow> queues" where
  "set_state i v m = put_entries (\<lambda>x. e_id x = i) (\<lambda>x. x\<lparr>e_state := v\<rparr>) m"

definition goto :: "int \<Rightarrow> worker \<Rightarrow> queues \<Rightarrow> queues" where
  "goto g w m = put_queue g (\<lambda>q. q\<lparr>gq_worker := w\<rparr>) m"

definition audit_run :: "int \<Rightarrow> int \<Rightarrow> run_audit \<Rightarrow> queues \<Rightarrow> queues" where
  "audit_run g i a m = m\<lparr>q_audit := q_audit m @ [(g, i, a)]\<rparr>"

definition pick_next :: "queues \<Rightarrow> gqueue \<Rightarrow> gqueue" where
  "pick_next m q =
     (case dropWhile (is_cancelled m) (gq_queue q) of
        [] \<Rightarrow> q\<lparr>gq_queue := [], gq_current := None, gq_new_item := False, gq_worker := W_Idle\<rparr>
      | i # is \<Rightarrow> q\<lparr>gq_queue := is, gq_worker := W_Picked i\<rparr>)"

definition wake_up :: "gqueue \<Rightarrow> gqueue" where
  "wake_up q = (if gq_queue q = [] then q\<lparr>gq_current := None, gq_worker := W_Leaving\<rparr>
     else q\<lparr>gq_new_item := False, gq_worker := W_Top\<rparr>)"

definition waited_too_long :: "rat \<Rightarrow> queues \<Rightarrow> entry \<Rightarrow> bool" where
  "waited_too_long now m x = (0 < q_max_wait m \<and> e_state x = Q_Waiting \<and>
     of_int (q_max_wait m * 60) < now - e_enqueued x - e_excluded x)"

definition begin_entry :: "rat \<Rightarrow> int \<Rightarrow> int \<Rightarrow> queues \<Rightarrow> queues" where
  "begin_entry now g i m =
     (case entry_of m i of None \<Rightarrow> m
      | Some x \<Rightarrow>
          if waited_too_long now m x then goto g W_Top (set_state i Q_Expired m)
          else if e_state x = Q_Cancelled then goto g W_Top m
          else goto g (W_Claimed i) (set_state i Q_Running m))"

definition claim_entry :: "int \<Rightarrow> int \<Rightarrow> queues \<Rightarrow> queues" where
  "claim_entry g i m =
     (case entry_of m i of None \<Rightarrow> m
      | Some x \<Rightarrow> audit_run g i Run_Started
          (put_queue g (\<lambda>q. q\<lparr>gq_current := Some i, gq_worker := W_Zones i (e_zones x)\<rparr>) m))"

text \<open>
  \<open>_run_entry\<close>: the test before a zone, the poll of the float monitor, and the half second after
  a paused answer.  The coefficient is fetched and only logged.
\<close>

definition cancel_set :: "queues \<Rightarrow> int \<Rightarrow> bool" where
  "cancel_set m i = (case entry_of m i of None \<Rightarrow> False | Some x \<Rightarrow> e_cancel x)"

definition next_zone :: "int \<Rightarrow> int \<Rightarrow> int list \<Rightarrow> queues \<Rightarrow> queues" where
  "next_zone g i zs m =
     (if zs = [] \<or> cancel_set m i \<or> q_shutdown m then goto g (W_Returned i None) m else goto g (W_Poll i zs) m)"

definition poll_float :: "int \<Rightarrow> int \<Rightarrow> int list \<Rightarrow> queues \<Rightarrow> queues" where
  "poll_float g i zs m =
     (case q_float m of
        None \<Rightarrow> goto g (W_Zones i (tl zs)) m
      | Some (Inl err) \<Rightarrow> goto g (W_Returned i (Some err)) m
      | Some (Inr True) \<Rightarrow> goto g (if cancel_set m i \<or> q_shutdown m then W_Returned i None else W_Pause i zs) m
      | Some (Inr False) \<Rightarrow> goto g (W_Zones i (tl zs)) m)"

definition after_pause :: "int \<Rightarrow> int \<Rightarrow> int list \<Rightarrow> queues \<Rightarrow> queues" where
  "after_pause g i zs m = goto g (if cancel_set m i then W_Returned i None else W_Poll i zs) m"

definition finish_run :: "int \<Rightarrow> int \<Rightarrow> py_error option \<Rightarrow> queues \<Rightarrow> queues" where
  "finish_run g i res m =
     (case res of
        None \<Rightarrow> (if state_of m i = Some Q_Running then goto g (W_Settle i Q_Completed) m
                 else if state_of m i = Some Q_Cancelled
                 then goto g (W_Release i) (audit_run g i (Run_Completed Q_Cancelled) m)
                 else goto g (W_Release i) m)
      | Some err \<Rightarrow> (if state_of m i \<in> {Some Q_Cancelled, Some Q_Completed} then goto g (W_Release i) m
                      else goto g (W_Settle i Q_Failed) m))"

definition settle_run :: "int \<Rightarrow> int \<Rightarrow> entry_state \<Rightarrow> queues \<Rightarrow> queues" where
  "settle_run g i v m = goto g (W_Release i) (audit_run g i (Run_Completed v) (set_state i v m))"

definition release_run :: "int \<Rightarrow> gqueue \<Rightarrow> gqueue" where
  "release_run i q = q\<lparr>gq_current := (if gq_current q = Some i then None else gq_current q), gq_worker := W_Top\<rparr>"

definition drain_queue :: "int \<Rightarrow> gqueue \<Rightarrow> queues \<Rightarrow> queues" where
  "drain_queue g q m =
     put_queue g (\<lambda>q. q\<lparr>gq_queue := [], gq_current := None, gq_worker := W_Leaving\<rparr>)
       (put_entries (\<lambda>x. e_id x \<in> set (gq_queue q) \<and> e_state x = Q_Waiting) (\<lambda>x. x\<lparr>e_state := Q_Cancelled\<rparr>) m)"

definition work :: "rat \<Rightarrow> int \<Rightarrow> queues \<Rightarrow> queues" where
  "work now g m =
     (case queue_of m g of None \<Rightarrow> m
      | Some q \<Rightarrow>
          (case gq_worker q of
             W_Gone \<Rightarrow> m
           | W_Leaving \<Rightarrow> goto g W_Gone m
           | W_Top \<Rightarrow> if q_shutdown m \<or> gq_cancel q then goto g W_Drain m else put_queue g (pick_next m) m
           | W_Idle \<Rightarrow> put_queue g wake_up m
           | W_Picked i \<Rightarrow> begin_entry now g i m
           | W_Claimed i \<Rightarrow> claim_entry g i m
           | W_Zones i zs \<Rightarrow> next_zone g i zs m
           | W_Poll i zs \<Rightarrow> poll_float g i zs m
           | W_Pause i zs \<Rightarrow> after_pause g i zs m
           | W_Returned i res \<Rightarrow> finish_run g i res m
           | W_Settle i v \<Rightarrow> settle_run g i v m
           | W_Release i \<Rightarrow> put_queue g (release_run i) m
           | W_Drain \<Rightarrow> drain_queue g q m))"

subsection \<open>Snapshots\<close>

record queue_view =
  qv_group :: int
  qv_current :: "int option"
  qv_queue :: "int list"
  qv_length :: nat
  qv_float_paused :: "bool option"

definition view_of :: "bool option \<Rightarrow> gqueue \<Rightarrow> queue_view" where
  "view_of fp q = \<lparr>qv_group = gq_group q, qv_current = gq_current q, qv_queue = gq_queue q,
     qv_length = length (gq_queue q), qv_float_paused = fp\<rparr>"

definition get_queue_state :: "queues \<Rightarrow> int \<Rightarrow> queue_view" where
  "get_queue_state m g =
     (case queue_of m g of
        None \<Rightarrow> \<lparr>qv_group = g, qv_current = None, qv_queue = [], qv_length = 0, qv_float_paused = None\<rparr>
      | Some q \<Rightarrow> view_of (Some (case q_float m of Some (Inr b) \<Rightarrow> b | _ \<Rightarrow> False)) q)"

definition get_all_queues_state :: "queues \<Rightarrow> queue_view list \<times> int \<times> nat" where
  "get_all_queues_state m = (map (view_of None) (q_groups m), sum_list (map in_queue_count (q_groups m)),
     length (filter (\<lambda>q. gq_worker q \<noteq> W_Gone) (q_groups m)))"

subsection \<open>Steps\<close>

datatype queue_op =
    Enqueue rat enqueue_req
  | Cancel_Entry int
  | Cancel_Program int
  | Cancel_Group int
  | Shut_Down
  | Work rat int
  | Float_Answers "(py_error + bool) option"

fun queue_step :: "queue_op \<Rightarrow> queues \<Rightarrow> queues" where
  "queue_step (Enqueue now r) m = snd (enqueue now r m)"
| "queue_step (Cancel_Entry i) m = snd (cancel_entry i m)"
| "queue_step (Cancel_Program pid) m = snd (cancel_program_entries pid m)"
| "queue_step (Cancel_Group g) m = snd (cancel_queue g m)"
| "queue_step Shut_Down m = shutdown_queues m"
| "queue_step (Work now g) m = work now g m"
| "queue_step (Float_Answers a) m = m\<lparr>q_float := a\<rparr>"

inductive queue_steps :: "queues \<Rightarrow> queues \<Rightarrow> bool" where
  Refl: "queue_steps m m"
| Step: "queue_steps m m' \<Longrightarrow> queue_steps m (queue_step x m')"

text \<open>The runs of a group that were announced as started, oldest first.\<close>

definition started_runs :: "queues \<Rightarrow> int \<Rightarrow> int list" where
  "started_runs m g = map (fst \<circ> snd) (filter (\<lambda>a. fst a = g \<and> snd (snd a) = Run_Started) (q_audit m))"

subsection \<open>The completion tracker\<close>

record tracked =
  t_run :: string
  t_program :: "int option"
  t_name :: "string option"
  t_expected :: "int list"
  t_finished :: "int list"

type_synonym tracker = "tracked list"

definition tracked_of :: "tracker \<Rightarrow> string \<Rightarrow> tracked option" where
  "tracked_of t r = List.find (\<lambda>x. t_run x = r) t"

definition register_run :: "string \<Rightarrow> int list \<Rightarrow> int option \<Rightarrow> string option \<Rightarrow> tracker \<Rightarrow> tracker" where
  "register_run r es pid nm t =
     put_key t_run \<lparr>t_run = r, t_program = pid, t_name = nm, t_expected = remdups es, t_finished = []\<rparr> t"

definition run_done :: "tracked \<Rightarrow> bool" where
  "run_done x = (set (t_expected x) \<subseteq> set (t_finished x))"

definition entry_finished :: "string \<Rightarrow> int \<Rightarrow> tracker \<Rightarrow> bool \<times> tracker" where
  "entry_finished r i t =
     (case tracked_of t r of None \<Rightarrow> (True, t)
      | Some x \<Rightarrow>
          (let x' = x\<lparr>t_finished := List.insert i (t_finished x)\<rparr>
           in if run_done x' then (True, filter (\<lambda>y. t_run y \<noteq> r) t)
              else (False, put_key t_run x' t)))"

definition is_program_complete :: "tracker \<Rightarrow> string \<Rightarrow> bool" where
  "is_program_complete t r = (tracked_of t r = None)"

text \<open>Total, finished and remaining entries of a run.\<close>

definition pending_of :: "tracked \<Rightarrow> string \<times> nat \<times> nat \<times> nat" where
  "pending_of x = (t_run x, length (t_expected x), length (t_finished x),
     length (filter (\<lambda>i. i \<notin> set (t_finished x)) (t_expected x)))"

definition get_pending :: "tracker \<Rightarrow> (string \<times> nat \<times> nat \<times> nat) list" where
  "get_pending t = map pending_of t"

definition get_program_status :: "tracker \<Rightarrow> string \<Rightarrow> (nat \<times> nat \<times> bool) option" where
  "get_program_status t r =
     map_option (\<lambda>x. (length (t_expected x), length (t_finished x), run_done x)) (tracked_of t r)"

end
