(* ===== verification/Queue_Laws.thy ===== *)
theory Queue_Laws
  imports Program_Queue "HOL-Library.Sublist"
begin

text \<open>
  The invariant of the program queues and what follows from it for every interleaving of callers
  and workers: no entry is lost, a group's entries start in the order they were queued, the bound
  on a queue, and that an entry which left its group's hands never changes again.
\<close>

subsection \<open>Reading after a write\<close>

lemma entry_of_id: "entry_of m i = Some x \<Longrightarrow> e_id x = i"
  by (auto simp: entry_of_def dest: row_at_key)

lemma queue_of_group: "queue_of m g = Some q \<Longrightarrow> gq_group q = g"
  by (auto simp: queue_of_def dest: row_at_key)

lemma entry_of_put [simp]:
  "(\<And>x. e_id (f x) = e_id x) \<Longrightarrow>
     entry_of (put_entries p f m) i = map_option (\<lambda>x. if p x then f x else x) (entry_of m i)"
  by (simp add: entry_of_def put_entries_def row_at_upd_keys)

lemma queue_of_put [simp]:
  "(\<And>q. gq_group (f q) = gq_group q) \<Longrightarrow>
     queue_of (put_queue g f m) h = (if h = g then map_option f (queue_of m h) else queue_of m h)"
  by (cases "row_at gq_group (q_groups m) h")
    (auto simp: queue_of_def put_queue_def row_at_upd_keys dest: row_at_key)

lemma put_frames [simp]:
  "entry_of (put_queue g f m) i = entry_of m i" "queue_of (put_entries p e m) g = queue_of m g"
  "started_runs (put_queue g f m) h = started_runs m h" "started_runs (put_entries p e m) h = started_runs m h"
  "q_next (put_queue g f m) = q_next m" "q_next (put_entries p e m) = q_next m"
  "q_max_size (put_queue g f m) = q_max_size m" "q_max_size (put_entries p e m) = q_max_size m"
  "q_groups (put_entries p e m) = q_groups m" "q_float (put_queue g f m) = q_float m"
  "q_float (put_entries p e m) = q_float m" "q_shutdown (put_queue g f m) = q_shutdown m"
  "q_shutdown (put_entries p e m) = q_shutdown m"
  by (simp_all add: put_queue_def put_entries_def entry_of_def queue_of_def started_runs_def)

lemma audit_frames [simp]:
  "entry_of (audit_run g i a m) j = entry_of m j" "queue_of (audit_run g i a m) h = queue_of m h"
  "started_runs (audit_run g i a m) h = started_runs m h @ (if h = g \<and> a = Run_Started then [i] else [])"
  "q_next (audit_run g i a m) = q_next m" "q_max_size (audit_run g i a m) = q_max_size m"
  "q_groups (audit_run g i a m) = q_groups m" "q_float (audit_run g i a m) = q_float m"
  "q_shutdown (audit_run g i a m) = q_shutdown m"
  by (auto simp: audit_run_def entry_of_def queue_of_def started_runs_def)

lemma goto_frames [simp]:
  "entry_of (goto g w m) j = entry_of m j" "started_runs (goto g w m) h = started_runs m h"
  "q_next (goto g w m) = q_next m" "q_max_size (goto g w m) = q_max_size m"
  "queue_of (goto g w m) h = (if h = g then map_option (\<lambda>q. q\<lparr>gq_worker := w\<rparr>) (queue_of m h) else queue_of m h)"
  "q_float (goto g w m) = q_float m" "q_shutdown (goto g w m) = q_shutdown m"
  by (simp_all add: goto_def)

lemma set_state_frames [simp]:
  "entry_of (set_state i v m) j = map_option (\<lambda>x. if e_id x = i then x\<lparr>e_state := v\<rparr> else x) (entry_of m j)"
  "queue_of (set_state i v m) h = queue_of m h" "started_runs (set_state i v m) h = started_runs m h"
  "q_next (set_state i v m) = q_next m" "q_max_size (set_state i v m) = q_max_size m"
  "q_float (set_state i v m) = q_float m" "q_shutdown (set_state i v m) = q_shutdown m"
  by (simp_all add: set_state_def)

lemma cancelled_fields [simp]: "e_id (cancelled x) = e_id x" "e_group (cancelled x) = e_group x"
  "e_state (cancelled x) = Q_Cancelled" "e_zones (cancelled x) = e_zones x"
  by (simp_all add: cancelled_def)

definition group_keys :: "queues \<Rightarrow> int list" where
  "group_keys m = map gq_group (q_groups m)"

lemma group_keys_frames [simp]:
  "group_keys (put_entries p e m) = group_keys m" "group_keys (audit_run g i a m) = group_keys m"
  "(\<And>q. gq_group (f q) = gq_group q) \<Longrightarrow> group_keys (put_queue g f m) = group_keys m"
  "group_keys (goto g w m) = group_keys m" "group_keys (set_state i v m) = group_keys m"
proof -
  show a: "(\<And>q. gq_group (f q) = gq_group q) \<Longrightarrow> group_keys (put_queue g f m) = group_keys m" for f
    by (auto simp: group_keys_def put_queue_def upd_rows_def)
  show "group_keys (goto g w m) = group_keys m" unfolding goto_def by (rule a) simp
qed (simp_all add: group_keys_def set_state_def)

lemma pick_next_group [simp]: "gq_group (pick_next m q) = gq_group q"
  by (simp add: pick_next_def split: list.splits)

lemma wake_up_group [simp]: "gq_group (wake_up q) = gq_group q"
  by (simp add: wake_up_def)

lemma release_run_group [simp]: "gq_group (release_run i q) = gq_group q"
  by (simp add: release_run_def)

lemma add_to_queue_group [simp]: "gq_group (add_to_queue i q) = gq_group q"
  by (simp add: add_to_queue_def start_worker_def)

subsection \<open>The invariant\<close>

text \<open>The entry a worker has in its hands, and the one it has not announced yet.\<close>

fun in_hand :: "worker \<Rightarrow> int option" where
  "in_hand (W_Picked i) = Some i" | "in_hand (W_Claimed i) = Some i" | "in_hand (W_Zones i zs) = Some i"
| "in_hand (W_Poll i zs) = Some i" | "in_hand (W_Pause i zs) = Some i" | "in_hand (W_Returned i r) = Some i"
| "in_hand (W_Settle i v) = Some i" | "in_hand (W_Release i) = Some i"
| "in_hand W_Gone = None" | "in_hand W_Leaving = None" | "in_hand W_Top = None" | "in_hand W_Idle = None"
| "in_hand W_Drain = None"

fun unannounced :: "worker \<Rightarrow> int list" where
  "unannounced (W_Picked i) = [i]" | "unannounced (W_Claimed i) = [i]" | "unannounced w = []"

fun current_of :: "worker \<Rightarrow> int option" where
  "current_of (W_Picked i) = None" | "current_of (W_Claimed i) = None" | "current_of w = in_hand w"

fun hand_ok :: "worker \<Rightarrow> entry_state \<Rightarrow> bool" where
  "hand_ok (W_Picked i) v = (v = Q_Waiting)"
| "hand_ok (W_Claimed i) v = (v = Q_Running)"
| "hand_ok (W_Settle i u) v = (v \<in> {Q_Running, Q_Cancelled} \<and> u \<in> {Q_Completed, Q_Failed})"
| "hand_ok (W_Release i) v = (v \<in> {Q_Completed, Q_Failed, Q_Cancelled})"
| "hand_ok w v = (v \<in> {Q_Running, Q_Cancelled})"

definition near :: "gqueue \<Rightarrow> int set" where
  "near q = set (gq_queue q) \<union> set_option (in_hand (gq_worker q))"

definition line_up :: "queues \<Rightarrow> gqueue \<Rightarrow> int list" where
  "line_up m q = started_runs m (gq_group q) @ unannounced (gq_worker q) @ gq_queue q"

definition queue_ok :: "queues \<Rightarrow> gqueue \<Rightarrow> bool" where
  "queue_ok m q \<longleftrightarrow> sorted_wrt (<) (line_up m q) \<and> (\<forall>i \<in> set (line_up m q). i < q_next m) \<and>
     gq_current q = current_of (gq_worker q) \<and> set_option (gq_current q) \<subseteq> set (started_runs m (gq_group q)) \<and>
     (\<forall>i \<in> set (gq_queue q). \<exists>x. entry_of m i = Some x \<and> e_group x = gq_group q \<and> e_state x \<in> {Q_Waiting, Q_Cancelled}) \<and>
     (\<forall>i \<in> set_option (in_hand (gq_worker q)).
        \<exists>x. entry_of m i = Some x \<and> e_group x = gq_group q \<and> hand_ok (gq_worker q) (e_state x)) \<and>
     int (length (gq_queue q)) \<le> max 0 (q_max_size m)"

definition unsettled :: "entry \<Rightarrow> bool" where
  "unsettled x = (e_state x \<in> {Q_Waiting, Q_Running})"

definition queues_ok :: "queues \<Rightarrow> bool" where
  "queues_ok m \<longleftrightarrow> distinct (group_keys m) \<and> (\<forall>i x. entry_of m i = Some x \<longrightarrow> i < q_next m) \<and>
     (\<forall>g q. queue_of m g = Some q \<longrightarrow> queue_ok m q) \<and> (\<forall>g. queue_of m g = None \<longrightarrow> started_runs m g = []) \<and>
     (\<forall>i x. entry_of m i = Some x \<longrightarrow> unsettled x \<longrightarrow> (\<exists>q. queue_of m (e_group x) = Some q \<and> i \<in> near q))"

lemma queues_ok_new: "queues_ok (new_queues w c fm tg)"
  by (simp add: queues_ok_def new_queues_def group_keys_def entry_of_def queue_of_def started_runs_def)

lemma near_entry: "queue_ok m q \<Longrightarrow> i \<in> near q \<Longrightarrow> \<exists>x. entry_of m i = Some x \<and> e_group x = gq_group q"
  unfolding queue_ok_def near_def by blast

lemma queues_okD: "queues_ok m \<Longrightarrow> queue_of m g = Some q \<Longrightarrow> queue_ok m q"
  by (simp add: queues_ok_def)

text \<open>A step on one group that touches only the entries the group holds.\<close>

lemma queues_ok_upd:
  assumes ok: "queues_ok m" and q: "queue_of m g = Some q"
    and q': "\<And>h. queue_of m' h = (if h = g then Some q' else queue_of m h)" "group_keys m' = group_keys m"
    and st: "\<And>h. started_runs m' h = started_runs m h @ (if h = g then new else [])"
    and en: "\<And>j. entry_of m' j = map_option (F j) (entry_of m j)" "\<And>j x. e_group (F j x) = e_group x"
      "\<And>j x. j \<notin> near q \<Longrightarrow> e_id x = j \<Longrightarrow> e_state (F j x) = e_state x"
    and nx: "q_next m' = q_next m" "q_max_size m' = q_max_size m"
    and k: "queue_ok m' q'"
    and lost: "\<And>j x. j \<in> near q \<Longrightarrow> j \<notin> near q' \<Longrightarrow> entry_of m' j = Some x \<Longrightarrow> \<not> unsettled x"
  shows "queues_ok m'"
proof -
  have other: "queue_ok m' p" if p: "queue_of m h = Some p" "h \<noteq> g" for h p
  proof -
    have pk: "queue_ok m p" and pg: "gq_group p = h" using ok p by (auto simp: queues_ok_def dest: queue_of_group)
    have far: "j \<notin> near q" if "j \<in> near p" for j
      using that near_entry [OF pk] near_entry [OF queues_okD [OF ok q]] p(2) pg queue_of_group [OF q] by fastforce
    have same: "\<exists>y. entry_of m' j = Some y \<and> e_group y = e_group x \<and> e_state y = e_state x"
      if "j \<in> near p" "entry_of m j = Some x" for j x
      using far [OF that(1)] that(2) en entry_of_id [OF that(2)] by auto
    have "line_up m' p = line_up m p" using p(2) pg by (simp add: line_up_def st)
    moreover have "\<forall>i \<in> set (gq_queue p). \<exists>x. entry_of m' i = Some x \<and> e_group x = gq_group p \<and> e_state x \<in> {Q_Waiting, Q_Cancelled}"
    proof
      fix i assume i: "i \<in> set (gq_queue p)"
      then obtain x where "entry_of m i = Some x" "e_group x = gq_group p" "e_state x \<in> {Q_Waiting, Q_Cancelled}"
        using pk unfolding queue_ok_def by blast
      then show "\<exists>x. entry_of m' i = Some x \<and> e_group x = gq_group p \<and> e_state x \<in> {Q_Waiting, Q_Cancelled}"
        using same [of i x] i by (auto simp: near_def)
    qed
    moreover have "\<forall>i \<in> set_option (in_hand (gq_worker p)).
        \<exists>x. entry_of m' i = Some x \<and> e_group x = gq_group p \<and> hand_ok (gq_worker p) (e_state x)"
    proof
      fix i assume i: "i \<in> set_option (in_hand (gq_worker p))"
      then obtain x where "entry_of m i = Some x" "e_group x = gq_group p" "hand_ok (gq_worker p) (e_state x)"
        using pk unfolding queue_ok_def by blast
      then show "\<exists>x. entry_of m' i = Some x \<and> e_group x = gq_group p \<and> hand_ok (gq_worker p) (e_state x)"
        using same [of i x] i by (auto simp: near_def)
    qed
    moreover have "started_runs m' (gq_group p) = started_runs m (gq_group p)" using p(2) pg by (simp add: st)
    ultimately show ?thesis using pk nx unfolding queue_ok_def by metis
  qed
  have kept: "\<exists>p. queue_of m' (e_group y) = Some p \<and> i \<in> near p" if y: "entry_of m' i = Some y" "unsettled y" for i y
  proof -
    obtain x where x: "entry_of m i = Some x" "y = F i x" using y en by auto
    show ?thesis
    proof (cases "i \<in> near q")
      case True
      then have "e_group x = g" using near_entry [OF queues_okD [OF ok q] True] x queue_of_group [OF q] by auto
      moreover have "i \<in> near q'" using lost [OF True _ y(1)] y(2) by blast
      ultimately show ?thesis using x en(2) q' by auto
    next
      case False
      then have "unsettled x" using y x en(3) entry_of_id [OF x(1)] by (simp add: unsettled_def)
      with ok x obtain p where "queue_of m (e_group x) = Some p" "i \<in> near p" unfolding queues_ok_def by blast
      moreover have "e_group x \<noteq> g" using calculation q False by auto
      ultimately show ?thesis using x en(2) q' by auto
    qed
  qed
  have "distinct (group_keys m')" "\<forall>i x. entry_of m' i = Some x \<longrightarrow> i < q_next m'"
    using ok q' en nx by (auto simp: queues_ok_def)
  moreover have "\<forall>h p. queue_of m' h = Some p \<longrightarrow> queue_ok m' p"
    using other k q' by auto
  moreover have "\<forall>h. queue_of m' h = None \<longrightarrow> started_runs m' h = []"
    using ok q' st by (auto simp: queues_ok_def)
  ultimately show ?thesis using kept unfolding queues_ok_def by blast
qed

subsection \<open>Every step keeps it\<close>

lemma sorted_wrt_subseq: "subseq xs ys \<Longrightarrow> sorted_wrt P ys \<Longrightarrow> sorted_wrt P xs"
  by (induction rule: list_emb.induct) (auto dest: list_emb_set)

lemma subseq_mid: "subseq v v' \<Longrightarrow> subseq (xs @ v @ ys) (xs @ v' @ ys)"
  by (intro list_emb_append_mono) auto

lemma subseq_drop: "subseq (xs @ zs) (xs @ ys @ zs)"
  using subseq_mid [of "[]" ys xs zs] by simp

lemma queue_ok_change:
  assumes k: "queue_ok m q" and g: "gq_group q' = gq_group q" and nx: "q_next m' = q_next m" "q_max_size m' = q_max_size m"
    and l: "subseq (line_up m' q') (line_up m q)"
    and qs: "set (gq_queue q') \<subseteq> set (gq_queue q)" "length (gq_queue q') \<le> length (gq_queue q)"
    and c: "gq_current q' = current_of (gq_worker q')" "set_option (gq_current q') \<subseteq> set (started_runs m' (gq_group q))"
    and en: "\<And>i x. i \<in> set (gq_queue q') \<Longrightarrow> entry_of m i = Some x \<Longrightarrow> e_state x \<in> {Q_Waiting, Q_Cancelled} \<Longrightarrow>
      \<exists>y. entry_of m' i = Some y \<and> e_group y = e_group x \<and> e_state y \<in> {Q_Waiting, Q_Cancelled}"
    and hd: "\<And>i. in_hand (gq_worker q') = Some i \<Longrightarrow>
      \<exists>y. entry_of m' i = Some y \<and> e_group y = gq_group q \<and> hand_ok (gq_worker q') (e_state y)"
  shows "queue_ok m' q'"
proof -
  have "sorted_wrt (<) (line_up m' q')" using sorted_wrt_subseq [OF l] k by (simp add: queue_ok_def)
  moreover have "\<forall>i \<in> set (line_up m' q'). i < q_next m'"
    using list_emb_set [OF l] k nx by (metis queue_ok_def)
  moreover have "\<exists>y. entry_of m' i = Some y \<and> e_group y = gq_group q' \<and> e_state y \<in> {Q_Waiting, Q_Cancelled}"
    if i: "i \<in> set (gq_queue q')" for i
  proof -
    obtain x where "entry_of m i = Some x" "e_group x = gq_group q" "e_state x \<in> {Q_Waiting, Q_Cancelled}"
      using k i qs unfolding queue_ok_def by blast
    with en [OF i] g show ?thesis by fastforce
  qed
  moreover have "int (length (gq_queue q')) \<le> max 0 (q_max_size m')"
    using k qs nx unfolding queue_ok_def by linarith
  ultimately show ?thesis using c hd g unfolding queue_ok_def by auto
qed

lemma hand_entry:
  "queue_ok m q \<Longrightarrow> in_hand (gq_worker q) = Some i \<Longrightarrow>
     \<exists>x. entry_of m i = Some x \<and> e_group x = gq_group q \<and> hand_ok (gq_worker q) (e_state x)"
  unfolding queue_ok_def by auto

lemma queued_entry:
  "queue_ok m q \<Longrightarrow> i \<in> set (gq_queue q) \<Longrightarrow>
     \<exists>x. entry_of m i = Some x \<and> e_group x = gq_group q \<and> e_state x \<in> {Q_Waiting, Q_Cancelled}"
  unfolding queue_ok_def by auto

lemma hand_current: "queue_ok m q \<Longrightarrow> gq_current q = current_of (gq_worker q)"
  unfolding queue_ok_def by auto

lemma current_started: "queue_ok m q \<Longrightarrow> gq_current q = Some i \<Longrightarrow> i \<in> set (started_runs m (gq_group q))"
  unfolding queue_ok_def by auto

lemma current_subset: "queue_ok m q \<Longrightarrow> set_option (gq_current q) \<subseteq> set (started_runs m (gq_group q))"
  unfolding queue_ok_def by blast

lemma current_in_hand: "current_of w = Some i \<Longrightarrow> in_hand w = Some i"
  by (cases w) auto

lemma hand_not_queued: "queue_ok m q \<Longrightarrow> in_hand (gq_worker q) = Some i \<Longrightarrow> i \<notin> set (gq_queue q)"
  unfolding queue_ok_def line_up_def
  by (cases "gq_worker q") (fastforce simp: sorted_wrt_append)+

lemma queues_ok_goto:
  assumes ok: "queues_ok m" and q: "queue_of m g = Some q" and w: "current_of w = current_of (gq_worker q)"
    "subseq (unannounced w) (unannounced (gq_worker q))"
    and hd: "\<And>i x. in_hand w = Some i \<Longrightarrow> in_hand (gq_worker q) = Some i \<and>
      (entry_of m i = Some x \<longrightarrow> hand_ok (gq_worker q) (e_state x) \<longrightarrow> hand_ok w (e_state x))"
    and lost: "\<And>i x. in_hand (gq_worker q) = Some i \<Longrightarrow> in_hand w \<noteq> Some i \<Longrightarrow> entry_of m i = Some x \<Longrightarrow> \<not> unsettled x"
  shows "queues_ok (goto g w m)"
proof (rule queues_ok_upd [OF ok q, where q' = "q\<lparr>gq_worker := w\<rparr>" and new = "[]" and F = "\<lambda>j x. x"])
  have k: "queue_ok m q" by (rule queues_okD [OF ok q])
  show "queue_ok (goto g w m) (q\<lparr>gq_worker := w\<rparr>)"
  proof (rule queue_ok_change [OF k])
    show "subseq (line_up (goto g w m) (q\<lparr>gq_worker := w\<rparr>)) (line_up m q)"
      using subseq_mid [OF w(2)] by (simp add: line_up_def)
    show "set_option (gq_current (q\<lparr>gq_worker := w\<rparr>)) \<subseteq> set (started_runs (goto g w m) (gq_group q))"
      using current_subset [OF k] by simp
    fix i assume i: "in_hand (gq_worker (q\<lparr>gq_worker := w\<rparr>)) = Some i"
    with hd have "in_hand (gq_worker q) = Some i" by simp
    from hand_entry [OF k this] obtain y where "entry_of m i = Some y" "e_group y = gq_group q"
      "hand_ok (gq_worker q) (e_state y)" by blast
    then show "\<exists>y. entry_of (goto g w m) i = Some y \<and> e_group y = gq_group q \<and> hand_ok (gq_worker (q\<lparr>gq_worker := w\<rparr>)) (e_state y)"
      using hd [of i y] i by simp
  qed (use w hand_current [OF k] in auto)
qed (use q lost in \<open>auto simp: near_def option.map_ident\<close>)

lemma drop_cancelled:
  assumes "dropWhile (is_cancelled m) xs = i # is"
  shows "\<not> is_cancelled m i \<and> (\<exists>ys. xs = ys @ i # is \<and> (\<forall>j \<in> set ys. is_cancelled m j))"
  using assms by (metis dropWhile_eq_Cons_conv set_takeWhileD takeWhile_dropWhile_id)

lemma queues_ok_pick:
  assumes ok: "queues_ok m" and q: "queue_of m g = Some q" and w: "gq_worker q = W_Top"
  shows "queues_ok (put_queue g (pick_next m) m)"
proof -
  have k: "queue_ok m q" by (rule queues_okD [OF ok q])
  have gone: "\<not> unsettled x" if "is_cancelled m j" "entry_of m j = Some x" for j x
    using that by (simp add: is_cancelled_def state_of_def unsettled_def)
  show ?thesis
  proof (cases "dropWhile (is_cancelled m) (gq_queue q)")
    case Nil
    then have all: "\<forall>j \<in> set (gq_queue q). is_cancelled m j" by (simp add: dropWhile_eq_Nil_conv)
    have p: "pick_next m q = q\<lparr>gq_queue := [], gq_current := None, gq_new_item := False, gq_worker := W_Idle\<rparr>"
      unfolding pick_next_def Nil by simp
    have "queue_ok (put_queue g (pick_next m) m) (pick_next m q)"
      unfolding p by (rule queue_ok_change [OF k]) (auto simp: line_up_def)
    then show ?thesis
      by (intro queues_ok_upd [OF ok q, where q' = "pick_next m q" and new = "[]" and F = "\<lambda>j x. x"])
        (use q w all gone p in \<open>auto simp: option.map_ident near_def\<close>)
  next
    case (Cons i "is")
    from drop_cancelled [OF Cons] obtain ys where i: "\<not> is_cancelled m i" and ys: "gq_queue q = ys @ i # is"
      "\<forall>j \<in> set ys. is_cancelled m j" by blast
    have i': "i \<in> set (gq_queue q)" by (simp add: ys)
    from queued_entry [OF k i'] obtain x where x: "entry_of m i = Some x" "e_group x = gq_group q" "e_state x = Q_Waiting"
      using i by (auto simp: is_cancelled_def state_of_def)
    have p: "pick_next m q = q\<lparr>gq_queue := is, gq_worker := W_Picked i\<rparr>"
      unfolding pick_next_def Cons by simp
    have "queue_ok (put_queue g (pick_next m) m) (pick_next m q)"
      unfolding p
      by (rule queue_ok_change [OF k])
        (use w x hand_current [OF k] subseq_drop [of "started_runs m (gq_group q)" "i # is" ys] in \<open>auto simp: line_up_def ys\<close>)
    then show ?thesis
      by (intro queues_ok_upd [OF ok q, where q' = "pick_next m q" and new = "[]" and F = "\<lambda>j x. x"])
        (use q w ys gone p in \<open>auto simp: option.map_ident near_def\<close>)
  qed
qed

lemma queues_ok_wake:
  assumes ok: "queues_ok m" and q: "queue_of m g = Some q" and w: "gq_worker q = W_Idle"
  shows "queues_ok (put_queue g wake_up m)"
proof -
  have k: "queue_ok m q" by (rule queues_okD [OF ok q])
  have "queue_ok (put_queue g wake_up m) (wake_up q)"
    by (cases "gq_queue q = []"; rule queue_ok_change [OF k])
      (use w hand_current [OF k] in \<open>auto simp: wake_up_def line_up_def\<close>)
  then show ?thesis
    by (intro queues_ok_upd [OF ok q, where q' = "wake_up q" and new = "[]" and F = "\<lambda>j x. x"])
      (use q w in \<open>auto simp: option.map_ident wake_up_def near_def split: if_splits\<close>)
qed

text \<open>A step that sets the state of the entry in hand and moves on.\<close>

lemma queues_ok_state:
  assumes ok: "queues_ok m" and q: "queue_of m g = Some q" and h: "in_hand (gq_worker q) = Some i"
    and w: "current_of w = current_of (gq_worker q)" "subseq (unannounced w) (unannounced (gq_worker q))"
    and hd: "if in_hand w = None then v \<notin> {Q_Waiting, Q_Running} else in_hand w = Some i \<and> hand_ok w v"
  shows "queues_ok (goto g w (set_state i v m))"
proof -
  have k: "queue_ok m q" by (rule queues_okD [OF ok q])
  have nq: "i \<notin> set (gq_queue q)" by (rule hand_not_queued [OF k h])
  obtain x where x: "entry_of m i = Some x" "e_group x = gq_group q" using hand_entry [OF k h] by auto
  have "queue_ok (goto g w (set_state i v m)) (q\<lparr>gq_worker := w\<rparr>)"
  proof (rule queue_ok_change [OF k])
    show "subseq (line_up (goto g w (set_state i v m)) (q\<lparr>gq_worker := w\<rparr>)) (line_up m q)"
      using subseq_mid [OF w(2)] by (simp add: line_up_def)
    show "set_option (gq_current (q\<lparr>gq_worker := w\<rparr>)) \<subseteq> set (started_runs (goto g w (set_state i v m)) (gq_group q))"
      using current_subset [OF k] by simp
    fix j assume j: "in_hand (gq_worker (q\<lparr>gq_worker := w\<rparr>)) = Some j"
    then show "\<exists>y. entry_of (goto g w (set_state i v m)) j = Some y \<and> e_group y = gq_group q \<and>
        hand_ok (gq_worker (q\<lparr>gq_worker := w\<rparr>)) (e_state y)"
      using hd x entry_of_id [OF x(1)] by auto
  next
    fix j y assume "j \<in> set (gq_queue (q\<lparr>gq_worker := w\<rparr>))" "entry_of m j = Some y" "e_state y \<in> {Q_Waiting, Q_Cancelled}"
    then show "\<exists>z. entry_of (goto g w (set_state i v m)) j = Some z \<and> e_group z = e_group y \<and> e_state z \<in> {Q_Waiting, Q_Cancelled}"
      using nq by (auto dest: entry_of_id)
  qed (use w hand_current [OF k] in auto)
  then show ?thesis
    by (intro queues_ok_upd [OF ok q, where q' = "q\<lparr>gq_worker := w\<rparr>" and new = "[]"
          and F = "\<lambda>j x. if e_id x = i then x\<lparr>e_state := v\<rparr> else x"])
      (use q h hd x entry_of_id [OF x(1)] in \<open>auto simp: near_def unsettled_def split: if_splits\<close>)
qed

lemma queues_ok_begin:
  assumes ok: "queues_ok m" and q: "queue_of m g = Some q" and w: "gq_worker q = W_Picked i"
  shows "queues_ok (begin_entry now g i m)"
proof -
  obtain x where x: "entry_of m i = Some x" "e_state x = Q_Waiting"
    using hand_entry [OF queues_okD [OF ok q], of i] w by auto
  have "queues_ok (goto g W_Top (set_state i Q_Expired m))"
    by (rule queues_ok_state [OF ok q]) (use w in auto)
  moreover have "queues_ok (goto g (W_Claimed i) (set_state i Q_Running m))"
    by (rule queues_ok_state [OF ok q]) (use w in auto)
  ultimately show ?thesis using x by (simp add: begin_entry_def)
qed

lemma queues_ok_claim:
  assumes ok: "queues_ok m" and q: "queue_of m g = Some q" and w: "gq_worker q = W_Claimed i"
  shows "queues_ok (claim_entry g i m)"
proof -
  have k: "queue_ok m q" by (rule queues_okD [OF ok q])
  have g: "gq_group q = g" using q by (rule queue_of_group)
  obtain x where x: "entry_of m i = Some x" "e_group x = g" "e_state x = Q_Running"
    using hand_entry [OF k, of i] w g by auto
  let ?q = "q\<lparr>gq_current := Some i, gq_worker := W_Zones i (e_zones x)\<rparr>"
  have "queue_ok (claim_entry g i m) ?q"
    by (rule queue_ok_change [OF k]) (use w x g in \<open>auto simp: claim_entry_def line_up_def\<close>)
  then show ?thesis
    by (intro queues_ok_upd [OF ok q, where q' = ?q and new = "[i]" and F = "\<lambda>j x. x"])
      (use w x q in \<open>auto simp: claim_entry_def near_def option.map_ident\<close>)
qed

lemma queue_ok_cong:
  assumes "\<And>i. entry_of m' i = entry_of m i" "\<And>g. started_runs m' g = started_runs m g"
    "q_next m' = q_next m" "q_max_size m' = q_max_size m"
  shows "queue_ok m' q = queue_ok m q"
  using assms by (simp add: queue_ok_def line_up_def)

lemma queues_ok_cong:
  assumes "\<And>i. entry_of m' i = entry_of m i" "\<And>g. queue_of m' g = queue_of m g" "\<And>g. started_runs m' g = started_runs m g"
    "q_next m' = q_next m" "q_max_size m' = q_max_size m" "group_keys m' = group_keys m"
  shows "queues_ok m' = queues_ok m"
proof -
  have "queue_ok m' q = queue_ok m q" for q using assms by (intro queue_ok_cong)
  then show ?thesis using assms by (simp add: queues_ok_def)
qed

lemma queues_ok_outside [simp]:
  "queues_ok (m\<lparr>q_overflows := v\<rparr>) = queues_ok m" "queues_ok (m\<lparr>q_float := a\<rparr>) = queues_ok m"
  by (rule queues_ok_cong; simp add: entry_of_def queue_of_def started_runs_def group_keys_def)+

lemma queues_ok_audit: "queues_ok m \<Longrightarrow> a \<noteq> Run_Started \<Longrightarrow> queues_ok (audit_run g i a m)"
  by (subst queues_ok_cong) auto

lemma queues_ok_finish:
  assumes ok: "queues_ok m" and q: "queue_of m g = Some q" and w: "gq_worker q = W_Returned i res"
  shows "queues_ok (finish_run g i res m)"
proof -
  obtain x where x: "entry_of m i = Some x" "e_state x \<in> {Q_Running, Q_Cancelled}"
    using hand_entry [OF queues_okD [OF ok q], of i] w by auto
  have s: "queues_ok (goto g (W_Settle i v) m)" if "v \<in> {Q_Completed, Q_Failed}" for v
    by (rule queues_ok_goto [OF ok q]) (use w that in auto)
  have r: "queues_ok (goto g (W_Release i) (audit_run g i (Run_Completed Q_Cancelled) m))"
    "queues_ok (goto g (W_Release i) m)" if "e_state x = Q_Cancelled"
  proof -
    show "queues_ok (goto g (W_Release i) m)" by (rule queues_ok_goto [OF ok q]) (use w x that in auto)
    have "queues_ok (audit_run g i (Run_Completed Q_Cancelled) m)" by (rule queues_ok_audit [OF ok]) simp
    then show "queues_ok (goto g (W_Release i) (audit_run g i (Run_Completed Q_Cancelled) m))"
      by (rule queues_ok_goto) (use w x q that in auto)
  qed
  show ?thesis using x s r by (cases res) (auto simp: finish_run_def state_of_def)
qed

lemma queues_ok_settle:
  assumes ok: "queues_ok m" and q: "queue_of m g = Some q" and w: "gq_worker q = W_Settle i v"
  shows "queues_ok (settle_run g i v m)"
proof -
  have a: "queues_ok (audit_run g i (Run_Completed v) m)" by (rule queues_ok_audit [OF ok]) simp
  have v: "v \<in> {Q_Completed, Q_Failed}" using hand_entry [OF queues_okD [OF ok q], of i] w by auto
  have "queues_ok (goto g (W_Release i) (set_state i v (audit_run g i (Run_Completed v) m)))"
    by (rule queues_ok_state [OF a]) (use w q v in auto)
  then show ?thesis unfolding settle_run_def by (subst queues_ok_cong) auto
qed

lemma queues_ok_release:
  assumes ok: "queues_ok m" and q: "queue_of m g = Some q" and w: "gq_worker q = W_Release i"
  shows "queues_ok (put_queue g (release_run i) m)"
proof -
  have k: "queue_ok m q" by (rule queues_okD [OF ok q])
  obtain x where x: "entry_of m i = Some x" "e_state x \<in> {Q_Completed, Q_Failed, Q_Cancelled}"
    using hand_entry [OF k, of i] w by auto
  have "queue_ok (put_queue g (release_run i) m) (release_run i q)"
    by (rule queue_ok_change [OF k]) (use w hand_current [OF k] in \<open>auto simp: release_run_def line_up_def\<close>)
  then show ?thesis
    by (intro queues_ok_upd [OF ok q, where q' = "release_run i q" and new = "[]" and F = "\<lambda>j x. x"])
      (use w x q in \<open>auto simp: release_run_def near_def option.map_ident unsettled_def\<close>)
qed

lemma queues_ok_drain:
  assumes ok: "queues_ok m" and q: "queue_of m g = Some q" and w: "gq_worker q = W_Drain"
  shows "queues_ok (drain_queue g q m)"
proof -
  have k: "queue_ok m q" by (rule queues_okD [OF ok q])
  let ?q = "q\<lparr>gq_queue := [], gq_current := None, gq_worker := W_Leaving\<rparr>"
  let ?F = "\<lambda>x. if e_id x \<in> set (gq_queue q) \<and> e_state x = Q_Waiting then x\<lparr>e_state := Q_Cancelled\<rparr> else x"
  have "queue_ok (drain_queue g q m) ?q"
    by (rule queue_ok_change [OF k]) (use w in \<open>auto simp: drain_queue_def line_up_def\<close>)
  moreover have "\<not> unsettled y" if y: "j \<in> set (gq_queue q)" "entry_of (drain_queue g q m) j = Some y" for j y
  proof -
    obtain x where x: "entry_of m j = Some x" "e_state x \<in> {Q_Waiting, Q_Cancelled}"
      using queued_entry [OF k y(1)] by blast
    then show ?thesis using y entry_of_id [OF x(1)] by (auto simp: drain_queue_def unsettled_def)
  qed
  ultimately show ?thesis
    by (intro queues_ok_upd [OF ok q, where q' = ?q and new = "[]" and F = "\<lambda>j. ?F"])
      (use w q in \<open>auto simp: drain_queue_def near_def\<close>)
qed

lemma queues_ok_work: "queues_ok m \<Longrightarrow> queues_ok (work now g m)"
proof (cases "queue_of m g")
  case (Some q)
  assume ok: "queues_ok m"
  have go: "queues_ok (goto g w m)"
    if "in_hand w = in_hand (gq_worker q)" "current_of w = current_of (gq_worker q)"
      "unannounced w = unannounced (gq_worker q)" "hand_ok w = hand_ok (gq_worker q)" for w
    by (rule queues_ok_goto [OF ok Some]) (use that in auto)
  show ?thesis
    using ok Some
    by (cases "gq_worker q")
      (auto simp: work_def next_zone_def poll_float_def after_pause_def fun_eq_iff
        intro: queues_ok_pick queues_ok_wake queues_ok_begin queues_ok_claim queues_ok_finish queues_ok_settle
          queues_ok_release queues_ok_drain go split: option.splits sum.splits bool.splits)
qed (simp add: work_def)

lemma queue_of_mem: "queues_ok m \<Longrightarrow> q \<in> set (q_groups m) \<Longrightarrow> queue_of m (gq_group q) = Some q"
  by (simp add: queues_ok_def group_keys_def queue_of_def row_at_mem_unique)

lemma hand_ok_cancelled: "current_of w = Some i \<Longrightarrow> hand_ok w v \<Longrightarrow> hand_ok w Q_Cancelled"
  by (cases w) auto

lemma queues_ok_cancel:
  assumes ok: "queues_ok m" and q: "queue_of m g = Some q"
    and p: "\<And>x. entry_of m (e_id x) = Some x \<Longrightarrow> p x \<Longrightarrow> holds (e_id x) q"
  shows "queues_ok (put_entries p cancelled m)"
proof -
  have k: "queue_ok m q" by (rule queues_okD [OF ok q])
  let ?F = "\<lambda>j x. if entry_of m j = Some x \<and> p x then cancelled x else x"
  have en: "entry_of (put_entries p cancelled m) j = map_option (?F j) (entry_of m j)" for j
    by (cases "entry_of m j") auto
  have far: "e_state (?F j x) = e_state x" if "j \<notin> near q" "e_id x = j" for j x
    using that p [of x] k by (auto simp: near_def holds_def hand_current dest!: current_in_hand)
  have "queue_ok (put_entries p cancelled m) q"
  proof (rule queue_ok_change [OF k])
    show "set_option (gq_current q) \<subseteq> set (started_runs (put_entries p cancelled m) (gq_group q))"
      using current_subset [OF k] by simp
    show "subseq (line_up (put_entries p cancelled m) q) (line_up m q)" by (simp add: line_up_def)
    fix i assume i: "in_hand (gq_worker q) = Some i"
    obtain x where x: "entry_of m i = Some x" "e_group x = gq_group q" "hand_ok (gq_worker q) (e_state x)"
      using hand_entry [OF k i] by blast
    show "\<exists>y. entry_of (put_entries p cancelled m) i = Some y \<and> e_group y = gq_group q \<and> hand_ok (gq_worker q) (e_state y)"
    proof (cases "p x")
      case True
      then have "holds i q" using p [of x] x entry_of_id by fastforce
      then have "current_of (gq_worker q) = Some i"
        using hand_not_queued [OF k i] hand_current [OF k] by (simp add: holds_def)
      then show ?thesis using x True hand_ok_cancelled by auto
    qed (use x in simp)
  qed (use hand_current [OF k] in auto)
  then show ?thesis
    by (intro queues_ok_upd [OF ok q, where q' = q and new = "[]" and F = ?F]) (use q en far in auto)
qed

lemma queues_ok_cancel_entry: "queues_ok m \<Longrightarrow> queues_ok (snd (cancel_entry i m))"
  unfolding cancel_entry_def
  by (auto simp: list_ex_iff intro: queues_ok_cancel [OF _ queue_of_mem])

lemma queues_ok_cancel_in:
  assumes "queues_ok m" "queue_of m g = Some q" "gq_queue q' = gq_queue q" "gq_current q' = gq_current q"
  shows "queues_ok (snd (cancel_in p q' m))"
  using assms unfolding cancel_in_def by (auto simp: takes_def holds_def intro!: queues_ok_cancel)

lemma snd_cancel_program: "snd (cancel_program_entries pid m) =
    fold (\<lambda>q m. snd (cancel_in (\<lambda>x. e_program x = pid) q m)) (q_groups m) m"
proof -
  have "snd (fold (\<lambda>q (n, m). case cancel_in (\<lambda>x. e_program x = pid) q m of (k, m') \<Rightarrow> (n + k, m')) qs (n, t)) =
    fold (\<lambda>q m. snd (cancel_in (\<lambda>x. e_program x = pid) q m)) qs t" for qs n t
    by (induction qs arbitrary: n t) (auto simp: split_def)
  then show ?thesis by (simp add: cancel_program_entries_def)
qed

lemma fold_keeps:
  assumes "P m" "\<And>x t. x \<in> set xs \<Longrightarrow> P t \<Longrightarrow> P (f x t)"
  shows "P (fold f xs m)"
  using assms by (induction xs arbitrary: m) auto

lemma queues_ok_cancel_program: "queues_ok m \<Longrightarrow> queues_ok (snd (cancel_program_entries pid m))"
proof -
  assume ok: "queues_ok m"
  have "queues_ok t \<and> q_groups t = q_groups m"
    if "t = fold (\<lambda>q m. snd (cancel_in (\<lambda>x. e_program x = pid) q m)) (q_groups m) m" for t
    unfolding that
  proof (rule fold_keeps)
    fix q t assume q: "q \<in> set (q_groups m)" and t: "queues_ok t \<and> q_groups t = q_groups m"
    then have "queue_of t (gq_group q) = Some q" using queue_of_mem [of t q] by simp
    then show "queues_ok (snd (cancel_in (\<lambda>x. e_program x = pid) q t)) \<and>
        q_groups (snd (cancel_in (\<lambda>x. e_program x = pid) q t)) = q_groups m"
      using t by (auto intro: queues_ok_cancel_in) (simp add: cancel_in_def)
  qed (use ok in auto)
  then show ?thesis by (simp add: snd_cancel_program)
qed

text \<open>Flags of a group's queue say nothing about its entries.\<close>

lemma queue_ok_flags:
  "queue_ok m (q\<lparr>gq_cancel := b\<rparr>) = queue_ok m q" "queue_ok m (q\<lparr>gq_new_item := c\<rparr>) = queue_ok m q"
  by (simp_all add: queue_ok_def line_up_def)

lemma near_flags [simp]: "near (q\<lparr>gq_cancel := b\<rparr>) = near q" "near (q\<lparr>gq_new_item := c\<rparr>) = near q"
  by (simp_all add: near_def)

lemma queues_ok_cancel_queue: "queues_ok m \<Longrightarrow> queues_ok (snd (cancel_queue g m))"
proof (cases "queue_of m g")
  case (Some q)
  assume ok: "queues_ok m"
  let ?m = "put_queue g (\<lambda>q. q\<lparr>gq_cancel := True\<rparr>) m"
  have "queue_ok ?m (q\<lparr>gq_cancel := True\<rparr>)"
    unfolding queue_ok_flags by (subst queue_ok_cong [of _ m]) (use queues_okD [OF ok Some] in auto)
  then have "queues_ok ?m"
    by (intro queues_ok_upd [OF ok Some, where q' = "q\<lparr>gq_cancel := True\<rparr>" and new = "[]" and F = "\<lambda>j x. x"])
      (use Some in \<open>auto simp: option.map_ident\<close>)
  then show ?thesis using Some queues_ok_cancel_in [of ?m g "q\<lparr>gq_cancel := True\<rparr>" q]
    by (simp add: cancel_queue_def)
qed (simp add: cancel_queue_def)

lemma shutdown_effect:
  "entry_of (shutdown_queues m) i =
     map_option (\<lambda>x. if list_ex (holds (e_id x)) (q_groups m) then x\<lparr>e_cancel := True\<rparr> else x) (entry_of m i)"
  "queue_of (shutdown_queues m) g = map_option (\<lambda>q. q\<lparr>gq_cancel := True, gq_new_item := True\<rparr>) (queue_of m g)"
  "started_runs (shutdown_queues m) g = started_runs m g"
proof -
  show "entry_of (shutdown_queues m) i =
      map_option (\<lambda>x. if list_ex (holds (e_id x)) (q_groups m) then x\<lparr>e_cancel := True\<rparr> else x) (entry_of m i)"
    unfolding shutdown_queues_def by (subst entry_of_put) (auto simp: entry_of_def)
  show "queue_of (shutdown_queues m) g = map_option (\<lambda>q. q\<lparr>gq_cancel := True, gq_new_item := True\<rparr>) (queue_of m g)"
    using row_at_upd_keys [of gq_group "\<lambda>q. q\<lparr>gq_cancel := True, gq_new_item := True\<rparr>" "\<lambda>_. True" "q_groups m" g]
    by (simp add: shutdown_queues_def queue_of_def put_entries_def upd_rows_def)
  show "started_runs (shutdown_queues m) g = started_runs m g"
    by (simp add: shutdown_queues_def started_runs_def put_entries_def)
qed

lemma queues_ok_shutdown:
  assumes ok: "queues_ok m"
  shows "queues_ok (shutdown_queues m)"
proof -
  note e = shutdown_effect(1) and q = shutdown_effect(2) and s = shutdown_effect(3)
  have f: "q_next (shutdown_queues m) = q_next m" "q_max_size (shutdown_queues m) = q_max_size m"
    "group_keys (shutdown_queues m) = group_keys m"
    by (simp_all add: shutdown_queues_def put_entries_def group_keys_def comp_def)
  have st: "\<exists>y. entry_of (shutdown_queues m) i = Some y \<and> e_group y = e_group x \<and> e_state y = e_state x"
    if "entry_of m i = Some x" for i x using that e by auto
  have "queue_ok (shutdown_queues m) (q\<lparr>gq_cancel := True, gq_new_item := True\<rparr>)" if k: "queue_ok m q" for q
  proof (rule queue_ok_change [OF k])
    fix i assume "in_hand (gq_worker (q\<lparr>gq_cancel := True, gq_new_item := True\<rparr>)) = Some i"
    with hand_entry [OF k, of i] st show "\<exists>y. entry_of (shutdown_queues m) i = Some y \<and> e_group y = gq_group q \<and>
        hand_ok (gq_worker (q\<lparr>gq_cancel := True, gq_new_item := True\<rparr>)) (e_state y)" by fastforce
  qed (use f s st hand_current [OF k] current_subset [OF k] in \<open>auto simp: line_up_def dest: st\<close>)
  moreover have "\<exists>p. queue_of (shutdown_queues m) (e_group y) = Some p \<and> i \<in> near p"
    if y: "entry_of (shutdown_queues m) i = Some y" "unsettled y" for i y
  proof -
    obtain x where x: "entry_of m i = Some x" using y e by auto
    with st [OF this] y have "unsettled x" "e_group x = e_group y" by (auto simp: unsettled_def)
    with ok x obtain p where "queue_of m (e_group y) = Some p" "i \<in> near p" unfolding queues_ok_def by metis
    then show ?thesis by (simp add: q)
  qed
  ultimately show ?thesis using ok by (auto simp: queues_ok_def f q s e)
qed

text \<open>Adding: the group gets a queue if it has none, and the new entry goes to its end.\<close>

definition queue_or_new :: "queues \<Rightarrow> int \<Rightarrow> gqueue" where
  "queue_or_new m g = (case queue_of m g of None \<Rightarrow> new_gqueue g | Some q \<Rightarrow> q)"

lemma with_queue_frames:
  "entry_of (with_queue g (m\<lparr>q_next := n\<rparr>)) i = entry_of m i"
  "started_runs (with_queue g (m\<lparr>q_next := n\<rparr>)) h = started_runs m h"
  "q_next (with_queue g (m\<lparr>q_next := n\<rparr>)) = n" "q_max_size (with_queue g (m\<lparr>q_next := n\<rparr>)) = q_max_size m"
  "queue_of (with_queue g (m\<lparr>q_next := n\<rparr>)) h = (if h = g then Some (queue_or_new m g) else queue_of m h)"
  by (auto simp: with_queue_def entry_of_def started_runs_def queue_of_def row_at_append queue_or_new_def
      new_gqueue_def split: option.splits)

lemma with_queue_keys: "distinct (group_keys m) \<Longrightarrow> distinct (group_keys (with_queue g (m\<lparr>q_next := n\<rparr>)))"
  by (auto simp: with_queue_def group_keys_def queue_of_def row_at_None_iff new_gqueue_def split: if_splits)

lemma queue_ok_or_new:
  "queues_ok m \<Longrightarrow> queue_ok m (queue_or_new m g) \<and> gq_group (queue_or_new m g) = g"
proof (cases "queue_of m g")
  case None
  assume "queues_ok m"
  with None have "started_runs m g = []" by (simp add: queues_ok_def)
  with None show ?thesis by (simp add: queue_or_new_def new_gqueue_def queue_ok_def line_up_def)
next
  case (Some q)
  assume "queues_ok m"
  with Some show ?thesis by (auto simp: queue_or_new_def queues_ok_def dest: queue_of_group)
qed

lemma queue_ok_later:
  assumes k: "queue_ok m q" and "\<And>i. entry_of m' i = entry_of m i" "\<And>g. started_runs m' g = started_runs m g"
    "q_next m \<le> q_next m'" "q_max_size m' = q_max_size m"
  shows "queue_ok m' q"
proof -
  have "\<forall>i \<in> set (line_up m q). i < q_next m'" using k assms(4) by (force simp: queue_ok_def)
  moreover have "line_up m' q = line_up m q" using assms by (simp add: line_up_def)
  ultimately show ?thesis using k assms by (simp add: queue_ok_def)
qed

lemma queues_ok_with_queue:
  assumes ok: "queues_ok m"
  shows "queues_ok (with_queue g (m\<lparr>q_next := q_next m + 1\<rparr>))"
proof -
  let ?m = "with_queue g (m\<lparr>q_next := q_next m + 1\<rparr>)"
  have later: "queue_ok ?m q" if "queue_ok m q" for q
    by (rule queue_ok_later [OF that]) (auto simp: with_queue_frames)
  have "\<forall>i x. entry_of ?m i = Some x \<longrightarrow> unsettled x \<longrightarrow> (\<exists>q. queue_of ?m (e_group x) = Some q \<and> i \<in> near q)"
  proof (intro allI impI)
    fix i x assume "entry_of ?m i = Some x" "unsettled x"
    then have "entry_of m i = Some x" "unsettled x" by (auto simp: with_queue_frames)
    with ok obtain q where "queue_of m (e_group x) = Some q" "i \<in> near q" unfolding queues_ok_def by blast
    then show "\<exists>q. queue_of ?m (e_group x) = Some q \<and> i \<in> near q"
      by (auto simp: with_queue_frames queue_or_new_def)
  qed
  then show ?thesis
    using ok queue_ok_or_new [OF ok, of g] later with_queue_keys [of m g]
    by (auto simp: queues_ok_def with_queue_frames split: if_splits)
qed

lemma add_to_queue_fields [simp]:
  "gq_queue (add_to_queue i q) = gq_queue q @ [i]" "gq_current (add_to_queue i q) = gq_current q"
  "in_hand (gq_worker (add_to_queue i q)) = in_hand (gq_worker q)"
  "unannounced (gq_worker (add_to_queue i q)) = unannounced (gq_worker q)"
  "current_of (gq_worker (add_to_queue i q)) = current_of (gq_worker q)"
  "in_hand (gq_worker q) \<noteq> None \<Longrightarrow> gq_worker (add_to_queue i q) = gq_worker q"
  by (auto simp: add_to_queue_def start_worker_def)

lemma entry_of_add:
  "entry_of (m\<lparr>q_entries := q_entries m @ [x]\<rparr>) j =
     (case entry_of m j of Some y \<Rightarrow> Some y | None \<Rightarrow> if e_id x = j then Some x else None)"
  by (simp add: entry_of_def row_at_append split: option.splits)

lemma entry_add_frames:
  "started_runs (m\<lparr>q_entries := v\<rparr>) h = started_runs m h" "group_keys (m\<lparr>q_entries := v\<rparr>) = group_keys m"
  "queue_of (m\<lparr>q_entries := v\<rparr>) h = queue_of m h"
  by (simp_all add: started_runs_def group_keys_def queue_of_def)

lemma queues_ok_enqueue:
  assumes ok: "queues_ok m"
  shows "queues_ok (snd (enqueue now r m))"
proof -
  let ?g = "n_group r" and ?i = "q_next m"
  define m1 where "m1 = with_queue ?g (m\<lparr>q_next := ?i + 1\<rparr>)"
  define q where "q = queue_or_new m ?g"
  have ok1: "queues_ok m1" unfolding m1_def by (rule queues_ok_with_queue [OF ok])
  have q1: "queue_of m1 ?g = Some q" by (simp add: m1_def with_queue_frames q_def)
  show ?thesis
  proof (cases "q_max_size m \<le> in_queue_count q")
    case True
    then show ?thesis using ok1 by (simp add: enqueue_def Let_def m1_def [symmetric] q1)
  next
    case False
    define m2 where "m2 = put_queue ?g (add_to_queue ?i) (m1\<lparr>q_entries := q_entries m1 @ [new_entry now ?i r]\<rparr>)"
    have r: "snd (enqueue now r m) = m2"
      using False by (simp add: enqueue_def Let_def m1_def [symmetric] q1 m2_def)
    have old: "entry_of m1 j = Some x \<Longrightarrow> j < ?i" for j x
      using ok by (auto simp: m1_def with_queue_frames queues_ok_def)
    have en: "entry_of m2 j = (if j = ?i then Some (new_entry now ?i r) else entry_of m1 j)" for j
    proof (cases "entry_of m1 j")
      case None
      then show ?thesis by (simp add: m2_def entry_of_add new_entry_def)
    next
      case (Some x)
      with old have "j < ?i" by blast
      with Some show ?thesis by (simp add: m2_def entry_of_add)
    qed
    have qu: "queue_of m2 h = (if h = ?g then Some (add_to_queue ?i q) else queue_of m1 h)" for h
      using q1 by (simp add: m2_def entry_add_frames)
    have fr: "started_runs m2 h = started_runs m1 h" "q_next m2 = q_next m1" "q_max_size m2 = q_max_size m1"
      "group_keys m2 = group_keys m1" for h
      by (simp_all add: m2_def entry_add_frames)
    have keep: "queue_ok m2 p" if "queue_ok m1 p" for p
    proof (rule queue_ok_change [OF that])
      show "\<And>i. in_hand (gq_worker p) = Some i \<Longrightarrow> \<exists>y. entry_of m2 i = Some y \<and> e_group y = gq_group p \<and> hand_ok (gq_worker p) (e_state y)"
        using hand_entry [OF that] en old by fastforce
    qed (use that fr en old current_subset hand_current in \<open>auto simp: line_up_def\<close>)
    have qk: "queue_ok m2 q" by (rule keep [OF queues_okD [OF ok1 q1]])
    have g: "gq_group q = ?g" using q1 by (rule queue_of_group)
    have lt: "\<forall>j \<in> set (line_up m2 q). j < ?i"
      using queue_ok_or_new [OF ok, of ?g] by (simp add: q_def queue_ok_def line_up_def fr) (simp add: m1_def with_queue_frames)
    have nx: "q_next m2 = ?i + 1" by (simp add: fr m1_def with_queue_frames)
    have sz: "int (length (gq_queue q)) < q_max_size m2"
      using False by (simp add: fr m1_def with_queue_frames in_queue_count_def split: if_splits)
    have lu: "line_up m2 (add_to_queue ?i q) = line_up m2 q @ [?i]" by (simp add: line_up_def)
    have nk: "queue_ok m2 (add_to_queue ?i q)"
      unfolding queue_ok_def lu
    proof (intro conjI)
      show "sorted_wrt (<) (line_up m2 q @ [?i])" using qk lt by (simp add: sorted_wrt_append queue_ok_def)
      show "\<forall>j \<in> set (line_up m2 q @ [?i]). j < q_next m2" using lt nx by auto
      show "\<forall>j \<in> set (gq_queue (add_to_queue ?i q)).
          \<exists>x. entry_of m2 j = Some x \<and> e_group x = gq_group (add_to_queue ?i q) \<and> e_state x \<in> {Q_Waiting, Q_Cancelled}"
        using queued_entry [OF qk] en g by (auto simp: new_entry_def)
      show "\<forall>j \<in> set_option (in_hand (gq_worker (add_to_queue ?i q))).
          \<exists>x. entry_of m2 j = Some x \<and> e_group x = gq_group (add_to_queue ?i q) \<and> hand_ok (gq_worker (add_to_queue ?i q)) (e_state x)"
        using hand_entry [OF qk] by auto
    qed (use qk sz in \<open>auto simp: queue_ok_def\<close>)
    have "\<exists>p. queue_of m2 (e_group x) = Some p \<and> j \<in> near p" if "entry_of m2 j = Some x" "unsettled x" for j x
    proof (cases "j = ?i")
      case True
      then show ?thesis using that en qu by (auto simp: new_entry_def near_def)
    next
      case False
      then have "entry_of m1 j = Some x" using that en by simp
      with that ok1 obtain p where "queue_of m1 (e_group x) = Some p" "j \<in> near p" unfolding queues_ok_def by blast
      then show ?thesis using qu q1 by (auto simp: near_def)
    qed
    then have "queues_ok m2"
      using ok1 keep nk nx old by (auto simp: queues_ok_def qu fr en split: if_splits)
    then show ?thesis by (simp add: r)
  qed
qed

theorem queues_ok_step: "queues_ok m \<Longrightarrow> queues_ok (queue_step x m)"
  by (cases x) (simp_all add: queues_ok_enqueue queues_ok_cancel_entry queues_ok_cancel_program
      queues_ok_cancel_queue queues_ok_shutdown queues_ok_work)

interpretation program_queues: safe_machine queue_step queues_ok
  by unfold_locales (rule queues_ok_step)

lemma queue_steps_fold: "queue_steps m m' \<Longrightarrow> \<exists>xs. m' = fold queue_step xs m"
proof (induction rule: queue_steps.induct)
  case (Refl m)
  have "m = fold queue_step [] m" by simp
  then show ?case by blast
next
  case (Step m m' x)
  then obtain xs where "m' = fold queue_step xs m" by blast
  then have "queue_step x m' = fold queue_step (xs @ [x]) m" by simp
  then show ?case by blast
qed

lemma queues_ok_steps: "queue_steps m m' \<Longrightarrow> queues_ok m \<Longrightarrow> queues_ok m'"
  using queue_steps_fold program_queues.ok_run by blast

subsection \<open>What a step can do to one entry\<close>

text \<open>Whether some group still has the entry: queued, or in the hands of its worker.\<close>

definition held_somewhere :: "queues \<Rightarrow> int \<Rightarrow> bool" where
  "held_somewhere m i \<longleftrightarrow> (\<exists>g q. queue_of m g = Some q \<and> i \<in> near q)"

definition handled_somewhere :: "queues \<Rightarrow> int \<Rightarrow> bool" where
  "handled_somewhere m i \<longleftrightarrow> (\<exists>g q. queue_of m g = Some q \<and> in_hand (gq_worker q) = Some i)"

definition tame :: "queues \<Rightarrow> queues \<Rightarrow> bool" where
  "tame m m' \<longleftrightarrow>
     (\<forall>i x. entry_of m i = Some x \<longrightarrow> (\<exists>y. entry_of m' i = Some y \<and>
        (e_state y = e_state x \<or> handled_somewhere m i \<or> held_somewhere m i \<and> e_state y = Q_Cancelled) \<and>
        (held_somewhere m' i \<longrightarrow> held_somewhere m i) \<and>
        (handled_somewhere m' i \<longrightarrow> handled_somewhere m i \<or> e_state x \<noteq> Q_Cancelled) \<and>
        (\<forall>g. i \<in> set (started_runs m' g) \<longrightarrow> i \<in> set (started_runs m g) \<or> handled_somewhere m i)))"

lemma handled_held: "handled_somewhere m i \<Longrightarrow> held_somewhere m i"
  by (auto simp: handled_somewhere_def held_somewhere_def near_def)

text \<open>A step on one queue.\<close>

lemma tame_queue:
  assumes q: "queue_of m g = Some q" and q': "\<And>h. queue_of m' h = (if h = g then Some q' else queue_of m h)"
    and en: "\<And>i x. entry_of m i = Some x \<Longrightarrow> \<exists>y. entry_of m' i = Some y \<and>
      (e_state y = e_state x \<or> in_hand (gq_worker q) = Some i \<or> i \<in> near q \<and> e_state y = Q_Cancelled)"
    and nr: "near q' \<subseteq> near q"
    and hd: "\<And>i x. in_hand (gq_worker q') = Some i \<Longrightarrow> in_hand (gq_worker q) = Some i \<or> \<not> is_cancelled m i"
    and st: "\<And>h i. i \<in> set (started_runs m' h) \<Longrightarrow> i \<in> set (started_runs m h) \<or> in_hand (gq_worker q) = Some i"
  shows "tame m m'"
  unfolding tame_def
proof (intro allI impI)
  fix i x assume x: "entry_of m i = Some x"
  obtain y where y: "entry_of m' i = Some y"
    "e_state y = e_state x \<or> in_hand (gq_worker q) = Some i \<or> i \<in> near q \<and> e_state y = Q_Cancelled"
    using en [OF x] by blast
  have "held_somewhere m i" if "held_somewhere m' i"
    using that q q' nr by (auto simp: held_somewhere_def split: if_splits)
  moreover have "handled_somewhere m i \<or> e_state x \<noteq> Q_Cancelled" if h: "handled_somewhere m' i"
  proof -
    from h obtain k p where k: "queue_of m' k = Some p" "in_hand (gq_worker p) = Some i"
      by (auto simp: handled_somewhere_def)
    show ?thesis
    proof (cases "k = g")
      case True
      then have "in_hand (gq_worker q') = Some i" using k q' by simp
      from hd [OF this] x q show ?thesis by (auto simp: handled_somewhere_def is_cancelled_def state_of_def)
    qed (use k q' in \<open>auto simp: handled_somewhere_def\<close>)
  qed
  moreover have "i \<in> set (started_runs m h) \<or> handled_somewhere m i" if "i \<in> set (started_runs m' h)" for h
    using st [OF that] q by (auto simp: handled_somewhere_def)
  moreover have "e_state y = e_state x \<or> handled_somewhere m i \<or> held_somewhere m i \<and> e_state y = Q_Cancelled"
    using y q by (auto simp: handled_somewhere_def held_somewhere_def)
  ultimately show "\<exists>y. entry_of m' i = Some y \<and>
        (e_state y = e_state x \<or> handled_somewhere m i \<or> held_somewhere m i \<and> e_state y = Q_Cancelled) \<and>
        (held_somewhere m' i \<longrightarrow> held_somewhere m i) \<and>
        (handled_somewhere m' i \<longrightarrow> handled_somewhere m i \<or> e_state x \<noteq> Q_Cancelled) \<and>
        (\<forall>g. i \<in> set (started_runs m' g) \<longrightarrow> i \<in> set (started_runs m g) \<or> handled_somewhere m i)"
    using y by blast
qed

lemma tame_goto:
  assumes "queue_of m g = Some q" "in_hand w = in_hand (gq_worker q) \<or> in_hand w = None"
  shows "tame m (goto g w m)" "in_hand (gq_worker q) = Some i \<Longrightarrow> tame m (goto g w (set_state i v m))"
    "tame m (goto g w (audit_run h j (Run_Completed u) m))"
    "in_hand (gq_worker q) = Some i \<Longrightarrow> tame m (goto g w (audit_run h j (Run_Completed u) (set_state i v m)))"
  by (rule tame_queue [OF assms(1), where q' = "q\<lparr>gq_worker := w\<rparr>"];
      use assms in \<open>auto simp: near_def dest: entry_of_id\<close>)+

lemma tame_refl: "tame m m"
  by (auto simp: tame_def)

lemma tame_work: assumes ok: "queues_ok m" shows "tame m (work now g m)"
proof (cases "queue_of m g")
  case (Some q)
  have pick: "tame m (put_queue g (pick_next m) m)" if "gq_worker q = W_Top"
  proof (cases "dropWhile (is_cancelled m) (gq_queue q)")
    case Nil
    have p: "pick_next m q = q\<lparr>gq_queue := [], gq_current := None, gq_new_item := False, gq_worker := W_Idle\<rparr>"
      unfolding pick_next_def Nil by simp
    show ?thesis by (rule tame_queue [OF Some, where q' = "pick_next m q"]) (use Some p in \<open>auto simp: near_def\<close>)
  next
    case (Cons i "is")
    have p: "pick_next m q = q\<lparr>gq_queue := is, gq_worker := W_Picked i\<rparr>" unfolding pick_next_def Cons by simp
    from drop_cancelled [OF Cons] obtain ys where "\<not> is_cancelled m i" "gq_queue q = ys @ i # is" by blast
    then show ?thesis by (intro tame_queue [OF Some, where q' = "pick_next m q"]) (use Some p in \<open>auto simp: near_def\<close>)
  qed
  have wake: "tame m (put_queue g wake_up m)" if "gq_worker q = W_Idle"
    by (rule tame_queue [OF Some, where q' = "wake_up q"])
      (use Some that in \<open>auto simp: near_def wake_up_def split: if_splits\<close>)
  have claim: "tame m (claim_entry g i m)" if "gq_worker q = W_Claimed i" for i
  proof (cases "entry_of m i")
    case (Some x)
    then show ?thesis
      by (intro tame_queue [OF \<open>queue_of m g = Some q\<close>, where q' = "q\<lparr>gq_current := Some i, gq_worker := W_Zones i (e_zones x)\<rparr>"])
        (use that \<open>queue_of m g = Some q\<close> in \<open>auto simp: near_def claim_entry_def split: if_splits\<close>)
  qed (simp add: claim_entry_def tame_refl)
  have rel: "tame m (put_queue g (release_run i) m)" for i
    by (rule tame_queue [OF Some, where q' = "release_run i q"]) (use Some in \<open>auto simp: near_def release_run_def\<close>)
  have drain: "tame m (drain_queue g q m)"
    by (rule tame_queue [OF Some, where q' = "q\<lparr>gq_queue := [], gq_current := None, gq_worker := W_Leaving\<rparr>"])
      (use Some in \<open>auto simp: near_def drain_queue_def dest: entry_of_id\<close>)
  note go = tame_goto [OF Some]
  show ?thesis
    using Some
    by (cases "gq_worker q")
      (auto simp: work_def next_zone_def poll_float_def after_pause_def begin_entry_def finish_run_def settle_run_def
        intro!: go pick wake claim rel drain tame_refl split: option.splits sum.splits bool.splits)
qed (simp add: work_def tame_refl)

text \<open>Cancelling leaves the queues and the announcements alone.\<close>

definition only_cancels :: "queues \<Rightarrow> queues \<Rightarrow> bool" where
  "only_cancels m m' \<longleftrightarrow> (\<forall>i x. entry_of m i = Some x \<longrightarrow> (\<exists>y. entry_of m' i = Some y \<and>
     (e_state y = e_state x \<or> held_somewhere m i \<and> e_state y = Q_Cancelled)))"

lemma tame_cancels:
  assumes "only_cancels m m'" "\<And>g. started_runs m' g = started_runs m g"
    "\<And>g. map_option (\<lambda>q. (gq_queue q, gq_worker q)) (queue_of m' g) = map_option (\<lambda>q. (gq_queue q, gq_worker q)) (queue_of m g)"
  shows "tame m m'"
proof -
  have "\<exists>p. queue_of m g = Some p \<and> gq_queue p = gq_queue q \<and> gq_worker p = gq_worker q" if "queue_of m' g = Some q" for g q
    using assms(3) [of g] that by (cases "queue_of m g") auto
  then have "held_somewhere m' i \<Longrightarrow> held_somewhere m i" "handled_somewhere m' i \<Longrightarrow> handled_somewhere m i" for i
    unfolding held_somewhere_def handled_somewhere_def near_def by metis+
  then show ?thesis using assms(1,2) unfolding tame_def only_cancels_def by metis
qed

lemma held_holds:
  assumes "queues_ok m" "queue_of m g = Some q" "holds i q"
  shows "held_somewhere m i"
proof -
  have "i \<in> near q"
    using assms(3) hand_current [OF queues_okD [OF assms(1,2)]] by (auto simp: holds_def near_def dest!: current_in_hand)
  then show ?thesis using assms(2) unfolding held_somewhere_def by blast
qed

lemma only_cancels_entry: "queues_ok m \<Longrightarrow> only_cancels m (snd (cancel_entry i m))"
  by (auto simp: cancel_entry_def only_cancels_def list_ex_iff dest: entry_of_id intro: held_holds [OF _ queue_of_mem])

lemma only_cancels_cancel_in:
  assumes ok: "queues_ok m" and q: "queue_of m g = Some q" "gq_queue q' = gq_queue q" "gq_current q' = gq_current q"
    and t: "only_cancels m t"
  shows "only_cancels m (snd (cancel_in p q' t))"
  unfolding only_cancels_def
proof (intro allI impI)
  fix i x assume x: "entry_of m i = Some x"
  obtain y where y: "entry_of t i = Some y" "e_state y = e_state x \<or> held_somewhere m i \<and> e_state y = Q_Cancelled"
    using t x unfolding only_cancels_def by blast
  have "takes p q' y \<Longrightarrow> held_somewhere m i"
    using held_holds [OF ok q(1)] q entry_of_id [OF y(1)] by (auto simp: takes_def holds_def)
  then show "\<exists>y. entry_of (snd (cancel_in p q' t)) i = Some y \<and> (e_state y = e_state x \<or> held_somewhere m i \<and> e_state y = Q_Cancelled)"
    using y by (auto simp: cancel_in_def)
qed

lemma only_cancels_refl: "only_cancels m m"
  by (simp add: only_cancels_def)

lemma only_cancels_program:
  "queues_ok m \<Longrightarrow> only_cancels m (snd (cancel_program_entries pid m)) \<and>
     q_groups (snd (cancel_program_entries pid m)) = q_groups m \<and>
     started_runs (snd (cancel_program_entries pid m)) = started_runs m"
  unfolding snd_cancel_program
  by (rule fold_keeps)
    (auto intro: only_cancels_cancel_in [OF _ queue_of_mem] simp: only_cancels_refl, auto simp: cancel_in_def)

lemma outside_frames [simp]:
  "entry_of (m\<lparr>q_overflows := v\<rparr>) i = entry_of m i" "queue_of (m\<lparr>q_overflows := v\<rparr>) g = queue_of m g"
  "started_runs (m\<lparr>q_overflows := v\<rparr>) g = started_runs m g"
  "entry_of (m\<lparr>q_float := a\<rparr>) i = entry_of m i" "queue_of (m\<lparr>q_float := a\<rparr>) g = queue_of m g"
  "started_runs (m\<lparr>q_float := a\<rparr>) g = started_runs m g"
  by (simp_all add: entry_of_def queue_of_def started_runs_def)

lemma enqueue_effect:
  assumes ok: "queues_ok m"
  shows "entry_of m i = Some x \<Longrightarrow> entry_of (snd (enqueue now r m)) i = Some x"
    and "started_runs (snd (enqueue now r m)) g = started_runs m g"
    and "queue_of (snd (enqueue now r m)) g = Some q' \<Longrightarrow>
      in_hand (gq_worker q') = in_hand (gq_worker (queue_or_new m g)) \<and> near q' \<subseteq> insert (q_next m) (near (queue_or_new m g))"
proof -
  have en: "enqueue now r m = (let m1 = with_queue (n_group r) (m\<lparr>q_next := q_next m + 1\<rparr>); q = queue_or_new m (n_group r)
    in if q_max_size m \<le> in_queue_count q
       then (None, if q_telegram m1 then m1\<lparr>q_overflows := q_overflows m1 @ [n_group r]\<rparr> else m1)
       else (Some (new_entry now (q_next m) r), put_queue (n_group r) (add_to_queue (q_next m))
               (m1\<lparr>q_entries := q_entries m1 @ [new_entry now (q_next m) r]\<rparr>)))"
    by (simp add: enqueue_def Let_def with_queue_frames)
  show "entry_of m i = Some x \<Longrightarrow> entry_of (snd (enqueue now r m)) i = Some x"
    by (simp add: en Let_def entry_of_add with_queue_frames)
  show "started_runs (snd (enqueue now r m)) g = started_runs m g"
    by (simp add: en Let_def entry_add_frames with_queue_frames)
  show "queue_of (snd (enqueue now r m)) g = Some q' \<Longrightarrow>
      in_hand (gq_worker q') = in_hand (gq_worker (queue_or_new m g)) \<and> near q' \<subseteq> insert (q_next m) (near (queue_or_new m g))"
    by (auto simp: en Let_def entry_add_frames with_queue_frames near_def queue_or_new_def split: if_splits)
qed

lemma near_or_new: "i \<in> near (queue_or_new m g) \<Longrightarrow> held_somewhere m i"
  by (auto simp: queue_or_new_def held_somewhere_def near_def new_gqueue_def split: option.splits)

lemma hand_or_new: "in_hand (gq_worker (queue_or_new m g)) = Some i \<Longrightarrow> handled_somewhere m i"
  by (auto simp: queue_or_new_def handled_somewhere_def new_gqueue_def split: option.splits)

lemma tame_enqueue: assumes ok: "queues_ok m" shows "tame m (snd (enqueue now r m))"
  unfolding tame_def
proof (intro allI impI)
  fix i x assume x: "entry_of m i = Some x"
  then have "i \<noteq> q_next m" using ok by (force simp: queues_ok_def)
  then have "held_somewhere (snd (enqueue now r m)) i \<longrightarrow> held_somewhere m i"
    using enqueue_effect(3) [OF ok] near_or_new unfolding held_somewhere_def by blast
  moreover have "handled_somewhere (snd (enqueue now r m)) i \<longrightarrow> handled_somewhere m i"
    using enqueue_effect(3) [OF ok] hand_or_new unfolding handled_somewhere_def by metis
  ultimately show "\<exists>y. entry_of (snd (enqueue now r m)) i = Some y \<and>
      (e_state y = e_state x \<or> handled_somewhere m i \<or> held_somewhere m i \<and> e_state y = Q_Cancelled) \<and>
      (held_somewhere (snd (enqueue now r m)) i \<longrightarrow> held_somewhere m i) \<and>
      (handled_somewhere (snd (enqueue now r m)) i \<longrightarrow> handled_somewhere m i \<or> e_state x \<noteq> Q_Cancelled) \<and>
      (\<forall>g. i \<in> set (started_runs (snd (enqueue now r m)) g) \<longrightarrow> i \<in> set (started_runs m g) \<or> handled_somewhere m i)"
    using enqueue_effect(1) [OF ok x] by (auto simp: enqueue_effect(2) [OF ok])
qed

lemma tame_step: assumes ok: "queues_ok m" shows "tame m (queue_step x m)"
proof (cases x)
  case (Cancel_Entry i)
  then show ?thesis
    by (auto intro!: tame_cancels only_cancels_entry ok) (auto simp: cancel_entry_def)
next
  case (Cancel_Program pid)
  then show ?thesis
    using only_cancels_program [OF ok, of pid] by (auto intro!: tame_cancels simp: queue_of_def)
next
  case (Cancel_Group g)
  show ?thesis
  proof (cases "queue_of m g")
    case None
    then show ?thesis using Cancel_Group by (simp add: cancel_queue_def tame_refl)
  next
    case (Some q)
    have "only_cancels m (put_queue g (\<lambda>q. q\<lparr>gq_cancel := True\<rparr>) m)" by (simp add: only_cancels_def)
    from only_cancels_cancel_in [OF ok Some refl refl this]
    have "only_cancels m (snd (cancel_queue g m))" by (simp add: cancel_queue_def Some)
    then show ?thesis using Cancel_Group Some
      by (auto intro!: tame_cancels) (auto simp: cancel_queue_def cancel_in_def option.map_comp comp_def)
  qed
next
  case Shut_Down
  then show ?thesis
    by (auto intro!: tame_cancels simp: only_cancels_def shutdown_effect option.map_comp comp_def)
next
  case (Float_Answers a)
  then show ?thesis by (auto intro!: tame_cancels simp: only_cancels_def)
qed (auto intro: tame_enqueue tame_work ok)

lemma settled_step:
  assumes "queues_ok m" "entry_of m i = Some x" "\<not> held_somewhere m i"
  shows "\<exists>y. entry_of (queue_step a m) i = Some y \<and> e_state y = e_state x \<and> \<not> held_somewhere (queue_step a m) i"
proof -
  have "\<not> handled_somewhere m i" using assms(3) handled_held by blast
  then show ?thesis using tame_step [OF assms(1), of a] assms(2,3) unfolding tame_def by metis
qed

interpretation settled: trap queue_step queues_ok "\<lambda>m. state_of m i = Some v \<and> \<not> held_somewhere m i" for i v
proof
  fix m a assume "queues_ok m" "state_of m i = Some v \<and> \<not> held_somewhere m i"
  then show "state_of (queue_step a m) i = Some v \<and> \<not> held_somewhere (queue_step a m) i"
    using settled_step [of m i _ a] by (force simp: state_of_def)
qed

lemma settled_steps:
  "queue_steps m m' \<Longrightarrow> queues_ok m \<Longrightarrow> state_of m i = Some v \<Longrightarrow> \<not> held_somewhere m i \<Longrightarrow> state_of m' i = Some v"
  using queue_steps_fold settled.caught_run by blast

text \<open>An entry cancelled before a worker took it.\<close>

definition withdrawn :: "queues \<Rightarrow> int \<Rightarrow> bool" where
  "withdrawn m i \<longleftrightarrow> state_of m i = Some Q_Cancelled \<and> \<not> handled_somewhere m i"

lemma withdrawn_step:
  assumes "queues_ok m" "withdrawn m i"
  shows "withdrawn (queue_step a m) i \<and> (i \<in> set (started_runs (queue_step a m) g) \<longrightarrow> i \<in> set (started_runs m g))"
proof -
  obtain x where x: "entry_of m i = Some x" "e_state x = Q_Cancelled" "\<not> handled_somewhere m i"
    using assms(2) by (auto simp: withdrawn_def state_of_def)
  with tame_step [OF assms(1), of a] obtain y where "entry_of (queue_step a m) i = Some y" "e_state y = Q_Cancelled"
      "\<not> handled_somewhere (queue_step a m) i"
      "i \<in> set (started_runs (queue_step a m) g) \<longrightarrow> i \<in> set (started_runs m g)"
    unfolding tame_def by metis
  then show ?thesis by (simp add: withdrawn_def state_of_def)
qed

interpretation never_started: trap queue_step queues_ok "\<lambda>m. withdrawn m i \<and> i \<notin> set (started_runs m g)" for i g
  by unfold_locales (use withdrawn_step in blast)

lemma withdrawn_steps:
  "queue_steps m m' \<Longrightarrow> queues_ok m \<Longrightarrow> withdrawn m i \<Longrightarrow> i \<notin> set (started_runs m g) \<Longrightarrow>
     withdrawn m' i \<and> i \<notin> set (started_runs m' g)"
  using queue_steps_fold never_started.caught_run by blast

lemma queued_not_handled:
  assumes ok: "queues_ok m" and q: "queue_of m g = Some q" and i: "i \<in> set (gq_queue q)"
  shows "\<not> handled_somewhere m i"
proof
  assume "handled_somewhere m i"
  then obtain h p where p: "queue_of m h = Some p" "in_hand (gq_worker p) = Some i" by (auto simp: handled_somewhere_def)
  have "h = g"
    using hand_entry [OF queues_okD [OF ok p(1)] p(2)] queued_entry [OF queues_okD [OF ok q] i]
      queue_of_group [OF p(1)] queue_of_group [OF q] by auto
  then show False using p q i hand_not_queued [OF queues_okD [OF ok q], of i] by auto
qed

lemma queued_not_started:
  assumes ok: "queues_ok m" and q: "queue_of m g = Some q" and i: "i \<in> set (gq_queue q)"
  shows "i \<notin> set (started_runs m g)"
  using queues_okD [OF ok q] i queue_of_group [OF q] by (force simp: queue_ok_def line_up_def sorted_wrt_append)

lemma cancelled_in_queue_is_withdrawn:
  assumes "queues_ok m" "queue_of m g = Some q" "i \<in> set (gq_queue q)"
  shows "fst (cancel_entry i m)" "withdrawn (snd (cancel_entry i m)) i"
proof -
  have "q \<in> set (q_groups m)" using assms(2) by (auto simp: queue_of_def dest: row_at_mem)
  then have h: "list_ex (holds i) (q_groups m)" using assms(3) by (auto simp: list_ex_iff holds_def)
  then show "fst (cancel_entry i m)" by (simp add: cancel_entry_def)
  obtain x where x: "entry_of m i = Some x" using queued_entry [OF queues_okD [OF assms(1,2)] assms(3)] by blast
  have "handled_somewhere (put_entries (\<lambda>x. e_id x = i) cancelled m) i = handled_somewhere m i"
    by (simp add: handled_somewhere_def)
  then show "withdrawn (snd (cancel_entry i m)) i"
    using h x queued_not_handled [OF assms] by (simp add: cancel_entry_def withdrawn_def state_of_def entry_of_id)
qed

subsection \<open>A worker left alone\<close>

definition works :: "rat list \<Rightarrow> int \<Rightarrow> queues \<Rightarrow> queues" where
  "works ts g m = fold (\<lambda>t. work t g) ts m"

definition cost_of :: "queues \<Rightarrow> int \<Rightarrow> nat" where
  "cost_of m i = 14 + 2 * (case entry_of m i of None \<Rightarrow> 0 | Some x \<Rightarrow> length (e_zones x))"

fun rank_of :: "queues \<Rightarrow> bool \<Rightarrow> worker \<Rightarrow> nat" where
  "rank_of m e W_Gone = 0"
| "rank_of m e W_Leaving = 1"
| "rank_of m e W_Drain = 2"
| "rank_of m e W_Idle = (if e then 2 else 6)"
| "rank_of m e W_Top = 5"
| "rank_of m e (W_Release i) = 6"
| "rank_of m e (W_Settle i v) = 7"
| "rank_of m e (W_Returned i r) = 8"
| "rank_of m e (W_Zones i zs) = 11 + 2 * length zs"
| "rank_of m e (W_Poll i zs) = (if zs = [] then 12 else 10 + 2 * length zs)"
| "rank_of m e (W_Pause i zs) = 13 + 2 * length zs"
| "rank_of m e (W_Claimed i) = cost_of m i - 2"
| "rank_of m e (W_Picked i) = cost_of m i - 1"

definition left_to_do :: "queues \<Rightarrow> gqueue \<Rightarrow> nat" where
  "left_to_do m q = sum_list (map (cost_of m) (gq_queue q)) + rank_of m (gq_queue q = []) (gq_worker q)"

lemma cost_positive [simp]: "cost_of m i \<noteq> 0" "0 < cost_of m i" "14 \<le> cost_of m i"
  by (simp_all add: cost_of_def)

lemma cost_cong: "map_option e_zones (entry_of m' i) = map_option e_zones (entry_of m i) \<Longrightarrow> cost_of m' i = cost_of m i"
  by (cases "entry_of m i"; cases "entry_of m' i") (auto simp: cost_of_def)

lemma cost_frames [simp]:
  "cost_of (put_queue g f m) i = cost_of m i" "cost_of (goto g w m) i = cost_of m i"
  "cost_of (audit_run g j a m) i = cost_of m i" "cost_of (set_state j v m) i = cost_of m i"
  "cost_of (drain_queue g q m) i = cost_of m i"
  by (rule cost_cong, cases "entry_of m i"; simp add: drain_queue_def)+

lemma cost_frames_fun [simp]:
  "cost_of (put_queue g f m) = cost_of m" "cost_of (goto g w m) = cost_of m"
  "cost_of (audit_run g j a m) = cost_of m" "cost_of (set_state j v m) = cost_of m"
  by (rule ext; simp)+

text \<open>What one step does to the group's own queue.\<close>

lemma work_less:
  assumes ok: "queues_ok m" and q: "queue_of m g = Some q" and a: "gq_worker q \<noteq> W_Gone"
    and f: "q_float m \<noteq> Some (Inr True)"
  shows "\<exists>q'. queue_of (work now g m) g = Some q' \<and> left_to_do (work now g m) q' < left_to_do m q \<and>
    q_float (work now g m) = q_float m \<and>
    (gq_worker q' \<in> {W_Gone, W_Leaving} \<longrightarrow> gq_worker q \<in> {W_Gone, W_Leaving} \<and> gq_queue q' = gq_queue q \<or> gq_queue q' = [])"
proof -
  have g: "left_to_do (goto g w t) (q\<lparr>gq_worker := w\<rparr>) < left_to_do m q"
    if "\<And>i. cost_of t i = cost_of m i" "rank_of m (gq_queue q = []) w < rank_of m (gq_queue q = []) (gq_worker q)" for w t
  proof -
    have cc: "cost_of t = cost_of m" using that(1) by (intro ext)
    have "rank_of (goto g w t) e v = rank_of m e v" for e v by (cases v) (simp_all add: cc)
    then show ?thesis using that(2) by (simp add: left_to_do_def cc)
  qed
  have c: "cost_of m i = 14 + 2 * length (e_zones x)" if "entry_of m i = Some x" for i x
    using that by (simp add: cost_of_def)
  note k = queues_okD [OF ok q]
  show ?thesis
  proof (cases "gq_worker q")
    case W_Top
    show ?thesis
    proof (cases "q_shutdown m \<or> gq_cancel q")
      case True
      then show ?thesis using q W_Top g [of m W_Drain] by (simp add: work_def)
    next
      case False
      then have w: "work now g m = put_queue g (pick_next m) m" using q W_Top by (simp add: work_def)
      show ?thesis
      proof (cases "dropWhile (is_cancelled m) (gq_queue q)")
        case Nil
        have p: "pick_next m q = q\<lparr>gq_queue := [], gq_current := None, gq_new_item := False, gq_worker := W_Idle\<rparr>"
          unfolding pick_next_def Nil by simp
        show ?thesis using q W_Top by (simp add: w p left_to_do_def)
      next
        case (Cons i "is")
        have p: "pick_next m q = q\<lparr>gq_queue := is, gq_worker := W_Picked i\<rparr>" unfolding pick_next_def Cons by simp
        from drop_cancelled [OF Cons] obtain ys where ys: "gq_queue q = ys @ i # is" by blast
        show ?thesis using q W_Top by (simp add: w p left_to_do_def ys comp_def)
      qed
    qed
  next
    case W_Idle
    then show ?thesis using q by (auto simp: work_def wake_up_def left_to_do_def comp_def)
  next
    case (W_Picked i)
    then obtain x where x: "entry_of m i = Some x" using hand_entry [OF k, of i] by auto
    then show ?thesis using q W_Picked g c [OF x] by (auto simp: work_def begin_entry_def)
  next
    case (W_Claimed i)
    then obtain x where x: "entry_of m i = Some x" using hand_entry [OF k, of i] by auto
    then show ?thesis using q W_Claimed c [OF x] by (auto simp: work_def claim_entry_def left_to_do_def comp_def)
  next
    case (W_Zones i zs)
    then show ?thesis using q g by (cases zs) (auto simp: work_def next_zone_def)
  next
    case (W_Poll i zs)
    then show ?thesis using q g f by (cases zs) (auto simp: work_def poll_float_def split: option.splits sum.splits bool.splits)
  next
    case (W_Pause i zs)
    then show ?thesis using q g by (auto simp: work_def after_pause_def)
  next
    case (W_Returned i r)
    then show ?thesis using q g by (auto simp: work_def finish_run_def split: option.splits)
  next
    case (W_Settle i v)
    then show ?thesis using q g by (auto simp: work_def settle_run_def)
  next
    case (W_Release i)
    then show ?thesis using q by (auto simp: work_def release_run_def left_to_do_def comp_def)
  next
    case W_Drain
    then show ?thesis using q by (auto simp: work_def left_to_do_def) (simp add: drain_queue_def)
  next
    case W_Leaving
    then show ?thesis using q g by (auto simp: work_def)
  qed (use a in simp)
qed

lemma works_simps [simp]: "works [] g m = m" "works (t # ts) g m = works ts g (work t g m)"
  by (simp_all add: works_def)

lemma queue_steps_works: "queue_steps m0 m \<Longrightarrow> queue_steps m0 (works ts g m)"
proof (induction ts arbitrary: m)
  case (Cons t ts)
  from Cons.prems have "queue_steps m0 (queue_step (Work t g) m)" by (rule queue_steps.Step)
  with Cons.IH [of "work t g m"] show ?case by simp
qed simp

lemma works_gone: "queue_of m g = Some q \<Longrightarrow> gq_worker q = W_Gone \<Longrightarrow> works ts g m = m"
  by (induction ts) (auto simp: work_def)

text \<open>As many steps as the measure counts bring the worker to its end.\<close>

lemma works_end:
  assumes "queues_ok m" "queue_of m g = Some q" "q_float m \<noteq> Some (Inr True)" "left_to_do m q \<le> length ts"
    "gq_worker q \<in> {W_Gone, W_Leaving} \<longrightarrow> gq_queue q = []"
  shows "\<exists>q'. queue_of (works ts g m) g = Some q' \<and> gq_worker q' = W_Gone \<and> gq_queue q' = []"
  using assms
proof (induction ts arbitrary: m q)
  case Nil
  then have "gq_worker q = W_Gone" by (cases "gq_worker q") (auto simp: left_to_do_def cost_of_def split: if_splits)
  with Nil show ?case by simp
next
  case (Cons t ts)
  show ?case
  proof (cases "gq_worker q = W_Gone")
    case True
    then show ?thesis using Cons.prems works_gone [of m g q "t # ts"] by auto
  next
    case False
    from work_less [OF Cons.prems(1,2) False Cons.prems(3), of t] obtain q' where
      q': "queue_of (work t g m) g = Some q'" "left_to_do (work t g m) q' < left_to_do m q" "q_float (work t g m) = q_float m"
        "gq_worker q' \<in> {W_Gone, W_Leaving} \<longrightarrow> gq_worker q \<in> {W_Gone, W_Leaving} \<and> gq_queue q' = gq_queue q \<or> gq_queue q' = []"
      by blast
    have "queues_ok (work t g m)" using Cons.prems(1) by (rule queues_ok_work)
    from Cons.IH [OF this q'(1)] q' Cons.prems show ?thesis by auto
  qed
qed

lemma no_queue_no_entry:
  assumes "queues_ok m" "queue_of m g = Some q" "gq_worker q = W_Gone" "gq_queue q = []" "entry_of m i = Some x" "e_group x = g"
  shows "\<not> unsettled x"
proof
  assume "unsettled x"
  with assms obtain p where "queue_of m g = Some p" "i \<in> near p" unfolding queues_ok_def by blast
  with assms show False by (simp add: near_def)
qed

subsection \<open>The bound\<close>

text \<open>
  A full queue refuses.  The entry a worker has taken but not yet made current is not counted, so
  a group can hold one entry more than the bound.
\<close>

lemma queue_bounded: "queues_ok m \<Longrightarrow> queue_of m g = Some q \<Longrightarrow> int (length (gq_queue q)) \<le> max 0 (q_max_size m)"
  using queues_okD [of m g q] by (simp add: queue_ok_def)

end
