(* ===== verification/Float_Laws.thy ===== *)
theory Float_Laws
  imports Float_Monitor
begin

text \<open>
  What the tank float monitor promises.  The state of a group after every step is first
  computed as a row (\<open>level_row\<close>, \<open>message_row\<close>, \<open>checked_row\<close>); the rest follows from the rows:
  the invariant of a group, that an emergency stop is final, that a pause needs a level which
  held for the debounce time, and that the stop comes exactly with three lows in five minutes or
  with a deadline that has passed.
\<close>

subsection \<open>Rows\<close>

lemma fs_group_updates [simp]:
  "fs_group (record_trip now r) = fs_group r" "fs_group (stop_unstable clock r) = fs_group r"
  "fs_group (pause_low now clock r) = fs_group r" "fs_group (resume_level now r) = fs_group r"
  "fs_group (set_pending b t r) = fs_group r" "fs_group (stop_late r) = fs_group r"
  "fs_group (configured d m r) = fs_group r" "fs_group (fresh_float g) = g"
  by (simp_all add: record_trip_def stop_unstable_def pause_low_def resume_level_def set_pending_def
      stop_late_def configured_def fresh_float_def)

lemma float_of_cong: "float_states s = float_states s' \<Longrightarrow> float_of s g = float_of s' g"
  by (simp add: float_of_def)

lemma float_of_group: "float_of s g = Some r \<Longrightarrow> fs_group r = g"
  by (auto simp: float_of_def dest: row_at_key)

lemma float_of_put [simp]:
  "(\<And>r. fs_group (f r) = fs_group r) \<Longrightarrow>
     float_of (put_float g f s) h = (if h = g then map_option f (float_of s h) else float_of s h)"
  by (cases "row_at fs_group (float_states s) h")
    (auto simp: float_of_def put_float_def row_at_upd_keys dest: row_at_key)

lemma float_of_notes [simp]:
  "float_of (emit x s) h = float_of s h" "float_of (notify x s) h = float_of s h"
  "float_of (log_float_event g k zs s) h = float_of s h" "float_of (snd (pause_active_zones g s)) h = float_of s h"
  "float_of (stop_timed_out g s) h = float_of s h" "float_of (s\<lparr>late_groups := ls\<rparr>) h = float_of s h"
  by (simp_all add: float_of_def emit_def notify_def log_float_event_def pause_active_zones_def stop_timed_out_def Let_def)

lemma sub_of_notes [simp]:
  "sub_of (emit x s) h = sub_of s h" "sub_of (notify x s) h = sub_of s h"
  "sub_of (log_float_event g k zs s) h = sub_of s h" "sub_of (snd (pause_active_zones g s)) h = sub_of s h"
  "sub_of (stop_timed_out g s) h = sub_of s h" "sub_of (put_float g f s) h = sub_of s h"
  "sub_of (s\<lparr>late_groups := ls\<rparr>) h = sub_of s h"
  by (simp_all add: sub_of_def emit_def notify_def log_float_event_def pause_active_zones_def stop_timed_out_def
      put_float_def Let_def)

definition level_row :: "rat \<Rightarrow> time \<Rightarrow> bool \<Rightarrow> int list \<Rightarrow> float_state \<Rightarrow> float_state" where
  "level_row now clock b zs gs =
     (let r = gs\<lparr>level_ok := b\<rparr>; r1 = record_trip now r
      in if emergency_stopped gs then r
         else if b then (if paused gs then (resume_level now r)\<lparr>paused_zones := []\<rparr> else r)
         else if float_max_trips \<le> length (trip_times r1) then stop_unstable clock r1
         else (pause_low now clock r1)\<lparr>paused_zones := zs\<rparr>)"

lemma record_trip_level [simp]:
  "trip_times (record_trip now (r\<lparr>level_ok := b\<rparr>)) = trip_times (record_trip now r)"
  by (simp add: record_trip_def)

lemma float_of_apply_level:
  assumes "float_of s g = Some gs"
  shows "float_of (apply_level now clock b gs s) h =
    (if h = g then Some (level_row now clock b (fst (pause_active_zones g s)) gs) else float_of s h)"
proof -
  have g: "fs_group gs = g" using assms by (rule float_of_group)
  have z: "fst (pause_active_zones g (put_float g f t)) = fst (pause_active_zones g t)" for f t
    by (simp add: pause_active_zones_def put_float_def)
  show ?thesis
    using assms
    by (auto simp: apply_level_def on_level_low_def on_level_restored_def level_row_def g z Let_def
        split_def)
qed

lemma sub_of_apply_level [simp]: "sub_of (apply_level now clock b gs s) h = sub_of s h"
  by (auto simp: apply_level_def on_level_low_def on_level_restored_def Let_def split_def)

definition message_row :: "rat \<Rightarrow> time \<Rightarrow> bool \<Rightarrow> int list \<Rightarrow> float_state \<Rightarrow> float_state" where
  "message_row now clock b zs gs =
     (if debounce_seconds gs \<le> 0 then level_row now clock b zs gs
      else if pending_level_ok gs \<noteq> Some b then set_pending (Some b) (Some now) gs
      else if held_long_enough now gs then set_pending None None (level_row now clock b zs gs)
      else gs)"

lemma float_of_message:
  "float_of (on_float_message now clock g p s) h =
     (if h = g then (case level_of s g p of None \<Rightarrow> float_of s g
        | Some b \<Rightarrow> map_option (message_row now clock b (fst (pause_active_zones g s))) (float_of s g))
      else float_of s h)"
  by (auto simp: on_float_message_def message_row_def float_of_apply_level split: option.splits)

lemma sub_of_message [simp]: "sub_of (on_float_message now clock g p s) h = sub_of s h"
  by (auto simp: on_float_message_def split: option.splits)

definition checked_row :: "rat \<Rightarrow> float_state \<Rightarrow> float_state" where
  "checked_row now gs = (if timed_out now gs then stop_late gs else gs)"

lemma fold_float_of: "(\<And>x t. float_of (f x t) h = float_of t h) \<Longrightarrow> float_of (fold f xs s) h = float_of s h"
  by (induction xs arbitrary: s) auto

lemma fold_sub_of: "(\<And>x t. sub_of (f x t) h = sub_of t h) \<Longrightarrow> sub_of (fold f xs s) h = sub_of s h"
  by (induction xs arbitrary: s) auto

lemma float_of_check: "float_of (check_timeouts now s) h = map_option (checked_row now) (float_of s h)"
  by (simp add: check_timeouts_def float_of_def checked_row_def [abs_def] row_at_upd_keys)

lemma sub_of_check [simp]: "sub_of (check_timeouts now s) h = sub_of s h"
  by (simp add: check_timeouts_def sub_of_def)

lemma next_late_rows [simp]:
  "float_of (stop_next_late s) h = float_of s h" "sub_of (stop_next_late s) h = sub_of s h"
  by (simp_all add: stop_next_late_def split: list.splits)

lemma float_of_connect [simp]:
  "float_of (on_float_connect srv s) h = float_of s h" "sub_of (on_float_connect srv s) h = sub_of s h"
  by (simp_all add: on_float_connect_def fold_float_of fold_sub_of)

lemma float_of_ask:
  "float_of (snd (get_resume_event g s)) h =
     (if h = g \<and> float_of s g = None then Some (fresh_float g) else float_of s h)"
  by (auto simp: get_resume_event_def float_of_def row_at_append split: option.splits)

lemma sub_of_ask [simp]: "sub_of (snd (get_resume_event g s)) h = sub_of s h"
  by (auto simp: get_resume_event_def sub_of_def split: option.splits)

text \<open>Subscribing only sets the two configured numbers, or adds a fresh row.\<close>

lemma float_of_subscribe:
  "float_of (subscribe_group c s) h = float_of s h \<or>
   (\<exists>d m. float_of (subscribe_group c s) h = (case float_of s h of None \<Rightarrow> Some (configured d m (fresh_float h))
      | Some r \<Rightarrow> Some (configured d m r)))"
proof -
  have x: "float_of (t\<lparr>subscriptions := a, topic_groups := b\<rparr>) k = float_of t k" for a b k t
    by (simp add: float_of_def)
  have y: "float_of (t\<lparr>float_states := float_states t @ [r]\<rparr>) k =
      (case float_of t k of None \<Rightarrow> (if fs_group r = k then Some r else None) | Some q \<Rightarrow> Some q)" for t k r
    by (auto simp: float_of_def row_at_append split: option.splits)
  define t where "t = s\<lparr>subscriptions := put_key sub_group
      \<lparr>sub_group = fc_id c, sub_topic = strip (str_or [] (fc_topic c)), sub_server = int_or0 (fc_server c),
       sub_mode = fc_mode c, sub_timeout = fc_timeout c, sub_debounce = fc_debounce c,
       sub_tripped = tripped_topic_of (fc_id c), sub_name = fc_name c\<rparr> (subscriptions s),
     topic_groups := put_key fst (tripped_topic_of (fc_id c), fc_id c)
       (put_key fst (strip (str_or [] (fc_topic c)), fc_id c) (topic_groups s))\<rparr>"
  have t: "float_of t k = float_of s k" for k by (simp add: t_def x)
  show ?thesis
  proof (cases "strip (str_or [] (fc_topic c)) = [] \<or> \<not> truthy_int (fc_server c) \<or> int_or0 (fc_server c) \<notin> set (clients s)")
    case True
    then show ?thesis by (simp add: subscribe_group_def Let_def)
  next
    case False
    then have "float_of (subscribe_group c s) h =
        (if h = fc_id c then (case float_of s h of None \<Rightarrow> Some (configured (fc_debounce c) (fc_timeout c) (fresh_float h))
           | Some r \<Rightarrow> Some (configured (fc_debounce c) (fc_timeout c) r)) else float_of s h)"
      unfolding subscribe_group_def Let_def t_def [symmetric]
      by (simp only: if_False float_of_notes) (auto simp: y t split: option.splits)
    then show ?thesis by (cases "h = fc_id c") auto
  qed
qed

lemma float_of_unsubscribe [simp]: "float_of (unsubscribe_group g s) h = float_of s h"
  by (auto simp: unsubscribe_group_def Let_def emit_def float_of_def split: option.splits)

subsection \<open>The steps of one group\<close>

text \<open>What can happen to a group between two stops of the monitor.\<close>

inductive row_steps :: "float_state \<Rightarrow> float_state \<Rightarrow> bool" where
  Refl: "row_steps r r"
| Message: "row_steps r r' \<Longrightarrow> row_steps r (message_row now clock b zs r')"
| Check: "row_steps r r' \<Longrightarrow> row_steps r (checked_row now r')"
| Config: "row_steps r r' \<Longrightarrow> row_steps r (configured d m r')"

declare row_steps.intros [intro]

lemma row_steps_trans: "row_steps q r \<Longrightarrow> row_steps p q \<Longrightarrow> row_steps p r"
  by (induction rule: row_steps.induct) auto

text \<open>The row of a group once it exists; a group without one starts from the fresh row.\<close>

definition row_or_fresh :: "tank \<Rightarrow> int \<Rightarrow> float_state" where
  "row_or_fresh s g = (case float_of s g of None \<Rightarrow> fresh_float g | Some r \<Rightarrow> r)"

definition grows :: "tank \<Rightarrow> tank \<Rightarrow> bool" where
  "grows s s' \<longleftrightarrow> (\<forall>h. (float_of s h \<noteq> None \<longrightarrow> float_of s' h \<noteq> None) \<and> row_steps (row_or_fresh s h) (row_or_fresh s' h))"

lemma tank_grows_refl [simp]: "grows s s"
  by (auto simp: grows_def)

lemma grows_same: "(\<And>h. float_of s' h = float_of s h) \<Longrightarrow> grows s s'"
  by (auto simp: grows_def row_or_fresh_def)

lemma tank_grows_trans: "grows s t \<Longrightarrow> grows t u \<Longrightarrow> grows s u"
  unfolding grows_def by (meson row_steps_trans)

lemma grows_fold: "(\<And>x t. grows t (f x t)) \<Longrightarrow> grows s (fold f xs s)"
  by (induction xs arbitrary: s) (auto intro: tank_grows_trans)

lemma grows_subscribe: "grows s (subscribe_group c s)"
proof -
  have "(float_of s h \<noteq> None \<longrightarrow> float_of (subscribe_group c s) h \<noteq> None) \<and>
      row_steps (row_or_fresh s h) (row_or_fresh (subscribe_group c s) h)" for h
    using float_of_subscribe [of c s h]
    by (auto simp: row_or_fresh_def intro: Config [OF Refl] split: option.splits)
  then show ?thesis unfolding grows_def by blast
qed

lemma grows_step: "x \<noteq> Float_Stop \<Longrightarrow> grows s (float_step now clock x s)"
proof (cases x)
  case (Float_Message g p)
  then show ?thesis
    by (auto simp: grows_def row_or_fresh_def float_of_message split: option.splits)
next
  case Float_Check
  then show ?thesis by (auto simp: grows_def row_or_fresh_def float_of_check split: option.splits)
next
  case Float_Next_Late
  then show ?thesis by (auto intro: grows_same)
next
  case (Float_Reload g)
  have "grows s (if sub_of s g = None then s else unsubscribe_group g s)" by (auto intro: grows_same)
  moreover have "grows t (load_group g t)" for t
    by (auto simp: load_group_def intro: grows_subscribe split: option.splits)
  ultimately show ?thesis using Float_Reload by (auto simp: reload_group_def intro: tank_grows_trans)
next
  case Float_Start
  have "grows s (s\<lparr>started := True\<rparr>)" by (rule grows_same) (simp add: float_of_def)
  then show ?thesis using Float_Start
    by (auto simp: start_monitor_def load_all_groups_def intro: tank_grows_trans grows_fold grows_subscribe)
next
  case (Float_Connect srv)
  then show ?thesis by (auto intro: grows_same)
next
  case (Float_Ask g)
  then show ?thesis by (auto simp: grows_def row_or_fresh_def float_of_ask split: option.splits)
qed auto

lemma grows_run: "Float_Stop \<notin> (snd \<circ> snd) ` set tr \<Longrightarrow> grows s (float_run tr s)"
proof (induction tr arbitrary: s)
  case (Cons e tr)
  obtain now clock x where e: "e = (now, clock, x)" by (cases e) auto
  with Cons have "grows (float_step now clock x s) (float_run tr (float_step now clock x s))" by auto
  moreover have "grows s (float_step now clock x s)" using Cons.prems e by (auto intro: grows_step)
  ultimately show ?case by (auto simp: e intro: tank_grows_trans)
qed simp

lemma stop_forgets [simp]: "float_of (stop_monitor s) h = None"
  by (simp add: stop_monitor_def float_of_def)

subsection \<open>The invariant of a group\<close>

definition float_ok :: "float_state \<Rightarrow> bool" where
  "float_ok r \<longleftrightarrow> (paused r \<longrightarrow> \<not> resumed r) \<and> (timeout_at r \<noteq> None \<longrightarrow> paused r) \<and>
     (emergency_stopped r \<longrightarrow> paused r) \<and> (pending_level_ok r = None \<longleftrightarrow> pending_since r = None) \<and>
     length (trip_times r) \<le> float_max_trips \<and>
     (\<not> emergency_stopped r \<longrightarrow> length (trip_times r) < float_max_trips)"

lemma float_ok_fresh: "float_ok (fresh_float g)"
  by (simp add: float_ok_def fresh_float_def float_max_trips_def)

lemma prune_length: "length (prune_trips now (ts @ [now])) \<le> Suc (length ts)"
  by (metis length_append_singleton length_filter_le prune_trips_def)

lemma float_ok_level: "float_ok r \<Longrightarrow> float_ok (level_row now clock b zs r)"
  using prune_length [of now "trip_times r"]
  by (auto simp: float_ok_def level_row_def Let_def record_trip_def stop_unstable_def pause_low_def
      resume_level_def float_max_trips_def)

lemma float_ok_pending: "float_ok r \<Longrightarrow> (b = None \<longleftrightarrow> t = None) \<Longrightarrow> float_ok (set_pending b t r)"
  by (simp add: float_ok_def set_pending_def)

lemma float_ok_steps: "row_steps r r' \<Longrightarrow> float_ok r \<Longrightarrow> float_ok r'"
proof (induction rule: row_steps.induct)
  case (Message r r' now clock b zs)
  then show ?case by (auto simp: message_row_def intro: float_ok_level float_ok_pending)
next
  case (Check r r' now)
  then show ?case
    by (auto simp: checked_row_def timed_out_def stop_late_def float_ok_def)
qed (auto simp: configured_def float_ok_def)

lemma emergency_steps: "row_steps r r' \<Longrightarrow> emergency_stopped r \<Longrightarrow> emergency_stopped r'"
proof (induction rule: row_steps.induct)
  case (Message r r' now clock b zs)
  then show ?case by (auto simp: message_row_def level_row_def set_pending_def)
next
  case (Check r r' now)
  then show ?case by (auto simp: checked_row_def stop_late_def)
qed (auto simp: configured_def)

definition floats_ok :: "tank \<Rightarrow> bool" where
  "floats_ok s \<longleftrightarrow> (\<forall>g r. float_of s g = Some r \<longrightarrow> float_ok r)"

lemma floats_ok_grows: "grows s s' \<Longrightarrow> floats_ok s \<Longrightarrow> floats_ok s'"
proof -
  assume g: "grows s s'" and k: "floats_ok s"
  have "float_ok r" if r: "float_of s' h = Some r" for h r
  proof -
    have "row_steps (row_or_fresh s h) r" using g r by (metis grows_def option.simps(5) row_or_fresh_def)
    moreover have "float_ok (row_or_fresh s h)"
      using k by (auto simp: row_or_fresh_def floats_ok_def float_ok_fresh split: option.splits)
    ultimately show ?thesis by (rule float_ok_steps)
  qed
  then show ?thesis by (simp add: floats_ok_def)
qed

lemma floats_ok_step: "floats_ok s \<Longrightarrow> floats_ok (float_step now clock x s)"
  by (cases "x = Float_Stop") (auto simp: floats_ok_def intro: floats_ok_grows [OF grows_step, unfolded floats_ok_def, rule_format])

interpretation tank_monitor: safe_machine "\<lambda>(now, clock, x). float_step now clock x" floats_ok
  by unfold_locales (auto simp: floats_ok_step split: prod.splits)

lemma floats_ok_run: "floats_ok s \<Longrightarrow> floats_ok (float_run tr s)"
  unfolding float_run_def by (rule tank_monitor.ok_run)

definition stopped_for_good :: "tank \<Rightarrow> int \<Rightarrow> bool" where
  "stopped_for_good s g = (case float_of s g of None \<Rightarrow> False | Some r \<Rightarrow> emergency_stopped r)"

lemma stopped_grows: "grows s s' \<Longrightarrow> stopped_for_good s g \<Longrightarrow> stopped_for_good s' g"
proof -
  assume g: "grows s s'" and e: "stopped_for_good s g"
  then obtain r where r: "float_of s g = Some r" "emergency_stopped r"
    by (auto simp: stopped_for_good_def split: option.splits)
  with g obtain r' where r': "float_of s' g = Some r'" unfolding grows_def by blast
  moreover have "row_steps r r'" using g r r' by (metis grows_def option.simps(5) row_or_fresh_def)
  ultimately show ?thesis using r emergency_steps by (auto simp: stopped_for_good_def)
qed

subsection \<open>Debouncing\<close>

text \<open>What a step tells about the level of a group, under the mode it is subscribed with.\<close>

definition reading :: "tank \<Rightarrow> int \<Rightarrow> float_op \<Rightarrow> bool option" where
  "reading s g x = (case x of Float_Message h p \<Rightarrow> if h = g then level_of s g p else None | _ \<Rightarrow> None)"

definition reconfigures :: "float_op \<Rightarrow> bool" where
  "reconfigures x = (case x of Float_Reload h \<Rightarrow> True | Float_Start \<Rightarrow> True | Float_Stop \<Rightarrow> True | _ \<Rightarrow> False)"

text \<open>The level was reported as \<open>b\<close> at time \<open>t\<close> and has not been reported otherwise since.\<close>

definition steady :: "tank \<Rightarrow> int \<Rightarrow> (rat \<times> time \<times> float_op) list \<Rightarrow> bool \<Rightarrow> rat \<Rightarrow> bool" where
  "steady s g tr b t \<longleftrightarrow> (\<exists>tr1 w x tr2. tr = tr1 @ (t, w, x) # tr2 \<and> reading s g x = Some b \<and>
     (\<forall>e \<in> set tr2. reading s g (snd (snd e)) \<noteq> Some (\<not> b)))"

lemma steady_new: "reading s g x = Some b \<Longrightarrow> steady s g (tr @ [(t, w, x)]) b t"
  unfolding steady_def by force

lemma steady_more: "steady s g tr b t \<Longrightarrow> reading s g x \<noteq> Some (\<not> b) \<Longrightarrow> steady s g (tr @ [(t', w, x)]) b t"
  unfolding steady_def by (elim exE conjE) (rule exI, rule exI, rule exI, rule_tac x = "tr2 @ [(t', w, x)]" in exI, auto)

lemma level_of_cong: "sub_of s g = sub_of s' g \<Longrightarrow> level_of s g p = level_of s' g p"
  by (simp add: level_of_def)

lemma sub_of_step: "\<not> reconfigures x \<Longrightarrow> sub_of (float_step now clock x s) g = sub_of s g"
  by (cases x) (auto simp: reconfigures_def)

lemma sub_of_run: "\<forall>e \<in> set tr. \<not> reconfigures (snd (snd e)) \<Longrightarrow> sub_of (float_run tr s) g = sub_of s g"
  by (induction tr arbitrary: s) (auto simp: sub_of_step)

text \<open>A step as the group sees it.\<close>

lemma float_of_step:
  assumes "float_of s g = Some r" "\<not> reconfigures x"
  shows "\<exists>zs. float_of (float_step now clock x s) g = Some (case reading s g x of
    Some b \<Rightarrow> message_row now clock b zs r | None \<Rightarrow> if x = Float_Check then checked_row now r else r)"
  using assms by (cases x) (auto simp: reading_def reconfigures_def float_of_message float_of_check float_of_ask split: option.splits)

lemma debounce_level_row [simp]:
  "debounce_seconds (level_row now clock b zs r) = debounce_seconds r"
  "pending_level_ok (level_row now clock b zs r) = pending_level_ok r"
  "pending_since (level_row now clock b zs r) = pending_since r"
  by (simp_all add: level_row_def Let_def record_trip_def stop_unstable_def pause_low_def resume_level_def)

lemma debounce_rows [simp]:
  "debounce_seconds (message_row now clock b zs r) = debounce_seconds r"
  "debounce_seconds (checked_row now r) = debounce_seconds r"
  "pending_level_ok (checked_row now r) = pending_level_ok r"
  "pending_since (checked_row now r) = pending_since r"
  "paused (checked_row now r) = paused r"
  by (simp_all add: message_row_def checked_row_def set_pending_def stop_late_def)

lemma paused_set_pending [simp]: "paused (set_pending b t r) = paused r"
  by (simp add: set_pending_def)

definition waits_on :: "tank \<Rightarrow> int \<Rightarrow> (rat \<times> time \<times> float_op) list \<Rightarrow> float_state \<Rightarrow> bool" where
  "waits_on s g tr r \<longleftrightarrow> (pending_level_ok r = None \<longleftrightarrow> pending_since r = None) \<and>
     (\<forall>b t. pending_level_ok r = Some b \<longrightarrow> pending_since r = Some t \<longrightarrow> steady s g tr b t)"

lemma waits_on_message:
  assumes w: "waits_on s g tr r" and d: "0 < debounce_seconds r" and x: "reading s g x = Some b"
  shows "waits_on s g (tr @ [(now, clock, x)]) (message_row now clock b zs r)"
proof (cases "pending_level_ok r = Some b")
  case False
  then show ?thesis using d steady_new [OF x] by (auto simp: message_row_def waits_on_def set_pending_def)
next
  case True
  then have "steady s g tr b' t \<Longrightarrow> pending_level_ok r = Some b' \<Longrightarrow> steady s g (tr @ [(now, clock, x)]) b' t" for b' t
    using x by (auto intro: steady_more)
  then show ?thesis using w d True by (auto simp: message_row_def waits_on_def set_pending_def)
qed

lemma waits_on_other:
  "waits_on s g tr r \<Longrightarrow> reading s g x = None \<Longrightarrow> pending_level_ok r' = pending_level_ok r \<Longrightarrow>
     pending_since r' = pending_since r \<Longrightarrow> waits_on s g (tr @ [(now, clock, x)]) r'"
  by (auto simp: waits_on_def intro: steady_more)

lemma waits_on_run:
  assumes r: "float_of s g = Some r" "pending_level_ok r = None" "pending_since r = None" "0 < debounce_seconds r"
    and q: "\<forall>e \<in> set tr. \<not> reconfigures (snd (snd e))"
  shows "\<exists>r'. float_of (float_run tr s) g = Some r' \<and> debounce_seconds r' = debounce_seconds r \<and> waits_on s g tr r'"
  using q
proof (induction tr rule: rev_induct)
  case Nil
  then show ?case using r by (simp add: waits_on_def)
next
  case (snoc e tr)
  obtain now clock x where e: "e = (now, clock, x)" by (cases e) auto
  with snoc obtain r' where r': "float_of (float_run tr s) g = Some r'" "debounce_seconds r' = debounce_seconds r"
      "waits_on s g tr r'" by auto
  have q: "\<not> reconfigures x" "\<forall>e \<in> set tr. \<not> reconfigures (snd (snd e))" using snoc.prems e by auto
  have rd: "reading (float_run tr s) g x = reading s g x"
    using level_of_cong [OF sub_of_run [OF q(2)]] by (auto simp: reading_def split: float_op.splits)
  obtain zs where st: "float_of (float_step now clock x (float_run tr s)) g = Some (case reading s g x of
      Some b \<Rightarrow> message_row now clock b zs r' | None \<Rightarrow> if x = Float_Check then checked_row now r' else r')"
    using float_of_step [OF r'(1) q(1), of now clock] unfolding rd by blast
  show ?case
  proof (cases "reading s g x")
    case None
    then show ?thesis using st r' by (auto simp: e intro: waits_on_other)
  next
    case (Some b)
    then show ?thesis using st r' r(4) waits_on_message [OF r'(3) _ Some] by (auto simp: e)
  qed
qed

lemma level_row_turns: "paused (level_row now clock b zs r) \<noteq> paused r \<Longrightarrow> b = paused r"
  by (auto simp: level_row_def Let_def record_trip_def stop_unstable_def pause_low_def resume_level_def split: if_splits)

lemma message_row_turns:
  assumes "paused (message_row now clock b zs r) \<noteq> paused r" "0 < debounce_seconds r"
  shows "b = paused r \<and> pending_level_ok r = Some b \<and> held_long_enough now r"
  using assms level_row_turns [of now clock b zs r] by (simp add: message_row_def split: if_splits)

text \<open>
  C34: The tank monitor neither pauses a group nor lets it go on a single reading.  Between two
  changes of the configuration, a group with a debounce time changes between running and paused
  only on a reading of the new level, after that level was first reported at least the debounce
  time ago and no reading since said otherwise.
\<close>

theorem level_must_be_steady:
  assumes r: "float_of s g = Some r" "pending_level_ok r = None" "pending_since r = None" "0 < debounce_seconds r"
    and q: "\<forall>e \<in> set tr. \<not> reconfigures (snd (snd e))" "\<not> reconfigures x"
    and turn: "is_paused (float_step now clock x (float_run tr s)) g \<noteq> is_paused (float_run tr s) g"
  shows "reading s g x = Some (is_paused (float_run tr s) g) \<and>
    (\<exists>t. steady s g tr (is_paused (float_run tr s) g) t \<and> of_int (debounce_seconds r) \<le> now - t)"
proof -
  obtain r' where r': "float_of (float_run tr s) g = Some r'" "debounce_seconds r' = debounce_seconds r" "waits_on s g tr r'"
    using waits_on_run [OF r q(1)] by blast
  have rd: "reading (float_run tr s) g x = reading s g x"
    using level_of_cong [OF sub_of_run [OF q(1)]] by (auto simp: reading_def split: float_op.splits)
  obtain zs where st: "float_of (float_step now clock x (float_run tr s)) g = Some (case reading s g x of
      Some b \<Rightarrow> message_row now clock b zs r' | None \<Rightarrow> if x = Float_Check then checked_row now r' else r')"
    using float_of_step [OF r'(1) q(2), of now clock] unfolding rd by blast
  from turn r' st obtain b where b: "reading s g x = Some b" "paused (message_row now clock b zs r') \<noteq> paused r'"
    by (auto simp: is_paused_def split: option.splits if_splits)
  from message_row_turns [OF b(2)] r' r(4) have k: "b = paused r'" "pending_level_ok r' = Some b" "held_long_enough now r'"
    by auto
  then obtain t where "pending_since r' = Some t" "of_int (debounce_seconds r) \<le> now - t"
    using r'(2) by (auto simp: held_long_enough_def split: option.splits)
  with k r' b show ?thesis by (auto simp: waits_on_def is_paused_def)
qed

definition lone_tank :: "float_state \<Rightarrow> tank" where
  "lone_tank r = \<lparr>zones = [], groups = [], zone_runs = [], run_seq = 0, programs = [], cancellations = [],
     servers = [], db_up = True, float_rows = [], float_events = [], clients = [], notifier = False,
     float_states = [r], subscriptions = [], topic_groups = [], started = True, late_groups = [], float_out = []\<rparr>"

theorem level_must_be_steady_witness:
  "\<exists>t. steady (lone_tank (fresh_float 1)) 1 [(10, 0, Float_Message 1 ''off'')] False t \<and> 5 \<le> 15 - t"
proof -
  let ?s = "lone_tank (fresh_float 1)" and ?tr = "[(10, 0, Float_Message 1 ''off'')]"
  have r: "float_of ?s 1 = Some (fresh_float 1)" by code_simp
  have "is_paused (float_step 15 0 (Float_Message 1 ''off'') (float_run ?tr ?s)) 1" "\<not> is_paused (float_run ?tr ?s) 1"
    by code_simp+
  then show ?thesis
    using level_must_be_steady [OF r, of ?tr "Float_Message 1 ''off''" 15 0]
    by (simp add: fresh_float_def reconfigures_def)
qed

subsection \<open>Three lows in five minutes\<close>

text \<open>The confirmed levels of a group, handled one after another.\<close>

definition level_run :: "int \<Rightarrow> (rat \<times> time \<times> bool) list \<Rightarrow> tank \<Rightarrow> tank" where
  "level_run g lv s = fold (\<lambda>(now, clock, b) s. case float_of s g of None \<Rightarrow> s
     | Some r \<Rightarrow> apply_level now clock b r s) lv s"

definition lows :: "(rat \<times> time \<times> bool) list \<Rightarrow> rat list" where
  "lows lv = map fst (filter (\<lambda>e. \<not> snd (snd e)) lv)"

definition three_within :: "rat list \<Rightarrow> bool" where
  "three_within ts \<longleftrightarrow> (\<exists>i. i + 2 < length ts \<and> ts ! (i + 2) - ts ! i \<le> float_trip_window)"

lemma lows_append [simp]: "lows [] = []" "lows (xs @ ys) = lows xs @ lows ys"
  by (simp_all add: lows_def)

lemma lows_sorted: "sorted (map fst lv) \<Longrightarrow> sorted (lows lv)"
  unfolding lows_def by (rule sorted_filter)

lemma lows_set: "set (lows lv) \<subseteq> fst ` set lv"
  by (auto simp: lows_def)

lemma two_late:
  assumes "sorted (xs :: rat list)"
  shows "2 \<le> length (filter (\<lambda>x. c \<le> x) xs) \<longleftrightarrow> 2 \<le> length xs \<and> c \<le> xs ! (length xs - 2)"
proof (cases "2 \<le> length xs")
  case False
  then show ?thesis using length_filter_le [of "\<lambda>x. c \<le> x" xs] by linarith
next
  case True
  obtain zs b where zs: "xs = zs @ [b]" using True by (cases xs rule: rev_cases) auto
  with True obtain ys a where "zs = ys @ [a]" by (cases zs rule: rev_cases) auto
  with zs have xs: "xs = ys @ [a, b]" by simp
  have ord: "\<forall>y \<in> set ys. y \<le> a" "a \<le> b" using assms xs by (auto simp: sorted_append)
  have "filter (\<lambda>x. c \<le> x) (ys @ [a]) = []" if "\<not> c \<le> a" using ord that by (auto simp: filter_empty_conv)
  then show ?thesis using ord by (auto simp: xs nth_append)
qed

lemma three_within_snoc:
  "three_within (ts @ [t]) \<longleftrightarrow>
     three_within ts \<or> (2 \<le> length ts \<and> t - ts ! (length ts - 2) \<le> float_trip_window)"
proof
  assume "three_within (ts @ [t])"
  then obtain i where i: "i + 2 < Suc (length ts)" "(ts @ [t]) ! (i + 2) - (ts @ [t]) ! i \<le> float_trip_window"
    by (auto simp: three_within_def)
  show "three_within ts \<or> (2 \<le> length ts \<and> t - ts ! (length ts - 2) \<le> float_trip_window)"
  proof (cases "i + 2 = length ts")
    case True
    then have "length ts - 2 = i" by simp
    with True i show ?thesis by (auto simp: nth_append)
  next
    case False
    with i show ?thesis unfolding three_within_def by (intro disjI1 exI [of _ i]) (auto simp: nth_append)
  qed
next
  assume "three_within ts \<or> (2 \<le> length ts \<and> t - ts ! (length ts - 2) \<le> float_trip_window)"
  then show "three_within (ts @ [t])"
  proof
    assume "three_within ts"
    then show ?thesis unfolding three_within_def by (force simp: nth_append)
  next
    assume "2 \<le> length ts \<and> t - ts ! (length ts - 2) \<le> float_trip_window"
    then show ?thesis unfolding three_within_def by (intro exI [of _ "length ts - 2"]) (auto simp: nth_append)
  qed
qed

lemma trips_level_row:
  "emergency_stopped (level_row now clock b zs r) =
     (emergency_stopped r \<or> (\<not> b \<and> float_max_trips \<le> length (prune_trips now (trip_times r @ [now]))))"
  "trip_times (level_row now clock b zs r) =
     (if emergency_stopped r \<or> b then trip_times r else prune_trips now (trip_times r @ [now]))"
  by (simp_all add: level_row_def Let_def record_trip_def stop_unstable_def pause_low_def resume_level_def)

lemma prune_kept:
  assumes "sorted ts" "\<forall>x \<in> set ts. x \<le> now" "ks = (if ts = [] then [] else prune_trips (last ts) ts)"
  shows "prune_trips now (ks @ [now]) = prune_trips now (ts @ [now])"
proof (cases "ts = []")
  case False
  then have "last ts \<le> now" using assms by auto
  then have "prune_trips now (prune_trips (last ts) ts) = prune_trips now ts"
    unfolding prune_trips_def filter_filter by (intro filter_cong) auto
  then show ?thesis using False assms by (simp add: prune_trips_def)
qed (use assms in simp)

lemma level_run_trips:
  assumes r: "float_of s g = Some r" "\<not> emergency_stopped r" "trip_times r = []"
    and t: "sorted (map fst lv)"
  shows "\<exists>r'. float_of (level_run g lv s) g = Some r' \<and> (emergency_stopped r' \<longleftrightarrow> three_within (lows lv)) \<and>
    (emergency_stopped r' \<or> trip_times r' = (if lows lv = [] then [] else prune_trips (last (lows lv)) (lows lv)))"
  using t
proof (induction lv rule: rev_induct)
  case Nil
  then show ?case using r by (simp add: level_run_def three_within_def)
next
  case (snoc e lv)
  obtain now clock b where e: "e = (now, clock, b)" by (cases e) auto
  have so: "sorted (map fst lv)" "\<forall>x \<in> set (map fst lv). x \<le> now" using snoc.prems e by (auto simp: sorted_append)
  with snoc.IH obtain r' where r': "float_of (level_run g lv s) g = Some r'"
      "emergency_stopped r' \<longleftrightarrow> three_within (lows lv)"
      "emergency_stopped r' \<or> trip_times r' = (if lows lv = [] then [] else prune_trips (last (lows lv)) (lows lv))" by auto
  have st: "level_run g (lv @ [e]) s = apply_level now clock b r' (level_run g lv s)"
    using r'(1) by (simp add: level_run_def e)
  have so': "sorted (lows lv)" "\<forall>x \<in> set (lows lv). x \<le> now"
    using so lows_sorted lows_set [of lv] by (auto simp: image_iff)
  show ?case
  proof (cases "emergency_stopped r' \<or> b")
    case True
    have "three_within (lows lv) \<longrightarrow> three_within (lows (lv @ [e]))"
      using three_within_snoc [of "lows lv" now] by (cases b) (auto simp: e lows_def)
    then show ?thesis using True r' float_of_apply_level [OF r'(1)] unfolding st
      by (auto simp: trips_level_row e lows_def)
  next
    case False
    then have l: "lows (lv @ [e]) = lows lv @ [now]" by (simp add: e lows_def)
    have k: "prune_trips now (trip_times r' @ [now]) = prune_trips now (lows lv @ [now])"
      using prune_kept [OF so' refl] False r'(3) by simp
    have "float_max_trips \<le> length (prune_trips now (lows lv @ [now])) \<longleftrightarrow>
        2 \<le> length (filter (\<lambda>x. now - float_trip_window \<le> x) (lows lv))"
      by (simp add: prune_trips_def float_max_trips_def float_trip_window_def)
    also have "\<dots> \<longleftrightarrow> 2 \<le> length (lows lv) \<and> now - lows lv ! (length (lows lv) - 2) \<le> float_trip_window"
      by (auto simp: two_late [OF so'(1)])
    finally show ?thesis using False r' k l three_within_snoc [of "lows lv" now] float_of_apply_level [OF r'(1)]
      unfolding st by (auto simp: trips_level_row)
  qed
qed

subsection \<open>Timeouts\<close>

lemma checked_not_late: "\<not> timed_out now (checked_row now r)"
  by (simp add: checked_row_def timed_out_def stop_late_def)

text \<open>
  A tank that stays empty and says so every 200 seconds: each report counts as a trip, but never
  three in a window, and each one moves the deadline, so neither the trips nor the timeouts ever
  stop the group.
\<close>

definition still_empty :: "int \<Rightarrow> nat \<Rightarrow> (rat \<times> time \<times> bool) list" where
  "still_empty g n = map (\<lambda>k. (200 * of_nat k, 0, False)) [0..<n]"

lemma lows_still_empty: "lows (still_empty g n) = map (\<lambda>k. 200 * of_nat k) [0..<n]"
  by (simp add: lows_def still_empty_def comp_def)

lemma still_empty_is_no_emergency:
  assumes "float_of s g = Some r" "\<not> emergency_stopped r" "trip_times r = []"
  shows "\<not> stopped_for_good (level_run g (still_empty g n) s) g"
proof -
  have "sorted (map fst (still_empty g n))"
    by (auto simp: still_empty_def comp_def sorted_iff_nth_mono)
  moreover have "\<not> three_within (lows (still_empty g n))"
    by (auto simp: three_within_def lows_still_empty float_trip_window_def)
  ultimately obtain r' where "float_of (level_run g (still_empty g n) s) g = Some r'" "\<not> emergency_stopped r'"
    using level_run_trips [OF assms, of "still_empty g n"] by auto
  then show ?thesis by (simp add: stopped_for_good_def)
qed

lemma a_low_moves_the_deadline:
  assumes "float_of s g = Some r" "\<not> stopped_for_good (apply_level now clock False r s) g" "0 < timeout_minutes r"
    and "now' < now + of_int (timeout_minutes r * 60)"
  shows "\<exists>r'. float_of (apply_level now clock False r s) g = Some r' \<and> \<not> timed_out now' r'"
  using assms
  by (auto simp: float_of_apply_level stopped_for_good_def level_row_def Let_def timed_out_def pause_low_def
      stop_unstable_def record_trip_def split: if_splits)

text \<open>Nothing takes a zone out of \<open>paused\<close>: the return of the water leaves the zone table alone.\<close>

lemma resume_leaves_zones_paused: "zones (on_level_restored now gs s) = zones s"
  by (simp add: on_level_restored_def notify_def emit_def log_float_event_def put_float_def Let_def)

text \<open>The minimal run time after a resume holds nothing back.\<close>

lemma no_minimal_run_time:
  "last_resume_at r = Some t \<Longrightarrow> now - t < float_min_run_time \<Longrightarrow> \<not> emergency_stopped r \<Longrightarrow>
     paused (level_row now clock False zs r)"
  by (simp add: level_row_def Let_def stop_unstable_def pause_low_def)

text \<open>The deadline that is shown is the time of asking.\<close>

lemma shown_deadline_is_now:
  "v_timeout_at (get_float_state now clock s g) \<noteq> None \<Longrightarrow> v_timeout_at (get_float_state now clock s g) = Some clock"
  by (auto simp: get_float_state_def split: option.splits if_splits)

text \<open>A group that was never paused keeps a waiting worker until the end of the wait.\<close>

lemma flowing_tank_does_not_resume:
  "fst (get_resume_event g (s\<lparr>float_states := []\<rparr>)) = False \<and> \<not> is_paused (snd (get_resume_event g (s\<lparr>float_states := []\<rparr>))) g"
  by (simp add: get_resume_event_def float_of_def is_paused_def fresh_float_def)

lemma wait_ends:
  "p \<in> set ps \<Longrightarrow> deadline \<le> p_clock p \<Longrightarrow> wait_for_resume_or_cancel deadline ps \<noteq> None"
  by (induction ps) auto

lemma wait_resumed:
  "wait_for_resume_or_cancel deadline ps = Some Wait_Resumed \<Longrightarrow> \<exists>p \<in> set ps. p_resumed p"
  by (induction ps) (auto split: if_splits)

subsection \<open>Why a group is stopped\<close>

text \<open>Whether a step confirms the low level of a group, and the times of such steps in a run.\<close>

definition confirms_low :: "tank \<Rightarrow> int \<Rightarrow> rat \<Rightarrow> float_op \<Rightarrow> bool" where
  "confirms_low s g now x = (reading s g x = Some False \<and>
     (case float_of s g of None \<Rightarrow> False
      | Some r \<Rightarrow> debounce_seconds r \<le> 0 \<or> pending_level_ok r = Some False \<and> held_long_enough now r))"

fun confirmed_lows :: "tank \<Rightarrow> int \<Rightarrow> (rat \<times> time \<times> float_op) list \<Rightarrow> rat list" where
  "confirmed_lows s g [] = []"
| "confirmed_lows s g ((now, clock, x) # tr) =
     (if confirms_low s g now x then [now] else []) @ confirmed_lows (float_step now clock x s) g tr"

text \<open>At some check of the run the group's deadline had passed.\<close>

definition found_late :: "tank \<Rightarrow> int \<Rightarrow> (rat \<times> time \<times> float_op) list \<Rightarrow> bool" where
  "found_late s g tr \<longleftrightarrow> (\<exists>tr1 now clock tr2 r. tr = tr1 @ (now, clock, Float_Check) # tr2 \<and>
     float_of (float_run tr1 s) g = Some r \<and> timed_out now r)"

lemma confirmed_lows_snoc:
  "confirmed_lows s g (tr @ [(now, clock, x)]) =
     confirmed_lows s g tr @ (if confirms_low (float_run tr s) g now x then [now] else [])"
  by (induction s g tr rule: confirmed_lows.induct) auto

lemma confirmed_lows_times: "set (confirmed_lows s g tr) \<subseteq> fst ` set tr"
  by (induction s g tr rule: confirmed_lows.induct) auto

lemma confirmed_lows_sorted: "sorted (map fst tr) \<Longrightarrow> sorted (confirmed_lows s g tr)"
proof (induction s g tr rule: confirmed_lows.induct)
  case (2 s g now clock x tr)
  then show ?case using confirmed_lows_times [of "float_step now clock x s" g tr] by (auto simp: sorted_append)
qed simp

lemma found_late_snoc:
  "found_late s g (tr @ [(now, clock, x)]) \<longleftrightarrow> found_late s g tr \<or>
     (x = Float_Check \<and> (\<exists>r. float_of (float_run tr s) g = Some r \<and> timed_out now r))"
proof
  assume "found_late s g (tr @ [(now, clock, x)])"
  then obtain tr1 n c tr2 r where e: "tr @ [(now, clock, x)] = tr1 @ (n, c, Float_Check) # tr2"
    "float_of (float_run tr1 s) g = Some r" "timed_out n r" by (auto simp: found_late_def)
  then show "found_late s g tr \<or> (x = Float_Check \<and> (\<exists>r. float_of (float_run tr s) g = Some r \<and> timed_out now r))"
  proof (cases tr2 rule: rev_cases)
    case (snoc ys y)
    with e show ?thesis unfolding found_late_def
      by (intro disjI1 exI [of _ tr1] exI [of _ n] exI [of _ c] exI [of _ ys] exI [of _ r]) simp
  qed (use e in auto)
next
  assume "found_late s g tr \<or> (x = Float_Check \<and> (\<exists>r. float_of (float_run tr s) g = Some r \<and> timed_out now r))"
  then show "found_late s g (tr @ [(now, clock, x)])" unfolding found_late_def by fastforce
qed

lemma trips_message_row:
  defines "acc now b r \<equiv> debounce_seconds r \<le> 0 \<or> pending_level_ok r = Some b \<and> held_long_enough now r"
  shows "emergency_stopped (message_row now clock b zs r) \<longleftrightarrow> emergency_stopped r \<or>
      (acc now b r \<and> \<not> b \<and> float_max_trips \<le> length (prune_trips now (trip_times r @ [now])))"
    "trip_times (message_row now clock b zs r) =
      (if acc now b r \<and> \<not> b \<and> \<not> emergency_stopped r then prune_trips now (trip_times r @ [now]) else trip_times r)"
  by (auto simp: message_row_def acc_def trips_level_row set_pending_def)

lemma three_of_pruned:
  assumes "sorted ts" "\<forall>x \<in> set ts. x \<le> now" "ks = (if ts = [] then [] else prune_trips (last ts) ts)" "\<not> three_within ts"
  shows "float_max_trips \<le> length (prune_trips now (ks @ [now])) \<longleftrightarrow> three_within (ts @ [now])"
proof -
  have "float_max_trips \<le> length (prune_trips now (ks @ [now])) \<longleftrightarrow>
      2 \<le> length (filter (\<lambda>x. now - float_trip_window \<le> x) ts)"
    unfolding prune_kept [OF assms(1-3)] by (simp add: prune_trips_def float_max_trips_def float_trip_window_def)
  also have "\<dots> \<longleftrightarrow> 2 \<le> length ts \<and> now - ts ! (length ts - 2) \<le> float_trip_window"
    by (auto simp: two_late [OF assms(1)])
  finally show ?thesis using assms(4) three_within_snoc [of ts now] by simp
qed

lemma run_trips:
  assumes r: "float_of s g = Some r" "\<not> emergency_stopped r" "trip_times r = []"
    and "sorted (map fst tr)" "\<forall>e \<in> set tr. \<not> reconfigures (snd (snd e))"
  defines "L \<equiv> confirmed_lows s g"
  shows "\<exists>r'. float_of (float_run tr s) g = Some r' \<and>
    (emergency_stopped r' \<longleftrightarrow> three_within (L tr) \<or> found_late s g tr) \<and>
    (emergency_stopped r' \<or> trip_times r' = (if L tr = [] then [] else prune_trips (last (L tr)) (L tr)))"
  using assms(4,5)
proof (induction tr rule: rev_induct)
  case Nil
  then show ?case using r by (simp add: L_def three_within_def found_late_def)
next
  case (snoc e tr)
  obtain now clock x where e: "e = (now, clock, x)" by (cases e) auto
  have so: "sorted (map fst tr)" "\<forall>y \<in> set (map fst tr). y \<le> now" and q: "\<not> reconfigures x" "\<forall>e \<in> set tr. \<not> reconfigures (snd (snd e))"
    using snoc.prems e by (auto simp: sorted_append)
  let ?u = "float_run tr s"
  from so q snoc.IH obtain r' where r': "float_of ?u g = Some r'" "emergency_stopped r' \<longleftrightarrow> three_within (L tr) \<or> found_late s g tr"
      "emergency_stopped r' \<or> trip_times r' = (if L tr = [] then [] else prune_trips (last (L tr)) (L tr))" by auto
  have so': "sorted (L tr)" "\<forall>y \<in> set (L tr). y \<le> now"
    using confirmed_lows_sorted [OF so(1)] confirmed_lows_times [of s g tr] so(2) by (auto simp: L_def)
  obtain zs where st: "float_of (float_step now clock x ?u) g = Some (case reading ?u g x of
      Some b \<Rightarrow> message_row now clock b zs r' | None \<Rightarrow> if x = Float_Check then checked_row now r' else r')"
    using float_of_step [OF r'(1) q(1), of now clock] by blast
  have L: "L (tr @ [e]) = L tr @ (if confirms_low ?u g now x then [now] else [])"
    by (simp add: L_def e confirmed_lows_snoc)
  have F: "found_late s g (tr @ [e]) \<longleftrightarrow> found_late s g tr \<or> (x = Float_Check \<and> timed_out now r')"
    by (simp add: e found_late_snoc r'(1))
  have run: "float_run (tr @ [e]) s = float_step now clock x ?u" by (simp add: e)
  have more: "three_within (L tr) \<Longrightarrow> three_within (L tr @ ys)" for ys
    unfolding three_within_def by (force simp: nth_append)
  show ?case
  proof (cases "reading ?u g x")
    case None
    then have "\<not> confirms_low ?u g now x" by (simp add: confirms_low_def)
    then show ?thesis using None st r' unfolding run L F
      by (auto simp: checked_row_def stop_late_def)
  next
    case (Some b)
    then have nc: "x \<noteq> Float_Check" by (auto simp: reading_def)
    have c: "confirms_low ?u g now x \<longleftrightarrow> \<not> b \<and> (debounce_seconds r' \<le> 0 \<or> pending_level_ok r' = Some b \<and> held_long_enough now r')"
      using Some r'(1) by (cases b) (simp_all add: confirms_low_def)
    show ?thesis
    proof (cases "emergency_stopped r' \<or> \<not> confirms_low ?u g now x")
      case True
      have row: "float_of (float_run (tr @ [e]) s) g = Some (message_row now clock b zs r')" unfolding run using st Some by simp
      have em: "emergency_stopped (message_row now clock b zs r') = emergency_stopped r'"
        and tt: "emergency_stopped r' \<or> trip_times (message_row now clock b zs r') = trip_times r'"
        using True by (auto simp: trips_message_row c)
      have F': "found_late s g (tr @ [e]) = found_late s g tr" using nc by (simp add: F)
      have "three_within (L (tr @ [e])) \<or> found_late s g tr \<longleftrightarrow> three_within (L tr) \<or> found_late s g tr"
      proof (cases "confirms_low ?u g now x")
        case True
        then have "emergency_stopped r'" using \<open>emergency_stopped r' \<or> \<not> confirms_low ?u g now x\<close> by simp
        then show ?thesis using r'(2) more by (auto simp: L)
      qed (simp add: L)
      moreover have "emergency_stopped r' \<or> L (tr @ [e]) = L tr" using True by (auto simp: L)
      ultimately show ?thesis using row em tt F' r'(2,3) by auto
    next
      case False
      have p: "float_max_trips \<le> length (prune_trips now (trip_times r' @ [now])) \<longleftrightarrow> three_within (L tr @ [now])"
        using three_of_pruned [OF so', of "trip_times r'"] r' False by auto
      have k: "prune_trips now (trip_times r' @ [now]) = prune_trips now (L tr @ [now])"
        using prune_kept [OF so', of "trip_times r'"] r'(3) False by auto
      from False c have acc: "\<not> b" "debounce_seconds r' \<le> 0 \<or> pending_level_ok r' = Some b \<and> held_long_enough now r'"
        "\<not> emergency_stopped r'" "confirms_low ?u g now x" by auto
      have F': "\<not> found_late s g (tr @ [e])" using r'(2) acc(3) nc by (simp add: F)
      have row: "float_of (float_run (tr @ [e]) s) g = Some (message_row now clock b zs r')" unfolding run using st Some by simp
      have "emergency_stopped (message_row now clock b zs r') \<longleftrightarrow> three_within (L (tr @ [e])) \<or> found_late s g (tr @ [e])"
        using acc p F' by (simp add: trips_message_row L)
      moreover have "trip_times (message_row now clock b zs r') = prune_trips now (L tr @ [now])"
        using acc k by (simp add: trips_message_row)
      ultimately show ?thesis using row acc(4) by (simp add: L)
    qed
  qed
qed

subsection \<open>The queue manager behind the monitor\<close>

text \<open>
  A group that comes to its emergency stop is owed the call that cancels its queue: the call is among
  the effects of the step, or the checker still has the group on its list.
\<close>

definition owed :: "int \<Rightarrow> tank \<Rightarrow> float_out list \<Rightarrow> bool" where
  "owed g s p \<longleftrightarrow> g \<in> set (late_groups s) \<or> Cancel_Queue g \<in> set p"

lemma float_out_frames [simp]:
  "float_out (put_float g f s) = float_out s" "float_out (log_float_event g k zs s) = float_out s"
  "float_out (snd (pause_active_zones g s)) = float_out s" "float_out (emit x s) = float_out s @ [x]"
  by (simp_all add: put_float_def log_float_event_def pause_active_zones_def emit_def)

lemma level_stop_cancels:
  assumes r: "float_of s g = Some r" "\<not> emergency_stopped r"
    and e: "emergency_stopped (level_row now clock b zs r)"
  shows "Cancel_Queue g \<in> set (new_effects s (apply_level now clock b r s))"
proof -
  have b: "\<not> b" "float_max_trips \<le> length (trip_times (record_trip now r))"
    using e r(2) by (auto simp: level_row_def Let_def resume_level_def pause_low_def record_trip_def split: if_splits)
  have "fs_group r = g" using r(1) by (rule float_of_group)
  then show ?thesis using b r(2) by (simp add: apply_level_def on_level_low_def Let_def notify_def new_effects_def)
qed

lemma message_stop_cancels:
  assumes "\<not> stopped_for_good s g" "stopped_for_good (on_float_message now clock h p s) g"
  shows "Cancel_Queue g \<in> set (new_effects s (on_float_message now clock h p s))"
proof -
  have h: "h = g" using assms by (auto simp: stopped_for_good_def float_of_message split: if_splits)
  obtain r b where r: "float_of s g = Some r" "\<not> emergency_stopped r" and b: "level_of s g p = Some b"
    and e: "emergency_stopped (message_row now clock b (fst (pause_active_zones g s)) r)"
    using assms h by (auto simp: stopped_for_good_def float_of_message split: option.splits)
  have l: "emergency_stopped (level_row now clock b (fst (pause_active_zones g s)) r)"
    and d: "debounce_seconds r \<le> 0 \<or> pending_level_ok r = Some b \<and> held_long_enough now r"
    using e r(2) by (auto simp: message_row_def set_pending_def split: if_splits)
  show ?thesis using level_stop_cancels [OF r l] d by (auto simp: on_float_message_def h b r new_effects_def)
qed

lemma check_stop_is_noted:
  assumes "\<not> stopped_for_good s g" "stopped_for_good (check_timeouts now s) g"
  shows "g \<in> set (late_groups (check_timeouts now s))"
proof -
  obtain r where r: "float_of s g = Some r" "timed_out now r"
    using assms by (auto simp: stopped_for_good_def float_of_check checked_row_def split: option.splits if_splits)
  then have "r \<in> set (float_states s)" "fs_group r = g" by (auto simp: float_of_def dest: row_at_mem row_at_key)
  then show ?thesis using r(2) by (force simp: check_timeouts_def)
qed

lemma stopped_subscribe: "stopped_for_good (subscribe_group c s) g = stopped_for_good s g"
  using float_of_subscribe [of c s g]
  by (auto simp: stopped_for_good_def configured_def fresh_float_def split: option.splits)

lemma other_steps_stop_nothing:
  assumes "x \<noteq> Float_Check" "\<forall>h p. x \<noteq> Float_Message h p" "stopped_for_good (float_step now clock x s) g"
  shows "stopped_for_good s g"
proof -
  have f: "stopped_for_good (fold subscribe_group cs t) g = stopped_for_good t g" for cs t
    by (induction cs arbitrary: t) (simp_all add: stopped_subscribe)
  have l: "stopped_for_good (load_group h t) g = stopped_for_good t g" for h t
    by (simp add: load_group_def stopped_subscribe split: option.splits)
  show ?thesis
  proof (cases x)
    case (Float_Reload h)
    then show ?thesis using assms(3) by (auto simp: reload_group_def l) (simp_all add: stopped_for_good_def split: if_splits)
  next
    case Float_Start
    then show ?thesis using assms(3) by (simp add: start_monitor_def load_all_groups_def f) (simp add: stopped_for_good_def float_of_def)
  next
    case (Float_Ask h)
    then show ?thesis using assms(3) by (auto simp: stopped_for_good_def float_of_ask fresh_float_def split: if_splits)
  qed (use assms in \<open>auto simp: stopped_for_good_def\<close>)
qed

lemma stop_is_owed:
  assumes "\<not> stopped_for_good s g" "stopped_for_good (float_step now clock x s) g"
  shows "owed g (float_step now clock x s) (new_effects s (float_step now clock x s))"
proof (cases "x = Float_Check")
  case True
  then show ?thesis using check_stop_is_noted assms by (simp add: owed_def)
next
  case False
  then obtain h p where "x = Float_Message h p" using other_steps_stop_nothing assms by blast
  then show ?thesis using message_stop_cancels assms by (simp add: owed_def)
qed

text \<open>A debt of the checker is kept until its call is made.\<close>

lemma late_groups_frames [simp]:
  "late_groups (put_float g f s) = late_groups s" "late_groups (log_float_event g k zs s) = late_groups s"
  "late_groups (snd (pause_active_zones g s)) = late_groups s" "late_groups (emit x s) = late_groups s"
  "late_groups (notify x s) = late_groups s"
  by (simp_all add: put_float_def log_float_event_def pause_active_zones_def emit_def notify_def)

lemma late_groups_fold: "(\<And>x t. late_groups (f x t) = late_groups t) \<Longrightarrow> late_groups (fold f xs s) = late_groups s"
  by (induction xs arbitrary: s) auto

lemma late_groups_steps:
  "late_groups (on_float_message now clock g p s) = late_groups s" "late_groups (reload_group g s) = late_groups s"
  "late_groups (start_monitor s) = late_groups s" "late_groups (stop_monitor s) = late_groups s"
  "late_groups (on_float_connect srv s) = late_groups s" "late_groups (snd (get_resume_event g s)) = late_groups s"
proof -
  have sg: "late_groups (subscribe_group c t) = late_groups t" for c t by (simp add: subscribe_group_def Let_def)
  have ug: "late_groups (unsubscribe_group h t) = late_groups t" for h t
    by (simp add: unsubscribe_group_def Let_def split: option.splits)
  have al: "late_groups (apply_level now clock b r t) = late_groups t" for b r t
    by (simp add: apply_level_def on_level_low_def on_level_restored_def Let_def split_def)
  show "late_groups (on_float_message now clock g p s) = late_groups s"
    by (auto simp: on_float_message_def al split: option.splits)
  show "late_groups (reload_group g s) = late_groups s"
    by (simp add: reload_group_def load_group_def sg ug split: option.splits)
  show "late_groups (start_monitor s) = late_groups s"
    by (simp add: start_monitor_def load_all_groups_def late_groups_fold sg)
  show "late_groups (stop_monitor s) = late_groups s"
    by (simp add: stop_monitor_def late_groups_fold ug)
  show "late_groups (on_float_connect srv s) = late_groups s"
    by (simp add: on_float_connect_def late_groups_fold)
  show "late_groups (snd (get_resume_event g s)) = late_groups s"
    by (simp add: get_resume_event_def split: option.splits)
qed

lemma owed_step: "owed g s p \<Longrightarrow> owed g (float_step now clock x s) (p @ new_effects s (float_step now clock x s))"
proof (cases x)
  case Float_Next_Late
  then show "owed g s p \<Longrightarrow> ?thesis"
    by (auto simp: owed_def stop_next_late_def stop_timed_out_def new_effects_def notify_def Let_def split: list.splits)
qed (auto simp: owed_def late_groups_steps check_timeouts_def)

text \<open>
  What the monitor relies on: \<open>cancel_group\<close> ends what waits in the group, revives nothing and
  leaves the other groups' waiting runs where they are.
\<close>

locale group_canceller =
  fixes cancel :: "int \<Rightarrow> 'q \<Rightarrow> 'q"
    and ok :: "'q \<Rightarrow> bool"
    and waiting :: "'q \<Rightarrow> int \<Rightarrow> int set"
    and dead :: "'q \<Rightarrow> int \<Rightarrow> bool"
  assumes ok_cancel: "ok m \<Longrightarrow> ok (cancel g m)"
    and waiting_cancel: "waiting (cancel h m) g = waiting m g"
    and dead_cancel: "dead m i \<Longrightarrow> dead (cancel h m) i"
    and cancel_kills: "ok m \<Longrightarrow> i \<in> waiting m g \<Longrightarrow> dead (cancel g m) i"
begin

lemma call_ok: "ok m \<Longrightarrow> ok (perform_call cancel e m)"
  by (simp add: perform_call_def ok_cancel split: float_out.splits)

lemma call_waiting: "waiting (perform_call cancel e m) g = waiting m g"
  by (simp add: perform_call_def waiting_cancel split: float_out.splits)

lemma call_dead: "dead m i \<Longrightarrow> dead (perform_call cancel e m) i"
  by (simp add: perform_call_def dead_cancel split: float_out.splits)

lemma call_kills: "ok m \<Longrightarrow> i \<in> waiting m g \<Longrightarrow> dead (perform_call cancel (Cancel_Queue g) m) i"
  by (simp add: perform_call_def cancel_kills)

end

subsection \<open>Properties of the emergency stop\<close>

text \<open>
  C35: Why the monitor stops a group for good.  From a group that is not stopped and has no trips on
  record, over any run of messages of any groups, checks and questions of the queue in order of time,
  without a change of the configuration: the group is stopped exactly when three of the low levels
  confirmed in the run lie within five minutes, or a check found its deadline passed.
\<close>

theorem stop_reasons:
  assumes "float_of s g = Some r" "\<not> emergency_stopped r" "trip_times r = []"
    and "sorted (map fst tr)" "\<forall>e \<in> set tr. \<not> reconfigures (snd (snd e))"
  shows "stopped_for_good (float_run tr s) g \<longleftrightarrow>
    (\<exists>i. i + 2 < length (confirmed_lows s g tr) \<and> confirmed_lows s g tr ! (i + 2) - confirmed_lows s g tr ! i \<le> 300) \<or>
    found_late s g tr"
proof -
  obtain r' where "float_of (float_run tr s) g = Some r'"
      "emergency_stopped r' \<longleftrightarrow> three_within (confirmed_lows s g tr) \<or> found_late s g tr"
    using run_trips [OF assms] by blast
  then show ?thesis by (simp add: stopped_for_good_def three_within_def float_trip_window_def)
qed

definition lows_trace :: "(rat \<times> time \<times> float_op) list" where
  "lows_trace = map (\<lambda>t. (t, 0, Float_Message 1 ''off'')) [0, 5, 100, 105, 200, 205]"

theorem stop_reasons_witness:
  "stopped_for_good (float_run lows_trace (lone_tank (fresh_float 1))) 1"
proof -
  have r: "float_of (lone_tank (fresh_float 1)) 1 = Some (fresh_float 1)" by code_simp
  have "confirmed_lows (lone_tank (fresh_float 1)) 1 lows_trace = [5, 105, 205]" by code_simp
  moreover have "sorted (map fst lows_trace)" "\<forall>e \<in> set lows_trace. \<not> reconfigures (snd (snd e))"
    by (simp_all add: lows_trace_def reconfigures_def)
  ultimately show ?thesis
    using stop_reasons [OF r, of lows_trace] by (force simp: fresh_float_def)
qed

text \<open>
  Final, and always a pause: nothing but stopping the whole monitor ends it, neither the water's
  return nor a reload of the group.
\<close>

lemma emergency_stop_is_final:
  assumes "floats_ok s" "stopped_for_good s g" "Float_Stop \<notin> (snd \<circ> snd) ` set tr"
  shows "stopped_for_good (float_run tr s) g \<and> is_paused (float_run tr s) g"
proof -
  have f: "stopped_for_good (float_run tr s) g" by (rule stopped_grows [OF grows_run [OF assms(3)] assms(2)])
  moreover have "floats_ok (float_run tr s)" by (rule floats_ok_run [OF assms(1)])
  ultimately show ?thesis
    by (auto simp: stopped_for_good_def is_paused_def floats_ok_def float_ok_def split: option.splits)
qed

text \<open>After a restart of the monitor the group starts with water and no memory of its stop.\<close>

lemma restart_forgets: "\<not> stopped_for_good (stop_monitor s) g" "\<not> is_paused (stop_monitor s) g"
  by (simp_all add: stopped_for_good_def is_paused_def)

end
