(* ===== verification/Tank_Queue_Laws.thy ===== *)
theory Tank_Queue_Laws
  imports Queue_Laws Float_Laws
begin

text \<open>
  The tank monitor and the program queues together.  The monitor's flag is set under its lock, the
  queue manager is called without it: a call is pending from the step that makes it until it is
  carried out, and callers and workers of the queues act in between.  Then the completion tracker,
  and the interleavings the locks leave open, as concrete runs.
\<close>

subsection \<open>The emergency stop of the tank reaches the queue\<close>

definition carry_out :: "float_out \<Rightarrow> queues \<Rightarrow> queues" where
  "carry_out = perform_call (\<lambda>g m. snd (cancel_queue g m))"

inductive tank_queue :: "tank \<times> float_out list \<times> queues \<Rightarrow> tank \<times> float_out list \<times> queues \<Rightarrow> bool" where
  Monitor: "s' = float_step now clock x s \<Longrightarrow> tank_queue (s, p, m) (s', p @ new_effects s s', m)"
| Call: "tank_queue (s, p @ e # p', m) (s, p @ p', carry_out e m)"
| Queue: "tank_queue (s, p, m) (s, p, queue_step a m)"

inductive_cases tank_queueE: "tank_queue (s, p, m) t"

definition queued_in :: "queues \<Rightarrow> int \<Rightarrow> int set" where
  "queued_in m g = (case queue_of m g of None \<Rightarrow> {} | Some q \<Rightarrow> set (gq_queue q))"

lemma queued_in_cancel: "queued_in (snd (cancel_queue h m)) g = queued_in m g"
  by (auto simp: queued_in_def cancel_queue_def cancel_in_def split: option.splits)

lemma cancel_queue_state:
  "is_cancelled m i \<Longrightarrow> is_cancelled (snd (cancel_queue h m)) i"
  by (cases "entry_of m i"; cases "queue_of m h") (simp_all add: is_cancelled_def cancel_queue_def cancel_in_def state_of_def)

lemma cancel_queue_kills:
  assumes ok: "queues_ok m" and i: "i \<in> queued_in m g"
  shows "is_cancelled (snd (cancel_queue g m)) i"
proof -
  obtain q where q: "queue_of m g = Some q" "i \<in> set (gq_queue q)" using i by (auto simp: queued_in_def split: option.splits)
  obtain x where x: "entry_of m i = Some x" "e_state x \<in> {Q_Waiting, Q_Cancelled}"
    using queued_entry [OF queues_okD [OF ok q(1)] q(2)] by blast
  then show ?thesis
    using q entry_of_id [OF x(1)] by (auto simp: is_cancelled_def cancel_queue_def cancel_in_def state_of_def takes_def)
qed

interpretation queue_manager: group_canceller "\<lambda>g m. snd (cancel_queue g m)" queues_ok queued_in is_cancelled
  by unfold_locales (simp_all add: queues_ok_cancel_queue queued_in_cancel cancel_queue_state cancel_queue_kills)

lemma carry_out_step: "carry_out e m = m \<or> (\<exists>a. carry_out e m = queue_step a m)"
proof (cases e)
  case (Cancel_Queue g)
  have "carry_out e m = queue_step (Cancel_Group g) m" by (simp add: carry_out_def perform_call_def Cancel_Queue)
  then show ?thesis by blast
qed (simp_all add: carry_out_def perform_call_def)

lemma tank_queue_ok: "tank_queue t t' \<Longrightarrow> queues_ok (snd (snd t)) \<Longrightarrow> queues_ok (snd (snd t'))"
  by (induction rule: tank_queue.induct) (simp_all add: queues_ok_step carry_out_def queue_manager.call_ok)

lemma tank_queues_ok: "tank_queue\<^sup>*\<^sup>* t t' \<Longrightarrow> queues_ok (snd (snd t)) \<Longrightarrow> queues_ok (snd (snd t'))"
  by (induction rule: rtranclp_induct) (auto intro: tank_queue_ok)

text \<open>A run withdrawn before it started is out of the game.\<close>

definition killed :: "int \<Rightarrow> int \<Rightarrow> queues \<Rightarrow> bool" where
  "killed g i m \<longleftrightarrow> withdrawn m i \<and> i \<notin> set (started_runs m g)"

lemma killed_step: "tank_queue t t' \<Longrightarrow> queues_ok (snd (snd t)) \<Longrightarrow> killed g i (snd (snd t)) \<Longrightarrow> killed g i (snd (snd t'))"
proof (induction rule: tank_queue.induct)
  case (Call s p e p' m)
  then show ?case using carry_out_step [of e m] withdrawn_step [of m i _ g] by (fastforce simp: killed_def)
next
  case (Queue s p m a)
  then show ?case using withdrawn_step [of m i a g] by (auto simp: killed_def)
qed simp

lemma call_kills_waiting:
  assumes ok: "queues_ok m" and i: "i \<in> queued_in m g"
  shows "killed g i (carry_out (Cancel_Queue g) m)"
proof -
  let ?m = "carry_out (Cancel_Queue g) m"
  have k: "queues_ok ?m" unfolding carry_out_def by (rule queue_manager.call_ok [OF ok])
  have c: "is_cancelled ?m i" unfolding carry_out_def by (rule queue_manager.call_kills [OF ok i])
  have "i \<in> queued_in ?m g" unfolding carry_out_def using i by (simp add: queue_manager.call_waiting)
  then obtain q where q: "queue_of ?m g = Some q" "i \<in> set (gq_queue q)" by (auto simp: queued_in_def split: option.splits)
  show ?thesis using c queued_not_handled [OF k q] queued_not_started [OF k q] by (simp add: killed_def withdrawn_def is_cancelled_def)
qed

text \<open>The call for the group was carried out, and everything that waited then is out of the game.\<close>

definition called_off :: "int \<Rightarrow> tank \<times> float_out list \<times> queues \<Rightarrow> tank \<times> float_out list \<times> queues \<Rightarrow> bool" where
  "called_off g t1 t2 \<longleftrightarrow> (\<exists>s p p' m. tank_queue\<^sup>*\<^sup>* t1 (s, p @ Cancel_Queue g # p', m) \<and>
     tank_queue\<^sup>*\<^sup>* (s, p @ p', carry_out (Cancel_Queue g) m) t2 \<and> (\<forall>i \<in> queued_in m g. killed g i (snd (snd t2))))"

lemma called_off_step:
  assumes "called_off g t1 t" "tank_queue t t'" "queues_ok (snd (snd t))"
  shows "called_off g t1 t'"
proof -
  obtain s p p' m where c: "tank_queue\<^sup>*\<^sup>* t1 (s, p @ Cancel_Queue g # p', m)"
    "tank_queue\<^sup>*\<^sup>* (s, p @ p', carry_out (Cancel_Queue g) m) t" "\<forall>i \<in> queued_in m g. killed g i (snd (snd t))"
    using assms(1) unfolding called_off_def by blast
  have "tank_queue\<^sup>*\<^sup>* (s, p @ p', carry_out (Cancel_Queue g) m) t'" using c(2) assms(2) by simp
  moreover have "\<forall>i \<in> queued_in m g. killed g i (snd (snd t'))" using c(3) killed_step [OF assms(2,3)] by blast
  ultimately show ?thesis using c(1) unfolding called_off_def by blast
qed

lemma debt_step:
  assumes "tank_queue\<^sup>*\<^sup>* t1 (s, p, m)" "owed g s p" "tank_queue (s, p, m) t'" "queues_ok m"
  shows "owed g (fst t') (fst (snd t')) \<or> called_off g t1 t'"
proof (rule tank_queueE [OF assms(3)])
  fix now clock x
  assume "t' = (float_step now clock x s, p @ new_effects s (float_step now clock x s), m)"
  then show ?thesis using owed_step [OF assms(2)] by simp
next
  fix q e q'
  assume t: "t' = (s, q @ q', carry_out e m)" "p = q @ e # q'"
  show ?thesis
  proof (cases "e = Cancel_Queue g")
    case True
    have "\<forall>i \<in> queued_in m g. killed g i (carry_out (Cancel_Queue g) m)"
      using call_kills_waiting [OF assms(4)] by blast
    then have "called_off g t1 t'"
      unfolding called_off_def using assms(1) True t by (intro exI [of _ s] exI [of _ q] exI [of _ q'] exI [of _ m]) auto
    then show ?thesis ..
  qed (use t assms(2) in \<open>auto simp: owed_def\<close>)
qed (use assms(2) in simp)

lemma debt_run:
  assumes "tank_queue\<^sup>*\<^sup>* t1 t2" "owed g (fst t1) (fst (snd t1))" "queues_ok (snd (snd t1))"
  shows "owed g (fst t2) (fst (snd t2)) \<or> called_off g t1 t2"
  using assms
proof (induction rule: rtranclp_induct)
  case (step t t')
  have ok: "queues_ok (snd (snd t))" by (rule tank_queues_ok [OF step(1) step.prems(2)])
  obtain s p m where t: "t = (s, p, m)" by (cases t) auto
  from step.IH [OF step.prems] show ?case
  proof
    assume "owed g (fst t) (fst (snd t))"
    then show ?case using debt_step [of t1 s p m g t'] step(1,2) ok t by simp
  next
    assume "called_off g t1 t"
    then show ?case using called_off_step [OF _ step(2) ok] by blast
  qed
qed simp

subsection \<open>The completion tracker\<close>

text \<open>The reports of a run, one after another, and the answer to the last of them.\<close>

definition reports :: "string \<Rightarrow> int list \<Rightarrow> tracker \<Rightarrow> tracker" where
  "reports r is t = fold (\<lambda>i t. snd (entry_finished r i t)) is t"

lemma tracked_put: "tracked_of (put_key t_run x t) r = (if t_run x = r then Some x else tracked_of t r)"
proof -
  have "tracked_of (map (\<lambda>y. if t_run y = t_run x then x else y) t) r =
      (if t_run x = r then (if t_run x \<in> t_run ` set t then Some x else None) else tracked_of t r)"
    by (induction t) (auto simp: tracked_of_def)
  moreover have "t_run x \<notin> t_run ` set t \<Longrightarrow> tracked_of t (t_run x) = None"
    by (auto simp: tracked_of_def find_None_iff intro: rev_image_eqI)
  moreover have "tracked_of (t @ [x]) r = (case tracked_of t r of None \<Rightarrow> if t_run x = r then Some x else None | Some y \<Rightarrow> Some y)"
    by (induction t) (auto simp: tracked_of_def)
  ultimately show ?thesis by (auto simp: put_key_def split: option.splits)
qed

lemma tracked_removed: "tracked_of (filter (\<lambda>y. t_run y \<noteq> r) t) r = None"
  by (auto simp: tracked_of_def find_None_iff)

lemma tracked_run: "tracked_of t r = Some x \<Longrightarrow> t_run x = r"
  by (auto simp: tracked_of_def find_Some_iff)

lemma reports_tracked:
  assumes "tracked_of t r = Some x" "set (t_finished x) = {}"
  shows "case tracked_of (reports r is t) r of
      None \<Rightarrow> set (t_expected x) \<subseteq> set is \<and> is \<noteq> []
    | Some y \<Rightarrow> t_expected y = t_expected x \<and> set (t_finished y) = set is \<and> (is \<noteq> [] \<longrightarrow> \<not> set (t_expected x) \<subseteq> set is)"
proof (induction "is" rule: rev_induct)
  case Nil
  then show ?case using assms by (simp add: reports_def)
next
  case (snoc i "is")
  have st: "reports r (is @ [i]) t = snd (entry_finished r i (reports r is t))" by (simp add: reports_def)
  show ?case
  proof (cases "tracked_of (reports r is t) r")
    case None
    then show ?thesis using snoc st by (auto simp: entry_finished_def)
  next
    case (Some y)
    then have y: "t_run y = r" "t_expected y = t_expected x" "set (t_finished y) = set is"
      using snoc by (auto dest: tracked_run)
    then show ?thesis using Some st
      by (auto simp: entry_finished_def Let_def run_done_def tracked_put tracked_removed)
  qed
qed

text \<open>
  A report is answered with yes exactly when everything expected has been reported by then; later
  reports of the same run are answered with yes again.
\<close>

lemma report_answer:
  assumes "tracked_of t r = None"
  shows "fst (entry_finished r i (reports r is (register_run r es pid nm t))) \<longleftrightarrow> set es \<subseteq> insert i (set is)"
proof -
  define t0 where "t0 = register_run r es pid nm t"
  define x where "x = \<lparr>t_run = r, t_program = pid, t_name = nm, t_expected = remdups es, t_finished = []\<rparr>"
  have x: "tracked_of t0 r = Some x" by (simp add: t0_def register_run_def tracked_put x_def)
  have f: "set (t_finished x) = {}" "set (t_expected x) = set es" by (simp_all add: x_def)
  show ?thesis
  proof (cases "tracked_of (reports r is t0) r")
    case None
    with reports_tracked [OF x f(1), of "is"] f have "set es \<subseteq> set is" by simp
    with None show ?thesis by (auto simp: entry_finished_def t0_def)
  next
    case (Some y)
    with reports_tracked [OF x f(1), of "is"] f have "set (t_expected y) = set es" "set (t_finished y) = set is" by auto
    with Some show ?thesis by (auto simp: entry_finished_def t0_def Let_def run_done_def)
  qed
qed

subsection \<open>Interleavings the locks leave open\<close>

definition demo_run :: "int list \<Rightarrow> enqueue_req" where
  "demo_run zs = \<lparr>n_program = 1, n_name = ''A'', n_group = 1, n_zones = zs, n_scheduled = None, n_run = None\<rparr>"

definition run_ops :: "queue_op list \<Rightarrow> queues \<Rightarrow> queues" where
  "run_ops xs m = fold queue_step xs m"

lemma run_ops_steps: "queue_steps m (run_ops xs m)"
proof (induction xs rule: rev_induct)
  case (snoc x xs)
  then have "queue_steps m (queue_step x (run_ops xs m))" by (rule queue_steps.Step)
  then show ?case by (simp add: run_ops_def)
qed (simp add: run_ops_def queue_steps.Refl)

text \<open>
  A worker that found its queue empty is still alive until its thread ends: an entry added there
  starts no worker, and stays until somebody adds another.
\<close>

definition stranded :: queues where
  "stranded = run_ops (Enqueue 0 (demo_run []) # replicate 9 (Work 0 1) @ [Enqueue 1 (demo_run [3]), Work 1 1])
     (new_queues 0 20 None False)"

lemma added_too_late_is_stranded:
  "queue_steps (new_queues 0 20 None False) stranded \<and> state_of stranded 1 = Some Q_Waiting \<and> works ts 1 stranded = stranded"
proof -
  have "queue_of stranded 1 = Some \<lparr>gq_group = 1, gq_queue = [1], gq_current = None, gq_worker = W_Gone, gq_cancel = False, gq_new_item = True\<rparr>"
    by code_simp
  then have "works ts 1 stranded = stranded" by (rule works_gone) simp
  moreover have "state_of stranded 1 = Some Q_Waiting" by code_simp
  ultimately show ?thesis by (simp add: stranded_def run_ops_steps)
qed

text \<open>An entry just taken from the queue is in nobody's sight: cancelling its group misses it, and it runs.\<close>

definition taken :: queues where
  "taken = run_ops [Enqueue 0 (demo_run [3]), Work 0 1] (new_queues 0 20 None False)"

lemma taken_entry_escapes_cancel:
  "fst (cancel_entry 0 taken) = False" "fst (cancel_queue 1 taken) = 0"
  "started_runs (run_ops [Cancel_Group 1, Work 0 1, Work 0 1] taken) 1 = [0]"
  by code_simp+

text \<open>The same window lets a group hold one entry more than its bound.\<close>

lemma bound_is_passed_by_one:
  "(let m = run_ops [Enqueue 0 (demo_run [3]), Work 0 1, Enqueue 0 (demo_run [3]), Work 0 1, Work 0 1] (new_queues 0 1 None False)
    in map_option in_queue_count (queue_of m 1)) = Some 2"
  by code_simp

text \<open>A run stopped by the shutdown is entered as completed.\<close>

lemma shutdown_completes:
  "state_of (run_ops ([Enqueue 0 (demo_run [3, 4])] @ replicate 3 (Work 0 1) @ [Shut_Down] @ replicate 3 (Work 0 1))
     (new_queues 0 20 None False)) 0 = Some Q_Completed"
  by code_simp

text \<open>A completed run that is still current is turned into a cancelled one.\<close>

lemma completed_is_cancelled:
  "(let m = run_ops ([Enqueue 0 (demo_run [])] @ replicate 6 (Work 0 1)) (new_queues 0 20 None False)
    in (state_of m 0, fst (cancel_entry 0 m), state_of (snd (cancel_entry 0 m)) 0)) = (Some Q_Completed, True, Some Q_Cancelled)"
  by code_simp

text \<open>
  The monitor of \<open>float_monitor.py\<close> wants a group for \<open>is_paused\<close>; the worker passes none, and the
  call raises.  With that monitor attached every run fails at its first zone.
\<close>

definition answer_of_monitor :: "(py_error + bool) option" where
  "answer_of_monitor = Some (Inl Type_Error)"

lemma runs_fail_with_the_monitor:
  "state_of (run_ops ([Enqueue 0 (demo_run [3])] @ replicate 7 (Work 0 1)) (new_queues 0 20 answer_of_monitor False)) 0 = Some Q_Failed"
  by code_simp

text \<open>Time spent paused counts as waiting: nothing ever adds to the excluded seconds.\<close>

lemma nothing_is_excluded: "e_excluded (new_entry now i r) = 0" "e_excluded (cancelled x) = e_excluded x"
  "e_excluded (x\<lparr>e_state := v\<rparr>) = e_excluded x" "e_excluded (x\<lparr>e_cancel := b\<rparr>) = e_excluded x"
  by (simp_all add: new_entry_def cancelled_def)

subsection \<open>Properties\<close>

text \<open>
  C30: No program run is lost.  In every state the queues can come to, whatever callers and workers
  did in whatever order, an entry that waits or runs is in the queue of its group or in the hands
  of the group's worker; and once no group holds an entry any more, its outcome never changes.
\<close>

theorem no_entry_is_lost:
  assumes "queue_steps (new_queues wait cap fm tg) m" "entry_of m i = Some x"
  shows "(e_state x \<in> {Q_Waiting, Q_Running} \<longrightarrow>
      (\<exists>q. queue_of m (e_group x) = Some q \<and> (i \<in> set (gq_queue q) \<or> in_hand (gq_worker q) = Some i))) \<and>
    (\<not> held_somewhere m i \<longrightarrow> queue_steps m m' \<longrightarrow> state_of m' i = Some (e_state x))"
proof -
  have ok: "queues_ok m" by (rule queues_ok_steps [OF assms(1) queues_ok_new])
  then have "unsettled x \<longrightarrow> (\<exists>q. queue_of m (e_group x) = Some q \<and> i \<in> near q)"
    using assms(2) unfolding queues_ok_def by blast
  then show ?thesis
    using settled_steps [OF _ ok, of m' i "e_state x"] assms(2) by (auto simp: unsettled_def near_def state_of_def)
qed

theorem no_entry_is_lost_witness:
  "\<exists>q. queue_of taken 1 = Some q \<and> (0 \<in> set (gq_queue q) \<or> in_hand (gq_worker q) = Some 0)"
proof -
  have e: "entry_of taken 0 = Some (new_entry 0 0 (demo_run [3]))" by code_simp
  have "queue_steps (new_queues 0 20 None False) taken" by (simp add: taken_def run_ops_steps)
  from no_entry_is_lost [OF this e, of taken] show ?thesis by (simp add: new_entry_def demo_run_def)
qed

text \<open>
  C32: The runs of a group start in the order in which they were queued, and none starts twice: the
  audit announces strictly increasing entries, and everything still queued was queued later than
  everything announced.
\<close>

theorem runs_start_in_order:
  assumes "queue_steps (new_queues wait cap fm tg) m"
  shows "sorted_wrt (<) (started_runs m g) \<and>
    (\<forall>q. queue_of m g = Some q \<longrightarrow> (\<forall>i \<in> set (started_runs m g). \<forall>j \<in> set (gq_queue q). i < j))"
proof -
  have ok: "queues_ok m" by (rule queues_ok_steps [OF assms queues_ok_new])
  show ?thesis
  proof (cases "queue_of m g")
    case None
    then show ?thesis using ok by (simp add: queues_ok_def)
  next
    case (Some q)
    then show ?thesis using queues_okD [OF ok Some] queue_of_group [OF Some]
      by (auto simp: queue_ok_def line_up_def sorted_wrt_append)
  qed
qed

theorem runs_start_in_order_witness:
  "sorted_wrt (<) (started_runs (run_ops (replicate 3 (Work 0 1)) taken) 1) \<and> started_runs (run_ops (replicate 3 (Work 0 1)) taken) 1 = [0]"
proof -
  have t: "run_ops (replicate 3 (Work 0 1)) taken =
      run_ops ([Enqueue 0 (demo_run [3]), Work 0 1] @ replicate 3 (Work 0 1)) (new_queues 0 20 None False)"
    by (simp add: taken_def run_ops_def)
  have "queue_steps (new_queues 0 20 None False) (run_ops (replicate 3 (Work 0 1)) taken)"
    unfolding t by (rule run_ops_steps)
  from runs_start_in_order [OF this, of 1]
  have "sorted_wrt (<) (started_runs (run_ops (replicate 3 (Work 0 1)) taken) 1)" by simp
  moreover have "started_runs (run_ops (replicate 3 (Work 0 1)) taken) 1 = [0]" by code_simp
  ultimately show ?thesis by simp
qed

text \<open>
  A run that is cancelled while it still waits in its queue is found there, and never starts,
  whatever happens afterwards.
\<close>

theorem cancelled_before_start_never_runs:
  assumes "queue_steps (new_queues wait cap fm tg) m" "queue_of m g = Some q" "i \<in> set (gq_queue q)"
  shows "fst (cancel_entry i m) \<and>
    (queue_steps (snd (cancel_entry i m)) m' \<longrightarrow> i \<notin> set (started_runs m' g) \<and> state_of m' i = Some Q_Cancelled)"
proof -
  have ok: "queues_ok m" by (rule queues_ok_steps [OF assms(1) queues_ok_new])
  have "i \<notin> set (started_runs (snd (cancel_entry i m)) g)"
    using queued_not_started [OF ok assms(2,3)] by (simp add: cancel_entry_def)
  then show ?thesis
    using withdrawn_steps [OF _ queues_ok_cancel_entry [OF ok] cancelled_in_queue_is_withdrawn(2) [OF ok assms(2,3)], of m' g]
      cancelled_in_queue_is_withdrawn(1) [OF ok assms(2,3)] by (auto simp: withdrawn_def)
qed

definition two_queued :: queues where
  "two_queued = run_ops [Enqueue 0 (demo_run [3]), Enqueue 0 (demo_run [4])] (new_queues 0 20 None False)"

theorem cancelled_before_start_never_runs_witness:
  "started_runs (run_ops (replicate 30 (Work 0 1)) (snd (cancel_entry 1 two_queued))) 1 = [0] \<and>
   state_of (run_ops (replicate 30 (Work 0 1)) (snd (cancel_entry 1 two_queued))) 1 = Some Q_Cancelled"
proof -
  have q: "queue_of two_queued 1 = Some \<lparr>gq_group = 1, gq_queue = [0, 1], gq_current = None, gq_worker = W_Top, gq_cancel = False, gq_new_item = True\<rparr>"
    by code_simp
  have "queue_steps (new_queues 0 20 None False) two_queued" by (simp add: two_queued_def run_ops_steps)
  from cancelled_before_start_never_runs [OF this q, of 1] run_ops_steps
  have "state_of (run_ops (replicate 30 (Work 0 1)) (snd (cancel_entry 1 two_queued))) 1 = Some Q_Cancelled" by auto
  moreover have "started_runs (run_ops (replicate 30 (Work 0 1)) (snd (cancel_entry 1 two_queued))) 1 = [0]" by code_simp
  ultimately show ?thesis by simp
qed

text \<open>
  C33: A worker that is at work and not held up by the float monitor ends within a number of its own
  steps that does not depend on the clock; then its queue is empty and every run of the group has
  its outcome.
\<close>

theorem worker_settles_its_queue:
  assumes "queue_steps (new_queues wait cap fm tg) m" "queue_of m g = Some q"
    and "gq_worker q \<notin> {W_Gone, W_Leaving}" "q_float m \<noteq> Some (Inr True)"
  shows "\<exists>n. \<forall>ts. length ts = n \<longrightarrow>
    (\<exists>q'. queue_of (works ts g m) g = Some q' \<and> gq_worker q' = W_Gone \<and> gq_queue q' = []) \<and>
    (\<forall>i x. entry_of (works ts g m) i = Some x \<longrightarrow> e_group x = g \<longrightarrow> e_state x \<notin> {Q_Waiting, Q_Running})"
proof (intro exI [of _ "left_to_do m q"] allI impI)
  fix ts :: "rat list" assume n: "length ts = left_to_do m q"
  have ok: "queues_ok m" by (rule queues_ok_steps [OF assms(1) queues_ok_new])
  obtain q' where q': "queue_of (works ts g m) g = Some q'" "gq_worker q' = W_Gone" "gq_queue q' = []"
    using works_end [OF ok assms(2,4), of ts] assms(3) n by auto
  have "queues_ok (works ts g m)" by (rule queues_ok_steps [OF queue_steps_works [OF assms(1)] queues_ok_new])
  from no_queue_no_entry [OF this q'] q'
  show "(\<exists>q'. queue_of (works ts g m) g = Some q' \<and> gq_worker q' = W_Gone \<and> gq_queue q' = []) \<and>
    (\<forall>i x. entry_of (works ts g m) i = Some x \<longrightarrow> e_group x = g \<longrightarrow> e_state x \<notin> {Q_Waiting, Q_Running})"
    by (auto simp: unsettled_def)
qed

theorem worker_settles_its_queue_witness:
  "\<exists>n. \<forall>ts. length ts = n \<longrightarrow> (\<exists>q'. queue_of (works ts 1 two_queued) 1 = Some q' \<and> gq_worker q' = W_Gone \<and> gq_queue q' = [])"
proof -
  have q: "queue_of two_queued 1 = Some \<lparr>gq_group = 1, gq_queue = [0, 1], gq_current = None, gq_worker = W_Top, gq_cancel = False, gq_new_item = True\<rparr>"
    by code_simp
  have s: "queue_steps (new_queues 0 20 None False) two_queued" by (simp add: two_queued_def run_ops_steps)
  have f: "q_float two_queued \<noteq> Some (Inr True)" by code_simp
  show ?thesis using worker_settles_its_queue [OF s q _ f] by auto
qed

text \<open>
  C31: When the float switch of a tank brings a group to its emergency stop, by its third trip or by
  the timeout, the queue is told: from that step on, however monitor, callers and workers interleave,
  the call that cancels the group's queue is owed until it is carried out; every run still waiting in
  the group's queue at that moment is then cancelled and never starts.
\<close>

theorem emergency_stop_ends_the_queue:
  assumes "tank_queue\<^sup>*\<^sup>* (s0, [], new_queues wait cap fm tg) (s, p, m)"
    and "tank_queue (s, p, m) (s1, p1, m1)" "\<not> stopped_for_good s g" "stopped_for_good s1 g"
    and "tank_queue\<^sup>*\<^sup>* (s1, p1, m1) (s2, p2, m2)"
  shows "(g \<in> set (late_groups s2) \<or> Cancel_Queue g \<in> set p2) \<or>
    (\<exists>sa pa pa' ma. tank_queue\<^sup>*\<^sup>* (s1, p1, m1) (sa, pa @ Cancel_Queue g # pa', ma) \<and>
       tank_queue\<^sup>*\<^sup>* (sa, pa @ pa', snd (cancel_queue g ma)) (s2, p2, m2) \<and>
       (\<forall>q. queue_of ma g = Some q \<longrightarrow> (\<forall>i \<in> set (gq_queue q).
          state_of m2 i = Some Q_Cancelled \<and> i \<notin> set (started_runs m2 g))))"
proof -
  have ok: "queues_ok m" using tank_queues_ok [OF assms(1)] by (simp add: queues_ok_new)
  have ok1: "queues_ok m1" using tank_queue_ok [OF assms(2)] ok by simp
  have "owed g s1 p1"
  proof (rule tank_queueE [OF assms(2)])
    fix now clock x
    assume "(s1, p1, m1) = (float_step now clock x s, p @ new_effects s (float_step now clock x s), m)"
    then show ?thesis using stop_is_owed [OF assms(3), of now clock x] assms(4) by (auto simp: owed_def)
  qed (use assms(3,4) in simp_all)
  then have "owed g s2 p2 \<or> called_off g (s1, p1, m1) (s2, p2, m2)"
    using debt_run [OF assms(5)] ok1 by simp
  then show ?thesis
  proof
    assume "called_off g (s1, p1, m1) (s2, p2, m2)"
    then obtain sa pa pa' ma where c: "tank_queue\<^sup>*\<^sup>* (s1, p1, m1) (sa, pa @ Cancel_Queue g # pa', ma)"
      "tank_queue\<^sup>*\<^sup>* (sa, pa @ pa', carry_out (Cancel_Queue g) ma) (s2, p2, m2)" "\<forall>i \<in> queued_in ma g. killed g i m2"
      unfolding called_off_def by auto
    have "carry_out (Cancel_Queue g) ma = snd (cancel_queue g ma)" by (simp add: carry_out_def perform_call_def)
    moreover have "\<forall>q. queue_of ma g = Some q \<longrightarrow> (\<forall>i \<in> set (gq_queue q).
          state_of m2 i = Some Q_Cancelled \<and> i \<notin> set (started_runs m2 g))"
      using c(3) by (auto simp: queued_in_def killed_def withdrawn_def)
    ultimately show ?thesis using c(1,2) by metis
  qed (simp add: owed_def)
qed

definition demo_tank :: tank where
  "demo_tank = lone_tank ((fresh_float 1)\<lparr>paused := True, timeout_at := Some 1800\<rparr>)"

definition stopped_tank :: tank where
  "stopped_tank = float_step 1800 0 Float_Next_Late (float_step 1800 0 Float_Check demo_tank)"

lemma queue_run: "tank_queue\<^sup>*\<^sup>* (s, p, m) (s, p, run_ops xs m)"
proof (induction xs rule: rev_induct)
  case (snoc x xs)
  have "tank_queue (s, p, run_ops xs m) (s, p, run_ops (xs @ [x]) m)" using Queue [of s p "run_ops xs m" x] by (simp add: run_ops_def)
  with snoc show ?case by (rule rtranclp.rtrancl_into_rtrancl)
qed (simp add: run_ops_def)

lemma demo_tank_steps:
  "tank_queue (demo_tank, [], m) (float_step 1800 0 Float_Check demo_tank, [], m)"
  "tank_queue (float_step 1800 0 Float_Check demo_tank, [], m) (stopped_tank, [Cancel_Queue 1], m)"
  "\<not> stopped_for_good demo_tank 1" "stopped_for_good (float_step 1800 0 Float_Check demo_tank) 1"
  "stopped_for_good stopped_tank 1" "late_groups stopped_tank = []"
proof -
  have e: "new_effects demo_tank (float_step 1800 0 Float_Check demo_tank) = []"
    "new_effects (float_step 1800 0 Float_Check demo_tank) stopped_tank = [Cancel_Queue 1]"
    by code_simp+
  show "tank_queue (demo_tank, [], m) (float_step 1800 0 Float_Check demo_tank, [], m)"
    using Monitor [OF refl, of demo_tank "[]" m 1800 0 Float_Check] unfolding e by simp
  show "tank_queue (float_step 1800 0 Float_Check demo_tank, [], m) (stopped_tank, [Cancel_Queue 1], m)"
    using Monitor [OF refl, of "float_step 1800 0 Float_Check demo_tank" "[]" m 1800 0 Float_Next_Late]
    unfolding stopped_tank_def [symmetric] e by simp
  show "\<not> stopped_for_good demo_tank 1" "stopped_for_good (float_step 1800 0 Float_Check demo_tank) 1"
    "stopped_for_good stopped_tank 1" "late_groups stopped_tank = []"
    by code_simp+
qed

theorem emergency_stop_ends_the_queue_witness:
  "\<exists>sa pa pa' ma. tank_queue\<^sup>*\<^sup>* (sa, pa @ pa', snd (cancel_queue 1 ma)) (stopped_tank, [], snd (cancel_queue 1 two_queued)) \<and>
     (\<forall>q. queue_of ma 1 = Some q \<longrightarrow> (\<forall>i \<in> set (gq_queue q). state_of (snd (cancel_queue 1 two_queued)) i = Some Q_Cancelled))"
proof -
  have a: "tank_queue\<^sup>*\<^sup>* (demo_tank, [], new_queues 0 20 None False) (demo_tank, [], two_queued)"
    unfolding two_queued_def by (rule queue_run)
  have "tank_queue (stopped_tank, [] @ Cancel_Queue 1 # [], two_queued)
      (stopped_tank, [] @ [], carry_out (Cancel_Queue 1) two_queued)" by (rule Call)
  then have "tank_queue (stopped_tank, [Cancel_Queue 1], two_queued) (stopped_tank, [], snd (cancel_queue 1 two_queued))"
    by (simp add: carry_out_def perform_call_def)
  then have b: "tank_queue\<^sup>*\<^sup>* (float_step 1800 0 Float_Check demo_tank, [], two_queued)
      (stopped_tank, [], snd (cancel_queue 1 two_queued))"
    using demo_tank_steps(2) by (meson rtranclp.rtrancl_into_rtrancl r_into_rtranclp)
  show ?thesis
    using emergency_stop_ends_the_queue [OF a demo_tank_steps(1,3,4) b] demo_tank_steps(6) by fastforce
qed

text \<open>
  Between the flag and the call the queue goes on: a run that waits when the group is stopped is started
  by the worker before the call is carried out.
\<close>

lemma run_starts_after_the_stop:
  "\<exists>m. tank_queue\<^sup>*\<^sup>* (demo_tank, [], two_queued) (stopped_tank, [Cancel_Queue 1], m) \<and>
     started_runs two_queued 1 = [] \<and> started_runs m 1 = [0] \<and> stopped_for_good stopped_tank 1"
proof -
  let ?m = "run_ops (replicate 4 (Work 0 1)) two_queued"
  have "tank_queue\<^sup>*\<^sup>* (demo_tank, [], two_queued) (stopped_tank, [Cancel_Queue 1], two_queued)"
    using demo_tank_steps(1,2) by (meson rtranclp.rtrancl_into_rtrancl r_into_rtranclp)
  then have "tank_queue\<^sup>*\<^sup>* (demo_tank, [], two_queued) (stopped_tank, [Cancel_Queue 1], ?m)"
    using queue_run by (rule rtranclp_trans)
  moreover have "started_runs two_queued 1 = []" "started_runs ?m 1 = [0]" by code_simp+
  ultimately show ?thesis using demo_tank_steps(5) by blast
qed

end
