(* ===== verification/History.thy ===== *)
theory History
  imports Zone_Runs Programs Timestamps
begin

text \<open>
  The history page: \<open>src/services/history_calc.py\<close> and \<open>src/routes/zones_history_api.py\<close>.  For a zone
  or a selection of zones and the last 7 or 30 days: what the programs would have watered, what the
  runs say was watered, and the list of runs, as JSON or CSV.  A calendar date is a day number.
  \<open>created\<close> is the column \<open>programs.created_at\<close> (UTC, written by SQLite), \<open>utc_off\<close> the offset of the
  local clock at a local time.  The rows of \<open>zone_runs\<close> hold local times as \<open>time_text\<close> prints them.
  \<open>get_programs\<close> has decoded the JSON columns, so the decoders of the module see lists.
\<close>

subsection \<open>Texts\<close>

text \<open>SQLite compares the texts of a column byte by byte.\<close>

fun text_less :: "string \<Rightarrow> string \<Rightarrow> bool" where
  "text_less xs [] = False"
| "text_less [] (y # ys) = True"
| "text_less (x # xs) (y # ys) = ((of_char x :: nat) < of_char y \<or> x = y \<and> text_less xs ys)"

definition iso_z :: "time \<Rightarrow> string" where
  "iso_z t = date_text (day_of t) @ CHR ''T'' # clock_text (t mod 86400) @ ''Z''"

subsection \<open>The plan\<close>

definition coerce_times :: "program \<Rightarrow> string list" where
  "coerce_times p = (if prog_time p = [] then [] else [prog_time p]) @ filter (\<lambda>t. t \<noteq> []) (extra_times p)"

definition program_runs_on :: "(int \<Rightarrow> time option) \<Rightarrow> program \<Rightarrow> int \<Rightarrow> bool" where
  "program_runs_on created p d =
     (if \<not> prog_enabled p then False
      else let sc = (if schedule_type p = [] then ''weekdays'' else schedule_type p) in
        if sc = ''weekdays'' then d mod 7 \<in> set (prog_days p)
        else if sc = ''even-odd'' then
          (let is_even = (mday_of d mod 2 = 0)
           in if lower (str_or ''even'' (even_odd p)) = ''even'' then is_even else \<not> is_even)
        else if sc = ''interval'' then
          (case created (prog_id p) of
             None \<Rightarrow> False
           | Some t \<Rightarrow>
               (let anchor = day_of t; n = int_or0 (interval_days p)
                in if n \<le> 0 \<or> d < anchor then False else (d - anchor) mod n = 0))
        else False)"

definition program_firings_count :: "(int \<Rightarrow> time option) \<Rightarrow> program \<Rightarrow> int \<Rightarrow> int" where
  "program_firings_count created p d = (if program_runs_on created p d then int (length (coerce_times p)) else 0)"

type_synonym day_table = "(int \<times> int) list"

definition calculate_plan_for_zone :: "(int \<Rightarrow> time option) \<Rightarrow> int \<Rightarrow> int \<Rightarrow> int list \<Rightarrow> program list \<Rightarrow> day_table" where
  "calculate_plan_for_zone created i dur ds ps =
     (let rel = filter (\<lambda>p. i \<in> set (prog_zones p)) ps
      in map (\<lambda>d. (d, fold (\<lambda>p total. total + program_firings_count created p d * dur) rel 0)) ds)"

fun zone_has_active_program :: "int \<Rightarrow> program list \<Rightarrow> bool" where
  "zone_has_active_program i [] = False"
| "zone_has_active_program i (p # ps) = (if prog_enabled p \<and> i \<in> set (prog_zones p) then True else zone_has_active_program i ps)"

subsection \<open>What ran\<close>

definition run_duration_min :: "zone_run \<Rightarrow> int" where
  "run_duration_min r =
     (case end_utc r of
        None \<Rightarrow> 0
      | Some e \<Rightarrow> (if e - start_utc r \<le> 0 then 0 else py_round (of_int (e - start_utc r) / 60)))"

definition run_local_date :: "zone_run \<Rightarrow> int" where
  "run_local_date r = day_of (start_utc r)"

definition day_entry :: "day_table \<Rightarrow> int \<Rightarrow> int" where
  "day_entry m d = (case map_of m d of None \<Rightarrow> 0 | Some n \<Rightarrow> n)"

definition add_at :: "int \<Rightarrow> int \<Rightarrow> day_table \<Rightarrow> day_table" where
  "add_at d n m = map (\<lambda>(k, v). (k, if k = d then v + n else v)) m"

definition count_run :: "int list \<Rightarrow> zone_run \<Rightarrow> day_table \<times> day_table \<Rightarrow> day_table \<times> day_table" where
  "count_run ds r = (\<lambda>(minutes, counts).
     if run_status r = Some ''failed'' then (minutes, counts)
     else let d = run_local_date r in
       if d \<notin> set ds then (minutes, counts)
       else (add_at d (run_duration_min r) minutes, add_at d 1 counts))"

definition calculate_actual_for_zone :: "zone_run list \<Rightarrow> int list \<Rightarrow> day_table \<times> day_table" where
  "calculate_actual_for_zone rs ds =
     (let zero = map (\<lambda>d. (d, 0)) (remdups ds) in fold (count_run ds) rs (zero, zero))"

subsection \<open>Summary and days\<close>

record summary =
  sm_plan :: int
  sm_saved :: int
  sm_has_plan :: bool
  sm_minutes :: int
  sm_runs :: int
  sm_liters :: "rat option"
  sm_partial :: bool
  sm_has_liters :: bool

definition saved_minutes :: "int \<Rightarrow> int \<Rightarrow> bool \<Rightarrow> int" where
  "saved_minutes actual plan has_plan = (if has_plan then plan - actual else 0)"

definition date_range :: "int \<Rightarrow> int \<Rightarrow> int list" where
  "date_range today n = map (\<lambda>i. today - (n - 1 - i)) [0 .. n - 1]"

definition allowed_days :: "int list" where "allowed_days = [7, 30]"

definition parse_days :: "string option \<Rightarrow> int option" where
  "parse_days raw =
     (case py_int (case raw of None \<Rightarrow> ''7'' | Some s \<Rightarrow> s) of
        None \<Rightarrow> None
      | Some n \<Rightarrow> (if n \<notin> set allowed_days then None else Some n))"

subsection \<open>The runs of a period\<close>

definition fetch_runs_for_zones :: "(time \<Rightarrow> int) \<Rightarrow> int list \<Rightarrow> int \<Rightarrow> int \<Rightarrow> 'a db_scheme \<Rightarrow> zone_run list" where
  "fetch_runs_for_zones utc_off is from_d to_d s =
     (if is = [] then []
      else
        (let start_local = 86400 * from_d; end_local = 86400 * (to_d + 1);
             start_iso = iso_z (start_local - utc_off start_local); end_iso = iso_z (end_local - utc_off end_local)
         in if db_up s
            then sort_key (\<lambda>r. - start_utc r)
              (filter (\<lambda>r. run_zone r \<in> set is \<and> \<not> text_less (time_text (start_utc r)) start_iso
                 \<and> text_less (time_text (start_utc r)) end_iso) (zone_runs s))
            else []))"

record daily_item =
  di_date :: string
  di_actual :: int
  di_runs :: int
  di_plan :: "int option"

definition build_daily :: "int list \<Rightarrow> day_table \<Rightarrow> day_table \<Rightarrow> day_table \<Rightarrow> bool \<Rightarrow> daily_item list" where
  "build_daily ds actual counts plan has_plan =
     map (\<lambda>d. \<lparr>di_date = date_text d, di_actual = day_entry actual d, di_runs = day_entry counts d,
                di_plan = (if has_plan then Some (day_entry plan d) else None)\<rparr>) ds"

record run_view =
  rv_id :: int
  rv_zone :: int
  rv_zone_name :: "string option"
  rv_group :: int
  rv_start :: time
  rv_end :: "time option"
  rv_duration :: int
  rv_liters :: "rat option"
  rv_status :: "string option"
  rv_source :: "string option"

definition serialize_run :: "zone list \<Rightarrow> zone_run \<Rightarrow> run_view" where
  "serialize_run zs r =
     \<lparr>rv_id = run_id r, rv_zone = run_zone r, rv_zone_name = map_option zname (row_at zid zs (run_zone r)),
      rv_group = run_group r, rv_start = start_utc r, rv_end = end_utc r, rv_duration = run_duration_min r,
      rv_liters = total_liters r, rv_status = run_status r, rv_source = run_source r\<rparr>"

definition aggregate_liters :: "zone_run list \<Rightarrow> rat option \<times> bool \<times> bool" where
  "aggregate_liters rs =
     (let vs = List.map_filter total_liters rs
      in if vs = [] then (None, False, False)
         else (Some (sum_list vs), list_ex (\<lambda>r. total_liters r = None) rs, True))"

definition make_summary :: "day_table \<Rightarrow> day_table \<Rightarrow> day_table \<Rightarrow> bool \<Rightarrow> zone_run list \<Rightarrow> summary" where
  "make_summary actual counts plan has_plan rs =
     (let total = sum_list (map snd actual);
          total_plan = (if has_plan then sum_list (map snd plan) else 0)
      in case aggregate_liters rs of (liters, missing, has_any) \<Rightarrow>
        \<lparr>sm_plan = (if has_plan then total_plan else 0), sm_saved = saved_minutes total total_plan has_plan,
         sm_has_plan = has_plan, sm_minutes = total, sm_runs = sum_list (map snd counts),
         sm_liters = liters, sm_partial = missing, sm_has_liters = has_any\<rparr>)"

subsection \<open>The requests\<close>

record history =
  hs_from :: string
  hs_to :: string
  hs_days :: int
  hs_zones :: int
  hs_summary :: summary
  hs_daily :: "daily_item list"
  hs_runs :: "run_view list"

text \<open>The page of one zone, \<open>Inl\<close> the status of a refusal.\<close>

definition get_zone_history ::
  "(int \<Rightarrow> time option) \<Rightarrow> (time \<Rightarrow> int) \<Rightarrow> time \<Rightarrow> int \<Rightarrow> string option \<Rightarrow> 'a db_scheme \<Rightarrow> nat + history" where
  "get_zone_history created utc_off now i raw_days s =
     (case parse_days raw_days of
        None \<Rightarrow> Inl 400
      | Some n \<Rightarrow>
          (case get_zone s i of
             None \<Rightarrow> Inl 404
           | Some z \<Rightarrow>
               (let ds = date_range (day_of now) n;
                    ps = get_programs s;
                    plan = calculate_plan_for_zone created i (int_or0 (duration z)) ds ps;
                    has_plan = zone_has_active_program i ps;
                    rs = fetch_runs_for_zones utc_off [i] (hd ds) (last ds) s
                in case calculate_actual_for_zone rs ds of (actual, counts) \<Rightarrow>
                  Inr \<lparr>hs_from = date_text (hd ds), hs_to = date_text (last ds), hs_days = n, hs_zones = 1,
                       hs_summary = make_summary actual counts plan has_plan rs,
                       hs_daily = build_daily ds actual counts plan has_plan,
                       hs_runs = map (serialize_run [z]) rs\<rparr>)))"

text \<open>
  The zones a request of the common page selects.  A zone number, or without one a group number, that
  does not parse is refused; a group number beside a zone number is parsed last, when it may raise.
\<close>

definition truthy_text :: "string option \<Rightarrow> bool" where
  "truthy_text v = (v \<noteq> None \<and> v \<noteq> Some [])"

definition select_zones :: "string option \<Rightarrow> string option \<Rightarrow> zone list \<Rightarrow> zone list option" where
  "select_zones group_raw zone_raw all_zones =
     (let zs = filter (\<lambda>z. int_or0 (group_id z) \<noteq> 999) all_zones
      in if truthy_text zone_raw then map_option (\<lambda>n. filter (\<lambda>z. zid z = n) zs) (py_int (the zone_raw))
         else if truthy_text group_raw then map_option (\<lambda>n. filter (\<lambda>z. int_or0 (group_id z) = n) zs) (py_int (the group_raw))
         else Some zs)"

definition add_plan :: "(int \<Rightarrow> time option) \<Rightarrow> int list \<Rightarrow> program list \<Rightarrow> zone \<Rightarrow> bool \<times> day_table \<Rightarrow> bool \<times> day_table" where
  "add_plan created ds ps z = (\<lambda>(has_any, agg).
     let plan = calculate_plan_for_zone created (zid z) (int_or0 (duration z)) ds ps
     in (has_any \<or> zone_has_active_program (zid z) ps, map (\<lambda>(d, v). (d, v + day_entry plan d)) agg))"

definition get_global_history ::
  "(int \<Rightarrow> time option) \<Rightarrow> (time \<Rightarrow> int) \<Rightarrow> time \<Rightarrow> string option \<Rightarrow> string option \<Rightarrow> string option
   \<Rightarrow> 'a db_scheme \<Rightarrow> nat + history" where
  "get_global_history created utc_off now raw_days group_raw zone_raw s =
     (case parse_days raw_days of
        None \<Rightarrow> Inl 400
      | Some n \<Rightarrow>
          (case select_zones group_raw zone_raw (get_zones s) of
             None \<Rightarrow> Inl 400
           | Some zs \<Rightarrow>
               (let ds = date_range (day_of now) n;
                    ps = get_programs s
                in case fold (add_plan created ds ps) zs (False, map (\<lambda>d. (d, 0)) ds) of (has_plan, plan) \<Rightarrow>
                  (let rs = fetch_runs_for_zones utc_off (map zid zs) (hd ds) (last ds) s
                   in case calculate_actual_for_zone rs ds of (actual, counts) \<Rightarrow>
                     if truthy_text group_raw \<and> py_int (the group_raw) = None then Inl 500
                     else Inr \<lparr>hs_from = date_text (hd ds), hs_to = date_text (last ds), hs_days = n, hs_zones = int (length zs),
                          hs_summary = make_summary actual counts plan has_plan rs,
                          hs_daily = build_daily ds actual counts plan has_plan,
                          hs_runs = map (serialize_run (get_zones s)) rs\<rparr>))))"

text \<open>One line of the CSV download.\<close>

record csv_row =
  cv_date :: string
  cv_start :: string
  cv_end :: string
  cv_zone :: int
  cv_zone_name :: string
  cv_duration :: int
  cv_liters :: "rat option"
  cv_source :: string
  cv_status :: string

definition csv_line :: "zone \<Rightarrow> zone_run \<Rightarrow> csv_row" where
  "csv_line z r =
     \<lparr>cv_date = date_text (day_of (start_utc r)), cv_start = clock_text (start_utc r mod 86400),
      cv_end = (case end_utc r of None \<Rightarrow> [] | Some e \<Rightarrow> clock_text (e mod 86400)),
      cv_zone = run_zone r, cv_zone_name = zname z, cv_duration = run_duration_min r, cv_liters = total_liters r,
      cv_source = str_or [] (run_source r), cv_status = str_or [] (run_status r)\<rparr>"

definition get_zone_history_csv ::
  "(time \<Rightarrow> int) \<Rightarrow> time \<Rightarrow> int \<Rightarrow> string option \<Rightarrow> 'a db_scheme \<Rightarrow> nat + csv_row list" where
  "get_zone_history_csv utc_off now i raw_days s =
     (case parse_days raw_days of
        None \<Rightarrow> Inl 400
      | Some n \<Rightarrow>
          (case get_zone s i of
             None \<Rightarrow> Inl 404
           | Some z \<Rightarrow>
               (let ds = date_range (day_of now) n
                in Inr (map (csv_line z) (fetch_runs_for_zones utc_off [i] (hd ds) (last ds) s)))))"

end
