(* ===== verification/History_Laws.thy ===== *)
theory History_Laws
  imports History Scheduler_Laws "HOL-Library.Multiset"
begin

text \<open>
  The history page: which runs the text comparison of the period finds, that the page of a selection
  adds up the pages of its zones, and that the planned starts are the start jobs of the scheduler.
\<close>

subsection \<open>Dates as texts\<close>

lemma text_less_append:
  "length a = length b \<Longrightarrow> text_less (a @ x) (b @ y) = (text_less a b \<or> a = b \<and> text_less x y)"
  by (induction a b rule: list_induct2) auto

lemma text_less_irrefl [simp]: "\<not> text_less a a"
  by (induction a) auto

lemma digit_order:
  assumes "digit_val c = Some m" "digit_val d = Some n"
  shows "((of_char c :: nat) < of_char d) = (m < n)" "(c = d) = (m = n)" "0 \<le> m" "m < 10"
proof -
  have c: "48 \<le> (of_char c :: nat)" "(of_char c :: nat) \<le> 57" "m = int (of_char c) - 48"
    using assms(1) by (auto simp: digit_val_def Let_def split: if_splits)
  moreover have d: "48 \<le> (of_char d :: nat)" "(of_char d :: nat) \<le> 57" "n = int (of_char d) - 48"
    using assms(2) by (auto simp: digit_val_def Let_def split: if_splits)
  ultimately show "((of_char c :: nat) < of_char d) = (m < n)" "0 \<le> m" "m < 10" by auto
  have "(c = d) = ((of_char c :: nat) = of_char d)" by (metis char_of_char)
  then show "(c = d) = (m = n)" using c d by auto
qed

lemma digits_less:
  assumes "length a = length b" "digits_val a x = Some m" "digits_val b y = Some n" "0 \<le> x" "0 \<le> y"
  shows "(x < y \<longrightarrow> m < n) \<and> (y < x \<longrightarrow> n < m) \<and> (x = y \<longrightarrow> text_less a b = (m < n))"
  using assms
proof (induction a b arbitrary: x y rule: list_induct2)
  case (Cons c a d b)
  obtain k l where kl: "digit_val c = Some k" "digit_val d = Some l" using Cons.prems by (auto split: option.splits)
  note o = digit_order [OF kl] digit_order [OF kl(2,1)]
  have "(10 * x + k < 10 * y + l \<longrightarrow> m < n) \<and> (10 * y + l < 10 * x + k \<longrightarrow> n < m) \<and>
      (10 * x + k = 10 * y + l \<longrightarrow> text_less a b = (m < n))"
    using Cons.prems kl o by (intro Cons.IH) auto
  then show ?case using o by auto
qed auto

lemma digits_zero_pad: "0 \<le> n \<Longrightarrow> digits_val (zero_pad k n) 0 = Some n"
  using nat_of_zero_pad [of n k] by (simp add: nat_of_digits_def split: if_splits)

lemma zero_pad_less:
  assumes "0 \<le> m" "m < 10 ^ Suc k" "0 \<le> n" "n < 10 ^ Suc k"
  shows "text_less (zero_pad (Suc k) m) (zero_pad (Suc k) n) = (m < n)" "(zero_pad (Suc k) m = zero_pad (Suc k) n) = (m = n)"
proof -
  have l: "length (zero_pad (Suc k) m) = length (zero_pad (Suc k) n)" using assms by (simp add: length_zero_pad)
  show "text_less (zero_pad (Suc k) m) (zero_pad (Suc k) n) = (m < n)"
    using digits_less [OF l digits_zero_pad [OF assms(1)] digits_zero_pad [OF assms(3)]] by simp
  show "(zero_pad (Suc k) m = zero_pad (Suc k) n) = (m = n)"
    using digits_zero_pad [OF assms(1), of "Suc k"] digits_zero_pad [OF assms(3), of "Suc k"] by (metis option.inject)
qed

lemma zero_pad_less_4:
  assumes "0 \<le> m" "m < 10000" "0 \<le> n" "n < 10000"
  shows "text_less (zero_pad 4 m) (zero_pad 4 n) = (m < n)" "(zero_pad 4 m = zero_pad 4 n) = (m = n)"
    "length (zero_pad 4 m) = 4"
  using zero_pad_less [of m 3 n] length_zero_pad [of m 3] assms by simp_all

lemma zero_pad_less_2:
  assumes "0 \<le> m" "m < 100" "0 \<le> n" "n < 100"
  shows "text_less (zero_pad 2 m) (zero_pad 2 n) = (m < n)" "(zero_pad 2 m = zero_pad 2 n) = (m = n)"
    "length (zero_pad 2 m) = 2"
  using zero_pad_less [of m 1 n] length_zero_pad [of m 1] assms by (simp_all add: numeral_2_eq_2)

lemma jan1_mono: "x \<le> y \<Longrightarrow> jan1 x \<le> jan1 y"
proof (induction y rule: int_ge_induct)
  case (step i)
  then show ?case using jan1_less [of i] by simp
qed simp

lemma month_start_mono:
  assumes "1 \<le> m" "m < n" "n \<le> 12" shows "days_from_civil y m 1 + month_days y m \<le> days_from_civil y n 1"
  using assms(2,3)
proof (induction n rule: int_gr_induct)
  case base
  then show ?case using month_length [of m y] assms(1) by simp
next
  case (step i)
  have "0 \<le> month_days y i" by (simp add: month_days_def)
  then show ?case using step month_length [of i y] assms(1) by simp
qed

text \<open>Dates are ordered as their numbers.\<close>

lemma date_order:
  assumes "d < e"
  shows "year_of d < year_of e \<or> year_of d = year_of e \<and>
    (month_of d < month_of e \<or> month_of d = month_of e \<and> mday_of d < mday_of e)"
proof -
  have y: "year_of d \<le> year_of e"
  proof (rule ccontr)
    assume "\<not> year_of d \<le> year_of e"
    then have "jan1 (year_of e + 1) \<le> jan1 (year_of d)" by (intro jan1_mono) simp
    then show False using year_of_bounds [of d] year_of_bounds [of e] assms by linarith
  qed
  have "month_of d \<le> month_of e" if ye: "year_of d = year_of e"
  proof (rule ccontr)
    assume "\<not> month_of d \<le> month_of e"
    then have "days_from_civil (year_of e) (month_of e) 1 + month_days (year_of e) (month_of e) \<le> days_from_civil (year_of d) (month_of d) 1"
      using month_start_mono [of "month_of e" "month_of d" "year_of e"] date_bounds [of d] date_bounds [of e] ye by simp
    then show False using assms date_bounds [of d] date_bounds [of e] by (simp add: mday_of_def)
  qed
  moreover have "mday_of d < mday_of e" if "year_of d = year_of e" "month_of d = month_of e"
    using that assms by (simp add: mday_of_def)
  ultimately show ?thesis using y by fastforce
qed

definition plain_day :: "int \<Rightarrow> bool" where "plain_day d = (0 \<le> year_of d \<and> year_of d < 10000)"

lemma small_parts: "0 \<le> month_of d" "month_of d < 100" "0 \<le> mday_of d" "mday_of d < 100"
  using date_bounds [of d] month_days_le [of "year_of d" "month_of d"] by simp_all

lemma length_date_text: "plain_day d \<Longrightarrow> length (date_text d) = 10"
  using small_parts [of d] zero_pad_less_4(3) [of "year_of d" 0] zero_pad_less_2(3) [of "month_of d" 0] zero_pad_less_2(3) [of "mday_of d" 0]
  by (simp add: date_text_def plain_day_def)

lemma lex_asym:
  "x < x' \<or> x = x' \<and> (y < y' \<or> y = y' \<and> z < z') \<Longrightarrow> \<not> (x' < x \<or> x' = x \<and> (y' < y \<or> y' = y \<and> z' < z))"
  for x :: int and y :: int and z :: int
  by auto

lemma date_text_less:
  assumes "plain_day d" "plain_day e"
  shows "text_less (date_text d) (date_text e) = (d < e)"
proof -
  have y: "0 \<le> year_of d" "year_of d < 10000" "0 \<le> year_of e" "year_of e < 10000" using assms by (simp_all add: plain_day_def)
  note z = zero_pad_less_4 [OF y] zero_pad_less_4(3) [OF y(3,4,1,2)]
    zero_pad_less_2 [OF small_parts(1,2) [of d] small_parts(1,2) [of e]] zero_pad_less_2(3) [OF small_parts(1,2) [of e] small_parts(1,2) [of d]]
    zero_pad_less_2 [OF small_parts(3,4) [of d] small_parts(3,4) [of e]]
  have parts: "text_less (date_text d) (date_text e) = (year_of d < year_of e \<or> year_of d = year_of e \<and>
      (month_of d < month_of e \<or> month_of d = month_of e \<and> mday_of d < mday_of e))"
  proof -
    have l: "length (zero_pad 4 (year_of d)) = length (zero_pad 4 (year_of e))"
      "length (zero_pad 2 (month_of d)) = length (zero_pad 2 (month_of e))" by (simp_all only: z)
    show ?thesis by (simp only: date_text_def text_less_append [OF l(1)] text_less.simps less_irrefl simp_thms text_less_append [OF l(2)] z)
  qed
  show "text_less (date_text d) (date_text e) = (d < e)"
  proof (cases d e rule: linorder_cases)
    case less
    then show ?thesis using parts date_order [OF less] by blast
  next
    case greater
    then show ?thesis using lex_asym [OF date_order [OF greater]] parts by (simp only: not_less_iff_gr_or_eq simp_thms)
  qed simp
qed

lemma date_text_inj: "plain_day d \<Longrightarrow> plain_day e \<Longrightarrow> (date_text d = date_text e) = (d = e)"
  using date_text_less [of d e] date_text_less [of e d] by (metis text_less_irrefl linorder_neqE)

text \<open>A row is before an instant of the query when its day is not after the day of the instant.\<close>

lemma row_before_iso:
  assumes "plain_day (day_of t)" "plain_day (day_of u)"
  shows "text_less (time_text t) (iso_z u) = (day_of t \<le> day_of u)"
proof -
  have l: "length (date_text (day_of t)) = length (date_text (day_of u))" using assms by (simp add: length_date_text)
  show ?thesis
    using date_text_less [OF assms] date_text_inj [OF assms] by (auto simp: time_text_def iso_z_def text_less_append [OF l])
qed

subsection \<open>The runs of the period\<close>

lemma set_fetch:
  assumes "db_up s" "is \<noteq> []" "plain_day (day_of (86400 * from_d - utc_off (86400 * from_d)))"
    "plain_day (day_of (86400 * (to_d + 1) - utc_off (86400 * (to_d + 1))))" "\<forall>r \<in> set (zone_runs s). plain_day (run_local_date r)"
  shows "set (fetch_runs_for_zones utc_off is from_d to_d s) =
    {r \<in> set (zone_runs s). run_zone r \<in> set is \<and> day_of (86400 * from_d - utc_off (86400 * from_d)) < run_local_date r \<and>
       run_local_date r \<le> day_of (86400 * (to_d + 1) - utc_off (86400 * (to_d + 1)))}"
  using assms by (auto simp: fetch_runs_for_zones_def Let_def row_before_iso run_local_date_def)

lemma day_before: "0 < a \<Longrightarrow> a \<le> 86400 \<Longrightarrow> day_of (86400 * d - a) = d - 1"
  and day_same: "-86400 < a \<Longrightarrow> a \<le> 0 \<Longrightarrow> day_of (86400 * d - a) = d"
  by (simp_all add: day_of_def)

text \<open>
  The period of the page.  East of Greenwich the runs listed are exactly those of the selected zones
  that started, by the local clock, on a day of the period.  At Greenwich and west of it the first day of
  the period is missing: the stored text has a blank where the bound has a T, so every run of that day
  compares as earlier than its midnight.
\<close>

theorem history_period:
  assumes "db_up s" "is \<noteq> []" "\<forall>r \<in> set (zone_runs s). plain_day (run_local_date r)"
    "\<forall>d. from_d - 1 \<le> d \<and> d \<le> to_d + 1 \<longrightarrow> plain_day d" "from_d \<le> to_d"
    "\<forall>t. -86400 < utc_off t \<and> utc_off t < 86400"
  shows "((\<forall>t. 0 < utc_off t) \<longrightarrow> set (fetch_runs_for_zones utc_off is from_d to_d s) =
      {r \<in> set (zone_runs s). run_zone r \<in> set is \<and> from_d \<le> run_local_date r \<and> run_local_date r \<le> to_d}) \<and>
    (utc_off (86400 * from_d) \<le> 0 \<longrightarrow> from_d \<notin> run_local_date ` set (fetch_runs_for_zones utc_off is from_d to_d s))"
proof -
  let ?a = "utc_off (86400 * from_d)" and ?b = "utc_off (86400 * (to_d + 1))"
  have cases: "day_of (86400 * d - x) = (if 0 < x then d - 1 else d)" if "-86400 < x" "x < 86400" for d x
    using that day_before [of x d] day_same [of x d] by auto
  have a: "day_of (86400 * from_d - ?a) = (if 0 < ?a then from_d - 1 else from_d)" using assms(6) by (intro cases) auto
  have b: "day_of (86400 * (to_d + 1) - ?b) = (if 0 < ?b then to_d else to_d + 1)"
    using assms(6) by (subst cases) auto
  have p: "plain_day (day_of (86400 * from_d - ?a))" "plain_day (day_of (86400 * (to_d + 1) - ?b))"
    unfolding a b using assms(4,5) by auto
  show ?thesis unfolding set_fetch [where utc_off = utc_off, OF assms(1,2) p assms(3)] a b by auto
qed

subsection \<open>Totals\<close>

definition counted :: "int list \<Rightarrow> zone_run \<Rightarrow> bool" where
  "counted ds r = (run_status r \<noteq> Some ''failed'' \<and> run_local_date r \<in> set ds)"

lemma add_at_simps [simp]: "add_at d n [] = []" "add_at d n ((k, v) # m) = (k, if k = d then v + n else v) # add_at d n m"
  by (simp_all add: add_at_def)

lemma add_at_absent: "d \<notin> set (map fst m) \<Longrightarrow> add_at d n m = m"
  by (induction m) auto

lemma sum_add_at:
  "distinct (map fst m) \<Longrightarrow> d \<in> set (map fst m) \<Longrightarrow> sum_list (map snd (add_at d n m)) = sum_list (map snd m) + n"
proof (induction m)
  case (Cons kv m)
  obtain k v where "kv = (k, v)" by (cases kv)
  then show ?case using Cons add_at_absent [of d m n] by (cases "k = d") auto
qed simp

lemma keys_add_at [simp]: "map fst (add_at d n m) = map fst m"
  by (simp add: add_at_def split_def comp_def)

lemma count_runs:
  assumes "map fst (fst st) = remdups ds" "map fst (snd st) = remdups ds"
  shows "sum_list (map snd (fst (fold (count_run ds) rs st))) = sum_list (map snd (fst st)) + (\<Sum>r\<leftarrow>filter (counted ds) rs. run_duration_min r) \<and>
    sum_list (map snd (snd (fold (count_run ds) rs st))) = sum_list (map snd (snd st)) + int (length (filter (counted ds) rs))"
  using assms
proof (induction rs arbitrary: st)
  case (Cons r rs)
  have k: "map fst (fst (count_run ds r st)) = remdups ds" "map fst (snd (count_run ds r st)) = remdups ds"
    using Cons.prems by (auto simp: count_run_def Let_def split: prod.splits)
  have d: "distinct (map fst (fst st))" "distinct (map fst (snd st))" "set (map fst (fst st)) = set ds" "set (map fst (snd st)) = set ds"
    using Cons.prems by simp_all
  have "sum_list (map snd (fst (count_run ds r st))) = sum_list (map snd (fst st)) + (if counted ds r then run_duration_min r else 0)"
    "sum_list (map snd (snd (count_run ds r st))) = sum_list (map snd (snd st)) + (if counted ds r then 1 else 0)"
    using sum_add_at [OF d(1)] sum_add_at [OF d(2)] d(3,4) by (auto simp: count_run_def counted_def Let_def split: prod.splits)
  then show ?case using Cons.IH [OF k] by simp
qed simp

lemma actual_totals:
  assumes "calculate_actual_for_zone rs ds = (actual, counts)"
  shows "sum_list (map snd actual) = (\<Sum>r\<leftarrow>filter (counted ds) rs. run_duration_min r)"
    "sum_list (map snd counts) = int (length (filter (counted ds) rs))"
proof -
  let ?z = "map (\<lambda>d. (d, 0 :: int)) (remdups ds)"
  have "map fst ?z = remdups ds" "sum_list (map snd ?z) = 0" by (simp_all add: comp_def)
  then show "sum_list (map snd actual) = (\<Sum>r\<leftarrow>filter (counted ds) rs. run_duration_min r)"
    "sum_list (map snd counts) = int (length (filter (counted ds) rs))"
    using count_runs [of "(?z, ?z)" ds rs] assms by (simp_all add: calculate_actual_for_zone_def Let_def)
qed

text \<open>The runs of several zones are the runs of each.\<close>

lemma sum_sort_key: "sum_list (map f (sort_key k xs)) = sum_list (map f xs)" for f :: "'x \<Rightarrow> 'y :: comm_monoid_add"
  by (metis mset_map mset_sort sum_mset_sum_list)

lemma sum_split_key:
  "distinct is \<Longrightarrow> (\<Sum>r\<leftarrow>filter (\<lambda>r. key r \<in> set is \<and> P r) xs. f r) = (\<Sum>i\<leftarrow>is. \<Sum>r\<leftarrow>filter (\<lambda>r. key r = i \<and> P r) xs. f r)"
  for f :: "'x \<Rightarrow> 'y :: comm_monoid_add"
proof (induction xs)
  case (Cons x xs)
  have one: "(\<Sum>i\<leftarrow>is. if key x = i then f x else 0) = (if key x \<in> set is then f x else 0)"
    using Cons.prems by (induction "is") auto
  have "(\<Sum>i\<leftarrow>is. \<Sum>r\<leftarrow>filter (\<lambda>r. key r = i \<and> P r) (x # xs). f r) =
      (\<Sum>i\<leftarrow>is. (if key x = i \<and> P x then f x else 0) + (\<Sum>r\<leftarrow>filter (\<lambda>r. key r = i \<and> P r) xs. f r))"
    by (intro arg_cong [of _ _ sum_list] map_cong refl) auto
  also have "\<dots> = (\<Sum>i\<leftarrow>is. if key x = i \<and> P x then f x else 0) + (\<Sum>i\<leftarrow>is. \<Sum>r\<leftarrow>filter (\<lambda>r. key r = i \<and> P r) xs. f r)"
    by (simp add: sum_list_addf)
  finally show ?case using Cons one by (cases "P x") auto
qed simp

lemma sum_fetch:
  fixes f :: "zone_run \<Rightarrow> 'y :: comm_monoid_add"
  assumes "distinct is" "is \<noteq> []"
  shows "(\<Sum>r\<leftarrow>filter Q (fetch_runs_for_zones off is a b s). f r) = (\<Sum>i\<leftarrow>is. \<Sum>r\<leftarrow>filter Q (fetch_runs_for_zones off [i] a b s). f r)"
proof (cases "db_up s")
  case True
  have flip: "(\<Sum>r\<leftarrow>filter Q (sort_key k xs). f r) = (\<Sum>r\<leftarrow>filter Q xs. f r)" for k :: "zone_run \<Rightarrow> int" and xs
    by (simp add: filter_sort sum_sort_key)
  show ?thesis
    using assms(2) by (simp add: fetch_runs_for_zones_def Let_def True flip sum_split_key [OF assms(1), symmetric])
next
  case False
  then show ?thesis by (simp add: fetch_runs_for_zones_def Let_def)
qed

lemma sum_fetch_none: "sum_list (map f (filter Q (fetch_runs_for_zones off [] a b s))) = 0"
  by (simp add: fetch_runs_for_zones_def)

lemma sum_fetch_zones:
  fixes f :: "zone_run \<Rightarrow> 'y :: comm_monoid_add"
  assumes "distinct is"
  shows "(\<Sum>r\<leftarrow>filter Q (fetch_runs_for_zones off is a b s). f r) = (\<Sum>i\<leftarrow>is. \<Sum>r\<leftarrow>filter Q (fetch_runs_for_zones off [i] a b s). f r)"
  using sum_fetch [OF assms] sum_fetch_none by (cases "is = []") simp_all

text \<open>The plan of a selection is the sum of the plans.\<close>

definition plan_on :: "(int \<Rightarrow> time option) \<Rightarrow> int \<Rightarrow> int \<Rightarrow> program list \<Rightarrow> int \<Rightarrow> int" where
  "plan_on created i n ps d = (\<Sum>p\<leftarrow>filter (\<lambda>p. i \<in> set (prog_zones p)) ps. program_firings_count created p d * n)"

lemma plan_table: "calculate_plan_for_zone created i n ds ps = map (\<lambda>d. (d, plan_on created i n ps d)) ds"
proof -
  have f: "fold (\<lambda>p total. total + g p) xs a = a + (\<Sum>p\<leftarrow>xs. g p)" for g :: "program \<Rightarrow> int" and xs a
    by (induction xs arbitrary: a) simp_all
  show ?thesis by (simp add: calculate_plan_for_zone_def plan_on_def Let_def f)
qed

lemma entry_of_map: "d \<in> set ds \<Longrightarrow> day_entry (map (\<lambda>d. (d, h d)) ds) d = h d"
  by (induction ds) (auto simp: day_entry_def)

lemma plan_entry: "d \<in> set ds \<Longrightarrow> day_entry (calculate_plan_for_zone created i n ds ps) d = plan_on created i n ps d"
  by (simp add: plan_table entry_of_map)

lemma plan_sum: "sum_list (map snd (calculate_plan_for_zone created i n ds ps)) = (\<Sum>d\<leftarrow>ds. plan_on created i n ps d)"
  by (simp add: plan_table comp_def)

lemma disabled_never_fires: "\<not> prog_enabled p \<Longrightarrow> program_firings_count created p d = 0"
  by (simp add: program_firings_count_def program_runs_on_def)

lemma no_plan_no_firings: "\<not> zone_has_active_program i ps \<Longrightarrow> plan_on created i n ps d = 0"
  unfolding plan_on_def
proof (induction ps)
  case (Cons p ps)
  then show ?case by (auto simp: disabled_never_fires split: if_splits)
qed simp

lemma add_plans:
  "fold (add_plan created ds ps) zs (h, map (\<lambda>d. (d, v d)) ds) =
     (h \<or> (\<exists>z \<in> set zs. zone_has_active_program (zid z) ps),
      map (\<lambda>d. (d, v d + (\<Sum>z\<leftarrow>zs. plan_on created (zid z) (int_or0 (duration z)) ps d))) ds)"
proof (induction zs arbitrary: h v)
  case (Cons z zs)
  have "add_plan created ds ps z (h, map (\<lambda>d. (d, v d)) ds) = (h \<or> zone_has_active_program (zid z) ps,
      map (\<lambda>d. (d, v d + plan_on created (zid z) (int_or0 (duration z)) ps d)) ds)"
    by (simp add: add_plan_def Let_def plan_entry)
  then show ?case by (simp add: Cons add.assoc)
qed simp

lemma liters_sum:
  "(case fst (aggregate_liters rs) of None \<Rightarrow> 0 | Some x \<Rightarrow> x) = (\<Sum>r\<leftarrow>rs. case total_liters r of None \<Rightarrow> 0 | Some x \<Rightarrow> x)"
proof -
  have "sum_list (List.map_filter total_liters rs) = (\<Sum>r\<leftarrow>rs. case total_liters r of None \<Rightarrow> 0 | Some x \<Rightarrow> x)"
    by (induction rs) (auto simp: map_filter_simps split: option.splits)
  then show ?thesis by (auto simp: aggregate_liters_def Let_def)
qed

lemma sum_list_swap_lists: "(\<Sum>x\<leftarrow>xs. \<Sum>y\<leftarrow>ys. f x y) = (\<Sum>y\<leftarrow>ys. \<Sum>x\<leftarrow>xs. f x y)" for f :: "'x \<Rightarrow> 'y \<Rightarrow> 'z :: comm_monoid_add"
  by (induction xs) (simp_all add: sum_list_addf)

subsection \<open>Selections\<close>

text \<open>The figures of a page, in one place.\<close>

definition figures :: "history \<Rightarrow> int \<times> int \<times> int \<times> rat" where
  "figures h = (sm_minutes (hs_summary h), sm_runs (hs_summary h), sm_plan (hs_summary h),
     (case sm_liters (hs_summary h) of None \<Rightarrow> 0 | Some x \<Rightarrow> x))"

lemma zone_figures:
  assumes "get_zone_history created off now i raw s = Inr h" "parse_days raw = Some n" "get_zone s i = Some z"
  shows "figures h =
    (let ds = date_range (day_of now) n; rs = fetch_runs_for_zones off [i] (hd ds) (last ds) s
     in (\<Sum>r\<leftarrow>filter (counted ds) rs. run_duration_min r, int (length (filter (counted ds) rs)),
         \<Sum>d\<leftarrow>ds. plan_on created i (int_or0 (duration z)) (get_programs s) d,
         \<Sum>r\<leftarrow>rs. case total_liters r of None \<Rightarrow> 0 | Some x \<Rightarrow> x))"
proof -
  define ds where "ds = date_range (day_of now) n"
  define rs where "rs = fetch_runs_for_zones off [i] (hd ds) (last ds) s"
  obtain actual counts where ac: "calculate_actual_for_zone rs ds = (actual, counts)" by fastforce
  have "sm_plan (make_summary actual counts (calculate_plan_for_zone created i (int_or0 (duration z)) ds (get_programs s))
      (zone_has_active_program i (get_programs s)) rs) = (\<Sum>d\<leftarrow>ds. plan_on created i (int_or0 (duration z)) (get_programs s) d)"
    by (simp add: make_summary_def Let_def plan_sum no_plan_no_firings split: prod.splits)
  then show ?thesis
    using assms liters_sum [of rs] actual_totals [OF ac]
    by (auto simp: get_zone_history_def figures_def Let_def ac ds_def [symmetric] rs_def [symmetric] make_summary_def split: prod.splits)
qed

text \<open>
  C40: The page of a selection adds up.  When the page of all zones, of a group or of one zone is answered,
  the page of each selected zone is answered too, and the minutes watered, the runs counted, the minutes
  planned and the litres of the selection are the sums of those of its zones.
\<close>

theorem selection_adds_up:
  assumes "get_global_history created off now raw graw zraw s = Inr g" "select_zones graw zraw (get_zones s) = Some zs" "wf_zones s"
  shows "\<exists>hs. map (\<lambda>z. get_zone_history created off now (zid z) raw s) zs = map Inr hs \<and>
    sm_minutes (hs_summary g) = (\<Sum>h\<leftarrow>hs. sm_minutes (hs_summary h)) \<and>
    sm_runs (hs_summary g) = (\<Sum>h\<leftarrow>hs. sm_runs (hs_summary h)) \<and>
    sm_plan (hs_summary g) = (\<Sum>h\<leftarrow>hs. sm_plan (hs_summary h)) \<and>
    (case sm_liters (hs_summary g) of None \<Rightarrow> 0 | Some x \<Rightarrow> x) =
      (\<Sum>h\<leftarrow>hs. case sm_liters (hs_summary h) of None \<Rightarrow> 0 | Some x \<Rightarrow> x)"
proof -
  obtain n where n: "parse_days raw = Some n" using assms(1) by (auto simp: get_global_history_def split: option.splits)
  define ds where "ds = date_range (day_of now) n"
  define rs where "rs = fetch_runs_for_zones off (map zid zs) (hd ds) (last ds) s"
  define page where "page z = projr (get_zone_history created off now (zid z) raw s)" for z :: zone
  have sub: "set zs \<subseteq> set (get_zones s)" "distinct (map zid zs)"
  proof -
    have d: "distinct (map zid (get_zones s))" using assms(3) by (auto simp: wf_zones_def get_zones_def intro: sorted_wrt_less_distinct)
    have "\<exists>P. zs = filter P (get_zones s)"
      using assms(2) by (auto simp: select_zones_def Let_def split: if_splits)
    with d show "set zs \<subseteq> set (get_zones s)" "distinct (map zid zs)" by (auto simp: distinct_map_filter_key)
  qed
  have gz: "get_zone s (zid z) = Some z" if "z \<in> set zs" for z
    using sub(1) that row_at_mem_unique [of zid "zones s" z] assms(3) sorted_wrt_less_distinct
    by (auto simp: get_zone_def get_zones_def wf_zones_def split: if_splits)
  have pg: "get_zone_history created off now (zid z) raw s = Inr (page z)" if "z \<in> set zs" for z
    by (simp add: page_def get_zone_history_def n gz [OF that] Let_def split: prod.splits)
  note zf = zone_figures [OF pg n gz, folded ds_def, unfolded Let_def]
  let ?run = "\<lambda>z. fetch_runs_for_zones off [zid z] (hd ds) (last ds) s" and ?l = "\<lambda>r. case total_liters r of None \<Rightarrow> 0 | Some x \<Rightarrow> x"
  obtain actual counts where ac: "calculate_actual_for_zone rs ds = (actual, counts)" by fastforce
  have g: "hs_summary g = make_summary actual counts (map (\<lambda>d. (d, \<Sum>z\<leftarrow>zs. plan_on created (zid z) (int_or0 (duration z)) (get_programs s) d)) ds)
      (\<exists>z \<in> set zs. zone_has_active_program (zid z) (get_programs s)) rs"
    using assms(1,2) add_plans [of created ds "get_programs s" zs False "\<lambda>_. 0"]
    by (auto simp: get_global_history_def n Let_def ds_def [symmetric] rs_def [symmetric] ac split: if_splits)
  have "sm_minutes (hs_summary g) = (\<Sum>z\<leftarrow>zs. \<Sum>r\<leftarrow>filter (counted ds) (?run z). run_duration_min r)"
    using actual_totals(1) [OF ac] sum_fetch_zones [OF sub(2), of "run_duration_min" "counted ds" off "hd ds" "last ds" s]
    by (simp add: g make_summary_def Let_def rs_def comp_def split: prod.splits)
  also have "\<dots> = (\<Sum>z\<leftarrow>zs. sm_minutes (hs_summary (page z)))"
    using zf by (intro arg_cong [of _ _ sum_list] map_cong refl) (auto simp: figures_def)
  finally have m: "sm_minutes (hs_summary g) = (\<Sum>z\<leftarrow>zs. sm_minutes (hs_summary (page z)))" .
  have "sm_runs (hs_summary g) = (\<Sum>z\<leftarrow>zs. \<Sum>r\<leftarrow>filter (counted ds) (?run z). 1)"
    using actual_totals(2) [OF ac] sum_fetch_zones [OF sub(2), of "\<lambda>_. 1 :: int" "counted ds" off "hd ds" "last ds" s]
    by (simp add: g make_summary_def Let_def rs_def comp_def sum_list_triv split: prod.splits)
  also have "\<dots> = (\<Sum>z\<leftarrow>zs. sm_runs (hs_summary (page z)))"
    using zf by (intro arg_cong [of _ _ sum_list] map_cong refl) (auto simp: figures_def sum_list_triv)
  finally have r: "sm_runs (hs_summary g) = (\<Sum>z\<leftarrow>zs. sm_runs (hs_summary (page z)))" .
  have "sm_plan (hs_summary g) = (\<Sum>d\<leftarrow>ds. \<Sum>z\<leftarrow>zs. plan_on created (zid z) (int_or0 (duration z)) (get_programs s) d)"
  proof -
    have "(\<Sum>z\<leftarrow>zs. plan_on created (zid z) (int_or0 (duration z)) (get_programs s) d) = 0"
      if "\<not> (\<exists>z \<in> set zs. zone_has_active_program (zid z) (get_programs s))" for d
      using that by (induction zs) (auto simp: no_plan_no_firings)
    then show ?thesis by (auto simp: g make_summary_def Let_def comp_def split: prod.splits)
  qed
  also have "\<dots> = (\<Sum>z\<leftarrow>zs. \<Sum>d\<leftarrow>ds. plan_on created (zid z) (int_or0 (duration z)) (get_programs s) d)"
    by (rule sum_list_swap_lists)
  also have "\<dots> = (\<Sum>z\<leftarrow>zs. sm_plan (hs_summary (page z)))"
    using zf by (intro arg_cong [of _ _ sum_list] map_cong refl) (auto simp: figures_def)
  finally have p: "sm_plan (hs_summary g) = (\<Sum>z\<leftarrow>zs. sm_plan (hs_summary (page z)))" .
  have "(case sm_liters (hs_summary g) of None \<Rightarrow> 0 | Some x \<Rightarrow> x) = (\<Sum>z\<leftarrow>zs. \<Sum>r\<leftarrow>?run z. ?l r)"
    using liters_sum [of rs] sum_fetch_zones [OF sub(2), of ?l "\<lambda>_. True" off "hd ds" "last ds" s]
    by (cases "aggregate_liters rs") (simp add: g make_summary_def Let_def rs_def [symmetric] comp_def)
  also have "\<dots> = (\<Sum>z\<leftarrow>zs. case sm_liters (hs_summary (page z)) of None \<Rightarrow> 0 | Some x \<Rightarrow> x)"
    using zf by (intro arg_cong [of _ _ sum_list] map_cong refl) (auto simp: figures_def)
  finally have l: "(case sm_liters (hs_summary g) of None \<Rightarrow> 0 | Some x \<Rightarrow> x) =
      (\<Sum>z\<leftarrow>zs. case sm_liters (hs_summary (page z)) of None \<Rightarrow> 0 | Some x \<Rightarrow> x)" .
  show ?thesis using pg m r p l by (intro exI [of _ "map page zs"]) (simp add: comp_def)
qed

lemma global_answered:
  assumes "parse_days raw = Some n" "select_zones graw zraw (get_zones s) = Some zs" "\<not> (truthy_text graw \<and> py_int (the graw) = None)"
  obtains g where "get_global_history created off now raw graw zraw s = Inr g"
proof -
  have "\<exists>g. get_global_history created off now raw graw zraw s = Inr g"
    using assms(3) by (simp add: get_global_history_def assms(1,2) Let_def split_beta)
  then show ?thesis using that by blast
qed

definition old_run :: zone_run where
  "old_run = \<lparr>run_id = 1, run_zone = 1, run_group = 1, start_utc = 86400 * 20000 + 3600, end_utc = Some (86400 * 20000 + 3900),
     start_monotonic = 0, end_monotonic = Some 300, start_raw_pulses = None, end_raw_pulses = None, pulse_liters_at_start = 1,
     base_m3_at_start = None, total_liters = Some 12, avg_flow_lpm = None, run_status = Some ''ok'', confirmed = True, run_source = None\<rparr>"

definition page_db :: "zone_run list \<Rightarrow> sched" where
  "page_db rs = (fresh_sched demo_world)\<lparr>zone_runs := rs\<rparr>"

lemma page_db_simps [simp]:
  "zones (page_db rs) = [demo_zone 1 ''on'', demo_zone 2 ''off'']" "zone_runs (page_db rs) = rs" "db_up (page_db rs)"
  "programs (page_db rs) = programs demo_world" "wf_zones (page_db rs)"
  by (simp_all add: page_db_def wf_zones_def)

theorem selection_adds_up_witness:
  "case get_global_history (\<lambda>_. None) (\<lambda>_. 3600) 1728007200 None None None (page_db [old_run]) of
     Inl c \<Rightarrow> False
   | Inr g \<Rightarrow> sm_minutes (hs_summary g) = (\<Sum>i\<leftarrow>[1, 2].
       case get_zone_history (\<lambda>_. None) (\<lambda>_. 3600) 1728007200 i None (page_db [old_run]) of
         Inl c \<Rightarrow> 0 | Inr h \<Rightarrow> sm_minutes (hs_summary h))"
proof -
  have "parse_days None = Some 7" by code_simp
  then obtain g where g: "get_global_history (\<lambda>_. None) (\<lambda>_. 3600) 1728007200 None None None (page_db [old_run]) = Inr g"
    by (cases rule: global_answered [of None 7 None None "page_db [old_run]"]) (auto simp: select_zones_def truthy_text_def)
  have sel: "select_zones None None (get_zones (page_db [old_run])) = Some [demo_zone 1 ''on'', demo_zone 2 ''off'']"
    by (simp add: select_zones_def truthy_text_def get_zones_def)
  let ?p = "\<lambda>i. get_zone_history (\<lambda>_. None) (\<lambda>_. 3600) 1728007200 i None (page_db [old_run])"
  obtain hs where hs: "[?p 1, ?p 2] = map Inr hs" "sm_minutes (hs_summary g) = (\<Sum>h\<leftarrow>hs. sm_minutes (hs_summary h))"
    using selection_adds_up [OF g sel page_db_simps(5), unfolded list.map demo_zone_simps]
    by (elim exE conjE) (rule that)
  then obtain a b where "?p 1 = Inr a" "?p 2 = Inr b" "hs = [a, b]" by (auto simp: Cons_eq_map_conv)
  then show ?thesis using hs(2) by (simp add: g)
qed

lemma plain_days: "jan1 0 \<le> d \<Longrightarrow> d < jan1 10000 \<Longrightarrow> plain_day d"
  using year_of_bounds [of d] jan1_mono [of "year_of d + 1" 0] jan1_mono [of 10000 "year_of d"]
  by (auto simp: plain_day_def not_less not_le intro: ccontr)

lemma plain_now: "0 \<le> d \<Longrightarrow> d < 40000 \<Longrightarrow> plain_day d"
proof (rule plain_days)
  have "jan1 0 \<le> 0" "40000 \<le> jan1 10000" by code_simp+
  then show "0 \<le> d \<Longrightarrow> jan1 0 \<le> d" "d < 40000 \<Longrightarrow> d < jan1 10000" by linarith+
qed

theorem history_period_witness:
  "fetch_runs_for_zones (\<lambda>_. 10800) [1] 20000 20006 (page_db [old_run]) \<noteq> [] \<and>
   old_run \<notin> set (fetch_runs_for_zones (\<lambda>_. 0) [1] 20000 20006 (page_db [old_run]))"
proof -
  have d: "run_local_date old_run = 20000" "run_zone old_run = 1" by (simp_all add: run_local_date_def old_run_def day_of_def)
  have p: "\<forall>r \<in> set (zone_runs (page_db [old_run])). plain_day (run_local_date r)" by (simp add: d plain_now)
  have q: "\<forall>d. 20000 - 1 \<le> d \<and> d \<le> 20006 + 1 \<longrightarrow> plain_day d" by (auto intro: plain_now)
  show ?thesis
    using history_period [OF _ _ p q, of "[1]" "\<lambda>_. 10800"] history_period [OF _ _ p q, of "[1]" "\<lambda>_. 0"] d by auto
qed

end
