(* ===== verification/History_Plan.thy ===== *)
theory History_Plan
  imports History_Laws
begin

text \<open>
  The plan of the history page against the scheduler: a start the page counts for a day is a start job
  that fires on it, for the schedules both modules read alike, and the cases where they differ.
\<close>

subsection \<open>The start jobs of a program, slot by slot\<close>

definition slots :: "program \<Rightarrow> (start_slot \<times> string) list" where
  "slots p = (Main_Time, prog_time p) # map (\<lambda>k. (Extra_Time k, extra_times p ! k)) [0..<length (extra_times p)]"

lemma set_extra_jobs:
  "j \<in> set (extra_jobs accepts p now n ts) \<longleftrightarrow> (\<exists>k<length ts. j \<in> set (slot_jobs accepts p now (ts ! k) (Extra_Time (n + k))))"
  by (induction ts arbitrary: n) (simp_all add: Ex_less_Suc2)

lemma set_plan: "set (program_plan accepts p now) = (\<Union>(sl, tm) \<in> set (slots p). set (slot_jobs accepts p now tm sl))"
  by (auto simp: program_plan_def slots_def set_extra_jobs)

lemma slots_unique: "(sl, tm) \<in> set (slots p) \<Longrightarrow> (sl, tm') \<in> set (slots p) \<Longrightarrow> tm = tm'"
  by (auto simp: slots_def)

lemma distinct_slots: "distinct (map fst (slots p))" "length (slots p) = Suc (length (extra_times p))"
  by (auto simp: slots_def distinct_map comp_def inj_on_def)

lemma trigger_of_key:
  "(k, tr) \<in> set (slot_triggers accepts p now h m) \<Longrightarrow> (k, tr') \<in> set (slot_triggers accepts p now h m) \<Longrightarrow> tr = tr'"
  by (cases "interval_days p") (auto simp: slot_triggers_def split: if_splits)

lemma slot_job_form:
  "j \<in> set (slot_jobs accepts p now tm sl) \<longleftrightarrow>
     (\<exists>h m k tr. parse_hhmm tm = Some (h, m) \<and> (k, tr) \<in> set (slot_triggers accepts p now h m) \<and> j = run_job p sl k tr)"
proof (cases "parse_hhmm tm")
  case (Some hm)
  then show ?thesis by (cases hm) (force simp: slot_jobs_def)
qed (simp add: slot_jobs_def)

lemma plan_inj: "inj_on j_id (set (program_plan accepts p now))"
proof (rule inj_onI)
  fix x y assume "x \<in> set (program_plan accepts p now)" "y \<in> set (program_plan accepts p now)" "j_id x = j_id y"
  then obtain sl tm h m k tr sl' tm' h' m' k' tr' where
    x: "(sl, tm) \<in> set (slots p)" "parse_hhmm tm = Some (h, m)" "(k, tr) \<in> set (slot_triggers accepts p now h m)" "x = run_job p sl k tr" and
    y: "(sl', tm') \<in> set (slots p)" "parse_hhmm tm' = Some (h', m')" "(k', tr') \<in> set (slot_triggers accepts p now h' m')" "y = run_job p sl' k' tr'"
    by (auto simp: set_plan slot_job_form)
  moreover have s: "sl = sl'" "k = k'" using \<open>j_id x = j_id y\<close> x(4) y(4) by simp_all
  moreover have "tm = tm'" using slots_unique x(1) y(1) s(1) by blast
  ultimately have "tr = tr'" using trigger_of_key by auto
  then show "x = y" using s x(4) y(4) by simp
qed

text \<open>Planning a program leaves exactly its plan, whatever its schedule.\<close>

lemma own_jobs_plan:
  assumes "tracked s" "prog_enabled p" "plannable p" "\<forall>h m. parse_hhmm (prog_time p) = Some (h, m) \<longrightarrow> valid_hm h m"
  shows "own_jobs (prog_id p) (schedule_program accepts p s) = set (program_plan accepts p (now_of s))"
proof (cases rule: schedule_program_cases [of p accepts s])
  case (planned h m)
  let ?js = "program_plan accepts p (now_of s)" and ?c = "cancel_program (prog_id p) s"
  note f = planned_fields [OF planned(5)]
  have set_jobs: "set (jobs (schedule_program accepts p s)) = {j \<in> set (jobs ?c). j_id j \<notin> j_id ` set ?js} \<union> set ?js"
    unfolding f(1) using set_jobs_add_all [OF plan_inj, of accepts p "now_of s" "with_starts p h m ?c"] by (simp add: f(2))
  have "job_owner (j_id j) = Some (prog_id p)" if "j \<in> set ?js" for j using that by (rule plan_owner)
  moreover have "job_owner (j_id j) \<noteq> Some (prog_id p)" if "j \<in> set (jobs ?c)" for j
    using cancel_own_jobs [OF assms(1), of "prog_id p"] that by (auto simp: own_jobs_def)
  ultimately show ?thesis by (auto simp: own_jobs_def set_jobs)
qed (use assms in \<open>auto simp: plannable_def starts_ok_def\<close>)

subsection \<open>The jobs that fire on a day\<close>

text \<open>What APScheduler documents of the days on which its cron triggers fire.\<close>

definition cron_fires :: "(trigger \<Rightarrow> int \<Rightarrow> bool) \<Rightarrow> bool" where
  "cron_fires fires = ((\<forall>w h m d. fires (Cron_Weekday w h m) d = (d mod 7 = w)) \<and>
     (\<forall>ds h m d. fires (Cron_Monthdays ds h m) d = (mday_of d \<in> set ds)))"

text \<open>A schedule that both modules read alike.\<close>

definition alike :: "program \<Rightarrow> bool" where
  "alike p = (schedule_type p = ''weekdays'' \<and> prog_days p \<noteq> [] \<or>
     schedule_type p = ''even-odd'' \<and> even_odd p \<in> {Some ''even'', Some ''odd''})"

definition all_accepted :: "(trigger \<Rightarrow> bool) \<Rightarrow> program \<Rightarrow> bool" where
  "all_accepted accepts p = (\<forall>tm \<in> set (prog_time p # extra_times p). \<exists>h m. parse_hhmm tm = Some (h, m) \<and> valid_hm h m \<and>
     (\<forall>w \<in> set (prog_days p). accepts (Cron_Weekday w h m)) \<and>
     accepts (Cron_Monthdays even_days h m) \<and> accepts (Cron_Monthdays odd_days h m))"

definition key_of :: "program \<Rightarrow> int \<Rightarrow> int option" where
  "key_of p d = (if schedule_type p = ''weekdays'' then Some (d mod 7) else None)"

definition trigger_on :: "program \<Rightarrow> int \<Rightarrow> int \<times> int \<Rightarrow> trigger" where
  "trigger_on p d hm = (if schedule_type p = ''weekdays'' then Cron_Weekday (d mod 7) (fst hm) (snd hm)
     else Cron_Monthdays (if even_odd p = Some ''even'' then even_days else odd_days) (fst hm) (snd hm))"

lemma month_day_parity: "mday_of d \<in> set even_days \<longleftrightarrow> mday_of d mod 2 = 0" "mday_of d \<in> set odd_days \<longleftrightarrow> mday_of d mod 2 \<noteq> 0"
proof -
  have "1 \<le> mday_of d" "mday_of d \<le> 31" using date_bounds [of d] month_days_le [of "year_of d" "month_of d"] by linarith+
  then have "mday_of d \<in> {1..31}" by simp
  then have "mday_of d \<in> set [1..31]" by simp
  moreover have "list_all (\<lambda>k. (k \<in> set even_days) = (k mod 2 = 0) \<and> (k \<in> set odd_days) = (k mod 2 \<noteq> 0)) [1..31]" by code_simp
  ultimately show "mday_of d \<in> set even_days \<longleftrightarrow> mday_of d mod 2 = 0" "mday_of d \<in> set odd_days \<longleftrightarrow> mday_of d mod 2 \<noteq> 0"
    by (auto simp: list_all_iff)
qed

lemma lower_even_odd: "lower ''even'' = ''even''" "lower ''odd'' = ''odd''"
  by code_simp+

lemma firing_triggers:
  assumes "alike p" "cron_fires fires" "valid_hm h m" "\<forall>w \<in> set (prog_days p). accepts (Cron_Weekday w h m)"
    "accepts (Cron_Monthdays even_days h m)" "accepts (Cron_Monthdays odd_days h m)" "prog_enabled p"
  shows "{(k, tr) \<in> set (slot_triggers accepts p now h m). fires tr d} =
    (if program_runs_on created p d then {(key_of p d, trigger_on p d (h, m))} else {})"
proof (cases "schedule_type p = ''weekdays''")
  case True
  have "takeWhile (\<lambda>w. accepts (Cron_Weekday w h m)) (prog_days p) = prog_days p" using assms(4) by (simp add: takeWhile_eq_all_conv)
  then have "slot_triggers accepts p now h m = map (\<lambda>w. (Some w, Cron_Weekday w h m)) (prog_days p)"
    by (simp only: slot_triggers_def True if_True refl)
  then show ?thesis
    using True assms(2,7) by (auto simp: program_runs_on_def key_of_def trigger_on_def cron_fires_def)
next
  case False
  then have e: "schedule_type p = ''even-odd''" "even_odd p \<in> {Some ''even'', Some ''odd''}" using assms(1) by (auto simp: alike_def)
  then show ?thesis
    using assms(2,5-7) month_day_parity [of d]
    by (auto simp: slot_triggers_def program_runs_on_def key_of_def trigger_on_def cron_fires_def str_or_def lower_even_odd)
qed

definition job_on :: "program \<Rightarrow> int \<Rightarrow> start_slot \<times> string \<Rightarrow> job" where
  "job_on p d st = run_job p (fst st) (key_of p d) (trigger_on p d (the (parse_hhmm (snd st))))"

lemma firing_slot:
  assumes "alike p" "cron_fires fires" "all_accepted accepts p" "prog_enabled p" "(sl, tm) \<in> set (slots p)"
  shows "{j \<in> set (slot_jobs accepts p now tm sl). fires (j_trigger j) d} =
    (if program_runs_on created p d then {job_on p d (sl, tm)} else {})"
proof -
  have "tm \<in> set (prog_time p # extra_times p)" using assms(5) by (auto simp: slots_def)
  then obtain h m where hm: "parse_hhmm tm = Some (h, m)" "valid_hm h m" "\<forall>w \<in> set (prog_days p). accepts (Cron_Weekday w h m)"
    "accepts (Cron_Monthdays even_days h m)" "accepts (Cron_Monthdays odd_days h m)"
    using assms(3) unfolding all_accepted_def by blast
  have "{j \<in> set (slot_jobs accepts p now tm sl). fires (j_trigger j) d} =
      (\<lambda>(k, tr). run_job p sl k tr) ` {(k, tr) \<in> set (slot_triggers accepts p now h m). fires tr d}"
    by (auto simp: slot_job_form hm(1) run_job_def image_iff)
  then show ?thesis
    by (simp add: firing_triggers [OF assms(1,2) hm(2-5) assms(4), of now d created] job_on_def hm(1))
qed

lemma firing_jobs:
  assumes "alike p" "cron_fires fires" "all_accepted accepts p" "prog_enabled p"
  shows "int (card {j \<in> set (program_plan accepts p now). fires (j_trigger j) d}) = program_firings_count created p d"
proof -
  have "{j \<in> set (program_plan accepts p now). fires (j_trigger j) d} =
      (\<Union>st \<in> set (slots p). {j \<in> set (slot_jobs accepts p now (snd st) (fst st)). fires (j_trigger j) d})"
    by (auto simp: set_plan split_beta)
  also have "\<dots> = (\<Union>st \<in> set (slots p). if program_runs_on created p d then {job_on p d st} else {})"
    using firing_slot [OF assms, of _ _ now d created] by (intro SUP_cong refl) (simp add: prod.collapse)
  also have "\<dots> = (if program_runs_on created p d then job_on p d ` set (slots p) else {})" by auto
  finally have e: "{j \<in> set (program_plan accepts p now). fires (j_trigger j) d} =
      (if program_runs_on created p d then job_on p d ` set (slots p) else {})" .
  have "inj_on (job_on p d) (set (slots p))"
    using slots_unique by (auto simp: inj_on_def job_on_def run_job_def)
  then have "card (job_on p d ` set (slots p)) = length (slots p)"
    using distinct_slots(1) by (simp add: card_image distinct_card distinct_map)
  moreover have "length (coerce_times p) = length (slots p)"
  proof -
    have "t \<noteq> []" if "t \<in> set (prog_time p # extra_times p)" for t
      using assms(3) that by (auto simp: all_accepted_def parse_hhmm_def)
    then show ?thesis by (simp add: coerce_times_def distinct_slots(2) filter_id_conv)
  qed
  ultimately show ?thesis by (simp add: e program_firings_count_def)
qed

text \<open>
  C39: The plan of the page is the schedule.  For an enabled program by weekdays with at least one day, or by even
  and odd days with its parity stored, whose times are all readable and accepted by the scheduler, and with a
  job table whose program jobs are all known to the scheduler object, the minutes the page plans on a day for
  a zone of the program are the zone's duration times the number of start jobs of the program that fire on
  that day once it was scheduled.
\<close>

theorem history_plan_is_schedule:
  assumes "tracked s" "prog_enabled p" "i \<in> set (prog_zones p)" "alike p" "all_accepted accepts p" "cron_fires fires" "d \<in> set ds"
  shows "day_entry (calculate_plan_for_zone created i n ds [p]) d =
    n * int (card {j \<in> own_jobs (prog_id p) (schedule_program accepts p s). fires (j_trigger j) d})"
proof -
  have "plannable p" "\<forall>h m. parse_hhmm (prog_time p) = Some (h, m) \<longrightarrow> valid_hm h m"
    using assms(3-5) by (auto simp: plannable_def alike_def all_accepted_def)
  then have "own_jobs (prog_id p) (schedule_program accepts p s) = set (program_plan accepts p (now_of s))"
    using own_jobs_plan [OF assms(1,2)] by blast
  then show ?thesis
    using plan_entry [OF assms(7)] assms(3) firing_jobs [OF assms(4,6,5,2), of "now_of s" d created] by (simp add: plan_on_def)
qed

definition demo_fires :: "trigger \<Rightarrow> int \<Rightarrow> bool" where
  "demo_fires t d = (case t of Cron_Weekday w h m \<Rightarrow> d mod 7 = w | Cron_Monthdays ds h m \<Rightarrow> mday_of d \<in> set ds | _ \<Rightarrow> False)"

theorem history_plan_is_schedule_witness:
  "card {j \<in> own_jobs 4 (schedule_program (\<lambda>_. True) weekday_program (fresh_sched demo_world)). demo_fires (j_trigger j) 20000} =
     (if (20000 :: int) mod 7 \<in> {0, 2} then 2 else 0)"
proof -
  have time: "parse_hhmm ''06:30'' = Some (6, 30)" "parse_hhmm ''20:00'' = Some (20, 0)" "valid_hm 6 30" "valid_hm 20 0" by code_simp+
  have "all_accepted (\<lambda>_. True) weekday_program" "alike weekday_program" "prog_enabled weekday_program" "1 \<in> set (prog_zones weekday_program)"
    using time by (auto simp: all_accepted_def alike_def weekday_program_def)
  moreover have "cron_fires demo_fires" by (simp add: cron_fires_def demo_fires_def)
  ultimately have "day_entry (calculate_plan_for_zone (\<lambda>_. None) 1 1 [20000] [weekday_program]) 20000 =
      1 * int (card {j \<in> own_jobs (prog_id weekday_program) (schedule_program (\<lambda>_. True) weekday_program (fresh_sched demo_world)).
         demo_fires (j_trigger j) 20000})"
    by (intro history_plan_is_schedule) simp_all
  moreover have "day_entry (calculate_plan_for_zone (\<lambda>_. None) 1 1 [20000] [weekday_program]) 20000 =
      (if (20000 :: int) mod 7 \<in> {0, 2} then 2 else 0)" by code_simp
  ultimately show ?thesis by (simp add: weekday_program_def)
qed

subsection \<open>Where the page and the scheduler differ\<close>

text \<open>A program by even and odd days without a choice waters on odd days and is shown on even ones.\<close>

lemma unset_parity_shown_reversed:
  assumes "prog_enabled p" "schedule_type p = ''even-odd''" "even_odd p = None" "cron_fires fires"
    "(k, tr) \<in> set (slot_triggers accepts p now h m)"
  shows "fires tr d = (\<not> program_runs_on created p d)"
  using assms month_day_parity [of d]
  by (auto simp: slot_triggers_def program_runs_on_def cron_fires_def str_or_def lower_even_odd split: if_splits)

text \<open>A program every other day: planned again on its second day it starts at once, and the page does not show it.\<close>

definition every_other :: program where
  "every_other = weekday_program\<lparr>schedule_type := ''interval'', interval_days := Some 2, prog_days := [], extra_times := []\<rparr>"

lemma interval_starts_elsewhere:
  "slot_triggers (\<lambda>_. True) every_other (86400 * 20001) 6 30 = [(None, Every_Days 2 (86400 * 20001 + 23400))] \<and>
   \<not> program_runs_on (\<lambda>_. Some (86400 * 20000)) every_other 20001"
  by code_simp

text \<open>A time nothing is planned for is counted.\<close>

lemma unreadable_time_is_counted:
  "slot_jobs (\<lambda>_. True) (weekday_program\<lparr>extra_times := [''soon'']\<rparr>) 0 ''soon'' (Extra_Time 0) = [] \<and>
   length (coerce_times (weekday_program\<lparr>extra_times := [''soon'']\<rparr>)) = 2"
  by code_simp

text \<open>A group number beside a zone number is parsed when everything is done, and raises.\<close>

lemma late_group_number_raises:
  assumes "parse_days raw = Some n" "truthy_text zraw" "py_int (the zraw) = Some k"
  shows "get_global_history created off now raw (Some ''x'') zraw s = Inl 500"
proof -
  have "py_int ''x'' = None" by code_simp
  then show ?thesis using assms by (simp add: get_global_history_def select_zones_def truthy_text_def Let_def split_beta)
qed

text \<open>The litres of a failed run are summed although its minutes are not.\<close>

lemma failed_litres_counted:
  "make_summary [(20000, 0)] [(20000, 0)] [] False [old_run\<lparr>run_status := Some ''failed''\<rparr>] =
     \<lparr>sm_plan = 0, sm_saved = 0, sm_has_plan = False, sm_minutes = 0, sm_runs = 0, sm_liters = Some 12, sm_partial = False, sm_has_liters = True\<rparr>"
  by (simp add: make_summary_def saved_minutes_def aggregate_liters_def old_run_def map_filter_simps)

end
