(* ===== verification/Decision_Engine.thy ===== *)
theory Decision_Engine
  imports Prelude
begin

text \<open>
  The evapotranspiration calculator and the decision table: \<open>src/services/et_calculator.py\<close> and
  \<open>src/services/irrigation_decision.py\<close>.  Both are pure; nothing in \<open>src\<close> but the tests calls them.
  The reason of a decision is a value that names the rule and carries the numbers its text prints.
\<close>

subsection \<open>Tables of constants\<close>

definition altitude_correction :: "string \<Rightarrow> rat" where
  "altitude_correction site = (if site = ''orsk'' then 1 else if site = ''cholpon_ata'' then 112/100 else 1)"

definition lake_humidity_factor :: "string \<Rightarrow> rat" where
  "lake_humidity_factor site = (if site = ''orsk'' then 1 else if site = ''cholpon_ata'' then 92/100 else 1)"

definition min_irrigation_mm :: rat where "min_irrigation_mm = 2"
definition min_zone_runtime :: rat where "min_zone_runtime = 2"
definition max_zone_runtime :: rat where "max_zone_runtime = 60"
definition default_infiltration :: rat where "default_infiltration = 15"
definition soak_max_run :: rat where "soak_max_run = 8"
definition soak_pause :: rat where "soak_pause = 12"

subsection \<open>The need for water\<close>

definition lookup_et_base :: "rat \<Rightarrow> rat" where
  "lookup_et_base t =
     (if t < 5 then 0 else if t < 15 then 2 else if t < 20 then 3 else if t < 25 then 4
      else if t < 30 then 11/2 else if t < 35 then 13/2 else if t < 40 then 15/2 else 8)"

definition calc_kt :: "rat \<Rightarrow> rat" where
  "calc_kt t =
     (if t < 5 then 0 else if t < 10 then 1/2 else if t < 15 then 7/10 else if t < 20 then 85/100
      else if t < 25 then 1 else if t < 30 then 115/100 else if t < 35 then 125/100 else if t < 40 then 135/100 else 14/10)"

definition effective_rain :: "rat \<Rightarrow> rat" where
  "effective_rain p =
     (let c1 = min p 5; r1 = p - c1;
          c2 = (if r1 > 0 then min r1 10 else 0); r2 = r1 - c2
      in c1 * (90/100) + c2 * (75/100) + (if r2 > 0 then r2 * (50/100) else 0))"

definition calc_k_precip :: "rat \<Rightarrow> rat \<Rightarrow> rat" where
  "calc_k_precip need p = (if p \<le> 0 then need else max (need - effective_rain p) 0)"

definition calc_et_corrected :: "rat \<Rightarrow> string \<Rightarrow> rat" where
  "calc_et_corrected t site = lookup_et_base t * calc_kt t * altitude_correction site * lake_humidity_factor site"

definition calc_irrigation_need :: "rat \<Rightarrow> rat \<Rightarrow> string \<Rightarrow> rat" where
  "calc_irrigation_need t p site = calc_k_precip (calc_et_corrected t site) p"

definition calc_zone_runtime :: "rat \<Rightarrow> rat \<Rightarrow> rat" where
  "calc_zone_runtime need pr =
     (if pr \<le> 0 \<or> need \<le> 0 then 0
      else max min_zone_runtime (min max_zone_runtime (round_dec 1 (need / pr * 60))))"

subsection \<open>Cycle and soak\<close>

record cycle =
  run_min :: rat
  soak_min :: rat

text \<open>The \<open>while\<close> loop; \<open>None\<close> is a loop that never ends.\<close>

partial_function (option) soak_loop :: "rat \<Rightarrow> rat \<Rightarrow> cycle list \<Rightarrow> cycle list option" where
  "soak_loop max_run remaining cycles =
     (if 0 < remaining then
        (let run = min remaining max_run; rest = remaining - run
         in soak_loop max_run rest (cycles @ [\<lparr>run_min = round_dec 1 run, soak_min = (if 0 < rest then soak_pause else 0)\<rparr>]))
      else Some cycles)"

definition calc_cycle_soak :: "rat \<Rightarrow> rat \<Rightarrow> rat option \<Rightarrow> cycle list option" where
  "calc_cycle_soak runtime pr max_infiltration =
     (let rate = (case max_infiltration of None \<Rightarrow> default_infiltration | Some v \<Rightarrow> v)
      in if pr \<le> rate then Some [\<lparr>run_min = round_dec 1 runtime, soak_min = 0\<rparr>]
         else soak_loop (min (rate / pr * 60) soak_max_run) runtime [])"

subsection \<open>The decision table\<close>

datatype action = D_Stop | D_Skip | D_Postpone | D_Emergency | D_Irrigate

datatype reason =
    Off_Season
  | Frost rat
  | Windy rat
  | Rained rat
  | Rain_Coming rat
  | Soil_Moist rat
  | Soil_Critical rat
  | Below_Min rat
  | Irrigate rat "string option"

record decision =
  dc_action :: action
  dc_reason :: reason
  dc_rule :: int
  dc_coefficient :: int
  dc_syringe :: bool
  dc_syringe_time :: "string option"
  dc_extra :: "(string \<times> rat) list"

definition plain_decision :: "action \<Rightarrow> reason \<Rightarrow> int \<Rightarrow> int \<Rightarrow> (string \<times> rat) list \<Rightarrow> decision" where
  "plain_decision a r i c ex =
     \<lparr>dc_action = a, dc_reason = r, dc_rule = i, dc_coefficient = c, dc_syringe = False, dc_syringe_time = None, dc_extra = ex\<rparr>"

definition season_bounds :: "string \<Rightarrow> ((int \<times> int) \<times> (int \<times> int)) option" where
  "season_bounds site =
     (if site = ''orsk'' then Some ((4, 15), (10, 31)) else if site = ''cholpon_ata'' then Some ((4, 1), (10, 31)) else None)"

definition date_le :: "int \<times> int \<Rightarrow> int \<times> int \<Rightarrow> bool" where
  "date_le a b = (fst a < fst b \<or> fst a = fst b \<and> snd a \<le> snd b)"

definition is_in_season :: "string \<Rightarrow> int \<Rightarrow> int \<Rightarrow> bool" where
  "is_in_season site month day =
     (case season_bounds site of None \<Rightarrow> False | Some (a, b) \<Rightarrow> date_le a (month, day) \<and> date_le (month, day) b)"

definition frost_threshold :: rat where "frost_threshold = 5"
definition gust_threshold :: rat where "gust_threshold = 25"
definition rain_24h_threshold :: rat where "rain_24h_threshold = 5"
definition rain_forecast_threshold :: rat where "rain_forecast_threshold = 5"
definition soil_moist_ok :: rat where "soil_moist_ok = 50"
definition soil_critical :: rat where "soil_critical = 30"
definition emergency_boost :: int where "emergency_boost = 20"

definition syringe_config :: "string \<Rightarrow> (rat \<times> string) option" where
  "syringe_config site =
     (if site = ''orsk'' then Some (35, ''13:00'') else if site = ''cholpon_ata'' then Some (28, ''12:00'') else None)"

record conditions =
  cn_site :: string
  cn_month :: int
  cn_day :: int
  cn_t_avg :: rat
  cn_t_current :: rat
  cn_rain_24h :: rat
  cn_rain_48h :: rat
  cn_rain_forecast :: rat
  cn_wind :: rat
  cn_soil :: "rat option"

definition syringe_for :: "string \<Rightarrow> rat \<Rightarrow> string \<Rightarrow> bool" where
  "syringe_for name t st =
     (st = name \<and> (case syringe_config st of None \<Rightarrow> False | Some (limit, tm) \<Rightarrow> limit < t))"

definition syringe_time_of :: "string \<Rightarrow> rat \<Rightarrow> string option" where
  "syringe_time_of st t =
     (if syringe_for ''orsk'' t st \<or> syringe_for ''cholpon_ata'' t st then map_option snd (syringe_config st) else None)"

text \<open>Rules 8 to 12, once no rule before them applies.\<close>

definition need_of :: "conditions \<Rightarrow> rat" where
  "need_of c = calc_irrigation_need (cn_t_avg c) (cn_rain_48h c) (cn_site c)"

definition decide_by_need :: "conditions \<Rightarrow> decision" where
  "decide_by_need c =
     (let need = need_of c; tm = syringe_time_of (cn_site c) (cn_t_current c)
      in if need < min_irrigation_mm then plain_decision D_Skip (Below_Min need) 8 0 []
         else \<lparr>dc_action = D_Irrigate, dc_reason = Irrigate need tm,
                dc_rule = (if tm = None then 12 else if cn_site c = ''orsk'' then 9 else 10), dc_coefficient = 100,
                dc_syringe = (tm \<noteq> None), dc_syringe_time = tm, dc_extra = [(''irrigation_need_mm'', round_dec 2 need)]\<rparr>)"

definition evaluate_decision :: "conditions \<Rightarrow> decision" where
  "evaluate_decision c =
     (if \<not> is_in_season (cn_site c) (cn_month c) (cn_day c) then plain_decision D_Stop Off_Season 1 0 []
      else if cn_t_current c < frost_threshold then plain_decision D_Stop (Frost (cn_t_current c)) 2 0 []
      else if gust_threshold < cn_wind c
        then plain_decision D_Postpone (Windy (cn_wind c)) 3 100 [(''retry_hours'', 2), (''max_retries'', 3)]
      else if rain_24h_threshold < cn_rain_24h c then plain_decision D_Skip (Rained (cn_rain_24h c)) 4 0 []
      else if rain_forecast_threshold < cn_rain_forecast c then plain_decision D_Skip (Rain_Coming (cn_rain_forecast c)) 5 0 []
      else case cn_soil c of
        Some m \<Rightarrow>
          (if soil_moist_ok \<le> m then plain_decision D_Skip (Soil_Moist m) 6 0 []
           else if m < soil_critical
             then plain_decision D_Emergency (Soil_Critical m) 7 (100 + emergency_boost) [(''boost_pct'', of_int emergency_boost)]
           else decide_by_need c)
      | None \<Rightarrow> decide_by_need c)"

text \<open>The list of checked rules the verbose variant returns beside the decision.\<close>

record rule_check =
  rc_rule :: int
  rc_name :: string
  rc_triggered :: bool

definition check_rule :: "int \<Rightarrow> string \<Rightarrow> bool \<Rightarrow> rule_check" where
  "check_rule i n b = \<lparr>rc_rule = i, rc_name = n, rc_triggered = b\<rparr>"

definition rules_checked :: "conditions \<Rightarrow> rule_check list" where
  "rules_checked c =
     [check_rule 1 ''off_season'' (\<not> is_in_season (cn_site c) (cn_month c) (cn_day c)),
      check_rule 2 ''frost'' (cn_t_current c < frost_threshold),
      check_rule 3 ''wind'' (gust_threshold < cn_wind c),
      check_rule 4 ''rain_24h'' (rain_24h_threshold < cn_rain_24h c),
      check_rule 5 ''rain_forecast'' (rain_forecast_threshold < cn_rain_forecast c)]
     @ (case cn_soil c of
          Some m \<Rightarrow> [check_rule 6 ''soil_moist'' (soil_moist_ok \<le> m), check_rule 7 ''soil_critical'' (m < soil_critical)]
        | None \<Rightarrow> [check_rule 6 ''soil_moist'' False, check_rule 7 ''soil_critical'' False])
     @ [check_rule 8 ''below_min'' (need_of c < min_irrigation_mm)]"

definition evaluate_decision_verbose :: "conditions \<Rightarrow> decision \<times> rule_check list \<times> rat" where
  "evaluate_decision_verbose c = (evaluate_decision c, rules_checked c, round_dec 2 (need_of c))"

end
