(* ===== verification/Decision_Laws.thy ===== *)
theory Decision_Laws
  imports Decision_Engine
begin

text \<open>
  The decision table decides by its first rule that applies, the need for water moves the right way with
  rain and temperature, and the split into cycles waters the whole time, when it ends.
\<close>

subsection \<open>The need for water\<close>

lemma et_base_mono: "s \<le> t \<Longrightarrow> lookup_et_base s \<le> lookup_et_base t" and et_base_nonneg: "0 \<le> lookup_et_base t"
  by (auto simp: lookup_et_base_def)

lemma kt_mono: "s \<le> t \<Longrightarrow> calc_kt s \<le> calc_kt t" and kt_nonneg: "0 \<le> calc_kt t"
  by (auto simp: calc_kt_def)

lemma site_factor_nonneg: "0 \<le> altitude_correction st * lake_humidity_factor st"
  by (simp add: altitude_correction_def lake_humidity_factor_def)

lemma et_mono: "s \<le> t \<Longrightarrow> calc_et_corrected s st \<le> calc_et_corrected t st"
  unfolding calc_et_corrected_def
  using mult_right_mono [OF mult_mono' [OF et_base_mono kt_mono et_base_nonneg kt_nonneg] site_factor_nonneg [of st], of s t s t]
  by (simp add: mult.assoc)

lemma et_nonneg: "0 \<le> calc_et_corrected t st"
  unfolding calc_et_corrected_def
  using mult_nonneg_nonneg [OF mult_nonneg_nonneg [OF et_base_nonneg [of t] kt_nonneg [of t]] site_factor_nonneg [of st]]
  by (simp add: mult.assoc)

lemma effective_mono: "p \<le> q \<Longrightarrow> effective_rain p \<le> effective_rain q"
  by (auto simp: effective_rain_def Let_def min_def field_simps)

lemma effective_bounds: "0 \<le> p \<Longrightarrow> 0 \<le> effective_rain p \<and> effective_rain p \<le> p * (9/10)"
  by (auto simp: effective_rain_def Let_def min_def field_simps)

text \<open>
  The need for water grows with the temperature and falls with the rain, it is never negative and never
  above the need of a dry day, and no rain is credited with more than nine tenths of what fell.
\<close>

lemma need_moves_with_weather:
  assumes "s \<le> t" "q \<le> p"
  shows "calc_irrigation_need s p st \<le> calc_irrigation_need t q st" "0 \<le> calc_irrigation_need t q st"
    "calc_irrigation_need t q st \<le> calc_et_corrected t st"
    "calc_et_corrected t st - max q 0 * (9/10) \<le> calc_irrigation_need t q st"
  using et_mono [OF assms(1), of st] et_nonneg [of t st] effective_mono [OF assms(2)] effective_bounds [of p] effective_bounds [of q] assms(2)
  by (auto simp: calc_irrigation_need_def calc_k_precip_def max_def)

lemma zone_runtime_bounds:
  "calc_zone_runtime need pr = 0 \<or> min_zone_runtime \<le> calc_zone_runtime need pr \<and> calc_zone_runtime need pr \<le> max_zone_runtime"
  by (auto simp: calc_zone_runtime_def min_zone_runtime_def max_zone_runtime_def)

subsection \<open>The first rule that applies\<close>

text \<open>What each rule decides.\<close>

definition rule_action :: "int \<Rightarrow> action" where
  "rule_action i = (if i \<le> 2 then D_Stop else if i = 3 then D_Postpone else if i = 7 then D_Emergency else D_Skip)"

definition rule_coefficient :: "int \<Rightarrow> int" where
  "rule_coefficient i = (if i = 3 then 100 else if i = 7 then 120 else 0)"

text \<open>
  The decision table.  The decision is that of the first rule of the checked list that applies, with
  the action and the coefficient of that rule; when none of the eight applies the answer is to irrigate
  with 100 percent at least the smallest amount, and the syringe rule of the site is named exactly when
  it is hotter than the site's limit.
\<close>

theorem first_rule_decides:
  "case List.find rc_triggered (rules_checked c) of
     Some r \<Rightarrow> dc_rule (evaluate_decision c) = rc_rule r \<and> dc_action (evaluate_decision c) = rule_action (rc_rule r) \<and>
       dc_coefficient (evaluate_decision c) = rule_coefficient (rc_rule r) \<and> \<not> dc_syringe (evaluate_decision c)
   | None \<Rightarrow> dc_action (evaluate_decision c) = D_Irrigate \<and> dc_coefficient (evaluate_decision c) = 100 \<and>
       min_irrigation_mm \<le> need_of c \<and>
       dc_syringe (evaluate_decision c) = (case syringe_config (cn_site c) of None \<Rightarrow> False | Some (limit, tm) \<Rightarrow> limit < cn_t_current c) \<and>
       dc_rule (evaluate_decision c) = (if dc_syringe (evaluate_decision c) then if cn_site c = ''orsk'' then 9 else 10 else 12)"
proof -
  let ?off = "\<not> is_in_season (cn_site c) (cn_month c) (cn_day c)" and ?rain = "rain_24h_threshold < cn_rain_24h c"
    and ?coming = "rain_forecast_threshold < cn_rain_forecast c"
  note defs = evaluate_decision_def rules_checked_def check_rule_def plain_decision_def rule_action_def rule_coefficient_def
    emergency_boost_def
  show ?thesis
  proof (cases "?off \<or> cn_t_current c < frost_threshold \<or> gust_threshold < cn_wind c \<or> ?rain \<or> ?coming")
    case True
    then show ?thesis
      by (cases ?off; cases "cn_t_current c < frost_threshold"; cases "gust_threshold < cn_wind c"; cases ?rain; simp add: defs)
  next
    case False
    have m: "soil_moist_ok \<le> m \<Longrightarrow> \<not> m < soil_critical" for m by (simp add: soil_moist_ok_def soil_critical_def)
    have n: "case List.find rc_triggered [check_rule 8 ''below_min'' (need_of c < min_irrigation_mm)] of
        Some r \<Rightarrow> dc_rule (decide_by_need c) = 8 \<and> rc_rule r = 8 \<and> dc_action (decide_by_need c) = D_Skip \<and>
          dc_coefficient (decide_by_need c) = 0 \<and> \<not> dc_syringe (decide_by_need c)
      | None \<Rightarrow> dc_action (decide_by_need c) = D_Irrigate \<and> dc_coefficient (decide_by_need c) = 100 \<and> min_irrigation_mm \<le> need_of c \<and>
          dc_syringe (decide_by_need c) = (case syringe_config (cn_site c) of None \<Rightarrow> False | Some (limit, tm) \<Rightarrow> limit < cn_t_current c) \<and>
          dc_rule (decide_by_need c) = (if dc_syringe (decide_by_need c) then if cn_site c = ''orsk'' then 9 else 10 else 12)"
      by (auto simp: decide_by_need_def check_rule_def plain_decision_def Let_def syringe_time_of_def syringe_for_def syringe_config_def)
    show ?thesis
    proof (cases "cn_soil c")
      case None
      then show ?thesis using False n by (auto simp: defs split: if_splits)
    next
      case (Some v)
      then show ?thesis using False n m [of v]
        by (cases "soil_moist_ok \<le> v"; cases "v < soil_critical"; cases "need_of c < min_irrigation_mm"; simp add: defs)
    qed
  qed
qed

subsection \<open>Cycle and soak\<close>

lemma enough_runs: "\<exists>k. q \<le> of_nat k" for q :: rat
  by (rule real_arch_simple)

lemma soak_loop_done: "remaining \<le> 0 \<Longrightarrow> soak_loop m remaining cs = Some cs"
  by (subst soak_loop.simps) simp

lemma soak_loop_step:
  "0 < remaining \<Longrightarrow> soak_loop m remaining cs =
     soak_loop m (remaining - min remaining m) (cs @ [\<lparr>run_min = round_dec 1 (min remaining m),
       soak_min = (if 0 < remaining - min remaining m then soak_pause else 0)\<rparr>])"
  by (subst soak_loop.simps) (simp add: Let_def)

text \<open>The exact cycles: full runs of the longest length, then what is left.\<close>

fun exact_runs :: "nat \<Rightarrow> rat \<Rightarrow> rat \<Rightarrow> rat list" where
  "exact_runs 0 m remaining = []"
| "exact_runs (Suc k) m remaining = (if 0 < remaining then min remaining m # exact_runs k m (remaining - min remaining m) else [])"

definition as_cycles :: "rat list \<Rightarrow> cycle list" where
  "as_cycles rs = map (\<lambda>k. \<lparr>run_min = round_dec 1 (rs ! k), soak_min = (if Suc k < length rs then soak_pause else 0)\<rparr>) [0..<length rs]"

lemma as_cycles_Cons: "as_cycles (r # rs) = \<lparr>run_min = round_dec 1 r, soak_min = (if rs \<noteq> [] then soak_pause else 0)\<rparr> # as_cycles rs"
proof -
  have "[0..<length (r # rs)] = 0 # map Suc [0..<length rs]" by (metis map_Suc_upt length_Cons upt_conv_Cons zero_less_Suc)
  then show ?thesis by (simp add: as_cycles_def comp_def)
qed

lemma soak_loop_exact:
  "0 < m \<Longrightarrow> remaining \<le> of_nat k * m \<Longrightarrow> soak_loop m remaining cs = Some (cs @ as_cycles (exact_runs k m remaining))"
proof (induction k arbitrary: remaining cs)
  case 0
  then show ?case by (simp add: soak_loop_done as_cycles_def)
next
  case (Suc k)
  show ?case
  proof (cases "0 < remaining")
    case True
    have le: "remaining - min remaining m \<le> of_nat k * m" using Suc.prems by (auto simp: min_def algebra_simps)
    have ne: "(exact_runs k m (remaining - min remaining m) \<noteq> []) = (0 < remaining - min remaining m)"
      using le Suc.prems(1) by (cases k) auto
    show ?thesis using True Suc.IH [OF Suc.prems(1) le] ne by (simp add: soak_loop_step as_cycles_Cons)
  qed (simp add: soak_loop_done as_cycles_def)
qed

lemma exact_runs_sum: "0 < m \<Longrightarrow> 0 \<le> remaining \<Longrightarrow> remaining \<le> of_nat k * m \<Longrightarrow> sum_list (exact_runs k m remaining) = remaining"
proof (induction k arbitrary: remaining)
  case (Suc k)
  have "remaining - min remaining m \<le> of_nat k * m" "0 \<le> remaining - min remaining m"
    using Suc.prems by (auto simp: min_def algebra_simps)
  then show ?case using Suc by simp
qed simp

lemma exact_runs_bound: "0 < m \<Longrightarrow> r \<in> set (exact_runs k m remaining) \<Longrightarrow> 0 < r \<and> r \<le> m"
  by (induction k arbitrary: remaining) (auto split: if_splits)

lemma never_ends_lemma: "soak_loop m remaining cs = Some r \<Longrightarrow> \<not> (m \<le> 0 \<and> 0 < remaining)"
proof (rule soak_loop.raw_induct [where P = "\<lambda>m remaining cs r. \<not> (m \<le> 0 \<and> 0 < remaining)", rotated], assumption)
  fix f m remaining cs r
  assume IH: "\<And>m remaining cs r. f m remaining cs = Some r \<Longrightarrow> \<not> (m \<le> 0 \<and> 0 < remaining)"
    and eq: "(if 0 < remaining then (let run = min remaining m; rest = remaining - run
        in f m rest (cs @ [\<lparr>run_min = round_dec 1 run, soak_min = (if 0 < rest then soak_pause else 0)\<rparr>])) else Some cs) = Some r"
  show "\<not> (m \<le> 0 \<and> 0 < remaining)"
  proof
    assume a: "m \<le> 0 \<and> 0 < remaining"
    then have m: "min remaining m = m" by simp
    have "\<not> (m \<le> 0 \<and> 0 < remaining - m)" using eq a by (intro IH) (simp add: Let_def m)
    then show False using a by simp
  qed
qed

text \<open>
  Cycles and soaks.  A runtime under a nozzle that outruns the soil is split into cycles whose runs
  add up to it exactly before they are rounded for the answer, none longer than the soil takes up nor
  than eight minutes, with a pause after each but the last; the loop ends because each run is positive.
  With an infiltration rate of zero or less it never ends.
\<close>

theorem cycle_soak_ends:
  assumes "0 < runtime" "0 < pr" "rate < pr" "rate = (case max_infiltration of None \<Rightarrow> default_infiltration | Some v \<Rightarrow> v)"
  shows "if 0 < rate
    then \<exists>rs. calc_cycle_soak runtime pr max_infiltration = Some (as_cycles rs) \<and> sum_list rs = runtime \<and>
      (\<forall>r \<in> set rs. 0 < r \<and> r \<le> rate / pr * 60 \<and> r \<le> soak_max_run)
    else calc_cycle_soak runtime pr max_infiltration = None"
proof -
  define m where "m = min (rate / pr * 60) soak_max_run"
  have e: "calc_cycle_soak runtime pr max_infiltration = soak_loop m runtime []"
    using assms(3) by (simp add: calc_cycle_soak_def assms(4) [symmetric] m_def Let_def)
  show ?thesis
  proof (cases "0 < rate")
    case True
    then have m: "0 < m" using assms(2) by (simp add: m_def soak_max_run_def)
    obtain k :: nat where "runtime / m \<le> of_nat k" using enough_runs by blast
    then have k: "runtime \<le> of_nat k * m" using m by (simp add: field_simps)
    have "calc_cycle_soak runtime pr max_infiltration = Some (as_cycles (exact_runs k m runtime))"
      using soak_loop_exact [OF m k, of "[]"] by (simp only: e append_Nil)
    moreover have "sum_list (exact_runs k m runtime) = runtime" by (rule exact_runs_sum [OF m less_imp_le [OF assms(1)] k])
    moreover have "0 < r \<and> r \<le> rate / pr * 60 \<and> r \<le> soak_max_run" if "r \<in> set (exact_runs k m runtime)" for r
      using exact_runs_bound [OF m that] by (simp add: m_def)
    ultimately show ?thesis unfolding if_P [OF True] by blast
  next
    case False
    then have "m \<le> 0" using assms(2) by (simp add: m_def min_le_iff_disj divide_nonpos_pos)
    then have "soak_loop m runtime [] = None" using never_ends_lemma [of m runtime "[]"] assms(1) by (cases "soak_loop m runtime []") blast+
    then show ?thesis unfolding if_not_P [OF False] e .
  qed
qed

theorem cycle_soak_ends_witness:
  "(\<exists>rs. calc_cycle_soak 20 40 None = Some (as_cycles rs) \<and> sum_list rs = 20) \<and> calc_cycle_soak 20 40 (Some 0) = None"
proof
  have "(15 :: rat) = (case None of None \<Rightarrow> default_infiltration | Some v \<Rightarrow> v)" by (simp add: default_infiltration_def)
  from cycle_soak_ends [OF _ _ _ this, of 20 40]
  have "if (0 :: rat) < 15 then \<exists>rs. calc_cycle_soak 20 40 None = Some (as_cycles rs) \<and> sum_list rs = 20 \<and>
      (\<forall>r \<in> set rs. 0 < r \<and> r \<le> 15 / 40 * 60 \<and> r \<le> soak_max_run) else calc_cycle_soak 20 40 None = None"
    by linarith
  then show "\<exists>rs. calc_cycle_soak 20 40 None = Some (as_cycles rs) \<and> sum_list rs = 20"
    unfolding if_P [OF zero_less_numeral] by blast
  show "calc_cycle_soak 20 40 (Some 0) = None"
    using cycle_soak_ends [of 20 40 0 "Some 0"] by simp
qed

text \<open>A need below the smallest amount is not set to zero.\<close>

lemma small_need_is_kept: "calc_irrigation_need 6 0 ''orsk'' = 1 \<and> 1 < min_irrigation_mm"
  by code_simp

end
