(* ===== verification/Spec2Isabelle.thy ===== *)
theory Spec2Isabelle
  imports Mqtt_Delivery Lifecycle_Laws State_Types Balance_Laws Weather_Laws Rate_Limits Program_Requests Next_Watering Zones_Api_Laws Tank_Queue_Laws History_Plan Decision_Laws
begin

text \<open>
  A verification development for the irrigation controller of this repository: a Flask
  application that keeps zones, groups, programs and watering runs in SQLite, switches relays over
  MQTT and plans its work with APScheduler.  What is modelled is the logic that decides which
  valve is open when: the repositories, the valve controller, message delivery, the verification
  of relay answers, the programs, the scheduler with the threads it runs, the watchdogs, boot and
  shutdown, and the HTTP handlers through which people start and stop zones.

  \<^bold>\<open>How the parts work together.\<close>  A program row (\<open>db/programs.py\<close>) becomes start jobs of the
  scheduler (\<open>irrigation_scheduler.py\<close>).  Starting a zone, by a job or by hand, goes through
  \<open>services/zone_control.py\<close>, which writes the zone state (\<open>services/zones_state.py\<close>), opens a run in
  \<open>zone_runs\<close> (\<open>db/zones.py\<close>), publishes relay commands (\<open>services/mqtt_pub.py\<close>), opens the group's
  master valve and asks the verifier (\<open>services/observed_state.py\<close>) to check the relay.  Stopping goes
  through one function that finishes the run with the meter's volume
  (\<open>services/monitors/water_monitor.py\<close>) and arms the delayed close of the master valve.  The
  watchdogs (\<open>services/watchdog.py\<close>, \<open>services/app_init.py\<close>) go round the zones beside all this, and
  the routes call the controller and the scheduler in turn.

  \<^bold>\<open>Theories, bottom up.\<close>
  \<^item> \<open>Prelude\<close>: Python values and strings, tables as lists of rows, and two interfaces: \<open>row_update\<close>
    (an \<open>UPDATE\<close> never changes the key) and \<open>pointwise_op\<close>/\<open>idem_op\<close> (an operation that rewrites
    one row), with what follows for folds, and \<open>safe_machine\<close>/\<open>trap\<close> (steps that keep an invariant,
    a condition no step undoes), interpreted on the tank monitor and on the program queues.
  \<^item> \<open>Calendar\<close>, \<open>Timestamps\<close>: dates and weekdays, \<open>strptime\<close> and \<open>strftime\<close> and their round trip.
  \<^item> \<open>Topics\<close> (\<open>utils.normalize_topic\<close>), \<open>Events\<close> (\<open>services/events.py\<close>).
  \<^item> \<open>Zone_Store\<close>, \<open>Zone_Runs\<close>: the tables and the methods of \<open>db/zones.py\<close>, with \<open>db/groups.py\<close> and
    the server lookup of \<open>db/mqtt.py\<close>.
  \<^item> \<open>Water_Monitor\<close>: meter samples, readings and run totals.
  \<^item> \<open>Zone_State\<close>: the world record, the two-message publish, \<open>update_zone_state\<close> with its audit.
  \<^item> \<open>Zone_Control\<close>: every operation of \<open>zone_control.py\<close>.  \<open>Zone_Control_Laws\<close> has the mutual
    exclusion of a start, \<open>Zone_Stop_Laws\<close> the stop path, \<open>Emergency_Laws\<close> the emergency stop and
    the delayed closes.
  \<^item> \<open>Observed_State\<close>: the verifier as a step function over its attempts, the fault record.
  \<^item> \<open>Mqtt_Delivery\<close>: the retry loops of \<open>mqtt_pub.py\<close>, the interface \<open>transport\<close>, interpreted both
    on the controllers' publish and on the detailed one, and the refinement between them over
    sequences of relay commands.
  \<^item> \<open>Programs\<close>, \<open>Program_Laws\<close>: program rows, the overlap check, cancellations
    and the next run of a zone.
  \<^item> \<open>Scheduler\<close>: the job table and every operation on it.  \<open>Scheduler_Laws\<close> plans as a list of jobs and
    the reachable schedulers, \<open>Session_Laws\<close> cancellation, recovery and boot.
  \<^item> \<open>Runner\<close>: the threads \<open>_run_program_threaded\<close> and \<open>_run_group_sequence\<close> with their second-by-second
    wait.  \<open>Runner_Laws\<close> has the rely condition on the rest of the process and what the threads turn
    off, \<open>Thread_Laws\<close> sessions, cancelled groups and the time a thread takes.
  \<^item> \<open>Lifecycle\<close>: boot synchronisation, reconciliation of open runs, the rounds of both watchdogs, the
    systemd heartbeat, the shutdown.  \<open>Lifecycle_Laws\<close> what each of them leaves behind.
  \<^item> \<open>Http_Control\<close>, \<open>Http_Groups\<close>: the handlers of \<open>routes/zones_watering_api.py\<close>,
    \<open>routes/groups_api.py\<close>, \<open>routes/system_emergency_api.py\<close> and the request guards of \<open>app.py\<close>, each
    with its replies.  \<open>Http_Laws\<close> stops and the emergency switch, \<open>Http_Start_Laws\<close> starts by hand,
    \<open>Access_Laws\<close> the guards and the master valve, \<open>State_Types\<close> the type of a zone's state over every
    operation of the process.
  \<^item> \<open>Programs_Api\<close>: the handlers of \<open>routes/programs_api.py\<close>.  \<open>Program_Requests\<close> has the interface
    \<open>planner\<close>, boots on kept start jobs, cancelled programs, the agreement of the job table with the program
    table over requests and restarts, refusals and the stored weekdays.
  \<^item> \<open>Zones_Api\<close>: the handlers of \<open>routes/zones_crud_api.py\<close>.  \<open>Zones_Api_Laws\<close> has what they leave
    alone (interface \<open>import_column\<close> of \<open>Zone_Store\<close>) and the duration checks, \<open>Next_Watering\<close> the agreement of
    both computations of the next watering.
  \<^item> \<open>Relay_Hub\<close>: \<open>services/sse_hub.py\<close>, which hears the relays, writes what they report into zones and runs
    and passes it on to the browsers.  \<open>Relay_Laws\<close> has what a report does, that it cannot break an
    emergency stop, how it re-plans the stop of a zone, and the bounds of the queues.
  \<^item> \<open>History\<close>: \<open>services/history_calc.py\<close> and \<open>routes/zones_history_api.py\<close>, the page of planned and actual
    minutes.  \<open>History_Laws\<close>: which runs the text bounds of its query find, and that selections add up;
    \<open>History_Plan\<close>: its plan against the start jobs of the scheduler.
  \<^item> \<open>Settings\<close>: the key-value table of \<open>db/settings.py\<close> and the typed configuration on it.
  \<^item> \<open>Rain_Sensor\<close>: \<open>services/monitors/rain_monitor.py\<close>, the rain configuration and the postponement
    request of \<open>routes/system_config_api.py\<close>.  \<open>Column_Frames\<close> has the interface \<open>quiet_column\<close> (what
    stopping leaves alone), \<open>Rain_Laws\<close> what rain and postponements do to zones and programs.
  \<^item> \<open>Decimals\<close>: \<open>float(str)\<close> and \<open>str(float)\<close>.  \<open>Weather_Data\<close>: \<open>client.py\<close>, \<open>cache.py\<close>, \<open>models.py\<close> and
    \<open>service.py\<close> of \<open>services/weather/\<close>; \<open>Weather_Balance\<close>: \<open>balance.py\<close>; \<open>Weather_Adjust\<close>: \<open>adjustment.py\<close>
    and \<open>services/monitors/env_monitor.py\<close>.  \<open>Weather_Laws\<close> has the safety thresholds and the watering time
    composed with the program thread and the trust in sensors and files, \<open>Balance_Laws\<close>
    the water balance.
  \<^item> \<open>Decision_Engine\<close>: \<open>services/et_calculator.py\<close> and \<open>services/irrigation_decision.py\<close>, two pure modules
    that only tests call; \<open>Decision_Laws\<close>: the first rule decides, the need for water, the split into cycles.
  \<^item> \<open>Rate_Limits\<close>: both limiters, \<open>services/api_rate_limiter.py\<close> as an interpretation of \<open>sliding_window\<close> and
    \<open>services/rate_limiter.py\<close> with the login requests interleaved, the login, the roles of \<open>services/security.py\<close> and
    the password change.
  \<^item> \<open>Float_Monitor\<close>: the tank float switches (\<open>services/float_monitor.py\<close>, \<open>db/float.py\<close>), one step
    function over messages, timeout rounds, loads and reloads.  \<open>Float_Laws\<close>: the row of a group after each
    step, debouncing, the trips and the timeout, and the interface \<open>group_canceller\<close> the monitor relies on.
  \<^item> \<open>Program_Queue\<close>: \<open>services/program_queue.py\<close>, callers and workers as interleaved steps, and the
    completion tracker.  \<open>Queue_Laws\<close>: the invariant, what a step can do to an entry, the measure of a
    worker.  \<open>Tank_Queue_Laws\<close>: the monitor in front of the queue, the properties of the queues, and the
    interleavings the locks leave open.

  \<^bold>\<open>State.\<close>  The records extend one another: \<open>db\<close> (tables), \<open>world\<close> (audit rows, messages sent,
  close timers, meters, event bus), \<open>sched\<close> (job table, sessions, clock), \<open>app\<close> (the emergency flag and
  the throttle of group requests).  The settings table and the rain monitor are records of their own.  An operation takes the
  state and returns it with its result, so an operation of a lower layer runs unchanged on the
  state of a higher one; that it leaves the upper fields alone is proved (\<open>keeps_sched\<close>).

  \<^bold>\<open>Conventions.\<close>  A \<open>sqlite3.Error\<close> is the flag \<open>db_up\<close> being false: each repository method then takes
  its \<open>except\<close> branch.  A timestamp is an \<open>int\<close> (seconds), a \<open>float\<close> a \<open>rat\<close>.  Python's \<open>int\<close> is
  \<open>int\<close>.  Exceptions that no handler catches are values of \<open>py_error\<close>.  The production configuration is
  modelled (\<open>TESTING\<close> unset).  A handler returns a status code and the fields of its JSON body that
  depend on the state.  Sleeps and log lines are left out; audit rows of zone states are kept.

  \<^bold>\<open>Bounds.\<close>  All loops are structural or have a proved termination measure, but for \<open>soak_loop\<close>, which need
  not end and for which it is proved when it does; no fuel is used except
  the code's own limits: ten publish tries and three waits per client, two clients per topic, three
  verification attempts, fourteen days of look-ahead for the next run.

  \<^bold>\<open>Outside code\<close> is a parameter: the broker (\<open>broker\<close>, \<open>outcome\<close>, \<open>dial\<close>, \<open>link\<close>), the payloads a
  verifier hears, what APScheduler accepts as a trigger (\<open>accepts\<close>), the weather of
  each second in \<open>Runner\<close> and the answers of the forecast service in \<open>Weather_Data\<close>.

  \<^bold>\<open>Concurrency.\<close>  A start of a zone, a stop, an emergency stop, a request and a relay report are one step each.
  The locks of the code justify this for the start only: \<open>exclusive_start_zone\<close> holds the group's lock
  throughout its own part; \<open>stop_zone\<close> gives the zone's lock back while it publishes, an emergency stop takes
  the zones one after another, and the relay hub takes no lock.  What is split into steps: the delayed close of
  a master valve, with other threads before every access to the database or the broker (\<open>do_close\<close>); the
  attempts of the verifier; the firing of a job (\<open>sched_step\<close>); the check and the comparison of a login; the
  level monitor's flag under its lock and each of its calls of the queue after it (\<open>tank_queue\<close>).  A program thread
  sleeps between its steps: at each second of a wait the rest of the process acts on the state as an
  arbitrary function, and the theorems say what they rely on from it.  A worker of the program queues
  has a program counter with a value for every point where it holds no lock, and the theorems about
  the queues hold for every interleaving of callers and workers.

  \<^bold>\<open>Not modelled\<close>: the routes that only edit tables or render pages, the chat front end, logging and schema migrations.
\<close>

end
